(* ===== verification/Prelude.thy ===== *)
theory Prelude
  imports Main "HOL-Library.Word"
begin

text \<open>
  Shared vocabulary of the development: the machine integers of the Rust code, its checked
  and saturating arithmetic on them, and \<open>Result\<close> values as a sum with the error on the
  left.  \<open>usize\<close> counts (lengths, offsets) are \<^typ>\<open>nat\<close>; where the code guards a
  \<open>usize\<close> overflow the bound \<open>2 ^ 64\<close> is written out.
\<close>

section \<open>Machine integers\<close>

type_synonym u8 = "8 word"
type_synonym u16 = "16 word"
type_synonym u32 = "32 word"
type_synonym u64 = "64 word"
type_synonym u256 = "256 word"
type_synonym u512 = "512 word"
type_synonym bytes = "u8 list"

text \<open>The two collections that carry most proofs: unfolding of \<open>Result\<close> plumbing, and
  the numeric reading (\<^const>\<open>unat\<close>) of checked operations.\<close>

named_theorems result_simps "inversion rules for Result values"
named_theorems numeric_simps "reading of checked and saturating operations as numbers"

definition checked_add :: "'a::len word \<Rightarrow> 'a word \<Rightarrow> 'a word option" where
  "checked_add x y = (if unat x + unat y < 2 ^ LENGTH('a) then Some (x + y) else None)"

definition checked_sub :: "'a::len word \<Rightarrow> 'a word \<Rightarrow> 'a word option" where
  "checked_sub x y = (if y \<le> x then Some (x - y) else None)"

definition saturating_add :: "'a::len word \<Rightarrow> 'a word \<Rightarrow> 'a word" where
  "saturating_add x y = (if unat x + unat y < 2 ^ LENGTH('a) then x + y else - 1)"

definition saturating_sub :: "'a::len word \<Rightarrow> 'a word \<Rightarrow> 'a word" where
  "saturating_sub x y = (if y \<le> x then x - y else 0)"

definition saturating_mul :: "'a::len word \<Rightarrow> 'a word \<Rightarrow> 'a word" where
  "saturating_mul x y = (if unat x * unat y < 2 ^ LENGTH('a) then x * y else - 1)"

lemma unat_add_exact:
  "unat x + unat y < 2 ^ LENGTH('a) \<Longrightarrow> unat (x + y :: 'a::len word) = unat x + unat y"
  by (simp add: unat_word_ariths)

lemma unat_mult_exact:
  "unat x * unat y < 2 ^ LENGTH('a) \<Longrightarrow> unat (x * y :: 'a::len word) = unat x * unat y"
  by (simp add: unat_word_ariths)

lemma unat_sub_exact: "y \<le> x \<Longrightarrow> unat (x - y :: 'a::len word) = unat x - unat y"
  by (rule unat_sub)

lemma unat_bound: "unat (x :: 'a::len word) < 2 ^ LENGTH('a)"
  by (rule unsigned_less)

lemma unat_max_word: "unat (- 1 :: 'a::len word) = 2 ^ LENGTH('a) - 1"
  by (simp add: unsigned_minus_1_eq_mask mask_eq_exp_minus_1)

lemma unat_of_nat_lt: "n < 2 ^ LENGTH('a) \<Longrightarrow> unat (word_of_nat n :: 'a::len word) = n"
  by (simp add: unat_of_nat)

lemma word_of_nat_unat [simp]: "word_of_nat (unat w) = (w :: 'a::len word)"
  by (simp add: word_unat_eq_iff unat_of_nat_lt)

unbundle bit_operations_syntax

lemma nat_push_or: "(y::nat) < 2 ^ k \<Longrightarrow> push_bit k x OR y = x * 2 ^ k + y"
proof -
  assume y: "y < 2 ^ k"
  have "\<not> bit y m" if "k \<le> m" for m
    using y that by (metis take_bit_nat_eq_self bit_take_bit_iff not_le)
  then have "push_bit k x AND y = 0"
    by (intro bit_eqI) (auto simp: bit_and_iff bit_push_bit_iff)
  then have "push_bit k x + y = push_bit k x OR y"
    by (rule disjunctive_add_eq_or)
  then show ?thesis by (simp add: push_bit_nat_def)
qed

lemma word_push_or:
  "y < 2 ^ k \<Longrightarrow>
   push_bit k (word_of_nat x :: 'a::len word) OR word_of_nat y = word_of_nat (x * 2 ^ k + y)"
  by (simp only: nat_push_or [symmetric] of_nat_or_eq of_nat_push_bit)

lemma unat_ucast_up:
  "LENGTH('a) \<le> LENGTH('b) \<Longrightarrow> unat (ucast (w :: 'a::len word) :: 'b::len word) = unat w"
  by (simp add: unsigned_ucast_eq take_bit_nat_eq_self
      order_less_le_trans [OF unat_bound [of w] power_increasing])

lemma unat_min_word: "unat (min a b :: 'a::len word) = min (unat a) (unat b)"
  by (simp add: min_def word_le_nat_alt)

lemma unat_max_of: "unat (max a b :: 'a::len word) = max (unat a) (unat b)"
  by (simp add: max_def word_le_nat_alt)

lemma clamp_commute: "max (min a b) 1 = max 1 (min b (a :: nat))"
  by (simp add: max.commute min.commute)

lemma checked_add_Some [numeric_simps]:
  "checked_add x y = Some (z :: 'a::len word) \<longleftrightarrow> unat z = unat x + unat y"
proof
  assume "checked_add x y = Some z"
  then show "unat z = unat x + unat y"
    by (auto simp: checked_add_def unat_add_exact split: if_splits)
next
  assume *: "unat z = unat x + unat y"
  then have lt: "unat x + unat y < 2 ^ LENGTH('a)"
    using unat_bound [of z] by simp
  then have "x + y = z"
    by (metis * unat_add_exact word_unat_eq_iff)
  with lt show "checked_add x y = Some z" by (simp add: checked_add_def)
qed

lemma checked_add_None [numeric_simps]:
  "checked_add x y = None \<longleftrightarrow> 2 ^ LENGTH('a) \<le> unat x + unat (y :: 'a::len word)"
  by (auto simp: checked_add_def)

lemma checked_sub_Some [numeric_simps]:
  "checked_sub x y = Some (z :: 'a::len word) \<longleftrightarrow> unat x = unat z + unat y"
proof
  assume "checked_sub x y = Some z"
  then show "unat x = unat z + unat y"
    by (auto simp: checked_sub_def unat_sub word_le_nat_alt split: if_splits)
next
  assume *: "unat x = unat z + unat y"
  then have le: "y \<le> x" by (simp add: word_le_nat_alt)
  then have "x - y = z"
    using * by (simp add: word_unat_eq_iff unat_sub)
  with le show "checked_sub x y = Some z" by (simp add: checked_sub_def)
qed

lemma checked_sub_None [numeric_simps]:
  "checked_sub x y = None \<longleftrightarrow> unat x < unat (y :: 'a::len word)"
  by (auto simp: checked_sub_def word_le_nat_alt)

lemma unat_saturating_add [numeric_simps]:
  "unat (saturating_add x y :: 'a::len word) = min (unat x + unat y) (2 ^ LENGTH('a) - 1)"
  by (auto simp: saturating_add_def unat_add_exact unat_max_word)

lemma unat_saturating_sub [numeric_simps]:
  "unat (saturating_sub x y :: 'a::len word) = unat x - unat y"
  by (auto simp: saturating_sub_def unat_sub word_le_nat_alt)

lemma unat_saturating_mul [numeric_simps]:
  "unat (saturating_mul x y :: 'a::len word) = min (unat x * unat y) (2 ^ LENGTH('a) - 1)"
  by (auto simp: saturating_mul_def unat_mult_exact unat_max_word)


text \<open>\<open>Option::filter\<close>.\<close>

definition opt_filter :: "('a \<Rightarrow> bool) \<Rightarrow> 'a option \<Rightarrow> 'a option" where
  "opt_filter P m = (case m of Some x \<Rightarrow> if P x then Some x else None | None \<Rightarrow> None)"

lemma opt_filter_Some: "opt_filter P m = Some x \<longleftrightarrow> m = Some x \<and> P x"
  by (auto simp: opt_filter_def split: option.splits)

lemma opt_filter_None: "opt_filter P m = None \<longleftrightarrow> (\<forall>x. m = Some x \<longrightarrow> \<not> P x)"
  by (auto simp: opt_filter_def split: option.splits)

section \<open>Results\<close>

text \<open>\<open>Result<T, E>\<close> is \<^typ>\<open>'e + 'a\<close>; the \<open>?\<close> operator is \<^term>\<open>rbind\<close>, an early
  \<open>return Err\<close> under a condition is \<open>ensure\<close> on the negated condition.\<close>

definition rbind :: "'e + 'a \<Rightarrow> ('a \<Rightarrow> 'e + 'b) \<Rightarrow> 'e + 'b" where
  "rbind m f = (case m of Inl e \<Rightarrow> Inl e | Inr x \<Rightarrow> f x)"

definition ensure :: "bool \<Rightarrow> 'e \<Rightarrow> 'e + unit" where
  "ensure c e = (if c then Inr () else Inl e)"

definition ok_or :: "'a option \<Rightarrow> 'e \<Rightarrow> 'e + 'a" where
  "ok_or m e = (case m of None \<Rightarrow> Inl e | Some x \<Rightarrow> Inr x)"

definition map_err :: "('e \<Rightarrow> 'f) \<Rightarrow> 'e + 'a \<Rightarrow> 'f + 'a" where
  "map_err g m = (case m of Inl e \<Rightarrow> Inl (g e) | Inr x \<Rightarrow> Inr x)"

text \<open>\<open>Iterator::try_fold\<close>, also the shape of every \<open>for\<close> loop whose body uses \<open>?\<close>.\<close>

fun try_fold :: "('s \<Rightarrow> 'a \<Rightarrow> 'e + 's) \<Rightarrow> 's \<Rightarrow> 'a list \<Rightarrow> 'e + 's" where
  "try_fold f s [] = Inr s"
| "try_fold f s (x # xs) = rbind (f s x) (\<lambda>s'. try_fold f s' xs)"

lemma rbind_simps [simp]:
  "rbind (Inl e) f = Inl e" "rbind (Inr x) f = f x"
  by (simp_all add: rbind_def)

lemma rbind_Inr [result_simps]: "rbind m f = Inr y \<longleftrightarrow> (\<exists>x. m = Inr x \<and> f x = Inr y)"
  by (cases m) (auto simp: rbind_def)

lemma rbind_Inl [result_simps]:
  "rbind m f = Inl e \<longleftrightarrow> m = Inl e \<or> (\<exists>x. m = Inr x \<and> f x = Inl e)"
  by (cases m) (auto simp: rbind_def)

lemma ensure_Inr [result_simps]: "ensure c e = Inr u \<longleftrightarrow> c"
  by (cases u) (simp add: ensure_def)

lemma ensure_Inl [result_simps]: "ensure c e = Inl e' \<longleftrightarrow> \<not> c \<and> e' = e"
  by (auto simp: ensure_def)

lemma ensure_simps [simp]: "ensure True e = Inr ()" "ensure False e = Inl e"
  by (simp_all add: ensure_def)

lemma ok_or_Inr [result_simps]: "ok_or m e = Inr x \<longleftrightarrow> m = Some x"
  by (auto simp: ok_or_def split: option.splits)

lemma ok_or_Inl [result_simps]: "ok_or m e = Inl e' \<longleftrightarrow> m = None \<and> e' = e"
  by (auto simp: ok_or_def split: option.splits)

lemma ok_or_simps [simp]: "ok_or None e = Inl e" "ok_or (Some x) e = Inr x"
  by (simp_all add: ok_or_def)

lemma map_err_Inr [result_simps]: "map_err g m = Inr x \<longleftrightarrow> m = Inr x"
  by (auto simp: map_err_def split: sum.splits)

lemma map_err_Inl [result_simps]: "map_err g m = Inl e \<longleftrightarrow> (\<exists>e'. m = Inl e' \<and> e = g e')"
  by (auto simp: map_err_def split: sum.splits)

lemma map_err_simps [simp]: "map_err g (Inl e) = Inl (g e)" "map_err g (Inr x) = Inr x"
  by (simp_all add: map_err_def)

lemma bind_case_Inr [result_simps]:
  "rbind m (\<lambda>(x, y). f x y) = Inr r \<longleftrightarrow> (\<exists>x y. m = Inr (x, y) \<and> f x y = Inr r)"
  by (auto simp: rbind_Inr)

lemma if_Inl [result_simps]: "(if c then Inl e else m) = Inr r \<longleftrightarrow> \<not> c \<and> m = Inr r"
  by simp

lemma rbind_assoc: "rbind (rbind m f) g = rbind m (\<lambda>x. rbind (f x) g)"
  by (cases m) simp_all

lemma rbind_Inr_right [simp]: "rbind m Inr = m"
  by (simp add: rbind_def split: sum.split)

lemma try_fold_append:
  "try_fold f s (xs @ ys) = rbind (try_fold f s xs) (\<lambda>s'. try_fold f s' ys)"
  by (induction xs arbitrary: s) (simp_all add: rbind_assoc)

lemma try_fold_invariant:
  assumes "try_fold f s xs = Inr s'" and "P s"
    and "\<And>s x s'. x \<in> set xs \<Longrightarrow> P s \<Longrightarrow> f s x = Inr s' \<Longrightarrow> P s'"
  shows "P s'"
  using assms
proof (induction xs arbitrary: s)
  case (Cons x xs)
  from Cons.prems(1) obtain s1 where s1: "f s x = Inr s1" "try_fold f s1 xs = Inr s'"
    by (auto simp: result_simps)
  have "P s1" using Cons.prems(2) Cons.prems(3) [of x s s1] s1(1) by simp
  with Cons.IH [OF s1(2)] Cons.prems(3) show ?case by (meson list.set_intros(2))
qed simp

text \<open>Where every element transforms the state and some measure of it by a known amount, the
  measure of the result is the sum.\<close>

lemma try_fold_sum:
  assumes "try_fold f s xs = Inr s'"
    and "\<And>s x s'. x \<in> set xs \<Longrightarrow> f s x = Inr s' \<Longrightarrow> (m s' :: nat) = m s + g x"
  shows "m s' = m s + sum_list (map g xs)"
  using assms
proof (induction xs arbitrary: s)
  case (Cons x xs)
  from Cons.prems(1) obtain s1 where s1: "f s x = Inr s1" "try_fold f s1 xs = Inr s'"
    by (auto simp: result_simps)
  have "m s1 = m s + g x" using Cons.prems(2) s1(1) by simp
  moreover have "m s' = m s1 + sum_list (map g xs)"
    using Cons.IH s1(2) Cons.prems(2) by simp
  ultimately show ?case by simp
qed simp

end
