(* ===== verification/Byte_Array.thy ===== *)
theory Byte_Array
  imports Prelude "HOL-Library.List_Lexorder"
begin

text \<open>
  The fixed-size byte arrays \<open>[u8; N]\<close> of the code as one type indexed by its length,
  with Rust's derived (lexicographic) order, and the little-endian byte forms of the machine
  integers (\<open>to_le_bytes\<close>, \<open>from_le_bytes\<close>).
\<close>

section \<open>Arrays\<close>

typedef (overloaded) ('n::len) barr = "{xs :: bytes. length xs = LENGTH('n)}"
  morphisms array_bytes Abs_barr
  by (rule exI [of _ "replicate LENGTH('n) 0"]) simp

setup_lifting type_definition_barr

lemma length_array_bytes [simp]: "length (array_bytes (a :: 'n::len barr)) = LENGTH('n)"
  using array_bytes [of a] by simp

lemma array_bytes_eq_iff: "array_bytes a = array_bytes b \<longleftrightarrow> a = b"
  by (rule array_bytes_inject)

text \<open>\<open>try_into\<close> from a slice, and the total version used where the length is known.\<close>

definition array_try_from :: "bytes \<Rightarrow> ('n::len) barr option" where
  "array_try_from xs = (if length xs = LENGTH('n) then Some (Abs_barr xs) else None)"

definition array_of :: "bytes \<Rightarrow> ('n::len) barr" where
  "array_of xs =
     (if length xs = LENGTH('n) then Abs_barr xs else Abs_barr (replicate LENGTH('n) 0))"

definition array_zero :: "('n::len) barr" where
  "array_zero = array_of (replicate LENGTH('n) 0)"

lemma array_bytes_of [simp]:
  "length xs = LENGTH('n) \<Longrightarrow> array_bytes (array_of xs :: 'n::len barr) = xs"
  by (simp add: array_of_def Abs_barr_inverse)

lemma array_of_bytes [simp]: "array_of (array_bytes a) = a"
  by (simp add: array_of_def array_bytes_inverse)

lemma array_bytes_zero [simp]:
  "array_bytes (array_zero :: 'n::len barr) = replicate LENGTH('n) 0"
  by (simp add: array_zero_def)

lemma array_try_from_Some:
  "array_try_from xs = Some (a :: 'n::len barr) \<longleftrightarrow> xs = array_bytes a"
  by (auto simp: array_try_from_def array_bytes_inverse Abs_barr_inverse)

lemma array_try_from_None:
  "array_try_from xs = (None :: 'n::len barr option) \<longleftrightarrow> length xs \<noteq> LENGTH('n)"
  by (simp add: array_try_from_def)

lemma array_try_from_bytes [simp]: "array_try_from (array_bytes a) = Some a"
  by (simp add: array_try_from_Some)

lemma array_of_inject:
  "length xs = LENGTH('n) \<Longrightarrow> length ys = LENGTH('n) \<Longrightarrow>
   (array_of xs :: 'n::len barr) = array_of ys \<longleftrightarrow> xs = ys"
  by (metis array_bytes_of)

instantiation barr :: (len) linorder
begin

definition less_eq_barr :: "'a barr \<Rightarrow> 'a barr \<Rightarrow> bool" where
  "less_eq_barr a b \<longleftrightarrow> array_bytes a \<le> array_bytes b"

definition less_barr :: "'a barr \<Rightarrow> 'a barr \<Rightarrow> bool" where
  "less_barr a b \<longleftrightarrow> array_bytes a < array_bytes b"

instance proof
  fix x y z :: "'a barr"
  show "x < y \<longleftrightarrow> x \<le> y \<and> \<not> y \<le> x"
    by (simp add: less_eq_barr_def less_barr_def less_le_not_le)
  show "x \<le> y \<Longrightarrow> y \<le> x \<Longrightarrow> x = y"
    by (metis antisym array_bytes_eq_iff less_eq_barr_def)
qed (auto simp: less_eq_barr_def)

end

instantiation barr :: (len) equal
begin

definition equal_barr :: "'a barr \<Rightarrow> 'a barr \<Rightarrow> bool" where
  "equal_barr a b \<longleftrightarrow> array_bytes a = array_bytes b"

instance by standard (simp add: equal_barr_def array_bytes_inject)

end

type_synonym hash32 = "32 barr"
type_synonym address = "25 barr"

section \<open>Little-endian integers\<close>

fun le_bytes_nat :: "nat \<Rightarrow> nat \<Rightarrow> bytes" where
  "le_bytes_nat 0 n = []"
| "le_bytes_nat (Suc k) n = word_of_nat (n mod 256) # le_bytes_nat k (n div 256)"

fun le_nat :: "bytes \<Rightarrow> nat" where
  "le_nat [] = 0"
| "le_nat (b # bs) = unat b + 256 * le_nat bs"

definition to_le_bytes :: "'a::len word \<Rightarrow> bytes" where
  "to_le_bytes w = le_bytes_nat (LENGTH('a) div 8) (unat w)"

definition from_le_bytes :: "bytes \<Rightarrow> 'a::len word" where
  "from_le_bytes bs = word_of_nat (le_nat bs)"

lemma length_le_bytes_nat [simp]: "length (le_bytes_nat k n) = k"
  by (induction k n rule: le_bytes_nat.induct) simp_all

lemma length_to_le_bytes [simp]: "length (to_le_bytes (w :: 'a::len word)) = LENGTH('a) div 8"
  by (simp add: to_le_bytes_def)

lemma le_nat_le_bytes_nat: "le_nat (le_bytes_nat k n) = n mod 256 ^ k"
proof (induction k n rule: le_bytes_nat.induct)
  case (2 k n)
  then show ?case
    by (simp add: unat_of_nat mod_mult2_eq ac_simps)
qed simp

lemma le_bytes_nat_le_nat: "le_bytes_nat (length bs) (le_nat bs) = bs"
proof (induction bs)
  case (Cons b bs)
  have b: "unat b < 256" using unat_bound [of b] by simp
  then have "(unat b + 256 * le_nat bs) div 256 = le_nat bs" by simp
  with Cons b show ?case by simp
qed simp

lemma le_nat_bound: "le_nat bs < 256 ^ length bs"
proof (induction bs)
  case (Cons b bs)
  have "unat b < 256" using unat_bound [of b] by simp
  then have "unat b + 256 * le_nat bs < 256 * (le_nat bs + 1)" by simp
  also have "\<dots> \<le> 256 * 256 ^ length bs" using Cons by simp
  finally show ?case by simp
qed simp

lemma from_to_le_bytes:
  assumes "8 dvd LENGTH('a)"
  shows "from_le_bytes (to_le_bytes (w :: 'a::len word)) = w"
proof -
  have "(256 :: nat) ^ (LENGTH('a) div 8) = 2 ^ LENGTH('a)"
    using assms power_mult [of "2::nat" 8 "LENGTH('a) div 8"] by simp
  then show ?thesis
    by (simp add: from_le_bytes_def to_le_bytes_def le_nat_le_bytes_nat)
qed

end
