(* ===== verification/Codec.thy ===== *)
theory Codec
  imports Byte_Array
begin

text \<open>
  The consensus codec of \<open>src/codec.rs\<close>.  A \<open>Writer\<close> only ever appends, so each writer
  method is the list of bytes it appends.  A \<open>Reader\<close> holds a borrowed slice that no method
  changes and an offset: a decoder takes the slice and the offset and returns the value with the
  new offset, or the first error.  The interface that every encodable object meets is the locale
  \<open>codec\<close>: one law that says exactly which inputs a decoder accepts.
\<close>

datatype codec_error =
    EndOfInput
  | LimitExceeded (actual: nat) (limit: nat)
  | InvalidTag u8
  | NonCanonical string
  | TrailingBytes nat
  | InvalidUtf8

type_synonym 'a decoder = "bytes \<Rightarrow> nat \<Rightarrow> codec_error + 'a \<times> nat"

definition MAX_CONSENSUS_ALLOCATION :: nat where
  "MAX_CONSENSUS_ALLOCATION = 8 * 1024 * 1024"

definition USIZE_MAX :: nat where
  "USIZE_MAX = 2 ^ 64 - 1"

section \<open>Writer\<close>

definition put_u8 :: "u8 \<Rightarrow> bytes" where
  "put_u8 v = [v]"

definition put_u16 :: "u16 \<Rightarrow> bytes" where
  "put_u16 v = to_le_bytes v"

definition put_u32 :: "u32 \<Rightarrow> bytes" where
  "put_u32 v = to_le_bytes v"

definition put_u64 :: "u64 \<Rightarrow> bytes" where
  "put_u64 v = to_le_bytes v"

definition put_fixed :: "bytes \<Rightarrow> bytes" where
  "put_fixed v = v"

definition put_bytes :: "bytes \<Rightarrow> bytes" where
  "put_bytes v = put_u32 (word_of_nat (length v)) @ put_fixed v"

definition put_string :: "bytes \<Rightarrow> bytes" where
  "put_string v = put_bytes v"

section \<open>Reader\<close>

definition rd_take :: "nat \<Rightarrow> bytes decoder" where
  "rd_take count bs off =
     (if USIZE_MAX < off + count then Inl (LimitExceeded USIZE_MAX (length bs))
      else if length bs < off + count then Inl EndOfInput
      else Inr (take count (drop off bs), off + count))"

definition get_u8 :: "u8 decoder" where
  "get_u8 bs off = rbind (rd_take 1 bs off) (\<lambda>(xs, off). Inr (xs ! 0, off))"

definition get_u16 :: "u16 decoder" where
  "get_u16 bs off = rbind (rd_take 2 bs off) (\<lambda>(xs, off). Inr (from_le_bytes xs, off))"

definition get_u32 :: "u32 decoder" where
  "get_u32 bs off = rbind (rd_take 4 bs off) (\<lambda>(xs, off). Inr (from_le_bytes xs, off))"

definition get_u64 :: "u64 decoder" where
  "get_u64 bs off = rbind (rd_take 8 bs off) (\<lambda>(xs, off). Inr (from_le_bytes xs, off))"

definition get_fixed :: "('n::len) barr decoder" where
  "get_fixed bs off = rbind (rd_take LENGTH('n) bs off) (\<lambda>(xs, off). Inr (array_of xs, off))"

definition get_bytes :: "nat \<Rightarrow> bytes decoder" where
  "get_bytes mx bs off =
     rbind (get_u32 bs off) (\<lambda>(n, off).
       let len = unat n in
       if mx < len \<or> MAX_CONSENSUS_ALLOCATION < len
       then Inl (LimitExceeded len (min mx MAX_CONSENSUS_ALLOCATION))
       else rd_take len bs off)"

text \<open>\<open>std::str::from_utf8\<close> accepts exactly the well-formed UTF-8 byte sequences.\<close>

definition utf8_cont :: "u8 \<Rightarrow> bool" where
  "utf8_cont b \<longleftrightarrow> 0x80 \<le> b \<and> b \<le> 0xBF"

definition utf8_second :: "u8 \<Rightarrow> u8 \<Rightarrow> bool" where
  "utf8_second b0 b1 \<longleftrightarrow>
     (if b0 = 0xE0 then 0xA0 \<le> b1 \<and> b1 \<le> 0xBF
      else if b0 = 0xED then 0x80 \<le> b1 \<and> b1 \<le> 0x9F
      else if b0 = 0xF0 then 0x90 \<le> b1 \<and> b1 \<le> 0xBF
      else if b0 = 0xF4 then 0x80 \<le> b1 \<and> b1 \<le> 0x8F
      else utf8_cont b1)"

fun utf8_valid :: "bytes \<Rightarrow> bool" where
  "utf8_valid [] = True"
| "utf8_valid (b0 # r) =
     (if b0 < 0x80 then utf8_valid r
      else case r of
        [] \<Rightarrow> False
      | b1 # r1 \<Rightarrow>
          if 0xC2 \<le> b0 \<and> b0 \<le> 0xDF then utf8_cont b1 \<and> utf8_valid r1
          else case r1 of
            [] \<Rightarrow> False
          | b2 # r2 \<Rightarrow>
              if 0xE0 \<le> b0 \<and> b0 \<le> 0xEF
              then utf8_second b0 b1 \<and> utf8_cont b2 \<and> utf8_valid r2
              else case r2 of
                [] \<Rightarrow> False
              | b3 # r3 \<Rightarrow>
                  0xF0 \<le> b0 \<and> b0 \<le> 0xF4 \<and> utf8_second b0 b1 \<and> utf8_cont b2 \<and> utf8_cont b3
                    \<and> utf8_valid r3)"

definition get_string :: "nat \<Rightarrow> bytes decoder" where
  "get_string mx bs off =
     rbind (get_bytes mx bs off) (\<lambda>(s, off). if utf8_valid s then Inr (s, off) else Inl InvalidUtf8)"

definition get_vector_len :: "nat \<Rightarrow> nat decoder" where
  "get_vector_len mx bs off =
     rbind (get_u32 bs off) (\<lambda>(n, off).
       let len = unat n in
       if mx < len then Inl (LimitExceeded len mx) else Inr (len, off))"

definition rd_remaining :: "bytes \<Rightarrow> nat \<Rightarrow> nat" where
  "rd_remaining bs off = length bs - off"

definition rd_finish :: "bytes \<Rightarrow> nat \<Rightarrow> codec_error + unit" where
  "rd_finish bs off =
     (if rd_remaining bs off = 0 then Inr () else Inl (TrailingBytes (rd_remaining bs off)))"

definition consensus_decode :: "'a decoder \<Rightarrow> bytes \<Rightarrow> codec_error + 'a" where
  "consensus_decode dec bs =
     (if MAX_CONSENSUS_ALLOCATION < length bs
      then Inl (LimitExceeded (length bs) MAX_CONSENSUS_ALLOCATION)
      else rbind (dec bs 0) (\<lambda>(v, off). rbind (rd_finish bs off) (\<lambda>_. Inr v)))"

text \<open>The two shapes every compound decoder uses: a counted loop, and an object nested in a
  length-prefixed byte string.\<close>

fun get_repeat :: "nat \<Rightarrow> 'a decoder \<Rightarrow> 'a list decoder" where
  "get_repeat 0 d bs off = Inr ([], off)"
| "get_repeat (Suc n) d bs off =
     rbind (d bs off) (\<lambda>(x, off).
       rbind (get_repeat n d bs off) (\<lambda>(xs, off). Inr (x # xs, off)))"

definition get_nested :: "nat \<Rightarrow> 'a decoder \<Rightarrow> 'a decoder" where
  "get_nested mx d bs off =
     rbind (get_bytes mx bs off) (\<lambda>(s, off).
       rbind (consensus_decode d s) (\<lambda>v. Inr (v, off)))"

text \<open>A vector: the count, then the elements, either in place or each one length-prefixed.\<close>

definition put_list :: "('a \<Rightarrow> bytes) \<Rightarrow> 'a list \<Rightarrow> bytes" where
  "put_list enc xs = put_u32 (word_of_nat (length xs)) @ concat (map enc xs)"

definition get_list :: "nat \<Rightarrow> 'a decoder \<Rightarrow> 'a list decoder" where
  "get_list mx d bs off =
     rbind (get_vector_len mx bs off) (\<lambda>(count, off). get_repeat count d bs off)"

definition put_vec :: "('a \<Rightarrow> bytes) \<Rightarrow> 'a list \<Rightarrow> bytes" where
  "put_vec enc = put_list (\<lambda>x. put_bytes (enc x))"

definition get_vec :: "nat \<Rightarrow> nat \<Rightarrow> 'a decoder \<Rightarrow> 'a list decoder" where
  "get_vec mx each d = get_list mx (get_nested each d)"

section \<open>The codec interface\<close>

text \<open>\<open>seg_at bs off seg off'\<close>: the slice holds \<open>seg\<close> from \<open>off\<close> up to \<open>off'\<close>.\<close>

definition seg_at :: "bytes \<Rightarrow> nat \<Rightarrow> bytes \<Rightarrow> nat \<Rightarrow> bool" where
  "seg_at bs off seg off' \<longleftrightarrow>
     off' = off + length seg \<and> off' \<le> length bs \<and> take (length seg) (drop off bs) = seg"

lemma take_append_split:
  assumes "length a \<le> length xs"
  shows "take (length a + length b) xs = a @ b \<longleftrightarrow>
    take (length a) xs = a \<and> take (length b) (drop (length a) xs) = b"
  using assms by (simp add: take_add append_eq_append_conv)

lemma seg_at_append:
  "seg_at bs off (a @ b) off2 \<longleftrightarrow> (\<exists>off1. seg_at bs off a off1 \<and> seg_at bs off1 b off2)"
proof (cases "off + length a + length b \<le> length bs")
  case True
  then have "length a \<le> length (drop off bs)" by simp
  from take_append_split [OF this, of b] True show ?thesis
    by (auto simp: seg_at_def add.assoc add.commute [of "length a" off])
next
  case False
  then show ?thesis by (auto simp: seg_at_def)
qed

lemma seg_at_Nil: "seg_at bs off [] off' \<longleftrightarrow> off' = off \<and> off \<le> length bs"
  by (auto simp: seg_at_def)

lemma seg_at_le: "seg_at bs off seg off' \<Longrightarrow> off' \<le> length bs"
  by (simp add: seg_at_def)

lemma seg_at_whole: "seg_at bs 0 seg off \<and> length bs - off = 0 \<longleftrightarrow> seg = bs \<and> off = length bs"
proof
  assume *: "seg_at bs 0 seg off \<and> length bs - off = 0"
  then have "length bs \<le> length seg" and t: "take (length seg) bs = seg" and off: "off = length seg"
    by (simp_all add: seg_at_def)
  then have "bs = seg" by simp
  with off show "seg = bs \<and> off = length bs" by simp
qed (simp add: seg_at_def)

locale codec =
  fixes enc :: "'a \<Rightarrow> bytes" and dec :: "'a decoder" and wf :: "'a \<Rightarrow> bool"
  assumes law: "length bs < 2 ^ 64 \<Longrightarrow>
    dec bs off = Inr (v, off') \<longleftrightarrow> wf v \<and> seg_at bs off (enc v) off'"
begin

lemma decode_iff:
  "consensus_decode dec bs = Inr v \<longleftrightarrow> wf v \<and> bs = enc v \<and> length bs \<le> MAX_CONSENSUS_ALLOCATION"
proof (cases "length bs \<le> MAX_CONSENSUS_ALLOCATION")
  case True
  then have small: "length bs < 2 ^ 64" by (simp add: MAX_CONSENSUS_ALLOCATION_def)
  have "consensus_decode dec bs = Inr v \<longleftrightarrow> (\<exists>off. dec bs 0 = Inr (v, off) \<and> length bs - off = 0)"
    using True by (auto simp: consensus_decode_def result_simps rd_finish_def rd_remaining_def
        split: if_splits)
  also have "\<dots> \<longleftrightarrow> (\<exists>off. wf v \<and> seg_at bs 0 (enc v) off \<and> length bs - off = 0)"
    by (simp add: law [OF small])
  also have "\<dots> \<longleftrightarrow> wf v \<and> bs = enc v"
    using seg_at_whole [of bs "enc v"] by auto
  finally show ?thesis using True by simp
next
  case False
  then show ?thesis by (simp add: consensus_decode_def)
qed

lemma round_trip:
  "wf v \<Longrightarrow> length (enc v) \<le> MAX_CONSENSUS_ALLOCATION \<Longrightarrow> consensus_decode dec (enc v) = Inr v"
  by (simp add: decode_iff)

lemma canonical: "consensus_decode dec bs = Inr v \<Longrightarrow> enc v = bs"
  by (simp add: decode_iff)

lemma decoded_wf: "consensus_decode dec bs = Inr v \<Longrightarrow> wf v"
  by (simp add: decode_iff)

text \<open>No encoding is a proper prefix of another one, so encodings are injective.\<close>

lemma prefix_free:
  assumes "wf v" and "wf v'" and "enc v @ xs = enc v' @ ys" and "length (enc v @ xs) < 2 ^ 64"
  shows "v = v' \<and> xs = ys"
proof -
  have "dec (enc v @ xs) 0 = Inr (v, length (enc v))"
    using assms(1,4) by (simp add: law seg_at_def)
  moreover have "dec (enc v' @ ys) 0 = Inr (v', length (enc v'))"
    using assms(2,3,4) by (simp add: law seg_at_def)
  ultimately have "v = v'" using assms(3) by simp
  with assms(3) show ?thesis by simp
qed

lemma enc_inject:
  "wf v \<Longrightarrow> wf v' \<Longrightarrow> enc v = enc v' \<Longrightarrow> length (enc v) < 2 ^ 64 \<Longrightarrow> v = v'"
  using prefix_free [of v v' "[]" "[]"] by simp

lemma repeat_law:
  "length bs < 2 ^ 64 \<Longrightarrow> off \<le> length bs \<Longrightarrow>
   get_repeat n dec bs off = Inr (vs, off') \<longleftrightarrow>
     length vs = n \<and> (\<forall>v \<in> set vs. wf v) \<and> seg_at bs off (concat (map enc vs)) off'"
proof (induction n arbitrary: off vs)
  case 0
  then show ?case by (auto simp: seg_at_Nil)
next
  case (Suc n)
  show ?case
  proof (cases vs)
    case Nil
    then show ?thesis by (auto simp: result_simps split: prod.splits)
  next
    case (Cons v ws)
    have "get_repeat (Suc n) dec bs off = Inr (vs, off') \<longleftrightarrow>
        (\<exists>o1. dec bs off = Inr (v, o1) \<and> get_repeat n dec bs o1 = Inr (ws, off'))"
      by (auto simp: result_simps Cons split: prod.splits)
    also have "\<dots> \<longleftrightarrow> (\<exists>o1. wf v \<and> seg_at bs off (enc v) o1 \<and> get_repeat n dec bs o1 = Inr (ws, off'))"
      using law [OF Suc.prems(1)] by auto
    also have "\<dots> \<longleftrightarrow> (\<exists>o1. wf v \<and> seg_at bs off (enc v) o1 \<and> length ws = n \<and>
        (\<forall>v \<in> set ws. wf v) \<and> seg_at bs o1 (concat (map enc ws)) off')"
      using Suc.IH [OF Suc.prems(1)] seg_at_le by metis
    finally show ?thesis by (auto simp: Cons seg_at_append)
  qed
qed

end

section \<open>The primitives meet the interface\<close>

lemma rd_take_law:
  "length bs < 2 ^ 64 \<Longrightarrow>
   rd_take n bs off = Inr (xs, off') \<longleftrightarrow> length xs = n \<and> seg_at bs off xs off'"
  by (auto simp: rd_take_def seg_at_def USIZE_MAX_def)

lemma to_from_le_bytes:
  assumes "8 dvd LENGTH('a)" and "length xs = LENGTH('a) div 8"
  shows "to_le_bytes (from_le_bytes xs :: 'a::len word) = xs"
proof -
  have e: "(256 :: nat) ^ length xs = 2 ^ LENGTH('a)"
    using assms power_mult [of "2::nat" 8 "LENGTH('a) div 8"] by simp
  have "unat (from_le_bytes xs :: 'a word) = le_nat xs"
    using le_nat_bound [of xs] by (simp add: from_le_bytes_def unat_of_nat e)
  then show ?thesis
    using le_bytes_nat_le_nat [of xs] assms(2) by (simp add: to_le_bytes_def)
qed

lemma from_le_bytes_eq_iff:
  assumes "8 dvd LENGTH('a)" and "length xs = LENGTH('a) div 8"
  shows "from_le_bytes xs = (w :: 'a::len word) \<longleftrightarrow> xs = to_le_bytes w"
  using to_from_le_bytes [OF assms] from_to_le_bytes [OF assms(1)] by auto

lemma le_word_law:
  assumes "8 dvd LENGTH('a)" and "length bs < 2 ^ 64"
  shows "rbind (rd_take (LENGTH('a) div 8) bs off) (\<lambda>(xs, off). Inr (from_le_bytes xs, off))
      = Inr (v :: 'a::len word, off') \<longleftrightarrow> seg_at bs off (to_le_bytes v) off'"
  using assms(1)
  by (auto simp: result_simps rd_take_law [OF assms(2)] to_from_le_bytes from_to_le_bytes
      intro!: exI [of _ "to_le_bytes v"] split: prod.splits)

lemma get_u8_law:
  assumes "length bs < 2 ^ 64"
  shows "get_u8 bs off = Inr (v, off') \<longleftrightarrow> seg_at bs off (put_u8 v) off'"
proof -
  have "get_u8 bs off = Inr (v, off') \<longleftrightarrow> (\<exists>xs. rd_take 1 bs off = Inr (xs, off') \<and> xs ! 0 = v)"
    by (auto simp: get_u8_def result_simps split: prod.splits)
  also have "\<dots> \<longleftrightarrow> (\<exists>x. seg_at bs off [x] off' \<and> x = v)"
    unfolding rd_take_law [OF assms] by (auto simp: length_Suc_conv)
  finally show ?thesis by (simp add: put_u8_def)
qed

interpretation u8_codec: codec put_u8 get_u8 "\<lambda>_. True"
  by unfold_locales (simp add: get_u8_law)

interpretation u16_codec: codec put_u16 get_u16 "\<lambda>_. True"
  using le_word_law [where 'a = 16] by unfold_locales (simp add: get_u16_def put_u16_def)

interpretation u32_codec: codec put_u32 get_u32 "\<lambda>_. True"
  using le_word_law [where 'a = 32] by unfold_locales (simp add: get_u32_def put_u32_def)

interpretation u64_codec: codec put_u64 get_u64 "\<lambda>_. True"
  using le_word_law [where 'a = 64] by unfold_locales (simp add: get_u64_def put_u64_def)

lemma put_u64_inject [simp]: "put_u64 x = put_u64 y \<longleftrightarrow> x = y"
  using u64_codec.enc_inject [of x y] by (auto simp: put_u64_def)

lemma get_fixed_law:
  assumes "length bs < 2 ^ 64"
  shows "get_fixed bs off = Inr (v :: 'n::len barr, off') \<longleftrightarrow> seg_at bs off (array_bytes v) off'"
proof -
  have "get_fixed bs off = Inr (v, off') \<longleftrightarrow>
      (\<exists>xs. rd_take LENGTH('n) bs off = Inr (xs, off') \<and> array_of xs = v)"
    by (auto simp: get_fixed_def result_simps split: prod.splits)
  also have "\<dots> \<longleftrightarrow> (\<exists>xs. xs = array_bytes v \<and> seg_at bs off xs off')"
    unfolding rd_take_law [OF assms] by (metis array_bytes_of array_of_bytes length_array_bytes)
  finally show ?thesis by simp
qed

interpretation fixed_codec: codec array_bytes "get_fixed :: ('n::len) barr decoder" "\<lambda>_. True"
  by unfold_locales (simp add: get_fixed_law)

lemma get_bytes_law:
  assumes small: "length bs < 2 ^ 64"
  shows "get_bytes mx bs off = Inr (v, off') \<longleftrightarrow>
    length v \<le> mx \<and> length v \<le> MAX_CONSENSUS_ALLOCATION \<and> seg_at bs off (put_bytes v) off'"
    (is "_ \<longleftrightarrow> ?R")
proof -
  have "get_bytes mx bs off = Inr (v, off') \<longleftrightarrow>
      (\<exists>n o1. get_u32 bs off = Inr (n, o1) \<and> unat n \<le> mx \<and> unat n \<le> MAX_CONSENSUS_ALLOCATION
        \<and> rd_take (unat n) bs o1 = Inr (v, off'))" (is "_ \<longleftrightarrow> ?M")
    by (auto simp: get_bytes_def result_simps not_less Let_def split: prod.splits if_splits)
  moreover have "?M \<longleftrightarrow> ?R"
  proof
    assume ?M
    then show ?R
      by (auto simp: u32_codec.law [OF small] rd_take_law [OF small] put_bytes_def put_fixed_def
          seg_at_append)
  next
    assume R: ?R
    let ?n = "word_of_nat (length v) :: u32"
    have n: "unat ?n = length v"
      using R by (simp add: unat_of_nat MAX_CONSENSUS_ALLOCATION_def)
    obtain o1 where "seg_at bs off (put_u32 ?n) o1" and "seg_at bs o1 v off'"
      using R by (auto simp: put_bytes_def put_fixed_def seg_at_append)
    then show ?M
      using R n by (auto simp: u32_codec.law [OF small] rd_take_law [OF small] intro!: exI [of _ ?n])
  qed
  ultimately show ?thesis by simp
qed

lemma get_string_law:
  "length bs < 2 ^ 64 \<Longrightarrow> get_string mx bs off = Inr (v, off') \<longleftrightarrow>
    length v \<le> mx \<and> length v \<le> MAX_CONSENSUS_ALLOCATION \<and> utf8_valid v
      \<and> seg_at bs off (put_string v) off'"
  by (auto simp: get_string_def put_string_def result_simps get_bytes_law
      split: prod.splits if_splits)

lemma get_vector_len_law:
  assumes small: "length bs < 2 ^ 64" and mx: "mx < 2 ^ 32"
  shows "get_vector_len mx bs off = Inr (n, off') \<longleftrightarrow>
    n \<le> mx \<and> seg_at bs off (put_u32 (word_of_nat n)) off'"
proof -
  have "get_vector_len mx bs off = Inr (n, off') \<longleftrightarrow>
      (\<exists>k. get_u32 bs off = Inr (k, off') \<and> unat k \<le> mx \<and> n = unat k)"
    by (auto simp: get_vector_len_def result_simps Let_def not_less split: prod.splits if_splits)
  also have "\<dots> \<longleftrightarrow> n \<le> mx \<and> seg_at bs off (put_u32 (word_of_nat n)) off'"
    using mx by (auto simp: u32_codec.law [OF small] unat_of_nat intro!: exI [of _ "word_of_nat n"])
  finally show ?thesis .
qed

context codec
begin

lemma nested_law:
  "length bs < 2 ^ 64 \<Longrightarrow> get_nested mx dec bs off = Inr (v, off') \<longleftrightarrow>
    wf v \<and> length (enc v) \<le> mx \<and> length (enc v) \<le> MAX_CONSENSUS_ALLOCATION
      \<and> seg_at bs off (put_bytes (enc v)) off'"
  by (auto simp: get_nested_def result_simps get_bytes_law decode_iff split: prod.splits)

lemma nested_codec:
  "codec (\<lambda>v. put_bytes (enc v)) (get_nested mx dec)
     (\<lambda>v. wf v \<and> length (enc v) \<le> mx \<and> length (enc v) \<le> MAX_CONSENSUS_ALLOCATION)"
  by unfold_locales (auto simp: nested_law)

lemma list_law:
  assumes small: "length bs < 2 ^ 64" and mx: "mx < 2 ^ 32"
  shows "get_list mx dec bs off = Inr (vs, off') \<longleftrightarrow>
    length vs \<le> mx \<and> (\<forall>v \<in> set vs. wf v) \<and> seg_at bs off (put_list enc vs) off'"
proof -
  have "get_list mx dec bs off = Inr (vs, off') \<longleftrightarrow>
      (\<exists>n o1. get_vector_len mx bs off = Inr (n, o1) \<and> get_repeat n dec bs o1 = Inr (vs, off'))"
    by (auto simp: get_list_def result_simps split: prod.splits)
  also have "\<dots> \<longleftrightarrow> (\<exists>n o1. n \<le> mx \<and> seg_at bs off (put_u32 (word_of_nat n)) o1 \<and>
      length vs = n \<and> (\<forall>v \<in> set vs. wf v) \<and> seg_at bs o1 (concat (map enc vs)) off')"
  proof -
    have "get_repeat n dec bs o1 = Inr (vs, off') \<longleftrightarrow> length vs = n \<and> (\<forall>v \<in> set vs. wf v)
        \<and> seg_at bs o1 (concat (map enc vs)) off'"
      if "seg_at bs off (put_u32 (word_of_nat n)) o1" for n o1
      using repeat_law [OF small seg_at_le [OF that]] .
    then show ?thesis by (simp only: get_vector_len_law [OF small mx] conj_assoc cong: conj_cong)
  qed
  also have "\<dots> \<longleftrightarrow> length vs \<le> mx \<and> (\<forall>v \<in> set vs. wf v) \<and> seg_at bs off (put_list enc vs) off'"
    by (auto simp: put_list_def seg_at_append)
  finally show ?thesis .
qed

end

context codec
begin

lemma vec_law:
  assumes "length bs < 2 ^ 64" and "mx < 2 ^ 32"
  shows "get_vec mx each dec bs off = Inr (vs, off') \<longleftrightarrow>
    length vs \<le> mx
      \<and> (\<forall>v \<in> set vs. wf v \<and> length (enc v) \<le> each \<and> length (enc v) \<le> MAX_CONSENSUS_ALLOCATION)
      \<and> seg_at bs off (put_vec enc vs) off'"
  unfolding get_vec_def put_vec_def by (rule codec.list_law [OF nested_codec assms])

end

lemma length_put [simp]:
  "length (put_u8 a) = 1" "length (put_u16 b) = 2" "length (put_u32 c) = 4"
  "length (put_u64 d) = 8" "length (put_bytes v) = 4 + length v"
  by (simp_all add: put_u8_def put_u16_def put_u32_def put_u64_def put_bytes_def put_fixed_def)

end
