(* ===== verification/Crypto.thy ===== *)
theory Crypto
  imports Codec
begin

text \<open>
  \<open>src/crypto.rs\<close>: hashes, domain separation, addresses and the signature check.  The
  primitives come from crates that are not part of the repository (\<open>sha2\<close>, \<open>ripemd\<close>,
  \<open>secp256k1\<close>, \<open>bs58\<close>, \<open>hex\<close>); they are the fields of the record \<open>prims\<close>, the first argument
  of every definition that needs one.  A \<open>PublicKey\<close> is represented by its uncompressed SEC1
  form and a \<open>Signature\<close> by its compact form, the only views of them the code takes.
\<close>

record prims =
  sha256 :: "bytes \<Rightarrow> hash32"
  ripemd160 :: "bytes \<Rightarrow> 20 barr"
  public_key_from_slice :: "bytes \<Rightarrow> 65 barr option"
  signature_from_compact :: "64 barr \<Rightarrow> 64 barr option"
  normalize_s :: "64 barr \<Rightarrow> 64 barr"
  verify_ecdsa :: "hash32 \<Rightarrow> 64 barr \<Rightarrow> 65 barr \<Rightarrow> bool"
  bs58_encode :: "bytes \<Rightarrow> bytes"
  bs58_decode :: "bytes \<Rightarrow> bytes option"
  hex_encode :: "bytes \<Rightarrow> bytes"
  hex_decode :: "bytes \<Rightarrow> bytes option"

definition ascii :: "string \<Rightarrow> bytes" where
  "ascii s = map of_char s"

datatype crypto_error =
    InvalidHash
  | InvalidAddress
  | AddressVersion u8
  | AddressChecksum
  | NonCanonicalAddress
  | InvalidPublicKey
  | InvalidSignature
  | HighSignatureS
  | SenderMismatch

definition ADDRESS_VERSION :: u8 where
  "ADDRESS_VERSION = 55"

section \<open>Hashes\<close>

definition hash_zero :: hash32 where
  "hash_zero = array_zero"

definition hash_from_slice :: "bytes \<Rightarrow> crypto_error + hash32" where
  "hash_from_slice bs = ok_or (array_try_from bs) InvalidHash"

definition is_ascii_hexdigit :: "u8 \<Rightarrow> bool" where
  "is_ascii_hexdigit b \<longleftrightarrow>
     (0x30 \<le> b \<and> b \<le> 0x39) \<or> (0x41 \<le> b \<and> b \<le> 0x46) \<or> (0x61 \<le> b \<and> b \<le> 0x66)"

definition hash_to_string :: "prims \<Rightarrow> hash32 \<Rightarrow> bytes" where
  "hash_to_string E h = hex_encode E (array_bytes h)"

definition hash_from_str :: "prims \<Rightarrow> bytes \<Rightarrow> crypto_error + hash32" where
  "hash_from_str E value =
     (if length value \<noteq> 64 \<or> (\<exists>b \<in> set value. \<not> is_ascii_hexdigit b) then Inl InvalidHash
      else rbind (ok_or (hex_decode E value) InvalidHash) hash_from_slice)"

definition sha256d :: "prims \<Rightarrow> bytes \<Rightarrow> hash32" where
  "sha256d E data = sha256 E (array_bytes (sha256 E data))"

definition domain_hash :: "prims \<Rightarrow> bytes \<Rightarrow> bytes \<Rightarrow> hash32" where
  "domain_hash E domain data =
     sha256 E (array_bytes (sha256 E
       (to_le_bytes (word_of_nat (length domain) :: u32) @ domain
        @ to_le_bytes (word_of_nat (length data) :: u64) @ data)))"

definition hash160 :: "prims \<Rightarrow> bytes \<Rightarrow> 20 barr" where
  "hash160 E data = ripemd160 E (array_bytes (sha256 E data))"

definition hash_enc :: "hash32 \<Rightarrow> bytes" where
  "hash_enc h = put_fixed (array_bytes h)"

definition hash_dec :: "hash32 decoder" where
  "hash_dec = get_fixed"

section \<open>Addresses\<close>

definition address_from_public_key_hash :: "prims \<Rightarrow> 20 barr \<Rightarrow> address" where
  "address_from_public_key_hash E key_hash =
     (let payload = ADDRESS_VERSION # array_bytes key_hash;
          checksum = sha256d E payload
      in array_of (payload @ take 4 (array_bytes checksum)))"

definition address_from_public_key :: "prims \<Rightarrow> 65 barr \<Rightarrow> address" where
  "address_from_public_key E key = address_from_public_key_hash E (hash160 E (array_bytes key))"

definition address_from_bytes :: "prims \<Rightarrow> 25 barr \<Rightarrow> crypto_error + address" where
  "address_from_bytes E a =
     (let bs = array_bytes a in
      if bs ! 0 \<noteq> ADDRESS_VERSION then Inl (AddressVersion (bs ! 0))
      else if take 4 (array_bytes (sha256d E (take 21 bs))) \<noteq> drop 21 bs then Inl AddressChecksum
      else Inr a)"

definition address_to_string :: "prims \<Rightarrow> address \<Rightarrow> bytes" where
  "address_to_string E a = bs58_encode E (array_bytes a)"

definition address_from_str :: "prims \<Rightarrow> bytes \<Rightarrow> crypto_error + address" where
  "address_from_str E value =
     rbind (ok_or (bs58_decode E value) InvalidAddress) (\<lambda>decoded.
     rbind (ok_or (array_try_from decoded) InvalidAddress) (\<lambda>bs.
     rbind (address_from_bytes E bs) (\<lambda>a.
       if address_to_string E a \<noteq> value then Inl NonCanonicalAddress else Inr a)))"

definition address_enc :: "address \<Rightarrow> bytes" where
  "address_enc a = put_fixed (array_bytes a)"

definition address_dec :: "prims \<Rightarrow> address decoder" where
  "address_dec E bs off =
     rbind (get_fixed bs off) (\<lambda>(raw, off).
     rbind (map_err (\<lambda>_. NonCanonical ''invalid address'') (address_from_bytes E raw))
       (\<lambda>a. Inr (a, off)))"

text \<open>Every value of the Rust type \<open>Address\<close> passed one of its constructors; \<open>address_ok\<close> is
  that type invariant.\<close>

definition address_ok :: "prims \<Rightarrow> address \<Rightarrow> bool" where
  "address_ok E a \<longleftrightarrow> address_from_bytes E a = Inr a"

section \<open>Signatures\<close>

definition parse_and_validate_signature ::
    "prims \<Rightarrow> address \<Rightarrow> bytes \<Rightarrow> 64 barr \<Rightarrow> hash32 \<Rightarrow> crypto_error + unit" where
  "parse_and_validate_signature E sender public_key sig_bytes digest =
     rbind (ok_or (public_key_from_slice E public_key) InvalidPublicKey) (\<lambda>key.
     if address_from_public_key E key \<noteq> sender then Inl SenderMismatch
     else rbind (ok_or (signature_from_compact E sig_bytes) InvalidSignature) (\<lambda>sig.
     if normalize_s E sig \<noteq> sig then Inl HighSignatureS
     else if verify_ecdsa E digest sig key then Inr () else Inl InvalidSignature))"

section \<open>Laws\<close>

interpretation hash_codec: codec hash_enc hash_dec "\<lambda>_. True"
  by unfold_locales (simp add: hash_enc_def hash_dec_def put_fixed_def get_fixed_law)

lemma length_hash_enc [simp]: "length (hash_enc h) = 32"
  by (simp add: hash_enc_def put_fixed_def)

lemma length_address_enc [simp]: "length (address_enc a) = 25"
  by (simp add: address_enc_def put_fixed_def)

lemma hash_enc_inject [simp]: "hash_enc a = hash_enc b \<longleftrightarrow> a = b"
  by (simp add: hash_enc_def put_fixed_def array_bytes_eq_iff)

lemma address_enc_inject [simp]: "address_enc a = address_enc b \<longleftrightarrow> a = b"
  by (simp add: address_enc_def put_fixed_def array_bytes_eq_iff)

lemma address_from_bytes_Inr: "address_from_bytes E a = Inr b \<longleftrightarrow> b = a \<and> address_ok E a"
  by (auto simp: address_ok_def address_from_bytes_def Let_def)

lemma address_dec_law:
  "length bs < 2 ^ 64 \<Longrightarrow>
   address_dec E bs off = Inr (v, off') \<longleftrightarrow> address_ok E v \<and> seg_at bs off (address_enc v) off'"
  by (auto simp: address_dec_def result_simps get_fixed_law address_from_bytes_Inr
      address_enc_def put_fixed_def split: prod.splits)

interpretation address_codec: codec address_enc "address_dec E" "address_ok E" for E
  by unfold_locales (simp add: address_dec_law)

lemma address_of_key_hash_bytes:
  "array_bytes (address_from_public_key_hash E kh) =
     ADDRESS_VERSION # array_bytes kh
     @ take 4 (array_bytes (sha256d E (ADDRESS_VERSION # array_bytes kh)))"
  by (simp add: address_from_public_key_hash_def Let_def)

lemma address_of_key_hash_ok: "address_ok E (address_from_public_key_hash E kh)"
  by (simp add: address_ok_def address_from_bytes_def Let_def address_of_key_hash_bytes)

lemma address_of_key_ok: "address_ok E (address_from_public_key E key)"
  by (simp add: address_from_public_key_def address_of_key_hash_ok)

text \<open>The key hash determines a valid address.\<close>

lemma address_ok_key_hash:
  assumes "address_ok E a"
  shows "\<exists>kh. a = address_from_public_key_hash E kh"
proof -
  let ?bs = "array_bytes a"
  have len: "length ?bs = 25" by simp
  have v: "?bs ! 0 = ADDRESS_VERSION"
    and c: "drop 21 ?bs = take 4 (array_bytes (sha256d E (take 21 ?bs)))"
    using assms by (auto simp: address_ok_def address_from_bytes_def Let_def split: if_splits)
  define kh :: "20 barr" where "kh = array_of (take 20 (drop 1 ?bs))"
  have kh: "array_bytes kh = take 20 (drop 1 ?bs)"
    unfolding kh_def by (rule array_bytes_of) (simp add: len)
  have "take 21 ?bs = take 1 ?bs @ take 20 (drop 1 ?bs)"
    using take_add [of 1 20 ?bs] by simp
  also have "take 1 ?bs = [ADDRESS_VERSION]"
    using v len by (metis append_Nil le_numeral_extra(4) less_one not_gr_zero take0 take_Suc_conv_app_nth
        One_nat_def length_greater_0_conv list.size(3) zero_neq_numeral)
  finally have p: "take 21 ?bs = ADDRESS_VERSION # array_bytes kh" by (simp add: kh)
  have "?bs = take 21 ?bs @ drop 21 ?bs" by simp
  also have "\<dots> = array_bytes (address_from_public_key_hash E kh)"
    unfolding c p by (simp add: address_of_key_hash_bytes)
  finally show ?thesis using array_bytes_eq_iff by blast
qed

text \<open>In the derived order all valid addresses lie between the two extreme key hashes, the range
  \<open>LedgerState::mature\<close> scans.\<close>

lemma list_le_same_length:
  "length xs = length ys \<Longrightarrow> (\<forall>i < length xs. xs ! i \<le> ys ! i) \<Longrightarrow> xs \<le> (ys :: bytes)"
proof (induction xs ys rule: list_induct2)
  case (Cons x xs y ys)
  have "x \<le> y" using Cons.prems by force
  moreover have "xs \<le> ys" using Cons by force
  ultimately show ?case by auto
qed simp

lemma address_prefix_le:
  assumes "address_ok E a" and "address_ok E b"
    and "\<And>i. i < 20 \<Longrightarrow> array_bytes a ! Suc i \<le> array_bytes b ! Suc i"
  shows "a \<le> b"
proof -
  obtain ka kb where a: "a = address_from_public_key_hash E ka"
    and b: "b = address_from_public_key_hash E kb"
    using assms(1,2) address_ok_key_hash by blast
  have "array_bytes ka ! i \<le> array_bytes kb ! i" if "i < 20" for i
    using assms(3) [OF that] that by (simp add: a b address_of_key_hash_bytes nth_append)
  then have le: "array_bytes ka \<le> array_bytes kb"
    by (intro list_le_same_length) auto
  show ?thesis
  proof (cases "ka = kb")
    case False
    then have "array_bytes ka < array_bytes kb"
      using le array_bytes_eq_iff by (metis order_le_less)
    then have "array_bytes ka @ xs < array_bytes kb @ ys" for xs ys
      by (simp add: list_less_def lexord_sufI)
    then show ?thesis
      by (simp add: a b less_eq_barr_def address_of_key_hash_bytes less_imp_le)
  qed (simp add: a b)
qed

end
