(* ===== verification/Params.thy ===== *)
theory Params
  imports Crypto
begin

text \<open>The consensus constants and the two schedules of \<open>src/consensus/params.rs\<close>.\<close>

definition PROTOCOL_VERSION :: u16 where "PROTOCOL_VERSION = 9"
definition HEADER_VERSION :: u16 where "HEADER_VERSION = 3"
definition CHAIN_ID :: bytes where "CHAIN_ID = ascii ''paritr-mainnet''"

definition COIN :: u64 where "COIN = 100000000"
definition INITIAL_SUBSIDY :: u64 where "INITIAL_SUBSIDY = 10 * COIN"
definition HALVING_INTERVAL :: u64 where "HALVING_INTERVAL = 1600000"
definition MIN_SUBSIDY :: u64 where "MIN_SUBSIDY = COIN div 2"
definition FINDER_SHARE_PERCENT :: u64 where "FINDER_SHARE_PERCENT = 5"
definition REWARD_WINDOW :: nat where "REWARD_WINDOW = 1440"
definition REWARD_MATURITY :: u64 where "REWARD_MATURITY = 100"

definition TARGET_BLOCK_TIME :: nat where "TARGET_BLOCK_TIME = 64"
definition ASERT_HALF_LIFE :: int where "ASERT_HALF_LIFE = 2 * 60 * 60"
definition MEDIAN_TIME_SPAN :: nat where "MEDIAN_TIME_SPAN = 11"
definition MAX_FUTURE_BLOCK_TIME :: u64 where "MAX_FUTURE_BLOCK_TIME = 300"

definition WORKSHARE_TARGET_MULTIPLIER :: nat where "WORKSHARE_TARGET_MULTIPLIER = 32"
definition MAX_WORKSHARES_PER_BLOCK :: nat where "MAX_WORKSHARES_PER_BLOCK = 512"
definition MAX_TEMPLATES_PER_BLOCK :: nat where "MAX_TEMPLATES_PER_BLOCK = 512"
definition MAX_WORKSHARE_WITNESS_BYTES :: nat where
  "MAX_WORKSHARE_WITNESS_BYTES = 4 * 1024 * 1024"

definition MAX_BLOCK_BYTES :: nat where "MAX_BLOCK_BYTES = 8 * 1024 * 1024"
definition MAX_BLOCK_TRANSACTIONS :: nat where "MAX_BLOCK_TRANSACTIONS = 4096"
definition MAX_TRANSACTION_BYTES :: nat where "MAX_TRANSACTION_BYTES = 1024"
definition MAX_TEMPLATE_BYTES :: nat where "MAX_TEMPLATE_BYTES = 4 * 1024 * 1024"
definition MAX_MONEY :: u64 where "MAX_MONEY = push_bit 62 1 - 1"

definition RANDOMX_EPOCH_BLOCKS :: u64 where "RANDOMX_EPOCH_BLOCKS = 2048"
definition RANDOMX_SEED_LAG :: u64 where "RANDOMX_SEED_LAG = 64"
definition RANDOMX_BOOTSTRAP_SEED :: bytes where
  "RANDOMX_BOOTSTRAP_SEED = ascii ''Paritr-Protocol-9-RandomX-Bootstrap-v1''"

definition GENESIS_TIMESTAMP :: u64 where "GENESIS_TIMESTAMP = 1788984000"
definition GENESIS_MESSAGE :: bytes where
  "GENESIS_MESSAGE = ascii ''Paritr Mainnet Protocol 9 - launch-anchored ASERT - 4.0.1-rc.3''"

lemmas limit_defs = MAX_CONSENSUS_ALLOCATION_def MAX_BLOCK_BYTES_def MAX_BLOCK_TRANSACTIONS_def
  MAX_TRANSACTION_BYTES_def MAX_TEMPLATE_BYTES_def MAX_WORKSHARE_WITNESS_BYTES_def
  MAX_WORKSHARES_PER_BLOCK_def MAX_TEMPLATES_PER_BLOCK_def

definition pow_limit :: u256 where
  "pow_limit = push_bit 248 1 - 1"

definition initial_target :: u256 where
  "initial_target = push_bit 242 1 - 1"

definition block_subsidy :: "u64 \<Rightarrow> u64" where
  "block_subsidy height =
     (if height = 0 then 0
      else let halvings = (height - 1) div HALVING_INTERVAL in
        if 64 \<le> halvings then MIN_SUBSIDY
        else max (drop_bit (unat halvings) INITIAL_SUBSIDY) MIN_SUBSIDY)"

definition randomx_seed_reference_height :: "u64 \<Rightarrow> u64" where
  "randomx_seed_reference_height height =
     (if height < RANDOMX_EPOCH_BLOCKS then 0
      else let epoch_start = (height div RANDOMX_EPOCH_BLOCKS) * RANDOMX_EPOCH_BLOCKS in
        saturating_sub epoch_start RANDOMX_SEED_LAG)"

section \<open>Numeric readings\<close>

lemma unat_MAX_MONEY: "unat MAX_MONEY = 2 ^ 62 - 1"
  by (simp add: MAX_MONEY_def)

lemma unat_pow_limit: "unat pow_limit = 2 ^ 248 - 1"
  by (simp add: pow_limit_def)

lemma unat_initial_target: "unat initial_target = 2 ^ 242 - 1"
  by (simp add: initial_target_def)

lemma unat_subsidy_consts:
  "unat INITIAL_SUBSIDY = 1000000000" "unat MIN_SUBSIDY = 50000000"
  "unat HALVING_INTERVAL = 1600000" "unat COIN = 100000000"
  by (simp_all add: INITIAL_SUBSIDY_def MIN_SUBSIDY_def HALVING_INTERVAL_def COIN_def)

text \<open>The subsidy read as a natural number.\<close>

definition subsidy_nat :: "nat \<Rightarrow> nat" where
  "subsidy_nat h =
     (if h = 0 then 0 else max (1000000000 div 2 ^ ((h - 1) div 1600000)) 50000000)"

lemma unat_block_subsidy: "unat (block_subsidy h) = subsidy_nat (unat h)"
proof (cases "h = 0")
  case False
  let ?k = "(unat h - 1) div 1600000"
  have h: "unat (h - 1) = unat h - 1"
    using False by (simp add: unat_minus_one)
  have k: "unat ((h - 1) div HALVING_INTERVAL) = ?k"
    by (simp add: unat_div h unat_subsidy_consts)
  have pos: "unat h \<noteq> 0" using False by (simp add: unat_eq_0)
  show ?thesis
  proof (cases "64 \<le> (h - 1) div HALVING_INTERVAL")
    case True
    then have "64 \<le> ?k" using k by (simp add: word_le_nat_alt)
    then have "(2::nat) ^ 64 \<le> 2 ^ ?k" by (intro power_increasing) auto
    then have "1000000000 div 2 ^ ?k = (0::nat)" by (intro div_less) simp
    with True False pos show ?thesis
      by (simp add: block_subsidy_def subsidy_nat_def unat_subsidy_consts)
  next
    case le: False
    have "unat (max a b) = max (unat a) (unat b)" for a b :: u64
      by (simp add: max_def word_le_nat_alt)
    moreover have "unat (drop_bit ?k INITIAL_SUBSIDY) = 1000000000 div 2 ^ ?k"
      by (simp only: unat_drop_bit_eq drop_bit_nat_def unat_subsidy_consts)
    ultimately show ?thesis using le False pos k
      by (simp add: block_subsidy_def subsidy_nat_def Let_def unat_subsidy_consts)
  qed
qed (simp add: block_subsidy_def subsidy_nat_def)

lemma subsidy_nat_bound: "subsidy_nat h \<le> 1000000000"
  by (simp add: subsidy_nat_def div_le_dividend)

lemma subsidy_nat_pos: "0 < h \<Longrightarrow> 50000000 \<le> subsidy_nat h"
  by (simp add: subsidy_nat_def)

end
