(* ===== verification/Sample_Env.thy ===== *)
theory Sample_Env
  imports Params
begin

text \<open>
  A concrete environment for the witnesses: simple total functions in place of the cryptographic
  crates.  The digest repeats the fifth byte of its input, the height byte of an encoded header,
  and ends in the last one, the end of a signature in a transaction: blocks of different heights and
  transactions that end differently have different ids; every signature of the all-zero key checks.
\<close>

definition sample_digest :: "bytes \<Rightarrow> hash32" where
  "sample_digest bs = array_of (replicate 5 (if 4 < length bs then bs ! 4 else 0) @ replicate 26 0
     @ [if bs = [] then 0 else last bs])"

definition sample_env :: prims where
  "sample_env = \<lparr>sha256 = sample_digest, ripemd160 = (\<lambda>_. array_zero),
     public_key_from_slice = (\<lambda>_. Some array_zero), signature_from_compact = Some,
     normalize_s = id, verify_ecdsa = (\<lambda>_ _ _. True), bs58_encode = id, bs58_decode = Some,
     hex_encode = id, hex_decode = Some\<rparr>"

definition sample_alice :: address where
  "sample_alice = address_from_public_key_hash sample_env array_zero"

definition sample_bob :: address where
  "sample_bob = address_from_public_key_hash sample_env (array_of (replicate 20 1))"

text \<open>Proof of work whose hash is the nonce of the header, in its most significant bytes.\<close>

definition sample_pow :: "bytes \<Rightarrow> bytes \<Rightarrow> string + hash32" where
  "sample_pow seed input = Inr (array_of (replicate 24 0 @ drop 152 input))"

lemma sample_addresses [simp]:
  "address_ok sample_env sample_alice" "address_ok sample_env sample_bob"
  by (simp_all add: sample_alice_def sample_bob_def address_of_key_hash_ok)

lemma sample_addresses_differ [simp]: "sample_alice \<noteq> sample_bob" "sample_bob \<noteq> sample_alice"
proof -
  have "array_bytes sample_alice ! 1 \<noteq> array_bytes sample_bob ! 1"
    by (simp add: sample_alice_def sample_bob_def address_of_key_hash_bytes nth_append)
  then show "sample_alice \<noteq> sample_bob" "sample_bob \<noteq> sample_alice" by auto
qed

lemma sample_signature [simp]:
  "parse_and_validate_signature sample_env sample_alice key sig digest = Inr ()"
  by (simp add: parse_and_validate_signature_def sample_env_def sample_alice_def ok_or_def
      address_from_public_key_def hash160_def rbind_def)

lemma sample_domain_hash:
  assumes "d \<noteq> []" and "data \<noteq> []"
  shows "domain_hash sample_env d data = array_of (replicate 5 (hd d) @ replicate 26 0 @ [last data])"
proof -
  let ?x = "to_le_bytes (word_of_nat (length d) :: u32) @ d
      @ to_le_bytes (word_of_nat (length data) :: u64) @ data"
  have "?x ! 4 = hd d" using assms(1) by (simp add: nth_append hd_conv_nth)
  moreover have "4 < length ?x" "last ?x = last data" "?x \<noteq> []" using assms by auto
  ultimately have "sample_digest ?x = array_of (replicate 5 (hd d) @ replicate 26 0 @ [last data])"
    using assms by (simp add: sample_digest_def)
  then show ?thesis by (simp add: domain_hash_def sample_env_def sample_digest_def nth_append)
qed

end
