(* ===== verification/Difficulty.thy ===== *)
theory Difficulty
  imports Sample_Env
begin

text \<open>
  \<open>src/consensus/difficulty.rs\<close>: compact targets, the ASERT retarget rule, the share target and
  the work of a target.  \<open>U256\<close>/\<open>U512\<close> are 256- and 512-bit words; the \<open>i128\<close> arithmetic of
  \<open>required_target\<close> is on \<^typ>\<open>int\<close>, whose \<open>div\<close>/\<open>mod\<close> are \<open>div_euclid\<close>/\<open>rem_euclid\<close>
  for the positive divisors used (lemma \<open>asert_i128_bounds\<close> shows that nothing leaves the range
  of \<open>i128\<close>).
\<close>

section \<open>The code\<close>

definition to_be_bytes :: "'a::len word \<Rightarrow> bytes" where
  "to_be_bytes w = rev (to_le_bytes w)"

definition from_be_bytes :: "bytes \<Rightarrow> 'a::len word" where
  "from_be_bytes bs = from_le_bytes (rev bs)"

definition byte_at :: "bytes \<Rightarrow> nat \<Rightarrow> u32" where
  "byte_at bs i = (if i < length bs then ucast (bs ! i) else 0)"

definition target_to_bits :: "u256 \<Rightarrow> u32" where
  "target_to_bits target =
     (if target = 0 then 0
      else let bs = to_be_bytes target;
               significant = dropWhile (\<lambda>b. b = 0) bs;
               size = word_of_nat (length significant) :: u32
        in if significant ! 0 AND 0x80 \<noteq> 0
           then push_bit 24 (size + 1) OR
                (push_bit 8 (byte_at significant 0) OR byte_at significant 1)
           else push_bit 24 size OR
                (push_bit 16 (byte_at significant 0) OR push_bit 8 (byte_at significant 1)
                 OR byte_at significant 2))"

definition bits_to_target :: "u32 \<Rightarrow> u256 option" where
  "bits_to_target bits =
     (let size = drop_bit 24 bits;
          word = bits AND 0x007fffff
      in if word = 0 \<or> bits AND 0x00800000 \<noteq> 0 \<or> size = 0 \<or> 33 < size
            \<or> (size = 33 \<and> 0xffff < word)
         then None
         else let target =
                (if size \<le> 3 then ucast (drop_bit (8 * (3 - unat size)) word)
                 else push_bit (8 * (unat size - 3)) (ucast word :: u256))
           in if target_to_bits target = bits then Some target else None)"

definition asert_factor :: "int \<Rightarrow> int" where
  "asert_factor fraction =
     65536 + (195766423245049 * fraction + 971821376 * fraction * fraction
              + 5127 * fraction * fraction * fraction + 2 ^ 47) div 2 ^ 48"

definition u512_to_u256_clamped :: "u512 \<Rightarrow> u256 \<Rightarrow> u256" where
  "u512_to_u256_clamped value maximum =
     (let bs = to_be_bytes value in
      if \<exists>b \<in> set (take 32 bs). b \<noteq> 0 then maximum
      else min (from_be_bytes (drop 32 bs)) maximum)"

definition required_target :: "u64 \<Rightarrow> u64 \<Rightarrow> u64 \<Rightarrow> u256" where
  "required_target parent_height parent_timestamp launch_timestamp =
     (if parent_height \<le> 1 then initial_target
      else let ideal_elapsed = int (unat (parent_height - 1)) * int TARGET_BLOCK_TIME;
               actual_elapsed = int (unat parent_timestamp) - int (unat launch_timestamp);
               drift = actual_elapsed - ideal_elapsed;
               exponent = (drift * 65536) div ASERT_HALF_LIFE;
               shifts = exponent div 65536;
               fraction = exponent mod 65536;
               factor = asert_factor fraction;
               target = drop_bit 16 ((ucast initial_target :: u512) * word_of_int factor)
        in if shifts < 0
           then max (u512_to_u256_clamped (drop_bit (min (nat (- shifts)) 511) target) pow_limit) 1
           else if 256 \<le> shifts then pow_limit
           else if drop_bit (nat shifts) (ucast pow_limit) < target then pow_limit
           else max (u512_to_u256_clamped (push_bit (nat shifts) target) pow_limit) 1)"

definition required_bits :: "u64 \<Rightarrow> u64 \<Rightarrow> u64 \<Rightarrow> u32" where
  "required_bits parent_height parent_timestamp launch_timestamp =
     target_to_bits (required_target parent_height parent_timestamp launch_timestamp)"

definition workshare_bits :: "u32 \<Rightarrow> u32 option" where
  "workshare_bits block_bits =
     (case bits_to_target block_bits of
        None \<Rightarrow> None
      | Some block_target \<Rightarrow>
          let expanded = (ucast block_target :: u512) * word_of_nat WORKSHARE_TARGET_MULTIPLIER;
              share_target = u512_to_u256_clamped expanded (- 1)
          in Some (target_to_bits (max share_target 1)))"

definition target_work :: "u256 \<Rightarrow> u256" where
  "target_work target =
     (if target = - 1 then 1 else NOT target div (target + 1) + 1)"

definition hash_meets_target :: "hash32 \<Rightarrow> u256 \<Rightarrow> bool" where
  "hash_meets_target hash target \<longleftrightarrow> from_le_bytes (array_bytes hash) \<le> target"

section \<open>Compact targets\<close>

text \<open>Big-endian reading; \<open>compact_nat sz n\<close>: \<open>sz\<close> is the size byte of the compact form of
  \<open>n\<close>, \<open>mantissa\<close> its 23-bit word, \<open>expand\<close> the number the two fields stand for.\<close>

definition be_nat :: "bytes \<Rightarrow> nat" where "be_nat bs = le_nat (rev bs)"

lemma le_nat_append: "le_nat (xs @ ys) = le_nat xs + 256 ^ length xs * le_nat ys"
  by (induction xs) (simp_all add: algebra_simps)

lemma be_nat_Cons: "be_nat (a # r) = unat a * 256 ^ length r + be_nat r"
  by (simp add: be_nat_def le_nat_append)

lemma be_nat_Nil [simp]: "be_nat [] = 0" by (simp add: be_nat_def)

lemma be_nat_bound: "be_nat bs < 256 ^ length bs"
  using le_nat_bound [of "rev bs"] by (simp add: be_nat_def)

lemma be_nat_append: "be_nat (xs @ ys) = be_nat xs * 256 ^ length ys + be_nat ys"
  by (induction xs) (simp_all add: be_nat_Cons algebra_simps power_add)

lemma be_nat_to_be_bytes:
  assumes "8 dvd LENGTH('a)"
  shows "be_nat (to_be_bytes (w :: 'a::len word)) = unat w"
proof -
  have "(256 :: nat) ^ (LENGTH('a) div 8) = 2 ^ LENGTH('a)"
    using assms power_mult [of "2::nat" 8 "LENGTH('a) div 8"] by simp
  then show ?thesis
    by (simp add: be_nat_def to_be_bytes_def to_le_bytes_def le_nat_le_bytes_nat)
qed

lemma be_nat_dropWhile: "be_nat (dropWhile (\<lambda>b. b = 0) bs) = be_nat bs"
  by (induction bs) (simp_all add: be_nat_Cons)

definition compact_nat :: "nat \<Rightarrow> nat \<Rightarrow> bool" where
  "compact_nat sz n \<longleftrightarrow> 0 < n \<and> n < 128 * 256 ^ (sz - 1) \<and> 0 < sz \<and>
     (2 \<le> sz \<longrightarrow> 128 * 256 ^ (sz - 2) \<le> n)"

definition mantissa :: "nat \<Rightarrow> nat \<Rightarrow> nat" where
  "mantissa sz n = n * 2 ^ 24 div 256 ^ sz"

lemma byte_at_nat: "byte_at bs i = word_of_nat (if i < length bs then unat (bs ! i) else 0)"
  by (simp add: byte_at_def)

lemma and_0x80: "(a :: u8) AND 0x80 \<noteq> 0 \<longleftrightarrow> 128 \<le> unat a"
proof -
  have "a AND 0x80 = a AND push_bit 7 1" by simp
  then have "a AND 0x80 \<noteq> 0 \<longleftrightarrow> bit a 7"
    by (metis and_exp_eq_0_iff_not_bit push_bit_of_1)
  also have "\<dots> \<longleftrightarrow> bit (unat a) 7"
    by (simp add: bit_unsigned_iff)
  also have "\<dots> \<longleftrightarrow> odd (unat a div 2 ^ 7)"
    by (rule bit_iff_odd)
  also have "\<dots> \<longleftrightarrow> 128 \<le> unat a"
  proof -
    have "unat a < 256" using unat_bound [of a] by simp
    then have "unat a div 2 ^ 7 < 2" by (intro less_mult_imp_div_less) simp
    then have "odd (unat a div 2 ^ 7) \<longleftrightarrow> 0 < unat a div 2 ^ 7"
      by (auto simp: less_2_cases_iff)
    then show ?thesis by (simp add: div_greater_zero_iff)
  qed
  finally show ?thesis .
qed

lemma target_to_bits_nat:
  assumes "t \<noteq> 0"
  shows "\<exists>sz. sz \<le> 33 \<and> compact_nat sz (unat t) \<and> mantissa sz (unat t) < 2 ^ 23 \<and>
     target_to_bits t = word_of_nat (sz * 2 ^ 24 + mantissa sz (unat t))"
proof -
  let ?bs = "to_be_bytes t" and ?n = "unat t"
  let ?sig = "dropWhile (\<lambda>b. b = 0) ?bs"
  have n: "be_nat ?sig = ?n"
    by (simp add: be_nat_dropWhile be_nat_to_be_bytes)
  have "?n \<noteq> 0" using assms by (simp add: unat_eq_0)
  then have "?sig \<noteq> []" using n be_nat_Nil by metis
  then obtain a r where sig: "?sig = a # r" by (cases ?sig) auto
  have a: "a \<noteq> 0" using hd_dropWhile [OF \<open>?sig \<noteq> []\<close>] by (simp add: sig)
  have "length ?sig \<le> 32" using length_dropWhile_le [of _ ?bs] by (simp add: to_be_bytes_def)
  then have len: "length r \<le> 31" by (simp add: sig)
  have n_eq: "?n = unat a * 256 ^ length r + be_nat r" using n by (simp add: sig be_nat_Cons)
  have r: "be_nat r < 256 ^ length r" by (rule be_nat_bound)
  have a_pos: "0 < unat a" using a by (simp add: unat_gt_0)
  have a_lt: "unat a < 256" using unat_bound [of a] by simp
  obtain b c r' where pad: "r @ [0, 0] = b # c # r'" and len': "length r' = length r"
    by (cases r; cases "tl r") auto
  define Q where "Q = unat a * 65536 + unat b * 256 + unat c"
  have b_lt: "unat b < 256" and c_lt: "unat c < 256"
    using unat_bound [of b] unat_bound [of c] by simp_all
  have "?n * 65536 = be_nat ((a # r) @ [0, 0])"
    using n by (simp add: sig be_nat_append be_nat_Cons)
  also have "(a # r) @ [0, 0] = a # b # c # r'" using pad by simp
  finally have nQ: "?n * 65536 = Q * 256 ^ length r + be_nat r'"
    by (simp add: be_nat_Cons Q_def len' algebra_simps)
  have Q: "?n * 65536 div 256 ^ length r = Q"
    using be_nat_bound [of r'] by (simp add: nQ len')
  have bytes: "byte_at ?sig 0 = word_of_nat (unat a)" "byte_at ?sig 1 = word_of_nat (unat b)"
    "byte_at ?sig 2 = word_of_nat (unat c)"
  proof -
    have "byte_at (a # r) (Suc i) = byte_at (r @ [0, 0]) i" if "i < 2" for i
      using that by (auto simp: byte_at_def nth_append nth_Cons' less_2_cases_iff split: if_splits)
    from this [of 0] this [of 1] show "byte_at ?sig 0 = word_of_nat (unat a)"
      "byte_at ?sig 1 = word_of_nat (unat b)" "byte_at ?sig 2 = word_of_nat (unat c)"
      by (simp_all add: sig pad byte_at_nat numeral_2_eq_2)
  qed
  have sizes: "word_of_nat (length ?sig) = (word_of_nat (Suc (length r)) :: u32)"
    by (simp add: sig)
  show ?thesis
  proof (cases "128 \<le> unat a")
    case True
    let ?sz = "length r + 2"
    have m: "mantissa ?sz ?n = unat a * 256 + unat b"
    proof -
      define N where "N = ?n * 65536"
      have N: "?n * 2 ^ 24 = N * 256" by (simp add: N_def)
      have e: "(256 :: nat) ^ ?sz = 256 ^ length r * 256 * 256" by (simp add: power_add)
      have "mantissa ?sz ?n = N * 256 div (256 ^ length r * 256 * 256)"
        by (simp only: N e mantissa_def)
      also have "\<dots> = N div (256 ^ length r * 256)"
        by (rule div_mult_mult2) simp
      also have "\<dots> = Q div 256"
        using Q by (simp add: div_mult2_eq N_def)
      finally show ?thesis using c_lt by (simp add: Q_def)
    qed
    have "target_to_bits t = push_bit 24 (word_of_nat ?sz) OR
        (push_bit 8 (word_of_nat (unat a)) OR word_of_nat (unat b))"
      using assms True and_0x80 [of a] bytes sizes
      by (simp add: target_to_bits_def Let_def sig add.commute)
    also have "push_bit 8 (word_of_nat (unat a)) OR word_of_nat (unat b)
        = (word_of_nat (unat a * 2 ^ 8 + unat b) :: u32)"
      using b_lt by (intro word_push_or) simp
    also have "push_bit 24 (word_of_nat ?sz) OR \<dots> = word_of_nat (?sz * 2 ^ 24 + (unat a * 2 ^ 8 + unat b))"
      using a_lt b_lt by (intro word_push_or) simp
    also have "unat a * 2 ^ 8 + unat b = mantissa ?sz ?n" using m by simp
    finally have "target_to_bits t = word_of_nat (?sz * 2 ^ 24 + mantissa ?sz ?n)" .
    moreover have upper: "?n < 128 * 256 ^ (length r + 1)"
    proof -
      have "?n < (unat a + 1) * 256 ^ length r" using n_eq r by (simp add: algebra_simps)
      also have "\<dots> \<le> 256 * 256 ^ length r" using a_lt by (intro mult_right_mono) auto
      finally show ?thesis by simp
    qed
    moreover have lower: "128 * 256 ^ length r \<le> ?n"
      unfolding n_eq using True by (intro trans_le_add1 mult_right_mono) auto
    ultimately show ?thesis
      using len upper a_lt b_lt \<open>?n \<noteq> 0\<close> m
      by (intro exI [of _ ?sz]) (simp add: compact_nat_def)
  next
    case False
    let ?sz = "length r + 1"
    have m: "mantissa ?sz ?n = Q"
    proof -
      have N: "?n * 2 ^ 24 = ?n * 65536 * 256" by simp
      have e: "(256 :: nat) ^ ?sz = 256 ^ length r * 256" by simp
      have "mantissa ?sz ?n = ?n * 65536 * 256 div (256 ^ length r * 256)"
        by (simp only: N e mantissa_def)
      also have "\<dots> = ?n * 65536 div 256 ^ length r"
        by (rule div_mult_mult2) simp
      finally show ?thesis using Q by simp
    qed
    have "target_to_bits t = push_bit 24 (word_of_nat ?sz) OR
        (push_bit 16 (word_of_nat (unat a)) OR (push_bit 8 (word_of_nat (unat b)) OR word_of_nat (unat c)))"
      using assms False and_0x80 [of a] bytes sizes
      by (simp add: target_to_bits_def Let_def sig add.commute or.assoc)
    also have "push_bit 8 (word_of_nat (unat b)) OR word_of_nat (unat c)
        = (word_of_nat (unat b * 2 ^ 8 + unat c) :: u32)"
      using c_lt by (intro word_push_or) simp
    also have "push_bit 16 (word_of_nat (unat a)) OR \<dots>
        = word_of_nat (unat a * 2 ^ 16 + (unat b * 2 ^ 8 + unat c))"
      using b_lt c_lt by (intro word_push_or) simp
    also have "unat a * 2 ^ 16 + (unat b * 2 ^ 8 + unat c) = mantissa ?sz ?n"
      unfolding m Q_def by simp
    also have "push_bit 24 (word_of_nat ?sz) OR word_of_nat (mantissa ?sz ?n)
        = (word_of_nat (?sz * 2 ^ 24 + mantissa ?sz ?n) :: u32)"
      unfolding m using False b_lt c_lt by (intro word_push_or) (simp add: Q_def)
    finally have "target_to_bits t = word_of_nat (?sz * 2 ^ 24 + mantissa ?sz ?n)" .
    moreover have upper: "?n < 128 * 256 ^ length r"
    proof -
      have "?n < (unat a + 1) * 256 ^ length r" using n_eq r by (simp add: algebra_simps)
      also have "\<dots> \<le> 128 * 256 ^ length r" using False by (intro mult_right_mono) auto
      finally show ?thesis .
    qed
    moreover have "128 * 256 ^ (length r - 1) \<le> ?n" if "1 \<le> length r"
    proof -
      have "128 * 256 ^ (length r - 1) \<le> (256 :: nat) * 256 ^ (length r - 1)" by simp
      also have "\<dots> = 256 ^ length r" using that by (cases "length r") auto
      also have "\<dots> \<le> unat a * 256 ^ length r" using a_pos by simp
      finally show ?thesis using n_eq by simp
    qed
    moreover have "Q < 2 ^ 23" using False b_lt c_lt by (simp add: Q_def)
    ultimately show ?thesis
      using len \<open>?n \<noteq> 0\<close> m
      by (intro exI [of _ ?sz]) (simp add: compact_nat_def)
  qed
qed

lemma compact_nat_unique:
  assumes "compact_nat s n" and "compact_nat s' n"
  shows "s = s'"
proof (rule ccontr)
  assume "s \<noteq> s'"
  have gt: False if "compact_nat a n" "compact_nat b n" "a < b" for a b
  proof -
    have "n < 128 * 256 ^ (a - 1)" using that(1) by (simp add: compact_nat_def)
    also have "\<dots> \<le> 128 * 256 ^ (b - 2)" using that(3) by simp
    also have "\<dots> \<le> n" using that by (auto simp: compact_nat_def)
    finally show False by simp
  qed
  from \<open>s \<noteq> s'\<close> gt [OF assms] gt [OF assms(2,1)] show False by (metis nat_neq_iff)
qed

lemma compact_nat_exists: "0 < n \<Longrightarrow> n < 2 ^ 256 \<Longrightarrow> \<exists>s. compact_nat s n"
  using target_to_bits_nat [of "word_of_nat n"] by (auto simp: unat_of_nat unat_eq_0 word_unat_eq_iff)

lemma target_to_bits_compact:
  assumes "t \<noteq> 0" and "compact_nat sz (unat t)"
  shows "target_to_bits t = word_of_nat (sz * 2 ^ 24 + mantissa sz (unat t))"
  using target_to_bits_nat [OF assms(1)] compact_nat_unique [OF assms(2)] by auto

lemma compact_fields:
  assumes "sz < 256" and "m < 2 ^ 23"
  defines "bits \<equiv> (word_of_nat (sz * 2 ^ 24 + m) :: u32)"
  shows "drop_bit 24 bits = word_of_nat sz" "bits AND 0x007fffff = word_of_nat m"
    "bits AND 0x00800000 = 0"
proof -
  have lt: "sz * 2 ^ 24 + m < 2 ^ 32" using assms by simp
  have u: "unat bits = sz * 2 ^ 24 + m"
    unfolding bits_def using lt by (intro unat_of_nat_lt) simp
  have "unat (drop_bit 24 bits) = sz"
    using assms(2) by (simp add: unat_drop_bit_eq drop_bit_nat_def u)
  then show "drop_bit 24 bits = word_of_nat sz" by (metis word_of_nat_unat)
  have "bits AND 0x007fffff = take_bit 23 bits" by (simp add: take_bit_eq_mask mask_eq_exp_minus_1)
  moreover have "unat (take_bit 23 bits) = m"
  proof -
    have "sz * 2 ^ 24 + m = m + (sz * 2) * 2 ^ 23" by simp
    then have "(sz * 2 ^ 24 + m) mod 2 ^ 23 = m"
      using assms(2) by (metis mod_mult_self1 mod_less)
    then show ?thesis by (simp add: unsigned_take_bit_eq u take_bit_nat_def)
  qed
  ultimately show "bits AND 0x007fffff = word_of_nat m" by (metis word_of_nat_unat)
  have "(sz * 2 ^ 24 + m) div 2 ^ 23 = sz * 2"
    by (rule div_nat_eqI) (use assms(2) in simp_all)
  then have "even (unat bits div 2 ^ 23)" by (simp add: u)
  then have "\<not> bit (unat bits) 23" by (simp add: bit_iff_odd)
  then have "\<not> bit bits 23" by (simp add: bit_unsigned_iff)
  then show "bits AND 0x00800000 = 0"
    using and_exp_eq_0_iff_not_bit [of bits 23] by simp
qed

definition expand :: "nat \<Rightarrow> nat \<Rightarrow> nat" where
  "expand sz m = (if sz \<le> 3 then m div 256 ^ (3 - sz) else m * 256 ^ (sz - 3))"

lemma mantissa_small: "sz \<le> 3 \<Longrightarrow> mantissa sz n = n * 256 ^ (3 - sz)"
proof -
  assume "sz \<le> 3"
  then have "(2::nat) ^ 24 = 256 ^ (3 - sz) * 256 ^ sz"
    by (simp add: power_add [symmetric])
  then have "n * 2 ^ 24 = n * 256 ^ (3 - sz) * 256 ^ sz" by (simp only: mult.assoc)
  then show ?thesis unfolding mantissa_def by (simp only: nonzero_mult_div_cancel_right) simp
qed

lemma mantissa_large: "3 < sz \<Longrightarrow> mantissa sz n = n div 256 ^ (sz - 3)"
proof -
  assume "3 < sz"
  then have "(256::nat) ^ sz = 256 ^ (sz - 3) * 2 ^ 24"
    using power_add [of "256::nat" "sz - 3" 3] by simp
  then have "mantissa sz n = n * 2 ^ 24 div (256 ^ (sz - 3) * 2 ^ 24)" by (simp only: mantissa_def)
  also have "\<dots> = n div 256 ^ (sz - 3)" by (rule div_mult_mult2) simp
  finally show ?thesis .
qed

lemma power_256_shift: "3 < sz \<Longrightarrow> (256::nat) ^ (sz - 2) = 256 * 256 ^ (sz - 3)"
  by (metis Suc_diff_Suc diff_Suc_eq_diff_pred eval_nat_numeral(3) less_trans lessI power_Suc
      diff_Suc_1 numeral_3_eq_3 numeral_2_eq_2 Suc_lessD)

lemma compact_lower:
  assumes "compact_nat sz n" "3 < sz"
  shows "32768 * 256 ^ (sz - 3) \<le> n"
proof -
  have "(256::nat) ^ (sz - 2) = 256 * 256 ^ (sz - 3)"
    using assms(2) by (rule power_256_shift)
  then show ?thesis using assms by (simp add: compact_nat_def)
qed

lemma mantissa_pos: "compact_nat sz n \<Longrightarrow> 0 < mantissa sz n"
proof (cases "sz \<le> 3")
  case True
  assume "compact_nat sz n"
  then show ?thesis unfolding mantissa_small [OF True] by (simp add: compact_nat_def)
next
  case False
  assume c: "compact_nat sz n"
  from compact_lower [OF c] False have "256 ^ (sz - 3) \<le> n" by simp
  then show ?thesis using False by (simp add: mantissa_large div_greater_zero_iff)
qed

lemma expand_mantissa:
  assumes "compact_nat sz n"
  defines "n' \<equiv> expand sz (mantissa sz n)"
  shows "n' \<le> n" "compact_nat sz n'" "mantissa sz n' = mantissa sz n" "n < n' + 256 ^ (sz - 3)"
proof -
  have "n' \<le> n \<and> compact_nat sz n' \<and> mantissa sz n' = mantissa sz n \<and> n < n' + 256 ^ (sz - 3)"
  proof (cases "sz \<le> 3")
    case True
    then have "n' = n" unfolding n'_def expand_def mantissa_small [OF True] by simp
    with assms(1) True show ?thesis by simp
  next
    case False
    let ?X = "256 ^ (sz - 3) :: nat"
    have m: "mantissa sz n = n div ?X" using False by (simp add: mantissa_large)
    have n': "n' = n div ?X * ?X" unfolding n'_def m using False by (simp add: expand_def)
    have le: "n' \<le> n" by (simp add: n')
    have "32768 \<le> n div ?X"
      using compact_lower [OF assms(1)] False by (simp add: less_eq_div_iff_mult_less_eq)
    then have lo: "32768 * ?X \<le> n'" unfolding n' by (intro mult_right_mono) auto
    have p: "(256::nat) ^ (sz - 2) = 256 * ?X"
      using False by (intro power_256_shift) simp
    have "0 < n'" using lo by (metis gr0I le_0_eq mult_is_0 power_eq_0_iff zero_neq_numeral)
    then have "compact_nat sz n'"
      using le lo assms(1) p by (auto simp: compact_nat_def)
    moreover have "mantissa sz n' = n div ?X"
      using False by (simp add: mantissa_large n')
    moreover have "n < n' + ?X"
      unfolding n' by (metis add.commute div_mult_mod_eq add_less_cancel_left mod_less_divisor zero_less_numeral zero_less_power)
    ultimately show ?thesis using le m by simp
  qed
  then show "n' \<le> n" "compact_nat sz n'" "mantissa sz n' = mantissa sz n" "n < n' + 256 ^ (sz - 3)"
    by blast+
qed

lemma unat_expanded:
  assumes "m < 2 ^ 23" and "expand sz m < 2 ^ 256" and "sz \<le> 33"
  shows "unat (if sz \<le> 3 then ucast (drop_bit (8 * (3 - sz)) (word_of_nat m :: u32))
      else push_bit (8 * (sz - 3)) (ucast (word_of_nat m :: u32) :: u256)) = expand sz m"
proof -
  have u: "unat (word_of_nat m :: u32) = m" using assms(1) by (simp add: unat_of_nat_lt)
  have p: "(2::nat) ^ (8 * k) = 256 ^ k" for k by (simp add: power_mult)
  show ?thesis
  proof (cases "sz \<le> 3")
    case True
    have "unat (ucast (drop_bit (8 * (3 - sz)) (word_of_nat m :: u32)) :: u256) =
        unat (drop_bit (8 * (3 - sz)) (word_of_nat m :: u32))"
      by (rule unat_ucast_up) simp
    also have "\<dots> = expand sz m"
      using True by (simp add: unat_drop_bit_eq u expand_def drop_bit_nat_def p)
    finally show ?thesis using True by simp
  next
    case False
    have c: "unat (ucast (word_of_nat m :: u32) :: u256) = m"
      using u by (simp add: unat_ucast_up)
    have "unat (push_bit (8 * (sz - 3)) (ucast (word_of_nat m :: u32) :: u256))
        = m * 256 ^ (sz - 3) mod 2 ^ 256"
      by (simp add: unsigned_push_bit_eq take_bit_nat_def push_bit_nat_def c p)
    then show ?thesis using False assms(2) by (simp add: expand_def)
  qed
qed

lemma bits_to_target_fields:
  assumes "0 < sz" "sz \<le> 33" "0 < m" "m < 2 ^ 23" "expand sz m < 2 ^ 256" "sz = 33 \<longrightarrow> m \<le> 0xffff"
  shows "bits_to_target (word_of_nat (sz * 2 ^ 24 + m)) =
    (let t = word_of_nat (expand sz m)
     in if target_to_bits t = word_of_nat (sz * 2 ^ 24 + m) then Some t else None)"
proof -
  let ?bits = "word_of_nat (sz * 2 ^ 24 + m) :: u32"
  let ?t = "if sz \<le> 3 then ucast (drop_bit (8 * (3 - sz)) (word_of_nat m :: u32))
      else push_bit (8 * (sz - 3)) (ucast (word_of_nat m :: u32) :: u256)"
  have "sz < 256" using assms by simp
  note f = compact_fields [OF this assms(4)]
  have u: "unat (word_of_nat sz :: u32) = sz" "unat (word_of_nat m :: u32) = m"
    using assms(2,4) by (simp_all add: unat_of_nat_lt)
  have t: "?t = word_of_nat (expand sz m)"
    using arg_cong [OF unat_expanded [OF assms(4,5,2)], of "word_of_nat :: nat \<Rightarrow> u256"]
    by (simp only: word_of_nat_unat)
  have n33: "unat (33 :: u32) = 33" "unat (3 :: u32) = 3" "unat (0xffff :: u32) = 0xffff"
    by simp_all
  have c1: "\<not> (word_of_nat m :: u32) = 0" using u(2) assms(3) by (metis unat_0 less_irrefl)
  have c2: "\<not> (word_of_nat sz :: u32) = 0" using u(1) assms(1) by (metis unat_0 less_irrefl)
  have c3: "\<not> 33 < (word_of_nat sz :: u32)"
    unfolding word_less_nat_alt u n33 using assms(2) by simp
  have c4: "\<not> ((word_of_nat sz :: u32) = 33 \<and> 0xffff < (word_of_nat m :: u32))"
    unfolding word_less_nat_alt word_unat_eq_iff u n33 using assms(6) by auto
  have c5: "(word_of_nat sz :: u32) \<le> 3 \<longleftrightarrow> sz \<le> 3"
    unfolding word_le_nat_alt u n33 ..
  have cond: "((word_of_nat m :: u32) = 0 \<or> (0 :: u32) \<noteq> 0 \<or> (word_of_nat sz :: u32) = 0
      \<or> 33 < (word_of_nat sz :: u32)
      \<or> ((word_of_nat sz :: u32) = 33 \<and> 0xffff < (word_of_nat m :: u32))) = False"
    using c1 c2 c3 c4 by blast
  show ?thesis
    unfolding bits_to_target_def Let_def f cond if_False c5 u(1) t by (rule refl)
qed

lemma bits_to_target_of_target:
  assumes "t \<noteq> 0" and c: "compact_nat sz (unat t)"
  shows "bits_to_target (target_to_bits t) = Some (word_of_nat (expand sz (mantissa sz (unat t))))"
    "target_to_bits (word_of_nat (expand sz (mantissa sz (unat t)))) = target_to_bits t"
proof -
  let ?n = "unat t"
  let ?m = "mantissa sz ?n" and ?n' = "expand sz (mantissa sz (unat t))"
  obtain sz' where s': "sz' \<le> 33" "compact_nat sz' ?n" "mantissa sz' ?n < 2 ^ 23"
    using target_to_bits_nat [OF assms(1)] by blast
  then have sz: "sz \<le> 33" "?m < 2 ^ 23" using compact_nat_unique [OF c] by auto
  have n: "?n < 2 ^ 256" using unat_bound [of t] by simp
  note e = expand_mantissa [OF c]
  have n': "?n' < 2 ^ 256" using e(1) n by simp
  have u': "unat (word_of_nat ?n' :: u256) = ?n'" using n' by (simp add: unat_of_nat_lt)
  have "0 < ?n'" using e(2) by (simp add: compact_nat_def)
  then have nz: "(word_of_nat ?n' :: u256) \<noteq> 0" using u' by (metis unat_0 less_irrefl)
  have tb: "target_to_bits t = word_of_nat (sz * 2 ^ 24 + ?m)"
    by (rule target_to_bits_compact [OF assms])
  have "target_to_bits (word_of_nat ?n') = word_of_nat (sz * 2 ^ 24 + mantissa sz ?n')"
    using target_to_bits_compact [OF nz, of sz] e(2) u' by simp
  then show tb': "target_to_bits (word_of_nat ?n') = target_to_bits t"
    by (simp only: e(3) tb)
  have m33: "sz = 33 \<longrightarrow> ?m \<le> 0xffff"
  proof
    assume "sz = 33"
    then have "?m = ?n div 256 ^ 30" by (simp add: mantissa_large)
    also have "\<dots> < 2 ^ 16" using n by (intro less_mult_imp_div_less) simp
    finally show "?m \<le> 0xffff" by simp
  qed
  have "0 < sz" using c by (simp add: compact_nat_def)
  from bits_to_target_fields [OF this sz(1) mantissa_pos [OF c] sz(2) n' m33]
  show "bits_to_target (target_to_bits t) = Some (word_of_nat ?n')"
    using tb tb' by (simp only: Let_def if_True simp_thms)
qed

section \<open>The retarget rule\<close>

lemma asert_factor_0: "asert_factor 0 = 65536"
  by (simp add: asert_factor_def)

lemma asert_factor_mono: "0 \<le> f \<Longrightarrow> f \<le> g \<Longrightarrow> asert_factor f \<le> asert_factor g"
  unfolding asert_factor_def
  by (intro add_mono zdiv_mono1 mult_mono) auto

lemma asert_factor_bounds:
  assumes "0 \<le> f" and "f < 65536"
  shows "65536 \<le> asert_factor f" "asert_factor f \<le> 131072"
proof -
  show "65536 \<le> asert_factor f"
    using asert_factor_mono [of 0 f] assms by (simp add: asert_factor_0)
  have "asert_factor f \<le> asert_factor 65535"
    using assms by (intro asert_factor_mono) auto
  also have "\<dots> \<le> 131072" by (simp add: asert_factor_def)
  finally show "asert_factor f \<le> 131072" .
qed

text \<open>Nothing in \<open>required_target\<close> leaves the range of \<open>i128\<close>.\<close>

lemma asert_i128_bounds:
  fixes h ts launch :: u64 and f :: int
  defines "drift \<equiv> int (unat ts) - int (unat launch) - int (unat h) * int TARGET_BLOCK_TIME"
  assumes "0 \<le> f" and "f < 65536"
  shows "\<bar>drift * 65536\<bar> < 2 ^ 127"
    and "195766423245049 * f + 971821376 * f * f + 5127 * f * f * f + 2 ^ 47 < 2 ^ 127"
proof -
  have b: "unat h < 2 ^ 64" "unat ts < 2 ^ 64" "unat launch < 2 ^ 64"
    using unat_bound [of h] unat_bound [of ts] unat_bound [of launch] by simp_all
  have "\<bar>drift\<bar> < 2 ^ 71"
    using b unfolding drift_def TARGET_BLOCK_TIME_def by (simp del: of_nat_unat)
  then show "\<bar>drift * 65536\<bar> < 2 ^ 127" by simp
  have "195766423245049 * f + 971821376 * f * f + 5127 * f * f * f + 2 ^ 47
      \<le> 195766423245049 * 65535 + 971821376 * 65535 * 65535 + 5127 * 65535 * 65535 * 65535 + 2 ^ 47"
    using assms(2,3) by (intro add_mono mult_mono) auto
  then show "195766423245049 * f + 971821376 * f * f + 5127 * f * f * f + 2 ^ 47 < 2 ^ 127" by simp
qed

text \<open>The rule in numbers: the initial target times \<open>2 ^ (exponent / 65536)\<close>, the integer part
  of the exponent as a shift and the fraction through the polynomial, clamped to
  \<open>[1, pow_limit]\<close>.\<close>

definition scaled :: "nat \<Rightarrow> int \<Rightarrow> nat" where
  "scaled n s = (if s < 0 then n div 2 ^ nat (- s) else n * 2 ^ nat s)"

definition asert_base :: "int \<Rightarrow> nat" where
  "asert_base fraction = (2 ^ 242 - 1) * nat (asert_factor fraction) div 65536"

definition asert_spec :: "int \<Rightarrow> nat" where
  "asert_spec exponent =
     max 1 (min (2 ^ 248 - 1) (scaled (asert_base (exponent mod 65536)) (exponent div 65536)))"

definition asert_exponent :: "u64 \<Rightarrow> u64 \<Rightarrow> u64 \<Rightarrow> int" where
  "asert_exponent parent_height parent_timestamp launch_timestamp =
     ((int (unat parent_timestamp) - int (unat launch_timestamp)
       - (int (unat parent_height) - 1) * 64) * 65536) div 7200"

lemma be_bytes_split:
  fixes v :: u512
  shows "be_nat (take 32 (to_be_bytes v)) = unat v div 2 ^ 256"
    "be_nat (drop 32 (to_be_bytes v)) = unat v mod 2 ^ 256"
proof -
  let ?bs = "to_be_bytes v"
  have len: "length ?bs = 64" by (simp add: to_be_bytes_def)
  have "unat v = be_nat (take 32 ?bs @ drop 32 ?bs)" by (simp add: be_nat_to_be_bytes)
  also have "\<dots> = be_nat (take 32 ?bs) * 2 ^ 256 + be_nat (drop 32 ?bs)"
    by (simp only: be_nat_append) (simp add: len)
  finally have "unat v = be_nat (take 32 ?bs) * 2 ^ 256 + be_nat (drop 32 ?bs)" .
  moreover have "be_nat (drop 32 ?bs) < 2 ^ 256"
    using be_nat_bound [of "drop 32 ?bs"] by (simp add: len)
  ultimately show "be_nat (take 32 ?bs) = unat v div 2 ^ 256"
    "be_nat (drop 32 ?bs) = unat v mod 2 ^ 256" by simp_all
qed

lemma be_nat_eq_0: "be_nat bs = 0 \<longleftrightarrow> (\<forall>b \<in> set bs. b = 0)"
  by (induction bs) (auto simp: be_nat_Cons unat_eq_0)

lemma unat_from_be_bytes:
  assumes "8 dvd LENGTH('a)" and "length bs = LENGTH('a) div 8"
  shows "unat (from_be_bytes bs :: 'a::len word) = be_nat bs"
proof -
  have "(256 :: nat) ^ length bs = 2 ^ LENGTH('a)"
    using assms power_mult [of "2::nat" 8 "LENGTH('a) div 8"] by simp
  then show ?thesis
    using le_nat_bound [of "rev bs"]
    by (simp add: from_be_bytes_def from_le_bytes_def be_nat_def unat_of_nat_lt)
qed

lemma unat_clamped: "unat (u512_to_u256_clamped v m) = min (unat v) (unat m)"
proof (cases "unat v < 2 ^ 256")
  case True
  then have "be_nat (take 32 (to_be_bytes v)) = 0" by (simp add: be_bytes_split)
  then have z: "\<not> (\<exists>b \<in> set (take 32 (to_be_bytes v)). b \<noteq> 0)" by (simp add: be_nat_eq_0)
  have "unat (from_be_bytes (drop 32 (to_be_bytes v)) :: u256) = unat v"
    using True by (subst unat_from_be_bytes) (simp_all add: to_be_bytes_def be_bytes_split [unfolded to_be_bytes_def])
  with z show ?thesis by (simp add: u512_to_u256_clamped_def Let_def unat_min_word)
next
  case False
  then have "be_nat (take 32 (to_be_bytes v)) \<noteq> 0"
    unfolding be_bytes_split by (simp add: div_eq_0_iff)
  then have z: "\<exists>b \<in> set (take 32 (to_be_bytes v)). b \<noteq> 0" by (simp only: be_nat_eq_0) blast
  have "unat m < 2 ^ 256" using unat_bound [of m] by simp
  with z False show ?thesis by (simp add: u512_to_u256_clamped_def Let_def)
qed

lemma asert_base_bounds:
  assumes "0 \<le> f" "f < 65536"
  shows "2 ^ 242 - 1 \<le> asert_base f" "asert_base f \<le> 2 * (2 ^ 242 - 1)"
proof -
  let ?k = "nat (asert_factor f)"
  have k: "65536 \<le> ?k" "?k \<le> 131072" using asert_factor_bounds [OF assms] by simp_all
  have "(2 ^ 242 - 1) * 65536 div 65536 \<le> asert_base f"
    unfolding asert_base_def using k by (intro div_le_mono mult_le_mono2)
  then show "2 ^ 242 - 1 \<le> asert_base f" by simp
  have "asert_base f \<le> (2 ^ 242 - 1) * 131072 div 65536"
    unfolding asert_base_def using k by (intro div_le_mono mult_le_mono2)
  then show "asert_base f \<le> 2 * (2 ^ 242 - 1)" by simp
qed

lemma unat_asert_target:
  assumes "0 \<le> f" "f < 65536"
  shows "unat (drop_bit 16 ((ucast initial_target :: u512) * word_of_int (asert_factor f)))
    = asert_base f"
proof -
  let ?k = "asert_factor f"
  have k: "65536 \<le> ?k" "?k \<le> 131072" using asert_factor_bounds [OF assms] by simp_all
  have w: "(word_of_int ?k :: u512) = word_of_nat (nat ?k)" using k by simp
  have u: "unat (word_of_int ?k :: u512) = nat ?k"
    unfolding w using k by (intro unat_of_nat_lt) simp
  have i: "unat (ucast initial_target :: u512) = 2 ^ 242 - 1"
    by (subst unat_ucast_up) (simp_all add: unat_initial_target)
  have "(2 ^ 242 - 1) * nat ?k \<le> (2 ^ 242 - 1) * 131072"
    using k by (intro mult_le_mono2) simp
  then have "unat ((ucast initial_target :: u512) * word_of_int ?k) = (2 ^ 242 - 1) * nat ?k"
    by (subst unat_mult_exact) (simp_all only: u i, simp)
  then show ?thesis by (simp add: unat_drop_bit_eq drop_bit_nat_def asert_base_def)
qed

lemma scaled_clamp_small:
  assumes "n < 2 ^ 300" "s < 0"
  shows "n div 2 ^ min (nat (- s)) 511 = scaled n s"
proof (cases "nat (- s) \<le> 511")
  case False
  have "n < 2 ^ 511" using assms(1) by simp
  moreover have "(2::nat) ^ 511 \<le> 2 ^ nat (- s)" using False by (intro power_increasing) auto
  ultimately have "n < 2 ^ nat (- s)" by (rule less_le_trans)
  then show ?thesis using assms False \<open>n < 2 ^ 511\<close> by (simp add: scaled_def min_def)
qed (use assms in \<open>simp add: scaled_def min_def\<close>)

lemma required_target_spec:
  "unat (required_target h ts launch) =
     (if unat h \<le> 1 then 2 ^ 242 - 1 else asert_spec (asert_exponent h ts launch))"
proof (cases "h \<le> 1")
  case True
  then show ?thesis by (simp add: required_target_def unat_initial_target word_le_nat_alt)
next
  case False
  let ?e = "asert_exponent h ts launch"
  let ?s = "?e div 65536" and ?f = "?e mod 65536"
  define T where "T = drop_bit 16 ((ucast initial_target :: u512) * word_of_int (asert_factor ?f))"
  have f: "0 \<le> ?f" "?f < 65536" by simp_all
  have T: "unat T = asert_base ?f" unfolding T_def by (rule unat_asert_target [OF f])
  have Tb: "2 ^ 242 - 1 \<le> unat T" "unat T < 2 ^ 243"
    using asert_base_bounds [OF f] by (simp_all add: T)
  have "unat (h - 1) = unat h - 1" using False by (intro unat_minus_one) auto
  moreover have "1 \<le> unat h" using False by (simp add: word_le_nat_alt)
  ultimately have h1: "int (unat (h - 1)) = int (unat h) - 1" by simp
  have e: "((int (unat ts) - int (unat launch) - int (unat (h - 1)) * int TARGET_BLOCK_TIME) * 65536)
      div ASERT_HALF_LIFE = ?e"
    unfolding asert_exponent_def h1 TARGET_BLOCK_TIME_def ASERT_HALF_LIFE_def by simp
  have code: "required_target h ts launch =
      (if ?s < 0 then max (u512_to_u256_clamped (drop_bit (min (nat (- ?s)) 511) T) pow_limit) 1
       else if 256 \<le> ?s then pow_limit
       else if drop_bit (nat ?s) (ucast pow_limit) < T then pow_limit
       else max (u512_to_u256_clamped (push_bit (nat ?s) T) pow_limit) 1)"
    using False unfolding required_target_def Let_def e T_def by simp
  have nh: "\<not> unat h \<le> 1" using False by (simp add: word_le_nat_alt)
  have pl: "unat (ucast pow_limit :: u512) = 2 ^ 248 - 1"
    by (subst unat_ucast_up) (simp_all add: unat_pow_limit)
  show ?thesis
  proof (cases "?s < 0")
    case True
    have "unat (drop_bit (min (nat (- ?s)) 511) T) = scaled (unat T) ?s"
      using scaled_clamp_small [OF _ True, of "unat T"] Tb
      by (simp add: unat_drop_bit_eq drop_bit_nat_def)
    then have "unat (required_target h ts launch) = max (min (scaled (unat T) ?s) (2 ^ 248 - 1)) 1"
      unfolding code using True by (simp only: if_True unat_max_of unat_clamped unat_pow_limit unat_1)
    then show ?thesis using nh by (simp only: if_False asert_spec_def T clamp_commute)
  next
    case nonneg: False
    have spec: "asert_spec ?e = max 1 (min (2 ^ 248 - 1) (unat T * 2 ^ nat ?s))"
      using nonneg by (simp add: asert_spec_def scaled_def T)
    show ?thesis
    proof (cases "256 \<le> ?s")
      case True
      have "(2::nat) ^ 256 \<le> 2 ^ nat ?s" using True by (intro power_increasing) auto
      moreover have "1 \<le> unat T" using Tb(1) by simp
      ultimately have "1 * 2 ^ 256 \<le> unat T * 2 ^ nat ?s" by (intro mult_le_mono)
      moreover have "(2::nat) ^ 248 - 1 \<le> 1 * 2 ^ 256" by simp
      ultimately have "2 ^ 248 - 1 \<le> unat T * 2 ^ nat ?s" by (rule order_trans [rotated])
      then have "asert_spec ?e = 2 ^ 248 - 1" unfolding spec by (simp only: min_absorb1) simp
      moreover have "required_target h ts launch = pow_limit"
        unfolding code using True nonneg by (simp only: if_False if_True)
      ultimately show ?thesis using nh by (simp only: unat_pow_limit if_False)
    next
      case small: False
      define k where "k = nat ?s"
      have k: "k < 256" using small nonneg by (simp add: k_def)
      have lim: "drop_bit k (ucast pow_limit) < T \<longleftrightarrow> 2 ^ 248 - 1 < unat T * 2 ^ k"
        unfolding word_less_nat_alt unat_drop_bit_eq pl drop_bit_nat_def
        by (simp add: div_less_iff_less_mult)
      show ?thesis
      proof (cases "2 ^ 248 - 1 < unat T * 2 ^ k")
        case True
        then show ?thesis unfolding code spec using small nonneg nh lim
          by (simp add: unat_pow_limit k_def)
      next
        case False
        have "unat (push_bit k T) = unat T * 2 ^ k"
          using False by (simp add: unsigned_push_bit_eq take_bit_nat_def push_bit_nat_def)
        moreover have "required_target h ts launch = max (u512_to_u256_clamped (push_bit k T) pow_limit) 1"
          unfolding code using small nonneg lim False by (simp only: k_def if_False)
        ultimately have "unat (required_target h ts launch)
            = max (min (unat T * 2 ^ k) (2 ^ 248 - 1)) 1"
          by (simp only: unat_max_of unat_clamped unat_pow_limit unat_1)
        then show ?thesis using nh by (simp only: if_False spec k_def clamp_commute)
      qed
    qed
  qed
qed


lemma scaled_mono: "n \<le> m \<Longrightarrow> scaled n s \<le> scaled m s"
  by (simp add: scaled_def div_le_mono)

lemma scaled_double: "n \<le> 2 * m \<Longrightarrow> scaled n s \<le> scaled m (s + 1)"
proof -
  assume le: "n \<le> 2 * m"
  show ?thesis
  proof (cases "s < 0")
    case True
    define k where "k = nat (- s - 1)"
    have k: "nat (- s) = Suc k" "s + 1 = - int k" using True by (simp_all add: k_def)
    have "scaled n s = n div 2 div 2 ^ k" using True k by (simp add: scaled_def div_mult2_eq)
    also have "\<dots> \<le> m div 2 ^ k" using le by (intro div_le_mono) simp
    also have "\<dots> = scaled m (s + 1)" by (simp add: k scaled_def)
    finally show ?thesis .
  next
    case False
    then have "nat (s + 1) = Suc (nat s)" by simp
    then show ?thesis using False le by (simp add: scaled_def)
  qed
qed

lemma scaled_shift_mono: "s \<le> s' \<Longrightarrow> scaled n s \<le> scaled n s'"
proof (induction rule: int_ge_induct)
  case (step i)
  have "scaled n i \<le> scaled n (i + 1)" by (rule scaled_double) simp
  with step show ?case by simp
qed simp

lemma asert_base_mono: "0 \<le> f \<Longrightarrow> f \<le> g \<Longrightarrow> asert_base f \<le> asert_base g"
  unfolding asert_base_def
  by (intro div_le_mono mult_le_mono2 nat_mono asert_factor_mono)

lemma asert_spec_mono:
  assumes "e \<le> e'"
  shows "asert_spec e \<le> asert_spec e'"
proof -
  let ?b = "\<lambda>e. asert_base (e mod 65536)" and ?s = "\<lambda>e :: int. e div 65536"
  have "scaled (?b e) (?s e) \<le> scaled (?b e') (?s e')"
  proof (cases "?s e = ?s e'")
    case True
    then have le: "e mod 65536 \<le> e' mod 65536"
      using assms by (metis add_le_cancel_left mult_div_mod_eq)
    have "?b e \<le> ?b e'" by (rule asert_base_mono [OF _ le]) simp
    then show ?thesis unfolding True by (rule scaled_mono)
  next
    case False
    then have "?s e + 1 \<le> ?s e'" using zdiv_mono1 [OF assms, of 65536] by simp
    have "?b e \<le> 2 * (2 ^ 242 - 1)" by (rule asert_base_bounds) simp_all
    also have "\<dots> \<le> 2 * ?b e'" by (intro mult_le_mono2 asert_base_bounds) simp_all
    finally have "scaled (?b e) (?s e) \<le> scaled (?b e') (?s e + 1)" by (rule scaled_double)
    also have "\<dots> \<le> scaled (?b e') (?s e')" by (rule scaled_shift_mono) fact
    finally show ?thesis .
  qed
  then show ?thesis unfolding asert_spec_def by (intro max.mono min.mono order_refl)
qed

lemma required_target_bounds: "1 \<le> required_target h ts launch" "required_target h ts launch \<le> pow_limit"
  unfolding word_le_nat_alt required_target_spec by (auto simp: asert_spec_def unat_pow_limit)

lemma required_target_mono_timestamp:
  "ts \<le> ts' \<Longrightarrow> required_target h ts launch \<le> required_target h ts' launch"
  unfolding word_le_nat_alt required_target_spec
  by (auto intro!: asert_spec_mono zdiv_mono1 simp: asert_exponent_def simp del: of_nat_unat)

lemma required_target_anti_height:
  "2 \<le> h \<Longrightarrow> h \<le> h' \<Longrightarrow> required_target h' ts launch \<le> required_target h ts launch"
  unfolding word_le_nat_alt required_target_spec
  by (auto intro!: asert_spec_mono zdiv_mono1 simp: asert_exponent_def simp del: of_nat_unat)

lemma required_target_on_schedule:
  assumes "unat ts = unat launch + (unat h - 1) * 64" and "2 \<le> unat h"
  shows "required_target h ts launch = initial_target"
proof -
  have "asert_exponent h ts launch = 0"
    using assms unfolding asert_exponent_def by (simp del: of_nat_unat add: of_nat_diff)
  then have "unat (required_target h ts launch) = 2 ^ 242 - 1"
    using assms(2) unfolding required_target_spec
    by (simp add: asert_spec_def asert_base_def asert_factor_0 scaled_def)
  then show ?thesis by (simp add: word_unat_eq_iff unat_initial_target)
qed

section \<open>Work and shares\<close>

lemma unat_target_work:
  assumes "t \<noteq> 0"
  shows "unat (target_work t) = 2 ^ 256 div (unat t + 1)"
proof (cases "t = - 1")
  case True
  then show ?thesis by (simp add: target_work_def unat_max_word)
next
  case False
  have lt: "unat t < 2 ^ 256" using unat_bound [of t] by simp
  have "unat t \<noteq> 2 ^ 256 - 1"
    using False word_unat_eq_iff [of t "- 1"] by (simp add: unat_max_word)
  then have ne: "unat t + 1 \<noteq> 2 ^ 256" by simp
  have t1: "unat (t + 1) = unat t + 1"
    using lt ne by (subst unat_add_exact) simp_all
  have "NOT t = - 1 - t" by (simp add: not_eq_complement)
  then have n: "unat (NOT t) = 2 ^ 256 - (unat t + 1)"
    by (simp add: unat_sub_exact unat_max_word)
  have pos: "2 \<le> unat t + 1" using assms by (simp add: unat_gt_0 Suc_le_eq)
  have d: "unat (NOT t div (t + 1)) = (2 ^ 256 - (unat t + 1)) div (unat t + 1)"
    by (simp only: unat_div n t1)
  have "2 ^ 256 div (unat t + 1) = (2 ^ 256 - (unat t + 1)) div (unat t + 1) + 1"
    using lt by (subst le_div_geq) simp_all
  moreover have "2 ^ 256 div (unat t + 1) < 2 ^ 256"
    using pos by (intro div_less_dividend) simp_all
  moreover have "target_work t = NOT t div (t + 1) + 1"
    using False by (simp add: target_work_def)
  ultimately show ?thesis by (simp add: unat_add_exact d)
qed

lemma target_work_pos: "t \<noteq> 0 \<Longrightarrow> 0 < unat (target_work t)"
  using unat_bound [of t] by (simp add: unat_target_work div_greater_zero_iff)

lemma target_work_anti:
  assumes "t \<noteq> 0" and "t \<le> t'"
  shows "target_work t' \<le> target_work t"
proof -
  have "t' \<noteq> 0" using assms by auto
  then show ?thesis
    using assms by (simp add: word_le_nat_alt unat_target_work div_le_mono2)
qed

section \<open>The interval of shares\<close>

lemma compact_exists_word: "(t :: u256) \<noteq> 0 \<Longrightarrow> \<exists>sz. compact_nat sz (unat t)"
  by (metis target_to_bits_nat)

lemma compact_truncation:
  assumes "compact_nat sz n"
  shows "n \<le> 2 * expand sz (mantissa sz n)"
proof (cases "3 < sz")
  case True
  note e = expand_mantissa [OF assms]
  have "256 ^ (sz - 3) \<le> expand sz (mantissa sz n)"
    using compact_lower [OF e(2) True] by simp
  then show ?thesis using e(4) by simp
next
  case False
  then have "sz \<le> 3" by simp
  then show ?thesis by (simp add: expand_def mantissa_small [OF \<open>sz \<le> 3\<close>])
qed

text \<open>The target a compact value stands for: at most the target it was made from, more than half
  of it, and a fixed point of the conversion.\<close>

lemma compact_target:
  assumes "t \<noteq> 0"
  obtains t' where "bits_to_target (target_to_bits t) = Some t'" "t' \<le> t" "unat t \<le> 2 * unat t'"
    "target_to_bits t' = target_to_bits t" "t' \<noteq> 0"
proof -
  obtain sz where c: "compact_nat sz (unat t)" using compact_exists_word [OF assms] by blast
  let ?n = "expand sz (mantissa sz (unat t))"
  note e = expand_mantissa [OF c]
  have n: "?n < 2 ^ 256" using e(1) unat_bound [of t] by simp
  then have u: "unat (word_of_nat ?n :: u256) = ?n" by (simp add: unat_of_nat_lt)
  have "0 < ?n" using e(2) by (simp add: compact_nat_def)
  then have "(word_of_nat ?n :: u256) \<noteq> 0" using u by (metis unat_0 less_irrefl)
  with bits_to_target_of_target [OF assms c] e(1) u compact_truncation [OF c] that
  show thesis by (simp add: word_le_nat_alt)
qed

lemma bits_to_target_Some:
  assumes "bits_to_target bits = Some t"
  shows "target_to_bits t = bits" "t \<noteq> 0"
proof -
  show b: "target_to_bits t = bits"
    using assms by (auto simp: bits_to_target_def Let_def split: if_splits)
  show "t \<noteq> 0"
  proof
    assume "t = 0"
    then have "bits = 0" using b by (simp add: target_to_bits_def)
    with assms show False by (simp add: bits_to_target_def)
  qed
qed

lemma bits_to_target_inject:
  "bits_to_target a = Some t \<Longrightarrow> bits_to_target b = Some t \<Longrightarrow> a = b"
  using bits_to_target_Some by blast

lemma required_bits_decodes:
  obtains t where "bits_to_target (required_bits h ts launch) = Some t"
    "t \<le> required_target h ts launch" "t \<le> pow_limit" "1 \<le> t"
proof -
  have "required_target h ts launch \<noteq> 0" using required_target_bounds(1) [of h ts launch] by auto
  then obtain t' where "bits_to_target (target_to_bits (required_target h ts launch)) = Some t'"
    "t' \<le> required_target h ts launch" "t' \<noteq> 0" by (rule compact_target)
  moreover have "t' \<le> pow_limit"
    using calculation(2) required_target_bounds(2) by (rule order_trans)
  ultimately show thesis using that by (simp add: required_bits_def word_le_nat_alt unat_gt_0 Suc_le_eq)
qed

text \<open>The share target is the compact form of 32 times the block target.\<close>

lemma workshare_bits_exact:
  assumes t: "bits_to_target bits = Some t" and le: "t \<le> pow_limit"
  obtains s where "unat s = 32 * unat t" "workshare_bits bits = Some (target_to_bits s)"
proof -
  let ?x = "(ucast t :: u512) * word_of_nat WORKSHARE_TARGET_MULTIPLIER"
  have t0: "0 < unat t" using bits_to_target_Some(2) [OF t] by (simp add: unat_gt_0)
  have tl: "unat t < 2 ^ 248" using le by (simp add: word_le_nat_alt unat_pow_limit)
  have ut: "unat (ucast t :: u512) = unat t" by (rule unat_ucast_up) simp
  have x: "unat ?x = 32 * unat t"
    using tl by (subst unat_mult_exact) (simp_all add: ut WORKSHARE_TARGET_MULTIPLIER_def)
  define s where "s = max (u512_to_u256_clamped ?x (- 1)) 1"
  have "unat s = 32 * unat t"
    using tl t0 unfolding s_def unat_max_of unat_clamped x by (simp add: unat_max_word)
  moreover have "workshare_bits bits = Some (target_to_bits s)"
    by (simp add: workshare_bits_def t Let_def s_def)
  ultimately show thesis by (rule that)
qed

lemma share_target_exceeds:
  assumes t: "bits_to_target bits = Some t" and le: "t \<le> pow_limit"
  obtains sb st where "workshare_bits bits = Some sb" "bits_to_target sb = Some st" "t < st"
    "16 * unat t \<le> unat st" "unat st \<le> 32 * unat t"
proof -
  have t0: "0 < unat t" using bits_to_target_Some(2) [OF t] by (simp add: unat_gt_0)
  obtain s where s: "unat s = 32 * unat t" "workshare_bits bits = Some (target_to_bits s)"
    by (rule workshare_bits_exact [OF assms])
  then have "s \<noteq> 0" using t0 by (metis mult_is_0 unat_0 less_irrefl zero_neq_numeral)
  then obtain st where st: "bits_to_target (target_to_bits s) = Some st" "st \<le> s"
    "unat s \<le> 2 * unat st" by (rule compact_target)
  have "16 * unat t \<le> unat st" using st(3) s by simp
  moreover have "unat st \<le> 32 * unat t" using st(2) s by (simp add: word_le_nat_alt)
  moreover have "t < st" using calculation(1) t0 by (simp add: word_less_nat_alt)
  ultimately show thesis using s(2) st(1) that by blast
qed

end
