(* ===== verification/Objects.thy ===== *)
theory Objects
  imports Difficulty
begin

text \<open>
  The consensus objects of \<open>src/consensus/types.rs\<close>: one record per struct, its encoder, its
  decoder, its identifier, and the Merkle root over transaction identifiers.  Each encoder and
  decoder is an interpretation of the locale \<open>codec\<close>; the third argument of an interpretation
  is the exact set of values a decoder can return.
\<close>

record transaction =
  tx_version :: u16
  tx_sender :: address
  tx_recipient :: address
  tx_amount :: u64
  tx_fee :: u64
  tx_nonce :: u64
  tx_public_key :: bytes
  tx_signature :: bytes

record reward_claim =
  rc_version :: u16
  rc_height :: u64
  rc_finder :: address
  rc_amount :: u64
  rc_extranonce :: u64

record block_header =
  bh_version :: u16
  bh_protocol :: u16
  bh_height :: u64
  bh_previous_block :: hash32
  bh_transactions_root :: hash32
  bh_state_root :: hash32
  bh_workshare_root :: hash32
  bh_timestamp :: u64
  bh_bits :: u32
  bh_nonce :: u64

record block_template =
  bt_version :: u16
  bt_height :: u64
  bt_parent :: hash32
  bt_transactions :: "transaction list"

record workshare =
  ws_version :: u16
  ws_previous :: hash32
  ws_template_id :: hash32
  ws_miner :: address
  ws_extranonce :: u64
  ws_candidate_header :: block_header

record workshare_witness =
  ww_version :: u16
  ww_templates :: "block_template list"
  ww_workshares :: "workshare list"

record block =
  blk_header :: block_header
  blk_reward_claim :: "reward_claim option"
  blk_transactions :: "transaction list"
  blk_witness :: workshare_witness

definition TX_VERSION :: u16 where "TX_VERSION = 1"
definition CLAIM_VERSION :: u16 where "CLAIM_VERSION = 1"
definition TEMPLATE_VERSION :: u16 where "TEMPLATE_VERSION = 1"
definition SHARE_VERSION :: u16 where "SHARE_VERSION = 1"
definition WITNESS_VERSION :: u16 where "WITNESS_VERSION = 1"
definition HEADER_ENCODED_LEN :: nat where "HEADER_ENCODED_LEN = 160"

section \<open>Transactions\<close>

definition transaction_enc :: "transaction \<Rightarrow> bytes" where
  "transaction_enc t =
     put_u16 (tx_version t) @ address_enc (tx_sender t) @ address_enc (tx_recipient t)
     @ put_u64 (tx_amount t) @ put_u64 (tx_fee t) @ put_u64 (tx_nonce t)
     @ put_bytes (tx_public_key t) @ put_bytes (tx_signature t)"

definition transaction_dec :: "prims \<Rightarrow> transaction decoder" where
  "transaction_dec E bs off =
     rbind (get_u16 bs off) (\<lambda>(version, off).
     rbind (address_dec E bs off) (\<lambda>(sender, off).
     rbind (address_dec E bs off) (\<lambda>(recipient, off).
     rbind (get_u64 bs off) (\<lambda>(amount, off).
     rbind (get_u64 bs off) (\<lambda>(fee, off).
     rbind (get_u64 bs off) (\<lambda>(nonce, off).
     rbind (get_bytes 65 bs off) (\<lambda>(public_key, off).
     rbind (get_bytes 64 bs off) (\<lambda>(signature, off).
       let value = \<lparr>tx_version = version, tx_sender = sender, tx_recipient = recipient,
             tx_amount = amount, tx_fee = fee, tx_nonce = nonce,
             tx_public_key = public_key, tx_signature = signature\<rparr>
       in if MAX_TRANSACTION_BYTES < length (transaction_enc value)
          then Inl (LimitExceeded (length (transaction_enc value)) MAX_TRANSACTION_BYTES)
          else Inr (value, off)))))))))"

definition transaction_signing_bytes :: "transaction \<Rightarrow> bytes" where
  "transaction_signing_bytes t =
     put_bytes CHAIN_ID @ put_u16 (tx_version t) @ address_enc (tx_sender t)
     @ address_enc (tx_recipient t) @ put_u64 (tx_amount t) @ put_u64 (tx_fee t)
     @ put_u64 (tx_nonce t)"

definition transaction_signature_hash :: "prims \<Rightarrow> transaction \<Rightarrow> hash32" where
  "transaction_signature_hash E t =
     domain_hash E (ascii ''PARITR-P9-TX-SIGN-v1'') (transaction_signing_bytes t)"

definition transaction_id :: "prims \<Rightarrow> transaction \<Rightarrow> hash32" where
  "transaction_id E t = domain_hash E (ascii ''PARITR-P9-TXID-v1'') (transaction_enc t)"

section \<open>Reward claims\<close>

definition claim_enc :: "reward_claim \<Rightarrow> bytes" where
  "claim_enc c =
     put_u16 (rc_version c) @ put_u64 (rc_height c) @ address_enc (rc_finder c)
     @ put_u64 (rc_amount c) @ put_u64 (rc_extranonce c)"

definition claim_dec :: "prims \<Rightarrow> reward_claim decoder" where
  "claim_dec E bs off =
     rbind (get_u16 bs off) (\<lambda>(version, off).
     rbind (get_u64 bs off) (\<lambda>(height, off).
     rbind (address_dec E bs off) (\<lambda>(finder, off).
     rbind (get_u64 bs off) (\<lambda>(amount, off).
     rbind (get_u64 bs off) (\<lambda>(extranonce, off).
       Inr (\<lparr>rc_version = version, rc_height = height, rc_finder = finder, rc_amount = amount,
             rc_extranonce = extranonce\<rparr>, off))))))"

definition claim_id :: "prims \<Rightarrow> reward_claim \<Rightarrow> hash32" where
  "claim_id E c = domain_hash E (ascii ''PARITR-P9-REWARD-CLAIM-v1'') (claim_enc c)"

section \<open>Headers\<close>

definition header_enc :: "block_header \<Rightarrow> bytes" where
  "header_enc h =
     put_u16 (bh_version h) @ put_u16 (bh_protocol h) @ put_u64 (bh_height h)
     @ hash_enc (bh_previous_block h) @ hash_enc (bh_transactions_root h)
     @ hash_enc (bh_state_root h) @ hash_enc (bh_workshare_root h)
     @ put_u64 (bh_timestamp h) @ put_u32 (bh_bits h) @ put_u64 (bh_nonce h)"

definition header_dec :: "block_header decoder" where
  "header_dec bs off =
     rbind (get_u16 bs off) (\<lambda>(version, off).
     rbind (get_u16 bs off) (\<lambda>(protocol, off).
     rbind (get_u64 bs off) (\<lambda>(height, off).
     rbind (hash_dec bs off) (\<lambda>(previous_block, off).
     rbind (hash_dec bs off) (\<lambda>(transactions_root, off).
     rbind (hash_dec bs off) (\<lambda>(state_root, off).
     rbind (hash_dec bs off) (\<lambda>(workshare_root, off).
     rbind (get_u64 bs off) (\<lambda>(timestamp, off).
     rbind (get_u32 bs off) (\<lambda>(bits, off).
     rbind (get_u64 bs off) (\<lambda>(nonce, off).
       Inr (\<lparr>bh_version = version, bh_protocol = protocol, bh_height = height,
             bh_previous_block = previous_block, bh_transactions_root = transactions_root,
             bh_state_root = state_root, bh_workshare_root = workshare_root,
             bh_timestamp = timestamp, bh_bits = bits, bh_nonce = nonce\<rparr>, off)))))))))))"

definition header_id :: "prims \<Rightarrow> block_header \<Rightarrow> hash32" where
  "header_id E h = sha256d E (header_enc h)"

section \<open>Templates\<close>

definition template_enc :: "block_template \<Rightarrow> bytes" where
  "template_enc t =
     put_u16 (bt_version t) @ put_u64 (bt_height t) @ hash_enc (bt_parent t)
     @ put_vec transaction_enc (bt_transactions t)"

definition template_dec :: "prims \<Rightarrow> block_template decoder" where
  "template_dec E bs off =
     rbind (get_u16 bs off) (\<lambda>(version, off).
     rbind (get_u64 bs off) (\<lambda>(height, off).
     rbind (hash_dec bs off) (\<lambda>(parent, off).
     rbind (get_vec MAX_BLOCK_TRANSACTIONS MAX_TRANSACTION_BYTES (transaction_dec E) bs off)
       (\<lambda>(transactions, off).
       Inr (\<lparr>bt_version = version, bt_height = height, bt_parent = parent,
             bt_transactions = transactions\<rparr>, off)))))"

definition template_id :: "prims \<Rightarrow> block_template \<Rightarrow> hash32" where
  "template_id E t = domain_hash E (ascii ''PARITR-P9-TEMPLATE-v1'') (template_enc t)"

section \<open>Workshares and their witness\<close>

definition workshare_enc :: "workshare \<Rightarrow> bytes" where
  "workshare_enc s =
     put_u16 (ws_version s) @ hash_enc (ws_previous s) @ hash_enc (ws_template_id s)
     @ address_enc (ws_miner s) @ put_u64 (ws_extranonce s) @ header_enc (ws_candidate_header s)"

definition workshare_dec :: "prims \<Rightarrow> workshare decoder" where
  "workshare_dec E bs off =
     rbind (get_u16 bs off) (\<lambda>(version, off).
     rbind (hash_dec bs off) (\<lambda>(previous_workshare, off).
     rbind (hash_dec bs off) (\<lambda>(tid, off).
     rbind (address_dec E bs off) (\<lambda>(miner, off).
     rbind (get_u64 bs off) (\<lambda>(extranonce, off).
     rbind (header_dec bs off) (\<lambda>(candidate_header, off).
       Inr (\<lparr>ws_version = version, ws_previous = previous_workshare, ws_template_id = tid,
             ws_miner = miner, ws_extranonce = extranonce,
             ws_candidate_header = candidate_header\<rparr>, off)))))))"

definition workshare_id :: "prims \<Rightarrow> workshare \<Rightarrow> hash32" where
  "workshare_id E s = domain_hash E (ascii ''PARITR-P9-WORKSHARE-v1'') (workshare_enc s)"

definition witness_empty :: workshare_witness where
  "witness_empty = \<lparr>ww_version = WITNESS_VERSION, ww_templates = [], ww_workshares = []\<rparr>"

definition witness_enc :: "workshare_witness \<Rightarrow> bytes" where
  "witness_enc w =
     put_u16 (ww_version w) @ put_vec template_enc (ww_templates w)
     @ put_vec workshare_enc (ww_workshares w)"

definition witness_dec :: "prims \<Rightarrow> workshare_witness decoder" where
  "witness_dec E bs off =
     rbind (get_u16 bs off) (\<lambda>(version, off).
     rbind (get_vec MAX_TEMPLATES_PER_BLOCK MAX_TEMPLATE_BYTES (template_dec E) bs off)
       (\<lambda>(templates, off).
     rbind (get_vec MAX_WORKSHARES_PER_BLOCK 512 (workshare_dec E) bs off)
       (\<lambda>(workshares, off).
       Inr (\<lparr>ww_version = version, ww_templates = templates, ww_workshares = workshares\<rparr>, off))))"

definition witness_root :: "prims \<Rightarrow> workshare_witness \<Rightarrow> hash32" where
  "witness_root E w = domain_hash E (ascii ''PARITR-P9-WORKSHARE-WITNESS-v1'') (witness_enc w)"

definition witness_is_canonical :: "prims \<Rightarrow> workshare_witness \<Rightarrow> bool" where
  "witness_is_canonical E w =
     (let ids = map (template_id E) (ww_templates w) in
      if list_ex (\<lambda>(a, b). a \<ge> b) (zip ids (tl ids)) then False
      else set (map ws_template_id (ww_workshares w)) = set ids)"

section \<open>Blocks\<close>

definition block_enc :: "block \<Rightarrow> bytes" where
  "block_enc b =
     header_enc (blk_header b)
     @ (case blk_reward_claim b of Some claim \<Rightarrow> put_u8 1 @ claim_enc claim | None \<Rightarrow> put_u8 0)
     @ put_vec transaction_enc (blk_transactions b)
     @ put_bytes (witness_enc (blk_witness b))"

definition claim_option_dec :: "prims \<Rightarrow> reward_claim option decoder" where
  "claim_option_dec E bs off =
     rbind (get_u8 bs off) (\<lambda>(tag, off).
       if tag = 0 then Inr (None, off)
       else if tag = 1 then rbind (claim_dec E bs off) (\<lambda>(claim, off). Inr (Some claim, off))
       else Inl (InvalidTag tag))"

definition block_dec :: "prims \<Rightarrow> block decoder" where
  "block_dec E bs off =
     rbind (header_dec bs off) (\<lambda>(header, off).
     rbind (claim_option_dec E bs off) (\<lambda>(reward_claim, off).
     rbind (get_vec MAX_BLOCK_TRANSACTIONS MAX_TRANSACTION_BYTES (transaction_dec E) bs off)
       (\<lambda>(transactions, off).
     rbind (get_nested MAX_WORKSHARE_WITNESS_BYTES (witness_dec E) bs off) (\<lambda>(witness, off).
       Inr (\<lparr>blk_header = header, blk_reward_claim = reward_claim,
             blk_transactions = transactions, blk_witness = witness\<rparr>, off)))))"

definition block_id :: "prims \<Rightarrow> block \<Rightarrow> hash32" where
  "block_id E b = header_id E (blk_header b)"

section \<open>The Merkle root\<close>

definition merkle_node :: "prims \<Rightarrow> hash32 \<Rightarrow> hash32 \<Rightarrow> hash32" where
  "merkle_node E l r =
     domain_hash E (ascii ''PARITR-P9-MERKLE-NODE-v1'') (array_bytes l @ array_bytes r)"

fun chunks2 :: "'a list \<Rightarrow> ('a \<times> 'a) list" where
  "chunks2 (x # y # r) = (x, y) # chunks2 r"
| "chunks2 _ = []"

definition merkle_level :: "prims \<Rightarrow> hash32 list \<Rightarrow> hash32 list" where
  "merkle_level E level =
     (let padded = (if length level mod 2 = 1 then level @ [last level] else level)
      in map (\<lambda>(l, r). merkle_node E l r) (chunks2 padded))"

lemma length_chunks2 [simp]: "length (chunks2 xs) = length xs div 2"
  by (induction xs rule: chunks2.induct) simp_all

lemma length_merkle_level: "length (merkle_level E level) = (length level + 1) div 2"
  by (simp add: merkle_level_def Let_def) presburger

function merkle_loop :: "prims \<Rightarrow> hash32 list \<Rightarrow> hash32" where
  "merkle_loop E level =
     (if 1 < length level then merkle_loop E (merkle_level E level) else level ! 0)"
  by pat_completeness auto
termination
  by (relation "measure (\<lambda>(E, level). length level)") (auto simp: length_merkle_level)

declare merkle_loop.simps [simp del]

definition merkle_root :: "prims \<Rightarrow> hash32 list \<Rightarrow> hash32" where
  "merkle_root E leaves =
     (if leaves = [] then domain_hash E (ascii ''PARITR-P9-MERKLE-EMPTY-v1'') []
      else merkle_loop E leaves)"

definition block_transaction_root :: "prims \<Rightarrow> block \<Rightarrow> hash32" where
  "block_transaction_root E b =
     merkle_root E ((case blk_reward_claim b of Some claim \<Rightarrow> [claim_id E claim] | None \<Rightarrow> [])
       @ map (transaction_id E) (blk_transactions b))"

section \<open>Codec laws\<close>

definition transaction_wf :: "prims \<Rightarrow> transaction \<Rightarrow> bool" where
  "transaction_wf E t \<longleftrightarrow> address_ok E (tx_sender t) \<and> address_ok E (tx_recipient t)
     \<and> length (tx_public_key t) \<le> 65 \<and> length (tx_signature t) \<le> 64"

definition claim_ok :: "prims \<Rightarrow> reward_claim \<Rightarrow> bool" where
  "claim_ok E c \<longleftrightarrow> address_ok E (rc_finder c)"

definition template_wf :: "prims \<Rightarrow> block_template \<Rightarrow> bool" where
  "template_wf E t \<longleftrightarrow> length (bt_transactions t) \<le> MAX_BLOCK_TRANSACTIONS
     \<and> (\<forall>tx \<in> set (bt_transactions t). transaction_wf E tx)"

definition workshare_ok :: "prims \<Rightarrow> workshare \<Rightarrow> bool" where
  "workshare_ok E s \<longleftrightarrow> address_ok E (ws_miner s)"

definition witness_wf :: "prims \<Rightarrow> workshare_witness \<Rightarrow> bool" where
  "witness_wf E w \<longleftrightarrow> length (ww_templates w) \<le> MAX_TEMPLATES_PER_BLOCK
     \<and> length (ww_workshares w) \<le> MAX_WORKSHARES_PER_BLOCK
     \<and> (\<forall>t \<in> set (ww_templates w). template_wf E t \<and> length (template_enc t) \<le> MAX_TEMPLATE_BYTES)
     \<and> (\<forall>s \<in> set (ww_workshares w). workshare_ok E s)"

definition block_wf :: "prims \<Rightarrow> block \<Rightarrow> bool" where
  "block_wf E b \<longleftrightarrow> pred_option (claim_ok E) (blk_reward_claim b)
     \<and> length (blk_transactions b) \<le> MAX_BLOCK_TRANSACTIONS
     \<and> (\<forall>tx \<in> set (blk_transactions b). transaction_wf E tx)
     \<and> witness_wf E (blk_witness b)
     \<and> length (witness_enc (blk_witness b)) \<le> MAX_WORKSHARE_WITNESS_BYTES"

lemma length_transaction_enc:
  "length (transaction_enc t) = 84 + length (tx_public_key t) + length (tx_signature t)"
  by (simp add: transaction_enc_def)

lemma length_claim_enc [simp]: "length (claim_enc c) = 51"
  by (simp add: claim_enc_def)

lemma length_header_enc [simp]: "length (header_enc h) = 160"
  by (simp add: header_enc_def)

lemma length_workshare_enc [simp]: "length (workshare_enc s) = 259"
  by (simp add: workshare_enc_def)

lemma transaction_wf_length: "transaction_wf E t \<Longrightarrow> length (transaction_enc t) \<le> 213"
  by (simp add: transaction_wf_def length_transaction_enc)

text \<open>The laws the compound decoders are built from, with the side condition discharged once.\<close>

lemmas prim_laws = u8_codec.law u16_codec.law u32_codec.law u64_codec.law hash_codec.law
  address_codec.law get_bytes_law

lemma transaction_seg:
  "seg_at bs off (transaction_enc t) off' = seg_at bs off
     (put_u16 (tx_version t) @ address_enc (tx_sender t) @ address_enc (tx_recipient t)
     @ put_u64 (tx_amount t) @ put_u64 (tx_fee t) @ put_u64 (tx_nonce t)
     @ put_bytes (tx_public_key t) @ put_bytes (tx_signature t)) off'"
  by (simp add: transaction_enc_def)

lemma transaction_dec_law:
  assumes small: "length bs < 2 ^ 64"
  shows "transaction_dec E bs off = Inr (v, off') \<longleftrightarrow>
    transaction_wf E v \<and> seg_at bs off (transaction_enc v) off'"
proof -
  have bound: "n \<le> 65 \<Longrightarrow> n \<le> MAX_CONSENSUS_ALLOCATION" for n
    by (simp add: limit_defs)
  have "transaction_dec E bs off = Inr (v, off') \<longleftrightarrow>
      length (transaction_enc v) \<le> MAX_TRANSACTION_BYTES
      \<and> transaction_wf E v \<and> seg_at bs off (transaction_enc v) off'"
    unfolding transaction_seg
    by (cases v)
      (simp add: transaction_dec_def result_simps Let_def not_less prim_laws [OF small] transaction_wf_def
        seg_at_append if_Inl, use bound in fastforce)
  then show ?thesis
    by (auto simp: transaction_wf_def length_transaction_enc limit_defs)
qed

lemma claim_dec_law:
  assumes small: "length bs < 2 ^ 64"
  shows "claim_dec E bs off = Inr (v, off') \<longleftrightarrow> claim_ok E v \<and> seg_at bs off (claim_enc v) off'"
  by (cases v)
    (simp add: claim_dec_def result_simps prim_laws [OF small] claim_ok_def claim_enc_def
      seg_at_append, blast)

lemma header_dec_law:
  assumes small: "length bs < 2 ^ 64"
  shows "header_dec bs off = Inr (v, off') \<longleftrightarrow> seg_at bs off (header_enc v) off'"
  by (cases v)
    (simp add: header_dec_def result_simps prim_laws [OF small] header_enc_def seg_at_append, blast)

lemma workshare_dec_law:
  assumes small: "length bs < 2 ^ 64"
  shows "workshare_dec E bs off = Inr (v, off') \<longleftrightarrow>
    workshare_ok E v \<and> seg_at bs off (workshare_enc v) off'"
  by (cases v)
    (simp add: workshare_dec_def result_simps prim_laws [OF small] workshare_ok_def
      workshare_enc_def seg_at_append header_dec_law [OF small], blast)

interpretation transaction_codec: codec transaction_enc "transaction_dec E" "transaction_wf E" for E
  by unfold_locales (simp add: transaction_dec_law)

interpretation claim_codec: codec claim_enc "claim_dec E" "claim_ok E" for E
  by unfold_locales (simp add: claim_dec_law)

interpretation header_codec: codec header_enc header_dec "\<lambda>_. True"
  by unfold_locales (simp add: header_dec_law)

interpretation workshare_codec: codec workshare_enc "workshare_dec E" "workshare_ok E" for E
  by unfold_locales (simp add: workshare_dec_law)

lemma transaction_vec_law:
  assumes "length bs < 2 ^ 64"
  shows "get_vec MAX_BLOCK_TRANSACTIONS MAX_TRANSACTION_BYTES (transaction_dec E) bs off = Inr (v, off')
    \<longleftrightarrow> length v \<le> MAX_BLOCK_TRANSACTIONS \<and> (\<forall>t \<in> set v. transaction_wf E t)
      \<and> seg_at bs off (put_vec transaction_enc v) off'"
proof -
  have l: "transaction_wf E t \<Longrightarrow> length (transaction_enc t) \<le> MAX_TRANSACTION_BYTES
      \<and> length (transaction_enc t) \<le> MAX_CONSENSUS_ALLOCATION" for t
    using transaction_wf_length [of E t] by (simp add: limit_defs)
  have "MAX_BLOCK_TRANSACTIONS < 2 ^ 32" by (simp add: limit_defs)
  from transaction_codec.vec_law [OF assms this, of MAX_TRANSACTION_BYTES E off v off'] l
  show ?thesis by blast
qed

lemma template_dec_law:
  assumes small: "length bs < 2 ^ 64"
  shows "template_dec E bs off = Inr (v, off') \<longleftrightarrow>
    template_wf E v \<and> seg_at bs off (template_enc v) off'"
  by (cases v)
    (simp add: template_dec_def result_simps prim_laws [OF small] template_wf_def
      template_enc_def seg_at_append transaction_vec_law [OF small], blast)

interpretation template_codec: codec template_enc "template_dec E" "template_wf E" for E
  by unfold_locales (simp add: template_dec_law)

lemma template_vec_law:
  assumes "length bs < 2 ^ 64"
  shows "get_vec MAX_TEMPLATES_PER_BLOCK MAX_TEMPLATE_BYTES (template_dec E) bs off = Inr (v, off')
    \<longleftrightarrow> length v \<le> MAX_TEMPLATES_PER_BLOCK
      \<and> (\<forall>t \<in> set v. template_wf E t \<and> length (template_enc t) \<le> MAX_TEMPLATE_BYTES)
      \<and> seg_at bs off (put_vec template_enc v) off'"
proof -
  have "MAX_TEMPLATES_PER_BLOCK < 2 ^ 32" by (simp add: limit_defs)
  moreover have "n \<le> MAX_TEMPLATE_BYTES \<Longrightarrow> n \<le> MAX_CONSENSUS_ALLOCATION" for n
    by (simp add: limit_defs)
  ultimately show ?thesis
    using template_codec.vec_law [OF assms, of MAX_TEMPLATES_PER_BLOCK MAX_TEMPLATE_BYTES E off v off']
    by blast
qed

lemma workshare_vec_law:
  assumes "length bs < 2 ^ 64"
  shows "get_vec MAX_WORKSHARES_PER_BLOCK 512 (workshare_dec E) bs off = Inr (v, off')
    \<longleftrightarrow> length v \<le> MAX_WORKSHARES_PER_BLOCK \<and> (\<forall>s \<in> set v. workshare_ok E s)
      \<and> seg_at bs off (put_vec workshare_enc v) off'"
proof -
  have "MAX_WORKSHARES_PER_BLOCK < 2 ^ 32" by (simp add: limit_defs)
  moreover have "259 \<le> (512 :: nat)" "259 \<le> MAX_CONSENSUS_ALLOCATION" by (simp_all add: limit_defs)
  ultimately show ?thesis
    using workshare_codec.vec_law [OF assms, of MAX_WORKSHARES_PER_BLOCK 512 E off v off']
    unfolding length_workshare_enc by blast
qed

lemma witness_dec_law:
  assumes small: "length bs < 2 ^ 64"
  shows "witness_dec E bs off = Inr (v, off') \<longleftrightarrow>
    witness_wf E v \<and> seg_at bs off (witness_enc v) off'"
  by (cases v)
    (simp add: witness_dec_def result_simps prim_laws [OF small] witness_wf_def
      witness_enc_def seg_at_append template_vec_law [OF small] workshare_vec_law [OF small], blast)

interpretation witness_codec: codec witness_enc "witness_dec E" "witness_wf E" for E
  by unfold_locales (simp add: witness_dec_law)

definition claim_option_enc :: "reward_claim option \<Rightarrow> bytes" where
  "claim_option_enc c = (case c of Some claim \<Rightarrow> put_u8 1 @ claim_enc claim | None \<Rightarrow> put_u8 0)"

lemma claim_option_dec_law:
  assumes small: "length bs < 2 ^ 64"
  shows "claim_option_dec E bs off = Inr (v, off') \<longleftrightarrow>
    pred_option (claim_ok E) v \<and> seg_at bs off (claim_option_enc v) off'"
proof -
  have "claim_option_dec E bs off = Inr (v, off') \<longleftrightarrow>
      (\<exists>o1. get_u8 bs off = Inr (0, off') \<and> v = None)
      \<or> (\<exists>o1 c. get_u8 bs off = Inr (1, o1) \<and> claim_dec E bs o1 = Inr (c, off') \<and> v = Some c)"
  proof (cases "get_u8 bs off")
    case (Inr r)
    then show ?thesis
      unfolding claim_option_dec_def by (cases r) (auto simp: result_simps)
  qed (simp add: claim_option_dec_def)
  then show ?thesis
    by (cases v) (simp_all add: claim_option_enc_def prim_laws [OF small] seg_at_append
        claim_dec_law [OF small], blast)
qed

interpretation claim_option_codec: codec claim_option_enc "claim_option_dec E" "pred_option (claim_ok E)" for E
  by unfold_locales (simp add: claim_option_dec_law)

lemma block_dec_law:
  assumes small: "length bs < 2 ^ 64"
  shows "block_dec E bs off = Inr (v, off') \<longleftrightarrow> block_wf E v \<and> seg_at bs off (block_enc v) off'"
proof -
  have lim: "n \<le> MAX_WORKSHARE_WITNESS_BYTES \<Longrightarrow> n \<le> MAX_CONSENSUS_ALLOCATION" for n
    by (simp add: limit_defs)
  have e: "block_enc b = header_enc (blk_header b) @ claim_option_enc (blk_reward_claim b)
      @ put_vec transaction_enc (blk_transactions b) @ put_bytes (witness_enc (blk_witness b))" for b
    by (simp add: block_enc_def claim_option_enc_def)
  show ?thesis
    by (cases v)
      (simp add: block_dec_def result_simps header_dec_law [OF small] claim_option_dec_law [OF small]
        transaction_vec_law [OF small] witness_codec.nested_law [OF small] block_wf_def e
        seg_at_append, blast dest: lim)
qed

interpretation block_codec: codec block_enc "block_dec E" "block_wf E" for E
  by unfold_locales (simp add: block_dec_law)

section \<open>Canonical witnesses\<close>

lemma not_list_ex_zip_tl: "\<not> list_ex (\<lambda>(a, b). a \<ge> b) (zip xs (tl xs)) \<longleftrightarrow> sorted_wrt (<) (xs :: 'a::linorder list)"
proof (induction xs rule: induct_list012)
  case (3 x y zs)
  then show ?case by (auto simp: not_le intro: less_trans)
qed simp_all

lemma witness_is_canonical_iff:
  "witness_is_canonical E w \<longleftrightarrow>
     sorted_wrt (<) (map (template_id E) (ww_templates w))
     \<and> ws_template_id ` set (ww_workshares w) = template_id E ` set (ww_templates w)"
  by (simp add: witness_is_canonical_def Let_def flip: not_list_ex_zip_tl)

lemma canonical_templates_distinct:
  "witness_is_canonical E w \<Longrightarrow> distinct (map (template_id E) (ww_templates w))"
  by (auto simp: witness_is_canonical_iff strict_sorted_iff)

section \<open>Merkle binding\<close>

text \<open>The pairs of hashes that the levels of a root hash.\<close>

definition merkle_pairs :: "hash32 list \<Rightarrow> (hash32 \<times> hash32) list" where
  "merkle_pairs level = chunks2 (if length level mod 2 = 1 then level @ [last level] else level)"

function merkle_inputs :: "prims \<Rightarrow> hash32 list \<Rightarrow> (hash32 \<times> hash32) set" where
  "merkle_inputs E level =
     (if 1 < length level then set (merkle_pairs level) \<union> merkle_inputs E (merkle_level E level)
      else {})"
  by pat_completeness auto
termination
  by (relation "measure (\<lambda>(E, level). length level)") (auto simp: length_merkle_level)

declare merkle_inputs.simps [simp del]

text \<open>A pair among those of \<open>xs\<close> and another among those of \<open>ys\<close> with the same node hash.\<close>

definition merkle_collision :: "prims \<Rightarrow> hash32 list \<Rightarrow> hash32 list \<Rightarrow> bool" where
  "merkle_collision E xs ys \<longleftrightarrow>
     (\<exists>(a, b) \<in> merkle_inputs E xs. \<exists>(c, d) \<in> merkle_inputs E ys.
        (a, b) \<noteq> (c, d) \<and> merkle_node E a b = merkle_node E c d)"

lemma chunks2_inject:
  "length xs = length ys \<Longrightarrow> even (length xs) \<Longrightarrow> chunks2 xs = chunks2 ys \<Longrightarrow> xs = ys"
proof (induction xs arbitrary: ys rule: chunks2.induct)
  case (1 x y r)
  then obtain x' y' r' where "ys = x' # y' # r'"
    by (metis length_Suc_conv length_Cons)
  with 1 show ?case by auto
qed auto

lemma map_eq_collision:
  "map f ps = map f qs \<Longrightarrow> ps \<noteq> qs \<Longrightarrow> \<exists>p \<in> set ps. \<exists>q \<in> set qs. p \<noteq> q \<and> f p = f q"
proof (induction ps arbitrary: qs)
  case (Cons p ps)
  then obtain q qs' where "qs = q # qs'" "f p = f q" "map f ps = map f qs'" by auto
  then show ?case using Cons by (cases "p = q") auto
qed simp

lemma merkle_level_binding:
  assumes len: "length xs = length ys" and eq: "merkle_level E xs = merkle_level E ys"
    and ne: "xs \<noteq> ys"
  shows "\<exists>(a, b) \<in> set (merkle_pairs xs). \<exists>(c, d) \<in> set (merkle_pairs ys).
        (a, b) \<noteq> (c, d) \<and> merkle_node E a b = merkle_node E c d"
proof -
  let ?pad = "\<lambda>l :: hash32 list. if length l mod 2 = 1 then l @ [last l] else l"
  have "?pad xs \<noteq> ?pad ys" using len ne by auto
  moreover have "length (?pad xs) = length (?pad ys)" using len by simp
  moreover have "even (length (?pad xs))" by (simp add: odd_iff_mod_2_eq_one) presburger
  ultimately have ch: "merkle_pairs xs \<noteq> merkle_pairs ys"
    using chunks2_inject unfolding merkle_pairs_def by blast
  have "map (\<lambda>(l, r). merkle_node E l r) (merkle_pairs xs)
      = map (\<lambda>(l, r). merkle_node E l r) (merkle_pairs ys)"
    using eq by (simp add: merkle_level_def merkle_pairs_def Let_def)
  from map_eq_collision [OF this ch] show ?thesis by fastforce
qed

lemma merkle_loop_binding:
  "length xs = length ys \<Longrightarrow> xs \<noteq> [] \<Longrightarrow> merkle_loop E xs = merkle_loop E ys \<Longrightarrow> xs \<noteq> ys
   \<Longrightarrow> merkle_collision E xs ys"
proof (induction E xs arbitrary: ys rule: merkle_loop.induct)
  case (1 E xs)
  show ?case
  proof (cases "1 < length xs")
    case True
    then have ys: "1 < length ys" using "1.prems"(1) by simp
    have inputs: "merkle_inputs E xs = set (merkle_pairs xs) \<union> merkle_inputs E (merkle_level E xs)"
      "merkle_inputs E ys = set (merkle_pairs ys) \<union> merkle_inputs E (merkle_level E ys)"
      using True ys by (subst merkle_inputs.simps, simp)+
    have len: "length (merkle_level E xs) = length (merkle_level E ys)"
      using "1.prems"(1) by (simp add: length_merkle_level)
    have eq: "merkle_loop E (merkle_level E xs) = merkle_loop E (merkle_level E ys)"
      using "1.prems"(1,3) True by (subst (asm) (1 2) merkle_loop.simps) simp
    have ne: "merkle_level E xs \<noteq> []"
      using True length_merkle_level [of E xs] by (cases "merkle_level E xs") auto
    show ?thesis
    proof (cases "merkle_level E xs = merkle_level E ys")
      case True
      from merkle_level_binding [OF "1.prems"(1) this "1.prems"(4)] show ?thesis
        unfolding merkle_collision_def inputs by blast
    next
      case False
      from "1.IH" [OF True len ne eq this] show ?thesis
        unfolding merkle_collision_def inputs by blast
    qed
  next
    case False
    then obtain x where x: "xs = [x]" using "1.prems"(2)
      by (metis One_nat_def length_0_conv length_Suc_conv linorder_neqE_nat less_one)
    then obtain y where "ys = [y]" using "1.prems"(1) by (metis length_0_conv length_Suc_conv)
    with x "1.prems"(3,4) show ?thesis by (simp add: merkle_loop.simps)
  qed
qed

lemma merkle_root_binding:
  assumes "length xs = length ys" and "merkle_root E xs = merkle_root E ys" and "xs \<noteq> ys"
  shows "merkle_collision E xs ys"
  using assms merkle_loop_binding [OF assms(1) _ _ assms(3)]
  by (auto simp: merkle_root_def split: if_splits)

text \<open>Padding repeats the last hash, so an odd list and its padded form share a root.\<close>

lemma merkle_root_padding:
  assumes "odd (length xs)" and "1 < length xs"
  shows "merkle_root E (xs @ [last xs]) = merkle_root E xs"
proof -
  have "merkle_level E (xs @ [last xs]) = merkle_level E xs"
    using assms by (simp add: merkle_level_def odd_iff_mod_2_eq_one)
  then have "merkle_loop E (xs @ [last xs]) = merkle_loop E xs"
    using assms(2) by (subst (1 2) merkle_loop.simps) auto
  then show ?thesis using assms(2) by (auto simp: merkle_root_def)
qed

end
