(* ===== verification/Std_Map.thy ===== *)
theory Std_Map
  imports Prelude "HOL-Library.Product_Lexorder"
begin

text \<open>
  The standard library's maps (\<open>BTreeMap\<close>, and \<open>HashMap\<close> where its iteration order is
  not observed) as association lists kept strictly sorted by key: iteration of a \<open>BTreeMap\<close>
  is the list itself.  The interface the rest of the development uses is the locale
  \<open>ordered_map\<close>, interpreted on these operations.
\<close>

type_synonym ('k, 'v) smap = "('k \<times> 'v) list"

section \<open>The interface\<close>

locale ordered_map =
  fixes empty :: "'m"
    and get :: "'m \<Rightarrow> 'k \<Rightarrow> 'v option"
    and insert :: "'k \<Rightarrow> 'v \<Rightarrow> 'm \<Rightarrow> 'm"
    and remove :: "'k \<Rightarrow> 'm \<Rightarrow> 'm"
    and ok :: "'m \<Rightarrow> bool"
  assumes get_empty: "get empty = Map.empty"
    and get_insert: "ok m \<Longrightarrow> get (insert k v m) = (get m)(k \<mapsto> v)"
    and get_remove: "ok m \<Longrightarrow> get (remove k m) = (get m)(k := None)"
    and ok_empty: "ok empty"
    and ok_insert: "ok m \<Longrightarrow> ok (insert k v m)"
    and ok_remove: "ok m \<Longrightarrow> ok (remove k m)"
    and extensional: "ok m \<Longrightarrow> ok m' \<Longrightarrow> get m = get m' \<Longrightarrow> m = m'"
begin

lemmas ok_rules = ok_empty ok_insert ok_remove
lemmas get_rules = get_empty get_insert get_remove

lemma insert_commute:
  assumes "ok m" and "k \<noteq> k'"
  shows "insert k v (insert k' v' m) = insert k' v' (insert k v m)"
  by (rule extensional) (use assms in \<open>auto simp: get_rules ok_rules fun_upd_twist\<close>)

lemma insert_overwrite: "ok m \<Longrightarrow> insert k v (insert k v' m) = insert k v m"
  by (rule extensional) (auto simp: get_rules ok_rules)

lemma insert_same: "ok m \<Longrightarrow> get m k = Some v \<Longrightarrow> insert k v m = m"
  by (rule extensional) (auto simp: get_rules ok_rules)

lemma remove_insert: "ok m \<Longrightarrow> get m k = None \<Longrightarrow> remove k (insert k v m) = m"
  by (rule extensional) (auto simp: get_rules ok_rules)

lemma remove_absent: "ok m \<Longrightarrow> get m k = None \<Longrightarrow> remove k m = m"
  by (rule extensional) (auto simp: get_rules ok_rules)

end

section \<open>Sorted association lists\<close>

abbreviation smap_get :: "('k, 'v) smap \<Rightarrow> 'k \<Rightarrow> 'v option" where
  "smap_get m k \<equiv> map_of m k"

fun smap_insert :: "'k::linorder \<Rightarrow> 'v \<Rightarrow> ('k, 'v) smap \<Rightarrow> ('k, 'v) smap" where
  "smap_insert k v [] = [(k, v)]"
| "smap_insert k v ((k', v') # m) =
     (if k < k' then (k, v) # (k', v') # m
      else if k = k' then (k, v) # m
      else (k', v') # smap_insert k v m)"

fun smap_remove :: "'k::linorder \<Rightarrow> ('k, 'v) smap \<Rightarrow> ('k, 'v) smap" where
  "smap_remove k [] = []"
| "smap_remove k ((k', v') # m) = (if k = k' then m else (k', v') # smap_remove k m)"

definition smap_ok :: "('k::linorder, 'v) smap \<Rightarrow> bool" where
  "smap_ok m \<longleftrightarrow> sorted_wrt (<) (map fst m)"

definition smap_contains :: "('k, 'v) smap \<Rightarrow> 'k \<Rightarrow> bool" where
  "smap_contains m k \<longleftrightarrow> map_of m k \<noteq> None"

lemma smap_ok_simps [simp]:
  "smap_ok []"
  "smap_ok (x # m) \<longleftrightarrow> (\<forall>k \<in> fst ` set m. fst x < k) \<and> smap_ok m"
  by (auto simp: smap_ok_def)

lemma smap_ok_distinct: "smap_ok m \<Longrightarrow> distinct (map fst m)"
  by (induction m) auto

lemma keys_smap_insert: "fst ` set (smap_insert k v m) = insert k (fst ` set m)"
  by (induction k v m rule: smap_insert.induct) auto

lemma set_smap_remove: "smap_ok m \<Longrightarrow> set (smap_remove k m) = {x \<in> set m. fst x \<noteq> k}"
  by (induction k m rule: smap_remove.induct) force+

lemma smap_ok_insert [simp, intro]: "smap_ok m \<Longrightarrow> smap_ok (smap_insert k v m)"
proof (induction k v m rule: smap_insert.induct)
  case (2 k v k' v' m)
  then show ?case by (auto simp: keys_smap_insert)
qed simp

lemma smap_ok_remove [simp, intro]: "smap_ok m \<Longrightarrow> smap_ok (smap_remove k m)"
proof (induction k m rule: smap_remove.induct)
  case (2 k k' v' m)
  then show ?case by (auto simp: set_smap_remove)
qed simp

lemma map_of_smap_insert [simp]: "map_of (smap_insert k v m) = (map_of m)(k \<mapsto> v)"
  by (induction k v m rule: smap_insert.induct) (auto simp: fun_eq_iff)

lemma map_of_smap_remove [simp]: "smap_ok m \<Longrightarrow> map_of (smap_remove k m) = (map_of m)(k := None)"
proof (induction k m rule: smap_remove.induct)
  case (2 k k' v' m)
  have "map_of m k' = None" using "2.prems" by (force simp: map_of_eq_None_iff)
  with 2 show ?case by (auto simp: fun_eq_iff)
qed simp

lemma smap_set_iff: "smap_ok m \<Longrightarrow> (k, v) \<in> set m \<longleftrightarrow> map_of m k = Some v"
  using smap_ok_distinct by fastforce

lemma smap_extensional: "smap_ok m \<Longrightarrow> smap_ok m' \<Longrightarrow> map_of m = map_of m' \<Longrightarrow> m = m'"
proof (induction m arbitrary: m')
  case Nil
  then show ?case by (metis map_of_eq_empty_iff map_of.simps(1))
next
  case (Cons x m)
  obtain k v where x: "x = (k, v)" by force
  obtain k' v' r where m': "m' = (k', v') # r"
    using fun_cong [OF Cons.prems(3), of k] by (cases m') (auto simp: x)
  have nk: "map_of m k = None" "map_of r k' = None"
    using Cons.prems(1,2) by (force simp: x m' map_of_eq_None_iff)+
  have "k = k'"
  proof (rule ccontr)
    assume ne: "k \<noteq> k'"
    have "map_of r k = Some v"
      using fun_cong [OF Cons.prems(3), of k] ne by (simp add: x m')
    then have "k' < k" using Cons.prems(2) by (force simp: m' dest: map_of_SomeD)
    have "map_of m k' = Some v'"
      using fun_cong [OF Cons.prems(3), of k'] ne by (simp add: x m')
    then have "k < k'" using Cons.prems(1) by (force simp: x dest: map_of_SomeD)
    with \<open>k' < k\<close> show False by simp
  qed
  have "v = v'" using fun_cong [OF Cons.prems(3), of k] \<open>k = k'\<close> by (simp add: x m')
  have "map_of m = map_of r"
  proof
    fix a show "map_of m a = map_of r a"
      using fun_cong [OF Cons.prems(3), of a] nk \<open>k = k'\<close> by (cases "a = k") (auto simp: x m')
  qed
  then have "m = r" using Cons.IH Cons.prems(1,2) by (simp add: x m')
  with \<open>k = k'\<close> \<open>v = v'\<close> show ?case by (simp add: x m')
qed

interpretation smap: ordered_map "[]" map_of smap_insert smap_remove
  "smap_ok :: ('k::linorder, 'v) smap \<Rightarrow> bool"
  by unfold_locales (auto intro: smap_extensional)

lemma smap_contains_simps [simp]:
  "smap_contains [] k \<longleftrightarrow> False"
  "smap_contains (smap_insert k v m) k' \<longleftrightarrow> k' = k \<or> smap_contains m k'"
  by (auto simp: smap_contains_def)

lemma smap_contains_remove [simp]:
  "smap_ok m \<Longrightarrow> smap_contains (smap_remove k m) k' \<longleftrightarrow> k' \<noteq> k \<and> smap_contains m k'"
  by (auto simp: smap_contains_def)

lemma smap_contains_keys: "smap_contains m k \<longleftrightarrow> k \<in> fst ` set m"
  by (simp add: smap_contains_def map_of_eq_None_iff)

section \<open>Sums over the values of a map\<close>

definition smap_sum :: "('v \<Rightarrow> nat) \<Rightarrow> ('k, 'v) smap \<Rightarrow> nat" where
  "smap_sum f m = sum_list (map (\<lambda>x. f (snd x)) m)"

lemma smap_sum_simps [simp]:
  "smap_sum f [] = 0" "smap_sum f (x # m) = f (snd x) + smap_sum f m"
  by (simp_all add: smap_sum_def)

lemma smap_sum_insert:
  "smap_ok m \<Longrightarrow> smap_sum f (smap_insert k v m) + (case map_of m k of None \<Rightarrow> 0 | Some w \<Rightarrow> f w)
     = smap_sum f m + f v"
proof (induction k v m rule: smap_insert.induct)
  case (2 k v k' v' m)
  have "k < k' \<Longrightarrow> map_of m k = None"
    using "2.prems" by (force simp: map_of_eq_None_iff)
  with 2 show ?case by auto
qed simp

lemma smap_sum_remove:
  "smap_sum f (smap_remove k m) + (case map_of m k of None \<Rightarrow> 0 | Some w \<Rightarrow> f w) = smap_sum f m"
  by (induction k m rule: smap_remove.induct) auto

lemma smap_sum_member: "map_of m k = Some v \<Longrightarrow> f v \<le> smap_sum f m"
  by (induction m) (auto split: if_splits)

lemma length_smap_insert:
  "smap_ok m \<Longrightarrow>
   length (smap_insert k v m) = (if smap_contains m k then length m else Suc (length m))"
proof (induction k v m rule: smap_insert.induct)
  case (2 k v k' v' m)
  have "k < k' \<Longrightarrow> \<not> smap_contains m k"
    using "2.prems" by (force simp: smap_contains_keys)
  with 2 show ?case by (auto simp: smap_contains_def)
qed simp

lemma length_smap_remove_le: "length (smap_remove k m) \<le> length m"
  by (induction k m rule: smap_remove.induct) auto

lemma length_smap_remove: "smap_contains m k \<Longrightarrow> length (smap_remove k m) < length m"
  by (induction k m rule: smap_remove.induct) (auto simp: smap_contains_def split: if_splits)

end
