(* ===== verification/Sparse_Merkle.thy ===== *)
theory Sparse_Merkle
  imports Objects Std_Map
begin

text \<open>
  The 256-level sparse Merkle tree of \<open>src/consensus/state.rs\<close>.  The code caches inner nodes and
  repairs one path per update; the specification is the recursive hash \<open>smt_ref\<close> of the stored
  values, which mentions neither the cache nor the order of the updates.  The theory shows that the
  cache always holds exactly the non-default values of the specification, and gives the ledger the
  interface \<open>authenticated_map\<close>.  A node index is the pair of its depth (at most 256) and prefix;
  the \<open>HashMap\<close> of nodes is never iterated.
\<close>

section \<open>The code\<close>

definition key_bit :: "hash32 \<Rightarrow> nat \<Rightarrow> u8" where
  "key_bit key depth = drop_bit (7 - depth mod 8) (array_bytes key ! (depth div 8)) AND 1"

definition toggle_bit :: "hash32 \<Rightarrow> nat \<Rightarrow> hash32" where
  "toggle_bit key depth =
     (let bs = array_bytes key; i = depth div 8
      in array_of (bs[i := bs ! i XOR push_bit (7 - depth mod 8) 1]))"

definition key_prefix :: "hash32 \<Rightarrow> nat \<Rightarrow> hash32" where
  "key_prefix key depth =
     (let bs = array_bytes key; full_bytes = depth div 8; remaining = depth mod 8
      in if full_bytes < 32
         then if remaining = 0
              then array_of (take full_bytes bs @ replicate (32 - full_bytes) 0)
              else array_of (take full_bytes bs
                @ [bs ! full_bytes AND push_bit (8 - remaining) 0xff]
                @ replicate (32 - (full_bytes + 1)) 0)
         else key)"

record smt =
  smt_values :: "(hash32, bytes) smap"
  smt_nodes :: "(nat \<times> hash32, hash32) smap"
  smt_empty :: "hash32 list"

definition smt_node_hash :: "prims \<Rightarrow> hash32 \<Rightarrow> hash32 \<Rightarrow> hash32" where
  "smt_node_hash E l r =
     domain_hash E (ascii ''PARITR-P9-SMT-NODE-v1'') (array_bytes l @ array_bytes r)"

definition smt_leaf_hash :: "prims \<Rightarrow> hash32 \<Rightarrow> bytes \<Rightarrow> hash32" where
  "smt_leaf_hash E key v =
     domain_hash E (ascii ''PARITR-P9-SMT-LEAF-v1'') (array_bytes key @ v)"

definition smt_empties :: "prims \<Rightarrow> hash32 list" where
  "smt_empties E =
     fold (\<lambda>depth es. es[depth := smt_node_hash E (es ! (depth + 1)) (es ! (depth + 1))])
       (rev [0..<256])
       ((replicate 257 hash_zero)[256 := domain_hash E (ascii ''PARITR-P9-SMT-EMPTY-LEAF-v1'') []])"

definition smt_default :: "prims \<Rightarrow> smt" where
  "smt_default E = \<lparr>smt_values = [], smt_nodes = [], smt_empty = smt_empties E\<rparr>"

definition smt_root :: "smt \<Rightarrow> hash32" where
  "smt_root t = (case smap_get (smt_nodes t) (0, hash_zero) of
     Some h \<Rightarrow> h | None \<Rightarrow> smt_empty t ! 0)"

definition smt_get :: "smt \<Rightarrow> hash32 \<Rightarrow> bytes option" where
  "smt_get t key = smap_get (smt_values t) key"

definition smt_node :: "smt \<Rightarrow> nat \<Rightarrow> hash32 \<Rightarrow> hash32" where
  "smt_node t depth p = (case smap_get (smt_nodes t) (depth, p) of
     Some h \<Rightarrow> h | None \<Rightarrow> smt_empty t ! depth)"

definition smt_set_leaf :: "prims \<Rightarrow> hash32 \<Rightarrow> bytes option \<Rightarrow> smt \<Rightarrow> smt" where
  "smt_set_leaf E key v t =
     (if v \<noteq> None \<and> the v \<noteq> []
      then t\<lparr>smt_values := smap_insert key (the v) (smt_values t),
             smt_nodes := smap_insert (256, key) (smt_leaf_hash E key (the v)) (smt_nodes t)\<rparr>
      else t\<lparr>smt_values := smap_remove key (smt_values t),
             smt_nodes := smap_remove (256, key) (smt_nodes t)\<rparr>)"

definition smt_repair :: "prims \<Rightarrow> hash32 \<Rightarrow> nat \<Rightarrow> smt \<Rightarrow> smt" where
  "smt_repair E key parent_depth t =
     (let child_depth = parent_depth + 1;
          child_prefix = key_prefix key child_depth;
          sibling_prefix = toggle_bit child_prefix parent_depth;
          child = smt_node t child_depth child_prefix;
          sibling = smt_node t child_depth sibling_prefix;
          (left, right) = (if key_bit key parent_depth = 0 then (child, sibling) else (sibling, child));
          hash = smt_node_hash E left right;
          parent_index = (parent_depth, key_prefix key parent_depth)
      in if hash = smt_empty t ! parent_depth
         then t\<lparr>smt_nodes := smap_remove parent_index (smt_nodes t)\<rparr>
         else t\<lparr>smt_nodes := smap_insert parent_index hash (smt_nodes t)\<rparr>)"

definition smt_update :: "prims \<Rightarrow> hash32 \<Rightarrow> bytes option \<Rightarrow> smt \<Rightarrow> smt" where
  "smt_update E key v t = fold (smt_repair E key) (rev [0..<256]) (smt_set_leaf E key v t)"

section \<open>Keys as bit strings\<close>

definition kb :: "hash32 \<Rightarrow> nat \<Rightarrow> bool" where
  "kb k i \<longleftrightarrow> bit (array_bytes k ! (i div 8)) (7 - i mod 8)"

lemma kb_ext:
  assumes "\<And>i. i < 256 \<Longrightarrow> kb a i = kb b i"
  shows "a = b"
proof -
  have "array_bytes a ! j = array_bytes b ! j" if "j < 32" for j
  proof (rule bit_word_eqI)
    fix n assume "n < LENGTH(8)"
    then have n: "n < 8" by simp
    have m: "(8 * j + (7 - n)) mod 8 = 7 - n" by (simp only: mod_mult_self4) simp
    have "(8 * j + (7 - n)) div 8 = j" "7 - (8 * j + (7 - n)) mod 8 = n"
      using n unfolding m by simp_all
    then show "bit (array_bytes a ! j) n = bit (array_bytes b ! j) n"
      using assms [of "8 * j + (7 - n)"] n that by (simp add: kb_def)
  qed
  then have "array_bytes a = array_bytes b" by (intro nth_equalityI) simp_all
  then show ?thesis by (simp only: array_bytes_eq_iff)
qed

lemma key_bit_kb: "key_bit k d = of_bool (kb k d)"
proof -
  have "drop_bit m w AND 1 = of_bool (bit w m)" for w :: u8 and m
    by (rule bit_word_eqI) (auto simp: bit_and_iff bit_drop_bit_eq bit_1_iff intro!: gr0I)
  then show ?thesis by (simp add: key_bit_def kb_def)
qed

lemma kb_toggle:
  assumes "d < 256" and "i < 256"
  shows "kb (toggle_bit k d) i = (kb k i \<noteq> (i = d))"
proof -
  have d: "d div 8 < 32" "i div 8 < 32" using assms by simp_all
  have b: "bit (push_bit m 1 :: u8) n \<longleftrightarrow> n = m" if "m < 8" "n < 8" for m n
    using that by (auto simp: push_bit_of_1 bit_exp_iff)
  have eq: "i = d \<longleftrightarrow> i div 8 = d div 8 \<and> 7 - i mod 8 = 7 - d mod 8"
  proof -
    have "i mod 8 < 8" "d mod 8 < 8" by simp_all
    then have "7 - i mod 8 = 7 - d mod 8 \<longleftrightarrow> i mod 8 = d mod 8" by linarith
    then show ?thesis by (metis div_mult_mod_eq)
  qed
  have len: "length ((array_bytes k)[d div 8 := x]) = LENGTH(32)" for x by simp
  have "bit (push_bit (7 - d mod 8) 1 :: u8) (7 - i mod 8) \<longleftrightarrow> 7 - i mod 8 = 7 - d mod 8"
    by (intro b) presburger+
  then show ?thesis
    using d unfolding eq
    by (auto simp: kb_def toggle_bit_def Let_def nth_list_update bit_xor_iff)
qed

lemma length_prefix_bytes:
  assumes "fb < 32"
  shows "length (take fb (array_bytes (k :: hash32)) @ replicate (32 - fb) (0 :: u8)) = LENGTH(32)"
    "length (take fb (array_bytes k) @ [x] @ replicate (32 - (fb + 1)) (0 :: u8)) = LENGTH(32)"
  using assms by simp_all

lemma nth_prefix_bytes:
  assumes "fb < 32" and "j < 32"
  shows "(take fb (array_bytes (k :: hash32)) @ replicate (32 - fb) (0 :: u8)) ! j
      = (if j < fb then array_bytes k ! j else 0)"
    "(take fb (array_bytes k) @ [x] @ replicate (32 - (fb + 1)) (0 :: u8)) ! j
      = (if j < fb then array_bytes k ! j else if j = fb then x else 0)"
  using assms by (auto simp: nth_append nth_Cons')

lemma less_div_mod: "(i :: nat) < d \<longleftrightarrow> i div 8 < d div 8 \<or> (i div 8 = d div 8 \<and> i mod 8 < d mod 8)"
proof -
  define a b A B where d: "a = i div 8" "b = i mod 8" "A = d div 8" "B = d mod 8"
  have "i = 8 * a + b" "d = 8 * A + B" "b < 8" "B < 8" by (simp_all add: d)
  then have "i < d \<longleftrightarrow> a < A \<or> (a = A \<and> b < B)" by linarith
  then show ?thesis by (simp add: d)
qed

lemma kb_prefix:
  assumes "i < 256" and "d \<le> 256"
  shows "kb (key_prefix k d) i = (kb k i \<and> i < d)"
proof (cases "d div 8 < 32")
  case False
  then have "d = 256" using assms(2) by presburger
  then show ?thesis using assms by (simp add: key_prefix_def Let_def)
next
  case True
  let ?fb = "d div 8" and ?r = "d mod 8"
  have i: "i div 8 < 32" using assms by simp
  have m: "bit (push_bit (8 - ?r) 0xff :: u8) n \<longleftrightarrow> 8 - ?r \<le> n" if "n < 8" for n
  proof -
    have "(0xff :: u8) = - 1" by simp
    moreover have "?r < 8" by simp
    ultimately show ?thesis
      using that by (simp only: bit_push_bit_iff bit_minus_1_iff possible_bit_word) auto
  qed
  have lt: "i < d \<longleftrightarrow> i div 8 < ?fb \<or> (i div 8 = ?fb \<and> i mod 8 < ?r)"
    by (rule less_div_mod)
  have "i mod 8 < 8" "?r < 8" by simp_all
  then have cmp: "8 - ?r \<le> 7 - i mod 8 \<longleftrightarrow> i mod 8 < ?r" by linarith
  have n8: "7 - i mod 8 < 8" by simp
  show ?thesis
  proof (cases "?r = 0")
    case r0: True
    have "array_bytes (key_prefix k d) = take ?fb (array_bytes k) @ replicate (32 - ?fb) 0"
      unfolding key_prefix_def Let_def using True r0 length_prefix_bytes(1) [OF True, of k] by simp
    then have "array_bytes (key_prefix k d) ! (i div 8)
        = (if i div 8 < ?fb then array_bytes k ! (i div 8) else 0)"
      by (simp only: nth_prefix_bytes(1) [OF True i])
    then show ?thesis using r0 unfolding kb_def lt by simp
  next
    case False
    have "array_bytes (key_prefix k d) = take ?fb (array_bytes k)
        @ [array_bytes k ! ?fb AND push_bit (8 - ?r) 0xff] @ replicate (32 - (?fb + 1)) 0"
      unfolding key_prefix_def Let_def using True False length_prefix_bytes(2) [OF True, of k] by simp
    then have "array_bytes (key_prefix k d) ! (i div 8) =
        (if i div 8 < ?fb then array_bytes k ! (i div 8)
         else if i div 8 = ?fb then array_bytes k ! ?fb AND push_bit (8 - ?r) 0xff else 0)"
      by (simp only: nth_prefix_bytes(2) [OF True i])
    moreover have "bit (array_bytes k ! ?fb AND push_bit (8 - ?r) 0xff) (7 - i mod 8)
        \<longleftrightarrow> bit (array_bytes k ! ?fb) (7 - i mod 8) \<and> i mod 8 < ?r"
      by (simp only: bit_and_iff m [OF n8] cmp)
    ultimately show ?thesis unfolding kb_def lt by (simp only: split: if_split) auto
  qed
qed

definition prefix_ok :: "nat \<Rightarrow> hash32 \<Rightarrow> bool" where
  "prefix_ok d p \<longleftrightarrow> key_prefix p d = p"

lemma prefix_ok_iff: "d \<le> 256 \<Longrightarrow> prefix_ok d p \<longleftrightarrow> (\<forall>i. d \<le> i \<and> i < 256 \<longrightarrow> \<not> kb p i)"
  unfolding prefix_ok_def by (metis kb_ext kb_prefix not_le)

lemma prefix_ok_256 [simp]: "prefix_ok 256 p"
  by (auto simp: prefix_ok_iff)

lemma prefix_ok_prefix: "d \<le> 256 \<Longrightarrow> prefix_ok d (key_prefix k d)"
  by (simp add: prefix_ok_iff kb_prefix)

lemma prefix_ok_Suc: "d < 256 \<Longrightarrow> prefix_ok d p \<Longrightarrow> prefix_ok (Suc d) p"
  by (simp add: prefix_ok_iff)

lemma prefix_ok_toggle: "d < 256 \<Longrightarrow> prefix_ok d p \<Longrightarrow> prefix_ok (Suc d) (toggle_bit p d)"
  by (simp add: prefix_ok_iff kb_toggle)

lemma key_prefix_256 [simp]: "key_prefix k 256 = k"
  by (simp add: key_prefix_def)

lemma kb_zero: "i < 256 \<Longrightarrow> \<not> kb hash_zero i"
  by (simp add: kb_def hash_zero_def)

lemma key_prefix_0 [simp]: "key_prefix k 0 = hash_zero"
  by (rule kb_ext) (simp add: kb_prefix kb_zero)

lemma prefix_ok_0: "prefix_ok 0 p \<longleftrightarrow> p = hash_zero"
  by (auto simp: prefix_ok_def)

text \<open>The two children of a node: its own prefix, and the prefix with the next bit set.\<close>

lemma child_prefix:
  assumes "d < 256"
  shows "key_prefix k (Suc d) = (if kb k d then toggle_bit (key_prefix k d) d else key_prefix k d)"
  by (rule kb_ext) (use assms in \<open>auto simp: kb_prefix kb_toggle less_Suc_eq\<close>)

lemma toggle_toggle: "d < 256 \<Longrightarrow> toggle_bit (toggle_bit p d) d = p"
  by (rule kb_ext) (auto simp: kb_toggle)

lemma toggle_neq: "d < 256 \<Longrightarrow> toggle_bit p d \<noteq> p"
  using kb_toggle [of d d p] by auto

section \<open>The specification\<close>

fun smt_empty_at :: "prims \<Rightarrow> nat \<Rightarrow> hash32" where
  "smt_empty_at E 0 = domain_hash E (ascii ''PARITR-P9-SMT-EMPTY-LEAF-v1'') []"
| "smt_empty_at E (Suc n) = smt_node_hash E (smt_empty_at E n) (smt_empty_at E n)"

text \<open>The hash of the subtree of height \<open>n\<close> under prefix \<open>p\<close> of a map of values.\<close>

fun smt_ref :: "prims \<Rightarrow> (hash32 \<Rightarrow> bytes option) \<Rightarrow> nat \<Rightarrow> hash32 \<Rightarrow> hash32" where
  "smt_ref E vals 0 p = (case vals p of Some v \<Rightarrow> smt_leaf_hash E p v | None \<Rightarrow> smt_empty_at E 0)"
| "smt_ref E vals (Suc n) p =
     smt_node_hash E (smt_ref E vals n p) (smt_ref E vals n (toggle_bit p (255 - n)))"

definition smt_spec_root :: "prims \<Rightarrow> (hash32 \<Rightarrow> bytes option) \<Rightarrow> hash32" where
  "smt_spec_root E vals = smt_ref E vals 256 hash_zero"

text \<open>What the cache has to hold for a map of values.\<close>

definition smt_want :: "prims \<Rightarrow> (hash32 \<Rightarrow> bytes option) \<Rightarrow> nat \<times> hash32 \<Rightarrow> hash32 option" where
  "smt_want E vals = (\<lambda>(d, p).
     if 256 < d \<or> \<not> prefix_ok d p then None
     else if d = 256 then map_option (smt_leaf_hash E p) (vals p)
     else if smt_ref E vals (256 - d) p = smt_empty_at E (256 - d) then None
     else Some (smt_ref E vals (256 - d) p))"

definition smt_ok :: "prims \<Rightarrow> smt \<Rightarrow> bool" where
  "smt_ok E t \<longleftrightarrow> smap_ok (smt_values t) \<and> smap_ok (smt_nodes t) \<and> smt_empty t = smt_empties E
     \<and> (\<forall>v \<in> snd ` set (smt_values t). v \<noteq> [])
     \<and> map_of (smt_nodes t) = smt_want E (map_of (smt_values t))"

section \<open>The default hashes\<close>

lemma smt_empties_fold:
  fixes E :: prims and n :: nat
  assumes "n \<le> 256"
  defines "es0 \<equiv> (replicate 257 hash_zero)[256 := smt_empty_at E 0]"
  defines "es \<equiv> fold (\<lambda>d es. es[d := smt_node_hash E (es ! (d + 1)) (es ! (d + 1))])
      (rev [n..<256]) es0"
  shows "length es = 257 \<and> (\<forall>d. n \<le> d \<and> d \<le> 256 \<longrightarrow> es ! d = smt_empty_at E (256 - d))"
  unfolding es_def using assms(1)
proof (induction "256 - n" arbitrary: n)
  case 0
  then have "n = 256" by simp
  then show ?case by (auto simp: es0_def)
next
  case (Suc m)
  let ?f = "\<lambda>d es. es[d := smt_node_hash E (es ! (d + 1)) (es ! (d + 1))]"
  have n: "n < 256" using Suc.hyps(2) by simp
  then have "[n..<256] = n # [Suc n..<256]" by (simp add: upt_conv_Cons)
  then have e: "fold ?f (rev [n..<256]) es0 = ?f n (fold ?f (rev [Suc n..<256]) es0)" by simp
  have ih: "length (fold ?f (rev [Suc n..<256]) es0) = 257 \<and>
      (\<forall>d. Suc n \<le> d \<and> d \<le> 256 \<longrightarrow> fold ?f (rev [Suc n..<256]) es0 ! d = smt_empty_at E (256 - d))"
    using Suc.hyps n by (intro Suc.hyps(1)) simp_all
  have "256 - n = Suc (256 - Suc n)" using n by simp
  then have top: "smt_empty_at E (256 - n)
      = smt_node_hash E (smt_empty_at E (256 - Suc n)) (smt_empty_at E (256 - Suc n))"
    by (simp only: smt_empty_at.simps)
  define r where "r = fold ?f (rev [Suc n..<256]) es0"
  have len: "length r = 257" and nth: "\<And>d. Suc n \<le> d \<Longrightarrow> d \<le> 256 \<Longrightarrow> r ! d = smt_empty_at E (256 - d)"
    using ih by (simp_all add: r_def)
  have "?f n r ! d = smt_empty_at E (256 - d)" if "n \<le> d" "d \<le> 256" for d
  proof (cases "d = n")
    case True
    then show ?thesis using len n nth [of "Suc n"] top by (simp del: smt_empty_at.simps)
  next
    case False
    then show ?thesis using nth [of d] that by simp
  qed
  then show ?case unfolding e r_def [symmetric] using len by simp
qed

lemma smt_empties_nth: "d \<le> 256 \<Longrightarrow> smt_empties E ! d = smt_empty_at E (256 - d)"
  using smt_empties_fold [of 0 E] by (simp add: smt_empties_def)

lemma smt_ref_empty: "smt_ref E Map.empty n p = smt_empty_at E n"
  by (induction n arbitrary: p) simp_all

section \<open>Updates\<close>

lemma ref_unchanged:
  assumes "n \<le> 256" and "prefix_ok (256 - n) p" and "p \<noteq> key_prefix key (256 - n)"
    and "\<And>k. k \<noteq> key \<Longrightarrow> vals' k = vals k"
  shows "smt_ref E vals' n p = smt_ref E vals n p"
  using assms(1-3)
proof (induction n arbitrary: p)
  case 0
  then show ?case using assms(4) [of p] by simp
next
  case (Suc n)
  let ?d = "255 - n"
  have d: "?d < 256" "256 - Suc n = ?d" "256 - n = Suc ?d" "n \<le> 256" using Suc.prems(1) by auto
  have ok: "prefix_ok ?d p" and ne: "p \<noteq> key_prefix key ?d" using Suc.prems unfolding d(2) by blast+
  have t: "toggle_bit p ?d \<noteq> key_prefix key (Suc ?d)" "p \<noteq> key_prefix key (Suc ?d)"
  proof -
    obtain i where i: "i < 256" "kb p i \<noteq> kb (key_prefix key ?d) i" using ne kb_ext by blast
    have lt: "i < ?d"
      using i ok d(1) by (metis kb_prefix less_imp_le not_le prefix_ok_iff)
    have "kb (key_prefix key ?d) i = kb (key_prefix key (Suc ?d)) i"
      using i(1) d(1) lt by (simp add: kb_prefix)
    then show "p \<noteq> key_prefix key (Suc ?d)" using i by metis
    have "kb (toggle_bit p ?d) i = kb p i" using i(1) d(1) lt by (simp add: kb_toggle)
    then show "toggle_bit p ?d \<noteq> key_prefix key (Suc ?d)"
      using i \<open>kb (key_prefix key ?d) i = kb (key_prefix key (Suc ?d)) i\<close> by metis
  qed
  have "smt_ref E vals' n p = smt_ref E vals n p"
    using Suc.IH [OF d(4)] prefix_ok_Suc [OF d(1) ok] t(2) unfolding d(3) by blast
  moreover have "smt_ref E vals' n (toggle_bit p ?d) = smt_ref E vals n (toggle_bit p ?d)"
    using Suc.IH [OF d(4)] prefix_ok_toggle [OF d(1) ok] t(1) unfolding d(3) by blast
  ultimately show ?case by simp
qed

text \<open>During the repair loop the nodes from depth \<open>m\<close> on are the wanted ones, and above them only
  the nodes on the path of the key are stale.\<close>

definition repaired :: "prims \<Rightarrow> hash32 \<Rightarrow> nat \<Rightarrow> (hash32 \<Rightarrow> bytes option) \<Rightarrow> smt \<Rightarrow> bool" where
  "repaired E key m vals t \<longleftrightarrow> smap_ok (smt_nodes t) \<and> smt_empty t = smt_empties E
     \<and> (\<forall>d p. \<not> (d < m \<and> p = key_prefix key d) \<longrightarrow>
          map_of (smt_nodes t) (d, p) = smt_want E vals (d, p))"

lemma repaired_node:
  assumes "repaired E key m vals t" and "m \<le> d" and "d \<le> 256" and "prefix_ok d p"
  shows "smt_node t d p = smt_ref E vals (256 - d) p"
proof -
  have "map_of (smt_nodes t) (d, p) = smt_want E vals (d, p)"
    using assms by (auto simp: repaired_def)
  moreover have "smt_empty t ! d = smt_empty_at E (256 - d)"
    using assms by (simp add: repaired_def smt_empties_nth)
  ultimately show ?thesis
    using assms(3,4) by (cases "d = 256") (auto simp: smt_node_def smt_want_def split: option.splits)
qed

lemma repaired_step:
  assumes r: "repaired E key (Suc m) vals t" and m: "m < 256"
  shows "repaired E key m vals (smt_repair E key m t)"
proof -
  let ?p = "key_prefix key m" and ?n = "255 - m"
  let ?c = "key_prefix key (Suc m)"
  let ?h = "smt_ref E vals (256 - m) ?p"
  have pm: "prefix_ok m ?p" using m by (intro prefix_ok_prefix) simp
  have n: "256 - Suc m = ?n" "255 - ?n = m" "256 - m = Suc ?n" using m by auto
  have child: "smt_node t (Suc m) ?c = smt_ref E vals ?n ?c"
    using repaired_node [OF r _ _ prefix_ok_prefix] m n by simp
  have sib_ok: "prefix_ok (Suc m) (toggle_bit ?c m)"
    using m pm by (auto simp: child_prefix toggle_toggle prefix_ok_Suc prefix_ok_toggle)
  have sib: "smt_node t (Suc m) (toggle_bit ?c m) = smt_ref E vals ?n (toggle_bit ?c m)"
    using repaired_node [OF r _ _ sib_ok] m n by simp
  have ref: "?h = smt_node_hash E (smt_ref E vals ?n ?p) (smt_ref E vals ?n (toggle_bit ?p m))"
    unfolding n(3) smt_ref.simps n(2) ..
  have step: "smt_repair E key m t =
      (if ?h = smt_empty t ! m then t\<lparr>smt_nodes := smap_remove (m, ?p) (smt_nodes t)\<rparr>
       else t\<lparr>smt_nodes := smap_insert (m, ?p) ?h (smt_nodes t)\<rparr>)"
    unfolding ref using m child sib
    by (cases "kb key m")
      (simp_all add: smt_repair_def Let_def key_bit_kb child_prefix toggle_toggle)
  have ok: "smap_ok (smt_nodes t)" and em: "smt_empty t ! m = smt_empty_at E (256 - m)"
    using r m by (simp_all add: repaired_def smt_empties_nth)
  have w: "smt_want E vals (m, ?p) = (if ?h = smt_empty_at E (256 - m) then None else Some ?h)"
    using m pm by (simp add: smt_want_def)
  show ?thesis
    unfolding step em using r ok w
    by (auto simp: repaired_def less_Suc_eq)
qed

lemma repaired_loop:
  assumes "repaired E key 256 vals t" and "n \<le> 256"
  shows "repaired E key n vals (fold (smt_repair E key) (rev [n..<256]) t)"
  using assms(2)
proof (induction "256 - n" arbitrary: n)
  case 0
  then have "n = 256" by simp
  then show ?case using assms(1) by simp
next
  case (Suc m)
  have n: "n < 256" using Suc.hyps(2) by simp
  have "repaired E key (Suc n) vals (fold (smt_repair E key) (rev [Suc n..<256]) t)"
    using Suc.hyps n by (intro Suc.hyps(1)) simp_all
  from repaired_step [OF this n] n show ?case by (simp add: upt_conv_Cons)
qed

lemma smt_repair_keeps:
  "smt_values (smt_repair E key m t) = smt_values t" "smt_empty (smt_repair E key m t) = smt_empty t"
  by (simp_all add: smt_repair_def Let_def split: prod.splits)

lemma fold_repair_keeps:
  "smt_values (fold (smt_repair E key) ms t) = smt_values t"
  by (induction ms arbitrary: t) (simp_all add: smt_repair_keeps)

definition norm_value :: "bytes option \<Rightarrow> bytes option" where
  "norm_value v = (if v \<noteq> None \<and> the v \<noteq> [] then v else None)"

lemma set_leaf_repaired:
  assumes ok: "smt_ok E t"
  shows "repaired E key 256 ((map_of (smt_values t))(key := norm_value v)) (smt_set_leaf E key v t)"
    (is "repaired E key 256 ?vals ?t")
proof -
  have want: "smt_want E ?vals (d, p) = smt_want E (map_of (smt_values t)) (d, p)"
    if "p \<noteq> key_prefix key d" for d p
  proof (cases "d \<le> 256 \<and> prefix_ok d p")
    case True
    then have "256 - (256 - d) = d" by simp
    then have "smt_ref E ?vals (256 - d) p = smt_ref E (map_of (smt_values t)) (256 - d) p"
      using True that by (intro ref_unchanged [where key = key]) simp_all
    moreover have "d = 256 \<Longrightarrow> p \<noteq> key" using that by auto
    ultimately show ?thesis by (auto simp: smt_want_def)
  qed (auto simp: smt_want_def)
  have nodes: "map_of (smt_nodes ?t) = (map_of (smt_nodes t))
      ((256, key) := map_option (smt_leaf_hash E key) (norm_value v))"
    using ok by (auto simp: smt_set_leaf_def smt_ok_def norm_value_def)
  have big: "smt_want E ?vals (d, p) = None" if "256 < d" for d p
    using that by (simp add: smt_want_def)
  have "map_of (smt_nodes ?t) (d, p) = smt_want E ?vals (d, p)"
    if "\<not> (d < 256 \<and> p = key_prefix key d)" for d p
  proof (cases "d = 256 \<and> p = key")
    case True
    then show ?thesis unfolding nodes by (simp add: smt_want_def)
  next
    case False
    then have "map_of (smt_nodes ?t) (d, p) = smt_want E (map_of (smt_values t)) (d, p)"
      using ok unfolding nodes by (auto simp: smt_ok_def)
    moreover have "256 < d \<or> p \<noteq> key_prefix key d"
      using that False by (cases "d = 256") auto
    ultimately show ?thesis
    proof (cases "256 < d")
      case False
      with \<open>256 < d \<or> p \<noteq> key_prefix key d\<close> have "p \<noteq> key_prefix key d" by simp
      from want [OF this] \<open>map_of (smt_nodes ?t) (d, p) = smt_want E (map_of (smt_values t)) (d, p)\<close>
      show ?thesis by simp
    qed (simp add: smt_want_def)
  qed
  moreover have "smap_ok (smt_nodes ?t) \<and> smt_empty ?t = smt_empties E"
    using ok by (auto simp: smt_set_leaf_def smt_ok_def)
  ultimately show ?thesis by (auto simp: repaired_def)
qed

lemma smt_values_update:
  assumes "smt_ok E t"
  shows "map_of (smt_values (smt_update E key v t)) = (map_of (smt_values t))(key := norm_value v)"
    "smap_ok (smt_values (smt_update E key v t))"
    "\<forall>v \<in> snd ` set (smt_values (smt_update E key v t)). v \<noteq> []"
proof -
  let ?v = "smt_values (smt_set_leaf E key v t)"
  have e: "smt_values (smt_update E key v t) = ?v"
    by (simp add: smt_update_def fold_repair_keeps)
  show "map_of (smt_values (smt_update E key v t)) = (map_of (smt_values t))(key := norm_value v)"
    unfolding e using assms by (auto simp: smt_set_leaf_def smt_ok_def norm_value_def)
  show ok: "smap_ok (smt_values (smt_update E key v t))"
    unfolding e using assms by (auto simp: smt_set_leaf_def smt_ok_def)
  have "x \<noteq> []" if "map_of ?v k = Some x" for k x
    using assms that unfolding smt_set_leaf_def smt_ok_def
    by (auto split: if_splits dest!: map_of_SomeD)
  then show "\<forall>v \<in> snd ` set (smt_values (smt_update E key v t)). v \<noteq> []"
    using ok unfolding e by (auto simp: smap_set_iff)
qed

lemma smt_update_ok:
  assumes "smt_ok E t"
  shows "smt_ok E (smt_update E key v t)"
proof -
  let ?vals = "(map_of (smt_values t))(key := norm_value v)"
  have "repaired E key 0 ?vals (smt_update E key v t)"
    unfolding smt_update_def by (rule repaired_loop [OF set_leaf_repaired [OF assms]]) simp
  then have "smap_ok (smt_nodes (smt_update E key v t))
      \<and> smt_empty (smt_update E key v t) = smt_empties E
      \<and> map_of (smt_nodes (smt_update E key v t)) = smt_want E ?vals"
    by (auto simp: repaired_def fun_eq_iff)
  then show ?thesis
    using smt_values_update [OF assms] by (auto simp: smt_ok_def)
qed

lemma smt_default_ok: "smt_ok E (smt_default E)"
  by (auto simp: smt_ok_def smt_default_def smt_want_def fun_eq_iff smt_ref_empty)

lemma smt_root_spec:
  assumes "smt_ok E t"
  shows "smt_root t = smt_spec_root E (smt_get t)"
proof -
  have p: "prefix_ok 0 hash_zero" by (simp add: prefix_ok_0)
  have g: "smt_get t = map_of (smt_values t)" by (simp add: smt_get_def fun_eq_iff)
  show ?thesis
    using assms p smt_empties_nth [of 0 E]
    by (auto simp: smt_ok_def smt_root_def smt_spec_root_def smt_want_def g
        simp del: smt_ref.simps smt_empty_at.simps split: option.splits if_splits)
qed

lemma smt_extensional:
  assumes "smt_ok E t" and "smt_ok E t'" and "smt_get t = smt_get t'"
  shows "t = t'"
proof -
  have v: "map_of (smt_values t) = map_of (smt_values t')"
    using assms(3) by (simp add: smt_get_def fun_eq_iff)
  then have "smt_values t = smt_values t'"
    using assms(1,2) smap_extensional by (auto simp: smt_ok_def)
  moreover have "smt_nodes t = smt_nodes t'"
    using assms(1,2) v by (intro smap_extensional) (auto simp: smt_ok_def)
  ultimately show ?thesis using assms(1,2) by (auto simp: smt_ok_def)
qed

section \<open>The interface the ledger relies on\<close>

text \<open>A map whose root is a function of its contents.  An update with no value, or with the empty
  value, deletes the key.\<close>

locale authenticated_map =
  fixes empty :: "'t" and get :: "'t \<Rightarrow> hash32 \<Rightarrow> bytes option"
    and update :: "hash32 \<Rightarrow> bytes option \<Rightarrow> 't \<Rightarrow> 't" and root :: "'t \<Rightarrow> hash32"
    and commit :: "(hash32 \<Rightarrow> bytes option) \<Rightarrow> hash32" and ok :: "'t \<Rightarrow> bool"
  assumes ok_empty: "ok empty" and get_empty: "get empty = Map.empty"
    and ok_update: "ok t \<Longrightarrow> ok (update k v t)"
    and get_update: "ok t \<Longrightarrow> get (update k v t) = (get t)(k := norm_value v)"
    and root_commit: "ok t \<Longrightarrow> root t = commit (get t)"
    and extensional: "ok t \<Longrightarrow> ok t' \<Longrightarrow> get t = get t' \<Longrightarrow> t = t'"
begin

lemma update_commute:
  "ok t \<Longrightarrow> k \<noteq> k' \<Longrightarrow> update k v (update k' v' t) = update k' v' (update k v t)"
  by (rule extensional) (auto simp: ok_update get_update fun_upd_twist)

lemma update_overwrite: "ok t \<Longrightarrow> update k v (update k v' t) = update k v t"
  by (rule extensional) (auto simp: ok_update get_update)

lemma update_delete: "ok t \<Longrightarrow> get t k = None \<Longrightarrow> update k None (update k v t) = t"
  by (rule extensional) (auto simp: ok_update get_update norm_value_def)

lemma ok_fold: "ok t \<Longrightarrow> ok (fold (\<lambda>(k, v). update k v) us t)"
  by (induction us arbitrary: t) (auto simp: ok_update)

lemma get_fold:
  assumes "ok t" and "distinct (map fst us)"
  shows "get (fold (\<lambda>(k, v). update k v) us t) =
    (\<lambda>k. case map_of us k of Some v \<Rightarrow> norm_value v | None \<Rightarrow> get t k)"
  using assms
proof (induction us arbitrary: t)
  case (Cons u us)
  obtain k v where u: "u = (k, v)" by force
  have "map_of us k = None" using Cons.prems(2) by (auto simp: u map_of_eq_None_iff)
  moreover have "get (fold (\<lambda>(k, v). update k v) us (update k v t)) =
      (\<lambda>x. case map_of us x of Some w \<Rightarrow> norm_value w | None \<Rightarrow> get (update k v t) x)"
    using Cons.prems by (intro Cons.IH) (auto simp: u ok_update)
  ultimately show ?case
    by (auto simp: u get_update [OF Cons.prems(1)] fun_eq_iff split: option.split)
qed simp

text \<open>Updates of distinct keys give the same map in every order.\<close>

lemma order_independent:
  assumes "ok t" and "distinct (map fst us)" and "distinct (map fst us')" and "set us = set us'"
  shows "fold (\<lambda>(k, v). update k v) us t = fold (\<lambda>(k, v). update k v) us' t"
  by (rule extensional)
    (use assms map_of_inject_set [OF assms(2,3)] in \<open>simp_all add: ok_fold get_fold\<close>)

lemma root_of_contents: "ok t \<Longrightarrow> ok t' \<Longrightarrow> get t = get t' \<Longrightarrow> root t = root t'"
  by (simp add: root_commit)

end

lemma smt_get_update: "smt_ok E t \<Longrightarrow> smt_get (smt_update E k v t) = (smt_get t)(k := norm_value v)"
  using smt_values_update(1) [of E t k v] by (simp add: smt_get_def fun_eq_iff)

lemma smt_get_default: "smt_get (smt_default E) = Map.empty"
  by (simp add: smt_get_def smt_default_def fun_eq_iff)

interpretation smt: authenticated_map "smt_default E" smt_get "smt_update E" smt_root
  "smt_spec_root E" "smt_ok E" for E
  by unfold_locales
    (auto simp: smt_default_ok smt_update_ok smt_get_update smt_root_spec smt_extensional
      smt_get_default)

section \<open>The root commits to the contents\<close>

text \<open>What is hashed to compute a root: the empty leaf, the leaves and the pairs of children.\<close>

datatype smt_input = EmptyInput | LeafInput hash32 bytes | NodeInput hash32 hash32

fun smt_input_hash :: "prims \<Rightarrow> smt_input \<Rightarrow> hash32" where
  "smt_input_hash E EmptyInput = smt_empty_at E 0"
| "smt_input_hash E (LeafInput k v) = smt_leaf_hash E k v"
| "smt_input_hash E (NodeInput l r) = smt_node_hash E l r"

fun smt_inputs :: "prims \<Rightarrow> (hash32 \<Rightarrow> bytes option) \<Rightarrow> nat \<Rightarrow> hash32 \<Rightarrow> smt_input set" where
  "smt_inputs E vals 0 p = {case vals p of Some v \<Rightarrow> LeafInput p v | None \<Rightarrow> EmptyInput}"
| "smt_inputs E vals (Suc n) p =
     insert (NodeInput (smt_ref E vals n p) (smt_ref E vals n (toggle_bit p (255 - n))))
       (smt_inputs E vals n p \<union> smt_inputs E vals n (toggle_bit p (255 - n)))"

text \<open>Two different inputs with the same hash, one from each of two sets of inputs.\<close>

definition collide :: "('i \<Rightarrow> hash32) \<Rightarrow> 'i set \<Rightarrow> 'i set \<Rightarrow> bool" where
  "collide hash A B \<longleftrightarrow> (\<exists>x \<in> A. \<exists>y \<in> B. x \<noteq> y \<and> hash x = hash y)"

lemma collide_mono: "collide hash A B \<Longrightarrow> A \<subseteq> A' \<Longrightarrow> B \<subseteq> B' \<Longrightarrow> collide hash A' B'"
  by (auto simp: collide_def)

lemma collideI: "x \<in> A \<Longrightarrow> y \<in> B \<Longrightarrow> x \<noteq> y \<Longrightarrow> hash x = hash y \<Longrightarrow> collide hash A B"
  by (auto simp: collide_def)

text \<open>The roots of two maps of values are computed through a collision.\<close>

definition smt_collision :: "prims \<Rightarrow> (hash32 \<Rightarrow> bytes option) \<Rightarrow> (hash32 \<Rightarrow> bytes option) \<Rightarrow> bool" where
  "smt_collision E vals vals' \<longleftrightarrow>
     collide (smt_input_hash E) (smt_inputs E vals 256 hash_zero) (smt_inputs E vals' 256 hash_zero)"

lemma smt_ref_binding:
  assumes "n \<le> 256" and "prefix_ok (256 - n) p" and "p = key_prefix k (256 - n)"
    and "vals k \<noteq> vals' k" and "smt_ref E vals n p = smt_ref E vals' n p"
  shows "collide (smt_input_hash E) (smt_inputs E vals n p) (smt_inputs E vals' n p)"
  using assms
proof (induction n arbitrary: p)
  case 0
  then have p: "p = k" by simp
  from 0 show ?case unfolding p
    by (cases "vals k"; cases "vals' k") (auto simp: collide_def simp del: smt_empty_at.simps)
next
  case (Suc n)
  let ?d = "255 - n"
  have d: "?d < 256" "256 - Suc n = ?d" "256 - n = Suc ?d" "n \<le> 256" using Suc.prems(1) by auto
  let ?q = "key_prefix k (Suc ?d)"
  have ok: "prefix_ok (256 - n) ?q" unfolding d(3) using d(1) by (intro prefix_ok_prefix) simp
  have q: "?q = p \<or> ?q = toggle_bit p ?d"
    using child_prefix [OF d(1), of k] Suc.prems(3) d(2) by simp
  let ?pair = "\<lambda>v. NodeInput (smt_ref E v n p) (smt_ref E v n (toggle_bit p ?d))"
  show ?case
  proof (cases "?pair vals = ?pair vals'")
    case True
    then have "smt_ref E vals n ?q = smt_ref E vals' n ?q" using q by auto
    then have "collide (smt_input_hash E) (smt_inputs E vals n ?q) (smt_inputs E vals' n ?q)"
      using Suc.IH [OF d(4) ok _ Suc.prems(4)] unfolding d(3) by blast
    then show ?thesis by (rule collide_mono) (use q in auto)
  next
    case False
    show ?thesis
      by (rule collideI [OF _ _ False]) (use Suc.prems(5) in simp_all)
  qed
qed

lemma smt_spec_root_binding:
  assumes "smt_spec_root E vals = smt_spec_root E vals'" and "vals \<noteq> vals'"
  shows "smt_collision E vals vals'"
proof -
  obtain k where "vals k \<noteq> vals' k" using assms(2) by blast
  from smt_ref_binding [of 256 hash_zero k vals vals' E, OF _ _ _ this] assms(1)
  show ?thesis by (simp add: smt_spec_root_def smt_collision_def prefix_ok_0)
qed

lemma smt_root_binding:
  assumes "smt_ok E t" "smt_ok E t'" "smt_root t = smt_root t'" "t \<noteq> t'"
  shows "smt_collision E (smt_get t) (smt_get t')"
proof -
  have "smt_get t \<noteq> smt_get t'" using smt_extensional [OF assms(1,2)] assms(4) by blast
  then show ?thesis using assms(3) smt_spec_root_binding smt_root_spec assms(1,2) by metis
qed

end
