(* ===== verification/Ledger.thy ===== *)
theory Ledger
  imports Sparse_Merkle
begin

text \<open>
  The ledger of \<open>src/consensus/state.rs\<close>: accounts, pending rewards keyed by maturity height and
  recipient, and the authenticated tree that mirrors both.  An operation that can fail returns the
  error or the new ledger; every caller works on a clone and drops it on an error, so the partly
  updated ledger of a failed call is not a value of the model.  \<open>consensus_error\<close> is the
  error type of \<open>src/consensus/validation.rs\<close>.
\<close>

datatype consensus_error =
    ErrCodec codec_error
  | ErrCrypto crypto_error
  | InvalidGenesis
  | UnsupportedVersion
  | WrongParent
  | WrongHeight
  | InvalidTimestamp
  | FutureTimestamp
  | InvalidTarget
  | InvalidProofOfWork
  | PowUnavailable string
  | SizeLimit
  | TransactionRootMismatch
  | StateRootMismatch
  | WorkshareRootMismatch
  | NonCanonicalWitness
  | InvalidWorkshareChain
  | DuplicateTransaction
  | InvalidTransaction
  | InvalidNonce
  | InsufficientBalance
  | MoneyRange
  | RewardMismatch
  | ArithmeticOverflow
  | DifferentGenesis
  | InsufficientWork
  | StorageInvariant string

section \<open>State\<close>

record account =
  ac_balance :: u64
  ac_nonce :: u64

definition account_default :: account where
  "account_default = \<lparr>ac_balance = 0, ac_nonce = 0\<rparr>"

definition account_enc :: "account \<Rightarrow> bytes" where
  "account_enc a = put_u64 (ac_balance a) @ put_u64 (ac_nonce a)"

definition account_dec :: "account decoder" where
  "account_dec bs off =
     rbind (get_u64 bs off) (\<lambda>(balance, off).
     rbind (get_u64 bs off) (\<lambda>(nonce, off).
       Inr (\<lparr>ac_balance = balance, ac_nonce = nonce\<rparr>, off)))"

record pending_reward =
  pr_maturity_height :: u64
  pr_recipient :: address
  pr_amount :: u64

definition pending_enc :: "pending_reward \<Rightarrow> bytes" where
  "pending_enc p = put_u64 (pr_maturity_height p) @ address_enc (pr_recipient p) @ put_u64 (pr_amount p)"

definition pending_dec :: "prims \<Rightarrow> pending_reward decoder" where
  "pending_dec E bs off =
     rbind (get_u64 bs off) (\<lambda>(maturity_height, off).
     rbind (address_dec E bs off) (\<lambda>(recipient, off).
     rbind (get_u64 bs off) (\<lambda>(amount, off).
       Inr (\<lparr>pr_maturity_height = maturity_height, pr_recipient = recipient,
             pr_amount = amount\<rparr>, off))))"

datatype state_key =
    KeyAccount address
  | KeyPending (maturity: u64) (recipient: address)

definition state_key_hash :: "prims \<Rightarrow> state_key \<Rightarrow> hash32" where
  "state_key_hash E k =
     domain_hash E (ascii ''PARITR-P9-STATE-KEY-v1'')
       (case k of
          KeyAccount a \<Rightarrow> put_u8 0 @ address_enc a
        | KeyPending m a \<Rightarrow> put_u8 1 @ put_u64 m @ address_enc a)"

record ledger =
  led_accounts :: "(address, account) smap"
  led_pending :: "(u64 \<times> address, u64) smap"
  led_tree :: smt

definition ledger_default :: "prims \<Rightarrow> ledger" where
  "ledger_default E = \<lparr>led_accounts = [], led_pending = [], led_tree = smt_default E\<rparr>"

section \<open>Operations\<close>

definition ledger_root :: "ledger \<Rightarrow> hash32" where
  "ledger_root s = smt_root (led_tree s)"

definition ledger_account :: "ledger \<Rightarrow> address \<Rightarrow> account" where
  "ledger_account s a = (case smap_get (led_accounts s) a of Some acc \<Rightarrow> acc | None \<Rightarrow> account_default)"

definition pending_for :: "ledger \<Rightarrow> address \<Rightarrow> u64" where
  "pending_for s a =
     fold (\<lambda>amount total. saturating_add total amount)
       (map snd (filter (\<lambda>((m, recipient), amount). recipient = a) (led_pending s))) 0"

definition set_account :: "prims \<Rightarrow> address \<Rightarrow> account \<Rightarrow> ledger \<Rightarrow> ledger" where
  "set_account E a acc s =
     (let key = state_key_hash E (KeyAccount a) in
      if acc = account_default
      then s\<lparr>led_accounts := smap_remove a (led_accounts s),
             led_tree := smt_update E key None (led_tree s)\<rparr>
      else s\<lparr>led_accounts := smap_insert a acc (led_accounts s),
             led_tree := smt_update E key (Some (account_enc acc)) (led_tree s)\<rparr>)"

definition credit :: "prims \<Rightarrow> address \<Rightarrow> u64 \<Rightarrow> ledger \<Rightarrow> consensus_error + ledger" where
  "credit E a amount s =
     (let acc = ledger_account s a in
      rbind (ok_or (opt_filter (\<lambda>balance. balance \<le> MAX_MONEY) (checked_add (ac_balance acc) amount))
              MoneyRange) (\<lambda>balance.
        Inr (set_account E a (acc\<lparr>ac_balance := balance\<rparr>) s)))"

definition debit :: "prims \<Rightarrow> address \<Rightarrow> u64 \<Rightarrow> ledger \<Rightarrow> consensus_error + ledger" where
  "debit E a amount s =
     (let acc = ledger_account s a in
      rbind (ok_or (checked_sub (ac_balance acc) amount) InsufficientBalance) (\<lambda>balance.
        Inr (set_account E a (acc\<lparr>ac_balance := balance\<rparr>) s)))"

definition set_nonce :: "prims \<Rightarrow> address \<Rightarrow> u64 \<Rightarrow> ledger \<Rightarrow> ledger" where
  "set_nonce E a nonce s = set_account E a ((ledger_account s a)\<lparr>ac_nonce := nonce\<rparr>) s"

definition put_reward :: "prims \<Rightarrow> u64 \<Rightarrow> address \<Rightarrow> u64 \<Rightarrow> ledger \<Rightarrow> ledger" where
  "put_reward E m a amount s =
     s\<lparr>led_pending := smap_insert (m, a) amount (led_pending s),
       led_tree := smt_update E (state_key_hash E (KeyPending m a))
         (Some (pending_enc \<lparr>pr_maturity_height = m, pr_recipient = a, pr_amount = amount\<rparr>))
         (led_tree s)\<rparr>"

definition schedule_reward ::
    "prims \<Rightarrow> u64 \<Rightarrow> address \<Rightarrow> u64 \<Rightarrow> ledger \<Rightarrow> consensus_error + ledger" where
  "schedule_reward E m a amount s =
     (if amount = 0 then Inr s
      else
        let current = (case smap_get (led_pending s) (m, a) of Some x \<Rightarrow> x | None \<Rightarrow> 0) in
        rbind (ok_or (opt_filter (\<lambda>x. x \<le> MAX_MONEY) (checked_add current amount)) MoneyRange)
          (\<lambda>amount'. Inr (put_reward E m a amount' s)))"

definition address_min :: "prims \<Rightarrow> address" where
  "address_min E = address_from_public_key_hash E (array_of (replicate 20 0))"

definition address_max :: "prims \<Rightarrow> address" where
  "address_max E = address_from_public_key_hash E (array_of (replicate 20 0xff))"

definition drop_reward :: "prims \<Rightarrow> u64 \<Rightarrow> address \<Rightarrow> ledger \<Rightarrow> ledger" where
  "drop_reward E height a s =
     s\<lparr>led_pending := smap_remove (height, a) (led_pending s),
       led_tree := smt_update E (state_key_hash E (KeyPending height a)) None (led_tree s)\<rparr>"

definition matured_rewards :: "prims \<Rightarrow> u64 \<Rightarrow> ledger \<Rightarrow> (address \<times> u64) list" where
  "matured_rewards E height s =
     map (\<lambda>((m, a), amount). (a, amount))
       (filter (\<lambda>(k, _). (height, address_min E) \<le> k \<and> k \<le> (height, address_max E))
         (led_pending s))"

definition mature :: "prims \<Rightarrow> u64 \<Rightarrow> ledger \<Rightarrow> consensus_error + ledger \<times> (address \<times> u64) list" where
  "mature E height s =
     (let matured = matured_rewards E height s in
      rbind (try_fold (\<lambda>s (a, amount). credit E a amount (drop_reward E height a s)) s matured)
        (\<lambda>s'. Inr (s', matured)))"

section \<open>Snapshots\<close>

definition SNAPSHOT_VERSION :: u16 where "SNAPSHOT_VERSION = 1"

definition account_entry_enc :: "address \<times> account \<Rightarrow> bytes" where
  "account_entry_enc = (\<lambda>(a, acc). address_enc a @ account_enc acc)"

definition reward_entry_enc :: "(u64 \<times> address) \<times> u64 \<Rightarrow> bytes" where
  "reward_entry_enc = (\<lambda>((m, a), amount).
     pending_enc \<lparr>pr_maturity_height = m, pr_recipient = a, pr_amount = amount\<rparr>)"

definition ledger_enc :: "ledger \<Rightarrow> bytes" where
  "ledger_enc s =
     put_u16 SNAPSHOT_VERSION
     @ put_list account_entry_enc (led_accounts s)
     @ put_list reward_entry_enc (led_pending s)
     @ hash_enc (ledger_root s)"

fun dec_accounts :: "prims \<Rightarrow> nat \<Rightarrow> address option \<Rightarrow> ledger \<Rightarrow> ledger decoder" where
  "dec_accounts E 0 previous s bs off = Inr (s, off)"
| "dec_accounts E (Suc n) previous s bs off =
     rbind (address_dec E bs off) (\<lambda>(a, off).
       if (case previous of Some p \<Rightarrow> p \<ge> a | None \<Rightarrow> False)
       then Inl (NonCanonical ''accounts not strictly sorted'')
       else rbind (account_dec bs off) (\<lambda>(acc, off).
         if acc = account_default \<or> MAX_MONEY < ac_balance acc
         then Inl (NonCanonical ''invalid empty/out-of-range account'')
         else dec_accounts E n (Some a) (set_account E a acc s) bs off))"

fun dec_rewards :: "prims \<Rightarrow> nat \<Rightarrow> (u64 \<times> address) option \<Rightarrow> ledger \<Rightarrow> ledger decoder" where
  "dec_rewards E 0 previous s bs off = Inr (s, off)"
| "dec_rewards E (Suc n) previous s bs off =
     rbind (pending_dec E bs off) (\<lambda>(reward, off).
       let key = (pr_maturity_height reward, pr_recipient reward) in
       if (case previous of Some p \<Rightarrow> p \<ge> key | None \<Rightarrow> False)
         \<or> pr_amount reward = 0 \<or> MAX_MONEY < pr_amount reward
       then Inl (NonCanonical ''invalid or unsorted pending reward'')
       else rbind (map_err (\<lambda>_. NonCanonical ''pending reward overflow'')
              (schedule_reward E (pr_maturity_height reward) (pr_recipient reward) (pr_amount reward) s))
         (\<lambda>s'. dec_rewards E n (Some key) s' bs off))"

definition ledger_dec :: "prims \<Rightarrow> ledger decoder" where
  "ledger_dec E bs off =
     rbind (get_u16 bs off) (\<lambda>(version, off).
       if version \<noteq> SNAPSHOT_VERSION then Inl (NonCanonical ''unsupported state snapshot version'')
       else
         rbind (get_vector_len 2000000 bs off) (\<lambda>(account_count, off).
         rbind (dec_accounts E account_count None (ledger_default E) bs off) (\<lambda>(s, off).
         rbind (get_vector_len 4000000 bs off) (\<lambda>(reward_count, off).
         rbind (dec_rewards E reward_count None s bs off) (\<lambda>(s, off).
         rbind (hash_dec bs off) (\<lambda>(committed_root, off).
           if committed_root \<noteq> ledger_root s
           then Inl (NonCanonical ''state snapshot root mismatch'')
           else Inr (s, off)))))))"

section \<open>Balances, nonces and the supply\<close>

definition bal :: "ledger \<Rightarrow> address \<Rightarrow> nat" where
  "bal s a = unat (ac_balance (ledger_account s a))"

definition pend :: "ledger \<Rightarrow> u64 \<times> address \<Rightarrow> nat" where
  "pend s k = (case map_of (led_pending s) k of Some x \<Rightarrow> unat x | None \<Rightarrow> 0)"

definition ledger_supply :: "ledger \<Rightarrow> nat" where
  "ledger_supply s =
     smap_sum (\<lambda>acc. unat (ac_balance acc)) (led_accounts s) + smap_sum unat (led_pending s)"

text \<open>The invariant of every ledger the code builds; the tree is treated apart.\<close>

definition account_entry_ok :: "prims \<Rightarrow> address \<Rightarrow> account \<Rightarrow> bool" where
  "account_entry_ok E a acc \<longleftrightarrow>
     address_ok E a \<and> acc \<noteq> account_default \<and> ac_balance acc \<le> MAX_MONEY"

definition reward_entry_ok :: "prims \<Rightarrow> u64 \<times> address \<Rightarrow> u64 \<Rightarrow> bool" where
  "reward_entry_ok E k amount \<longleftrightarrow> address_ok E (snd k) \<and> amount \<noteq> 0 \<and> amount \<le> MAX_MONEY"

definition ledger_ok :: "prims \<Rightarrow> ledger \<Rightarrow> bool" where
  "ledger_ok E s \<longleftrightarrow> smap_ok (led_accounts s) \<and> smap_ok (led_pending s) \<and> smt_ok E (led_tree s)
     \<and> (\<forall>a acc. map_of (led_accounts s) a = Some acc \<longrightarrow> account_entry_ok E a acc)
     \<and> (\<forall>m a amount. map_of (led_pending s) (m, a) = Some amount \<longrightarrow>
          reward_entry_ok E (m, a) amount)"

lemma ledger_okI:
  assumes "smap_ok (led_accounts s)" and "smap_ok (led_pending s)" and "smt_ok E (led_tree s)"
    and "\<And>a acc. map_of (led_accounts s) a = Some acc \<Longrightarrow> account_entry_ok E a acc"
    and "\<And>k amount. map_of (led_pending s) k = Some amount \<Longrightarrow> reward_entry_ok E k amount"
  shows "ledger_ok E s"
  using assms by (simp add: ledger_ok_def)

lemma ledger_okD:
  assumes "ledger_ok E s"
  shows "map_of (led_accounts s) a = Some acc \<Longrightarrow> account_entry_ok E a acc"
    "map_of (led_pending s) k = Some amount \<Longrightarrow> reward_entry_ok E k amount"
  using assms by (cases k; simp add: ledger_ok_def)+

lemma ledger_ok_smap [simp]:
  "ledger_ok E s \<Longrightarrow> smap_ok (led_accounts s)" "ledger_ok E s \<Longrightarrow> smap_ok (led_pending s)"
  "ledger_ok E s \<Longrightarrow> smt_ok E (led_tree s)"
  by (simp_all add: ledger_ok_def)

lemma ledger_ok_default [simp]: "ledger_ok E (ledger_default E)"
  by (simp add: ledger_ok_def ledger_default_def smt_default_ok)

lemma ledger_account_default [simp]: "ledger_account (ledger_default E) a = account_default"
  by (simp add: ledger_account_def ledger_default_def)

lemma supply_default [simp]: "ledger_supply (ledger_default E) = 0"
  by (simp add: ledger_supply_def ledger_default_def)

lemma account_default_simps [simp]: "ac_balance account_default = 0" "ac_nonce account_default = 0"
  by (simp_all add: account_default_def)

lemma balance_le_MAX: "ledger_ok E s \<Longrightarrow> bal s a \<le> unat MAX_MONEY"
proof -
  assume ok: "ledger_ok E s"
  show ?thesis
  proof (cases "map_of (led_accounts s) a")
    case (Some acc)
    then have "ac_balance acc \<le> MAX_MONEY"
      using ledger_okD(1) [OF ok] by (simp add: account_entry_ok_def)
    then show ?thesis using Some by (simp add: bal_def ledger_account_def word_le_nat_alt)
  qed (simp add: bal_def ledger_account_def)
qed

lemma bal_le_supply: "bal s a \<le> ledger_supply s"
proof (cases "map_of (led_accounts s) a")
  case (Some acc)
  from smap_sum_member [OF this, of "\<lambda>acc. unat (ac_balance acc)"] Some show ?thesis
    by (simp add: bal_def ledger_account_def ledger_supply_def)
qed (simp add: bal_def ledger_account_def)

lemma pend_le_supply: "pend s k \<le> ledger_supply s"
proof (cases "map_of (led_pending s) k")
  case (Some x)
  from smap_sum_member [OF this, of unat] Some show ?thesis
    by (simp add: pend_def ledger_supply_def)
qed (simp add: pend_def)

subsection \<open>Setting an account\<close>

lemma ledger_account_set [simp]:
  "smap_ok (led_accounts s) \<Longrightarrow>
   ledger_account (set_account E a acc s) b = (if b = a then acc else ledger_account s b)"
  by (auto simp: ledger_account_def set_account_def Let_def)

lemma pending_set_account [simp]: "led_pending (set_account E a acc s) = led_pending s"
  by (simp add: set_account_def Let_def)

lemma supply_set_account:
  assumes "smap_ok (led_accounts s)"
  shows "ledger_supply (set_account E a acc s) + bal s a
    = ledger_supply s + unat (ac_balance acc)"
proof -
  let ?f = "\<lambda>acc. unat (ac_balance acc)"
  have b: "(case map_of (led_accounts s) a of None \<Rightarrow> 0 | Some w \<Rightarrow> ?f w) = bal s a"
    by (simp add: bal_def ledger_account_def split: option.split)
  show ?thesis
  proof (cases "acc = account_default")
    case True
    then show ?thesis
      using smap_sum_remove [of ?f a "led_accounts s"] unfolding b
      by (simp add: ledger_supply_def set_account_def Let_def)
  next
    case False
    then show ?thesis
      using smap_sum_insert [OF assms, of ?f a acc] unfolding b
      by (simp add: ledger_supply_def set_account_def Let_def)
  qed
qed

lemma set_account_ok [simp]:
  assumes "ledger_ok E s" and "address_ok E a" and "ac_balance acc \<le> MAX_MONEY"
  shows "ledger_ok E (set_account E a acc s)"
proof (rule ledger_okI)
  show "smap_ok (led_accounts (set_account E a acc s))" "smap_ok (led_pending (set_account E a acc s))"
    "smt_ok E (led_tree (set_account E a acc s))"
    using assms(1) by (simp_all add: set_account_def Let_def smt_update_ok)
next
  fix b acc'
  assume "map_of (led_accounts (set_account E a acc s)) b = Some acc'"
  then have "(b = a \<and> acc' = acc \<and> acc \<noteq> account_default) \<or> map_of (led_accounts s) b = Some acc'"
    using assms(1) by (simp add: set_account_def Let_def split: if_splits)
  then show "account_entry_ok E b acc'"
    using assms ledger_okD(1) [OF assms(1)] by (auto simp: account_entry_ok_def)
next
  fix k x assume "map_of (led_pending (set_account E a acc s)) k = Some x"
  then show "reward_entry_ok E k x" using ledger_okD(2) [OF assms(1)] by simp
qed

subsection \<open>Credit, debit, nonce\<close>

lemma credit_Inr:
  "credit E a amount s = Inr s' \<longleftrightarrow> bal s a + unat amount \<le> unat MAX_MONEY \<and>
     s' = set_account E a ((ledger_account s a)\<lparr>ac_balance := ac_balance (ledger_account s a) + amount\<rparr>) s"
proof -
  let ?b = "ac_balance (ledger_account s a)"
  have M: "unat MAX_MONEY < 2 ^ 64" by (simp add: unat_MAX_MONEY)
  have "opt_filter (\<lambda>balance. balance \<le> MAX_MONEY) (checked_add ?b amount) =
      (if bal s a + unat amount \<le> unat MAX_MONEY then Some (?b + amount) else None)"
  proof (cases "unat ?b + unat amount < 2 ^ 64")
    case True
    then have u: "unat (?b + amount) = unat ?b + unat amount" by (intro unat_add_exact) simp
    have "checked_add ?b amount = Some (?b + amount)" using True by (simp add: checked_add_def)
    then show ?thesis by (simp only: opt_filter_def option.case word_le_nat_alt u bal_def)
  next
    case False
    then have "checked_add ?b amount = None" by (simp add: checked_add_def)
    then show ?thesis using False M by (simp add: opt_filter_def bal_def)
  qed
  then show ?thesis by (auto simp: credit_def Let_def result_simps)
qed

lemma credit_Inl: "credit E a amount s = Inl e \<longleftrightarrow> e = MoneyRange \<and> unat MAX_MONEY < bal s a + unat amount"
proof (cases "bal s a + unat amount \<le> unat MAX_MONEY")
  case True
  then obtain s' where "credit E a amount s = Inr s'" using credit_Inr by blast
  with True show ?thesis by simp
next
  case False
  then have "\<nexists>s'. credit E a amount s = Inr s'" using credit_Inr by blast
  moreover have "credit E a amount s = Inl e' \<Longrightarrow> e' = MoneyRange" for e'
    by (auto simp: credit_def Let_def result_simps)
  ultimately show ?thesis using False by (cases "credit E a amount s") auto
qed

lemma credit_effect:
  assumes "ledger_ok E s" and "address_ok E a" and "credit E a amount s = Inr s'"
  shows "ledger_ok E s'" "ledger_supply s' = ledger_supply s + unat amount"
    "bal s' b = bal s b + (if b = a then unat amount else 0)"
    "ac_nonce (ledger_account s' b) = ac_nonce (ledger_account s b)"
    "led_pending s' = led_pending s"
proof -
  let ?acc = "(ledger_account s a)\<lparr>ac_balance := ac_balance (ledger_account s a) + amount\<rparr>"
  have le: "bal s a + unat amount \<le> unat MAX_MONEY" and s': "s' = set_account E a ?acc s"
    using assms(3) by (auto simp: credit_Inr)
  have u: "unat (ac_balance (ledger_account s a) + amount) = bal s a + unat amount"
    using le by (subst unat_add_exact) (simp_all add: bal_def unat_MAX_MONEY)
  show "ledger_ok E s'"
    unfolding s' using assms(1,2) le by (intro set_account_ok) (simp_all add: word_le_nat_alt u)
  show "ledger_supply s' = ledger_supply s + unat amount"
    using supply_set_account [of s E a ?acc] assms(1) by (simp add: s' u)
  show "bal s' b = bal s b + (if b = a then unat amount else 0)"
    using assms(1) u by (simp add: bal_def s')
  show "ac_nonce (ledger_account s' b) = ac_nonce (ledger_account s b)"
    using assms(1) by (simp add: s')
  show "led_pending s' = led_pending s" by (simp add: s')
qed

lemma debit_Inr:
  "debit E a amount s = Inr s' \<longleftrightarrow> unat amount \<le> bal s a \<and>
     s' = set_account E a ((ledger_account s a)\<lparr>ac_balance := ac_balance (ledger_account s a) - amount\<rparr>) s"
  by (auto simp: debit_def Let_def result_simps checked_sub_def bal_def word_le_nat_alt)

lemma debit_Inl: "debit E a amount s = Inl e \<longleftrightarrow> e = InsufficientBalance \<and> bal s a < unat amount"
  by (auto simp: debit_def Let_def result_simps numeric_simps bal_def)

lemma debit_effect:
  assumes "ledger_ok E s" and "address_ok E a" and "debit E a amount s = Inr s'"
  shows "ledger_ok E s'" "ledger_supply s' + unat amount = ledger_supply s"
    "bal s' b = bal s b - (if b = a then unat amount else 0)" "unat amount \<le> bal s a"
    "ac_nonce (ledger_account s' b) = ac_nonce (ledger_account s b)"
    "led_pending s' = led_pending s"
proof -
  let ?acc = "(ledger_account s a)\<lparr>ac_balance := ac_balance (ledger_account s a) - amount\<rparr>"
  have s': "s' = set_account E a ?acc s"
    using assms(3) by (auto simp: debit_Inr)
  show le: "unat amount \<le> bal s a" using assms(3) by (auto simp: debit_Inr)
  have u: "unat (ac_balance (ledger_account s a) - amount) = bal s a - unat amount"
    using le by (subst unat_sub_exact) (simp_all add: bal_def word_le_nat_alt)
  show "ledger_ok E s'"
    unfolding s' using assms(1,2) balance_le_MAX [OF assms(1), of a]
    by (intro set_account_ok) (simp_all add: word_le_nat_alt u)
  show "ledger_supply s' + unat amount = ledger_supply s"
    using supply_set_account [of s E a ?acc] assms(1) le bal_le_supply [of s a] by (simp add: s' u)
  show "bal s' b = bal s b - (if b = a then unat amount else 0)"
    using assms(1) u by (simp add: bal_def s')
  show "ac_nonce (ledger_account s' b) = ac_nonce (ledger_account s b)"
    using assms(1) by (simp add: s')
  show "led_pending s' = led_pending s" by (simp add: s')
qed

lemma set_nonce_effect:
  assumes "ledger_ok E s" and "address_ok E a"
  shows "ledger_ok E (set_nonce E a n s)" "ledger_supply (set_nonce E a n s) = ledger_supply s"
    "bal (set_nonce E a n s) b = bal s b"
    "ac_nonce (ledger_account (set_nonce E a n s) b) = (if b = a then n else ac_nonce (ledger_account s b))"
    "led_pending (set_nonce E a n s) = led_pending s"
  using assms balance_le_MAX [OF assms(1), of a]
    supply_set_account [of s E a "(ledger_account s a)\<lparr>ac_nonce := n\<rparr>"]
  by (simp_all add: set_nonce_def bal_def word_le_nat_alt)

subsection \<open>Pending rewards\<close>

lemma put_reward_ok:
  assumes ok: "ledger_ok E s" and "address_ok E a" and "x \<noteq> 0" and "x \<le> MAX_MONEY"
  shows "ledger_ok E (put_reward E m a x s)"
proof (rule ledger_okI)
  fix k y assume "map_of (led_pending (put_reward E m a x s)) k = Some y"
  then have k: "(if k = (m, a) then Some x else map_of (led_pending s) k) = Some y"
    by (simp add: put_reward_def)
  show "reward_entry_ok E k y"
  proof (cases "k = (m, a)")
    case False
    then show ?thesis using k by (intro ledger_okD(2) [OF ok]) simp
  qed (use k assms in \<open>simp add: reward_entry_ok_def\<close>)
qed (use ok ledger_okD(1) [OF ok] in \<open>simp_all add: put_reward_def smt_update_ok\<close>)

lemma drop_reward_ok:
  assumes ok: "ledger_ok E s"
  shows "ledger_ok E (drop_reward E m a s)"
proof (rule ledger_okI)
  fix k y assume "map_of (led_pending (drop_reward E m a s)) k = Some y"
  then have "map_of (led_pending s) k = Some y"
    using ok by (simp add: drop_reward_def split: if_splits)
  then show "reward_entry_ok E k y" by (rule ledger_okD(2) [OF ok])
qed (use ok ledger_okD(1) [OF ok] in \<open>simp_all add: drop_reward_def smt_update_ok\<close>)

lemma account_reward_simps [simp]:
  "led_accounts (put_reward E m a x s) = led_accounts s"
  "led_accounts (drop_reward E m a s) = led_accounts s"
  "ledger_account (put_reward E m a x s) b = ledger_account s b"
  "ledger_account (drop_reward E m a s) b = ledger_account s b"
  "bal (put_reward E m a x s) b = bal s b"
  "bal (drop_reward E m a s) b = bal s b"
  by (simp_all add: put_reward_def drop_reward_def ledger_account_def bal_def)

lemma pend_default: "(case map_of (led_pending s) k of None \<Rightarrow> 0 | Some w \<Rightarrow> unat w) = pend s k"
  by (simp add: pend_def split: option.split)

lemma put_reward_effect:
  assumes "ledger_ok E s"
  shows "ledger_supply (put_reward E m a x s) + pend s (m, a) = ledger_supply s + unat x"
    "pend (put_reward E m a x s) k = (if k = (m, a) then unat x else pend s k)"
  using smap_sum_insert [of "led_pending s" unat "(m, a)" x] assms
  by (simp_all add: ledger_supply_def put_reward_def pend_default [symmetric])

lemma drop_reward_effect:
  assumes "ledger_ok E s"
  shows "ledger_supply (drop_reward E m a s) + pend s (m, a) = ledger_supply s"
    "pend (drop_reward E m a s) k = (if k = (m, a) then 0 else pend s k)"
  using smap_sum_remove [of unat "(m, a)" "led_pending s"] assms
  by (simp_all add: ledger_supply_def drop_reward_def pend_default [symmetric])

lemma schedule_reward_Inr:
  assumes "ledger_ok E s"
  shows "schedule_reward E m a amount s = Inr s' \<longleftrightarrow>
    (if amount = 0 then s' = s
     else pend s (m, a) + unat amount \<le> unat MAX_MONEY
       \<and> s' = put_reward E m a (word_of_nat (pend s (m, a) + unat amount)) s)"
proof (cases "amount = 0")
  case False
  let ?c = "case map_of (led_pending s) (m, a) of Some x \<Rightarrow> x | None \<Rightarrow> 0"
  have c: "unat ?c = pend s (m, a)" by (simp add: pend_def split: option.split)
  have M: "unat MAX_MONEY < 2 ^ 64" by (simp add: unat_MAX_MONEY)
  have "opt_filter (\<lambda>x. x \<le> MAX_MONEY) (checked_add ?c amount) = Some v \<longleftrightarrow>
      pend s (m, a) + unat amount \<le> unat MAX_MONEY \<and> v = word_of_nat (pend s (m, a) + unat amount)" for v
  proof
    assume "opt_filter (\<lambda>x. x \<le> MAX_MONEY) (checked_add ?c amount) = Some v"
    then have u: "unat v = pend s (m, a) + unat amount" and "v \<le> MAX_MONEY"
      by (auto simp: opt_filter_Some checked_add_Some c)
    then show "pend s (m, a) + unat amount \<le> unat MAX_MONEY
        \<and> v = word_of_nat (pend s (m, a) + unat amount)"
      using word_of_nat_unat [of v] by (simp add: word_le_nat_alt)
  next
    assume "pend s (m, a) + unat amount \<le> unat MAX_MONEY
        \<and> v = word_of_nat (pend s (m, a) + unat amount)"
    then show "opt_filter (\<lambda>x. x \<le> MAX_MONEY) (checked_add ?c amount) = Some v"
      using M by (auto simp: opt_filter_Some checked_add_Some c word_le_nat_alt unat_of_nat_lt
          simp del: of_nat_add)
  qed
  then show ?thesis using False
    by (simp add: schedule_reward_def result_simps Let_def del: of_nat_add) blast
qed (auto simp: schedule_reward_def)

lemma schedule_reward_effect:
  assumes "ledger_ok E s" and "address_ok E a" and "schedule_reward E m a amount s = Inr s'"
  shows "ledger_ok E s'" "ledger_supply s' = ledger_supply s + unat amount"
    "pend s' k = pend s k + (if k = (m, a) then unat amount else 0)"
    "ledger_account s' b = ledger_account s b"
proof -
  have "ledger_ok E s' \<and> ledger_supply s' = ledger_supply s + unat amount
      \<and> pend s' k = pend s k + (if k = (m, a) then unat amount else 0)
      \<and> ledger_account s' b = ledger_account s b"
  proof (cases "amount = 0")
    case True
    then show ?thesis using assms(1,3) by (simp add: schedule_reward_Inr [OF assms(1)])
  next
    case False
    let ?x = "word_of_nat (pend s (m, a) + unat amount) :: u64"
    have le: "pend s (m, a) + unat amount \<le> unat MAX_MONEY" and s': "s' = put_reward E m a ?x s"
      using assms(3) False by (simp_all add: schedule_reward_Inr [OF assms(1)])
    have u: "unat ?x = pend s (m, a) + unat amount"
      using le by (intro unat_of_nat_lt) (simp add: unat_MAX_MONEY)
    have "?x \<noteq> 0" using u False by (metis add_is_0 unat_0 unat_eq_0)
    moreover have "?x \<le> MAX_MONEY" using le by (simp only: word_le_nat_alt u)
    ultimately show ?thesis
      using put_reward_ok [OF assms(1,2)] put_reward_effect [OF assms(1), of m a ?x]
      unfolding s' by (simp add: u del: of_nat_add)
  qed
  then show "ledger_ok E s'" "ledger_supply s' = ledger_supply s + unat amount"
    "pend s' k = pend s k + (if k = (m, a) then unat amount else 0)"
    "ledger_account s' b = ledger_account s b" by blast+
qed

section \<open>Maturation\<close>

lemma address_bounds:
  assumes "address_ok E a"
  shows "address_min E \<le> a" "a \<le> address_max E"
proof -
  obtain kh where a: "a = address_from_public_key_hash E kh"
    using address_ok_key_hash [OF assms] by blast
  have b: "array_bytes (address_min E) ! Suc i = 0" "array_bytes (address_max E) ! Suc i = 0xff"
    if "i < 20" for i
    using that by (simp_all add: address_min_def address_max_def address_of_key_hash_bytes nth_append)
  have ok: "address_ok E (address_min E)" "address_ok E (address_max E)"
    by (simp_all add: address_min_def address_max_def address_of_key_hash_ok)
  show "address_min E \<le> a"
    by (rule address_prefix_le [OF ok(1) assms]) (simp add: b)
  have top: "x \<le> (0xff :: u8)" for x
    using unat_bound [of x] by (simp add: word_le_nat_alt)
  show "a \<le> address_max E"
    by (rule address_prefix_le [OF assms ok(2)]) (simp only: b top)
qed

lemma map_of_filter_key:
  "distinct (map fst xs) \<Longrightarrow>
   map_of (filter (\<lambda>(k, v). P k) xs) k = (if P k then map_of xs k else None)"
  by (induction xs) (auto simp: map_of_eq_None_iff rev_image_eqI)

lemma matured_as_filter:
  assumes "ledger_ok E s"
  shows "matured_rewards E h s =
    map (\<lambda>((m, a), x). (a, x)) (filter (\<lambda>(k, x). fst k = h) (led_pending s))"
proof -
  have "(h, address_min E) \<le> k \<and> k \<le> (h, address_max E) \<longleftrightarrow> fst k = h"
    if "(k, x) \<in> set (led_pending s)" for k x
  proof -
    have "map_of (led_pending s) k = Some x" using that assms by (simp add: smap_set_iff [symmetric])
    then have "address_ok E (snd k)"
      using ledger_okD(2) [OF assms] by (auto simp: reward_entry_ok_def)
    from address_bounds [OF this] show ?thesis by (cases k) (auto simp: less_eq_prod_def)
  qed
  then have "filter (\<lambda>(k, _). (h, address_min E) \<le> k \<and> k \<le> (h, address_max E)) (led_pending s)
      = filter (\<lambda>(k, x). fst k = h) (led_pending s)"
    by (intro filter_cong) auto
  then show ?thesis by (simp add: matured_rewards_def)
qed

lemma map_of_project:
  "\<forall>(k, x) \<in> set xs. fst k = h \<Longrightarrow> map_of (map (\<lambda>((m, a), x). (a, x)) xs) a = map_of xs (h, a)"
  by (induction xs) auto

lemma distinct_project:
  "\<forall>(k, x) \<in> set xs. fst k = h \<Longrightarrow> distinct (map fst xs) \<Longrightarrow>
   distinct (map fst (map (\<lambda>((m, a), x). (a, x)) xs))"
proof (induction xs)
  case (Cons y xs)
  obtain a x where y: "y = ((h, a), x)" using Cons.prems(1) by (cases y) auto
  have "(h, a) \<notin> fst ` set xs" using Cons.prems(2) by (simp add: y)
  moreover have "\<forall>(k, x) \<in> set xs. fst k = h" using Cons.prems(1) by simp
  ultimately have "a \<notin> fst ` (\<lambda>((m, a), x). (a, x)) ` set xs" by force
  with Cons show ?case by (simp add: y image_image)
qed simp

lemma matured_rewards:
  assumes "ledger_ok E s"
  shows "map_of (matured_rewards E h s) a = map_of (led_pending s) (h, a)"
    "distinct (map fst (matured_rewards E h s))"
proof -
  let ?f = "filter (\<lambda>(k, x). fst k = h) (led_pending s)"
  have d: "distinct (map fst (led_pending s))" using assms by (intro smap_ok_distinct) simp
  have all: "\<forall>(k, x) \<in> set ?f. fst k = h" by auto
  have "map_of ?f (h, a) = map_of (led_pending s) (h, a)"
    using map_of_filter_key [OF d, of "\<lambda>k. fst k = h" "(h, a)"] by simp
  then show "map_of (matured_rewards E h s) a = map_of (led_pending s) (h, a)"
    unfolding matured_as_filter [OF assms] map_of_project [OF all] .
  have "distinct (map fst ?f)" using d by (induction "led_pending s") (auto simp: distinct_map_filter)
  then show "distinct (map fst (matured_rewards E h s))"
    unfolding matured_as_filter [OF assms] by (rule distinct_project [OF all])
qed

abbreviation mature_step :: "prims \<Rightarrow> u64 \<Rightarrow> ledger \<Rightarrow> address \<times> u64 \<Rightarrow> consensus_error + ledger" where
  "mature_step E h \<equiv> (\<lambda>s (a, amount). credit E a amount (drop_reward E h a s))"

lemma mature_step_effect:
  assumes ok: "ledger_ok E s" and x: "map_of (led_pending s) (h, a) = Some x"
    and step: "mature_step E h s (a, x) = Inr s'"
  shows "ledger_ok E s'" "ledger_supply s' = ledger_supply s"
    "pend s' k = (if k = (h, a) then 0 else pend s k)"
    "bal s' b = bal s b + (if b = a then unat x else 0)"
    "ac_nonce (ledger_account s' b) = ac_nonce (ledger_account s b)"
    "map_of (led_pending s') k = (if k = (h, a) then None else map_of (led_pending s) k)"
proof -
  let ?d = "drop_reward E h a s"
  have a: "address_ok E a" using ledger_okD(2) [OF ok x] by (simp add: reward_entry_ok_def)
  have d: "ledger_ok E ?d" using ok by (rule drop_reward_ok)
  have p: "pend s (h, a) = unat x" using x by (simp add: pend_def)
  note c = credit_effect [OF d a step [simplified]]
  show "ledger_ok E s'" by (rule c(1))
  show "ledger_supply s' = ledger_supply s"
    using c(2) drop_reward_effect(1) [OF ok, of h a] p by simp
  have "pend s' = pend ?d" using c(5) by (simp add: pend_def fun_eq_iff)
  then show "pend s' k = (if k = (h, a) then 0 else pend s k)"
    using drop_reward_effect(2) [OF ok, of h a k] by simp
  show "bal s' b = bal s b + (if b = a then unat x else 0)" using c(3) [of b] by simp
  show "ac_nonce (ledger_account s' b) = ac_nonce (ledger_account s b)" using c(4) [of b] by simp
  show "map_of (led_pending s') k = (if k = (h, a) then None else map_of (led_pending s) k)"
    using c(5) ok by (simp add: drop_reward_def)
qed

lemma mature_loop_effect:
  assumes "ledger_ok E s" and "distinct (map fst l)"
    and "\<And>a x. (a, x) \<in> set l \<Longrightarrow> map_of (led_pending s) (h, a) = Some x"
    and "try_fold (mature_step E h) s l = Inr s'"
  shows "ledger_ok E s' \<and> ledger_supply s' = ledger_supply s
    \<and> (\<forall>m a. pend s' (m, a) = (if m = h \<and> a \<in> fst ` set l then 0 else pend s (m, a)))
    \<and> (\<forall>b. bal s' b = bal s b + (case map_of l b of Some x \<Rightarrow> unat x | None \<Rightarrow> 0))
    \<and> (\<forall>b. ac_nonce (ledger_account s' b) = ac_nonce (ledger_account s b))"
  using assms
proof (induction l arbitrary: s)
  case (Cons y l)
  obtain a x where y: "y = (a, x)" by force
  obtain s1 where s1: "mature_step E h s (a, x) = Inr s1" "try_fold (mature_step E h) s1 l = Inr s'"
    using Cons.prems(4) by (auto simp: y rbind_Inr)
  have x: "map_of (led_pending s) (h, a) = Some x" using Cons.prems(3) by (simp add: y)
  note e = mature_step_effect [OF Cons.prems(1) x s1(1)]
  have na: "a \<notin> fst ` set l" using Cons.prems(2) by (simp add: y)
  then have nl: "map_of l a = None" by (simp add: map_of_eq_None_iff)
  have "map_of (led_pending s1) (h, b) = Some z" if "(b, z) \<in> set l" for b z
  proof -
    have "b \<noteq> a" using na that by force
    then show ?thesis using e(6) [of "(h, b)"] Cons.prems(3) [of b z] that by simp
  qed
  from Cons.IH [OF e(1) _ this s1(2)] Cons.prems(2) y
  have "ledger_ok E s' \<and> ledger_supply s' = ledger_supply s1
    \<and> (\<forall>m a. pend s' (m, a) = (if m = h \<and> a \<in> fst ` set l then 0 else pend s1 (m, a)))
    \<and> (\<forall>b. bal s' b = bal s1 b + (case map_of l b of Some x \<Rightarrow> unat x | None \<Rightarrow> 0))
    \<and> (\<forall>b. ac_nonce (ledger_account s' b) = ac_nonce (ledger_account s1 b))" by simp
  then show ?case using nl by (auto simp: y e(2-5))
qed simp

lemma mature_effect:
  assumes ok: "ledger_ok E s" and m: "mature E h s = Inr (s', l)"
  shows "ledger_ok E s'" "ledger_supply s' = ledger_supply s"
    "pend s' (m, a) = (if m = h then 0 else pend s (m, a))"
    "bal s' a = bal s a + pend s (h, a)"
    "ac_nonce (ledger_account s' a) = ac_nonce (ledger_account s a)"
proof -
  let ?l = "matured_rewards E h s"
  have t: "try_fold (mature_step E h) s ?l = Inr s'"
    using m by (auto simp: mature_def Let_def rbind_Inr)
  note mr = matured_rewards [OF ok]
  have "map_of (led_pending s) (h, a) = Some x" if "(a, x) \<in> set ?l" for a x
    using that mr by (metis map_of_is_SomeI)
  from mature_loop_effect [OF ok mr(2) this t]
  have e: "ledger_ok E s'" "ledger_supply s' = ledger_supply s"
    "pend s' (m, a) = (if m = h \<and> a \<in> fst ` set ?l then 0 else pend s (m, a))"
    "bal s' a = bal s a + (case map_of ?l a of Some x \<Rightarrow> unat x | None \<Rightarrow> 0)"
    "ac_nonce (ledger_account s' a) = ac_nonce (ledger_account s a)" by blast+
  show "ledger_ok E s'" "ledger_supply s' = ledger_supply s"
    "ac_nonce (ledger_account s' a) = ac_nonce (ledger_account s a)" by fact+
  show "bal s' a = bal s a + pend s (h, a)" using e(4) by (simp add: mr(1) pend_def)
  have "a \<notin> fst ` set ?l \<Longrightarrow> pend s (h, a) = 0"
    using mr(1) [of h a] by (simp add: map_of_eq_None_iff [symmetric] pend_def)
  then show "pend s' (m, a) = (if m = h then 0 else pend s (m, a))" using e(3) by auto
qed

text \<open>Maturation cannot fail while the whole supply is a valid amount.\<close>

lemma mature_total:
  assumes ok: "ledger_ok E s" and sup: "ledger_supply s \<le> unat MAX_MONEY"
  obtains s' l where "mature E h s = Inr (s', l)"
proof -
  have "\<exists>s'. try_fold (mature_step E h) s l = Inr s'"
    if "ledger_ok E s" "ledger_supply s \<le> unat MAX_MONEY" "distinct (map fst l)"
      "\<And>a x. (a, x) \<in> set l \<Longrightarrow> map_of (led_pending s) (h, a) = Some x" for s l
    using that
  proof (induction l arbitrary: s)
    case (Cons y l)
    obtain a x where y: "y = (a, x)" by force
    have x: "map_of (led_pending s) (h, a) = Some x" using Cons.prems(4) by (simp add: y)
    have "bal (drop_reward E h a s) a + unat x \<le> unat MAX_MONEY"
      using bal_le_supply [of "drop_reward E h a s" a] drop_reward_effect(1) [OF Cons.prems(1), of h a]
        Cons.prems(2) x by (simp add: pend_def)
    then obtain s1 where s1: "mature_step E h s (a, x) = Inr s1" using credit_Inr by auto
    note e = mature_step_effect [OF Cons.prems(1) x s1]
    have "map_of (led_pending s1) (h, b) = Some z" if "(b, z) \<in> set l" for b z
    proof -
      have "b \<noteq> a" using Cons.prems(3) that by (force simp: y)
      then show ?thesis using e(6) [of "(h, b)"] Cons.prems(4) [of b z] that by simp
    qed
    with Cons.IH [of s1] Cons.prems e(1,2) s1 show ?case by (auto simp: y)
  qed simp
  moreover have "map_of (led_pending s) (h, a) = Some x" if "(a, x) \<in> set (matured_rewards E h s)" for a x
    using that matured_rewards [OF ok] by (metis map_of_is_SomeI)
  ultimately obtain s' where "try_fold (mature_step E h) s (matured_rewards E h s) = Inr s'"
    using matured_rewards(2) [OF ok] ok sup by blast
  then show thesis using that by (simp add: mature_def Let_def)
qed

section \<open>The tree mirrors the ledger\<close>

definition ledger_contents :: "ledger \<Rightarrow> state_key \<Rightarrow> bytes option" where
  "ledger_contents s k = (case k of
      KeyAccount a \<Rightarrow> map_option account_enc (map_of (led_accounts s) a)
    | KeyPending m a \<Rightarrow> map_option (\<lambda>x. reward_entry_enc ((m, a), x)) (map_of (led_pending s) (m, a)))"

definition mirrors :: "prims \<Rightarrow> smt \<Rightarrow> (state_key \<Rightarrow> bytes option) \<Rightarrow> bool" where
  "mirrors E t c \<longleftrightarrow>
     (\<forall>k v. c k = Some v \<longrightarrow> smt_get t (state_key_hash E k) = Some v)
     \<and> (\<forall>h v. smt_get t h = Some v \<longrightarrow> (\<exists>k. c k = Some v \<and> state_key_hash E k = h))"

lemma mirrorsD:
  assumes "mirrors E t c"
  shows "c k = Some v \<Longrightarrow> smt_get t (state_key_hash E k) = Some v"
    "smt_get t h = Some v \<Longrightarrow> \<exists>k. c k = Some v \<and> state_key_hash E k = h"
  using assms by (simp_all add: mirrors_def)

text \<open>\<open>K\<close> is the set of keys that occur; the hash must not collide on it.\<close>

definition tree_ok :: "prims \<Rightarrow> state_key set \<Rightarrow> ledger \<Rightarrow> bool" where
  "tree_ok E K s \<longleftrightarrow> dom (ledger_contents s) \<subseteq> K \<and> mirrors E (led_tree s) (ledger_contents s)"

lemma mirrors_update:
  assumes inj: "inj_on (state_key_hash E) K" and dom: "dom c \<subseteq> K" "k \<in> K"
    and m: "mirrors E t c" and ok: "smt_ok E t" and v: "norm_value v = v"
  shows "mirrors E (smt_update E (state_key_hash E k) v t) (c(k := v))"
proof -
  let ?h = "state_key_hash E k"
  have get: "smt_get (smt_update E ?h v t) = (smt_get t)(?h := v)"
    using smt_get_update [OF ok, of ?h v] v by simp
  have ne: "state_key_hash E k' \<noteq> ?h" if "c k' = Some w" "k' \<noteq> k" for k' w
    using inj dom that by (metis domI inj_onD subsetD)
  show ?thesis
    unfolding mirrors_def get
  proof (intro conjI allI impI)
    fix k' w assume "(c(k := v)) k' = Some w"
    then show "((smt_get t)(?h := v)) (state_key_hash E k') = Some w"
      using ne m by (cases "k' = k") (auto simp: mirrors_def)
  next
    fix h w assume h: "((smt_get t)(?h := v)) h = Some w"
    show "\<exists>k'. (c(k := v)) k' = Some w \<and> state_key_hash E k' = h"
    proof (cases "h = ?h")
      case False
      then obtain k' where k': "c k' = Some w" "state_key_hash E k' = h"
        using h mirrorsD(2) [OF m, of h w] by auto
      then have "k' \<noteq> k" using False by blast
      with k' show ?thesis by (intro exI [of _ k']) simp
    qed (use h in \<open>intro exI [of _ k], simp\<close>)
  qed
qed

lemma mirrors_unique:
  assumes "mirrors E t c" and "mirrors E t' c"
  shows "smt_get t = smt_get t'"
proof
  have sub: "smt_get t2 h = Some v"
    if m: "mirrors E t1 c" "mirrors E t2 c" and v: "smt_get t1 h = Some v"
    for t1 t2 h v
    using mirrorsD(2) [OF m(1) v] mirrorsD(1) [OF m(2)] by auto
  fix h
  show "smt_get t h = smt_get t' h"
    using sub [OF assms] sub [OF assms(2,1)] by (metis not_None_eq)
qed

lemma entry_enc_nonempty:
  "account_enc acc \<noteq> []" "reward_entry_enc r \<noteq> []"
  by (auto simp: account_enc_def reward_entry_enc_def pending_enc_def put_u64_def
      split: prod.splits dest: arg_cong [where f = length])

lemma contents_set_account:
  assumes "smap_ok (led_accounts s)"
  shows "ledger_contents (set_account E a acc s) = (ledger_contents s)
    (KeyAccount a := if acc = account_default then None else Some (account_enc acc))"
  using assms
  by (auto simp: fun_eq_iff ledger_contents_def set_account_def Let_def split: state_key.split)

lemma contents_put_reward:
  "ledger_contents (put_reward E m a x s) = (ledger_contents s)
    (KeyPending m a := Some (reward_entry_enc ((m, a), x)))"
  by (auto simp: fun_eq_iff ledger_contents_def put_reward_def split: state_key.split)

lemma contents_drop_reward:
  assumes "smap_ok (led_pending s)"
  shows "ledger_contents (drop_reward E m a s) = (ledger_contents s)(KeyPending m a := None)"
  using assms by (auto simp: fun_eq_iff ledger_contents_def drop_reward_def split: state_key.split)

lemma tree_set_account:
  assumes "inj_on (state_key_hash E) K" and "ledger_ok E s" and "tree_ok E K s" and "KeyAccount a \<in> K"
  shows "tree_ok E K (set_account E a acc s)"
proof -
  let ?v = "if acc = account_default then None else Some (account_enc acc)"
  have v: "norm_value ?v = ?v" by (simp add: norm_value_def entry_enc_nonempty)
  have t: "led_tree (set_account E a acc s) = smt_update E (state_key_hash E (KeyAccount a)) ?v (led_tree s)"
    by (simp add: set_account_def Let_def)
  have d: "dom (ledger_contents s) \<subseteq> K" and m: "mirrors E (led_tree s) (ledger_contents s)"
    using assms(3) by (simp_all add: tree_ok_def)
  have "smt_ok E (led_tree s)" using assms(2) by simp
  from mirrors_update [OF assms(1) d assms(4) m this v]
  show ?thesis
    unfolding tree_ok_def t contents_set_account [OF ledger_ok_smap(1) [OF assms(2)]]
    using d assms(4) by (auto split: if_splits)
qed

lemma tree_put_reward:
  assumes "inj_on (state_key_hash E) K" and "ledger_ok E s" and "tree_ok E K s" and "KeyPending m a \<in> K"
  shows "tree_ok E K (put_reward E m a x s)"
proof -
  let ?v = "Some (reward_entry_enc ((m, a), x))"
  have v: "norm_value ?v = ?v" by (simp add: norm_value_def entry_enc_nonempty)
  have t: "led_tree (put_reward E m a x s) = smt_update E (state_key_hash E (KeyPending m a)) ?v (led_tree s)"
    by (simp add: put_reward_def reward_entry_enc_def)
  have d: "dom (ledger_contents s) \<subseteq> K" and mi: "mirrors E (led_tree s) (ledger_contents s)"
    using assms(3) by (simp_all add: tree_ok_def)
  have "smt_ok E (led_tree s)" using assms(2) by simp
  from mirrors_update [OF assms(1) d assms(4) mi this v]
  show ?thesis
    unfolding tree_ok_def t contents_put_reward using d assms(4) by auto
qed

lemma tree_drop_reward:
  assumes "inj_on (state_key_hash E) K" and "ledger_ok E s" and "tree_ok E K s" and "KeyPending m a \<in> K"
  shows "tree_ok E K (drop_reward E m a s)"
proof -
  have v: "norm_value None = None" by (simp add: norm_value_def)
  have t: "led_tree (drop_reward E m a s) = smt_update E (state_key_hash E (KeyPending m a)) None (led_tree s)"
    by (simp add: drop_reward_def)
  have d: "dom (ledger_contents s) \<subseteq> K" and mi: "mirrors E (led_tree s) (ledger_contents s)"
    using assms(3) by (simp_all add: tree_ok_def)
  have "smt_ok E (led_tree s)" using assms(2) by simp
  from mirrors_update [OF assms(1) d assms(4) mi this v]
  show ?thesis
    unfolding tree_ok_def t contents_drop_reward [OF ledger_ok_smap(2) [OF assms(2)]] using d by auto
qed

lemma tree_default: "tree_ok E K (ledger_default E)"
  by (auto simp: tree_ok_def mirrors_def ledger_contents_def ledger_default_def smt_get_default
      split: state_key.splits)

lemma tree_determined:
  assumes "ledger_ok E s" and "ledger_ok E s'" and "tree_ok E K s" and "tree_ok E K s'"
    and "led_accounts s = led_accounts s'" and "led_pending s = led_pending s'"
  shows "s = s'"
proof -
  have "ledger_contents s = ledger_contents s'"
    using assms(5,6) by (simp add: fun_eq_iff ledger_contents_def split: state_key.split)
  then have "smt_get (led_tree s) = smt_get (led_tree s')"
    using assms(3,4) mirrors_unique [of E "led_tree s" "ledger_contents s'" "led_tree s'"]
    by (simp add: tree_ok_def)
  then have "led_tree s = led_tree s'"
    using assms(1,2) smt_extensional [of E "led_tree s" "led_tree s'"] by simp
  with assms(5,6) show ?thesis by simp
qed

lemma tree_credit:
  "inj_on (state_key_hash E) K \<Longrightarrow> ledger_ok E s \<Longrightarrow> tree_ok E K s \<Longrightarrow> KeyAccount a \<in> K \<Longrightarrow>
   credit E a amount s = Inr s' \<Longrightarrow> tree_ok E K s'"
  by (auto simp: credit_Inr intro: tree_set_account)

lemma tree_debit:
  "inj_on (state_key_hash E) K \<Longrightarrow> ledger_ok E s \<Longrightarrow> tree_ok E K s \<Longrightarrow> KeyAccount a \<in> K \<Longrightarrow>
   debit E a amount s = Inr s' \<Longrightarrow> tree_ok E K s'"
  by (auto simp: debit_Inr intro: tree_set_account)

lemma tree_schedule:
  "inj_on (state_key_hash E) K \<Longrightarrow> ledger_ok E s \<Longrightarrow> tree_ok E K s \<Longrightarrow> KeyPending m a \<in> K \<Longrightarrow>
   schedule_reward E m a amount s = Inr s' \<Longrightarrow> tree_ok E K s'"
  by (auto simp: schedule_reward_Inr intro: tree_put_reward split: if_splits)

section \<open>Snapshots\<close>

lemma account_dec_law:
  assumes small: "length bs < 2 ^ 64"
  shows "account_dec bs off = Inr (v, off') \<longleftrightarrow> seg_at bs off (account_enc v) off'"
  by (cases v)
    (auto simp: account_dec_def result_simps u64_codec.law [OF small] account_enc_def seg_at_append)

interpretation account_codec: codec account_enc account_dec "\<lambda>_. True"
  by unfold_locales (simp add: account_dec_law)

lemma pending_dec_law:
  assumes small: "length bs < 2 ^ 64"
  shows "pending_dec E bs off = Inr (v, off') \<longleftrightarrow>
    address_ok E (pr_recipient v) \<and> seg_at bs off (pending_enc v) off'"
  by (cases v)
    (simp add: pending_dec_def result_simps prim_laws [OF small] pending_enc_def seg_at_append, blast)

interpretation pending_codec: codec pending_enc "pending_dec E" "\<lambda>p. address_ok E (pr_recipient p)" for E
  by unfold_locales (simp add: pending_dec_law)

text \<open>The ledger a snapshot's entries rebuild.\<close>

definition rebuild_accounts :: "prims \<Rightarrow> (address \<times> account) list \<Rightarrow> ledger \<Rightarrow> ledger" where
  "rebuild_accounts E = fold (\<lambda>(a, acc). set_account E a acc)"

definition rebuild_rewards :: "prims \<Rightarrow> ((u64 \<times> address) \<times> u64) list \<Rightarrow> ledger \<Rightarrow> ledger" where
  "rebuild_rewards E = fold (\<lambda>((m, a), x). put_reward E m a x)"

definition above :: "'k::linorder option \<Rightarrow> 'k list \<Rightarrow> bool" where
  "above previous ks \<longleftrightarrow> sorted_wrt (<) ks \<and> (\<forall>p. previous = Some p \<longrightarrow> (\<forall>k \<in> set ks. p < k))"

lemma above_Cons:
  "above previous (k # ks) \<longleftrightarrow> \<not> (case previous of Some p \<Rightarrow> p \<ge> k | None \<Rightarrow> False) \<and> above (Some k) ks"
  by (cases previous) (auto simp: above_def not_le intro: less_trans)

lemma above_Nil [simp]: "above previous []"
  by (simp add: above_def)

lemma dec_accounts_complete:
  assumes small: "length bs < 2 ^ 64"
  shows "above previous (map fst xs) \<Longrightarrow> (\<And>a acc. (a, acc) \<in> set xs \<Longrightarrow> account_entry_ok E a acc)
    \<Longrightarrow> seg_at bs off (concat (map account_entry_enc xs)) off'
    \<Longrightarrow> dec_accounts E (length xs) previous s bs off = Inr (rebuild_accounts E xs s, off')"
proof (induction xs arbitrary: previous s off)
  case (Cons x xs)
  obtain a acc where x: "x = (a, acc)" by force
  obtain o1 o2 where seg: "seg_at bs off (address_enc a) o1" "seg_at bs o1 (account_enc acc) o2"
    "seg_at bs o2 (concat (map account_entry_enc xs)) off'"
    using Cons.prems(3) by (auto simp: x account_entry_enc_def seg_at_append)
  have ok: "address_ok E a" "acc \<noteq> account_default" "ac_balance acc \<le> MAX_MONEY"
    using Cons.prems(2) [of a acc] by (simp_all add: x account_entry_ok_def)
  have ab: "\<not> (case previous of Some p \<Rightarrow> p \<ge> a | None \<Rightarrow> False)" "above (Some a) (map fst xs)"
    using Cons.prems(1) by (simp_all add: x above_Cons)
  have d: "address_dec E bs off = Inr (a, o1)" "account_dec bs o1 = Inr (acc, o2)"
    using seg ok by (simp_all add: address_dec_law [OF small] account_dec_law [OF small])
  have "dec_accounts E (length xs) (Some a) (set_account E a acc s) bs o2
      = Inr (rebuild_accounts E xs (set_account E a acc s), off')"
    by (rule Cons.IH [OF ab(2) _ seg(3)]) (rule Cons.prems(2), simp)
  then show ?case using ab(1) ok by (simp add: x d rebuild_accounts_def)
qed (auto simp: seg_at_Nil rebuild_accounts_def)

lemma dec_accounts_sound:
  assumes small: "length bs < 2 ^ 64"
  shows "off \<le> length bs \<Longrightarrow> dec_accounts E n previous s bs off = Inr (s', off') \<Longrightarrow>
    \<exists>xs. length xs = n \<and> above previous (map fst xs)
      \<and> (\<forall>a acc. (a, acc) \<in> set xs \<longrightarrow> account_entry_ok E a acc)
      \<and> seg_at bs off (concat (map account_entry_enc xs)) off' \<and> s' = rebuild_accounts E xs s"
proof (induction n arbitrary: previous s off)
  case 0
  then show ?case by (auto simp: seg_at_Nil rebuild_accounts_def)
next
  case (Suc n)
  obtain a o1 acc o2 where d: "address_ok E a" "seg_at bs off (address_enc a) o1"
      "seg_at bs o1 (account_enc acc) o2"
    and c: "\<not> (case previous of Some p \<Rightarrow> p \<ge> a | None \<Rightarrow> False)"
      "acc \<noteq> account_default" "ac_balance acc \<le> MAX_MONEY"
    and r: "dec_accounts E n (Some a) (set_account E a acc s) bs o2 = Inr (s', off')"
    using Suc.prems(2)
    by (auto simp: result_simps address_dec_law [OF small] account_dec_law [OF small])
  from Suc.IH [OF seg_at_le [OF d(3)] r] obtain xs where xs: "length xs = n"
    "above (Some a) (map fst xs)" "\<forall>a acc. (a, acc) \<in> set xs \<longrightarrow> account_entry_ok E a acc"
    "seg_at bs o2 (concat (map account_entry_enc xs)) off'"
    "s' = rebuild_accounts E xs (set_account E a acc s)" by blast
  have "seg_at bs off (concat (map account_entry_enc ((a, acc) # xs))) off'"
    using d(2,3) xs(4) by (auto simp: account_entry_enc_def seg_at_append)
  with d(1) c xs show ?case
    by (intro exI [of _ "(a, acc) # xs"])
      (simp add: above_Cons account_entry_ok_def rebuild_accounts_def)
qed

lemma schedule_fresh:
  assumes "map_of (led_pending s) (m, a) = None" and "x \<noteq> 0" and "x \<le> MAX_MONEY"
  shows "schedule_reward E m a x s = Inr (put_reward E m a x s)"
proof -
  have "unat x < 2 ^ 64" using unat_bound [of x] by simp
  then show ?thesis
    using assms by (simp add: schedule_reward_def checked_add_def opt_filter_def)
qed

lemma pending_put_reward [simp]: "led_pending (put_reward E m a x s) = smap_insert (m, a) x (led_pending s)"
  by (simp add: put_reward_def)

text \<open>Every key already present is at most the previous one.\<close>

definition below :: "'k::linorder option \<Rightarrow> 'k set \<Rightarrow> bool" where
  "below previous ks \<longleftrightarrow> (case previous of None \<Rightarrow> ks = {} | Some p \<Rightarrow> \<forall>k \<in> ks. k \<le> p)"

lemma below_fresh:
  "below previous (dom m) \<Longrightarrow> \<not> (case previous of Some p \<Rightarrow> p \<ge> k | None \<Rightarrow> False) \<Longrightarrow> m k = None"
  by (cases previous) (auto simp: below_def dom_def)

lemma below_insert:
  "below previous (dom m) \<Longrightarrow> \<not> (case previous of Some p \<Rightarrow> p \<ge> k | None \<Rightarrow> False) \<Longrightarrow>
   below (Some k) (dom (m(k \<mapsto> v)))"
  by (cases previous) (auto simp: below_def not_le intro: order_trans less_imp_le)

lemma dec_rewards_step:
  assumes small: "length bs < 2 ^ 64" and b: "below previous (dom (map_of (led_pending s)))"
  shows "dec_rewards E (Suc n) previous s bs off = Inr (s', off') \<longleftrightarrow>
    (\<exists>m a x o1. reward_entry_ok E (m, a) x \<and> seg_at bs off (reward_entry_enc ((m, a), x)) o1
      \<and> \<not> (case previous of Some p \<Rightarrow> p \<ge> (m, a) | None \<Rightarrow> False)
      \<and> dec_rewards E n (Some (m, a)) (put_reward E m a x s) bs o1 = Inr (s', off'))"
    (is "?L \<longleftrightarrow> ?R")
proof
  assume ?L
  then obtain r o1 s1 where r: "address_ok E (pr_recipient r)" "seg_at bs off (pending_enc r) o1"
    and c: "\<not> (case previous of Some p \<Rightarrow> p \<ge> (pr_maturity_height r, pr_recipient r) | None \<Rightarrow> False)"
      "pr_amount r \<noteq> 0" "pr_amount r \<le> MAX_MONEY"
    and s: "schedule_reward E (pr_maturity_height r) (pr_recipient r) (pr_amount r) s = Inr s1"
      "dec_rewards E n (Some (pr_maturity_height r, pr_recipient r)) s1 bs o1 = Inr (s', off')"
    by (auto simp: result_simps pending_dec_law [OF small] Let_def)
  have "s1 = put_reward E (pr_maturity_height r) (pr_recipient r) (pr_amount r) s"
    using s(1) schedule_fresh [OF below_fresh [OF b c(1)] c(2,3)] by simp
  moreover obtain m a x where "r = \<lparr>pr_maturity_height = m, pr_recipient = a, pr_amount = x\<rparr>"
    by (cases r)
  ultimately have "reward_entry_ok E (m, a) x \<and> seg_at bs off (reward_entry_enc ((m, a), x)) o1
      \<and> \<not> (case previous of Some p \<Rightarrow> p \<ge> (m, a) | None \<Rightarrow> False)
      \<and> dec_rewards E n (Some (m, a)) (put_reward E m a x s) bs o1 = Inr (s', off')"
    using r c s(2) by (cases previous; simp add: reward_entry_ok_def reward_entry_enc_def)
  then show ?R by blast
next
  assume ?R
  then obtain m a x o1 where r: "reward_entry_ok E (m, a) x"
    "seg_at bs off (reward_entry_enc ((m, a), x)) o1"
    "\<not> (case previous of Some p \<Rightarrow> p \<ge> (m, a) | None \<Rightarrow> False)"
    "dec_rewards E n (Some (m, a)) (put_reward E m a x s) bs o1 = Inr (s', off')" by blast
  have ok: "address_ok E a" "x \<noteq> 0" "x \<le> MAX_MONEY"
    using r(1) by (simp_all add: reward_entry_ok_def)
  have "pending_dec E bs off = Inr (\<lparr>pr_maturity_height = m, pr_recipient = a, pr_amount = x\<rparr>, o1)"
    using r(2) ok by (simp add: pending_dec_law [OF small] reward_entry_enc_def)
  then show ?L
    using r(3,4) ok schedule_fresh [OF below_fresh [OF b r(3)] ok(2,3)]
    by (cases previous; simp add: Let_def not_less)
qed

lemma dec_rewards_complete:
  assumes small: "length bs < 2 ^ 64"
  shows "above previous (map fst xs) \<Longrightarrow> (\<And>k x. (k, x) \<in> set xs \<Longrightarrow> reward_entry_ok E k x)
    \<Longrightarrow> below previous (dom (map_of (led_pending s)))
    \<Longrightarrow> seg_at bs off (concat (map reward_entry_enc xs)) off'
    \<Longrightarrow> dec_rewards E (length xs) previous s bs off = Inr (rebuild_rewards E xs s, off')"
proof (induction xs arbitrary: previous s off)
  case (Cons y xs)
  obtain m a x where y: "y = ((m, a), x)" by (metis surj_pair)
  obtain o1 where seg: "seg_at bs off (reward_entry_enc ((m, a), x)) o1"
    "seg_at bs o1 (concat (map reward_entry_enc xs)) off'"
    using Cons.prems(4) by (auto simp: y seg_at_append)
  have ab: "\<not> (case previous of Some p \<Rightarrow> p \<ge> (m, a) | None \<Rightarrow> False)" "above (Some (m, a)) (map fst xs)"
    using Cons.prems(1) by (simp_all add: y above_Cons)
  have b: "below (Some (m, a)) (dom (map_of (led_pending (put_reward E m a x s))))"
    using below_insert [OF Cons.prems(3) ab(1)] by simp
  have "dec_rewards E (length xs) (Some (m, a)) (put_reward E m a x s) bs o1
      = Inr (rebuild_rewards E xs (put_reward E m a x s), off')"
    by (rule Cons.IH [OF ab(2) _ b seg(2)]) (rule Cons.prems(2), simp)
  moreover have "reward_entry_ok E (m, a) x" using Cons.prems(2) by (simp add: y)
  ultimately have "dec_rewards E (Suc (length xs)) previous s bs off
      = Inr (rebuild_rewards E xs (put_reward E m a x s), off')"
    using seg(1) ab(1) unfolding dec_rewards_step [OF small Cons.prems(3)] by blast
  then show ?case by (simp add: y rebuild_rewards_def del: dec_rewards.simps)
qed (auto simp: seg_at_Nil rebuild_rewards_def)

lemma dec_rewards_sound:
  assumes small: "length bs < 2 ^ 64"
  shows "off \<le> length bs \<Longrightarrow> below previous (dom (map_of (led_pending s)))
    \<Longrightarrow> dec_rewards E n previous s bs off = Inr (s', off') \<Longrightarrow>
    \<exists>xs. length xs = n \<and> above previous (map fst xs)
      \<and> (\<forall>k x. (k, x) \<in> set xs \<longrightarrow> reward_entry_ok E k x)
      \<and> seg_at bs off (concat (map reward_entry_enc xs)) off' \<and> s' = rebuild_rewards E xs s"
proof (induction n arbitrary: previous s off)
  case 0
  then show ?case by (auto simp: seg_at_Nil rebuild_rewards_def)
next
  case (Suc n)
  obtain m a x o1 where r: "reward_entry_ok E (m, a) x"
    "seg_at bs off (reward_entry_enc ((m, a), x)) o1"
    "\<not> (case previous of Some p \<Rightarrow> p \<ge> (m, a) | None \<Rightarrow> False)"
    "dec_rewards E n (Some (m, a)) (put_reward E m a x s) bs o1 = Inr (s', off')"
    using Suc.prems(3) unfolding dec_rewards_step [OF small Suc.prems(2)] by blast
  have "below (Some (m, a)) (dom (map_of (led_pending (put_reward E m a x s))))"
    using below_insert [OF Suc.prems(2) r(3)] by simp
  from Suc.IH [OF seg_at_le [OF r(2)] this r(4)] obtain xs where xs: "length xs = n"
    "above (Some (m, a)) (map fst xs)" "\<forall>k x. (k, x) \<in> set xs \<longrightarrow> reward_entry_ok E k x"
    "seg_at bs o1 (concat (map reward_entry_enc xs)) off'"
    "s' = rebuild_rewards E xs (put_reward E m a x s)" by blast
  have "seg_at bs off (concat (map reward_entry_enc (((m, a), x) # xs))) off'"
    using r(2) xs(4) by (auto simp: seg_at_append)
  moreover have "\<forall>k z. (k, z) \<in> set (((m, a), x) # xs) \<longrightarrow> reward_entry_ok E k z"
    using r(1) xs(3) by auto
  moreover have "above previous (map fst (((m, a), x) # xs))"
    using r(3) xs(2) by (simp add: above_Cons)
  ultimately show ?case using xs(1,5)
    by (intro exI [of _ "((m, a), x) # xs"]) (simp add: rebuild_rewards_def)
qed

lemma above_None: "above None ks \<longleftrightarrow> sorted_wrt (<) ks"
  by (simp add: above_def)

lemma smap_insert_last:
  "\<forall>k' \<in> fst ` set m. k' < k \<Longrightarrow> smap_insert k v m = m @ [(k, v)]"
  by (induction k v m rule: smap_insert.induct) auto

lemma rebuild_accounts_lists:
  assumes "sorted_wrt (<) (map fst (led_accounts s @ xs))" and "\<forall>(a, acc) \<in> set xs. acc \<noteq> account_default"
  shows "led_accounts (rebuild_accounts E xs s) = led_accounts s @ xs"
    "led_pending (rebuild_accounts E xs s) = led_pending s"
proof -
  have "led_accounts (rebuild_accounts E xs s) = led_accounts s @ xs
      \<and> led_pending (rebuild_accounts E xs s) = led_pending s"
    using assms
  proof (induction xs arbitrary: s)
    case (Cons x xs)
    obtain a acc where x: "x = (a, acc)" by force
    have "led_accounts (set_account E a acc s) = led_accounts s @ [(a, acc)]"
      using Cons.prems by (simp add: x set_account_def Let_def smap_insert_last sorted_wrt_append)
    then show ?case using Cons.IH [of "set_account E a acc s"] Cons.prems
      by (simp add: x rebuild_accounts_def)
  qed (simp add: rebuild_accounts_def)
  then show "led_accounts (rebuild_accounts E xs s) = led_accounts s @ xs"
    "led_pending (rebuild_accounts E xs s) = led_pending s" by simp_all
qed

lemma rebuild_rewards_lists:
  assumes "sorted_wrt (<) (map fst (led_pending s @ xs))"
  shows "led_pending (rebuild_rewards E xs s) = led_pending s @ xs"
    "led_accounts (rebuild_rewards E xs s) = led_accounts s"
proof -
  have "led_pending (rebuild_rewards E xs s) = led_pending s @ xs
      \<and> led_accounts (rebuild_rewards E xs s) = led_accounts s"
    using assms
  proof (induction xs arbitrary: s)
    case (Cons x xs)
    obtain m a y where x: "x = ((m, a), y)" by (metis surj_pair)
    have "led_pending (put_reward E m a y s) = led_pending s @ [((m, a), y)]"
      using Cons.prems by (simp add: x smap_insert_last sorted_wrt_append del: less_prod_simp)
    then show ?case using Cons.IH [of "put_reward E m a y s"] Cons.prems
      by (simp add: x rebuild_rewards_def)
  qed (simp add: rebuild_rewards_def)
  then show "led_pending (rebuild_rewards E xs s) = led_pending s @ xs"
    "led_accounts (rebuild_rewards E xs s) = led_accounts s" by simp_all
qed

definition rebuild :: "prims \<Rightarrow> ledger \<Rightarrow> ledger" where
  "rebuild E s = rebuild_rewards E (led_pending s) (rebuild_accounts E (led_accounts s) (ledger_default E))"

text \<open>The ledgers a snapshot can hold: valid sorted entries within the counts, and the tree they
  rebuild.\<close>

definition ledger_wf :: "prims \<Rightarrow> ledger \<Rightarrow> bool" where
  "ledger_wf E s \<longleftrightarrow> ledger_ok E s \<and> rebuild E s = s
     \<and> length (led_accounts s) \<le> 2000000 \<and> length (led_pending s) \<le> 4000000"

lemma rebuild_ok:
  assumes "sorted_wrt (<) (map fst xs)" "\<forall>a acc. (a, acc) \<in> set xs \<longrightarrow> account_entry_ok E a acc"
    and "sorted_wrt (<) (map fst ys)" "\<forall>k x. (k, x) \<in> set ys \<longrightarrow> reward_entry_ok E k x"
  defines "s \<equiv> rebuild_rewards E ys (rebuild_accounts E xs (ledger_default E))"
  shows "ledger_ok E s" "led_accounts s = xs" "led_pending s = ys"
proof -
  let ?a = "rebuild_accounts E xs (ledger_default E)"
  have d: "led_accounts (ledger_default E) = []" "led_pending (ledger_default E) = []"
    by (simp_all add: ledger_default_def)
  have a: "led_accounts ?a = xs" "led_pending ?a = []"
    using rebuild_accounts_lists [of "ledger_default E" xs E] assms(1,2) d
    by (auto simp: account_entry_ok_def)
  show s: "led_accounts s = xs" "led_pending s = ys"
    using rebuild_rewards_lists [of ?a ys E] assms(3) a by (simp_all add: s_def)
  have t: "smt_ok E (led_tree (rebuild_accounts E xs s0))" if "smt_ok E (led_tree s0)" for s0
    using that
  proof (induction xs arbitrary: s0)
    case (Cons x xs)
    obtain a acc where x: "x = (a, acc)" by force
    have "smt_ok E (led_tree (set_account E a acc s0))"
      using Cons.prems by (simp add: set_account_def Let_def smt_update_ok)
    from Cons.IH [OF this] show ?case by (simp add: x rebuild_accounts_def)
  qed (simp add: rebuild_accounts_def)
  have u: "smt_ok E (led_tree (rebuild_rewards E ys s0))" if "smt_ok E (led_tree s0)" for s0
    using that
  proof (induction ys arbitrary: s0)
    case (Cons y ys)
    obtain m a x where y: "y = ((m, a), x)" by (metis surj_pair)
    have "smt_ok E (led_tree (put_reward E m a x s0))"
      using Cons.prems by (simp add: put_reward_def smt_update_ok)
    from Cons.IH [OF this] show ?case by (simp add: y rebuild_rewards_def)
  qed (simp add: rebuild_rewards_def)
  have "smt_ok E (led_tree s)"
    unfolding s_def by (intro u t) (simp add: ledger_default_def smt_default_ok)
  moreover have "smap_ok xs" "smap_ok ys" using assms(1,3) by (simp_all add: smap_ok_def)
  ultimately show "ledger_ok E s"
    using assms(2,4) s by (intro ledger_okI) (auto dest: map_of_SomeD)
qed

lemma ledger_wfD:
  assumes "ledger_wf E s"
  shows "sorted_wrt (<) (map fst (led_accounts s))" "sorted_wrt (<) (map fst (led_pending s))"
    "(a, acc) \<in> set (led_accounts s) \<Longrightarrow> account_entry_ok E a acc"
    "(k, x) \<in> set (led_pending s) \<Longrightarrow> reward_entry_ok E k x"
proof -
  have ok: "ledger_ok E s" using assms by (simp add: ledger_wf_def)
  then have m: "smap_ok (led_accounts s)" "smap_ok (led_pending s)" by simp_all
  then show "sorted_wrt (<) (map fst (led_accounts s))" "sorted_wrt (<) (map fst (led_pending s))"
    by (simp_all add: smap_ok_def)
  show "(a, acc) \<in> set (led_accounts s) \<Longrightarrow> account_entry_ok E a acc"
    using m by (simp add: smap_set_iff ledger_okD(1) [OF ok])
  show "(k, x) \<in> set (led_pending s) \<Longrightarrow> reward_entry_ok E k x"
    using m by (cases k) (simp add: smap_set_iff ledger_okD(2) [OF ok])
qed

lemma ledger_dec_law:
  assumes small: "length bs < 2 ^ 64"
  shows "ledger_dec E bs off = Inr (s, off') \<longleftrightarrow> ledger_wf E s \<and> seg_at bs off (ledger_enc s) off'"
proof
  assume "ledger_dec E bs off = Inr (s, off')"
  then obtain o1 na o2 s1 o3 nr o4 o5 where
    d: "seg_at bs off (put_u16 SNAPSHOT_VERSION) o1" "get_vector_len 2000000 bs o1 = Inr (na, o2)"
      "dec_accounts E na None (ledger_default E) bs o2 = Inr (s1, o3)"
      "get_vector_len 4000000 bs o3 = Inr (nr, o4)"
      "dec_rewards E nr None s1 bs o4 = Inr (s, o5)" "seg_at bs o5 (hash_enc (ledger_root s)) off'"
    by (auto simp: ledger_dec_def result_simps u16_codec.law [OF small] hash_codec.law [OF small])
  have n: "na \<le> 2000000" "seg_at bs o1 (put_u32 (word_of_nat na)) o2"
    "nr \<le> 4000000" "seg_at bs o3 (put_u32 (word_of_nat nr)) o4"
    using d(2,4) by (simp_all add: get_vector_len_law [OF small])
  obtain xs where xs: "length xs = na" "sorted_wrt (<) (map fst xs)"
    "\<forall>a acc. (a, acc) \<in> set xs \<longrightarrow> account_entry_ok E a acc"
    "seg_at bs o2 (concat (map account_entry_enc xs)) o3" "s1 = rebuild_accounts E xs (ledger_default E)"
    using dec_accounts_sound [OF small seg_at_le [OF n(2)] d(3)] by (auto simp: above_None)
  have "led_pending s1 = []"
    using rebuild_accounts_lists [of "ledger_default E" xs E] xs(2,3,5)
    by (auto simp: ledger_default_def account_entry_ok_def)
  then have "below None (dom (map_of (led_pending s1)))" by (simp add: below_def)
  from dec_rewards_sound [OF small seg_at_le [OF n(4)] this d(5)]
  obtain ys where ys: "length ys = nr" "sorted_wrt (<) (map fst ys)"
    "\<forall>k x. (k, x) \<in> set ys \<longrightarrow> reward_entry_ok E k x"
    "seg_at bs o4 (concat (map reward_entry_enc ys)) o5" "s = rebuild_rewards E ys s1"
    by (auto simp: above_None)
  note r = rebuild_ok [OF xs(2,3) ys(2,3)]
  have s: "ledger_ok E s" "led_accounts s = xs" "led_pending s = ys"
    using r by (simp_all add: ys(5) xs(5))
  have "ledger_wf E s"
    unfolding ledger_wf_def using s xs(1,5) ys(1,5) n(1,3) by (simp add: rebuild_def)
  moreover have "seg_at bs off (ledger_enc s) off'"
    using d(1,6) n(2,4) xs(1,4) ys(1,4) unfolding ledger_enc_def put_list_def s
    by (simp add: seg_at_append) blast
  ultimately show "ledger_wf E s \<and> seg_at bs off (ledger_enc s) off'" ..
next
  assume *: "ledger_wf E s \<and> seg_at bs off (ledger_enc s) off'"
  then have wf: "ledger_wf E s" by simp
  note w = ledger_wfD [OF wf]
  obtain o1 o2 o3 o4 o5 where
    d: "seg_at bs off (put_u16 SNAPSHOT_VERSION) o1"
      "seg_at bs o1 (put_u32 (word_of_nat (length (led_accounts s)))) o2"
      "seg_at bs o2 (concat (map account_entry_enc (led_accounts s))) o3"
      "seg_at bs o3 (put_u32 (word_of_nat (length (led_pending s)))) o4"
      "seg_at bs o4 (concat (map reward_entry_enc (led_pending s))) o5"
      "seg_at bs o5 (hash_enc (ledger_root s)) off'"
    using * by (auto simp: ledger_enc_def put_list_def seg_at_append)
  let ?s1 = "rebuild_accounts E (led_accounts s) (ledger_default E)"
  have a: "dec_accounts E (length (led_accounts s)) None (ledger_default E) bs o2 = Inr (?s1, o3)"
    using w by (intro dec_accounts_complete [OF small _ _ d(3)]) (simp_all add: above_None)
  have "led_pending ?s1 = []"
    using rebuild_accounts_lists [of "ledger_default E" "led_accounts s" E] w
    by (auto simp: ledger_default_def account_entry_ok_def)
  then have b: "below None (dom (map_of (led_pending ?s1)))" by (simp add: below_def)
  have "dec_rewards E (length (led_pending s)) None ?s1 bs o4
      = Inr (rebuild_rewards E (led_pending s) ?s1, o5)"
    using w by (intro dec_rewards_complete [OF small _ _ b d(5)]) (simp_all add: above_None)
  moreover have "rebuild_rewards E (led_pending s) ?s1 = s"
    using wf by (simp add: ledger_wf_def rebuild_def)
  moreover have "get_u16 bs off = Inr (SNAPSHOT_VERSION, o1)"
    "get_vector_len 2000000 bs o1 = Inr (length (led_accounts s), o2)"
    "get_vector_len 4000000 bs o3 = Inr (length (led_pending s), o4)"
    "hash_dec bs o5 = Inr (ledger_root s, off')"
    using d wf by (simp_all add: u16_codec.law [OF small] hash_codec.law [OF small]
        get_vector_len_law [OF small] ledger_wf_def)
  ultimately show "ledger_dec E bs off = Inr (s, off')" using a by (simp add: ledger_dec_def)
qed

interpretation ledger_codec: codec ledger_enc "ledger_dec E" "ledger_wf E" for E
  by unfold_locales (simp add: ledger_dec_law)

text \<open>Without hash collisions every ledger whose tree mirrors it is one a snapshot can hold.\<close>

lemma rebuild_accounts_tree:
  assumes "inj_on (state_key_hash E) K"
  shows "ledger_ok E s \<Longrightarrow> tree_ok E K s \<Longrightarrow> (\<And>a acc. (a, acc) \<in> set xs \<Longrightarrow>
      KeyAccount a \<in> K \<and> account_entry_ok E a acc) \<Longrightarrow>
    ledger_ok E (rebuild_accounts E xs s) \<and> tree_ok E K (rebuild_accounts E xs s)"
proof (induction xs arbitrary: s)
  case (Cons x xs)
  obtain a acc where x: "x = (a, acc)" by force
  have k: "KeyAccount a \<in> K" "account_entry_ok E a acc" using Cons.prems(3) [of a acc] by (simp_all add: x)
  have "ledger_ok E (set_account E a acc s)" "tree_ok E K (set_account E a acc s)"
    using k Cons.prems(1,2) tree_set_account [OF assms] by (simp_all add: account_entry_ok_def)
  then have "ledger_ok E (rebuild_accounts E xs (set_account E a acc s))
      \<and> tree_ok E K (rebuild_accounts E xs (set_account E a acc s))"
    by (rule Cons.IH) (rule Cons.prems(3), simp)
  then show ?case by (simp add: x rebuild_accounts_def)
qed (simp add: rebuild_accounts_def)

lemma rebuild_rewards_tree:
  assumes "inj_on (state_key_hash E) K"
  shows "ledger_ok E s \<Longrightarrow> tree_ok E K s \<Longrightarrow> (\<And>m a x. ((m, a), x) \<in> set xs \<Longrightarrow>
      KeyPending m a \<in> K \<and> reward_entry_ok E (m, a) x) \<Longrightarrow>
    ledger_ok E (rebuild_rewards E xs s) \<and> tree_ok E K (rebuild_rewards E xs s)"
proof (induction xs arbitrary: s)
  case (Cons y xs)
  obtain m a x where y: "y = ((m, a), x)" by (metis surj_pair)
  have k: "KeyPending m a \<in> K" "reward_entry_ok E (m, a) x" using Cons.prems(3) [of m a x] by (simp_all add: y)
  have "ledger_ok E (put_reward E m a x s)" "tree_ok E K (put_reward E m a x s)"
    using k Cons.prems(1,2) tree_put_reward [OF assms] put_reward_ok by (simp_all add: reward_entry_ok_def)
  then have "ledger_ok E (rebuild_rewards E xs (put_reward E m a x s))
      \<and> tree_ok E K (rebuild_rewards E xs (put_reward E m a x s))"
    by (rule Cons.IH) (rule Cons.prems(3), simp)
  then show ?case by (simp add: y rebuild_rewards_def)
qed (simp add: rebuild_rewards_def)

lemma contents_in_K:
  assumes "tree_ok E K s"
  shows "map_of (led_accounts s) a = Some acc \<Longrightarrow> KeyAccount a \<in> K"
    "map_of (led_pending s) (m, a) = Some x \<Longrightarrow> KeyPending m a \<in> K"
  using assms by (auto simp: tree_ok_def ledger_contents_def dom_def subset_iff)

lemma ledger_wfI:
  assumes inj: "inj_on (state_key_hash E) K" and ok: "ledger_ok E s" and t: "tree_ok E K s"
    and "length (led_accounts s) \<le> 2000000" "length (led_pending s) \<le> 4000000"
  shows "ledger_wf E s"
proof -
  have m: "smap_ok (led_accounts s)" "smap_ok (led_pending s)" using ok by simp_all
  have acc: "KeyAccount a \<in> K \<and> account_entry_ok E a acc" if "(a, acc) \<in> set (led_accounts s)" for a acc
    using that m ledger_okD(1) [OF ok] contents_in_K(1) [OF t] by (simp add: smap_set_iff)
  have rew: "KeyPending m a \<in> K \<and> reward_entry_ok E (m, a) x"
    if "((m, a), x) \<in> set (led_pending s)" for m a x
    using that m ledger_okD(2) [OF ok] contents_in_K(2) [OF t] by (simp add: smap_set_iff)
  let ?a = "rebuild_accounts E (led_accounts s) (ledger_default E)"
  have a: "ledger_ok E ?a \<and> tree_ok E K ?a"
    by (rule rebuild_accounts_tree [OF inj]) (simp_all add: tree_default acc)
  then have b: "ledger_ok E (rebuild E s) \<and> tree_ok E K (rebuild E s)"
    unfolding rebuild_def by (intro rebuild_rewards_tree [OF inj]) (simp_all add: rew)
  have accs: "\<forall>a acc. (a, acc) \<in> set (led_accounts s) \<longrightarrow> account_entry_ok E a acc"
    using acc by blast
  have rews: "\<forall>k x. (k, x) \<in> set (led_pending s) \<longrightarrow> reward_entry_ok E k x"
    using rew by fast
  have srt: "sorted_wrt (<) (map fst (led_accounts s))" "sorted_wrt (<) (map fst (led_pending s))"
    using m by (simp_all add: smap_ok_def)
  have "led_accounts (rebuild E s) = led_accounts s" "led_pending (rebuild E s) = led_pending s"
    unfolding rebuild_def by (intro rebuild_ok [OF srt(1) accs srt(2) rews])+
  then have "rebuild E s = s" using tree_determined [of E "rebuild E s" s K] b ok t by simp
  then show ?thesis using assms by (simp add: ledger_wf_def)
qed

section \<open>The state root\<close>

lemma mirrors_determined:
  assumes "mirrors E t c" "mirrors E t c'" "dom c \<subseteq> K" "dom c' \<subseteq> K" "inj_on (state_key_hash E) K"
  shows "c = c'"
proof
  have sub: "d k = Some v"
    if m: "mirrors E t d'" "mirrors E t d" "dom d' \<subseteq> K" "dom d \<subseteq> K" and v: "d' k = Some v" for d d' k v
  proof -
    obtain k' where k': "d k' = Some v" "state_key_hash E k' = state_key_hash E k"
      using mirrorsD(2) [OF m(2) mirrorsD(1) [OF m(1) v]] by blast
    then have "k' = k" using m(3,4) v assms(5) by (auto dest: inj_onD)
    then show ?thesis using k' by simp
  qed
  fix k
  show "c k = c' k"
    using sub [OF assms(1,2,3,4)] sub [OF assms(2,1,4,3)] by (metis not_None_eq)
qed

lemma entry_enc_inject:
  "account_enc a = account_enc b \<Longrightarrow> a = b"
  "reward_entry_enc (k, x) = reward_entry_enc (k, y) \<Longrightarrow> x = y"
proof -
  assume "account_enc a = account_enc b"
  then have "put_u64 (ac_balance a) @ put_u64 (ac_nonce a) = put_u64 (ac_balance b) @ put_u64 (ac_nonce b)"
    by (simp only: account_enc_def)
  then show "a = b" by (cases a; cases b) simp
next
  assume "reward_entry_enc (k, x) = reward_entry_enc (k, y)"
  then show "x = y" by (cases k) (simp add: reward_entry_enc_def pending_enc_def)
qed

lemma contents_determine:
  assumes "ledger_ok E s" "ledger_ok E s'" "ledger_contents s = ledger_contents s'"
  shows "led_accounts s = led_accounts s'" "led_pending s = led_pending s'"
proof -
  have "map_option account_enc (map_of (led_accounts s) a)
      = map_option account_enc (map_of (led_accounts s') a)" for a
    using fun_cong [OF assms(3), of "KeyAccount a"] by (simp add: ledger_contents_def)
  then have "map_of (led_accounts s) a = map_of (led_accounts s') a" for a
    by (rule injD [OF option.inj_map, rotated]) (rule injI, erule entry_enc_inject)
  then have "map_of (led_accounts s) = map_of (led_accounts s')" by (rule ext)
  then show "led_accounts s = led_accounts s'"
    using assms(1,2) by (intro smap_extensional) (simp_all only: ledger_ok_def)
  have "map_option (\<lambda>x. reward_entry_enc ((m, a), x)) (map_of (led_pending s) (m, a))
      = map_option (\<lambda>x. reward_entry_enc ((m, a), x)) (map_of (led_pending s') (m, a))" for m a
    using fun_cong [OF assms(3), of "KeyPending m a"] by (simp add: ledger_contents_def)
  then have p: "map_of (led_pending s) (m, a) = map_of (led_pending s') (m, a)" for m a
    by (rule injD [OF option.inj_map, rotated]) (rule injI, erule entry_enc_inject)
  have "map_of (led_pending s) k = map_of (led_pending s') k" for k
    using p [of "fst k" "snd k"] by (simp only: prod.collapse)
  then have "map_of (led_pending s) = map_of (led_pending s')" by (rule ext)
  then show "led_pending s = led_pending s'"
    using assms(1,2) by (intro smap_extensional) (simp_all only: ledger_ok_def)
qed

text \<open>Within a set of keys with distinct hashes a root fixes the ledger, unless the hash collides.\<close>

lemma ledger_root_binding:
  assumes "ledger_ok E s" "ledger_ok E s'" "tree_ok E K s" "tree_ok E K s'"
    and inj: "inj_on (state_key_hash E) K"
    and "ledger_root s = ledger_root s'"
    and "\<not> smt_collision E (smt_get (led_tree s)) (smt_get (led_tree s'))"
  shows "led_accounts s = led_accounts s' \<and> led_pending s = led_pending s'"
proof -
  have ok: "smt_ok E (led_tree s)" "smt_ok E (led_tree s')"
    using assms(1,2) by (simp_all only: ledger_ok_def)
  have "smt_root (led_tree s) = smt_root (led_tree s')" using assms(6) by (simp only: ledger_root_def)
  then have "led_tree s = led_tree s'" using smt_root_binding [OF ok] assms(7) by blast
  then have "ledger_contents s = ledger_contents s'"
    using assms(3,4,5) mirrors_determined [of E "led_tree s" "ledger_contents s" "ledger_contents s'" K]
    by (simp only: tree_ok_def)
  then show ?thesis using contents_determine [OF assms(1,2)] by blast
qed

end
