(* ===== verification/Rewards.thy ===== *)
theory Rewards
  imports Ledger "HOL-Library.Multiset"
begin

text \<open>
  \<open>src/consensus/rewards.rs\<close>: the split of a block's subsidy and fees between the finder and the
  miners of the workshares in the reward window.  \<open>U512\<close> values are 512-bit words; the
  product \<open>pool * weight\<close>, which panics in Rust when it overflows, is the wrapping product here,
  and lemma \<open>allocation_exact\<close> shows that it does not overflow for any window that fits a machine.
\<close>

record reward_split =
  ra_finder_amount :: u64
  ra_workshare_rewards :: "(address \<times> u64) list"

definition allocation_total :: "reward_split \<Rightarrow> u64" where
  "allocation_total r =
     fold (\<lambda>(a, amount) total. total + amount) (ra_workshare_rewards r) (ra_finder_amount r)"

definition workshare_weight :: "u32 \<Rightarrow> consensus_error + u256" where
  "workshare_weight block_bits =
     rbind (ok_or (workshare_bits block_bits) InvalidTarget) (\<lambda>bits.
     rbind (ok_or (bits_to_target bits) InvalidTarget) (\<lambda>target.
       Inr (target_work target)))"

definition add_share_weight ::
    "(address, u512) smap \<Rightarrow> workshare \<Rightarrow> consensus_error + (address, u512) smap" where
  "add_share_weight weights share =
     rbind (ok_or (workshare_bits (bh_bits (ws_candidate_header share))) InvalidTarget) (\<lambda>share_bits.
     rbind (ok_or (bits_to_target share_bits) InvalidTarget) (\<lambda>target.
       let weight = ucast (target_work target);
           entry = (case smap_get weights (ws_miner share) of Some w \<Rightarrow> w | None \<Rightarrow> 0)
       in Inr (smap_insert (ws_miner share) (saturating_add entry weight) weights)))"

definition collect_weights :: "block list \<Rightarrow> consensus_error + (address, u512) smap" where
  "collect_weights blocks =
     try_fold (\<lambda>weights b. try_fold add_share_weight weights (ww_workshares (blk_witness b))) [] blocks"

definition total_weight :: "(address, u512) smap \<Rightarrow> u512" where
  "total_weight weights = fold (\<lambda>w total. saturating_add total w) (map snd weights) 0"

type_synonym share_entry = "address \<times> u64 \<times> u512"

definition allocate_entry ::
    "u64 \<Rightarrow> u512 \<Rightarrow> u64 \<times> share_entry list \<Rightarrow> address \<times> u512
     \<Rightarrow> consensus_error + u64 \<times> share_entry list" where
  "allocate_entry pool total_w = (\<lambda>(distributed, allocations) (a, weight).
     let numerator = ucast pool * weight;
         amount = ucast (numerator div total_w);
         remainder = numerator mod total_w
     in rbind (ok_or (checked_add distributed amount) MoneyRange) (\<lambda>distributed'.
          Inr (distributed', allocations @ [(a, amount, remainder)])))"

definition remainder_key :: "share_entry \<Rightarrow> u512 \<times> address" where
  "remainder_key = (\<lambda>(a, amount, remainder). (- 1 - remainder, a))"

definition bump_first :: "nat \<Rightarrow> share_entry list \<Rightarrow> share_entry list" where
  "bump_first n allocations =
     map (\<lambda>(a, amount, r). (a, amount + 1, r)) (take n allocations) @ drop n allocations"

definition workshare_rewards :: "share_entry list \<Rightarrow> (address \<times> u64) list" where
  "workshare_rewards allocations =
     map (\<lambda>(a, amount, r). (a, amount)) (filter (\<lambda>(a, amount, r). 0 < amount) allocations)"

definition reward_window :: "block list \<Rightarrow> block list" where
  "reward_window parent_history = drop (length parent_history - REWARD_WINDOW) parent_history"

definition reward_allocation ::
    "u64 \<Rightarrow> address \<Rightarrow> u64 \<Rightarrow> block list \<Rightarrow> consensus_error + reward_split" where
  "reward_allocation height finder fees parent_history =
     (let subsidy = block_subsidy height in
      if MAX_MONEY < fees \<or> checked_add subsidy fees = None then Inl MoneyRange
      else
        let finder_base = subsidy * FINDER_SHARE_PERCENT div 100;
            pool = subsidy - finder_base
        in rbind (collect_weights (reward_window parent_history)) (\<lambda>weights.
           let total_w = total_weight weights in
           if pool = 0 \<or> total_w = 0
           then rbind (ok_or (case checked_add finder_base pool of
                    None \<Rightarrow> None | Some value \<Rightarrow> checked_add value fees) MoneyRange) (\<lambda>amount.
                  Inr \<lparr>ra_finder_amount = amount, ra_workshare_rewards = []\<rparr>)
           else
             rbind (try_fold (allocate_entry pool total_w) (0, []) weights)
               (\<lambda>(distributed, allocations).
             rbind (ok_or (checked_sub pool distributed) MoneyRange) (\<lambda>leftover.
               let ranked = bump_first (unat leftover) (sort_key remainder_key allocations);
                   rewards = workshare_rewards (sort_key fst ranked)
               in rbind (ok_or (checked_add finder_base fees) MoneyRange) (\<lambda>finder_amount.
                    let result = \<lparr>ra_finder_amount = finder_amount, ra_workshare_rewards = rewards\<rparr>
                    in if allocation_total result \<noteq> subsidy + fees then Inl RewardMismatch
                       else Inr result)))))"

section \<open>Proportional division\<close>

text \<open>Dividing \<open>P\<close> by largest remainder: the floors plus one for each of the first leftover
  entries in the ranking give \<open>P\<close> exactly.\<close>

lemma proportional_floors:
  fixes ws :: "nat list" and P :: nat
  defines "W \<equiv> sum_list ws"
  assumes "0 < W"
  shows "sum_list (map (\<lambda>w. P * w div W) ws) \<le> P"
    "(P - sum_list (map (\<lambda>w. P * w div W) ws)) * W = sum_list (map (\<lambda>w. P * w mod W) ws)"
proof -
  have split: "sum_list (map (\<lambda>w. P * w div W) xs) * W + sum_list (map (\<lambda>w. P * w mod W) xs)
      = P * sum_list xs" for xs
    by (induction xs) (simp_all add: algebra_simps)
  from split [of ws] have e: "sum_list (map (\<lambda>w. P * w div W) ws) * W
      + sum_list (map (\<lambda>w. P * w mod W) ws) = P * W" by (simp add: W_def)
  then have "sum_list (map (\<lambda>w. P * w div W) ws) * W \<le> P * W" by (metis le_add1)
  then show le: "sum_list (map (\<lambda>w. P * w div W) ws) \<le> P" using assms(2) by (metis mult_le_cancel2)
  show "(P - sum_list (map (\<lambda>w. P * w div W) ws)) * W = sum_list (map (\<lambda>w. P * w mod W) ws)"
    using e by (simp add: diff_mult_distrib)
qed

lemma remainders_bound:
  fixes rs :: "nat list"
  assumes "0 < W" and "\<And>r. r \<in> set rs \<Longrightarrow> r < W" and "L * W = sum_list rs"
  shows "L \<le> length (filter (\<lambda>r. 0 < r) rs)"
proof -
  have "sum_list rs \<le> length (filter (\<lambda>r. 0 < r) rs) * W"
    using assms(2) by (induction rs) (auto simp: less_imp_le add_mono)
  then have "L * W \<le> length (filter (\<lambda>r. 0 < r) rs) * W" by (simp only: assms(3))
  then show ?thesis using assms(1) by (metis mult_le_cancel2)
qed

section \<open>Weights\<close>

definition window_shares :: "block list \<Rightarrow> workshare list" where
  "window_shares blocks = concat (map (\<lambda>b. ww_workshares (blk_witness b)) blocks)"

definition share_work :: "workshare \<Rightarrow> nat" where
  "share_work s = (case workshare_weight (bh_bits (ws_candidate_header s)) of
     Inr w \<Rightarrow> unat w | Inl e \<Rightarrow> 0)"

definition weight_at :: "(address, u512) smap \<Rightarrow> address \<Rightarrow> nat" where
  "weight_at m a = (case map_of m a of Some w \<Rightarrow> unat w | None \<Rightarrow> 0)"

lemma try_fold_concat:
  "try_fold (\<lambda>s b. try_fold f s (g b)) s0 bs = try_fold f s0 (concat (map g bs))"
  by (induction bs arbitrary: s0) (simp_all add: try_fold_append)

lemma collect_weights_flat:
  "collect_weights blocks = try_fold add_share_weight [] (window_shares blocks)"
  by (simp add: collect_weights_def window_shares_def try_fold_concat)

lemma add_share_weight_alt:
  "add_share_weight m s = rbind (workshare_weight (bh_bits (ws_candidate_header s))) (\<lambda>w.
     Inr (smap_insert (ws_miner s) (saturating_add
       (case map_of m (ws_miner s) of Some w \<Rightarrow> w | None \<Rightarrow> 0) (ucast w)) m))"
  by (simp add: add_share_weight_def workshare_weight_def rbind_assoc Let_def)

lemma share_work_bound: "share_work s < 2 ^ 256"
proof -
  have "unat (w :: u256) < 2 ^ 256" for w using unat_bound [of w] by simp
  then show ?thesis by (simp add: share_work_def split: sum.split)
qed

lemma workshare_weight_pos:
  assumes "workshare_weight bits = Inr w"
  shows "0 < unat w"
  using assms bits_to_target_Some(2) target_work_pos
  by (auto simp: workshare_weight_def result_simps)

lemma add_share_weight_step:
  assumes ok: "smap_ok m" and step: "add_share_weight m s = Inr m'"
    and small: "smap_sum unat m + 2 ^ 256 < 2 ^ 512"
  shows "smap_ok m'" "smap_sum unat m' = smap_sum unat m + share_work s"
    "weight_at m' a = weight_at m a + (if ws_miner s = a then share_work s else 0)"
    "0 < share_work s"
proof -
  let ?old = "case map_of m (ws_miner s) of Some w \<Rightarrow> w | None \<Rightarrow> 0"
  obtain w where w: "workshare_weight (bh_bits (ws_candidate_header s)) = Inr w"
    and m': "m' = smap_insert (ws_miner s) (saturating_add ?old (ucast w)) m"
    using step by (auto simp: add_share_weight_alt result_simps)
  have sw: "share_work s = unat w" by (simp add: share_work_def w)
  show "0 < share_work s" using workshare_weight_pos [OF w] by (simp add: sw)
  have old: "unat ?old = weight_at m (ws_miner s)" by (simp add: weight_at_def split: option.split)
  have uw: "unat (ucast w :: u512) = unat w" by (rule unat_ucast_up) simp
  have "weight_at m (ws_miner s) \<le> smap_sum unat m"
    by (auto simp: weight_at_def smap_sum_member split: option.split)
  then have "weight_at m (ws_miner s) + unat w < 2 ^ 512"
    using small share_work_bound [of s] sw by simp
  then have new: "unat (saturating_add ?old (ucast w) :: u512) = weight_at m (ws_miner s) + unat w"
    by (simp add: unat_saturating_add uw old)
  show "smap_ok m'" using ok by (simp add: m')
  show "weight_at m' a = weight_at m a + (if ws_miner s = a then share_work s else 0)"
    using new by (cases "ws_miner s = a") (simp_all add: weight_at_def m' sw)
  have "(case map_of m (ws_miner s) of None \<Rightarrow> 0 | Some w \<Rightarrow> unat w) = weight_at m (ws_miner s)"
    by (simp add: weight_at_def split: option.split)
  then show "smap_sum unat m' = smap_sum unat m + share_work s"
    using smap_sum_insert [OF ok, of unat "ws_miner s" "saturating_add ?old (ucast w)"] new
    unfolding m' sw by simp
qed

lemma collect_weights_effect:
  assumes "try_fold add_share_weight m ss = Inr m'" and "smap_ok m"
    and "smap_sum unat m + (length ss + 1) * 2 ^ 256 < 2 ^ 512"
  shows "smap_ok m'" "smap_sum unat m' = smap_sum unat m + sum_list (map share_work ss)"
    "weight_at m' a = weight_at m a + sum_list (map share_work (filter (\<lambda>s. ws_miner s = a) ss))"
    "\<forall>s \<in> set ss. 0 < share_work s"
proof -
  have "smap_ok m' \<and> smap_sum unat m' = smap_sum unat m + sum_list (map share_work ss) \<and>
    weight_at m' a = weight_at m a + sum_list (map share_work (filter (\<lambda>s. ws_miner s = a) ss))
    \<and> (\<forall>s \<in> set ss. 0 < share_work s)"
    using assms
  proof (induction ss arbitrary: m)
    case (Cons s ss)
    obtain m1 where m1: "add_share_weight m s = Inr m1" "try_fold add_share_weight m1 ss = Inr m'"
      using Cons.prems(1) by (auto simp: rbind_Inr)
    have "smap_sum unat m + 2 ^ 256 < 2 ^ 512" using Cons.prems(3) by simp
    note e = add_share_weight_step [OF Cons.prems(2) m1(1) this]
    have "smap_sum unat m1 + (length ss + 1) * 2 ^ 256 < 2 ^ 512"
      using Cons.prems(3) e(2) share_work_bound [of s] by (simp add: algebra_simps)
    from Cons.IH [OF m1(2) e(1) this] show ?case using e by simp
  qed simp
  then show "smap_ok m'" "smap_sum unat m' = smap_sum unat m + sum_list (map share_work ss)"
    "weight_at m' a = weight_at m a + sum_list (map share_work (filter (\<lambda>s. ws_miner s = a) ss))"
    "\<forall>s \<in> set ss. 0 < share_work s" by blast+
qed

lemma collect_weights_error:
  "try_fold add_share_weight m ss = Inl e \<Longrightarrow> e = InvalidTarget
     \<and> (\<exists>s \<in> set ss. workshare_weight (bh_bits (ws_candidate_header s)) = Inl InvalidTarget)"
proof (induction ss arbitrary: m)
  case (Cons s ss)
  have "workshare_weight b = Inl e' \<Longrightarrow> e' = InvalidTarget" for b e'
    by (auto simp: workshare_weight_def result_simps)
  then show ?case using Cons by (auto simp: rbind_Inl add_share_weight_alt)
qed simp

lemma total_weight_exact:
  "smap_sum unat m < 2 ^ 512 \<Longrightarrow> unat (total_weight m) = smap_sum unat m"
proof -
  have "unat (fold (\<lambda>w total. saturating_add total w) ws t) = unat t + sum_list (map unat ws)"
    if "unat t + sum_list (map unat ws) < 2 ^ 512" for ws and t :: u512
    using that
    by (induction ws arbitrary: t) (simp_all add: unat_saturating_add)
  from this [of 0 "map snd m"] show "smap_sum unat m < 2 ^ 512 \<Longrightarrow> ?thesis"
    by (simp add: total_weight_def smap_sum_def comp_def)
qed

section \<open>The allocation loop\<close>

definition share_entry_of :: "u64 \<Rightarrow> u512 \<Rightarrow> address \<times> u512 \<Rightarrow> share_entry" where
  "share_entry_of pool tw = (\<lambda>(a, w).
     (a, ucast ((ucast pool * w) div tw), (ucast pool * w) mod tw))"

lemma share_entry_numbers:
  fixes pool :: u64 and w tw :: u512
  assumes w: "unat w \<le> unat tw" and tw: "unat tw < 2 ^ 448" "0 < unat tw"
  shows "unat (ucast ((ucast pool * w) div tw) :: u64) = unat pool * unat w div unat tw"
    "unat ((ucast pool * w) mod tw) = unat pool * unat w mod unat tw"
proof -
  have p: "unat (ucast pool :: u512) = unat pool" by (rule unat_ucast_up) simp
  have pb: "unat pool < 2 ^ 64" using unat_bound [of pool] by simp
  have "unat pool * unat w \<le> 2 ^ 64 * 2 ^ 448" using w tw(1) pb by (intro mult_le_mono) simp_all
  moreover have "unat pool * unat w < 2 ^ 64 * 2 ^ 448"
    using w tw(1) pb by (intro mult_strict_mono') simp_all
  ultimately have n: "unat (ucast pool * w) = unat pool * unat w"
    by (subst unat_mult_exact) (simp_all add: p)
  have "unat pool * unat w div unat tw \<le> unat pool * unat tw div unat tw"
    using w by (intro div_le_mono mult_le_mono2)
  then have "unat pool * unat w div unat tw < 2 ^ 64" using tw(2) pb by simp
  then show "unat (ucast ((ucast pool * w) div tw) :: u64) = unat pool * unat w div unat tw"
    by (simp add: unsigned_ucast_eq unat_div n take_bit_nat_eq_self)
  show "unat ((ucast pool * w) mod tw) = unat pool * unat w mod unat tw"
    by (simp add: unat_mod n)
qed

lemma allocate_loop:
  assumes "unat d + sum_list (map (\<lambda>e. unat (fst (snd (share_entry_of pool tw e)))) ws) < 2 ^ 64"
  shows "\<exists>d'. try_fold (allocate_entry pool tw) (d, acc) ws = Inr (d', acc @ map (share_entry_of pool tw) ws)
    \<and> unat d' = unat d + sum_list (map (\<lambda>e. unat (fst (snd (share_entry_of pool tw e)))) ws)"
  using assms
proof (induction ws arbitrary: d acc)
  case (Cons e ws)
  obtain a w where e: "e = (a, w)" by force
  let ?x = "ucast ((ucast pool * w) div tw) :: u64"
  have x: "fst (snd (share_entry_of pool tw e)) = ?x" by (simp add: e share_entry_of_def)
  have lt: "unat d + unat ?x < 2 ^ 64" using Cons.prems by (simp add: x)
  then have u: "unat (d + ?x) = unat d + unat ?x" by (intro unat_add_exact) simp
  have step: "allocate_entry pool tw (d, acc) e = Inr (d + ?x, acc @ [share_entry_of pool tw e])"
    using lt by (simp add: allocate_entry_def e share_entry_of_def Let_def checked_add_def)
  have "unat (d + ?x) + sum_list (map (\<lambda>e. unat (fst (snd (share_entry_of pool tw e)))) ws) < 2 ^ 64"
    using Cons.prems by (simp add: x u)
  from Cons.IH [OF this, of "acc @ [share_entry_of pool tw e]"] show ?case
    by (simp add: step x u add.assoc)
qed simp

section \<open>Distributing the remainder\<close>

definition amounts :: "share_entry list \<Rightarrow> nat" where
  "amounts xs = sum_list (map (\<lambda>e. unat (fst (snd e))) xs)"

lemma amounts_simps [simp]:
  "amounts [] = 0" "amounts (e # xs) = unat (fst (snd e)) + amounts xs"
  "amounts (xs @ ys) = amounts xs + amounts ys"
  by (simp_all add: amounts_def)

lemma amounts_member: "(a, x, r) \<in> set xs \<Longrightarrow> unat x \<le> amounts xs"
  by (induction xs) (auto simp: amounts_def)

lemma amounts_mset: "mset xs = mset ys \<Longrightarrow> amounts xs = amounts ys"
proof -
  assume "mset xs = mset ys"
  then have "mset (map (\<lambda>e. unat (fst (snd e))) xs) = mset (map (\<lambda>e. unat (fst (snd e))) ys)"
    by simp
  then show ?thesis
    using sum_mset_sum_list [of "map (\<lambda>e. unat (fst (snd e))) xs"]
      sum_mset_sum_list [of "map (\<lambda>e. unat (fst (snd e))) ys"] by (simp add: amounts_def)
qed

lemma amounts_sort [simp]: "amounts (sort_key f xs) = amounts xs"
  by (rule amounts_mset) simp

lemma amounts_bump:
  assumes "n \<le> length xs" and "\<And>e. e \<in> set xs \<Longrightarrow> unat (fst (snd e)) < 2 ^ 64 - 1"
  shows "amounts (bump_first n xs) = amounts xs + n"
proof -
  have one: "amounts (map (\<lambda>(a, amount, r). (a, amount + 1, r)) ys) = amounts ys + length ys"
    if "set ys \<subseteq> set xs" for ys
    using that
  proof (induction ys)
    case (Cons e ys)
    obtain a x r where e: "e = (a, x, r)" by (metis surj_pair)
    have "unat x < 2 ^ 64 - 1" using assms(2) [of e] Cons.prems by (simp add: e)
    then have "unat (x + 1) = unat x + 1" by (subst unat_add_exact) simp_all
    with Cons show ?case by (simp add: e)
  qed simp
  have "amounts (bump_first n xs) = amounts (take n xs) + n + amounts (drop n xs)"
    using one [of "take n xs"] assms(1) by (simp add: bump_first_def set_take_subset)
  moreover have "amounts (take n xs) + amounts (drop n xs) = amounts xs"
    using amounts_simps(3) [of "take n xs" "drop n xs"] by simp
  ultimately show ?thesis by simp
qed

lemma keys_bump [simp]: "map fst (bump_first n xs) = map fst xs"
proof -
  have "map fst (map (\<lambda>(a, amount, r). (a, amount + 1, r)) ys) = map fst ys" for ys :: "share_entry list"
    by (induction ys) auto
  then have "map fst (bump_first n xs) = map fst (take n xs @ drop n xs)"
    by (simp only: bump_first_def map_append)
  then show ?thesis by simp
qed

lemma rewards_sum: "sum_list (map (\<lambda>x. unat (snd x)) (workshare_rewards xs)) = amounts xs"
  by (induction xs) (auto simp: workshare_rewards_def word_gt_0)

lemma allocation_total_nat:
  "allocation_total r = word_of_nat (unat (ra_finder_amount r)
     + sum_list (map (\<lambda>x. unat (snd x)) (ra_workshare_rewards r)))"
proof -
  have "fold (\<lambda>(a, amount) total. total + amount) xs t
      = word_of_nat (unat t + sum_list (map (\<lambda>x. unat (snd x)) xs))" for xs and t :: u64
    by (induction xs arbitrary: t) auto
  then show ?thesis by (simp only: allocation_total_def)
qed

lemma distinct_keys_sort: "distinct (map fst (sort_key f xs)) \<longleftrightarrow> distinct (map fst xs)"
  by (simp add: distinct_map)

lemma sort_key_fst_strict:
  fixes xs :: "share_entry list"
  assumes "distinct (map fst xs)"
  shows "sorted_wrt (<) (map fst (sort_key fst xs))"
proof -
  have "distinct (map fst (sort_key fst xs))"
    using assms by (simp add: distinct_map)
  then show ?thesis by (simp add: strict_sorted_iff)
qed

lemma workshare_rewards_keys:
  assumes "sorted_wrt (<) (map fst xs)"
  shows "sorted_wrt (<) (map fst (workshare_rewards xs))"
  using assms
proof (induction xs)
  case (Cons e xs)
  have "set (map fst (workshare_rewards xs)) \<subseteq> set (map fst xs)"
    by (force simp: workshare_rewards_def)
  with Cons show ?case by (cases e) (auto simp: workshare_rewards_def)
qed (simp add: workshare_rewards_def)

lemma workshare_rewards_set:
  "(a, x) \<in> set (workshare_rewards xs) \<longleftrightarrow> 0 < x \<and> (\<exists>r. (a, x, r) \<in> set xs)"
  by (force simp: workshare_rewards_def)

text \<open>In the ranking the entries with a remainder come first.\<close>

lemma bump_only_remainders:
  fixes xs :: "share_entry list"
  assumes "n \<le> length (filter (\<lambda>e. 0 < snd (snd e)) xs)" and "(a, x, r) \<in> set (bump_first n (sort_key remainder_key xs))"
  shows "(a, x, r) \<in> set xs \<or> (0 < r \<and> (\<exists>y. x = y + 1 \<and> (a, y, r) \<in> set xs))"
proof -
  let ?s = "sort_key remainder_key xs"
  have srt: "sorted (map remainder_key ?s)" by simp
  have "mset (filter (\<lambda>e. 0 < snd (snd e)) ?s) = mset (filter (\<lambda>e. 0 < snd (snd e)) xs)"
    by (simp only: mset_filter mset_sort)
  from mset_eq_length [OF this] have cnt: "n \<le> length (filter (\<lambda>e. 0 < snd (snd e)) ?s)"
    using assms(1) by simp
  have pos: "0 < snd (snd e)" if e: "e \<in> set (take n ?s)" for e
  proof (rule ccontr)
    assume "\<not> 0 < snd (snd e)"
    then have z: "snd (snd e) = 0" by (simp add: word_gt_0)
    obtain i where i: "i < n" "i < length ?s" "?s ! i = e"
      using e by (auto simp: in_set_conv_nth)
    have later: "snd (snd (?s ! j)) = 0" if "i \<le> j" "j < length ?s" for j
    proof -
      have "remainder_key (?s ! i) \<le> remainder_key (?s ! j)"
        using sorted_nth_mono [OF srt that(1)] that by simp
      then have "- 1 - snd (snd e) \<le> - 1 - snd (snd (?s ! j))"
        using i by (cases "?s ! j"; cases e) (auto simp: remainder_key_def less_eq_prod_def)
      then have "(- 1 :: u512) \<le> - 1 - snd (snd (?s ! j))" by (simp add: z)
      then have "- 1 - snd (snd (?s ! j)) = (- 1 :: u512)"
        by (rule antisym [OF word_order.extremum])
      then show ?thesis by simp
    qed
    have "filter (\<lambda>e. 0 < snd (snd e)) (drop i ?s) = []"
    proof -
      have "snd (snd y) = 0" if y: "y \<in> set (drop i ?s)" for y
      proof -
        obtain k where k: "k < length ?s - i" "drop i ?s ! k = y"
          using y by (metis in_set_conv_nth length_drop)
        then have "?s ! (i + k) = y" "i + k < length ?s" by (simp_all add: nth_drop)
        then show ?thesis using later [of "i + k"] by simp
      qed
      then show ?thesis by (simp add: filter_empty_conv)
    qed
    then have "filter (\<lambda>e. 0 < snd (snd e)) ?s = filter (\<lambda>e. 0 < snd (snd e)) (take i ?s)"
      by (metis append_Nil2 append_take_drop_id filter_append)
    then have "length (filter (\<lambda>e. 0 < snd (snd e)) ?s) \<le> i"
      using length_filter_le [of "\<lambda>e. 0 < snd (snd e)" "take i ?s"] by simp
    with cnt i(1) show False by simp
  qed
  have "(a, x, r) \<in> (\<lambda>(a, amount, r). (a, amount + 1, r)) ` set (take n ?s) \<union> set (drop n ?s)"
    using assms(2) by (simp add: bump_first_def)
  then show ?thesis
  proof
    assume "(a, x, r) \<in> set (drop n ?s)"
    then have "(a, x, r) \<in> set ?s" by (rule in_set_dropD)
    then show ?thesis by simp
  next
    assume "(a, x, r) \<in> (\<lambda>(a, amount, r). (a, amount + 1, r)) ` set (take n ?s)"
    then obtain e where e: "(a, x, r) = (\<lambda>(a, amount, r). (a, amount + 1, r)) e" "e \<in> set (take n ?s)"
      by (rule imageE)
    obtain a' y r' where "e = (a', y, r')" by (metis surj_pair)
    with e have y: "x = y + 1" "(a, y, r) \<in> set (take n ?s)" by simp_all
    then have "(a, y, r) \<in> set ?s" by (blast dest: in_set_takeD)
    then have "(a, y, r) \<in> set xs" by simp
    moreover have "0 < r" using pos [OF y(2)] by simp
    ultimately show ?thesis using y(1) by blast
  qed
qed

section \<open>The allocation\<close>

text \<open>The exact share of an address, its floor, and what a correct split is.\<close>

definition pool_nat :: "u64 \<Rightarrow> nat" where
  "pool_nat height = subsidy_nat (unat height) - subsidy_nat (unat height) * 5 div 100"

definition window_weight :: "block list \<Rightarrow> address \<Rightarrow> nat" where
  "window_weight history a =
     sum_list (map share_work (filter (\<lambda>s. ws_miner s = a) (window_shares (reward_window history))))"

definition window_total :: "block list \<Rightarrow> nat" where
  "window_total history = sum_list (map share_work (window_shares (reward_window history)))"

text \<open>The bound every window that fits a 64-bit machine satisfies.\<close>

definition window_small :: "block list \<Rightarrow> bool" where
  "window_small history \<longleftrightarrow> length (window_shares (reward_window history)) < 2 ^ 64"

lemma weight_at_le: "weight_at m a \<le> smap_sum unat m"
  by (auto simp: weight_at_def smap_sum_member split: option.split)

lemma collected:
  assumes "collect_weights (reward_window history) = Inr m" and "window_small history"
  shows "smap_ok m" "smap_sum unat m = window_total history" "weight_at m a = window_weight history a"
    "smap_sum unat m < 2 ^ 448" "unat (total_weight m) = window_total history"
proof -
  let ?ss = "window_shares (reward_window history)"
  have t: "try_fold add_share_weight [] ?ss = Inr m" using assms(1) by (simp add: collect_weights_flat)
  have len: "length ?ss < 2 ^ 64" using assms(2) by (simp add: window_small_def)
  then have lim: "smap_sum unat ([] :: (address, u512) smap) + (length ?ss + 1) * 2 ^ 256 < 2 ^ 512" by simp
  note e = collect_weights_effect [OF t _ lim]
  show "smap_ok m" by (rule e(1)) simp
  show s: "smap_sum unat m = window_total history" using e(2) by (simp add: window_total_def)
  show "weight_at m a = window_weight history a"
    using e(3) [of a] by (simp add: window_weight_def) (simp add: weight_at_def)
  have "sum_list (map share_work xs) \<le> length xs * 2 ^ 256" for xs
    using share_work_bound by (induction xs) (auto simp: less_imp_le intro!: add_mono)
  from this [of ?ss] have "smap_sum unat m \<le> length ?ss * 2 ^ 256" by (simp add: s window_total_def)
  also have "\<dots> < 2 ^ 64 * 2 ^ 256" using len by simp
  also have "\<dots> < 2 ^ 448" by simp
  finally show "smap_sum unat m < 2 ^ 448" .
  then show "unat (total_weight m) = window_total history" by (simp add: total_weight_exact s)
qed

lemma subsidy_split:
  fixes height :: u64
  defines "S \<equiv> block_subsidy height"
  shows "unat (S * FINDER_SHARE_PERCENT div 100) = unat S * 5 div 100"
    "unat (S - S * FINDER_SHARE_PERCENT div 100) = pool_nat height"
    "unat S * 5 div 100 + pool_nat height = unat S"
proof -
  have b: "unat S \<le> 1000000000" using subsidy_nat_bound by (simp add: S_def unat_block_subsidy)
  then have "unat (S * FINDER_SHARE_PERCENT) = unat S * 5"
    by (subst unat_mult_exact) (simp_all add: FINDER_SHARE_PERCENT_def)
  then show f: "unat (S * FINDER_SHARE_PERCENT div 100) = unat S * 5 div 100"
    by (simp add: unat_div)
  have le: "unat S * 5 div 100 \<le> unat S" by simp
  have "unat (S - S * FINDER_SHARE_PERCENT div 100) = unat S - unat S * 5 div 100"
    using le f by (subst unat_sub_exact) (simp_all only: word_le_nat_alt f)
  then show "unat (S - S * FINDER_SHARE_PERCENT div 100) = pool_nat height"
    by (simp only: pool_nat_def S_def unat_block_subsidy)
  show "unat S * 5 div 100 + pool_nat height = unat S"
    using le by (simp add: pool_nat_def S_def unat_block_subsidy)
qed

lemma pool_nat_bound: "pool_nat height \<le> 1000000000"
  using subsidy_nat_bound [of "unat height"] by (simp add: pool_nat_def le_diff_conv trans_le_add1)

lemma share_entries_numbers:
  fixes pool :: u64 and tw :: u512
  assumes "smap_ok m" and "smap_sum unat m = unat tw" and "unat tw < 2 ^ 448" and "0 < unat tw"
    and "(a, x, r) \<in> set (map (share_entry_of pool tw) m)"
  shows "unat x = unat pool * weight_at m a div unat tw" "unat r = unat pool * weight_at m a mod unat tw"
proof -
  obtain w where w: "(a, w) \<in> set m" "x = ucast ((ucast pool * w) div tw)" "r = (ucast pool * w) mod tw"
    using assms(5) by (auto simp: share_entry_of_def)
  have "map_of m a = Some w" using w(1) assms(1) by (simp add: smap_set_iff)
  then have wa: "weight_at m a = unat w" by (simp add: weight_at_def)
  have "unat w \<le> unat tw" using weight_at_le [of m a] assms(2) by (simp add: wa)
  from share_entry_numbers [OF this assms(3,4)]
  show "unat x = unat pool * weight_at m a div unat tw" "unat r = unat pool * weight_at m a mod unat tw"
    by (simp_all add: w wa)
qed

lemma share_entries_sum:
  fixes pool :: u64 and tw :: u512 and m :: "(address, u512) smap"
  assumes ok: "smap_ok m" and s: "smap_sum unat m = unat tw" and b: "unat tw < 2 ^ 448" "0 < unat tw"
  defines "xs \<equiv> map (share_entry_of pool tw) m"
  shows "amounts xs \<le> unat pool" "unat pool - amounts xs \<le> length (filter (\<lambda>e. 0 < snd (snd e)) xs)"
proof -
  let ?ws = "map (\<lambda>e. unat (snd e)) m"
  have W: "sum_list ?ws = unat tw" using s by (simp add: smap_sum_def)
  have le: "unat w \<le> unat tw" if "(a, w) \<in> set m" for a w
    using that smap_sum_member [of m a w unat] ok s by (simp add: smap_set_iff)
  have num: "unat (fst (snd (share_entry_of pool tw e))) = unat pool * unat (snd e) div unat tw"
    "unat (snd (snd (share_entry_of pool tw e))) = unat pool * unat (snd e) mod unat tw"
    if "e \<in> set m" for e
  proof -
    obtain a w where e: "e = (a, w)" by force
    from share_entry_numbers [OF le b, of a w pool] that
    show "unat (fst (snd (share_entry_of pool tw e))) = unat pool * unat (snd e) div unat tw"
      "unat (snd (snd (share_entry_of pool tw e))) = unat pool * unat (snd e) mod unat tw"
      by (simp_all add: e share_entry_of_def)
  qed
  have a: "amounts xs = sum_list (map (\<lambda>w. unat pool * w div unat tw) ?ws)"
    unfolding amounts_def xs_def using num(1) by (simp add: comp_def cong: map_cong)
  have "0 < sum_list ?ws" using W b(2) by simp
  note p = proportional_floors [OF this, of "unat pool", unfolded W]
  show "amounts xs \<le> unat pool" using p(1) by (simp add: a)
  let ?rs = "map (\<lambda>e. unat (snd (snd e))) xs"
  have r: "?rs = map (\<lambda>w. unat pool * w mod unat tw) ?ws"
    unfolding xs_def using num(2) by (simp add: comp_def cong: map_cong)
  have "unat pool - amounts xs \<le> length (filter (\<lambda>r. 0 < r) ?rs)"
  proof (rule remainders_bound [OF b(2)])
    show "r < unat tw" if "r \<in> set ?rs" for r using that b(2) unfolding r by auto
    show "(unat pool - amounts xs) * unat tw = sum_list ?rs" unfolding r using p(2) by (simp add: a)
  qed
  also have "\<dots> = length (filter (\<lambda>e. 0 < snd (snd e)) xs)"
    by (simp add: filter_map comp_def unat_gt_0 word_gt_0)
  finally show "unat pool - amounts xs \<le> length (filter (\<lambda>e. 0 < snd (snd e)) xs)" .
qed

lemma allocation_exact:
  assumes small: "window_small history" and r: "reward_allocation height finder fees history = Inr r"
  shows "unat (ra_finder_amount r) + sum_list (map (\<lambda>x. unat (snd x)) (ra_workshare_rewards r))
      = subsidy_nat (unat height) + unat fees" (is ?sum)
    and "sorted_wrt (<) (map fst (ra_workshare_rewards r))" (is ?sorted)
    and "\<forall>(a, x) \<in> set (ra_workshare_rewards r). 0 < x" (is ?pos)
    and "if pool_nat height = 0 \<or> window_total history = 0
      then ra_workshare_rewards r = []
      else unat (ra_finder_amount r) = subsidy_nat (unat height) * 5 div 100 + unat fees
        \<and> (\<forall>(a, x) \<in> set (ra_workshare_rewards r).
             let q = pool_nat height * window_weight history a
             in unat x = q div window_total history
                \<or> (unat x = q div window_total history + 1 \<and> q mod window_total history \<noteq> 0))"
      (is ?fair)
proof -
  let ?S = "block_subsidy height"
  let ?base = "?S * FINDER_SHARE_PERCENT div 100" and ?pool = "?S - ?S * FINDER_SHARE_PERCENT div 100"
  note sp = subsidy_split [of height]
  have S: "unat ?S = subsidy_nat (unat height)" by (rule unat_block_subsidy)
  obtain m where m: "collect_weights (reward_window history) = Inr m"
    using r by (auto simp: reward_allocation_def Let_def result_simps split: if_splits)
  note c = collected [OF m small]
  let ?tw = "total_weight m"
  have pool0: "?pool = 0 \<longleftrightarrow> pool_nat height = 0" using sp(2) by (metis unat_eq_0)
  have tw0: "?tw = 0 \<longleftrightarrow> window_total history = 0" using c(5) by (metis unat_eq_0)
  have "?sum \<and> ?sorted \<and> ?pos \<and> ?fair"
  proof (cases "?pool = 0 \<or> ?tw = 0")
    case True
    then obtain v where v: "checked_add ?base ?pool = Some v" "checked_add v fees = Some (ra_finder_amount r)"
      and nil: "ra_workshare_rewards r = []"
      using r m by (auto simp: reward_allocation_def Let_def result_simps split: if_splits option.splits)
    have "unat (ra_finder_amount r) = unat ?base + unat ?pool + unat fees"
      using v by (simp add: checked_add_Some)
    then show ?thesis using True sp S nil pool0 tw0 by simp
  next
    case False
    let ?xs = "map (share_entry_of ?pool ?tw) m"
    have "0 < unat ?tw" using False by (simp only: unat_gt_0 de_Morgan_disj not_False_eq_True)
    then have tw: "unat ?tw < 2 ^ 448" "0 < unat ?tw" "smap_sum unat m = unat ?tw"
      using c(2,4,5) by simp_all
    note sum = share_entries_sum [OF c(1) tw(3,1,2), of ?pool]
    have pb: "unat ?pool \<le> 1000000000" using sp(2) pool_nat_bound [of height] by simp
    have "unat (0 :: u64) + sum_list (map (\<lambda>e. unat (fst (snd (share_entry_of ?pool ?tw e)))) m) < 2 ^ 64"
      using sum(1) pb by (simp add: amounts_def comp_def)
    from allocate_loop [OF this, of "[]"] obtain d where
      d: "try_fold (allocate_entry ?pool ?tw) (0, []) m = Inr (d, ?xs)" "unat d = amounts ?xs"
      by (auto simp: amounts_def comp_def)
    let ?L = "unat ?pool - amounts ?xs"
    let ?ranked = "bump_first ?L (sort_key remainder_key ?xs)"
    let ?rew = "workshare_rewards (sort_key fst ?ranked)"
    have left: "checked_sub ?pool d = Some (?pool - d)" "unat (?pool - d) = ?L"
      using sum(1) d(2) by (simp_all add: checked_sub_def word_le_nat_alt unat_sub_exact)
    obtain fa where fa: "checked_add ?base fees = Some fa"
      and rr: "r = \<lparr>ra_finder_amount = fa, ra_workshare_rewards = ?rew\<rparr>"
      using r m d left False
      by (auto simp: reward_allocation_def Let_def result_simps split: if_splits)
    have num: "unat x = unat ?pool * weight_at m a div unat ?tw"
        "unat rm = unat ?pool * weight_at m a mod unat ?tw"
      if "(a, x, rm) \<in> set ?xs" for a x rm
      using share_entries_numbers [OF c(1) tw(3,1,2) that] by simp_all
    have small_x: "unat x \<le> 1000000000" if "(a, x, rm) \<in> set ?xs" for a x rm
    proof -
      have "unat x \<le> amounts ?xs"
        using that by (rule amounts_member)
      then show ?thesis using sum(1) pb by simp
    qed
    have "?L \<le> length ?xs" using sum(2) by (meson le_trans length_filter_le)
    then have "amounts ?ranked = amounts ?xs + ?L"
      using small_x by (subst amounts_bump) force+
    then have total: "amounts ?ranked = unat ?pool" using sum(1) by simp
    have ?sum
      using fa sp S total by (simp add: rr checked_add_Some rewards_sum)
    moreover have ?sorted
    proof -
      have mf: "map fst ?xs = map fst m" by (auto simp: share_entry_of_def)
      have "distinct (map fst ?xs)" unfolding mf by (rule smap_ok_distinct [OF c(1)])
      then have "distinct (map fst (sort_key remainder_key ?xs))"
        by (simp only: distinct_keys_sort)
      then have "distinct (map fst ?ranked)" by (simp only: keys_bump)
      then show ?thesis unfolding rr
        by (simp add: workshare_rewards_keys sort_key_fst_strict del: keys_bump)
    qed
    moreover have ?pos unfolding rr by (auto simp: workshare_rewards_set)
    moreover have "unat x = pool_nat height * window_weight history a div window_total history
        \<or> (unat x = pool_nat height * window_weight history a div window_total history + 1
            \<and> pool_nat height * window_weight history a mod window_total history \<noteq> 0)"
      if "(a, x) \<in> set ?rew" for a x
    proof -
      obtain rm where rm: "(a, x, rm) \<in> set ?ranked"
        using \<open>(a, x) \<in> set ?rew\<close> by (auto simp: workshare_rewards_set)
      note w = sp(2) c(3) [of a] c(5)
      from bump_only_remainders [OF sum(2) rm] show ?thesis
      proof (elim disjE conjE exE)
        assume "(a, x, rm) \<in> set ?xs"
        from num(1) [OF this] show ?thesis unfolding w by blast
      next
        fix y assume y: "0 < rm" "x = y + 1" "(a, y, rm) \<in> set ?xs"
        have "unat x = unat y + 1"
          using small_x [OF y(3)] unfolding y(2) by (subst unat_add_exact) simp_all
        moreover have "unat rm \<noteq> 0" using y(1) by (simp add: word_gt_0 unat_eq_0)
        ultimately show ?thesis using num [OF y(3)] unfolding w by simp
      qed
    qed
    moreover have "unat fa = subsidy_nat (unat height) * 5 div 100 + unat fees"
      using fa sp(1) S by (simp only: checked_add_Some)
    ultimately show ?thesis using False pool0 tw0 unfolding rr Let_def by (simp add: case_prod_unfold)
  qed
  then show ?sum ?sorted ?pos ?fair by blast+
qed

text \<open>The only errors are an amount out of range and a share with an invalid target: the checks on
  the division can never fail.\<close>

lemma allocation_total_ok:
  assumes small: "window_small history" and fees: "fees \<le> MAX_MONEY"
    and m: "collect_weights (reward_window history) = Inr m"
  shows "\<exists>r. reward_allocation height finder fees history = Inr r"
proof -
  let ?S = "block_subsidy height"
  let ?base = "?S * FINDER_SHARE_PERCENT div 100" and ?pool = "?S - ?S * FINDER_SHARE_PERCENT div 100"
  note sp = subsidy_split [of height]
  have Sb: "unat ?S \<le> 1000000000" using subsidy_nat_bound by (simp add: unat_block_subsidy)
  have fb: "unat fees < 2 ^ 62" using fees by (simp add: word_le_nat_alt unat_MAX_MONEY)
  have ok: "\<not> (MAX_MONEY < fees \<or> checked_add ?S fees = None)"
    using fees Sb fb by (simp add: checked_add_None not_less)
  have base: "unat ?base \<le> 1000000000" "unat ?base + unat ?pool = unat ?S" using sp Sb by simp_all
  note c = collected [OF m small]
  let ?tw = "total_weight m"
  show ?thesis
  proof (cases "?pool = 0 \<or> ?tw = 0")
    case True
    have "checked_add ?base ?pool = Some (?base + ?pool)"
      using base Sb by (simp add: checked_add_def)
    moreover have "unat (?base + ?pool) = unat ?S" using base Sb by (subst unat_add_exact) simp_all
    then have "checked_add (?base + ?pool) fees = Some (?base + ?pool + fees)"
      using Sb fb by (simp add: checked_add_def)
    ultimately show ?thesis using ok True m
      by (simp add: reward_allocation_def Let_def)
  next
    case False
    let ?xs = "map (share_entry_of ?pool ?tw) m"
    have "0 < unat ?tw" using False by (simp only: unat_gt_0 de_Morgan_disj not_False_eq_True)
    then have tw: "unat ?tw < 2 ^ 448" "0 < unat ?tw" "smap_sum unat m = unat ?tw"
      using c(2,4,5) by simp_all
    note sum = share_entries_sum [OF c(1) tw(3,1,2), of ?pool]
    have pb: "unat ?pool \<le> 1000000000" using base Sb by simp
    have "unat (0 :: u64) + sum_list (map (\<lambda>e. unat (fst (snd (share_entry_of ?pool ?tw e)))) m) < 2 ^ 64"
      using sum(1) pb by (simp add: amounts_def comp_def)
    from allocate_loop [OF this, of "[]"] obtain d where
      d: "try_fold (allocate_entry ?pool ?tw) (0, []) m = Inr (d, ?xs)" "unat d = amounts ?xs"
      by (auto simp: amounts_def comp_def)
    let ?L = "unat ?pool - amounts ?xs"
    have left: "checked_sub ?pool d = Some (?pool - d)" "unat (?pool - d) = ?L"
      using sum(1) d(2) by (simp_all add: checked_sub_def word_le_nat_alt unat_sub_exact)
    have fa: "checked_add ?base fees = Some (?base + fees)"
      using base(1) fb by (simp add: checked_add_def)
    have "unat x < 2 ^ 64 - 1" if "(a, x, rm) \<in> set ?xs" for a x rm
    proof -
      have "unat x \<le> amounts ?xs"
        using that by (rule amounts_member)
      then show ?thesis using sum(1) pb by simp
    qed
    moreover have "?L \<le> length ?xs" using sum(2) by (meson le_trans length_filter_le)
    ultimately have "amounts (bump_first ?L (sort_key remainder_key ?xs)) = amounts ?xs + ?L"
      by (subst amounts_bump) force+
    then have total: "amounts (bump_first ?L (sort_key remainder_key ?xs)) = unat ?pool"
      using sum(1) by simp
    have "unat (?base + fees) = unat ?base + unat fees"
      using base(1) fb by (intro unat_add_exact) simp
    then have "allocation_total \<lparr>ra_finder_amount = ?base + fees, ra_workshare_rewards =
        workshare_rewards (sort_key fst (bump_first ?L (sort_key remainder_key ?xs)))\<rparr>
        = word_of_nat (unat ?base + unat fees + unat ?pool)"
      by (simp only: allocation_total_nat reward_split.simps rewards_sum amounts_sort total)
    also have "unat ?base + unat fees + unat ?pool = unat ?S + unat fees" using base(2) by simp
    also have "word_of_nat (unat ?S + unat fees) = ?S + fees" by simp
    finally show ?thesis using ok False m d(1) left fa
      by (simp add: reward_allocation_def Let_def)
  qed
qed

end
