(* ===== verification/Validation.thy ===== *)
theory Validation
  imports Rewards
begin

text \<open>
  The consensus rules of \<open>src/consensus/validation.rs\<close>: transaction execution, the transition of
  the ledger under a candidate block, header context, proof of work and the workshare witness.  The
  \<open>PowVerifier\<close> is the argument \<open>pow\<close> (seed and input to a hash or an error message), the
  \<open>TimeSource\<close> the argument \<open>now\<close>.  A history is the list of blocks from genesis on.
\<close>

type_synonym pow_verifier = "bytes \<Rightarrow> bytes \<Rightarrow> string + hash32"

section \<open>Targets, seeds and times\<close>

definition next_bits :: "block list \<Rightarrow> u32" where
  "next_bits history =
     (if history = [] then target_to_bits initial_target
      else let parent = last history;
               launch_timestamp = bh_timestamp (blk_header
                 (if 1 < length history then history ! 1 else parent))
           in required_bits (bh_height (blk_header parent)) (bh_timestamp (blk_header parent))
                launch_timestamp)"

definition genesis :: "prims \<Rightarrow> block" where
  "genesis E =
     \<lparr>blk_header = \<lparr>bh_version = HEADER_VERSION, bh_protocol = PROTOCOL_VERSION, bh_height = 0,
        bh_previous_block = hash_zero,
        bh_transactions_root = domain_hash E (ascii ''PARITR-P9-GENESIS-v1'') GENESIS_MESSAGE,
        bh_state_root = ledger_root (ledger_default E),
        bh_workshare_root = witness_root E witness_empty,
        bh_timestamp = GENESIS_TIMESTAMP, bh_bits = target_to_bits initial_target, bh_nonce = 0\<rparr>,
      blk_reward_claim = None, blk_transactions = [], blk_witness = witness_empty\<rparr>"

definition validate_genesis :: "prims \<Rightarrow> block \<Rightarrow> consensus_error + unit" where
  "validate_genesis E b = (if b = genesis E then Inr () else Inl InvalidGenesis)"

definition median_time_past :: "block list \<Rightarrow> u64" where
  "median_time_past history =
     (let start = length history - MEDIAN_TIME_SPAN;
          timestamps = sort (map (\<lambda>b. bh_timestamp (blk_header b)) (drop start history))
      in if length timestamps div 2 < length timestamps
         then timestamps ! (length timestamps div 2) else 0)"

definition cumulative_work :: "block list \<Rightarrow> consensus_error + u256" where
  "cumulative_work blocks =
     try_fold (\<lambda>work b.
       rbind (ok_or (bits_to_target (bh_bits (blk_header b))) InvalidTarget) (\<lambda>target.
         ok_or (checked_add work (target_work target)) ArithmeticOverflow)) 0 blocks"

definition randomx_seed :: "prims \<Rightarrow> block list \<Rightarrow> u64 \<Rightarrow> consensus_error + bytes" where
  "randomx_seed E parent_history height =
     (if height < RANDOMX_EPOCH_BLOCKS then Inr RANDOMX_BOOTSTRAP_SEED
      else let reference_height = randomx_seed_reference_height height in
        rbind (ok_or (List.find (\<lambda>b. bh_height (blk_header b) = reference_height) parent_history)
                (StorageInvariant ''RandomX reference block unavailable'')) (\<lambda>reference.
          let material = put_bytes CHAIN_ID @ put_u64 (height div RANDOMX_EPOCH_BLOCKS)
                @ hash_enc (block_id E reference)
          in Inr (array_bytes (domain_hash E (ascii ''PARITR-P9-RANDOMX-EPOCH-v1'') material))))"

definition verify_pow ::
    "prims \<Rightarrow> pow_verifier \<Rightarrow> bytes \<Rightarrow> block_header \<Rightarrow> u256 \<Rightarrow> consensus_error + unit" where
  "verify_pow E pow seed header target =
     rbind (map_err PowUnavailable (pow seed (header_enc header))) (\<lambda>hash.
       if hash_meets_target hash target then Inr () else Inl InvalidProofOfWork)"

section \<open>Transactions\<close>

definition validate_transaction_structure :: "transaction \<Rightarrow> consensus_error + unit" where
  "validate_transaction_structure t =
     (if tx_version t \<noteq> TX_VERSION \<or> tx_amount t = 0 \<or> MAX_MONEY < tx_amount t
         \<or> MAX_MONEY < tx_fee t \<or> tx_sender t = tx_recipient t
         \<or> length (tx_public_key t) \<notin> {33, 65} \<or> length (tx_signature t) \<noteq> 64
         \<or> MAX_TRANSACTION_BYTES < length (transaction_enc t)
      then Inl InvalidTransaction else Inr ())"

record exec_state =
  ex_ledger :: ledger
  ex_seen :: "hash32 list"
  ex_fees :: u64

definition apply_transaction :: "prims \<Rightarrow> exec_state \<Rightarrow> transaction \<Rightarrow> consensus_error + exec_state" where
  "apply_transaction E x t =
     rbind (validate_transaction_structure t) (\<lambda>_.
     rbind (ensure (transaction_id E t \<notin> set (ex_seen x)) DuplicateTransaction) (\<lambda>_.
     let s = ex_ledger x; acc = ledger_account s (tx_sender t) in
     rbind (ensure (tx_nonce t = ac_nonce acc) InvalidNonce) (\<lambda>_.
     rbind (ok_or (checked_add (tx_amount t) (tx_fee t)) MoneyRange) (\<lambda>amount.
     rbind (ensure (amount \<le> ac_balance acc) InsufficientBalance) (\<lambda>_.
     rbind (ok_or (array_try_from (tx_signature t)) InvalidTransaction) (\<lambda>sig.
     rbind (map_err ErrCrypto (parse_and_validate_signature E (tx_sender t) (tx_public_key t) sig
              (transaction_signature_hash E t))) (\<lambda>_.
     rbind (debit E (tx_sender t) amount s) (\<lambda>s.
     rbind (credit E (tx_recipient t) (tx_amount t) s) (\<lambda>s.
     rbind (ok_or (checked_add (tx_nonce t) 1) ArithmeticOverflow) (\<lambda>nonce.
     let s = set_nonce E (tx_sender t) nonce s in
     rbind (ok_or (opt_filter (\<lambda>fees. fees \<le> MAX_MONEY) (checked_add (ex_fees x) (tx_fee t)))
             MoneyRange) (\<lambda>fees.
       Inr \<lparr>ex_ledger = s, ex_seen = transaction_id E t # ex_seen x, ex_fees = fees\<rparr>)))))))))))"

definition apply_transactions ::
    "prims \<Rightarrow> ledger \<Rightarrow> transaction list \<Rightarrow> consensus_error + ledger \<times> u64" where
  "apply_transactions E s transactions =
     rbind (try_fold (apply_transaction E) \<lparr>ex_ledger = s, ex_seen = [], ex_fees = 0\<rparr> transactions)
       (\<lambda>x. Inr (ex_ledger x, ex_fees x))"

definition validate_template_transactions ::
    "prims \<Rightarrow> transaction list \<Rightarrow> ledger \<Rightarrow> u64 \<Rightarrow> consensus_error + unit" where
  "validate_template_transactions E transactions parent_state height =
     (if MAX_BLOCK_TRANSACTIONS < length transactions then Inl SizeLimit
      else rbind (mature E height parent_state) (\<lambda>(s, _).
           rbind (apply_transactions E s transactions) (\<lambda>_. Inr ())))"

section \<open>The transition of a candidate\<close>

definition schedule_rewards ::
    "prims \<Rightarrow> u64 \<Rightarrow> ledger \<Rightarrow> (address \<times> u64) list \<Rightarrow> consensus_error + ledger" where
  "schedule_rewards E m = try_fold (\<lambda>s (recipient, amount). schedule_reward E m recipient amount s)"

definition transition_for_candidate ::
    "prims \<Rightarrow> u64 \<Rightarrow> reward_claim \<Rightarrow> transaction list \<Rightarrow> block list \<Rightarrow> ledger
     \<Rightarrow> consensus_error + ledger \<times> reward_split \<times> u64" where
  "transition_for_candidate E height claim transactions parent_history parent_state =
     rbind (mature E height parent_state) (\<lambda>(s, _).
     rbind (apply_transactions E s transactions) (\<lambda>(s, fees).
     rbind (reward_allocation height (rc_finder claim) fees parent_history) (\<lambda>allocation.
     rbind (ensure (rc_amount claim = ra_finder_amount allocation) RewardMismatch) (\<lambda>_.
     rbind (ok_or (checked_add height REWARD_MATURITY) ArithmeticOverflow) (\<lambda>m.
     rbind (schedule_reward E m (rc_finder claim) (ra_finder_amount allocation) s) (\<lambda>s.
     rbind (schedule_rewards E m s (ra_workshare_rewards allocation)) (\<lambda>s.
       Inr (s, allocation, fees))))))))"

section \<open>Headers and witnesses\<close>

definition validate_header_context ::
    "prims \<Rightarrow> block_header \<Rightarrow> block \<Rightarrow> block list \<Rightarrow> u64 \<Rightarrow> consensus_error + unit" where
  "validate_header_context E header parent parent_history now =
     (if bh_version header \<noteq> HEADER_VERSION \<or> bh_protocol header \<noteq> PROTOCOL_VERSION
      then Inl UnsupportedVersion
      else if bh_height header \<noteq> bh_height (blk_header parent) + 1 then Inl WrongHeight
      else if bh_previous_block header \<noteq> block_id E parent then Inl WrongParent
      else if bh_bits header \<noteq> next_bits parent_history
         \<or> (case bits_to_target (bh_bits header) of None \<Rightarrow> True | Some target \<Rightarrow> pow_limit < target)
      then Inl InvalidTarget
      else if bh_timestamp header \<le> bh_timestamp (blk_header parent)
         \<or> bh_timestamp header \<le> median_time_past parent_history
      then Inl InvalidTimestamp
      else if saturating_add now MAX_FUTURE_BLOCK_TIME < bh_timestamp header then Inl FutureTimestamp
      else Inr ())"

definition validate_witness_shape :: "prims \<Rightarrow> workshare_witness \<Rightarrow> consensus_error + unit" where
  "validate_witness_shape E w =
     (if ww_version w \<noteq> WITNESS_VERSION
         \<or> MAX_WORKSHARE_WITNESS_BYTES < length (witness_enc w)
         \<or> \<not> witness_is_canonical E w
      then Inl NonCanonicalWitness
      else if list_ex (\<lambda>t. bt_version t \<noteq> TEMPLATE_VERSION
                 \<or> MAX_TEMPLATE_BYTES < length (template_enc t)) (ww_templates w)
      then Inl NonCanonicalWitness
      else Inr ())"

text \<open>What the loop over the shares of a witness fixes before it starts.\<close>

record share_context =
  sc_parent :: block
  sc_templates :: "(hash32, block_template) smap"
  sc_seed :: bytes
  sc_expected_bits :: u32
  sc_block_target :: u256
  sc_share_target :: u256
  sc_mtp :: u64
  sc_settling_timestamp :: u64

definition share_header_bad :: "prims \<Rightarrow> share_context \<Rightarrow> hash32 \<Rightarrow> workshare \<Rightarrow> bool" where
  "share_header_bad E c previous share \<longleftrightarrow>
     (let h = ws_candidate_header share; p = blk_header (sc_parent c) in
      ws_version share \<noteq> SHARE_VERSION
      \<or> ws_previous share \<noteq> previous
      \<or> bh_version h \<noteq> HEADER_VERSION
      \<or> bh_protocol h \<noteq> PROTOCOL_VERSION
      \<or> bh_height h \<noteq> bh_height p + 1
      \<or> bh_previous_block h \<noteq> block_id E (sc_parent c)
      \<or> bh_bits h \<noteq> sc_expected_bits c
      \<or> bh_timestamp h \<le> bh_timestamp p
      \<or> bh_timestamp h \<le> sc_mtp c
      \<or> sc_settling_timestamp c < bh_timestamp h)"

definition add_template :: "prims \<Rightarrow> block_template \<Rightarrow> block_template list \<Rightarrow> block_template list" where
  "add_template E t ts =
     (if list_ex (\<lambda>existing. template_id E existing = template_id E t) ts then ts
      else sort_key (template_id E) (ts @ [t]))"

definition check_share ::
    "prims \<Rightarrow> pow_verifier \<Rightarrow> block list \<Rightarrow> ledger \<Rightarrow> share_context
     \<Rightarrow> hash32 \<times> workshare_witness \<Rightarrow> workshare \<Rightarrow> consensus_error + hash32 \<times> workshare_witness" where
  "check_share E pow parent_history parent_state c = (\<lambda>(previous, prefix) share.
     let p = blk_header (sc_parent c); h = ws_candidate_header share in
     rbind (ensure (\<not> share_header_bad E c previous share) InvalidWorkshareChain) (\<lambda>_.
     rbind (ok_or (smap_get (sc_templates c) (ws_template_id share)) InvalidWorkshareChain) (\<lambda>template.
     rbind (ensure (\<not> (bt_version template \<noteq> TEMPLATE_VERSION \<or> bt_height template \<noteq> bh_height p + 1
                      \<or> bt_parent template \<noteq> block_id E (sc_parent c))) InvalidWorkshareChain) (\<lambda>_.
     rbind (try_fold (\<lambda>total t. ok_or (checked_add total (tx_fee t)) MoneyRange) 0
             (bt_transactions template)) (\<lambda>fees.
     rbind (reward_allocation (bt_height template) (ws_miner share) fees parent_history) (\<lambda>allocation.
     let claim = \<lparr>rc_version = CLAIM_VERSION, rc_height = bt_height template,
           rc_finder = ws_miner share, rc_amount = ra_finder_amount allocation,
           rc_extranonce = ws_extranonce share\<rparr>
     in rbind (transition_for_candidate E (bt_height template) claim (bt_transactions template)
                parent_history parent_state) (\<lambda>(s, _, _).
     let txids = claim_id E claim # map (transaction_id E) (bt_transactions template) in
     rbind (ensure (\<not> (bh_transactions_root h \<noteq> merkle_root E txids
                      \<or> bh_state_root h \<noteq> ledger_root s
                      \<or> bh_workshare_root h \<noteq> witness_root E prefix)) InvalidWorkshareChain) (\<lambda>_.
     rbind (map_err PowUnavailable (pow (sc_seed c) (header_enc h))) (\<lambda>pow_hash.
     rbind (ensure (\<not> (\<not> hash_meets_target pow_hash (sc_share_target c)
                      \<or> hash_meets_target pow_hash (sc_block_target c))) InvalidProofOfWork) (\<lambda>_.
       Inr (workshare_id E share,
            prefix\<lparr>ww_workshares := ww_workshares prefix @ [share],
                   ww_templates := add_template E template (ww_templates prefix)\<rparr>)))))))))))"

definition share_context_of ::
    "prims \<Rightarrow> workshare_witness \<Rightarrow> block list \<Rightarrow> u64 \<Rightarrow> consensus_error + share_context" where
  "share_context_of E witness parent_history settling_timestamp =
     rbind (ensure (parent_history \<noteq> []) WrongParent) (\<lambda>_.
     let parent = last parent_history;
         templates = fold (\<lambda>t m. smap_insert (template_id E t) t m) (ww_templates witness) []
     in rbind (randomx_seed E parent_history (bh_height (blk_header parent) + 1)) (\<lambda>seed.
        let expected_bits = next_bits parent_history in
        rbind (ok_or (bits_to_target expected_bits) InvalidTarget) (\<lambda>block_target.
        rbind (ok_or (workshare_bits expected_bits) InvalidTarget) (\<lambda>share_bits.
        rbind (ok_or (bits_to_target share_bits) InvalidTarget) (\<lambda>share_target.
          Inr \<lparr>sc_parent = parent, sc_templates = templates, sc_seed = seed,
               sc_expected_bits = expected_bits, sc_block_target = block_target,
               sc_share_target = share_target, sc_mtp = median_time_past parent_history,
               sc_settling_timestamp = settling_timestamp\<rparr>)))))"

definition validate_workshares ::
    "prims \<Rightarrow> pow_verifier \<Rightarrow> workshare_witness \<Rightarrow> block list \<Rightarrow> ledger \<Rightarrow> u64
     \<Rightarrow> consensus_error + unit" where
  "validate_workshares E pow witness parent_history parent_state settling_timestamp =
     (if ww_workshares witness = [] then Inr ()
      else rbind (share_context_of E witness parent_history settling_timestamp) (\<lambda>c.
           rbind (try_fold (check_share E pow parent_history parent_state c)
                   (hash_zero, witness_empty) (ww_workshares witness)) (\<lambda>_. Inr ())))"

section \<open>Blocks\<close>

definition validate_block ::
    "prims \<Rightarrow> pow_verifier \<Rightarrow> u64 \<Rightarrow> block \<Rightarrow> block list \<Rightarrow> ledger \<Rightarrow> consensus_error + ledger" where
  "validate_block E pow now b parent_history parent_state =
     (let header = blk_header b in
      if bh_height header = 0
      then rbind (validate_genesis E b) (\<lambda>_. Inr (ledger_default E))
      else
        rbind (ensure (parent_history \<noteq> []) WrongParent) (\<lambda>_.
        rbind (validate_header_context E header (last parent_history) parent_history now) (\<lambda>_.
        rbind (ensure (\<not> (MAX_BLOCK_BYTES < length (block_enc b)
                 \<or> MAX_BLOCK_TRANSACTIONS < length (blk_transactions b))) SizeLimit) (\<lambda>_.
        rbind (ensure (block_transaction_root E b = bh_transactions_root header)
                TransactionRootMismatch) (\<lambda>_.
        rbind (validate_witness_shape E (blk_witness b)) (\<lambda>_.
        rbind (ensure (witness_root E (blk_witness b) = bh_workshare_root header)
                WorkshareRootMismatch) (\<lambda>_.
        rbind (randomx_seed E parent_history (bh_height header)) (\<lambda>seed.
        rbind (ok_or (bits_to_target (bh_bits header)) InvalidTarget) (\<lambda>target.
        rbind (verify_pow E pow seed header target) (\<lambda>_.
        rbind (ok_or (blk_reward_claim b) RewardMismatch) (\<lambda>claim.
        rbind (ensure (\<not> (rc_version claim \<noteq> CLAIM_VERSION \<or> rc_height claim \<noteq> bh_height header))
                RewardMismatch) (\<lambda>_.
        rbind (transition_for_candidate E (bh_height header) claim (blk_transactions b)
                parent_history parent_state) (\<lambda>(post_state, allocation, _).
        rbind (ensure (rc_amount claim = ra_finder_amount allocation) RewardMismatch) (\<lambda>_.
        rbind (ensure (ledger_root post_state = bh_state_root header) StateRootMismatch) (\<lambda>_.
        rbind (validate_workshares E pow (blk_witness b) parent_history parent_state
                (bh_timestamp header)) (\<lambda>_.
          Inr post_state))))))))))))))))"

section \<open>Executing transactions\<close>

definition transaction_ok :: "prims \<Rightarrow> transaction \<Rightarrow> bool" where
  "transaction_ok E t \<longleftrightarrow> address_ok E (tx_sender t) \<and> address_ok E (tx_recipient t)"

text \<open>A transaction whose sender's key signed it.\<close>

definition transaction_signed :: "prims \<Rightarrow> transaction \<Rightarrow> bool" where
  "transaction_signed E t \<longleftrightarrow> (\<exists>sig. tx_signature t = array_bytes sig \<and>
     parse_and_validate_signature E (tx_sender t) (tx_public_key t) sig (transaction_signature_hash E t)
       = Inr ())"

definition nonce_of :: "ledger \<Rightarrow> address \<Rightarrow> nat" where
  "nonce_of s a = unat (ac_nonce (ledger_account s a))"

definition paid_by :: "address \<Rightarrow> transaction \<Rightarrow> nat" where
  "paid_by a t = (if tx_sender t = a then unat (tx_amount t) + unat (tx_fee t) else 0)"

definition paid_to :: "address \<Rightarrow> transaction \<Rightarrow> nat" where
  "paid_to a t = (if tx_recipient t = a then unat (tx_amount t) else 0)"

lemma transaction_signedI:
  "tx_signature t = array_bytes sig \<Longrightarrow>
   parse_and_validate_signature E (tx_sender t) (tx_public_key t) sig (transaction_signature_hash E t)
     = Inr () \<Longrightarrow> transaction_signed E t"
  by (auto simp: transaction_signed_def)

lemma apply_transaction_InrE:
  assumes "apply_transaction E x t = Inr x'"
  obtains amount s1 s2 nonce fees where
    "validate_transaction_structure t = Inr ()" "transaction_id E t \<notin> set (ex_seen x)"
    "tx_nonce t = ac_nonce (ledger_account (ex_ledger x) (tx_sender t))"
    "unat amount = unat (tx_amount t) + unat (tx_fee t)" "transaction_signed E t"
    "debit E (tx_sender t) amount (ex_ledger x) = Inr s1"
    "credit E (tx_recipient t) (tx_amount t) s1 = Inr s2"
    "unat nonce = unat (tx_nonce t) + 1"
    "unat fees = unat (ex_fees x) + unat (tx_fee t)" "fees \<le> MAX_MONEY"
    "x' = \<lparr>ex_ledger = set_nonce E (tx_sender t) nonce s2,
           ex_seen = transaction_id E t # ex_seen x, ex_fees = fees\<rparr>"
proof -
  obtain amount sig s1 s2 nonce fees where
    "validate_transaction_structure t = Inr ()" "transaction_id E t \<notin> set (ex_seen x)"
    "tx_nonce t = ac_nonce (ledger_account (ex_ledger x) (tx_sender t))"
    "checked_add (tx_amount t) (tx_fee t) = Some amount" "array_try_from (tx_signature t) = Some sig"
    "parse_and_validate_signature E (tx_sender t) (tx_public_key t) sig (transaction_signature_hash E t)
      = Inr ()"
    "debit E (tx_sender t) amount (ex_ledger x) = Inr s1"
    "credit E (tx_recipient t) (tx_amount t) s1 = Inr s2" "checked_add (tx_nonce t) 1 = Some nonce"
    "checked_add (ex_fees x) (tx_fee t) = Some fees" "fees \<le> MAX_MONEY"
    "x' = \<lparr>ex_ledger = set_nonce E (tx_sender t) nonce s2,
           ex_seen = transaction_id E t # ex_seen x, ex_fees = fees\<rparr>"
    using assms unfolding apply_transaction_def Let_def result_simps opt_filter_Some sum.inject
    by (elim exE conjE) (rule that; (assumption | (rule sym, assumption) | simp))
  then show thesis
    by (intro that [of amount s1 s2 nonce fees])
      (simp_all add: checked_add_Some transaction_signedI [of t sig] array_try_from_Some)
qed

lemma structure_ok:
  assumes "validate_transaction_structure t = Inr ()"
  shows "tx_sender t \<noteq> tx_recipient t" "tx_amount t \<noteq> 0"
  using assms by (auto simp: validate_transaction_structure_def split: if_splits)

lemma apply_transaction_effect:
  assumes step: "apply_transaction E x t = Inr x'" and ok: "ledger_ok E (ex_ledger x)"
    and t: "transaction_ok E t"
  shows "ledger_ok E (ex_ledger x')"
    "ledger_supply (ex_ledger x') + unat (tx_fee t) = ledger_supply (ex_ledger x)"
    "unat (ex_fees x') = unat (ex_fees x) + unat (tx_fee t)" "ex_fees x' \<le> MAX_MONEY"
    "bal (ex_ledger x') a + paid_by a t = bal (ex_ledger x) a + paid_to a t"
    "unat (tx_nonce t) = nonce_of (ex_ledger x) (tx_sender t)"
    "nonce_of (ex_ledger x') a = nonce_of (ex_ledger x) a + (if tx_sender t = a then 1 else 0)"
    "led_pending (ex_ledger x') = led_pending (ex_ledger x)"
    "transaction_signed E t" "transaction_id E t \<notin> set (ex_seen x)"
    "ex_seen x' = transaction_id E t # ex_seen x" "tx_sender t \<noteq> tx_recipient t"
proof -
  from step obtain amount s1 s2 nonce fees where
    v: "validate_transaction_structure t = Inr ()" "transaction_id E t \<notin> set (ex_seen x)"
    and n: "tx_nonce t = ac_nonce (ledger_account (ex_ledger x) (tx_sender t))"
    and amt: "unat amount = unat (tx_amount t) + unat (tx_fee t)" and sg: "transaction_signed E t"
    and d: "debit E (tx_sender t) amount (ex_ledger x) = Inr s1"
    and c: "credit E (tx_recipient t) (tx_amount t) s1 = Inr s2"
    and nn: "unat nonce = unat (tx_nonce t) + 1"
    and fees: "unat fees = unat (ex_fees x) + unat (tx_fee t)" "fees \<le> MAX_MONEY"
    and x': "x' = \<lparr>ex_ledger = set_nonce E (tx_sender t) nonce s2,
        ex_seen = transaction_id E t # ex_seen x, ex_fees = fees\<rparr>"
    by (rule apply_transaction_InrE)
  have a_ok: "address_ok E (tx_sender t)" "address_ok E (tx_recipient t)"
    using t by (simp_all add: transaction_ok_def)
  note de = debit_effect [OF ok a_ok(1) d]
  note ce = credit_effect [OF de(1) a_ok(2) c]
  note se = set_nonce_effect [OF ce(1) a_ok(1), of nonce]
  note ne = structure_ok(1) [OF v(1)]
  show "ledger_ok E (ex_ledger x')" using se(1) by (simp add: x')
  show "ledger_supply (ex_ledger x') + unat (tx_fee t) = ledger_supply (ex_ledger x)"
    using se(2) ce(2) de(2) amt by (simp add: x')
  show "unat (ex_fees x') = unat (ex_fees x) + unat (tx_fee t)" "ex_fees x' \<le> MAX_MONEY"
    using fees by (simp_all add: x')
  show "bal (ex_ledger x') a + paid_by a t = bal (ex_ledger x) a + paid_to a t"
    using se(3) [of a] ce(3) [of a] de(3) [of a] de(4) amt ne
    by (auto simp: x' paid_by_def paid_to_def)
  show "unat (tx_nonce t) = nonce_of (ex_ledger x) (tx_sender t)" by (simp add: n nonce_of_def)
  show "nonce_of (ex_ledger x') a = nonce_of (ex_ledger x) a + (if tx_sender t = a then 1 else 0)"
    using se(4) [of a] ce(4) [of a] de(5) [of a] nn n by (auto simp: x' nonce_of_def)
  show "led_pending (ex_ledger x') = led_pending (ex_ledger x)"
    using se(5) ce(5) de(6) by (simp add: x')
  show "transaction_signed E t" "transaction_id E t \<notin> set (ex_seen x)"
    "ex_seen x' = transaction_id E t # ex_seen x" "tx_sender t \<noteq> tx_recipient t"
    using sg v ne by (simp_all add: x')
qed

lemma apply_loop_effect:
  assumes "try_fold (apply_transaction E) x ts = Inr x'" and "ledger_ok E (ex_ledger x)"
    and "\<forall>t \<in> set ts. transaction_ok E t"
  shows "ledger_ok E (ex_ledger x')
    \<and> ledger_supply (ex_ledger x') + sum_list (map (\<lambda>t. unat (tx_fee t)) ts) = ledger_supply (ex_ledger x)
    \<and> unat (ex_fees x') = unat (ex_fees x) + sum_list (map (\<lambda>t. unat (tx_fee t)) ts)
    \<and> (ex_fees x \<le> MAX_MONEY \<longrightarrow> ex_fees x' \<le> MAX_MONEY)
    \<and> (\<forall>a. bal (ex_ledger x') a + sum_list (map (paid_by a) ts)
          = bal (ex_ledger x) a + sum_list (map (paid_to a) ts))
    \<and> (\<forall>a. map (\<lambda>t. unat (tx_nonce t)) (filter (\<lambda>t. tx_sender t = a) ts)
          = [nonce_of (ex_ledger x) a ..< nonce_of (ex_ledger x') a])
    \<and> (\<forall>a. nonce_of (ex_ledger x') a
          = nonce_of (ex_ledger x) a + length (filter (\<lambda>t. tx_sender t = a) ts))
    \<and> led_pending (ex_ledger x') = led_pending (ex_ledger x)
    \<and> (\<forall>t \<in> set ts. transaction_signed E t)
    \<and> set (map (transaction_id E) ts) \<inter> set (ex_seen x) = {} \<and> distinct (map (transaction_id E) ts)"
  using assms
proof (induction ts arbitrary: x)
  case (Cons t ts)
  obtain x1 where x1: "apply_transaction E x t = Inr x1" "try_fold (apply_transaction E) x1 ts = Inr x'"
    using Cons.prems(1) by (auto simp: rbind_Inr)
  have "transaction_ok E t" using Cons.prems(3) by simp
  note e = apply_transaction_effect [OF x1(1) Cons.prems(2) this]
  have ih: "ledger_ok E (ex_ledger x')
    \<and> ledger_supply (ex_ledger x') + sum_list (map (\<lambda>t. unat (tx_fee t)) ts) = ledger_supply (ex_ledger x1)
    \<and> unat (ex_fees x') = unat (ex_fees x1) + sum_list (map (\<lambda>t. unat (tx_fee t)) ts)
    \<and> (ex_fees x1 \<le> MAX_MONEY \<longrightarrow> ex_fees x' \<le> MAX_MONEY)
    \<and> (\<forall>a. bal (ex_ledger x') a + sum_list (map (paid_by a) ts)
          = bal (ex_ledger x1) a + sum_list (map (paid_to a) ts))
    \<and> (\<forall>a. map (\<lambda>t. unat (tx_nonce t)) (filter (\<lambda>t. tx_sender t = a) ts)
          = [nonce_of (ex_ledger x1) a ..< nonce_of (ex_ledger x') a])
    \<and> (\<forall>a. nonce_of (ex_ledger x') a
          = nonce_of (ex_ledger x1) a + length (filter (\<lambda>t. tx_sender t = a) ts))
    \<and> led_pending (ex_ledger x') = led_pending (ex_ledger x1)
    \<and> (\<forall>t \<in> set ts. transaction_signed E t)
    \<and> set (map (transaction_id E) ts) \<inter> set (ex_seen x1) = {} \<and> distinct (map (transaction_id E) ts)"
    using Cons.IH [OF x1(2) e(1)] Cons.prems(3) by simp
  have bal: "bal (ex_ledger x') a + sum_list (map (paid_by a) (t # ts))
      = bal (ex_ledger x) a + sum_list (map (paid_to a) (t # ts))" for a
  proof -
    have "bal (ex_ledger x') a + sum_list (map (paid_by a) ts)
        = bal (ex_ledger x1) a + sum_list (map (paid_to a) ts)" using ih by blast
    with e(5) [of a] show ?thesis by simp
  qed
  have nonce: "nonce_of (ex_ledger x') a
      = nonce_of (ex_ledger x) a + length (filter (\<lambda>t. tx_sender t = a) (t # ts))" for a
    using ih e(7) [of a] by simp
  have run: "map (\<lambda>t. unat (tx_nonce t)) (filter (\<lambda>t. tx_sender t = a) (t # ts))
      = [nonce_of (ex_ledger x) a ..< nonce_of (ex_ledger x') a]" for a
  proof -
    have r: "map (\<lambda>t. unat (tx_nonce t)) (filter (\<lambda>t. tx_sender t = a) ts)
        = [nonce_of (ex_ledger x1) a ..< nonce_of (ex_ledger x') a]" using ih by blast
    show ?thesis
    proof (cases "tx_sender t = a")
      case True
      then have "nonce_of (ex_ledger x1) a = Suc (nonce_of (ex_ledger x) a)"
        "nonce_of (ex_ledger x) a < nonce_of (ex_ledger x') a"
        using e(7) [of a] nonce [of a] by simp_all
      then show ?thesis using True r e(6) by (simp add: upt_conv_Cons)
    next
      case False
      then show ?thesis using r e(7) [of a] by simp
    qed
  qed
  show ?case
    using ih e(2,3,4,8,9,10,11) bal nonce run by (simp del: filter.simps)
qed simp

lemma apply_transactions_effect:
  assumes r: "apply_transactions E s ts = Inr (s', fees)" and ok: "ledger_ok E s"
    and t: "\<forall>t \<in> set ts. transaction_ok E t"
  shows "ledger_ok E s'" "ledger_supply s' + unat fees = ledger_supply s"
    "unat fees = sum_list (map (\<lambda>t. unat (tx_fee t)) ts)" "fees \<le> MAX_MONEY"
    "bal s' a + sum_list (map (paid_by a) ts) = bal s a + sum_list (map (paid_to a) ts)"
    "map (\<lambda>t. unat (tx_nonce t)) (filter (\<lambda>t. tx_sender t = a) ts) = [nonce_of s a ..< nonce_of s' a]"
    "nonce_of s' a = nonce_of s a + length (filter (\<lambda>t. tx_sender t = a) ts)"
    "led_pending s' = led_pending s"
    "\<forall>t \<in> set ts. transaction_signed E t" "distinct (map (transaction_id E) ts)"
proof -
  obtain x' where x': "try_fold (apply_transaction E) \<lparr>ex_ledger = s, ex_seen = [], ex_fees = 0\<rparr> ts = Inr x'"
    "s' = ex_ledger x'" "fees = ex_fees x'"
    using r by (auto simp: apply_transactions_def rbind_Inr)
  have ok': "ledger_ok E (ex_ledger \<lparr>ex_ledger = s, ex_seen = [], ex_fees = 0\<rparr>)" using ok by simp
  note e = apply_loop_effect [OF x'(1) ok' t]
  show "ledger_ok E s'" "ledger_supply s' + unat fees = ledger_supply s"
    "unat fees = sum_list (map (\<lambda>t. unat (tx_fee t)) ts)" "fees \<le> MAX_MONEY"
    "bal s' a + sum_list (map (paid_by a) ts) = bal s a + sum_list (map (paid_to a) ts)"
    "map (\<lambda>t. unat (tx_nonce t)) (filter (\<lambda>t. tx_sender t = a) ts) = [nonce_of s a ..< nonce_of s' a]"
    "nonce_of s' a = nonce_of s a + length (filter (\<lambda>t. tx_sender t = a) ts)"
    "led_pending s' = led_pending s"
    "\<forall>t \<in> set ts. transaction_signed E t" "distinct (map (transaction_id E) ts)"
    using e unfolding x'(2,3) by (simp_all)
qed

section \<open>The transition\<close>

definition reward_to :: "address \<Rightarrow> (address \<times> u64) list \<Rightarrow> nat" where
  "reward_to a rs = sum_list (map (\<lambda>x. unat (snd x)) (filter (\<lambda>x. fst x = a) rs))"

lemma schedule_rewards_effect:
  assumes "schedule_rewards E m s rs = Inr s'" and "ledger_ok E s"
    and "\<forall>(a, x) \<in> set rs. address_ok E a"
  shows "ledger_ok E s'" "ledger_supply s' = ledger_supply s + sum_list (map (\<lambda>x. unat (snd x)) rs)"
    "ledger_account s' b = ledger_account s b"
    "pend s' (k, a) = pend s (k, a) + (if k = m then reward_to a rs else 0)"
proof -
  have "ledger_ok E s' \<and> ledger_supply s' = ledger_supply s + sum_list (map (\<lambda>x. unat (snd x)) rs)
    \<and> ledger_account s' b = ledger_account s b
    \<and> pend s' (k, a) = pend s (k, a) + (if k = m then reward_to a rs else 0)"
    using assms
  proof (induction rs arbitrary: s)
    case (Cons r rs)
    obtain c x where r: "r = (c, x)" by force
    obtain s1 where s1: "schedule_reward E m c x s = Inr s1" "schedule_rewards E m s1 rs = Inr s'"
      using Cons.prems(1) by (auto simp: schedule_rewards_def r rbind_Inr)
    have c: "address_ok E c" using Cons.prems(3) by (simp add: r)
    note e = schedule_reward_effect [OF Cons.prems(2) c s1(1)]
    have "ledger_ok E s' \<and> ledger_supply s' = ledger_supply s1 + sum_list (map (\<lambda>x. unat (snd x)) rs)
      \<and> ledger_account s' b = ledger_account s1 b
      \<and> pend s' (k, a) = pend s1 (k, a) + (if k = m then reward_to a rs else 0)"
      using Cons.IH [OF s1(2) e(1)] Cons.prems(3) by simp
    then show ?case using e(2) e(3) [of "(k, a)"] e(4) [of b]
      by (auto simp: r reward_to_def)
  qed (simp add: schedule_rewards_def reward_to_def)
  then show "ledger_ok E s'" "ledger_supply s' = ledger_supply s + sum_list (map (\<lambda>x. unat (snd x)) rs)"
    "ledger_account s' b = ledger_account s b"
    "pend s' (k, a) = pend s (k, a) + (if k = m then reward_to a rs else 0)" by blast+
qed

lemma reward_recipients:
  assumes "window_small history" and "reward_allocation height finder fees history = Inr r"
    and "(a, x) \<in> set (ra_workshare_rewards r)"
  shows "\<exists>share \<in> set (window_shares (reward_window history)). ws_miner share = a"
proof (rule ccontr)
  assume none: "\<not> ?thesis"
  note e = allocation_exact [OF assms(1,2)]
  have f: "filter (\<lambda>s. ws_miner s = a) (window_shares (reward_window history)) = []"
    using none by (auto simp: filter_empty_conv)
  have w: "window_weight history a = 0" unfolding window_weight_def f by simp
  have "0 < x" using e(3) assms(3) by auto
  moreover have "unat x = 0"
    using e(4) assms(3) w by (auto simp: Let_def split: if_splits)
  ultimately show False by (simp add: unat_eq_0 word_gt_0)
qed

text \<open>Addresses inside the objects of a block are values of the type \<open>Address\<close>.\<close>

definition block_typed :: "prims \<Rightarrow> block \<Rightarrow> bool" where
  "block_typed E b \<longleftrightarrow> pred_option (claim_ok E) (blk_reward_claim b)
     \<and> (\<forall>t \<in> set (blk_transactions b). transaction_ok E t)
     \<and> (\<forall>s \<in> set (ww_workshares (blk_witness b)). workshare_ok E s)"

lemma window_subset: "set (window_shares (reward_window history)) \<subseteq> set (window_shares history)"
  by (auto simp: window_shares_def reward_window_def dest: in_set_dropD)

lemma history_typed_miners:
  assumes "\<forall>b \<in> set history. block_typed E b" and "s \<in> set (window_shares (reward_window history))"
  shows "address_ok E (ws_miner s)"
proof -
  have "s \<in> set (window_shares history)" using window_subset assms(2) by blast
  then show ?thesis using assms(1) by (auto simp: window_shares_def block_typed_def workshare_ok_def)
qed

lemma transition_InrE:
  assumes "transition_for_candidate E h claim txs hist s = Inr (s', alloc, fees)"
  obtains s1 l s2 s3 where "mature E h s = Inr (s1, l)" "apply_transactions E s1 txs = Inr (s2, fees)"
    "reward_allocation h (rc_finder claim) fees hist = Inr alloc"
    "rc_amount claim = ra_finder_amount alloc" "checked_add h REWARD_MATURITY = Some (h + REWARD_MATURITY)"
    "schedule_reward E (h + REWARD_MATURITY) (rc_finder claim) (ra_finder_amount alloc) s2 = Inr s3"
    "schedule_rewards E (h + REWARD_MATURITY) s3 (ra_workshare_rewards alloc) = Inr s'"
proof -
  obtain s1 l s2 m s3 where *: "mature E h s = Inr (s1, l)" "apply_transactions E s1 txs = Inr (s2, fees)"
    "reward_allocation h (rc_finder claim) fees hist = Inr alloc"
    "rc_amount claim = ra_finder_amount alloc" "checked_add h REWARD_MATURITY = Some m"
    "schedule_reward E m (rc_finder claim) (ra_finder_amount alloc) s2 = Inr s3"
    "schedule_rewards E m s3 (ra_workshare_rewards alloc) = Inr s'"
    using assms by (auto simp: transition_for_candidate_def result_simps)
  have "m = h + REWARD_MATURITY"
    using *(5) by (simp add: checked_add_def split: if_splits)
  with * show thesis by (intro that [of s1 l s2 s3]) simp_all
qed

lemma transition_effect:
  assumes tr: "transition_for_candidate E h claim txs hist s = Inr (s', alloc, fees)"
    and ok: "ledger_ok E s" and finder: "claim_ok E claim" and txs: "\<forall>t \<in> set txs. transaction_ok E t"
    and typed: "\<forall>b \<in> set hist. block_typed E b" and small: "window_small hist"
  shows "ledger_ok E s'" "ledger_supply s' = ledger_supply s + subsidy_nat (unat h)"
    "bal s' a + sum_list (map (paid_by a) txs) = bal s a + pend s (h, a) + sum_list (map (paid_to a) txs)"
    "pend s' (k, a) = (if k = h then 0 else pend s (k, a))
       + (if k = h + REWARD_MATURITY
          then (if a = rc_finder claim then unat (rc_amount claim) else 0)
            + reward_to a (ra_workshare_rewards alloc) else 0)"
    "nonce_of s' a = nonce_of s a + length (filter (\<lambda>t. tx_sender t = a) txs)"
    "map (\<lambda>t. unat (tx_nonce t)) (filter (\<lambda>t. tx_sender t = a) txs) = [nonce_of s a ..< nonce_of s' a]"
    "\<forall>t \<in> set txs. transaction_signed E t" "distinct (map (transaction_id E) txs)"
    "unat fees = sum_list (map (\<lambda>t. unat (tx_fee t)) txs)"
proof -
  obtain s1 l s2 s3 where m: "mature E h s = Inr (s1, l)"
    and ap: "apply_transactions E s1 txs = Inr (s2, fees)"
    and al: "reward_allocation h (rc_finder claim) fees hist = Inr alloc"
    and am: "rc_amount claim = ra_finder_amount alloc"
    and s3: "schedule_reward E (h + REWARD_MATURITY) (rc_finder claim) (ra_finder_amount alloc) s2 = Inr s3"
    and s': "schedule_rewards E (h + REWARD_MATURITY) s3 (ra_workshare_rewards alloc) = Inr s'"
    using transition_InrE [OF tr] by metis
  note me = mature_effect [OF ok m]
  note ae = apply_transactions_effect [OF ap me(1) txs]
  have fo: "address_ok E (rc_finder claim)" using finder by (simp add: claim_ok_def)
  note fe = schedule_reward_effect [OF ae(1) fo s3]
  have "\<forall>(a, x) \<in> set (ra_workshare_rewards alloc). address_ok E a"
    using reward_recipients [OF small al] history_typed_miners [OF typed] by blast
  note re = schedule_rewards_effect [OF s' fe(1) this]
  note ex = allocation_exact [OF small al]
  show "ledger_ok E s'" by (rule re(1))
  show "ledger_supply s' = ledger_supply s + subsidy_nat (unat h)"
    using re(2) fe(2) ae(2) me(2) ex(1) by simp
  show "bal s' a + sum_list (map (paid_by a) txs) = bal s a + pend s (h, a) + sum_list (map (paid_to a) txs)"
    using ae(5) [of a] me(4) [of a] re(3) [of a] fe(4) [of a] by (simp add: bal_def)
  have "pend s2 = pend s1" using ae(8) by (simp add: fun_eq_iff pend_def)
  then show "pend s' (k, a) = (if k = h then 0 else pend s (k, a))
       + (if k = h + REWARD_MATURITY
          then (if a = rc_finder claim then unat (rc_amount claim) else 0)
            + reward_to a (ra_workshare_rewards alloc) else 0)"
    using re(4) [of k a] fe(3) [of "(k, a)"] me(3) [of k a] am by auto
  show "nonce_of s' a = nonce_of s a + length (filter (\<lambda>t. tx_sender t = a) txs)"
    using ae(7) [of a] me(5) [of a] re(3) [of a] fe(4) [of a] by (simp add: nonce_of_def)
  show "map (\<lambda>t. unat (tx_nonce t)) (filter (\<lambda>t. tx_sender t = a) txs) = [nonce_of s a ..< nonce_of s' a]"
    using ae(6) [of a] me(5) [of a] re(3) [of a] fe(4) [of a] by (simp add: nonce_of_def)
  show "\<forall>t \<in> set txs. transaction_signed E t" "distinct (map (transaction_id E) txs)"
    "unat fees = sum_list (map (\<lambda>t. unat (tx_fee t)) txs)"
    by (rule ae)+
qed

section \<open>Accepted blocks\<close>

lemma header_context_Inr:
  "validate_header_context E header parent hist now = Inr u \<longleftrightarrow>
     bh_version header = HEADER_VERSION \<and> bh_protocol header = PROTOCOL_VERSION
     \<and> bh_height header = bh_height (blk_header parent) + 1
     \<and> bh_previous_block header = block_id E parent
     \<and> bh_bits header = next_bits hist
     \<and> (\<exists>target. bits_to_target (bh_bits header) = Some target \<and> target \<le> pow_limit)
     \<and> bh_timestamp (blk_header parent) < bh_timestamp header
     \<and> median_time_past hist < bh_timestamp header
     \<and> unat (bh_timestamp header) \<le> unat now + 300"
proof -
  have "saturating_add now MAX_FUTURE_BLOCK_TIME < t \<longleftrightarrow> unat now + 300 < unat t" for t
    using unat_bound [of t]
    by (simp add: word_less_nat_alt unat_saturating_add MAX_FUTURE_BLOCK_TIME_def not_less min_def)
  then show ?thesis
    by (auto simp: validate_header_context_def not_le not_less split: option.splits)
qed

lemma next_bits_decodes:
  obtains t where "bits_to_target (next_bits hist) = Some t" "t \<le> pow_limit" "1 \<le> t"
proof (cases "hist = []")
  case True
  have "initial_target \<noteq> 0" by (simp add: unat_initial_target unat_eq_0 [symmetric] del: unat_eq_0)
  then obtain t where t: "bits_to_target (target_to_bits initial_target) = Some t" "t \<le> initial_target"
    "t \<noteq> 0" by (rule compact_target)
  have "initial_target \<le> pow_limit" by (simp add: word_le_nat_alt unat_initial_target unat_pow_limit)
  with t(2) have "t \<le> pow_limit" by simp
  with t(1,3) True show thesis
    by (intro that [of t]) (simp_all add: next_bits_def word_le_nat_alt unat_gt_0 Suc_le_eq)
next
  case False
  then show thesis using required_bits_decodes that by (metis next_bits_def)
qed

lemma validate_block_InrE:
  assumes "validate_block E pow now b hist s = Inr s'" and "bh_height (blk_header b) \<noteq> 0"
  obtains seed target claim alloc fees hash where "hist \<noteq> []"
    "validate_header_context E (blk_header b) (last hist) hist now = Inr ()"
    "length (block_enc b) \<le> MAX_BLOCK_BYTES" "length (blk_transactions b) \<le> MAX_BLOCK_TRANSACTIONS"
    "block_transaction_root E b = bh_transactions_root (blk_header b)"
    "validate_witness_shape E (blk_witness b) = Inr ()"
    "witness_root E (blk_witness b) = bh_workshare_root (blk_header b)"
    "randomx_seed E hist (bh_height (blk_header b)) = Inr seed"
    "bits_to_target (bh_bits (blk_header b)) = Some target"
    "pow seed (header_enc (blk_header b)) = Inr hash" "hash_meets_target hash target"
    "blk_reward_claim b = Some claim" "rc_version claim = CLAIM_VERSION"
    "rc_height claim = bh_height (blk_header b)"
    "transition_for_candidate E (bh_height (blk_header b)) claim (blk_transactions b) hist s
      = Inr (s', alloc, fees)"
    "rc_amount claim = ra_finder_amount alloc" "ledger_root s' = bh_state_root (blk_header b)"
    "validate_workshares E pow (blk_witness b) hist s (bh_timestamp (blk_header b)) = Inr ()"
proof -
  show thesis
    using assms unfolding validate_block_def Let_def if_not_P [OF assms(2)] result_simps verify_pow_def
      not_less de_Morgan_disj not_not split_paired_Ex prod.case
    by (auto intro: that split: if_splits)
qed

section \<open>Accepted workshares\<close>

fun share_chain :: "prims \<Rightarrow> hash32 \<Rightarrow> workshare list \<Rightarrow> bool" where
  "share_chain E previous [] = True"
| "share_chain E previous (s # r) \<longleftrightarrow> ws_previous s = previous \<and> share_chain E (workshare_id E s) r"

text \<open>What the loop has established about one share.\<close>

definition share_accepted :: "prims \<Rightarrow> pow_verifier \<Rightarrow> share_context \<Rightarrow> workshare \<Rightarrow> bool" where
  "share_accepted E pow c s \<longleftrightarrow>
     (let h = ws_candidate_header s; p = blk_header (sc_parent c) in
      bh_height h = bh_height p + 1 \<and> bh_previous_block h = block_id E (sc_parent c)
      \<and> bh_bits h = sc_expected_bits c \<and> bh_timestamp p < bh_timestamp h \<and> sc_mtp c < bh_timestamp h
      \<and> bh_timestamp h \<le> sc_settling_timestamp c
      \<and> (\<exists>hash. pow (sc_seed c) (header_enc h) = Inr hash
           \<and> from_le_bytes (array_bytes hash) \<le> sc_share_target c
           \<and> sc_block_target c < from_le_bytes (array_bytes hash)))"

lemma templates_by_id:
  "map_of (fold (\<lambda>t m. smap_insert (template_id E t) t m) ts m0) k = Some t \<Longrightarrow>
   (\<And>k t. map_of m0 k = Some t \<Longrightarrow> template_id E t = k) \<Longrightarrow> template_id E t = k"
proof (induction ts arbitrary: m0)
  case (Cons a ts)
  have ins: "template_id E t' = k'"
    if "map_of (smap_insert (template_id E a) a m0) k' = Some t'" for k' t'
  proof (cases "k' = template_id E a")
    case False
    then show ?thesis using that by (intro Cons.prems(2)) simp
  qed (use that in simp)
  have "map_of (fold (\<lambda>t m. smap_insert (template_id E t) t m) ts (smap_insert (template_id E a) a m0)) k
      = Some t" using Cons.prems(1) by simp
  from Cons.IH [OF this ins] show ?case .
qed simp

lemma check_share_InrE:
  assumes "check_share E pow hist s c (previous, prefix) share = Inr (previous', prefix')"
  obtains template where
    "ws_previous share = previous" "previous' = workshare_id E share"
    "map_of (sc_templates c) (ws_template_id share) = Some template"
    "prefix' = prefix\<lparr>ww_workshares := ww_workshares prefix @ [share],
                   ww_templates := add_template E template (ww_templates prefix)\<rparr>"
    "share_accepted E pow c share"
    "bh_workshare_root (ws_candidate_header share) = witness_root E prefix"
proof -
  obtain template hash where
    h: "\<not> share_header_bad E c previous share"
    and t: "map_of (sc_templates c) (ws_template_id share) = Some template"
    and r: "bh_workshare_root (ws_candidate_header share) = witness_root E prefix"
    and p: "pow (sc_seed c) (header_enc (ws_candidate_header share)) = Inr hash"
      "hash_meets_target hash (sc_share_target c)" "\<not> hash_meets_target hash (sc_block_target c)"
    and res: "previous' = workshare_id E share" "prefix' = prefix\<lparr>ww_workshares := ww_workshares prefix @ [share],
                   ww_templates := add_template E template (ww_templates prefix)\<rparr>"
    using assms by (auto simp: check_share_def Let_def result_simps)
  from h p have "share_accepted E pow c share"
    by (auto simp: share_accepted_def share_header_bad_def Let_def hash_meets_target_def not_le not_less)
  moreover have "ws_previous share = previous" using h by (simp add: share_header_bad_def Let_def)
  ultimately show thesis using t r res that by blast
qed

lemma add_template_canonical:
  assumes "sorted_wrt (<) (map (template_id E) ts)"
  shows "sorted_wrt (<) (map (template_id E) (add_template E t ts))"
    "template_id E ` set (add_template E t ts) = insert (template_id E t) (template_id E ` set ts)"
proof -
  have d: "distinct (map (template_id E) ts)" using assms by (simp add: strict_sorted_iff)
  show "template_id E ` set (add_template E t ts) = insert (template_id E t) (template_id E ` set ts)"
    by (auto simp: add_template_def list_ex_iff intro: rev_image_eqI)
  show "sorted_wrt (<) (map (template_id E) (add_template E t ts))"
  proof (cases "list_ex (\<lambda>existing. template_id E existing = template_id E t) ts")
    case True
    then show ?thesis using assms by (simp add: add_template_def)
  next
    case False
    then have "distinct (map (template_id E) (ts @ [t]))" using d by (auto simp: list_ex_iff)
    then have "distinct (map (template_id E) (sort_key (template_id E) (ts @ [t])))"
      by (simp only: distinct_map distinct_sort set_sort)
    moreover have "sorted (map (template_id E) (sort_key (template_id E) (ts @ [t])))"
      by (rule sorted_sort_key)
    ultimately have "sorted_wrt (<) (map (template_id E) (sort_key (template_id E) (ts @ [t])))"
      by (simp only: strict_sorted_iff)
    then show ?thesis using False by (simp only: add_template_def if_False)
  qed
qed

text \<open>The witness prefix a share commits to is the canonical witness of the shares before it.\<close>

lemma check_shares_loop:
  assumes "try_fold (check_share E pow hist s c) (previous, prefix) shares = Inr (previous', prefix')"
    and "\<And>k t. map_of (sc_templates c) k = Some t \<Longrightarrow> template_id E t = k"
    and "witness_is_canonical E prefix"
  shows "share_chain E previous shares \<and> (\<forall>share \<in> set shares. share_accepted E pow c share)
    \<and> witness_is_canonical E prefix' \<and> ww_workshares prefix' = ww_workshares prefix @ shares
    \<and> (\<forall>i < length shares. \<exists>w. witness_is_canonical E w
         \<and> ww_workshares w = ww_workshares prefix @ take i shares
         \<and> bh_workshare_root (ws_candidate_header (shares ! i)) = witness_root E w)"
  using assms(1,3)
proof (induction shares arbitrary: previous prefix)
  case (Cons share shares)
  obtain p1 w1 where st: "check_share E pow hist s c (previous, prefix) share = Inr (p1, w1)"
    and rest: "try_fold (check_share E pow hist s c) (p1, w1) shares = Inr (previous', prefix')"
    using Cons.prems(1) by (auto simp: rbind_Inr)
  from st obtain template where
    t: "ws_previous share = previous" "p1 = workshare_id E share"
      "map_of (sc_templates c) (ws_template_id share) = Some template"
    and w1: "w1 = prefix\<lparr>ww_workshares := ww_workshares prefix @ [share],
                   ww_templates := add_template E template (ww_templates prefix)\<rparr>"
    and acc: "share_accepted E pow c share"
    and root: "bh_workshare_root (ws_candidate_header share) = witness_root E prefix"
    by (rule check_share_InrE)
  have id: "template_id E template = ws_template_id share" by (rule assms(2) [OF t(3)])
  have can: "sorted_wrt (<) (map (template_id E) (ww_templates prefix))"
    "ws_template_id ` set (ww_workshares prefix) = template_id E ` set (ww_templates prefix)"
    using Cons.prems(2) by (simp_all add: witness_is_canonical_iff)
  have w1c: "witness_is_canonical E w1"
    using add_template_canonical [OF can(1), of template] can(2) id
    by (simp add: witness_is_canonical_iff w1)
  have w1s: "ww_workshares w1 = ww_workshares prefix @ [share]" by (simp add: w1)
  from Cons.IH [OF rest w1c] have
    ih: "share_chain E p1 shares" "\<forall>share \<in> set shares. share_accepted E pow c share"
      "witness_is_canonical E prefix'" "ww_workshares prefix' = ww_workshares w1 @ shares"
      "\<And>i. i < length shares \<Longrightarrow> \<exists>w. witness_is_canonical E w
         \<and> ww_workshares w = ww_workshares w1 @ take i shares
         \<and> bh_workshare_root (ws_candidate_header (shares ! i)) = witness_root E w" by blast+
  have "\<exists>w. witness_is_canonical E w
         \<and> ww_workshares w = ww_workshares prefix @ take i (share # shares)
         \<and> bh_workshare_root (ws_candidate_header ((share # shares) ! i)) = witness_root E w"
    if "i < length (share # shares)" for i
  proof (cases i)
    case 0
    then show ?thesis using Cons.prems(2) root by (intro exI [of _ prefix]) simp
  next
    case (Suc j)
    then show ?thesis using ih(5) [of j] that w1s by simp
  qed
  then show ?case using ih(1-4) t acc w1s by simp
qed simp

lemma validate_workshares_accepts:
  assumes "validate_workshares E pow w hist s settling = Inr u" and "ww_workshares w \<noteq> []"
  obtains c where "share_context_of E w hist settling = Inr c"
    "share_chain E hash_zero (ww_workshares w)"
    "\<forall>share \<in> set (ww_workshares w). share_accepted E pow c share"
    "\<forall>i < length (ww_workshares w). \<exists>v. witness_is_canonical E v
       \<and> ww_workshares v = take i (ww_workshares w)
       \<and> bh_workshare_root (ws_candidate_header (ww_workshares w ! i)) = witness_root E v"
proof -
  obtain c p v where c: "share_context_of E w hist settling = Inr c"
    and l: "try_fold (check_share E pow hist s c) (hash_zero, witness_empty) (ww_workshares w) = Inr (p, v)"
    using assms by (auto simp: validate_workshares_def result_simps)
  have t: "map_of (sc_templates c) k = Some t \<Longrightarrow> template_id E t = k" for k t
    using c templates_by_id [of E "ww_templates w" "[]" k t]
    by (auto simp: share_context_of_def result_simps Let_def)
  have "witness_is_canonical E witness_empty"
    by (simp add: witness_is_canonical_iff witness_empty_def)
  from check_shares_loop [OF l t this] show thesis
    using c by (intro that [of c]) (simp_all add: witness_empty_def)
qed

text \<open>The context's targets: a valid block target and a strictly larger share target.\<close>

lemma share_context_targets:
  assumes "share_context_of E w hist settling = Inr c"
  shows "sc_parent c = last hist" "sc_expected_bits c = next_bits hist"
    "sc_mtp c = median_time_past hist" "sc_settling_timestamp c = settling"
    "bits_to_target (next_bits hist) = Some (sc_block_target c)"
    "sc_block_target c < sc_share_target c" "sc_block_target c \<le> pow_limit"
proof -
  obtain sb where sb: "bits_to_target (next_bits hist) = Some (sc_block_target c)"
    "workshare_bits (next_bits hist) = Some sb" "bits_to_target sb = Some (sc_share_target c)"
    "sc_parent c = last hist" "sc_expected_bits c = next_bits hist"
    "sc_mtp c = median_time_past hist" "sc_settling_timestamp c = settling"
    using assms by (auto simp: share_context_of_def result_simps Let_def)
  obtain t where t: "bits_to_target (next_bits hist) = Some t" "t \<le> pow_limit"
    by (rule next_bits_decodes)
  then have le: "sc_block_target c \<le> pow_limit" using sb(1) by simp
  obtain sb' st where "workshare_bits (next_bits hist) = Some sb'" "bits_to_target sb' = Some st"
    "sc_block_target c < st" by (rule share_target_exceeds [OF sb(1) le])
  then show "sc_block_target c < sc_share_target c" using sb by simp
  show "sc_parent c = last hist" "sc_expected_bits c = next_bits hist"
    "sc_mtp c = median_time_past hist" "sc_settling_timestamp c = settling"
    "bits_to_target (next_bits hist) = Some (sc_block_target c)" "sc_block_target c \<le> pow_limit"
    using sb le by simp_all
qed

end
