(* ===== verification/Chain_State.thy ===== *)
theory Chain_State
  imports Validation
begin

text \<open>
  The active chain of \<open>src/consensus/chain.rs\<close>: its blocks from genesis on, the ledger after the
  last one and the cumulative work.  A failing call returns the error and leaves the chain as it
  was; a successful one returns the event and the chain.
\<close>

datatype chain_event =
    Extended hash32 u64
  | Reorganized (old_tip: hash32) (new_tip: hash32) (fork_height: nat)
  | Known
  | SideChain

record chain =
  ch_blocks :: "block list"
  ch_state :: ledger
  ch_work :: u256

section \<open>Operations\<close>

text \<open>\<open>None\<close> is the panic of the \<open>expect\<close>; \<open>chain_genesis_Some\<close> shows that it cannot happen.\<close>

definition chain_genesis :: "prims \<Rightarrow> chain option" where
  "chain_genesis E =
     (case cumulative_work [genesis E] of
        Inl e \<Rightarrow> None
      | Inr work \<Rightarrow> Some \<lparr>ch_blocks = [genesis E], ch_state = ledger_default E, ch_work = work\<rparr>)"

fun validate_from ::
    "prims \<Rightarrow> pow_verifier \<Rightarrow> u64 \<Rightarrow> block list \<Rightarrow> ledger \<Rightarrow> block list \<Rightarrow> consensus_error + ledger" where
  "validate_from E pow now before s [] = Inr s"
| "validate_from E pow now before s (b # rest) =
     rbind (validate_block E pow now b before s) (\<lambda>s'.
       validate_from E pow now (before @ [b]) s' rest)"

definition chain_from_blocks ::
    "prims \<Rightarrow> pow_verifier \<Rightarrow> u64 \<Rightarrow> block list \<Rightarrow> consensus_error + chain" where
  "chain_from_blocks E pow now blocks =
     (case blocks of
        [] \<Rightarrow> Inl DifferentGenesis
      | first # rest \<Rightarrow>
          if first \<noteq> genesis E then Inl DifferentGenesis
          else rbind (validate_from E pow now [first] (ledger_default E) rest) (\<lambda>s.
               rbind (cumulative_work blocks) (\<lambda>work.
                 Inr \<lparr>ch_blocks = blocks, ch_state = s, ch_work = work\<rparr>)))"

definition chain_tip :: "chain \<Rightarrow> block" where
  "chain_tip c = last (ch_blocks c)"

definition chain_height :: "chain \<Rightarrow> u64" where
  "chain_height c = bh_height (blk_header (chain_tip c))"

definition block_at :: "chain \<Rightarrow> u64 \<Rightarrow> block option" where
  "block_at c height =
     (if unat height < length (ch_blocks c) then Some (ch_blocks c ! unat height) else None)"

definition block_by_hash :: "prims \<Rightarrow> chain \<Rightarrow> hash32 \<Rightarrow> block option" where
  "block_by_hash E c hash = List.find (\<lambda>b. block_id E b = hash) (ch_blocks c)"

definition chain_append ::
    "prims \<Rightarrow> pow_verifier \<Rightarrow> u64 \<Rightarrow> block \<Rightarrow> chain \<Rightarrow> consensus_error + chain_event \<times> chain" where
  "chain_append E pow now b c =
     (if block_by_hash E c (block_id E b) \<noteq> None then Inr (Known, c)
      else if bh_previous_block (blk_header b) \<noteq> block_id E (chain_tip c) then Inl WrongParent
      else
        rbind (validate_block E pow now b (ch_blocks c) (ch_state c)) (\<lambda>next_state.
        rbind (ok_or (bits_to_target (bh_bits (blk_header b))) InvalidTarget) (\<lambda>target.
        rbind (ok_or (checked_add (ch_work c) (target_work target)) ArithmeticOverflow) (\<lambda>work.
          Inr (Extended (block_id E b) (bh_height (blk_header b)),
               \<lparr>ch_blocks = ch_blocks c @ [b], ch_state = next_state, ch_work = work\<rparr>)))))"

definition fork_index :: "prims \<Rightarrow> block list \<Rightarrow> block list \<Rightarrow> nat" where
  "fork_index E old new =
     length (takeWhile (\<lambda>(left, right). block_id E left = block_id E right) (zip old new)) - 1"

definition consider_chain ::
    "prims \<Rightarrow> pow_verifier \<Rightarrow> u64 \<Rightarrow> block list \<Rightarrow> chain \<Rightarrow> consensus_error + chain_event \<times> chain" where
  "consider_chain E pow now candidate c =
     (if (case candidate of [] \<Rightarrow> None | b # _ \<Rightarrow> Some b)
         \<noteq> (case ch_blocks c of [] \<Rightarrow> None | b # _ \<Rightarrow> Some b)
      then Inl DifferentGenesis
      else
        rbind (chain_from_blocks E pow now candidate) (\<lambda>validated.
        let candidate_tip = block_id E (chain_tip validated);
            preferred = ch_work c < ch_work validated
              \<or> (ch_work validated = ch_work c \<and> candidate_tip < block_id E (chain_tip c))
        in if \<not> preferred then Inr (SideChain, c)
           else Inr (Reorganized (block_id E (chain_tip c)) candidate_tip
                  (fork_index E (ch_blocks c) (ch_blocks validated)), validated)))"

section \<open>Histories\<close>

text \<open>A history grows by blocks that \<open>validate_block\<close> accepts at some time, each with a height
  other than zero: see \<open>genesis_repeats\<close> for what happens without that.\<close>

inductive valid_history :: "prims \<Rightarrow> pow_verifier \<Rightarrow> block list \<Rightarrow> ledger \<Rightarrow> bool"
  for E pow where
  genesis: "valid_history E pow [genesis E] (ledger_default E)"
| extend: "valid_history E pow hist s \<Longrightarrow> validate_block E pow now b hist s = Inr s' \<Longrightarrow>
    bh_height (blk_header b) \<noteq> 0 \<Longrightarrow> block_typed E b \<Longrightarrow> valid_history E pow (hist @ [b]) s'"

inductive_cases valid_historyE: "valid_history E pow hist s"

definition height_of :: "block \<Rightarrow> nat" where
  "height_of b = unat (bh_height (blk_header b))"

definition time_of :: "block \<Rightarrow> nat" where
  "time_of b = unat (bh_timestamp (blk_header b))"

definition supply_at :: "nat \<Rightarrow> nat" where
  "supply_at n = sum_list (map subsidy_nat [0..<n])"

lemma supply_at_simps [simp]: "supply_at 0 = 0" "supply_at (Suc n) = supply_at n + subsidy_nat n"
  by (simp_all add: supply_at_def)

text \<open>While heights fit 32 bits the supply is a valid amount.\<close>

lemma supply_at_bound: "supply_at n \<le> n * 1000000000"
proof (induction n)
  case (Suc n)
  then show ?case using subsidy_nat_bound [of n] by simp
qed simp

lemma supply_in_range: "n \<le> 2 ^ 32 \<Longrightarrow> supply_at n \<le> unat MAX_MONEY"
proof -
  assume "n \<le> 2 ^ 32"
  then have "n * 1000000000 \<le> 2 ^ 32 * 1000000000" by (rule mult_le_mono1)
  then show ?thesis using supply_at_bound [of n] by (simp add: unat_MAX_MONEY)
qed

definition links :: "prims \<Rightarrow> block list \<Rightarrow> bool" where
  "links E bs \<longleftrightarrow> (\<forall>i. Suc i < length bs \<longrightarrow>
     bh_previous_block (blk_header (bs ! Suc i)) = block_id E (bs ! i)
     \<and> time_of (bs ! i) < time_of (bs ! Suc i))"

lemma links_snoc:
  assumes "links E bs" "bs \<noteq> []" "bh_previous_block (blk_header b) = block_id E (last bs)"
    "time_of (last bs) < time_of b"
  shows "links E (bs @ [b])"
  unfolding links_def
proof (intro allI impI)
  fix i assume i: "Suc i < length (bs @ [b])"
  show "bh_previous_block (blk_header ((bs @ [b]) ! Suc i)) = block_id E ((bs @ [b]) ! i)
     \<and> time_of ((bs @ [b]) ! i) < time_of ((bs @ [b]) ! Suc i)"
  proof (cases "Suc i < length bs")
    case True
    then show ?thesis using assms(1) by (simp add: links_def nth_append)
  next
    case False
    then have n: "length bs = Suc i" using i by simp
    then have "bs ! i = last bs" using assms(2) by (simp add: last_conv_nth)
    then show ?thesis using n assms(3,4) by (simp add: nth_append)
  qed
qed

definition few_shares :: "block \<Rightarrow> bool" where
  "few_shares b \<longleftrightarrow> length (ww_workshares (blk_witness b)) \<le> MAX_WORKSHARE_WITNESS_BYTES"

lemma length_put_vec_ge: "length xs \<le> length (put_vec enc xs)"
proof -
  have "length xs \<le> length (concat (map (\<lambda>x. put_bytes (enc x)) xs))"
    by (induction xs) auto
  then show ?thesis by (simp add: put_vec_def put_list_def)
qed

lemma shape_few_shares:
  assumes "validate_witness_shape E (blk_witness b) = Inr ()"
  shows "few_shares b"
proof -
  have "length (witness_enc (blk_witness b)) \<le> MAX_WORKSHARE_WITNESS_BYTES"
    using assms by (auto simp: validate_witness_shape_def split: if_splits)
  then show ?thesis
    using length_put_vec_ge [of "ww_workshares (blk_witness b)" workshare_enc]
    by (simp add: few_shares_def witness_enc_def)
qed

lemma window_small_few:
  assumes "\<forall>b \<in> set hist. few_shares b"
  shows "window_small hist"
proof -
  have "length (window_shares bs) \<le> length bs * MAX_WORKSHARE_WITNESS_BYTES"
    if "\<forall>b \<in> set bs. few_shares b" for bs
    using that by (induction bs) (auto simp: window_shares_def few_shares_def add_mono)
  moreover have "\<forall>b \<in> set (reward_window hist). few_shares b"
    using assms by (auto simp: reward_window_def dest: in_set_dropD)
  ultimately have "length (window_shares (reward_window hist))
      \<le> length (reward_window hist) * MAX_WORKSHARE_WITNESS_BYTES" by blast
  also have "\<dots> \<le> 1440 * MAX_WORKSHARE_WITNESS_BYTES"
    by (intro mult_le_mono1) (simp add: reward_window_def REWARD_WINDOW_def)
  finally show ?thesis by (simp add: window_small_def MAX_WORKSHARE_WITNESS_BYTES_def)
qed

definition history_inv :: "prims \<Rightarrow> block list \<Rightarrow> ledger \<Rightarrow> bool" where
  "history_inv E hist s \<longleftrightarrow> hist \<noteq> [] \<and> hd hist = genesis E
     \<and> (\<forall>i < length hist. height_of (hist ! i) = i) \<and> links E hist
     \<and> (\<forall>b \<in> set hist. block_typed E b \<and> few_shares b)
     \<and> ledger_ok E s \<and> ledger_supply s = supply_at (length hist)
     \<and> ledger_root s = bh_state_root (blk_header (last hist))"

lemma genesis_inv: "history_inv E [genesis E] (ledger_default E)"
  by (simp add: history_inv_def height_of_def genesis_def links_def block_typed_def few_shares_def
      witness_empty_def subsidy_nat_def)

lemma history_inv_small: "history_inv E hist s \<Longrightarrow> window_small hist"
  by (rule window_small_few) (simp add: history_inv_def)

lemma extend_inv:
  assumes inv: "history_inv E hist s" and v: "validate_block E pow now b hist s = Inr s'"
    and h0: "bh_height (blk_header b) \<noteq> 0" and typed: "block_typed E b"
  shows "history_inv E (hist @ [b]) s'"
proof -
  obtain seed target claim alloc fees hash where
    hc: "validate_header_context E (blk_header b) (last hist) hist now = Inr ()"
    and shape: "validate_witness_shape E (blk_witness b) = Inr ()"
    and claim: "blk_reward_claim b = Some claim"
    and tr: "transition_for_candidate E (bh_height (blk_header b)) claim (blk_transactions b) hist s
      = Inr (s', alloc, fees)"
    and root: "ledger_root s' = bh_state_root (blk_header b)"
    using validate_block_InrE [OF v h0] by metis
  have ne: "hist \<noteq> []" and hd: "hd hist = genesis E" and ok: "ledger_ok E s"
    and ht: "\<forall>i < length hist. height_of (hist ! i) = i" and lk: "links E hist"
    and bt: "\<forall>b \<in> set hist. block_typed E b \<and> few_shares b"
    and sup: "ledger_supply s = supply_at (length hist)"
    using inv by (simp_all add: history_inv_def)
  note h = hc [unfolded header_context_Inr]
  let ?n = "length hist"
  have "height_of (last hist) = ?n - 1" using ht ne by (simp add: last_conv_nth)
  then have hp: "unat (bh_height (blk_header (last hist))) = ?n - 1" by (simp add: height_of_def)
  have hb: "bh_height (blk_header b) = bh_height (blk_header (last hist)) + 1" using h by blast
  have "unat (bh_height (blk_header b)) = unat (bh_height (blk_header (last hist))) + 1"
    using h0 unfolding hb by (simp add: unatSuc add.commute [of _ 1])
  then have hn: "height_of b = ?n" using hp ne by (simp add: height_of_def)
  have claim_ok: "claim_ok E claim" and txs: "\<forall>t \<in> set (blk_transactions b). transaction_ok E t"
    using typed claim by (simp_all add: block_typed_def)
  have ht': "\<forall>b \<in> set hist. block_typed E b" using bt by blast
  note te = transition_effect [OF tr ok claim_ok txs ht' history_inv_small [OF inv]]
  have "links E (hist @ [b])"
  proof (rule links_snoc [OF lk ne])
    show "bh_previous_block (blk_header b) = block_id E (last hist)" "time_of (last hist) < time_of b"
      using h by (simp_all add: time_of_def word_less_nat_alt)
  qed
  moreover have "ledger_supply s' = supply_at (length (hist @ [b]))"
    using te(2) sup hn by (simp add: height_of_def)
  ultimately show ?thesis
    using ne hd ht hn bt typed shape_few_shares [OF shape] te(1) root
    by (auto simp: history_inv_def nth_append less_Suc_eq)
qed

lemma valid_history_inv: "valid_history E pow hist s \<Longrightarrow> history_inv E hist s"
proof (induction rule: valid_history.induct)
  case genesis
  show ?case by (rule genesis_inv)
next
  case (extend hist s now b s')
  from extend.IH extend.hyps(2,3,4) show ?case by (rule extend_inv)
qed

section \<open>Cumulative work\<close>

definition block_work :: "block \<Rightarrow> nat" where
  "block_work b = (case bits_to_target (bh_bits (blk_header b)) of
     None \<Rightarrow> 0 | Some target \<Rightarrow> unat (target_work target))"

lemma cumulative_work_Inr:
  assumes "cumulative_work bs = Inr w"
  shows "unat w = sum_list (map block_work bs)"
    "\<forall>b \<in> set bs. bits_to_target (bh_bits (blk_header b)) \<noteq> None"
proof -
  have "unat w = unat v + sum_list (map block_work bs)
      \<and> (\<forall>b \<in> set bs. bits_to_target (bh_bits (blk_header b)) \<noteq> None)"
    if "try_fold (\<lambda>work b.
       rbind (ok_or (bits_to_target (bh_bits (blk_header b))) InvalidTarget) (\<lambda>target.
         ok_or (checked_add work (target_work target)) ArithmeticOverflow)) v bs = Inr w" for v
    using that
    by (induction bs arbitrary: v) (fastforce simp: result_simps block_work_def checked_add_Some)+
  from this [of 0] show "unat w = sum_list (map block_work bs)"
    "\<forall>b \<in> set bs. bits_to_target (bh_bits (blk_header b)) \<noteq> None"
    using assms by (simp_all add: cumulative_work_def)
qed

lemma cumulative_work_snoc:
  "cumulative_work (bs @ [b]) =
     rbind (cumulative_work bs) (\<lambda>work.
     rbind (ok_or (bits_to_target (bh_bits (blk_header b))) InvalidTarget) (\<lambda>target.
       ok_or (checked_add work (target_work target)) ArithmeticOverflow))"
  by (simp add: cumulative_work_def try_fold_append)

lemma genesis_target:
  obtains t where "bits_to_target (bh_bits (blk_header (genesis E))) = Some t"
proof -
  obtain t where "bits_to_target (next_bits []) = Some t" by (rule next_bits_decodes)
  then show thesis by (intro that [of t]) (simp add: next_bits_def genesis_def)
qed

lemma genesis_work:
  obtains w where "cumulative_work [genesis E] = Inr w" "unat w = block_work (genesis E)"
proof -
  obtain t where t: "bits_to_target (bh_bits (blk_header (genesis E))) = Some t"
    by (rule genesis_target)
  then show thesis
    by (intro that [of "target_work t"])
      (simp_all add: cumulative_work_def block_work_def checked_add_def ok_or_def
        unat_bound [of "target_work t", simplified])
qed

lemma chain_genesis_Some:
  obtains w where "chain_genesis E
      = Some \<lparr>ch_blocks = [genesis E], ch_state = ledger_default E, ch_work = w\<rparr>"
    "cumulative_work [genesis E] = Inr w"
  by (rule genesis_work [of E]) (rule that, simp_all add: chain_genesis_def)

section \<open>Chains of valid blocks\<close>

text \<open>A chain is well formed when its blocks are a history that ends in its ledger and its work is
  their cumulative work.\<close>

definition chain_ok :: "prims \<Rightarrow> pow_verifier \<Rightarrow> chain \<Rightarrow> bool" where
  "chain_ok E pow c \<longleftrightarrow> valid_history E pow (ch_blocks c) (ch_state c)
     \<and> cumulative_work (ch_blocks c) = Inr (ch_work c)"

lemma chain_genesis_ok: "chain_genesis E = Some c \<Longrightarrow> chain_ok E pow c"
  by (rule chain_genesis_Some [of E]) (auto simp: chain_ok_def valid_history.genesis)

lemma validate_block_height_0:
  "bh_height (blk_header b) = 0 \<Longrightarrow>
   validate_block E pow now b hist s = Inr s' \<longleftrightarrow> b = genesis E \<and> s' = ledger_default E"
  by (auto simp: validate_block_def validate_genesis_def result_simps)

lemma block_by_hash_None:
  "block_by_hash E c h = None \<longleftrightarrow> h \<notin> block_id E ` set (ch_blocks c)"
  by (auto simp: block_by_hash_def find_None_iff)

lemma chain_ok_genesis: "chain_ok E pow c \<Longrightarrow> genesis E \<in> set (ch_blocks c)"
  using valid_history_inv [of E pow "ch_blocks c" "ch_state c"]
  by (auto simp: chain_ok_def history_inv_def dest: hd_in_set)

lemma chain_append_InrE:
  assumes "chain_append E pow now b c = Inr (ev, c')"
  obtains (known) "block_id E b \<in> block_id E ` set (ch_blocks c)" "ev = Known" "c' = c"
  | (extended) s' w where "block_id E b \<notin> block_id E ` set (ch_blocks c)"
      "bh_previous_block (blk_header b) = block_id E (chain_tip c)"
      "validate_block E pow now b (ch_blocks c) (ch_state c) = Inr s'"
      "unat w = unat (ch_work c) + block_work b"
      "bits_to_target (bh_bits (blk_header b)) \<noteq> None"
      "ev = Extended (block_id E b) (bh_height (blk_header b))"
      "c' = \<lparr>ch_blocks = ch_blocks c @ [b], ch_state = s', ch_work = w\<rparr>"
proof (cases "block_by_hash E c (block_id E b) = None")
  case True
  with assms obtain s' t w where *:
    "bh_previous_block (blk_header b) = block_id E (chain_tip c)"
    "validate_block E pow now b (ch_blocks c) (ch_state c) = Inr s'"
    "bits_to_target (bh_bits (blk_header b)) = Some t" "checked_add (ch_work c) (target_work t) = Some w"
    "ev = Extended (block_id E b) (bh_height (blk_header b))"
    "c' = \<lparr>ch_blocks = ch_blocks c @ [b], ch_state = s', ch_work = w\<rparr>"
    by (auto simp: chain_append_def result_simps split: if_splits)
  then show thesis using True
    by (intro extended [of s' w]) (simp_all add: block_by_hash_None block_work_def checked_add_Some)
next
  case False
  then show thesis using assms by (intro known) (auto simp: chain_append_def block_by_hash_None)
qed

lemma chain_append_ok:
  assumes ok: "chain_ok E pow c" and app: "chain_append E pow now b c = Inr (ev, c')"
    and typed: "block_typed E b"
  shows "chain_ok E pow c'"
  using app
proof (cases rule: chain_append_InrE)
  case (extended s' w)
  have "bh_height (blk_header b) \<noteq> 0"
  proof
    assume "bh_height (blk_header b) = 0"
    then have "b = genesis E" using extended(3) by (simp add: validate_block_height_0)
    then show False using extended(1) chain_ok_genesis [OF ok] by blast
  qed
  moreover obtain t where t: "bits_to_target (bh_bits (blk_header b)) = Some t"
    using extended(5) by blast
  moreover have "checked_add (ch_work c) (target_work t) = Some w"
    using extended(4) t by (simp add: checked_add_Some block_work_def)
  ultimately show ?thesis
    using ok typed extended(3) valid_history.extend [of E pow "ch_blocks c" "ch_state c" now b s']
    by (simp add: chain_ok_def extended(7) cumulative_work_snoc)
next
  case known
  then show ?thesis using ok by simp
qed

text \<open>Importing a list of blocks is appending them one by one.\<close>

lemma validate_from_append:
  "validate_from E pow now before s (xs @ ys) =
     rbind (validate_from E pow now before s xs) (\<lambda>s'.
       validate_from E pow now (before @ xs) s' ys)"
  by (induction xs arbitrary: before s) (auto simp: rbind_def split: sum.split)

lemma chain_from_blocks_Inr:
  "chain_from_blocks E pow now blocks = Inr c \<longleftrightarrow>
     (\<exists>rest s. blocks = genesis E # rest
        \<and> validate_from E pow now [genesis E] (ledger_default E) rest = Inr s
        \<and> cumulative_work blocks = Inr (ch_work c) \<and> ch_blocks c = blocks \<and> ch_state c = s)"
  by (cases blocks; cases c) (auto simp: chain_from_blocks_def result_simps split: if_splits)

lemma chain_from_blocks_snoc:
  "bs \<noteq> [] \<Longrightarrow> chain_from_blocks E pow now (bs @ [b]) = Inr c' \<longleftrightarrow>
     (\<exists>c. chain_from_blocks E pow now bs = Inr c
        \<and> validate_block E pow now b bs (ch_state c) = Inr (ch_state c')
        \<and> cumulative_work (bs @ [b]) = Inr (ch_work c') \<and> ch_blocks c' = bs @ [b])"
proof (cases bs)
  case (Cons g rest)
  have w: "\<exists>w. cumulative_work bs = Inr w" if "cumulative_work (bs @ [b]) = Inr v" for v
    using that by (auto simp: cumulative_work_snoc result_simps)
  show ?thesis
  proof
    assume "chain_from_blocks E pow now (bs @ [b]) = Inr c'"
    then have g: "g = genesis E"
      and v: "validate_from E pow now [genesis E] (ledger_default E) (rest @ [b]) = Inr (ch_state c')"
      and cw: "cumulative_work (bs @ [b]) = Inr (ch_work c')" and cb: "ch_blocks c' = bs @ [b]"
      by (auto simp: chain_from_blocks_Inr Cons)
    obtain s where s: "validate_from E pow now [genesis E] (ledger_default E) rest = Inr s"
      "validate_block E pow now b bs s = Inr (ch_state c')"
      using v by (auto simp: validate_from_append result_simps Cons g)
    obtain w where w: "cumulative_work bs = Inr w" using w [OF cw] by blast
    show "\<exists>c. chain_from_blocks E pow now bs = Inr c
        \<and> validate_block E pow now b bs (ch_state c) = Inr (ch_state c')
        \<and> cumulative_work (bs @ [b]) = Inr (ch_work c') \<and> ch_blocks c' = bs @ [b]"
      using s w cw cb
      by (intro exI [of _ "\<lparr>ch_blocks = bs, ch_state = s, ch_work = w\<rparr>"])
        (simp add: chain_from_blocks_Inr Cons g)
  next
    assume "\<exists>c. chain_from_blocks E pow now bs = Inr c
        \<and> validate_block E pow now b bs (ch_state c) = Inr (ch_state c')
        \<and> cumulative_work (bs @ [b]) = Inr (ch_work c') \<and> ch_blocks c' = bs @ [b]"
    then show "chain_from_blocks E pow now (bs @ [b]) = Inr c'"
      by (auto simp: chain_from_blocks_Inr Cons validate_from_append result_simps)
  qed
qed simp

lemma chain_from_blocks_ok:
  assumes "chain_from_blocks E pow now bs = Inr c"
    and "\<forall>b \<in> set (tl bs). bh_height (blk_header b) \<noteq> 0 \<and> block_typed E b"
  shows "chain_ok E pow c"
  using assms
proof (induction bs arbitrary: c rule: rev_induct)
  case (snoc b bs)
  show ?case
  proof (cases "bs = []")
    case True
    then have "ch_blocks c = [genesis E]" "ch_state c = ledger_default E"
      "cumulative_work [genesis E] = Inr (ch_work c)"
      using snoc.prems(1) by (auto simp: chain_from_blocks_Inr)
    then show ?thesis by (simp add: chain_ok_def valid_history.genesis)
  next
    case False
    then obtain c0 where c0: "chain_from_blocks E pow now bs = Inr c0"
      and v: "validate_block E pow now b bs (ch_state c0) = Inr (ch_state c)"
      and w: "cumulative_work (bs @ [b]) = Inr (ch_work c)" and cb: "ch_blocks c = bs @ [b]"
      using snoc.prems(1) by (auto simp: chain_from_blocks_snoc)
    have "chain_ok E pow c0" using snoc.IH [OF c0] snoc.prems(2) False by simp
    moreover have "ch_blocks c0 = bs" using c0 by (auto simp: chain_from_blocks_Inr)
    ultimately have "valid_history E pow bs (ch_state c0)" by (simp add: chain_ok_def)
    from valid_history.extend [OF this v] show ?thesis
      using snoc.prems(2) False w by (simp add: chain_ok_def cb)
  qed
qed (simp add: chain_from_blocks_def)

lemma append_from_blocks:
  assumes fb: "chain_from_blocks E pow now bs = Inr c" and new: "block_id E b \<notin> block_id E ` set bs"
    and h: "bh_height (blk_header b) \<noteq> 0"
  shows "chain_from_blocks E pow now (bs @ [b]) = Inr c' \<longleftrightarrow>
    (\<exists>ev. chain_append E pow now b c = Inr (ev, c'))"
proof -
  have cb: "ch_blocks c = bs" and cw: "cumulative_work bs = Inr (ch_work c)" and ne: "bs \<noteq> []"
    using fb by (auto simp: chain_from_blocks_Inr)
  have unknown: "block_by_hash E c (block_id E b) = None" using new by (simp add: block_by_hash_None cb)
  show ?thesis
  proof
    assume "chain_from_blocks E pow now (bs @ [b]) = Inr c'"
    then have v: "validate_block E pow now b bs (ch_state c) = Inr (ch_state c')"
      and w: "cumulative_work (bs @ [b]) = Inr (ch_work c')" and b': "ch_blocks c' = bs @ [b]"
      using fb by (auto simp: chain_from_blocks_snoc [OF ne])
    have "validate_header_context E (blk_header b) (last bs) bs now = Inr ()"
      using validate_block_InrE [OF v h] by metis
    then have "bh_previous_block (blk_header b) = block_id E (chain_tip c)"
      by (simp add: header_context_Inr chain_tip_def cb)
    moreover obtain t where "bits_to_target (bh_bits (blk_header b)) = Some t"
      "checked_add (ch_work c) (target_work t) = Some (ch_work c')"
      using w cw by (auto simp: cumulative_work_snoc result_simps)
    ultimately show "\<exists>ev. chain_append E pow now b c = Inr (ev, c')"
      using unknown v b' by (simp add: chain_append_def result_simps cb)
  next
    assume "\<exists>ev. chain_append E pow now b c = Inr (ev, c')"
    then obtain ev where "chain_append E pow now b c = Inr (ev, c')" by blast
    then show "chain_from_blocks E pow now (bs @ [b]) = Inr c'"
      using fb cb cw new unknown
      by (auto simp: chain_append_def chain_from_blocks_snoc [OF ne] cumulative_work_snoc result_simps)
  qed
qed

section \<open>The genesis block inside a candidate\<close>

text \<open>\<open>validate_block\<close> accepts the genesis block behind any history, resets the ledger and needs
  neither a parent nor work, so that a list of its copies is a valid candidate.\<close>

lemma genesis_accepted: "validate_block E pow now (genesis E) hist s = Inr (ledger_default E)"
  by (subst validate_block_height_0) (simp_all add: genesis_def)

lemma genesis_copies_state:
  "validate_from E pow now hist (ledger_default E) (replicate n (genesis E)) = Inr (ledger_default E)"
  by (induction n arbitrary: hist) (simp_all add: genesis_accepted)

lemma genesis_copies_work:
  assumes "Suc n * block_work (genesis E) < 2 ^ 256"
  shows "\<exists>w. cumulative_work (replicate (Suc n) (genesis E)) = Inr w
    \<and> unat w = Suc n * block_work (genesis E)"
  using assms
proof (induction n)
  case 0
  obtain w where "cumulative_work [genesis E] = Inr w" "unat w = block_work (genesis E)"
    by (rule genesis_work)
  then show ?case by simp
next
  case (Suc n)
  obtain w where w: "cumulative_work (replicate (Suc n) (genesis E)) = Inr w"
    "unat w = Suc n * block_work (genesis E)" using Suc by (auto simp: algebra_simps)
  obtain t where t: "bits_to_target (bh_bits (blk_header (genesis E))) = Some t"
    by (rule genesis_target)
  have bw: "unat (target_work t) = block_work (genesis E)" using t by (simp add: block_work_def)
  have sum: "unat w + unat (target_work t) = Suc (Suc n) * block_work (genesis E)"
    unfolding w(2) bw by (rule add.commute [THEN trans, OF mult_Suc [symmetric]])
  have add: "unat (w + target_work t) = unat w + unat (target_work t)"
    by (rule unat_add_exact) (use sum Suc.prems in simp)
  then have "checked_add w (target_work t) = Some (w + target_work t)"
    by (simp only: checked_add_Some)
  moreover have "replicate (Suc (Suc n)) (genesis E) = replicate (Suc n) (genesis E) @ [genesis E]"
    by (simp add: replicate_append_same)
  ultimately have "cumulative_work (replicate (Suc (Suc n)) (genesis E)) = Inr (w + target_work t)"
    using w(1) t by (simp only: cumulative_work_snoc) (simp add: result_simps)
  then show ?case using add sum by (intro exI [of _ "w + target_work t"]) simp
qed

section \<open>Times and seeds of a history\<close>

lemma history_time_mono:
  assumes "links E bs" and "i \<le> j" and "j < length bs"
  shows "time_of (bs ! i) \<le> time_of (bs ! j)"
  using assms(2,3)
proof (induction j rule: dec_induct)
  case (step j)
  then have "time_of (bs ! j) < time_of (bs ! Suc j)" using assms(1) by (simp add: links_def)
  with step show ?case by simp
qed simp

text \<open>The median of the last timestamps of a history is the timestamp of a fixed earlier block.\<close>

lemma median_time_past_at:
  assumes "links E hist" and "hist \<noteq> []"
  shows "median_time_past hist = bh_timestamp (blk_header
    (hist ! (let m = min (length hist) 11 in length hist - m + m div 2)))"
proof -
  let ?m = "min (length hist) 11" and ?s = "length hist - 11"
  let ?ts = "map (\<lambda>b. bh_timestamp (blk_header b)) (drop ?s hist)"
  have "sorted ?ts"
    unfolding sorted_iff_nth_mono_less
    using history_time_mono [OF assms(1)] by (simp add: word_le_nat_alt time_of_def)
  then have s: "sort ?ts = ?ts" by (rule sorted_sort_id)
  have len: "length ?ts = ?m" by simp
  have m: "?m div 2 < ?m" "?s + ?m div 2 = length hist - ?m + ?m div 2" "?s + ?m div 2 < length hist"
    using assms(2) by (auto simp: min_def)
  have r: "?ts ! (?m div 2) = bh_timestamp (blk_header (hist ! (?s + ?m div 2)))"
    using m(1,3) by (subst nth_map) simp_all
  show ?thesis
    unfolding median_time_past_def MEDIAN_TIME_SPAN_def Let_def s len
    by (simp only: m(1) if_True r m(2))
qed

lemma median_time_past_le:
  assumes "links E hist" and "hist \<noteq> []"
  shows "median_time_past hist \<le> bh_timestamp (blk_header (last hist))"
proof -
  let ?i = "let m = min (length hist) 11 in length hist - m + m div 2"
  have "?i \<le> length hist - 1" using assms(2) by (auto simp: Let_def min_def Suc_le_eq)
  then have "time_of (hist ! ?i) \<le> time_of (hist ! (length hist - 1))"
    using assms by (intro history_time_mono) simp_all
  then show ?thesis
    using assms(2) by (simp add: median_time_past_at [OF assms] word_le_nat_alt time_of_def last_conv_nth)
qed

text \<open>The reference block of the next height's seed is in the history.\<close>

lemma randomx_seed_available:
  assumes inv: "history_inv E hist s" and h: "unat height = length hist"
  shows "\<exists>seed. randomx_seed E hist height = Inr seed"
proof (cases "height < RANDOMX_EPOCH_BLOCKS")
  case False
  let ?r = "randomx_seed_reference_height height"
  have le: "(height div RANDOMX_EPOCH_BLOCKS) * RANDOMX_EPOCH_BLOCKS \<le> height"
    by (simp add: word_le_nat_alt unat_mult_exact unat_div RANDOMX_EPOCH_BLOCKS_def
        order_le_less_trans [OF div_times_less_eq_dividend unat_bound [of height, simplified]])
  have pos: "2048 \<le> unat height" using False
    by (simp add: RANDOMX_EPOCH_BLOCKS_def word_less_nat_alt not_less)
  have "unat ?r < unat height" using le pos
    by (auto simp: randomx_seed_reference_height_def False unat_saturating_sub RANDOMX_SEED_LAG_def
        word_le_nat_alt Let_def)
  then have r: "unat ?r < length hist" using h by simp
  then have "unat (bh_height (blk_header (hist ! unat ?r))) = unat ?r"
    using inv by (simp add: history_inv_def height_of_def)
  then have "hist ! unat ?r \<in> set hist" "bh_height (blk_header (hist ! unat ?r)) = ?r"
    using r by (simp_all add: word_unat_eq_iff)
  then obtain b where "List.find (\<lambda>b. bh_height (blk_header b) = ?r) hist = Some b"
    by (cases "List.find (\<lambda>b. bh_height (blk_header b) = ?r) hist") (auto simp: find_None_iff)
  then show ?thesis using False by (simp add: randomx_seed_def ok_or_def Let_def)
qed (simp add: randomx_seed_def)

section \<open>Choosing between chains\<close>

text \<open>What the choice depends on: the work and the id of the tip.\<close>

definition chain_key :: "prims \<Rightarrow> chain \<Rightarrow> u256 \<times> hash32" where
  "chain_key E c = (ch_work c, block_id E (chain_tip c))"

fun outranks :: "u256 \<times> hash32 \<Rightarrow> u256 \<times> hash32 \<Rightarrow> bool" where
  "outranks (w, t) (w', t') \<longleftrightarrow> w' < w \<or> (w = w' \<and> t < t')"

lemma outranks_irrefl [simp]: "\<not> outranks k k"
  by (cases k) simp

lemma outranks_trans: "outranks a b \<Longrightarrow> outranks b c \<Longrightarrow> outranks a c"
  by (cases a; cases b; cases c) auto

lemma outranks_total: "a \<noteq> b \<Longrightarrow> outranks a b \<or> outranks b a"
  by (cases a; cases b) auto

lemma outranks_asym: "outranks a b \<Longrightarrow> \<not> outranks b a"
  using outranks_trans [of a b a] by auto

lemma not_outranks_trans: "\<not> outranks a b \<Longrightarrow> \<not> outranks b c \<Longrightarrow> \<not> outranks a c"
  by (cases a; cases b; cases c) auto

definition same_genesis :: "block list \<Rightarrow> chain \<Rightarrow> bool" where
  "same_genesis candidate c \<longleftrightarrow> candidate \<noteq> [] \<and> ch_blocks c \<noteq> [] \<and> hd candidate = hd (ch_blocks c)"

lemma consider_chain_cases:
  assumes "ch_blocks c \<noteq> []"
  shows "consider_chain E pow now candidate c =
    (if \<not> same_genesis candidate c then Inl DifferentGenesis
     else case chain_from_blocks E pow now candidate of
       Inl e \<Rightarrow> Inl e
     | Inr v \<Rightarrow> if outranks (chain_key E v) (chain_key E c)
         then Inr (Reorganized (block_id E (chain_tip c)) (block_id E (chain_tip v))
                (fork_index E (ch_blocks c) (ch_blocks v)), v)
         else Inr (SideChain, c))"
proof (cases "same_genesis candidate c")
  case True
  then obtain g r r' where "candidate = g # r" "ch_blocks c = g # r'"
    by (cases candidate; cases "ch_blocks c") (auto simp: same_genesis_def)
  then have first: "(case candidate of [] \<Rightarrow> None | b # _ \<Rightarrow> Some b)
      = (case ch_blocks c of [] \<Rightarrow> None | b # _ \<Rightarrow> Some b)" by simp
  show ?thesis
    unfolding consider_chain_def chain_key_def Let_def rbind_def outranks.simps
    by (simp only: first True if_True if_False not_True_eq_False simp_thms eq_commute cong: sum.case_cong)
      (simp split: sum.split)
next
  case False
  then have "(case candidate of [] \<Rightarrow> None | b # _ \<Rightarrow> Some b)
      \<noteq> (case ch_blocks c of [] \<Rightarrow> None | b # _ \<Rightarrow> Some b)"
    using assms by (cases candidate; cases "ch_blocks c") (auto simp: same_genesis_def)
  then show ?thesis using False unfolding consider_chain_def by (simp only: if_True not_False_eq_True)
qed

text \<open>The chain a node holds after one candidate, an error leaving it as it was.\<close>

definition consider_step :: "prims \<Rightarrow> pow_verifier \<Rightarrow> u64 \<Rightarrow> block list \<Rightarrow> chain \<Rightarrow> chain" where
  "consider_step E pow now candidate c =
     (case consider_chain E pow now candidate c of Inl e \<Rightarrow> c | Inr (ev, c') \<Rightarrow> c')"

lemma from_blocks_starts:
  "chain_from_blocks E pow now bs = Inr v \<Longrightarrow> ch_blocks v = bs \<and> bs \<noteq> [] \<and> hd bs = genesis E"
  by (auto simp: chain_from_blocks_Inr)

lemma consider_step_cases:
  assumes "ch_blocks c \<noteq> []" and "hd (ch_blocks c) = genesis E"
  shows "consider_step E pow now candidate c =
    (case chain_from_blocks E pow now candidate of
       Inl e \<Rightarrow> c
     | Inr v \<Rightarrow> if outranks (chain_key E v) (chain_key E c) then v else c)"
proof (cases "chain_from_blocks E pow now candidate")
  case (Inl e)
  then show ?thesis by (simp add: consider_step_def consider_chain_cases [OF assms(1)])
next
  case (Inr v)
  then have "same_genesis candidate c"
    using assms from_blocks_starts [OF Inr] by (simp add: same_genesis_def)
  then show ?thesis using Inr by (simp add: consider_step_def consider_chain_cases [OF assms(1)])
qed

definition valid_keys :: "prims \<Rightarrow> pow_verifier \<Rightarrow> u64 \<Rightarrow> block list set \<Rightarrow> (u256 \<times> hash32) set" where
  "valid_keys E pow now cs = {chain_key E v | v candidate.
     candidate \<in> cs \<and> chain_from_blocks E pow now candidate = Inr v}"

lemma valid_keys_insert:
  "valid_keys E pow now (insert candidate cs) =
     (case chain_from_blocks E pow now candidate of Inl e \<Rightarrow> {} | Inr v \<Rightarrow> {chain_key E v})
     \<union> valid_keys E pow now cs"
  by (auto simp: valid_keys_def split: sum.split)

lemma consider_fold_best:
  assumes "ch_blocks c \<noteq> []" and "hd (ch_blocks c) = genesis E"
  shows "chain_key E (fold (consider_step E pow now) cs c)
      \<in> insert (chain_key E c) (valid_keys E pow now (set cs))
    \<and> (\<forall>k \<in> insert (chain_key E c) (valid_keys E pow now (set cs)).
        \<not> outranks k (chain_key E (fold (consider_step E pow now) cs c)))"
  using assms
proof (induction cs arbitrary: c)
  case (Cons candidate cs)
  let ?c = "consider_step E pow now candidate c"
  have st: "ch_blocks ?c \<noteq> [] \<and> hd (ch_blocks ?c) = genesis E"
    using Cons.prems from_blocks_starts [of E pow now candidate]
    by (auto simp: consider_step_cases [OF Cons.prems] split: sum.split)
  note ih = Cons.IH [OF conjunct1 [OF st] conjunct2 [OF st]]
  show ?case
  proof (cases "chain_from_blocks E pow now candidate")
    case (Inl e)
    then have "?c = c" by (simp add: consider_step_cases [OF Cons.prems])
    then show ?thesis using ih Inl by (simp add: valid_keys_insert)
  next
    case (Inr v)
    show ?thesis
    proof (cases "outranks (chain_key E v) (chain_key E c)")
      case True
      then have v: "?c = v" using Inr by (simp add: consider_step_cases [OF Cons.prems])
      have "\<not> outranks (chain_key E c) (chain_key E (fold (consider_step E pow now) cs v))"
        using ih outranks_trans [OF True] unfolding v by blast
      then show ?thesis using ih Inr by (simp add: v valid_keys_insert)
    next
      case False
      then have c: "?c = c" using Inr by (simp add: consider_step_cases [OF Cons.prems])
      have "\<not> outranks (chain_key E v) (chain_key E (fold (consider_step E pow now) cs c))"
        using ih not_outranks_trans [OF False] unfolding c by blast
      then show ?thesis
        using ih unfolding fold_simps c list.set valid_keys_insert Inr sum.case by blast
    qed
  qed
qed (simp add: valid_keys_def)

lemma best_key_unique:
  assumes "k \<in> K" "\<forall>x \<in> K. \<not> outranks x k" "k' \<in> K" "\<forall>x \<in> K. \<not> outranks x k'"
  shows "k = k'"
  using assms outranks_total [of k k'] by blast

section \<open>One block\<close>

lemma block_step:
  assumes hist: "valid_history E pow hist s" and v: "validate_block E pow now b hist s = Inr s'"
    and h0: "bh_height (blk_header b) \<noteq> 0" and typed: "block_typed E b"
  obtains claim alloc fees where "blk_reward_claim b = Some claim"
    "rc_height claim = bh_height (blk_header b)" "rc_amount claim = ra_finder_amount alloc"
    "unat fees = sum_list (map (\<lambda>t. unat (tx_fee t)) (blk_transactions b))"
    "reward_allocation (bh_height (blk_header b)) (rc_finder claim) fees hist = Inr alloc"
    "\<And>a. bal s' a + sum_list (map (paid_by a) (blk_transactions b))
        = bal s a + pend s (bh_height (blk_header b), a) + sum_list (map (paid_to a) (blk_transactions b))"
    "\<And>k a. pend s' (k, a) = (if k = bh_height (blk_header b) then 0 else pend s (k, a))
       + (if k = bh_height (blk_header b) + REWARD_MATURITY
          then (if a = rc_finder claim then unat (rc_amount claim) else 0)
            + reward_to a (ra_workshare_rewards alloc) else 0)"
    "\<And>a. nonce_of s' a = nonce_of s a + length (filter (\<lambda>t. tx_sender t = a) (blk_transactions b))"
    "\<And>a. map (\<lambda>t. unat (tx_nonce t)) (filter (\<lambda>t. tx_sender t = a) (blk_transactions b))
        = [nonce_of s a ..< nonce_of s' a]"
    "\<forall>t \<in> set (blk_transactions b). transaction_signed E t"
    "distinct (map (transaction_id E) (blk_transactions b))"
proof -
  have inv: "history_inv E hist s" using hist by (rule valid_history_inv)
  obtain claim alloc fees where
    claim: "blk_reward_claim b = Some claim" "rc_height claim = bh_height (blk_header b)"
    and tr: "transition_for_candidate E (bh_height (blk_header b)) claim (blk_transactions b) hist s
      = Inr (s', alloc, fees)"
    and am: "rc_amount claim = ra_finder_amount alloc"
    using validate_block_InrE [OF v h0] by metis
  have claim_ok: "claim_ok E claim" and txs: "\<forall>t \<in> set (blk_transactions b). transaction_ok E t"
    using typed claim by (simp_all add: block_typed_def)
  have ok: "ledger_ok E s" and bt: "\<forall>b \<in> set hist. block_typed E b"
    using inv by (simp_all add: history_inv_def)
  note te = transition_effect [OF tr ok claim_ok txs bt history_inv_small [OF inv]]
  have "reward_allocation (bh_height (blk_header b)) (rc_finder claim) fees hist = Inr alloc"
    using transition_InrE [OF tr] by metis
  with claim am te show thesis by (intro that [of claim alloc fees]) simp_all
qed

end
