(* ===== verification/Sample_Chain.thy ===== *)
theory Sample_Chain
  imports Chain_State
begin

text \<open>
  The first blocks of a chain in the environment of \<open>Sample_Env\<close>, the input at which the witnesses
  apply the properties of blocks and chains: a block with one workshare behind genesis.
\<close>

section \<open>Targets\<close>

lemma genesis_bits: "next_bits [genesis sample_env] = 0x1f03ffff"
  and genesis_bits': "bh_bits (blk_header (genesis sample_env)) = 0x1f03ffff"
proof -
  have c: "compact_nat 31 (unat initial_target)" by (simp add: initial_target_def compact_nat_def)
  have d: "mantissa 31 (unat initial_target) = 0x3ffff" by (simp add: initial_target_def mantissa_def)
  have ne: "initial_target \<noteq> 0" by (simp add: initial_target_def)
  have e: "target_to_bits initial_target = 0x1f03ffff"
    using target_to_bits_compact [OF ne c] by (simp add: d)
  then show "next_bits [genesis sample_env] = 0x1f03ffff"
    by (simp add: next_bits_def required_bits_def required_target_def genesis_def)
  show "bh_bits (blk_header (genesis sample_env)) = 0x1f03ffff" by (simp add: genesis_def e)
qed

definition sample_target :: u256 where
  "sample_target = push_bit 224 0x3ffff"

definition sample_share_target :: u256 where
  "sample_share_target = push_bit 224 0x7fffe0"

lemma compact_of:
  assumes "compact_nat sz (unat t)" and "expand sz (mantissa sz (unat t)) = unat t"
  shows "bits_to_target (target_to_bits t) = Some t"
proof -
  have "t \<noteq> 0" using assms(1) by (auto simp: compact_nat_def)
  from bits_to_target_of_target(1) [OF this assms(1)] show ?thesis by (simp add: assms(2))
qed

lemma sample_targets:
  "bits_to_target 0x1f03ffff = Some sample_target"
  "workshare_bits 0x1f03ffff = Some 0x1f7fffe0"
  "bits_to_target 0x1f7fffe0 = Some sample_share_target"
proof -
  have c: "compact_nat 31 (unat sample_target)" "mantissa 31 (unat sample_target) = 0x3ffff"
    "expand 31 0x3ffff = unat sample_target" "sample_target \<noteq> 0"
    by (simp_all add: sample_target_def compact_nat_def mantissa_def expand_def)
  have s: "compact_nat 31 (unat sample_share_target)" "mantissa 31 (unat sample_share_target) = 0x7fffe0"
    "expand 31 0x7fffe0 = unat sample_share_target" "sample_share_target \<noteq> 0"
    by (simp_all add: sample_share_target_def compact_nat_def mantissa_def expand_def)
  have t: "target_to_bits sample_target = 0x1f03ffff"
    using target_to_bits_compact [OF c(4,1)] by (simp add: c(2))
  show b: "bits_to_target 0x1f03ffff = Some sample_target"
    using compact_of [OF c(1)] by (simp add: c t)
  have u: "target_to_bits sample_share_target = 0x1f7fffe0"
    using target_to_bits_compact [OF s(4,1)] by (simp add: s(2))
  show "bits_to_target 0x1f7fffe0 = Some sample_share_target"
    using compact_of [OF s(1)] by (simp add: s u)
  have "sample_target \<le> pow_limit" by (simp add: sample_target_def pow_limit_def)
  with b obtain x where "unat x = 32 * unat sample_target"
    "workshare_bits 0x1f03ffff = Some (target_to_bits x)" by (rule workshare_bits_exact)
  moreover from this(1) have "x = sample_share_target"
    by (simp add: word_unat_eq_iff sample_target_def sample_share_target_def)
  ultimately show "workshare_bits 0x1f03ffff = Some 0x1f7fffe0" by (simp add: u)
qed

lemma le_nat_zeros [simp]: "le_nat (replicate n 0) = 0"
  by (induction n) simp_all

lemma sample_pow_header:
  obtains hash where "sample_pow seed (header_enc h) = Inr hash"
    "from_le_bytes (array_bytes hash) = (word_of_nat (2 ^ 192 * unat (bh_nonce h)) :: u256)"
proof -
  have d: "drop 152 (header_enc h) = put_u64 (bh_nonce h)" by (simp add: header_enc_def)
  have "le_nat (put_u64 (bh_nonce h)) = unat (bh_nonce h)"
    by (simp add: put_u64_def to_le_bytes_def le_nat_le_bytes_nat
        unat_bound [of "bh_nonce h", simplified])
  then have "le_nat (replicate 24 0 @ put_u64 (bh_nonce h)) = 2 ^ 192 * unat (bh_nonce h)"
    by (simp add: le_nat_append)
  then show thesis
    by (intro that [of "array_of (replicate 24 0 @ put_u64 (bh_nonce h))"])
      (simp_all add: sample_pow_def d from_le_bytes_def)
qed
section \<open>A workshare\<close>

definition sample_template :: block_template where
  "sample_template = \<lparr>bt_version = TEMPLATE_VERSION, bt_height = 1,
     bt_parent = block_id sample_env (genesis sample_env), bt_transactions = []\<rparr>"

definition sample_claim :: "address \<Rightarrow> reward_claim" where
  "sample_claim finder = \<lparr>rc_version = CLAIM_VERSION, rc_height = 1, rc_finder = finder,
     rc_amount = 1000000000, rc_extranonce = 0\<rparr>"

definition sample_state :: "address \<Rightarrow> ledger" where
  "sample_state finder = put_reward sample_env 101 finder 1000000000 (ledger_default sample_env)"

definition sample_header :: "address \<Rightarrow> workshare_witness \<Rightarrow> u64 \<Rightarrow> block_header" where
  "sample_header finder witness nonce = \<lparr>bh_version = HEADER_VERSION, bh_protocol = PROTOCOL_VERSION,
     bh_height = 1, bh_previous_block = block_id sample_env (genesis sample_env),
     bh_transactions_root = merkle_root sample_env [claim_id sample_env (sample_claim finder)],
     bh_state_root = ledger_root (sample_state finder),
     bh_workshare_root = witness_root sample_env witness,
     bh_timestamp = GENESIS_TIMESTAMP + 64, bh_bits = 0x1f03ffff, bh_nonce = nonce\<rparr>"

definition sample_share :: workshare where
  "sample_share = \<lparr>ws_version = SHARE_VERSION, ws_previous = hash_zero,
     ws_template_id = template_id sample_env sample_template, ws_miner = sample_bob,
     ws_extranonce = 0, ws_candidate_header = sample_header sample_bob witness_empty (2 ^ 50)\<rparr>"

definition sample_witness :: workshare_witness where
  "sample_witness = \<lparr>ww_version = WITNESS_VERSION, ww_templates = [sample_template],
     ww_workshares = [sample_share]\<rparr>"

definition sample_block :: block where
  "sample_block = \<lparr>blk_header = sample_header sample_alice sample_witness 7,
     blk_reward_claim = Some (sample_claim sample_alice),
     blk_transactions = [], blk_witness = sample_witness\<rparr>"

definition sample_now :: u64 where
  "sample_now = GENESIS_TIMESTAMP + 60"

lemma sample_claim_simps [simp]:
  "rc_version (sample_claim finder) = CLAIM_VERSION" "rc_height (sample_claim finder) = 1"
  "rc_amount (sample_claim finder) = 1000000000" "rc_finder (sample_claim finder) = finder"
  "rc_extranonce (sample_claim finder) = 0"
  by (simp_all add: sample_claim_def)

lemma sample_header_simps [simp]:
  "bh_version (sample_header a w n) = HEADER_VERSION" "bh_protocol (sample_header a w n) = PROTOCOL_VERSION"
  "bh_height (sample_header a w n) = 1"
  "bh_previous_block (sample_header a w n) = block_id sample_env (genesis sample_env)"
  "bh_transactions_root (sample_header a w n) = merkle_root sample_env [claim_id sample_env (sample_claim a)]"
  "bh_state_root (sample_header a w n) = ledger_root (sample_state a)"
  "bh_workshare_root (sample_header a w n) = witness_root sample_env w"
  "bh_timestamp (sample_header a w n) = GENESIS_TIMESTAMP + 64"
  "bh_bits (sample_header a w n) = 0x1f03ffff" "bh_nonce (sample_header a w n) = n"
  by (simp_all add: sample_header_def)

lemma genesis_simps [simp]:
  "bh_height (blk_header (genesis E)) = 0" "bh_timestamp (blk_header (genesis E)) = GENESIS_TIMESTAMP"
  by (simp_all add: genesis_def)

lemma sample_mtp: "median_time_past [genesis sample_env] = GENESIS_TIMESTAMP"
  by (simp add: median_time_past_def MEDIAN_TIME_SPAN_def)

lemma sample_seed: "randomx_seed sample_env [genesis sample_env] 1 = Inr RANDOMX_BOOTSTRAP_SEED"
  by (simp add: randomx_seed_def RANDOMX_EPOCH_BLOCKS_def)

lemma sample_allocation:
  "reward_allocation 1 finder 0 [genesis sample_env]
     = Inr \<lparr>ra_finder_amount = 1000000000, ra_workshare_rewards = []\<rparr>"
  by (simp add: reward_allocation_def collect_weights_def reward_window_def REWARD_WINDOW_def
      genesis_def witness_empty_def block_subsidy_def total_weight_def checked_add_def
      INITIAL_SUBSIDY_def COIN_def MIN_SUBSIDY_def HALVING_INTERVAL_def FINDER_SHARE_PERCENT_def
      MAX_MONEY_def Let_def rbind_def ok_or_def)

lemma sample_transition:
  "transition_for_candidate sample_env 1 (sample_claim finder) [] [genesis sample_env]
     (ledger_default sample_env)
     = Inr (sample_state finder, \<lparr>ra_finder_amount = 1000000000, ra_workshare_rewards = []\<rparr>, 0)"
  by (simp add: transition_for_candidate_def mature_def matured_rewards_def apply_transactions_def
      sample_allocation sample_claim_def schedule_reward_def schedule_rewards_def sample_state_def
      ledger_default_def checked_add_def opt_filter_def REWARD_MATURITY_def MAX_MONEY_def
      Let_def rbind_def ok_or_def ensure_def)

lemma sample_workshares_valid:
  "validate_workshares sample_env sample_pow sample_witness [genesis sample_env]
     (ledger_default sample_env) (GENESIS_TIMESTAMP + 64) = Inr ()"
proof -
  let ?c = "\<lparr>sc_parent = genesis sample_env,
     sc_templates = [(template_id sample_env sample_template, sample_template)],
     sc_seed = RANDOMX_BOOTSTRAP_SEED, sc_expected_bits = 0x1f03ffff,
     sc_block_target = sample_target, sc_share_target = sample_share_target,
     sc_mtp = median_time_past [genesis sample_env],
     sc_settling_timestamp = GENESIS_TIMESTAMP + 64\<rparr>"
  let ?h = "sample_header sample_bob witness_empty (2 ^ 50)"
  have c: "share_context_of sample_env sample_witness [genesis sample_env] (GENESIS_TIMESTAMP + 64) = Inr ?c"
    using sample_seed
    by (simp add: share_context_of_def sample_witness_def genesis_bits sample_targets ok_or_def rbind_def
        ensure_def Let_def)
  have good: "\<not> share_header_bad sample_env ?c hash_zero sample_share"
    by (simp add: share_header_bad_def sample_share_def sample_mtp Let_def GENESIS_TIMESTAMP_def)
  have claim: "\<lparr>rc_version = CLAIM_VERSION, rc_height = 1, rc_finder = sample_bob,
      rc_amount = 1000000000, rc_extranonce = 0\<rparr> = sample_claim sample_bob"
    by (simp add: sample_claim_def)
  obtain hash where hash: "sample_pow RANDOMX_BOOTSTRAP_SEED (header_enc ?h) = Inr hash"
    "from_le_bytes (array_bytes hash) = (word_of_nat (2 ^ 192 * unat (bh_nonce ?h)) :: u256)"
    by (rule sample_pow_header)
  then have meets: "hash_meets_target hash sample_share_target" "\<not> hash_meets_target hash sample_target"
    by (simp_all add: hash_meets_target_def sample_share_target_def sample_target_def)
  have "\<exists>r. check_share sample_env sample_pow [genesis sample_env] (ledger_default sample_env) ?c
      (hash_zero, witness_empty) sample_share = Inr r"
    using good hash(1) meets sample_transition
    by (simp add: check_share_def Let_def sample_share_def sample_template_def sample_allocation claim
        ok_or_def rbind_def ensure_def map_err_def)
  then obtain r where r: "check_share sample_env sample_pow [genesis sample_env] (ledger_default sample_env) ?c
      (hash_zero, witness_empty) sample_share = Inr r" by blast
  have "ww_workshares sample_witness = [sample_share]" by (simp add: sample_witness_def)
  then show ?thesis unfolding validate_workshares_def using c r by simp
qed

lemma sample_block_valid:
  "validate_block sample_env sample_pow sample_now sample_block [genesis sample_env]
     (ledger_default sample_env) = Inr (sample_state sample_alice)"
proof -
  let ?h = "sample_header sample_alice sample_witness 7"
  have "sample_target \<le> pow_limit" by (simp add: sample_target_def pow_limit_def)
  then have hc: "validate_header_context sample_env ?h (genesis sample_env) [genesis sample_env]
      sample_now = Inr ()"
    using sample_targets(1) by (simp add: header_context_Inr genesis_bits sample_mtp sample_now_def GENESIS_TIMESTAMP_def)
  have w: "length (witness_enc sample_witness) = 323"
    by (simp add: witness_enc_def sample_witness_def put_vec_def put_list_def workshare_enc_def
        template_enc_def sample_template_def)
  have bl: "length (block_enc sample_block) \<le> MAX_BLOCK_BYTES"
    by (simp add: block_enc_def sample_block_def w put_vec_def put_list_def limit_defs)
  have shape: "validate_witness_shape sample_env sample_witness = Inr ()"
    by (simp add: validate_witness_shape_def w witness_is_canonical_iff)
      (simp add: sample_witness_def sample_share_def template_enc_def sample_template_def
        put_vec_def put_list_def limit_defs)
  have pow: "verify_pow sample_env sample_pow seed ?h sample_target = Inr ()" for seed
    by (rule sample_pow_header [of seed ?h])
      (simp add: verify_pow_def hash_meets_target_def rbind_def map_err_def sample_target_def)
  have root: "block_transaction_root sample_env sample_block = bh_transactions_root ?h"
    by (simp add: block_transaction_root_def sample_block_def)
  have parts: "blk_header sample_block = ?h" "blk_reward_claim sample_block = Some (sample_claim sample_alice)"
    "blk_transactions sample_block = []" "blk_witness sample_block = sample_witness"
    by (simp_all add: sample_block_def)
  show ?thesis
    using hc bl shape pow sample_targets(1) sample_transition sample_workshares_valid root sample_seed
    unfolding validate_block_def Let_def parts by (simp add: result_simps)
qed

lemma sample_block_typed: "block_typed sample_env sample_block"
  by (simp add: block_typed_def sample_block_def sample_witness_def sample_share_def claim_ok_def
      workshare_ok_def)

lemma sample_block_height: "bh_height (blk_header sample_block) = 1"
  by (simp add: sample_block_def)

lemma sample_history:
  "valid_history sample_env sample_pow [genesis sample_env, sample_block] (sample_state sample_alice)"
  using valid_history.extend [OF valid_history.genesis sample_block_valid _ sample_block_typed]
  by (simp add: sample_block_height)

end
