(* ===== verification/Consensus_Properties.thy ===== *)
theory Consensus_Properties
  imports Sample_Chain
begin

text \<open>
  The properties of block validation and of the active chain, each with a witness on the chain of
  \<open>Sample_Chain\<close>.
\<close>

section \<open>Blocks and histories\<close>

text \<open>C2: In every state the chain can reach, the money in all balances and in all pending rewards is
  exactly the sum of the subsidies of the blocks: transactions, fees, reward splits, rounding and
  maturation neither create nor destroy money.\<close>

theorem chain_supply:
  assumes "valid_history E pow hist s"
  shows "ledger_supply s = sum_list (map (\<lambda>b. unat (block_subsidy (bh_height (blk_header b)))) hist)"
proof -
  have inv: "history_inv E hist s" using assms by (rule valid_history_inv)
  have "map (\<lambda>b. unat (block_subsidy (bh_height (blk_header b)))) hist = map subsidy_nat [0..<length hist]"
    using inv by (intro nth_equalityI) (auto simp: history_inv_def height_of_def unat_block_subsidy)
  then show ?thesis using inv by (simp add: history_inv_def supply_at_def)
qed

theorem chain_supply_witness:
  "ledger_supply (sample_state sample_alice) = 1000000000"
  using chain_supply [OF sample_history]
  by (simp add: unat_block_subsidy sample_block_def subsidy_nat_def)

text \<open>C3: Along every valid chain the transactions of an account use its nonces 0, 1, 2, ... in this
  order, each once and without a gap, and each was signed by the account's key: no transaction can be
  replayed, reordered or forged.\<close>

theorem chain_nonces:
  assumes "valid_history E pow hist s"
  shows "(\<forall>a. map (\<lambda>t. unat (tx_nonce t))
        (filter (\<lambda>t. tx_sender t = a) (concat (map blk_transactions hist))) = [0..<nonce_of s a])
    \<and> (\<forall>b \<in> set hist. \<forall>t \<in> set (blk_transactions b). transaction_signed E t)"
  using assms
proof (induction rule: valid_history.induct)
  case genesis
  show ?case
    by (simp add: genesis_def nonce_of_def ledger_account_def ledger_default_def account_default_def)
next
  case (extend hist s now b s')
  obtain claim alloc fees where
    n: "\<And>a. nonce_of s' a = nonce_of s a + length (filter (\<lambda>t. tx_sender t = a) (blk_transactions b))"
    and r: "\<And>a. map (\<lambda>t. unat (tx_nonce t)) (filter (\<lambda>t. tx_sender t = a) (blk_transactions b))
        = [nonce_of s a ..< nonce_of s' a]"
    and sg: "\<forall>t \<in> set (blk_transactions b). transaction_signed E t"
    by (rule block_step [OF extend.hyps(1-4)]) blast
  have "[0..<nonce_of s a] @ [nonce_of s a ..< nonce_of s' a] = [0..<nonce_of s' a]" for a
    using upt_add_eq_append [of 0 "nonce_of s a"] n [of a] by simp
  then show ?case using extend.IH r sg by simp
qed

theorem chain_nonces_witness:
  "nonce_of (sample_state sample_alice) sample_bob = 0"
  using chain_nonces [OF sample_history]
  by (simp add: genesis_def sample_block_def) (metis upt_eq_Nil_conv le_zero_eq)

text \<open>C8: An accepted block pays every account exactly its matured rewards and its incoming
  transfers, charges it exactly its outgoing amounts and fees, clears the rewards that matured at its
  height, and schedules the claim and the workshare rewards of its allocation 100 blocks later,
  leaving every other pending reward as it was.\<close>

theorem block_effect:
  assumes "valid_history E pow hist s" and "validate_block E pow now b hist s = Inr s'"
    and "bh_height (blk_header b) \<noteq> 0" and "block_typed E b"
  shows "\<exists>claim alloc fees. blk_reward_claim b = Some claim
    \<and> unat fees = sum_list (map (\<lambda>t. unat (tx_fee t)) (blk_transactions b))
    \<and> reward_allocation (bh_height (blk_header b)) (rc_finder claim) fees hist = Inr alloc
    \<and> rc_amount claim = ra_finder_amount alloc
    \<and> (\<forall>a. bal s' a + sum_list (map (paid_by a) (blk_transactions b))
        = bal s a + pend s (bh_height (blk_header b), a) + sum_list (map (paid_to a) (blk_transactions b)))
    \<and> (\<forall>k a. pend s' (k, a) = (if k = bh_height (blk_header b) then 0 else pend s (k, a))
       + (if k = bh_height (blk_header b) + 100
          then (if a = rc_finder claim then unat (rc_amount claim) else 0)
            + reward_to a (ra_workshare_rewards alloc) else 0))"
proof -
  obtain claim alloc fees where
    "blk_reward_claim b = Some claim" "rc_amount claim = ra_finder_amount alloc"
    "unat fees = sum_list (map (\<lambda>t. unat (tx_fee t)) (blk_transactions b))"
    "reward_allocation (bh_height (blk_header b)) (rc_finder claim) fees hist = Inr alloc"
    "\<And>a. bal s' a + sum_list (map (paid_by a) (blk_transactions b))
        = bal s a + pend s (bh_height (blk_header b), a) + sum_list (map (paid_to a) (blk_transactions b))"
    "\<And>k a. pend s' (k, a) = (if k = bh_height (blk_header b) then 0 else pend s (k, a))
       + (if k = bh_height (blk_header b) + REWARD_MATURITY
          then (if a = rc_finder claim then unat (rc_amount claim) else 0)
            + reward_to a (ra_workshare_rewards alloc) else 0)"
    by (rule block_step [OF assms]) blast
  then show ?thesis unfolding REWARD_MATURITY_def by blast
qed

theorem block_effect_witness:
  "bal (sample_state sample_alice) sample_alice = 0 \<and>
   pend (sample_state sample_alice) (101, sample_alice) = 1000000000"
proof -
  have h: "bh_height (blk_header sample_block) \<noteq> 0" by (simp add: sample_block_height)
  obtain claim alloc fees where c: "blk_reward_claim sample_block = Some claim"
    "unat fees = sum_list (map (\<lambda>t. unat (tx_fee t)) (blk_transactions sample_block))"
    "reward_allocation (bh_height (blk_header sample_block)) (rc_finder claim) fees [genesis sample_env]
      = Inr alloc"
    and b: "\<forall>a. bal (sample_state sample_alice) a + sum_list (map (paid_by a) (blk_transactions sample_block))
        = bal (ledger_default sample_env) a
          + pend (ledger_default sample_env) (bh_height (blk_header sample_block), a)
          + sum_list (map (paid_to a) (blk_transactions sample_block))"
    and p: "\<forall>k a. pend (sample_state sample_alice) (k, a)
       = (if k = bh_height (blk_header sample_block) then 0 else pend (ledger_default sample_env) (k, a))
       + (if k = bh_height (blk_header sample_block) + 100
          then (if a = rc_finder claim then unat (rc_amount claim) else 0)
            + reward_to a (ra_workshare_rewards alloc) else 0)"
    using block_effect [OF valid_history.genesis sample_block_valid h sample_block_typed] by blast
  have t: "blk_transactions sample_block = []" "claim = sample_claim sample_alice"
    using c(1) by (simp_all add: sample_block_def)
  have "fees = 0" using c(2) by (simp add: t unat_eq_0)
  then have "ra_workshare_rewards alloc = []"
    using c(3) by (auto simp: sample_block_height sample_allocation)
  moreover have "bal (ledger_default sample_env) a = 0" "pend (ledger_default sample_env) k = 0" for k a
    by (simp_all add: bal_def pend_def ledger_default_def ledger_account_def account_default_def)
  ultimately show ?thesis
    using spec [OF b, of sample_alice] spec [OF spec [OF p, of 101], of sample_alice]
    by (simp add: t sample_block_height reward_to_def)
qed

end
