(* ===== verification/Mempool.thy ===== *)
theory Mempool
  imports Validation
begin

text \<open>
  The relay policy of \<open>src/policy.rs\<close> and the transaction pool of \<open>src/mempool.rs\<close>.  The pool's
  \<open>HashMap\<close> of entries is a map sorted by id: the code never depends on its iteration order, since
  it sorts or minimises by a key that ends in the id.  An operation that may panic (an index into a
  map, an \<open>expect\<close>) is an option, \<open>None\<close> being the panic; \<open>accept\<close> returns the pool also when it
  fails, because it changes the pool before some of its errors.
\<close>

section \<open>The policy\<close>

definition DEFAULT_MIN_RELAY_FEE :: u64 where "DEFAULT_MIN_RELAY_FEE = 100000"
definition DEFAULT_DUST_LIMIT :: u64 where "DEFAULT_DUST_LIMIT = 1000"
definition DEFAULT_MAX_MEMPOOL_BYTES :: nat where "DEFAULT_MAX_MEMPOOL_BYTES = 64 * 1024 * 1024"
definition DEFAULT_MAX_NONCE_GAP :: u64 where "DEFAULT_MAX_NONCE_GAP = 64"
definition DEFAULT_MEMPOOL_TTL_SECONDS :: u64 where "DEFAULT_MEMPOOL_TTL_SECONDS = 24 * 60 * 60"
definition RBF_PERCENT :: u64 where "RBF_PERCENT = 10"

record relay_policy =
  rp_min_relay_fee :: u64
  rp_dust_limit :: u64
  rp_max_mempool_bytes :: nat
  rp_max_nonce_gap :: u64
  rp_ttl_seconds :: u64

definition relay_policy_default :: relay_policy where
  "relay_policy_default = \<lparr>rp_min_relay_fee = DEFAULT_MIN_RELAY_FEE, rp_dust_limit = DEFAULT_DUST_LIMIT,
     rp_max_mempool_bytes = DEFAULT_MAX_MEMPOOL_BYTES, rp_max_nonce_gap = DEFAULT_MAX_NONCE_GAP,
     rp_ttl_seconds = DEFAULT_MEMPOOL_TTL_SECONDS\<rparr>"

section \<open>The pool\<close>

record pool_entry =
  en_transaction :: transaction
  en_received_at :: u64
  en_size :: nat

datatype mempool_error = Policy | Invalid | Nonce | Balance | ReplacementFee

record mempool =
  mp_policy :: relay_policy
  mp_entries :: "(hash32, pool_entry) smap"
  mp_by_sender_nonce :: "(address \<times> u64, hash32) smap"
  mp_bytes :: nat

definition mempool_new :: "relay_policy \<Rightarrow> mempool" where
  "mempool_new policy = \<lparr>mp_policy = policy, mp_entries = [], mp_by_sender_nonce = [], mp_bytes = 0\<rparr>"

definition mempool_contains :: "mempool \<Rightarrow> hash32 \<Rightarrow> bool" where
  "mempool_contains p txid \<longleftrightarrow> smap_get (mp_entries p) txid \<noteq> None"

definition mempool_get :: "mempool \<Rightarrow> hash32 \<Rightarrow> transaction option" where
  "mempool_get p txid = map_option en_transaction (smap_get (mp_entries p) txid)"

definition mempool_remove :: "hash32 \<Rightarrow> mempool \<Rightarrow> mempool" where
  "mempool_remove txid p =
     (case smap_get (mp_entries p) txid of
        None \<Rightarrow> p
      | Some entry \<Rightarrow>
          p\<lparr>mp_entries := smap_remove txid (mp_entries p),
            mp_bytes := mp_bytes p - en_size entry,
            mp_by_sender_nonce :=
              smap_remove (tx_sender (en_transaction entry), tx_nonce (en_transaction entry))
                (mp_by_sender_nonce p)\<rparr>)"

definition remove_confirmed :: "prims \<Rightarrow> transaction list \<Rightarrow> mempool \<Rightarrow> mempool" where
  "remove_confirmed E transactions p = fold (\<lambda>t. mempool_remove (transaction_id E t)) transactions p"

definition validate_for_relay ::
    "prims \<Rightarrow> transaction \<Rightarrow> relay_policy \<Rightarrow> ledger \<Rightarrow> mempool_error + unit" where
  "validate_for_relay E t policy s =
     (if tx_version t \<noteq> TX_VERSION \<or> tx_amount t = 0 \<or> MAX_MONEY < tx_amount t
         \<or> MAX_MONEY < tx_fee t \<or> tx_nonce t = - 1 \<or> tx_amount t < rp_dust_limit policy
         \<or> tx_fee t < rp_min_relay_fee policy \<or> tx_sender t = tx_recipient t
         \<or> length (tx_public_key t) \<notin> {33, 65} \<or> length (tx_signature t) \<noteq> 64
      then Inl Policy
      else
        let acc = ledger_account s (tx_sender t) in
        if tx_nonce t < ac_nonce acc
           \<or> saturating_add (ac_nonce acc) (rp_max_nonce_gap policy) < tx_nonce t
        then Inl Nonce
        else
          rbind (ok_or (array_try_from (tx_signature t)) Invalid) (\<lambda>sig.
            map_err (\<lambda>_. Invalid) (parse_and_validate_signature E (tx_sender t) (tx_public_key t) sig
              (transaction_signature_hash E t))))"

fun funded_from ::
    "(hash32, pool_entry) smap \<Rightarrow> address \<Rightarrow> u64 \<Rightarrow> u64 \<Rightarrow> ((address \<times> u64) \<times> hash32) list
     \<Rightarrow> bool option" where
  "funded_from entries sender expected_nonce balance [] = Some True"
| "funded_from entries sender expected_nonce balance (((entry_sender, nonce), txid) # rest) =
     (if entry_sender \<noteq> sender \<or> nonce \<noteq> expected_nonce then Some True
      else case smap_get entries txid of
        None \<Rightarrow> None
      | Some entry \<Rightarrow>
          (let t = en_transaction entry in
           case checked_add (tx_amount t) (tx_fee t) of
             None \<Rightarrow> Some False
           | Some needed \<Rightarrow>
               if balance < needed then Some False
               else funded_from entries sender (expected_nonce + 1) (balance - needed) rest))"

definition sender_is_funded :: "mempool \<Rightarrow> address \<Rightarrow> ledger \<Rightarrow> bool option" where
  "sender_is_funded p sender s =
     (let acc = ledger_account s sender in
      funded_from (mp_entries p) sender (ac_nonce acc) (ac_balance acc)
        (filter (\<lambda>(slot, txid). (sender, ac_nonce acc) \<le> slot \<and> slot \<le> (sender, - 1))
          (mp_by_sender_nonce p)))"

section \<open>Expiry and eviction\<close>

definition fee_rate :: "pool_entry \<Rightarrow> pool_entry \<Rightarrow> nat" where
  "fee_rate left right = unat (tx_fee (en_transaction left)) * en_size right"

definition evict_le :: "hash32 \<times> pool_entry \<Rightarrow> hash32 \<times> pool_entry \<Rightarrow> bool" where
  "evict_le = (\<lambda>(left_id, left) (right_id, right).
     fee_rate left right < fee_rate right left
     \<or> (fee_rate left right = fee_rate right left \<and> left_id \<le> right_id))"

definition select_le :: "hash32 \<times> pool_entry \<Rightarrow> hash32 \<times> pool_entry \<Rightarrow> bool" where
  "select_le = (\<lambda>(left_id, left) (right_id, right).
     fee_rate right left < fee_rate left right
     \<or> (fee_rate right left = fee_rate left right \<and> left_id \<le> right_id))"

fun min_by :: "('a \<Rightarrow> 'a \<Rightarrow> bool) \<Rightarrow> 'a list \<Rightarrow> 'a option" where
  "min_by le [] = None"
| "min_by le (x # xs) = Some (fold (\<lambda>y best. if le best y then best else y) xs x)"

fun insert_by :: "('a \<Rightarrow> 'a \<Rightarrow> bool) \<Rightarrow> 'a \<Rightarrow> 'a list \<Rightarrow> 'a list" where
  "insert_by le x [] = [x]"
| "insert_by le x (y # ys) = (if le x y then x # y # ys else y # insert_by le x ys)"

definition sort_by :: "('a \<Rightarrow> 'a \<Rightarrow> bool) \<Rightarrow> 'a list \<Rightarrow> 'a list" where
  "sort_by le xs = foldr (insert_by le) xs []"

lemma min_by_member: "min_by le xs = Some x \<Longrightarrow> x \<in> set xs"
proof -
  have "fold (\<lambda>y best. if le best y then best else y) ys z \<in> insert z (set ys)" for ys z
    by (induction ys arbitrary: z) (auto simp: insert_commute)
  then show "min_by le xs = Some x \<Longrightarrow> x \<in> set xs" by (cases xs) auto
qed

lemma min_by_None [simp]: "min_by le xs = None \<longleftrightarrow> xs = []"
  by (cases xs) auto

lemma set_insert_by [simp]: "set (insert_by le x ys) = insert x (set ys)"
  by (induction ys) auto

lemma set_sort_by [simp]: "set (sort_by le xs) = set xs"
  by (induction xs) (simp_all add: sort_by_def)

lemma length_filter_strict:
  "\<forall>x \<in> set xs. P x \<longrightarrow> Q x \<Longrightarrow> y \<in> set xs \<Longrightarrow> Q y \<Longrightarrow> \<not> P y \<Longrightarrow> length (filter P xs) < length (filter Q xs)"
proof (induction xs)
  case (Cons x xs)
  have le: "length (filter P xs) \<le> length (filter Q xs)"
    using Cons.prems(1) by (induction xs) auto
  show ?case
  proof (cases "y = x")
    case True
    then show ?thesis using Cons.prems le by simp
  next
    case False
    then show ?thesis using Cons by auto
  qed
qed simp

definition lowest_entry :: "mempool \<Rightarrow> hash32 option" where
  "lowest_entry p = map_option fst (min_by evict_le (mp_entries p))"

lemma remove_shrinks:
  assumes "lowest_entry p = Some txid"
  shows "length (mp_entries (mempool_remove txid p)) < length (mp_entries p)"
proof -
  obtain e where "(txid, e) \<in> set (mp_entries p)"
    using assms by (auto simp: lowest_entry_def dest: min_by_member)
  then obtain e' where "smap_get (mp_entries p) txid = Some e'"
    by (metis (no_types) map_of_eq_None_iff not_None_eq fst_conv image_eqI)
  then show ?thesis by (simp add: mempool_remove_def length_smap_remove smap_contains_def)
qed

function trim :: "mempool \<Rightarrow> mempool" where
  "trim p =
     (if rp_max_mempool_bytes (mp_policy p) < mp_bytes p
      then case lowest_entry p of Some txid \<Rightarrow> trim (mempool_remove txid p) | None \<Rightarrow> p
      else p)"
  by pat_completeness auto
termination
  by (relation "measure (\<lambda>p. length (mp_entries p))") (auto intro: remove_shrinks)

declare trim.simps [simp del]

definition expire :: "u64 \<Rightarrow> mempool \<Rightarrow> mempool" where
  "expire now p =
     fold mempool_remove
       (map fst (filter (\<lambda>(txid, entry).
          rp_ttl_seconds (mp_policy p) < saturating_sub now (en_received_at entry)) (mp_entries p))) p"

definition expire_and_trim :: "u64 \<Rightarrow> mempool \<Rightarrow> mempool" where
  "expire_and_trim now p = trim (expire now p)"

section \<open>Acceptance\<close>

definition replacement_fee :: "relay_policy \<Rightarrow> u64 \<Rightarrow> u64" where
  "replacement_fee policy fee =
     saturating_add fee
       (max (rp_min_relay_fee policy) (saturating_add (saturating_mul fee RBF_PERCENT) 99 div 100))"

definition insert_entry :: "prims \<Rightarrow> transaction \<Rightarrow> u64 \<Rightarrow> mempool \<Rightarrow> mempool" where
  "insert_entry E t now p =
     (let txid = transaction_id E t; size = length (transaction_enc t) in
      p\<lparr>mp_bytes := mp_bytes p + size,
        mp_by_sender_nonce := smap_insert (tx_sender t, tx_nonce t) txid (mp_by_sender_nonce p),
        mp_entries := smap_insert txid
          \<lparr>en_transaction = t, en_received_at = now, en_size = size\<rparr> (mp_entries p)\<rparr>)"

definition finish_accept ::
    "prims \<Rightarrow> transaction \<Rightarrow> ledger \<Rightarrow> u64 \<Rightarrow> mempool \<Rightarrow> ((mempool_error + hash32) \<times> mempool) option" where
  "finish_accept E t s now p =
     (let txid = transaction_id E t; p = insert_entry E t now p in
      case sender_is_funded p (tx_sender t) s of
        None \<Rightarrow> None
      | Some False \<Rightarrow> Some (Inl Balance, mempool_remove txid p)
      | Some True \<Rightarrow> Some (Inr txid, expire_and_trim now p))"

definition accept ::
    "prims \<Rightarrow> transaction \<Rightarrow> ledger \<Rightarrow> u64 \<Rightarrow> mempool \<Rightarrow> ((mempool_error + hash32) \<times> mempool) option" where
  "accept E t s now p =
     (case validate_for_relay E t (mp_policy p) s of
        Inl e \<Rightarrow> Some (Inl e, p)
      | Inr _ \<Rightarrow>
          let txid = transaction_id E t in
          if mempool_contains p txid then Some (Inr txid, p)
          else case smap_get (mp_by_sender_nonce p) (tx_sender t, tx_nonce t) of
            None \<Rightarrow> finish_accept E t s now p
          | Some existing_id \<Rightarrow>
              (case smap_get (mp_entries p) existing_id of
                 None \<Rightarrow> None
               | Some existing \<Rightarrow>
                   if tx_fee t < replacement_fee (mp_policy p) (tx_fee (en_transaction existing))
                   then Some (Inl ReplacementFee, p)
                   else finish_accept E t s now (mempool_remove existing_id p)))"

section \<open>Selection\<close>

definition eligible :: "hash32 list \<Rightarrow> ledger \<Rightarrow> hash32 \<times> pool_entry \<Rightarrow> bool" where
  "eligible included working = (\<lambda>(txid, entry).
     let t = en_transaction entry; acc = ledger_account working (tx_sender t) in
     txid \<notin> set included \<and> ac_nonce acc = tx_nonce t
     \<and> saturating_add (tx_amount t) (tx_fee t) \<le> ac_balance acc)"

definition pay :: "prims \<Rightarrow> transaction \<Rightarrow> ledger \<Rightarrow> ledger option" where
  "pay E t working =
     (case debit E (tx_sender t) (tx_amount t + tx_fee t) working of
        Inl _ \<Rightarrow> None
      | Inr w \<Rightarrow> (case credit E (tx_recipient t) (tx_amount t) w of
          Inl _ \<Rightarrow> None
        | Inr w \<Rightarrow> Some (set_nonce E (tx_sender t) (tx_nonce t + 1) w)))"

function select_loop ::
    "prims \<Rightarrow> (hash32, pool_entry) smap \<Rightarrow> nat \<Rightarrow> ledger \<Rightarrow> hash32 list \<Rightarrow> transaction list
     \<Rightarrow> transaction list option" where
  "select_loop E entries maximum working included selected =
     (case sort_by select_le (filter (eligible included working) entries) of
        [] \<Rightarrow> Some selected
      | (txid, entry) # _ \<Rightarrow>
          (case pay E (en_transaction entry) working of
             None \<Rightarrow> None
           | Some working' \<Rightarrow>
               let selected' = selected @ [en_transaction entry] in
               if maximum \<le> length selected' then Some selected'
               else select_loop E entries maximum working' (txid # included) selected'))"
  by pat_completeness auto
termination
proof (relation "measure (\<lambda>(E, entries, maximum, working, included, selected).
    length (filter (\<lambda>(txid, entry). txid \<notin> set included) entries))", goal_cases)
  case (2 E entries maximum working included selected x xs txid entry working' selected')
  then have "(txid, entry) \<in> set (sort_by select_le (filter (eligible included working) entries))"
    by (metis list.set_intros(1))
  then have "(txid, entry) \<in> set entries" "txid \<notin> set included" by (auto simp: eligible_def Let_def)
  then have "length (filter (\<lambda>(i, e). i \<notin> set (txid # included)) entries)
      < length (filter (\<lambda>(i, e). i \<notin> set included) entries)"
    by (intro length_filter_strict) auto
  then show ?case by simp
qed simp

declare select_loop.simps [simp del]

definition select :: "prims \<Rightarrow> mempool \<Rightarrow> ledger \<Rightarrow> nat \<Rightarrow> transaction list option" where
  "select E p s maximum = select_loop E (mp_entries p) maximum s [] []"

section \<open>The pool invariant\<close>

text \<open>What relay checks establish of a transaction, whatever the ledger.\<close>

definition relayed :: "prims \<Rightarrow> relay_policy \<Rightarrow> transaction \<Rightarrow> bool" where
  "relayed E policy t \<longleftrightarrow> tx_version t = TX_VERSION \<and> tx_amount t \<noteq> 0 \<and> tx_amount t \<le> MAX_MONEY
     \<and> tx_fee t \<le> MAX_MONEY \<and> tx_nonce t \<noteq> - 1 \<and> rp_dust_limit policy \<le> tx_amount t
     \<and> rp_min_relay_fee policy \<le> tx_fee t \<and> tx_sender t \<noteq> tx_recipient t
     \<and> length (tx_public_key t) \<in> {33, 65} \<and> length (tx_signature t) = 64
     \<and> transaction_signed E t"

lemma validate_for_relay_Inr:
  assumes "validate_for_relay E t policy s = Inr u"
  shows "relayed E policy t" "ac_nonce (ledger_account s (tx_sender t)) \<le> tx_nonce t"
proof -
  have *: "tx_version t = TX_VERSION" "tx_amount t \<noteq> 0" "tx_amount t \<le> MAX_MONEY"
     "tx_fee t \<le> MAX_MONEY" "tx_nonce t \<noteq> - 1" "rp_dust_limit policy \<le> tx_amount t"
     "rp_min_relay_fee policy \<le> tx_fee t" "tx_sender t \<noteq> tx_recipient t"
     "length (tx_public_key t) \<in> {33, 65}" "length (tx_signature t) = 64"
     "ac_nonce (ledger_account s (tx_sender t)) \<le> tx_nonce t"
    using assms by (auto simp: validate_for_relay_def Let_def not_less split: if_splits)
  then obtain sig where sig: "tx_signature t = array_bytes sig"
    "parse_and_validate_signature E (tx_sender t) (tx_public_key t) sig (transaction_signature_hash E t)
      = Inr ()"
    using assms by (auto simp: validate_for_relay_def Let_def result_simps array_try_from_Some
        split: if_splits)
  from transaction_signedI [OF sig] * show "relayed E policy t"
    "ac_nonce (ledger_account s (tx_sender t)) \<le> tx_nonce t" by (simp_all add: relayed_def)
qed

definition entry_ok :: "prims \<Rightarrow> mempool \<Rightarrow> hash32 \<Rightarrow> pool_entry \<Rightarrow> bool" where
  "entry_ok E p i e \<longleftrightarrow> transaction_id E (en_transaction e) = i
     \<and> en_size e = length (transaction_enc (en_transaction e))
     \<and> relayed E (mp_policy p) (en_transaction e) \<and> transaction_ok E (en_transaction e)
     \<and> map_of (mp_by_sender_nonce p) (tx_sender (en_transaction e), tx_nonce (en_transaction e)) = Some i"

definition slot_ok :: "mempool \<Rightarrow> address \<times> u64 \<Rightarrow> hash32 \<Rightarrow> bool" where
  "slot_ok p slot i \<longleftrightarrow> (\<exists>e. map_of (mp_entries p) i = Some e
     \<and> (tx_sender (en_transaction e), tx_nonce (en_transaction e)) = slot)"

text \<open>The two maps index each other, sizes add up and every entry passed the relay checks.\<close>

definition pool_ok :: "prims \<Rightarrow> mempool \<Rightarrow> bool" where
  "pool_ok E p \<longleftrightarrow> smap_ok (mp_entries p) \<and> smap_ok (mp_by_sender_nonce p)
     \<and> (\<forall>i e. map_of (mp_entries p) i = Some e \<longrightarrow> entry_ok E p i e)
     \<and> (\<forall>a n i. map_of (mp_by_sender_nonce p) (a, n) = Some i \<longrightarrow> slot_ok p (a, n) i)
     \<and> mp_bytes p = smap_sum en_size (mp_entries p)"

lemma pool_okD:
  assumes "pool_ok E p"
  shows "smap_ok (mp_entries p)" "smap_ok (mp_by_sender_nonce p)"
    "map_of (mp_entries p) i = Some e \<Longrightarrow> entry_ok E p i e"
    "map_of (mp_by_sender_nonce p) slot = Some i \<Longrightarrow> slot_ok p slot i"
    "mp_bytes p = smap_sum en_size (mp_entries p)"
  using assms by (cases slot, simp_all add: pool_ok_def)+

lemma pool_ok_new: "pool_ok E (mempool_new policy)"
  by (simp add: pool_ok_def mempool_new_def)

lemma remove_policy [simp]: "mp_policy (mempool_remove i p) = mp_policy p"
  by (simp add: mempool_remove_def split: option.split)

lemma remove_entries:
  "smap_ok (mp_entries p) \<Longrightarrow> map_of (mp_entries (mempool_remove i p)) = (map_of (mp_entries p))(i := None)"
  by (auto simp: mempool_remove_def split: option.split)

lemma remove_slots:
  assumes "pool_ok E p"
  shows "map_of (mp_by_sender_nonce (mempool_remove i p)) slot =
    (if map_of (mp_by_sender_nonce p) slot = Some i then None else map_of (mp_by_sender_nonce p) slot)"
proof (cases "map_of (mp_entries p) i")
  case None
  then have "map_of (mp_by_sender_nonce p) slot \<noteq> Some i"
    using pool_okD(4) [OF assms, of slot i] by (auto simp: slot_ok_def)
  then show ?thesis by (simp add: mempool_remove_def None)
next
  case (Some e)
  let ?s = "(tx_sender (en_transaction e), tx_nonce (en_transaction e))"
  have "map_of (mp_by_sender_nonce p) ?s = Some i"
    using pool_okD(3) [OF assms Some] by (simp add: entry_ok_def)
  moreover have "map_of (mp_by_sender_nonce p) slot = Some i \<Longrightarrow> slot = ?s"
    using pool_okD(4) [OF assms, of slot i] Some by (auto simp: slot_ok_def)
  moreover have "map_of (mp_by_sender_nonce (mempool_remove i p)) = (map_of (mp_by_sender_nonce p))(?s := None)"
    using pool_okD(2) [OF assms] by (simp add: mempool_remove_def Some)
  ultimately show ?thesis by (cases "slot = ?s") auto
qed

lemma remove_bytes:
  assumes "pool_ok E p"
  shows "mp_bytes (mempool_remove i p) = smap_sum en_size (mp_entries (mempool_remove i p))"
  using smap_sum_remove [of en_size i "mp_entries p"] pool_okD(5) [OF assms]
  by (auto simp: mempool_remove_def split: option.split)

lemma pool_ok_remove:
  assumes "pool_ok E p"
  shows "pool_ok E (mempool_remove i p)"
proof -
  note ent = remove_entries [OF pool_okD(1) [OF assms], of i] and slots = remove_slots [OF assms, of i]
  have "smap_ok (mp_entries (mempool_remove i p))" "smap_ok (mp_by_sender_nonce (mempool_remove i p))"
    using pool_okD(1,2) [OF assms] by (auto simp: mempool_remove_def split: option.split)
  moreover have "entry_ok E (mempool_remove i p) j e" if "map_of (mp_entries (mempool_remove i p)) j = Some e" for j e
  proof -
    have "j \<noteq> i" "map_of (mp_entries p) j = Some e" using that by (auto simp: ent split: if_splits)
    with pool_okD(3) [OF assms this(2)] show ?thesis by (auto simp: entry_ok_def slots)
  qed
  moreover have "slot_ok (mempool_remove i p) slot j"
    if "map_of (mp_by_sender_nonce (mempool_remove i p)) slot = Some j" for slot j
  proof -
    have "j \<noteq> i" "map_of (mp_by_sender_nonce p) slot = Some j" using that by (auto simp: slots split: if_splits)
    with pool_okD(4) [OF assms this(2)] show ?thesis by (auto simp: slot_ok_def ent)
  qed
  ultimately show ?thesis using remove_bytes [OF assms] by (simp add: pool_ok_def)
qed

lemma pool_ok_fold_remove: "pool_ok E p \<Longrightarrow> pool_ok E (fold mempool_remove is p)"
  by (induction "is" arbitrary: p) (simp_all add: pool_ok_remove)

lemma fold_remove_policy [simp]: "mp_policy (fold mempool_remove is p) = mp_policy p"
  by (induction "is" arbitrary: p) simp_all

lemma fold_remove_entries:
  "pool_ok E p \<Longrightarrow> map_of (mp_entries (fold mempool_remove is p)) =
    (\<lambda>i. if i \<in> set is then None else map_of (mp_entries p) i)"
  by (induction "is" arbitrary: p)
    (auto simp: pool_ok_remove remove_entries pool_okD(1) fun_eq_iff)

lemma pool_ok_insert:
  assumes ok: "pool_ok E p" and t: "relayed E (mp_policy p) t" "transaction_ok E t"
    and new: "map_of (mp_entries p) (transaction_id E t) = None"
    and free: "map_of (mp_by_sender_nonce p) (tx_sender t, tx_nonce t) = None"
  shows "pool_ok E (insert_entry E t now p)"
proof -
  let ?p = "insert_entry E t now p" and ?i = "transaction_id E t"
  let ?e = "\<lparr>en_transaction = t, en_received_at = now, en_size = length (transaction_enc t)\<rparr>"
  have ent: "map_of (mp_entries ?p) = (map_of (mp_entries p))(?i \<mapsto> ?e)"
    and slots: "map_of (mp_by_sender_nonce ?p) =
      (map_of (mp_by_sender_nonce p))((tx_sender t, tx_nonce t) \<mapsto> ?i)"
    and pol: "mp_policy ?p = mp_policy p"
    by (simp_all add: insert_entry_def Let_def)
  have "entry_ok E ?p j e" if "map_of (mp_entries ?p) j = Some e" for j e
  proof (cases "j = ?i")
    case True
    then have "e = ?e" using that by (simp add: ent)
    then show ?thesis using t True by (simp add: entry_ok_def slots pol)
  next
    case False
    then have e: "map_of (mp_entries p) j = Some e" using that by (simp add: ent)
    note o = pool_okD(3) [OF ok e]
    then have "(tx_sender (en_transaction e), tx_nonce (en_transaction e)) \<noteq> (tx_sender t, tx_nonce t)"
      using free by (auto simp: entry_ok_def)
    then show ?thesis using o by (auto simp: entry_ok_def slots pol)
  qed
  moreover have "slot_ok ?p slot j" if "map_of (mp_by_sender_nonce ?p) slot = Some j" for slot j
  proof (cases "slot = (tx_sender t, tx_nonce t)")
    case True
    then show ?thesis using that by (auto simp: slot_ok_def ent slots)
  next
    case False
    then have s: "map_of (mp_by_sender_nonce p) slot = Some j" using that by (simp add: slots)
    from pool_okD(4) [OF ok this] new show ?thesis by (auto simp: slot_ok_def ent)
  qed
  moreover have "mp_bytes ?p = smap_sum en_size (mp_entries ?p)"
    using smap_sum_insert [OF pool_okD(1) [OF ok], of en_size ?i ?e] pool_okD(5) [OF ok] new
    by (simp add: insert_entry_def Let_def)
  moreover have "smap_ok (mp_entries ?p)" "smap_ok (mp_by_sender_nonce ?p)"
    using pool_okD(1,2) [OF ok] by (simp_all add: insert_entry_def Let_def)
  ultimately show ?thesis by (simp add: pool_ok_def)
qed

lemma trim_ok:
  assumes "pool_ok E p"
  shows "pool_ok E (trim p) \<and> mp_bytes (trim p) \<le> rp_max_mempool_bytes (mp_policy p)
    \<and> mp_policy (trim p) = mp_policy p \<and> (\<forall>i e. map_of (mp_entries (trim p)) i = Some e \<longrightarrow>
        map_of (mp_entries p) i = Some e)"
  using assms
proof (induction p rule: trim.induct)
  case (1 p)
  show ?case
  proof (cases "rp_max_mempool_bytes (mp_policy p) < mp_bytes p")
    case big: True
    show ?thesis
    proof (cases "lowest_entry p")
      case None
      then have "mp_entries p = []" by (simp add: lowest_entry_def)
      then have "mp_bytes p = 0" using pool_okD(5) [OF "1.prems"] by simp
      with big show ?thesis by simp
    next
      case (Some i)
      have "trim p = trim (mempool_remove i p)" using big Some by (subst trim.simps) simp
      moreover have "map_of (mp_entries p) j = Some e"
        if "map_of (mp_entries (mempool_remove i p)) j = Some e" for j e
        using that by (auto simp: remove_entries [OF pool_okD(1) [OF "1.prems"]] split: if_splits)
      ultimately show ?thesis using "1.IH" [OF big Some pool_ok_remove [OF "1.prems"]] by simp
    qed
  next
    case False
    then have "trim p = p" by (subst trim.simps) simp
    then show ?thesis using "1.prems" False by simp
  qed
qed

lemma expire_and_trim_ok:
  assumes "pool_ok E p"
  shows "pool_ok E (expire_and_trim now p)"
    "mp_bytes (expire_and_trim now p) \<le> rp_max_mempool_bytes (mp_policy p)"
    "mp_policy (expire_and_trim now p) = mp_policy p"
    "map_of (mp_entries (expire_and_trim now p)) i = Some e \<Longrightarrow> map_of (mp_entries p) i = Some e
      \<and> saturating_sub now (en_received_at e) \<le> rp_ttl_seconds (mp_policy p)"
proof -
  have x: "pool_ok E (expire now p)" "mp_policy (expire now p) = mp_policy p"
    unfolding expire_def using assms by (simp_all add: pool_ok_fold_remove)
  note t = trim_ok [OF x(1)]
  show "pool_ok E (expire_and_trim now p)"
    "mp_bytes (expire_and_trim now p) \<le> rp_max_mempool_bytes (mp_policy p)"
    "mp_policy (expire_and_trim now p) = mp_policy p"
    using t x(2) by (simp_all add: expire_and_trim_def)
  assume "map_of (mp_entries (expire_and_trim now p)) i = Some e"
  then have "map_of (mp_entries (expire now p)) i = Some e" using t by (simp add: expire_and_trim_def)
  then have m: "map_of (mp_entries p) i = Some e"
    and n: "i \<notin> fst ` {x \<in> set (mp_entries p). case x of (txid, entry) \<Rightarrow>
          rp_ttl_seconds (mp_policy p) < saturating_sub now (en_received_at entry)}"
    unfolding expire_def fold_remove_entries [OF assms] by (auto split: if_splits)
  have "(i, e) \<in> set (mp_entries p)" using m by (rule map_of_SomeD)
  then have "\<not> rp_ttl_seconds (mp_policy p) < saturating_sub now (en_received_at e)"
    using n by force
  with m show "map_of (mp_entries p) i = Some e
      \<and> saturating_sub now (en_received_at e) \<le> rp_ttl_seconds (mp_policy p)" by simp
qed

section \<open>Acceptance\<close>

text \<open>Under the invariant every queued id is an entry, so the funding check does not panic.\<close>

lemma funded_from_total:
  assumes "\<forall>(slot, i) \<in> set queue. smap_get entries i \<noteq> None"
  shows "funded_from entries sender n balance queue \<noteq> None"
  using assms
  by (induction entries sender n balance queue rule: funded_from.induct)
    (auto simp: Let_def split: option.split)

lemma sender_is_funded_total:
  assumes "pool_ok E p"
  shows "sender_is_funded p sender s \<noteq> None"
proof -
  have "smap_get (mp_entries p) i \<noteq> None" if "(slot, i) \<in> set (mp_by_sender_nonce p)" for slot i
  proof -
    have "map_of (mp_by_sender_nonce p) slot = Some i"
      using that smap_set_iff [OF pool_okD(2) [OF assms]] by blast
    from pool_okD(4) [OF assms this] show ?thesis by (auto simp: slot_ok_def)
  qed
  then show ?thesis unfolding sender_is_funded_def Let_def
    by (intro funded_from_total) auto
qed

lemma remove_insert_entry:
  assumes ok: "pool_ok E p" and new: "map_of (mp_entries p) (transaction_id E t) = None"
    and free: "map_of (mp_by_sender_nonce p) (tx_sender t, tx_nonce t) = None"
  shows "mempool_remove (transaction_id E t) (insert_entry E t now p) = p"
proof -
  have "smap_remove (transaction_id E t) (smap_insert (transaction_id E t)
      \<lparr>en_transaction = t, en_received_at = now, en_size = length (transaction_enc t)\<rparr> (mp_entries p))
      = mp_entries p"
    by (rule smap.remove_insert [OF pool_okD(1) [OF ok] new])
  moreover have "smap_remove (tx_sender t, tx_nonce t)
      (smap_insert (tx_sender t, tx_nonce t) (transaction_id E t) (mp_by_sender_nonce p))
      = mp_by_sender_nonce p"
    by (rule smap.remove_insert [OF pool_okD(2) [OF ok] free])
  ultimately show ?thesis
    by (simp add: mempool_remove_def insert_entry_def Let_def)
qed

lemma finish_accept_cases:
  assumes ok: "pool_ok E p" and t: "relayed E (mp_policy p) t" "transaction_ok E t"
    and new: "map_of (mp_entries p) (transaction_id E t) = None"
    and free: "map_of (mp_by_sender_nonce p) (tx_sender t, tx_nonce t) = None"
  shows "finish_accept E t s now p = Some (Inl Balance, p)
    \<or> finish_accept E t s now p
        = Some (Inr (transaction_id E t), expire_and_trim now (insert_entry E t now p))"
proof -
  note ins = pool_ok_insert [OF ok t new free, of now]
  obtain f where "sender_is_funded (insert_entry E t now p) (tx_sender t) s = Some f"
    using sender_is_funded_total [OF ins] by blast
  then show ?thesis
    using remove_insert_entry [OF ok new free] by (cases f) (simp_all add: finish_accept_def Let_def)
qed

lemma insert_entry_policy [simp]: "mp_policy (insert_entry E t now p) = mp_policy p"
  by (simp add: insert_entry_def Let_def)

lemma remove_bytes_le: "mp_bytes (mempool_remove i p) \<le> mp_bytes p"
  by (simp add: mempool_remove_def split: option.split)

text \<open>The outcomes of \<open>accept\<close>; \<open>q\<close> is the pool without the transaction that is replaced.\<close>

lemma accept_cases:
  assumes ok: "pool_ok E p" and t: "transaction_ok E t"
  obtains (refused) e where "accept E t s now p = Some (Inl e, p)"
      "validate_for_relay E t (mp_policy p) s = Inl e \<or> e = ReplacementFee"
  | (known) "accept E t s now p = Some (Inr (transaction_id E t), p)"
      "mempool_contains p (transaction_id E t)"
  | (finished) q where "pool_ok E q" "mp_policy q = mp_policy p" "mp_bytes q \<le> mp_bytes p"
      "relayed E (mp_policy p) t" "\<not> mempool_contains p (transaction_id E t)"
      "case smap_get (mp_by_sender_nonce p) (tx_sender t, tx_nonce t) of
         None \<Rightarrow> q = p | Some i \<Rightarrow> q = mempool_remove i p"
      "map_of (mp_entries q) (transaction_id E t) = None"
      "map_of (mp_by_sender_nonce q) (tx_sender t, tx_nonce t) = None"
      "accept E t s now p = Some (Inl Balance, q)
       \<or> accept E t s now p
           = Some (Inr (transaction_id E t), expire_and_trim now (insert_entry E t now q))"
proof (cases "validate_for_relay E t (mp_policy p) s")
  case (Inl e)
  then show thesis by (intro refused [of e]) (simp_all add: accept_def)
next
  case (Inr u)
  note rel = validate_for_relay_Inr(1) [OF Inr]
  show thesis
  proof (cases "mempool_contains p (transaction_id E t)")
    case True
    then show thesis using Inr by (intro known) (simp_all add: accept_def)
  next
    case False
    then have new: "map_of (mp_entries p) (transaction_id E t) = None" by (simp add: mempool_contains_def)
    show thesis
    proof (cases "smap_get (mp_by_sender_nonce p) (tx_sender t, tx_nonce t)")
      case None
      have "accept E t s now p = finish_accept E t s now p"
        using Inr False None by (simp add: accept_def Let_def)
      then show thesis
        using finish_accept_cases [OF ok rel t new None, of s now] ok rel False None new
        by (intro finished [of p]) simp_all
    next
      case (Some i)
      then obtain e where e: "map_of (mp_entries p) i = Some e"
        using pool_okD(4) [OF ok Some] by (auto simp: slot_ok_def)
      show thesis
      proof (cases "tx_fee t < replacement_fee (mp_policy p) (tx_fee (en_transaction e))")
        case True
        then show thesis using Inr False Some e
          by (intro refused [of ReplacementFee]) (simp_all add: accept_def Let_def)
      next
        case fee: False
        let ?q = "mempool_remove i p"
        have acc: "accept E t s now p = finish_accept E t s now ?q"
          using Inr False Some e fee by (simp add: accept_def Let_def)
        note q = pool_ok_remove [OF ok, of i]
        have new': "map_of (mp_entries ?q) (transaction_id E t) = None"
          using new by (simp add: remove_entries [OF pool_okD(1) [OF ok]])
        have free': "map_of (mp_by_sender_nonce ?q) (tx_sender t, tx_nonce t) = None"
          using Some by (simp add: remove_slots [OF ok])
        have rel': "relayed E (mp_policy ?q) t" using rel by simp
        show thesis
          using finish_accept_cases [OF q rel' t new' free', of s now] q rel False Some new' free' acc
            remove_bytes_le by (intro finished [of ?q]) simp_all
      qed
    qed
  qed
qed

lemma accept_ok:
  assumes ok: "pool_ok E p" and t: "transaction_ok E t"
  obtains r p' where "accept E t s now p = Some (r, p')" "pool_ok E p'" "mp_policy p' = mp_policy p"
    "mp_bytes p \<le> rp_max_mempool_bytes (mp_policy p) \<Longrightarrow>
      mp_bytes p' \<le> rp_max_mempool_bytes (mp_policy p')"
proof (cases rule: accept_cases [OF ok t, of s now])
  case (1 e)
  then show thesis using ok that by blast
next
  case 2
  then show thesis using ok that by blast
next
  case (3 q)
  from 3(4) 3(2) have "relayed E (mp_policy q) t" by simp
  note ins = pool_ok_insert [OF 3(1) this t 3(7,8), of now]
  from 3(9) show thesis
  proof
    assume "accept E t s now p = Some (Inl Balance, q)"
    then show thesis using 3(1-3) by (intro that [of "Inl Balance" q]) simp_all
  next
    assume h: "accept E t s now p
        = Some (Inr (transaction_id E t), expire_and_trim now (insert_entry E t now q))"
    show thesis
      by (rule that [OF h]) (use expire_and_trim_ok(1-3) [OF ins, of now] 3(2) in simp_all)
  qed
qed

lemma remove_confirmed_ok: "pool_ok E p \<Longrightarrow> pool_ok E (remove_confirmed E ts p)"
  unfolding remove_confirmed_def by (induction ts arbitrary: p) (simp_all add: pool_ok_remove)

section \<open>Selected transactions are valid in a block\<close>

lemma relayed_structure:
  assumes "relayed E policy t"
  shows "validate_transaction_structure t = Inr ()"
  using assms
  by (auto simp: relayed_def validate_transaction_structure_def length_transaction_enc
      MAX_TRANSACTION_BYTES_def)

lemma relayed_numbers:
  assumes "relayed E policy t"
  shows "unat (tx_amount t + tx_fee t) = unat (tx_amount t) + unat (tx_fee t)"
    "unat (saturating_add (tx_amount t) (tx_fee t)) = unat (tx_amount t) + unat (tx_fee t)"
    "unat (tx_nonce t + 1) = unat (tx_nonce t) + 1" "unat (tx_nonce t) < 2 ^ 64 - 1"
proof -
  have "unat (tx_amount t) \<le> 2 ^ 62 - 1" "unat (tx_fee t) \<le> 2 ^ 62 - 1"
    using assms unat_MAX_MONEY by (simp_all add: relayed_def word_le_nat_alt)
  then have b: "unat (tx_amount t) + unat (tx_fee t) < 2 ^ 63" by simp
  then show "unat (tx_amount t + tx_fee t) = unat (tx_amount t) + unat (tx_fee t)"
    by (intro unat_add_exact) simp
  show "unat (saturating_add (tx_amount t) (tx_fee t)) = unat (tx_amount t) + unat (tx_fee t)"
    using b by (simp add: unat_saturating_add)
  have "tx_nonce t \<noteq> - 1" using assms by (simp add: relayed_def)
  then have "unat (tx_nonce t) \<noteq> unat (- 1 :: u64)" by (simp add: word_unat_eq_iff)
  then show l: "unat (tx_nonce t) < 2 ^ 64 - 1"
    using unat_bound [of "tx_nonce t"] by (simp add: unat_max_word)
  then show "unat (tx_nonce t + 1) = unat (tx_nonce t) + 1"
    by (subst unat_add_exact) simp_all
qed

text \<open>What paying for an eligible transaction does to the working ledger.\<close>

lemma pay_effect:
  assumes ok: "ledger_ok E w" and sup: "ledger_supply w \<le> unat MAX_MONEY" and t: "relayed E policy t" "transaction_ok E t"
    and el: "unat (tx_amount t) + unat (tx_fee t) \<le> bal w (tx_sender t)"
  obtains w' where "pay E t w = Some w'" "ledger_ok E w'"
    "ledger_supply w' + unat (tx_fee t) = ledger_supply w"
    "\<forall>a. bal w' a + paid_by a t = bal w a + paid_to a t"
    "\<forall>a. ac_nonce (ledger_account w' a)
        = (if a = tx_sender t then tx_nonce t + 1 else ac_nonce (ledger_account w a))"
proof -
  have a_ok: "address_ok E (tx_sender t)" "address_ok E (tx_recipient t)"
    and ne: "tx_sender t \<noteq> tx_recipient t"
    using t by (simp_all add: transaction_ok_def relayed_def)
  note n = relayed_numbers [OF t(1)]
  obtain w1 where w1: "debit E (tx_sender t) (tx_amount t + tx_fee t) w = Inr w1"
    using el by (simp add: debit_Inr n(1))
  note de = debit_effect [OF ok a_ok(1) w1]
  have "bal w1 (tx_recipient t) + unat (tx_amount t) \<le> unat MAX_MONEY"
    using bal_le_supply [of w1 "tx_recipient t"] de(2) sup n(1) by simp
  then obtain w2 where w2: "credit E (tx_recipient t) (tx_amount t) w1 = Inr w2"
    by (simp add: credit_Inr)
  note ce = credit_effect [OF de(1) a_ok(2) w2]
  note se = set_nonce_effect [OF ce(1) a_ok(1), of "tx_nonce t + 1"]
  show thesis
  proof (rule that [of "set_nonce E (tx_sender t) (tx_nonce t + 1) w2"])
    show "pay E t w = Some (set_nonce E (tx_sender t) (tx_nonce t + 1) w2)"
      by (simp add: pay_def w1 w2)
    show "ledger_ok E (set_nonce E (tx_sender t) (tx_nonce t + 1) w2)" by (rule se(1))
    show "ledger_supply (set_nonce E (tx_sender t) (tx_nonce t + 1) w2) + unat (tx_fee t)
        = ledger_supply w" using se(2) ce(2) de(2) n(1) by simp
    have "bal (set_nonce E (tx_sender t) (tx_nonce t + 1) w2) a + paid_by a t = bal w a + paid_to a t" for a
      using se(3) [of a] ce(3) [of a] de(3) [of a] de(4) n(1) ne by (auto simp: paid_by_def paid_to_def)
    then show "\<forall>a. bal (set_nonce E (tx_sender t) (tx_nonce t + 1) w2) a + paid_by a t
        = bal w a + paid_to a t" by blast
    have "ac_nonce (ledger_account (set_nonce E (tx_sender t) (tx_nonce t + 1) w2) a)
        = (if a = tx_sender t then tx_nonce t + 1 else ac_nonce (ledger_account w a))" for a
      using se(4) [of a] ce(4) [of a] de(5) [of a] by simp
    then show "\<forall>a. ac_nonce (ledger_account (set_nonce E (tx_sender t) (tx_nonce t + 1) w2) a)
        = (if a = tx_sender t then tx_nonce t + 1 else ac_nonce (ledger_account w a))" by blast
  qed
qed

text \<open>Consensus execution accepts such a transaction from any ledger that is at least as rich.\<close>

lemma apply_transaction_accepts:
  assumes t: "relayed E policy t" "transaction_ok E t" and ok: "ledger_ok E (ex_ledger x)"
    and sup: "ledger_supply (ex_ledger x) + unat (ex_fees x) \<le> unat MAX_MONEY"
    and new: "transaction_id E t \<notin> set (ex_seen x)"
    and nonce: "tx_nonce t = ac_nonce (ledger_account (ex_ledger x) (tx_sender t))"
    and el: "unat (tx_amount t) + unat (tx_fee t) \<le> bal (ex_ledger x) (tx_sender t)"
  obtains x' where "apply_transaction E x t = Inr x'"
proof -
  have sup': "ledger_supply (ex_ledger x) \<le> unat MAX_MONEY" using sup by simp
  obtain w where w: "pay E t (ex_ledger x) = Some w" by (rule pay_effect [OF ok sup' t el])
  note n = relayed_numbers [OF t(1)]
  obtain w1 w2 where d: "debit E (tx_sender t) (tx_amount t + tx_fee t) (ex_ledger x) = Inr w1"
    and c: "credit E (tx_recipient t) (tx_amount t) w1 = Inr w2"
    using w by (auto simp: pay_def split: sum.splits)
  obtain sig where sig: "tx_signature t = array_bytes sig"
    "parse_and_validate_signature E (tx_sender t) (tx_public_key t) sig (transaction_signature_hash E t)
      = Inr ()" using t(1) by (auto simp: relayed_def transaction_signed_def)
  have "checked_add (tx_amount t) (tx_fee t) = Some (tx_amount t + tx_fee t)"
    by (simp add: checked_add_Some n(1))
  moreover have "tx_amount t + tx_fee t \<le> ac_balance (ledger_account (ex_ledger x) (tx_sender t))"
    using el by (simp add: word_le_nat_alt n(1) bal_def)
  moreover have "checked_add (tx_nonce t) 1 = Some (tx_nonce t + 1)" by (simp add: checked_add_Some n(3))
  moreover have "unat (ex_fees x) + unat (tx_fee t) \<le> unat MAX_MONEY"
    using el bal_le_supply [of "ex_ledger x" "tx_sender t"] sup by simp
  then have "checked_add (ex_fees x) (tx_fee t) = Some (ex_fees x + tx_fee t)"
    "ex_fees x + tx_fee t \<le> MAX_MONEY"
    using unat_add_exact [of "ex_fees x" "tx_fee t"]
    by (simp_all add: checked_add_Some word_le_nat_alt unat_MAX_MONEY)
  ultimately show thesis
    using relayed_structure [OF t(1)] new nonce sig d c that
    by (simp add: apply_transaction_def Let_def result_simps array_try_from_Some opt_filter_Some)
qed

text \<open>The working ledger \<open>w\<close> of the selection follows the execution \<open>x\<close> from a richer ledger.\<close>

definition follows :: "prims \<Rightarrow> ledger \<Rightarrow> exec_state \<Rightarrow> bool" where
  "follows E w x \<longleftrightarrow> ledger_ok E w \<and> ledger_supply w \<le> unat MAX_MONEY \<and> ledger_ok E (ex_ledger x)
     \<and> ledger_supply (ex_ledger x) + unat (ex_fees x) \<le> unat MAX_MONEY
     \<and> (\<forall>a. bal w a \<le> bal (ex_ledger x) a)
     \<and> (\<forall>a. ac_nonce (ledger_account w a) = ac_nonce (ledger_account (ex_ledger x) a))"

lemma follows_step:
  assumes f: "follows E w x" and t: "relayed E policy t" "transaction_ok E t"
    and el: "eligible (ex_seen x) w (transaction_id E t, e)" "en_transaction e = t"
  obtains w' x' where "pay E t w = Some w'" "apply_transaction E x t = Inr x'" "follows E w' x'"
    "ex_seen x' = transaction_id E t # ex_seen x"
proof -
  have ok: "ledger_ok E w" "ledger_supply w \<le> unat MAX_MONEY" "ledger_ok E (ex_ledger x)"
    "ledger_supply (ex_ledger x) + unat (ex_fees x) \<le> unat MAX_MONEY"
    and le: "\<And>a. bal w a \<le> bal (ex_ledger x) a"
    and nc: "\<And>a. ac_nonce (ledger_account w a) = ac_nonce (ledger_account (ex_ledger x) a)"
    using f by (simp_all add: follows_def)
  note n = relayed_numbers [OF t(1)]
  have new: "transaction_id E t \<notin> set (ex_seen x)"
    and non: "ac_nonce (ledger_account w (tx_sender t)) = tx_nonce t"
    and aff: "unat (tx_amount t) + unat (tx_fee t) \<le> bal w (tx_sender t)"
    using el by (simp_all add: eligible_def Let_def word_le_nat_alt n(2) bal_def)
  obtain w' where w': "pay E t w = Some w'" "ledger_ok E w'"
    "ledger_supply w' + unat (tx_fee t) = ledger_supply w"
    and b': "\<forall>a. bal w' a + paid_by a t = bal w a + paid_to a t"
    and m': "\<forall>a. ac_nonce (ledger_account w' a)
        = (if a = tx_sender t then tx_nonce t + 1 else ac_nonce (ledger_account w a))"
    by (rule pay_effect [OF ok(1,2) t aff])
  note b = spec [OF b'] and m = spec [OF m']
  have "unat (tx_amount t) + unat (tx_fee t) \<le> bal (ex_ledger x) (tx_sender t)"
    using aff le [of "tx_sender t"] by simp
  then obtain x' where x': "apply_transaction E x t = Inr x'"
    using apply_transaction_accepts [OF t ok(3,4) new] non nc by metis
  note e = apply_transaction_effect [OF x' ok(3) t(2)]
  have "bal w' a \<le> bal (ex_ledger x') a" for a using b [of a] e(5) [of a] le [of a] by simp
  moreover have "ac_nonce (ledger_account w' a) = ac_nonce (ledger_account (ex_ledger x') a)" for a
  proof -
    have "unat (ac_nonce (ledger_account w' a)) = nonce_of (ex_ledger x') a"
      using e(7) [of a] m [of a] non nc [of a] nc [of "tx_sender t"] n(3) by (auto simp: nonce_of_def)
    then show ?thesis by (simp add: nonce_of_def word_unat_eq_iff)
  qed
  moreover have "ledger_supply w' \<le> unat MAX_MONEY" using w'(3) ok(2) by simp
  moreover have "ledger_supply (ex_ledger x') + unat (ex_fees x') \<le> unat MAX_MONEY"
    using e(2,3) ok(4) by simp
  ultimately have "follows E w' x'" using w'(2) e(1) by (simp add: follows_def)
  then show thesis using that w'(1) x' e(11) by blast
qed

lemma select_loop_valid:
  assumes "\<And>i e. (i, e) \<in> set entries \<Longrightarrow> transaction_id E (en_transaction e) = i
      \<and> relayed E policy (en_transaction e) \<and> transaction_ok E (en_transaction e)"
    and "follows E working x"
    and "try_fold (apply_transaction E) x0 selected = Inr x" and "ex_seen x = included"
    and "\<forall>t \<in> set selected. t \<in> en_transaction ` snd ` set entries"
    and "length selected < max 1 maximum"
  shows "\<exists>result x'. select_loop E entries maximum working included selected = Some result
    \<and> try_fold (apply_transaction E) x0 result = Inr x'
    \<and> length result \<le> max 1 maximum \<and> (\<forall>t \<in> set result. t \<in> en_transaction ` snd ` set entries)"
  using assms
proof (induction E entries maximum working included selected arbitrary: x rule: select_loop.induct)
  case (1 E entries maximum working included selected)
  note st = "1.prems"
  show ?case
  proof (cases "sort_by select_le (filter (eligible included working) entries)")
    case Nil
    then show ?thesis using st by (subst select_loop.simps) (auto simp: less_imp_le)
  next
    case (Cons c rest)
    obtain i e where c: "c = (i, e)" by force
    have "(i, e) \<in> set (sort_by select_le (filter (eligible included working) entries))"
      unfolding Cons c by simp
    then have mem: "(i, e) \<in> set entries" and el: "eligible included working (i, e)" by auto
    let ?t = "en_transaction e"
    have t: "transaction_id E ?t = i" "relayed E policy ?t" "transaction_ok E ?t"
      using st(1) [OF mem] by simp_all
    obtain w' x' where w': "pay E ?t working = Some w'" "apply_transaction E x ?t = Inr x'"
      "follows E w' x'" "ex_seen x' = transaction_id E ?t # ex_seen x"
      using follows_step [OF st(2) t(2,3)] el st(4) t(1) by metis
    have fold: "try_fold (apply_transaction E) x0 (selected @ [?t]) = Inr x'"
      using st(3) w'(2) by (simp add: try_fold_append)
    have from_pool: "\<forall>t \<in> set (selected @ [?t]). t \<in> en_transaction ` snd ` set entries"
      using st(5) mem by force
    show ?thesis
    proof (cases "maximum \<le> length (selected @ [?t])")
      case True
      then have "select_loop E entries maximum working included selected = Some (selected @ [?t])"
        using Cons c w'(1) by (subst select_loop.simps) simp
      then show ?thesis using fold from_pool st(6) by (auto simp: max_def split: if_splits)
    next
      case False
      then have loop: "select_loop E entries maximum working included selected
          = select_loop E entries maximum w' (i # included) (selected @ [?t])"
        using Cons c w'(1) by (subst select_loop.simps) simp
      have len: "length (selected @ [?t]) < max 1 maximum" using False by simp
      have seen: "ex_seen x' = i # included" using w'(4) t(1) st(4) by simp
      have "\<exists>result x'. select_loop E entries maximum w' (i # included) (selected @ [?t]) = Some result
          \<and> try_fold (apply_transaction E) x0 result = Inr x'
          \<and> length result \<le> max 1 maximum \<and> (\<forall>t \<in> set result. t \<in> en_transaction ` snd ` set entries)"
        by (rule "1.IH" [OF Cons c [symmetric] w'(1) refl False st(1) w'(3) fold seen from_pool len])
      then show ?thesis unfolding loop .
    qed
  qed
qed

lemma select_valid:
  assumes ok: "pool_ok E p" and s: "ledger_ok E s" "ledger_supply s \<le> unat MAX_MONEY"
    and s': "ledger_ok E s'" "ledger_supply s' \<le> unat MAX_MONEY"
    and le: "\<And>a. bal s a \<le> bal s' a"
    and nonce: "\<And>a. ac_nonce (ledger_account s a) = ac_nonce (ledger_account s' a)"
  shows "\<exists>result final fees. select E p s maximum = Some result
    \<and> apply_transactions E s' result = Inr (final, fees)
    \<and> length result \<le> max 1 maximum
    \<and> (\<forall>t \<in> set result. mempool_get p (transaction_id E t) = Some t)"
proof -
  let ?x = "\<lparr>ex_ledger = s', ex_seen = [], ex_fees = 0\<rparr>"
  have ent: "map_of (mp_entries p) i = Some e" if "(i, e) \<in> set (mp_entries p)" for i e
    using that smap_set_iff [OF pool_okD(1) [OF ok]] by blast
  have e: "transaction_id E (en_transaction e) = i \<and> relayed E (mp_policy p) (en_transaction e)
      \<and> transaction_ok E (en_transaction e)" if "(i, e) \<in> set (mp_entries p)" for i e
    using pool_okD(3) [OF ok ent [OF that]] by (simp add: entry_ok_def)
  have "follows E s ?x" using assms by (simp add: follows_def)
  from select_loop_valid [where ?x0.0 = ?x and x = ?x and included = "[]" and selected = "[]"
      and maximum = maximum and entries = "mp_entries p", OF e this]
  obtain result x' where r: "select_loop E (mp_entries p) maximum s [] [] = Some result"
    "try_fold (apply_transaction E) ?x result = Inr x'" "length result \<le> max 1 maximum"
    "\<forall>t \<in> set result. t \<in> en_transaction ` snd ` set (mp_entries p)"
    by (auto simp: less_max_iff_disj)
  have "mempool_get p (transaction_id E t) = Some t" if t: "t \<in> set result" for t
  proof -
    obtain i d where "(i, d) \<in> set (mp_entries p)" "t = en_transaction d" using r(4) t by force
    then show ?thesis using ent e by (simp add: mempool_get_def)
  qed
  then show ?thesis using r by (auto simp: select_def apply_transactions_def rbind_Inr)
qed

section \<open>A sample pool\<close>

definition sample_transfer :: "u64 \<Rightarrow> u8 \<Rightarrow> transaction" where
  "sample_transfer fee tag = \<lparr>tx_version = TX_VERSION, tx_sender = sample_alice,
     tx_recipient = sample_bob, tx_amount = 1000, tx_fee = fee, tx_nonce = 0,
     tx_public_key = replicate 33 0, tx_signature = replicate 63 0 @ [tag]\<rparr>"

definition sample_funds :: ledger where
  "sample_funds = set_account sample_env sample_alice \<lparr>ac_balance = 200000, ac_nonce = 0\<rparr>
     (ledger_default sample_env)"

definition sample_pool :: mempool where
  "sample_pool = insert_entry sample_env (sample_transfer 100000 1) 5 (mempool_new relay_policy_default)"

lemma sample_funds_account [simp]:
  "ledger_account sample_funds sample_alice = \<lparr>ac_balance = 200000, ac_nonce = 0\<rparr>"
  by (simp add: sample_funds_def set_account_def ledger_account_def ledger_default_def
      account_default_def Let_def)

lemma sample_transfer_simps [simp]:
  "tx_sender (sample_transfer fee tag) = sample_alice" "tx_recipient (sample_transfer fee tag) = sample_bob"
  "tx_amount (sample_transfer fee tag) = 1000" "tx_fee (sample_transfer fee tag) = fee"
  "tx_nonce (sample_transfer fee tag) = 0" "tx_version (sample_transfer fee tag) = TX_VERSION"
  "length (tx_public_key (sample_transfer fee tag)) = 33"
  "length (tx_signature (sample_transfer fee tag)) = 64"
  by (simp_all add: sample_transfer_def)

lemma sample_transfer_id:
  "transaction_id sample_env (sample_transfer fee tag)
    = array_of (replicate 5 80 @ replicate 26 0 @ [tag])"
proof -
  have l: "last (transaction_enc (sample_transfer fee tag)) = tag" "transaction_enc (sample_transfer fee tag) \<noteq> []"
    by (simp_all add: transaction_enc_def sample_transfer_def put_bytes_def put_fixed_def)
  show ?thesis unfolding transaction_id_def
    by (subst sample_domain_hash) (simp_all add: l ascii_def)
qed

lemma sample_transfer_ids_differ:
  "transaction_id sample_env (sample_transfer fee tag) = transaction_id sample_env (sample_transfer fee' tag')
    \<longleftrightarrow> tag = tag'"
  by (simp add: sample_transfer_id array_of_inject)

lemma sample_transfer_relay:
  "100000 \<le> fee \<Longrightarrow> fee \<le> MAX_MONEY \<Longrightarrow>
   validate_for_relay sample_env (sample_transfer fee tag) relay_policy_default sample_funds = Inr ()"
proof -
  assume fee: "100000 \<le> fee" "fee \<le> MAX_MONEY"
  obtain sig :: "64 barr" where "tx_signature (sample_transfer fee tag) = array_bytes sig"
    using array_try_from_None [of "tx_signature (sample_transfer fee tag)", where 'n = 64]
      array_try_from_Some by (cases "array_try_from (tx_signature (sample_transfer fee tag)) :: 64 barr option") auto
  then show ?thesis using fee
    by (simp add: validate_for_relay_def relay_policy_default_def MAX_MONEY_def DEFAULT_DUST_LIMIT_def
        DEFAULT_MIN_RELAY_FEE_def DEFAULT_MAX_NONCE_GAP_def Let_def not_less ok_or_def map_err_def rbind_def)
qed

lemma sample_transfer_typed: "transaction_ok sample_env (sample_transfer fee tag)"
  by (simp add: transaction_ok_def)

lemma sample_pool_ok: "pool_ok sample_env sample_pool"
  unfolding sample_pool_def
proof (rule pool_ok_insert [OF pool_ok_new _ sample_transfer_typed])
  show "relayed sample_env (mp_policy (mempool_new relay_policy_default)) (sample_transfer 100000 1)"
    using validate_for_relay_Inr(1) [OF sample_transfer_relay [of 100000 1]]
    by (simp add: mempool_new_def MAX_MONEY_def)
qed (simp_all add: mempool_new_def)

lemma sample_funds_ok: "ledger_ok sample_env sample_funds" "ledger_supply sample_funds = 200000"
proof -
  show "ledger_ok sample_env sample_funds"
    unfolding sample_funds_def by (intro set_account_ok) (simp_all add: ledger_ok_default MAX_MONEY_def)
  show "ledger_supply sample_funds = 200000"
    by (simp add: ledger_supply_def sample_funds_def set_account_def ledger_default_def
        account_default_def Let_def)
qed

section \<open>Properties\<close>

text \<open>C32: The pool keeps its invariant: the index by sender and nonce matches the entries, the byte
  count is the sum of the entry sizes, every entry passed the relay checks; acceptance never panics
  and a pool within its byte limit stays within it.\<close>

theorem accept_invariant:
  assumes "pool_ok E p" and "transaction_ok E t"
  shows "\<exists>r p'. accept E t s now p = Some (r, p') \<and> pool_ok E p' \<and> mp_policy p' = mp_policy p
    \<and> mp_bytes p' \<le> max (mp_bytes p) (rp_max_mempool_bytes (mp_policy p))"
proof (cases rule: accept_cases [OF assms, of s now])
  case (3 q)
  from 3(4) 3(2) have "relayed E (mp_policy q) t" by simp
  note ins = pool_ok_insert [OF 3(1) this assms(2) 3(7,8), of now]
  from 3(9) 3(1-3) expire_and_trim_ok(1-3) [OF ins, of now] show ?thesis by auto
qed (use assms in auto)

theorem accept_invariant_witness:
  "\<exists>r p'. accept sample_env (sample_transfer 250000 2) sample_funds 9 sample_pool = Some (r, p')
    \<and> pool_ok sample_env p'"
  using accept_invariant [OF sample_pool_ok sample_transfer_typed] by blast

text \<open>C22: Block assembly never fails on what the pool selects: the loop does not panic and the
  selected transactions, at most the requested number, pass consensus execution, in this order, on the
  ledger in which the rewards of the candidate's height have matured.\<close>

theorem select_executes:
  assumes "pool_ok E p" and "ledger_ok E s" and "ledger_supply s \<le> unat MAX_MONEY"
    and "mature E h s = Inr (s', l)" and "0 < maximum"
  shows "\<exists>txs final fees. select E p s maximum = Some txs \<and> length txs \<le> maximum
    \<and> apply_transactions E s' txs = Inr (final, fees)"
proof -
  note m = mature_effect [OF assms(2,4)]
  have "ledger_supply s' \<le> unat MAX_MONEY" using m assms(3) by simp
  moreover have "bal s a \<le> bal s' a" for a using m by simp
  moreover have "ac_nonce (ledger_account s a) = ac_nonce (ledger_account s' a)" for a using m by simp
  ultimately show ?thesis
    using select_valid [OF assms(1,2,3) m(1), of maximum] assms(5) by (auto simp: max_def)
qed

theorem select_executes_witness:
  "\<exists>txs final fees. select sample_env sample_pool sample_funds 4096 = Some txs
    \<and> apply_transactions sample_env sample_funds txs = Inr (final, fees)"
proof -
  have m: "mature sample_env 1 sample_funds = Inr (sample_funds, [])"
    by (simp add: mature_def matured_rewards_def sample_funds_def set_account_def ledger_default_def
        account_default_def Let_def)
  show ?thesis
    using select_executes [OF sample_pool_ok sample_funds_ok(1) _ m, of 4096]
    by (auto simp: sample_funds_ok(2) MAX_MONEY_def)
qed

text \<open>A replacement that its sender cannot fund is refused, and still evicts the transaction it
  would have replaced: \<open>accept\<close> removes the old entry before it checks the balance and does not put it
  back.\<close>

theorem failed_replacement_evicts:
  assumes "pool_ok E p" and "transaction_ok E t" and "\<not> mempool_contains p (transaction_id E t)"
    and "smap_get (mp_by_sender_nonce p) (tx_sender t, tx_nonce t) = Some i"
    and "accept E t s now p = Some (Inl Balance, p')"
    and "validate_for_relay E t (mp_policy p) s = Inr ()"
  shows "mempool_contains p i \<and> p' = mempool_remove i p \<and> \<not> mempool_contains p' i"
proof -
  have i: "map_of (mp_entries p) i \<noteq> None"
    using pool_okD(4) [OF assms(1) assms(4)] by (auto simp: slot_ok_def)
  show ?thesis
  proof (cases rule: accept_cases [OF assms(1,2), of s now])
    case (3 q)
    then have "p' = q" "q = mempool_remove i p" using assms(4,5) by auto
    then show ?thesis using i remove_entries [OF pool_okD(1) [OF assms(1)], of i]
      by (simp add: mempool_contains_def)
  qed (use assms in auto)
qed

theorem failed_replacement_evicts_witness:
  "mempool_contains sample_pool (transaction_id sample_env (sample_transfer 100000 1)) \<and>
   (\<exists>p'. accept sample_env (sample_transfer 250000 2) sample_funds 9 sample_pool = Some (Inl Balance, p')
     \<and> \<not> mempool_contains p' (transaction_id sample_env (sample_transfer 100000 1)))"
proof -
  let ?old = "transaction_id sample_env (sample_transfer 100000 1)"
  let ?new = "transaction_id sample_env (sample_transfer 250000 2)"
  have slot: "smap_get (mp_by_sender_nonce sample_pool)
      (tx_sender (sample_transfer 250000 2), tx_nonce (sample_transfer 250000 2)) = Some ?old"
    by (simp add: sample_pool_def insert_entry_def mempool_new_def Let_def)
  have pol: "mp_policy sample_pool = relay_policy_default" by (simp add: sample_pool_def mempool_new_def)
  have ne: "?old \<noteq> ?new" by (simp add: sample_transfer_ids_differ)
  have fresh: "\<not> mempool_contains sample_pool ?new"
    using ne by (simp add: mempool_contains_def sample_pool_def insert_entry_def mempool_new_def Let_def)
  have rel: "validate_for_relay sample_env (sample_transfer 250000 2) (mp_policy sample_pool) sample_funds
      = Inr ()" unfolding pol by (rule sample_transfer_relay) (simp_all add: MAX_MONEY_def)
  have entry: "smap_get (mp_entries sample_pool) ?old = Some \<lparr>en_transaction = sample_transfer 100000 1,
      en_received_at = 5, en_size = length (transaction_enc (sample_transfer 100000 1))\<rparr>"
    by (simp add: sample_pool_def insert_entry_def mempool_new_def Let_def)
  have empty: "mempool_remove ?old sample_pool = mempool_new relay_policy_default"
    unfolding sample_pool_def by (rule remove_insert_entry [OF pool_ok_new]) (simp_all add: mempool_new_def)
  have fee: "\<not> 250000 < replacement_fee relay_policy_default 100000"
    by (simp add: replacement_fee_def relay_policy_default_def DEFAULT_MIN_RELAY_FEE_def RBF_PERCENT_def
        saturating_add_def saturating_mul_def)
  have "finish_accept sample_env (sample_transfer 250000 2) sample_funds 9 (mempool_new relay_policy_default)
      = Some (Inl Balance, mempool_remove ?new
          (insert_entry sample_env (sample_transfer 250000 2) 9 (mempool_new relay_policy_default)))"
    by (simp add: finish_accept_def sender_is_funded_def insert_entry_def mempool_new_def Let_def
        checked_add_def)
  then obtain p' where p': "accept sample_env (sample_transfer 250000 2) sample_funds 9 sample_pool
      = Some (Inl Balance, p')"
    using rel fresh slot entry empty fee by (simp add: accept_def Let_def pol)
  from failed_replacement_evicts [OF sample_pool_ok sample_transfer_typed fresh slot p' rel] p'
  show ?thesis by blast
qed

end
