(* ===== verification/Workshare_Pool.thy ===== *)
theory Workshare_Pool
  imports Validation
begin

text \<open>
  The pool of live workshares, \<open>WorksharePool\<close> of \<open>src/node.rs\<close>: the templates and shares on top of
  the current tip block (\<open>anchor\<close>), the work of the path behind every share and the best share.
  The path that the code pushes backwards and reverses is built here in its final order.
\<close>

record share_pool =
  wp_anchor :: hash32
  wp_templates :: "(hash32, block_template) smap"
  wp_template_bytes :: nat
  wp_shares :: "(hash32, workshare) smap"
  wp_path_work :: "(hash32, u256) smap"
  wp_tip :: hash32

definition MAX_POOL_TEMPLATE_BYTES :: nat where
  "MAX_POOL_TEMPLATE_BYTES = 64 * 1024 * 1024"

definition MAX_POOL_SHARES :: nat where
  "MAX_POOL_SHARES = 8192"

section \<open>Operations\<close>

definition pool_reset :: "hash32 \<Rightarrow> share_pool" where
  "pool_reset anchor = \<lparr>wp_anchor = anchor, wp_templates = [], wp_template_bytes = 0, wp_shares = [],
     wp_path_work = [], wp_tip = hash_zero\<rparr>"

definition pool_register_template ::
    "prims \<Rightarrow> block_template \<Rightarrow> share_pool \<Rightarrow> consensus_error + hash32 \<times> share_pool" where
  "pool_register_template E t p =
     (if bt_parent t \<noteq> wp_anchor p \<or> bt_version t \<noteq> TEMPLATE_VERSION
         \<or> MAX_TEMPLATE_BYTES < length (template_enc t)
      then Inl InvalidWorkshareChain
      else
        let k = template_id E t; encoded_size = length (template_enc t) in
        if smap_get (wp_templates p) k \<noteq> None then Inr (k, p)
        else if MAX_TEMPLATES_PER_BLOCK \<le> length (wp_templates p)
           \<or> MAX_POOL_TEMPLATE_BYTES < wp_template_bytes p + encoded_size
        then Inl SizeLimit
        else Inr (k, p\<lparr>wp_template_bytes := wp_template_bytes p + encoded_size,
               wp_templates := smap_insert k t (wp_templates p)\<rparr>))"

text \<open>The walk from a share back to the first one; \<open>rest\<close> are the shares after \<open>s\<close>.\<close>

function share_path ::
    "(hash32, workshare) smap \<Rightarrow> workshare \<Rightarrow> workshare list \<Rightarrow> hash32 list
     \<Rightarrow> consensus_error + workshare list" where
  "share_path shares s rest seen =
     (if ws_previous s = hash_zero then Inr (s # rest)
      else if ws_previous s \<in> set seen \<or> MAX_WORKSHARES_PER_BLOCK \<le> length (s # rest)
      then Inl InvalidWorkshareChain
      else case smap_get shares (ws_previous s) of
        None \<Rightarrow> Inl InvalidWorkshareChain
      | Some s' \<Rightarrow> share_path shares s' (s # rest) (ws_previous s # seen))"
  by pat_completeness auto
termination
  by (relation "measure (\<lambda>(shares, s, rest, seen). MAX_WORKSHARES_PER_BLOCK - length rest)") auto

declare share_path.simps [simp del]

definition candidate_witness :: "share_pool \<Rightarrow> workshare \<Rightarrow> consensus_error + workshare_witness" where
  "candidate_witness p share =
     (if bh_previous_block (ws_candidate_header share) \<noteq> wp_anchor p
         \<or> smap_get (wp_templates p) (ws_template_id share) = None
      then Inl InvalidWorkshareChain
      else rbind (share_path (wp_shares p) share [] []) (\<lambda>path.
        let referenced = map ws_template_id path in
        Inr \<lparr>ww_version = WITNESS_VERSION,
             ww_templates = map snd (filter (\<lambda>(k, t). k \<in> set referenced) (wp_templates p)),
             ww_workshares = path\<rparr>))"

definition path_work_of :: "share_pool \<Rightarrow> hash32 \<Rightarrow> u256" where
  "path_work_of p k = (case smap_get (wp_path_work p) k of Some w \<Rightarrow> w | None \<Rightarrow> 0)"

definition pool_accept ::
    "prims \<Rightarrow> workshare \<Rightarrow> share_pool \<Rightarrow> consensus_error + bool \<times> share_pool" where
  "pool_accept E share p =
     (let k = workshare_id E share in
      if smap_get (wp_shares p) k \<noteq> None then Inr (False, p)
      else if MAX_POOL_SHARES \<le> length (wp_shares p) then Inl SizeLimit
      else
        rbind (if ws_previous share = hash_zero then Inr 0
               else ok_or (smap_get (wp_path_work p) (ws_previous share)) InvalidWorkshareChain)
          (\<lambda>parent_work.
        rbind (workshare_weight (bh_bits (ws_candidate_header share))) (\<lambda>weight.
        rbind (ok_or (checked_add parent_work weight) ArithmeticOverflow) (\<lambda>cumulative.
          let p = p\<lparr>wp_shares := smap_insert k share (wp_shares p),
                   wp_path_work := smap_insert k cumulative (wp_path_work p)\<rparr>;
              tip_work = path_work_of p (wp_tip p)
          in if tip_work < cumulative \<or> (cumulative = tip_work \<and> k < wp_tip p)
             then Inr (True, p\<lparr>wp_tip := k\<rparr>)
             else Inr (False, p)))))"

text \<open>\<open>None\<close> is a panic: a tip that is not a share, or a path that is no longer available.\<close>

definition pool_witness :: "share_pool \<Rightarrow> workshare_witness option" where
  "pool_witness p =
     (if wp_tip p = hash_zero then Some witness_empty
      else case smap_get (wp_shares p) (wp_tip p) of
        None \<Rightarrow> None
      | Some share \<Rightarrow> (case candidate_witness p share of Inl _ \<Rightarrow> None | Inr w \<Rightarrow> Some w))"

text \<open>\<open>Node::submit_workshare\<close> under its locks: the path and the consensus rules, then the pool.\<close>

definition submit_workshare ::
    "prims \<Rightarrow> pow_verifier \<Rightarrow> u64 \<Rightarrow> block list \<Rightarrow> ledger \<Rightarrow> workshare \<Rightarrow> share_pool
     \<Rightarrow> consensus_error + bool \<times> share_pool" where
  "submit_workshare E pow now history s share p =
     rbind (candidate_witness p share) (\<lambda>witness.
     rbind (validate_workshares E pow witness history s (saturating_add now MAX_FUTURE_BLOCK_TIME)) (\<lambda>_.
       pool_accept E share p))"

section \<open>Paths\<close>

lemma share_chain_append:
  "share_chain E h (xs @ [s]) \<longleftrightarrow> share_chain E h xs
     \<and> ws_previous s = (if xs = [] then h else workshare_id E (last xs))"
  by (induction xs arbitrary: h) auto

lemma share_path_chain:
  assumes "share_path shares s rest seen = Inr path"
    and "\<And>k x. map_of shares k = Some x \<Longrightarrow> workshare_id E x = k"
  shows "\<exists>pre. path = pre @ s # rest \<and> share_chain E hash_zero (pre @ [s])
    \<and> (\<forall>x \<in> set pre. \<exists>k. map_of shares k = Some x)
    \<and> length path \<le> max MAX_WORKSHARES_PER_BLOCK (length (s # rest))"
  using assms
proof (induction shares s rest seen rule: share_path.induct)
  case (1 shares s rest seen)
  show ?case
  proof (cases "ws_previous s = hash_zero")
    case True
    then have "path = s # rest" using "1.prems"(1) by (subst (asm) share_path.simps) simp
    then show ?thesis using True by (intro exI [of _ "[]"]) simp
  next
    case False
    have c: "\<not> (ws_previous s \<in> set seen \<or> MAX_WORKSHARES_PER_BLOCK \<le> length (s # rest))"
      using "1.prems"(1) False by (subst (asm) share_path.simps) (auto split: if_splits)
    obtain s' where s': "smap_get shares (ws_previous s) = Some s'"
      and rec: "share_path shares s' (s # rest) (ws_previous s # seen) = Inr path"
      using "1.prems"(1) False c by (subst (asm) share_path.simps) (auto split: option.splits)
    obtain pre where pre: "path = pre @ s' # s # rest" "share_chain E hash_zero (pre @ [s'])"
      "\<forall>x \<in> set pre. \<exists>k. map_of shares k = Some x"
      "length path \<le> max MAX_WORKSHARES_PER_BLOCK (length (s' # s # rest))"
      using "1.IH" [OF False c s' rec "1.prems"(2)] by blast
    have "workshare_id E s' = ws_previous s" by (rule "1.prems"(2) [OF s'])
    then have "share_chain E hash_zero ((pre @ [s']) @ [s])"
      using pre(2) by (subst share_chain_append) simp
    then show ?thesis using pre s' c
      by (intro exI [of _ "pre @ [s']"]) auto
  qed
qed

lemma share_path_mono:
  assumes "share_path shares s rest seen = Inr path"
    and "\<And>k x. map_of shares k = Some x \<Longrightarrow> map_of shares' k = Some x"
  shows "share_path shares' s rest seen = Inr path"
  using assms
proof (induction shares s rest seen rule: share_path.induct)
  case (1 shares s rest seen)
  show ?case
  proof (cases "ws_previous s = hash_zero")
    case True
    then show ?thesis using "1.prems"(1) by (subst (asm) share_path.simps, subst share_path.simps) simp
  next
    case False
    have c: "\<not> (ws_previous s \<in> set seen \<or> MAX_WORKSHARES_PER_BLOCK \<le> length (s # rest))"
      using "1.prems"(1) False by (subst (asm) share_path.simps) (auto split: if_splits)
    obtain s' where s': "smap_get shares (ws_previous s) = Some s'"
      and rec: "share_path shares s' (s # rest) (ws_previous s # seen) = Inr path"
      using "1.prems"(1) False c by (subst (asm) share_path.simps) (auto split: option.splits)
    have "share_path shares' s' (s # rest) (ws_previous s # seen) = Inr path"
      by (rule "1.IH" [OF False c s' rec "1.prems"(2)])
    then show ?thesis using False c "1.prems"(2) [OF s'] by (subst share_path.simps) simp
  qed
qed

text \<open>The path of a share that another share follows is the path of the latter without it.\<close>

lemma share_path_prefix:
  assumes "share_path shares s (rest @ later) seen = Inr path" and "set seen' \<subseteq> set seen"
  shows "\<exists>pre. share_path shares s rest seen' = Inr pre \<and> path = pre @ later"
  using assms
proof (induction shares s rest seen' arbitrary: seen rule: share_path.induct)
  case (1 shares s rest seen')
  show ?case
  proof (cases "ws_previous s = hash_zero")
    case True
    then show ?thesis using "1.prems"(1)
      by (subst (asm) share_path.simps, subst share_path.simps) auto
  next
    case False
    have c: "\<not> (ws_previous s \<in> set seen \<or> MAX_WORKSHARES_PER_BLOCK \<le> length (s # rest @ later))"
      using "1.prems"(1) False by (subst (asm) share_path.simps) (auto split: if_splits)
    then have c': "\<not> (ws_previous s \<in> set seen' \<or> MAX_WORKSHARES_PER_BLOCK \<le> length (s # rest))"
      using "1.prems"(2) by auto
    obtain s' where s': "smap_get shares (ws_previous s) = Some s'"
      and rec: "share_path shares s' ((s # rest) @ later) (ws_previous s # seen) = Inr path"
      using "1.prems"(1) False c by (subst (asm) share_path.simps) (auto split: option.splits)
    have "set (ws_previous s # seen') \<subseteq> set (ws_previous s # seen)" using "1.prems"(2) by auto
    from "1.IH" [OF False c' s' rec this] show ?thesis
      using False c' s' by (subst share_path.simps) simp
  qed
qed

lemma share_path_first:
  "ws_previous s = hash_zero \<Longrightarrow> share_path shares s rest seen = Inr path \<longleftrightarrow> path = s # rest"
  by (subst share_path.simps) auto

text \<open>Behind a share that is not the first of its chain is the share it names.\<close>

lemma share_path_step:
  assumes "share_path shares s [] [] = Inr path" and "ws_previous s \<noteq> hash_zero"
  obtains s' pre where "map_of shares (ws_previous s) = Some s'"
    "share_path shares s' [] [] = Inr pre" "path = pre @ [s]"
proof -
  obtain s' where s': "smap_get shares (ws_previous s) = Some s'"
    and rec: "share_path shares s' ([] @ [s]) [ws_previous s] = Inr path"
    using assms by (subst (asm) share_path.simps) (auto split: option.splits if_splits)
  obtain pre where "share_path shares s' [] [] = Inr pre" "path = pre @ [s]"
    using share_path_prefix [OF rec, of "[]"] by auto
  then show thesis using s' that by blast
qed

section \<open>The pool invariant\<close>

text \<open>Every share of the pool builds on the anchor and a known template, and its path back to the
  first share is there, with its work on record.\<close>

definition share_entry_ok :: "prims \<Rightarrow> share_pool \<Rightarrow> hash32 \<Rightarrow> workshare \<Rightarrow> bool" where
  "share_entry_ok E p k s \<longleftrightarrow> workshare_id E s = k
     \<and> bh_previous_block (ws_candidate_header s) = wp_anchor p
     \<and> smap_get (wp_templates p) (ws_template_id s) \<noteq> None
     \<and> (\<exists>path w. share_path (wp_shares p) s [] [] = Inr path \<and> map_of (wp_path_work p) k = Some w
          \<and> unat w = sum_list (map share_work path) \<and> 0 < w)"

definition template_entry_ok :: "prims \<Rightarrow> share_pool \<Rightarrow> hash32 \<Rightarrow> block_template \<Rightarrow> bool" where
  "template_entry_ok E p k t \<longleftrightarrow> template_id E t = k \<and> bt_parent t = wp_anchor p
     \<and> bt_version t = TEMPLATE_VERSION \<and> length (template_enc t) \<le> MAX_TEMPLATE_BYTES"

text \<open>The tip is the share with the most work behind it, the lowest id among equals.\<close>

definition tip_ok :: "share_pool \<Rightarrow> bool" where
  "tip_ok p \<longleftrightarrow> (wp_tip p = hash_zero \<or> smap_get (wp_shares p) (wp_tip p) \<noteq> None)
     \<and> (\<forall>k w. map_of (wp_path_work p) k = Some w \<longrightarrow>
          w < path_work_of p (wp_tip p) \<or> (w = path_work_of p (wp_tip p) \<and> wp_tip p \<le> k))"

definition share_pool_ok :: "prims \<Rightarrow> share_pool \<Rightarrow> bool" where
  "share_pool_ok E p \<longleftrightarrow> smap_ok (wp_templates p) \<and> smap_ok (wp_shares p) \<and> smap_ok (wp_path_work p)
     \<and> (\<forall>k s. map_of (wp_shares p) k = Some s \<longrightarrow> share_entry_ok E p k s)
     \<and> (\<forall>k t. map_of (wp_templates p) k = Some t \<longrightarrow> template_entry_ok E p k t)
     \<and> wp_template_bytes p = smap_sum (\<lambda>t. length (template_enc t)) (wp_templates p)
     \<and> wp_template_bytes p \<le> MAX_POOL_TEMPLATE_BYTES
     \<and> length (wp_templates p) \<le> MAX_TEMPLATES_PER_BLOCK \<and> length (wp_shares p) \<le> MAX_POOL_SHARES
     \<and> dom (map_of (wp_path_work p)) = dom (map_of (wp_shares p)) \<and> tip_ok p"

lemma pool_reset_ok: "share_pool_ok E (pool_reset anchor)"
  by (simp add: share_pool_ok_def pool_reset_def tip_ok_def)

lemma pool_register_template_ok:
  assumes ok: "share_pool_ok E p" and r: "pool_register_template E t p = Inr (k, p')"
  shows "share_pool_ok E p' \<and> k = template_id E t \<and> map_of (wp_templates p') k \<noteq> None
    \<and> wp_shares p' = wp_shares p \<and> wp_tip p' = wp_tip p"
proof (cases "map_of (wp_templates p) (template_id E t)")
  case (Some t')
  then show ?thesis using assms by (auto simp: pool_register_template_def Let_def split: if_splits)
next
  case None
  let ?p = "p\<lparr>wp_template_bytes := wp_template_bytes p + length (template_enc t),
     wp_templates := smap_insert (template_id E t) t (wp_templates p)\<rparr>"
  have k: "k = template_id E t" and p': "p' = ?p"
    and c: "bt_parent t = wp_anchor p" "bt_version t = TEMPLATE_VERSION"
      "length (template_enc t) \<le> MAX_TEMPLATE_BYTES" "length (wp_templates p) < MAX_TEMPLATES_PER_BLOCK"
      "wp_template_bytes p + length (template_enc t) \<le> MAX_POOL_TEMPLATE_BYTES"
    using r None by (auto simp: pool_register_template_def Let_def split: if_splits)
  note o = ok [unfolded share_pool_ok_def]
  have "smap_sum (\<lambda>t. length (template_enc t)) (smap_insert (template_id E t) t (wp_templates p))
      = smap_sum (\<lambda>t. length (template_enc t)) (wp_templates p) + length (template_enc t)"
    using smap_sum_insert [of "wp_templates p" "\<lambda>t. length (template_enc t)" "template_id E t" t] o None
    by simp
  moreover have "share_entry_ok E ?p k' s" if "map_of (wp_shares p) k' = Some s" for k' s
  proof -
    have "share_entry_ok E p k' s" using o that by blast
    then show ?thesis by (auto simp: share_entry_ok_def)
  qed
  moreover have "template_entry_ok E ?p k' u" if "map_of (wp_templates ?p) k' = Some u" for k' u
  proof (cases "k' = template_id E t")
    case True
    then show ?thesis using that c by (simp add: template_entry_ok_def)
  next
    case False
    then have "template_entry_ok E p k' u" using o that by simp
    then show ?thesis by (simp add: template_entry_ok_def)
  qed
  moreover have "tip_ok ?p" using o by (simp add: tip_ok_def path_work_of_def)
  ultimately have "share_pool_ok E ?p"
    using o c None by (simp add: share_pool_ok_def length_smap_insert)
  then show ?thesis unfolding k p' by simp
qed

lemma candidate_witness_Inr:
  "candidate_witness p share = Inr w \<longleftrightarrow>
     bh_previous_block (ws_candidate_header share) = wp_anchor p
     \<and> map_of (wp_templates p) (ws_template_id share) \<noteq> None
     \<and> (\<exists>path. share_path (wp_shares p) share [] [] = Inr path
         \<and> w = \<lparr>ww_version = WITNESS_VERSION,
              ww_templates = map snd (filter (\<lambda>(k, t). k \<in> set (map ws_template_id path)) (wp_templates p)),
              ww_workshares = path\<rparr>)"
  by (auto simp: candidate_witness_def rbind_Inr Let_def)

lemma share_entry_okD:
  assumes "share_pool_ok E p" and "map_of (wp_shares p) k = Some s"
  shows "workshare_id E s = k" "bh_previous_block (ws_candidate_header s) = wp_anchor p"
    "map_of (wp_templates p) (ws_template_id s) \<noteq> None"
    "\<exists>path w. share_path (wp_shares p) s [] [] = Inr path \<and> map_of (wp_path_work p) k = Some w
        \<and> unat w = sum_list (map share_work path) \<and> 0 < w"
  using assms by (auto simp: share_pool_ok_def share_entry_ok_def)

lemma path_work_pos:
  assumes "share_pool_ok E p" and "map_of (wp_path_work p) k = Some w"
  shows "0 < w" "map_of (wp_shares p) k \<noteq> None"
proof -
  have "dom (map_of (wp_path_work p)) = dom (map_of (wp_shares p))"
    using assms(1) by (simp add: share_pool_ok_def)
  then obtain s where s: "map_of (wp_shares p) k = Some s" using assms(2) by blast
  then show "map_of (wp_shares p) k \<noteq> None" by simp
  show "0 < w" using share_entry_okD(4) [OF assms(1) s] assms(2) by auto
qed

text \<open>The share that \<open>accept\<close> inserts, with the work of its path.\<close>

definition with_share :: "hash32 \<Rightarrow> workshare \<Rightarrow> u256 \<Rightarrow> share_pool \<Rightarrow> share_pool" where
  "with_share k s w p = p\<lparr>wp_shares := smap_insert k s (wp_shares p),
     wp_path_work := smap_insert k w (wp_path_work p)\<rparr>"

lemma with_share_simps [simp]:
  "wp_anchor (with_share k s w p) = wp_anchor p" "wp_templates (with_share k s w p) = wp_templates p"
  "wp_template_bytes (with_share k s w p) = wp_template_bytes p" "wp_tip (with_share k s w p) = wp_tip p"
  "wp_shares (with_share k s w p) = smap_insert k s (wp_shares p)"
  "wp_path_work (with_share k s w p) = smap_insert k w (wp_path_work p)"
  by (simp_all add: with_share_def)

lemma pool_accept_cases:
  assumes ok: "share_pool_ok E p" and cw: "candidate_witness p share = Inr wit"
    and acc: "pool_accept E share p = Inr (changed, p')"
  obtains (known) "map_of (wp_shares p) (workshare_id E share) \<noteq> None" "p' = p" "\<not> changed"
  | (new) w where "map_of (wp_shares p) (workshare_id E share) = None"
      "length (wp_shares p) < MAX_POOL_SHARES"
      "unat w = sum_list (map share_work (ww_workshares wit))" "0 < w"
      "changed \<longleftrightarrow> path_work_of (with_share (workshare_id E share) share w p) (wp_tip p) < w
         \<or> (w = path_work_of (with_share (workshare_id E share) share w p) (wp_tip p)
             \<and> workshare_id E share < wp_tip p)"
      "p' = (with_share (workshare_id E share) share w p)
         \<lparr>wp_tip := if changed then workshare_id E share else wp_tip p\<rparr>"
proof (cases "map_of (wp_shares p) (workshare_id E share)")
  case (Some s)
  then have "p' = p" "\<not> changed" using acc by (simp_all add: pool_accept_def Let_def)
  then show thesis using Some by (intro known) simp_all
next
  case None
  let ?k = "workshare_id E share"
  have len: "length (wp_shares p) < MAX_POOL_SHARES"
    using acc None by (auto simp: pool_accept_def Let_def split: if_splits)
  have body: "rbind (if ws_previous share = hash_zero then Inr 0
           else ok_or (smap_get (wp_path_work p) (ws_previous share)) InvalidWorkshareChain) (\<lambda>pw.
       rbind (workshare_weight (bh_bits (ws_candidate_header share))) (\<lambda>weight.
       rbind (ok_or (checked_add pw weight) ArithmeticOverflow) (\<lambda>cum.
         if path_work_of (with_share ?k share cum p) (wp_tip p) < cum
           \<or> (cum = path_work_of (with_share ?k share cum p) (wp_tip p) \<and> ?k < wp_tip p)
         then Inr (True, (with_share ?k share cum p)\<lparr>wp_tip := ?k\<rparr>)
         else Inr (False, with_share ?k share cum p)))) = Inr (changed, p')"
    using acc len None by (simp add: pool_accept_def Let_def with_share_def cong del: if_weak_cong)
  obtain pw weight cum where
    pw: "(if ws_previous share = hash_zero then Inr 0
          else ok_or (smap_get (wp_path_work p) (ws_previous share)) InvalidWorkshareChain) = Inr pw"
    and weight: "workshare_weight (bh_bits (ws_candidate_header share)) = Inr weight"
    and cum: "checked_add pw weight = Some cum"
    and res: "(if path_work_of (with_share ?k share cum p) (wp_tip p) < cum
           \<or> (cum = path_work_of (with_share ?k share cum p) (wp_tip p) \<and> ?k < wp_tip p)
         then (True, (with_share ?k share cum p)\<lparr>wp_tip := ?k\<rparr>)
         else (False, with_share ?k share cum p)) = (changed, p')"
    using body unfolding rbind_Inr ok_or_Inr by (elim exE conjE) (rule that, assumption+, simp split: if_splits)
  obtain path where path: "share_path (wp_shares p) share [] [] = Inr path"
    and wp: "ww_workshares wit = path"
    using cw by (auto simp: candidate_witness_Inr)
  have sw: "share_work share = unat weight" by (simp add: share_work_def weight)
  have "unat pw + share_work share = sum_list (map share_work path)"
  proof (cases "ws_previous share = hash_zero")
    case True
    then show ?thesis using path pw by (simp add: share_path_first)
  next
    case False
    obtain s' pre where s': "map_of (wp_shares p) (ws_previous share) = Some s'"
      and pre: "share_path (wp_shares p) s' [] [] = Inr pre" "path = pre @ [share]"
      by (rule share_path_step [OF path False])
    have "map_of (wp_path_work p) (ws_previous share) = Some pw"
      using pw False by (auto simp: ok_or_def split: option.splits)
    then show ?thesis using share_entry_okD(4) [OF ok s'] pre by auto
  qed
  then have w: "unat cum = sum_list (map share_work path)" using cum sw by (simp add: numeric_simps)
  have "0 < share_work share" using workshare_weight_pos [OF weight] sw by simp
  then have pos: "0 < cum" using cum sw by (simp add: numeric_simps word_less_nat_alt)
  show thesis
    by (rule new [of cum]) (use None len w wp pos res in \<open>auto split: if_splits simp: with_share_def\<close>)
qed

lemma with_share_path:
  assumes "share_path (wp_shares p) s [] [] = Inr path" and "map_of (wp_shares p) k = None"
  shows "share_path (wp_shares (with_share k x w p)) s [] [] = Inr path"
  by (rule share_path_mono [OF assms(1)]) (use assms(2) in auto)

lemma pool_accept_ok:
  assumes ok: "share_pool_ok E p" and cw: "candidate_witness p share = Inr wit"
    and acc: "pool_accept E share p = Inr (changed, p')"
  shows "share_pool_ok E p' \<and> wp_anchor p' = wp_anchor p \<and> wp_templates p' = wp_templates p
    \<and> map_of (wp_shares p') (workshare_id E share) \<noteq> None"
  using ok cw acc
proof (cases rule: pool_accept_cases)
  case known
  then show ?thesis using ok by simp
next
  case (new w)
  let ?k = "workshare_id E share"
  let ?q = "with_share ?k share w p"
  note o = ok [unfolded share_pool_ok_def]
  have shares': "wp_shares p' = wp_shares ?q" and templates': "wp_templates p' = wp_templates p"
    and work': "wp_path_work p' = wp_path_work ?q" and anchor': "wp_anchor p' = wp_anchor p"
    and bytes': "wp_template_bytes p' = wp_template_bytes p"
    and tip': "wp_tip p' = (if changed then ?k else wp_tip p)"
    by (simp_all add: new(6))
  have entry: "share_entry_ok E p' k s" if s: "map_of (wp_shares ?q) k = Some s" for k s
  proof (cases "k = ?k")
    case True
    then have "s = share" using s by simp
    moreover obtain path where "share_path (wp_shares p) share [] [] = Inr path" "ww_workshares wit = path"
      using cw by (auto simp: candidate_witness_Inr)
    ultimately show ?thesis
      using cw True new(3,4) with_share_path [OF _ new(1)]
      unfolding share_entry_ok_def shares' templates' work' anchor'
      by (auto simp: candidate_witness_Inr)
  next
    case False
    then have "map_of (wp_shares p) k = Some s" using s by simp
    from share_entry_okD [OF ok this] show ?thesis
      using False with_share_path [OF _ new(1)]
      unfolding share_entry_ok_def shares' templates' work' anchor' by auto
  qed
  have t: "template_entry_ok E p' k t" if "map_of (wp_templates p) k = Some t" for k t
  proof -
    have "template_entry_ok E p k t" using o that by blast
    then show ?thesis by (simp add: template_entry_ok_def anchor')
  qed
  have old_tip: "v < path_work_of p (wp_tip p) \<or> (v = path_work_of p (wp_tip p) \<and> wp_tip p \<le> k)"
    if "map_of (wp_path_work p) k = Some v" for k v
    using o that by (simp add: tip_ok_def)
  have pw: "path_work_of p' x = (if x = ?k then w else path_work_of p x)" for x
    unfolding path_work_of_def work' by simp
  have cond: "changed \<longleftrightarrow> wp_tip p \<noteq> ?k \<and> (path_work_of p (wp_tip p) < w
      \<or> (w = path_work_of p (wp_tip p) \<and> ?k < wp_tip p))"
    using new(5) by (auto simp: path_work_of_def)
  have absent: "path_work_of p ?k = 0"
    using path_work_pos(2) [OF ok, of ?k] new(1) by (cases "map_of (wp_path_work p) ?k") (simp_all add: path_work_of_def)
  have "v < path_work_of p' (wp_tip p') \<or> (v = path_work_of p' (wp_tip p') \<and> wp_tip p' \<le> k)"
    if v: "map_of (wp_path_work p') k = Some v" for k v
  proof (cases "k = ?k")
    case True
    then have "v = w" using v by (simp add: work')
    then show ?thesis using True cond by (auto simp: tip' pw)
  next
    case False
    then have kv: "map_of (wp_path_work p) k = Some v" using v by (simp add: work')
    have "wp_tip p \<noteq> ?k" using old_tip [OF kv] absent path_work_pos(1) [OF ok kv] by auto
    then show ?thesis using old_tip [OF kv] cond by (auto simp: tip' pw)
  qed
  moreover have "wp_tip p' = hash_zero \<or> map_of (wp_shares p') (wp_tip p') \<noteq> None"
    using o by (simp add: tip' shares' tip_ok_def)
  ultimately have tip_new: "tip_ok p'" by (simp add: tip_ok_def)
  show ?thesis
    using o new(1,2) entry t tip_new
    unfolding share_pool_ok_def shares' templates' work' anchor' bytes'
    by (auto simp: length_smap_insert)
qed

lemma submit_workshare_ok:
  assumes ok: "share_pool_ok E p"
    and sub: "submit_workshare E pow now history s share p = Inr (changed, p')"
  shows "share_pool_ok E p' \<and> wp_anchor p' = wp_anchor p \<and> wp_templates p' = wp_templates p
    \<and> map_of (wp_shares p') (workshare_id E share) \<noteq> None"
proof -
  obtain wit where "candidate_witness p share = Inr wit" "pool_accept E share p = Inr (changed, p')"
    using sub by (auto simp: submit_workshare_def rbind_Inr)
  then show ?thesis by (rule pool_accept_ok [OF ok])
qed

section \<open>The witness of the pool\<close>

lemma pool_path_chain:
  assumes ok: "share_pool_ok E p" and path: "share_path (wp_shares p) s [] [] = Inr path"
  shows "\<exists>pre. path = pre @ [s] \<and> share_chain E hash_zero path \<and> length path \<le> MAX_WORKSHARES_PER_BLOCK
    \<and> (\<forall>x \<in> set pre. \<exists>k. map_of (wp_shares p) k = Some x)"
  using share_path_chain [OF path, of E] share_entry_okD(1) [OF ok]
  by (fastforce simp: MAX_WORKSHARES_PER_BLOCK_def)

lemma smap_filter_sorted: "sorted_wrt (<) (map fst m) \<Longrightarrow> sorted_wrt (<) (map fst (filter P m))"
  by (induction m) auto

text \<open>What a block built on the pool carries: a canonical witness that starts a chain of at most 512
  shares, ends with the tip and has a template for each of them.\<close>

lemma candidate_witness_shape:
  assumes ok: "share_pool_ok E p" and cw: "candidate_witness p share = Inr wit"
  shows "witness_is_canonical E wit" "share_chain E hash_zero (ww_workshares wit)"
    "ww_workshares wit \<noteq> []" "last (ww_workshares wit) = share"
    "length (ww_workshares wit) \<le> MAX_WORKSHARES_PER_BLOCK"
    "length (ww_templates wit) \<le> MAX_TEMPLATES_PER_BLOCK"
    "template_id E ` set (ww_templates wit) = ws_template_id ` set (ww_workshares wit)"
    "\<forall>t \<in> set (ww_templates wit). bt_parent t = wp_anchor p \<and> bt_version t = TEMPLATE_VERSION
       \<and> length (template_enc t) \<le> MAX_TEMPLATE_BYTES"
    "\<forall>s \<in> set (ww_workshares wit). bh_previous_block (ws_candidate_header s) = wp_anchor p"
proof -
  obtain path where a: "bh_previous_block (ws_candidate_header share) = wp_anchor p"
    "map_of (wp_templates p) (ws_template_id share) \<noteq> None"
    and path: "share_path (wp_shares p) share [] [] = Inr path"
    and w: "wit = \<lparr>ww_version = WITNESS_VERSION,
      ww_templates = map snd (filter (\<lambda>(k, t). k \<in> set (map ws_template_id path)) (wp_templates p)),
      ww_workshares = path\<rparr>"
    using cw by (auto simp: candidate_witness_Inr)
  obtain pre where pre: "path = pre @ [share]" "share_chain E hash_zero path"
    "length path \<le> MAX_WORKSHARES_PER_BLOCK" "\<forall>x \<in> set pre. \<exists>k. map_of (wp_shares p) k = Some x"
    using pool_path_chain [OF ok path] by blast
  note o = ok [unfolded share_pool_ok_def]
  have t: "template_id E t = k" "bt_parent t = wp_anchor p" "bt_version t = TEMPLATE_VERSION"
    "length (template_enc t) \<le> MAX_TEMPLATE_BYTES" if "(k, t) \<in> set (wp_templates p)" for k t
    using o that by (auto simp: smap_set_iff template_entry_ok_def)
  have known: "bh_previous_block (ws_candidate_header s) = wp_anchor p
      \<and> map_of (wp_templates p) (ws_template_id s) \<noteq> None" if "s \<in> set path" for s
    using that pre(1,4) a share_entry_okD(2,3) [OF ok] by fastforce
  let ?m = "filter (\<lambda>(k, t). k \<in> set (map ws_template_id path)) (wp_templates p)"
  have ids: "map (template_id E) (map snd ?m) = map fst ?m"
    using t by (auto intro!: map_cong)
  have "sorted_wrt (<) (map fst ?m)" using o by (intro smap_filter_sorted) (simp add: smap_ok_def)
  then have "sorted_wrt (<) (map (template_id E) (map snd ?m))" unfolding ids .
  moreover have keys: "fst ` set ?m = ws_template_id ` set path"
  proof -
    have "ws_template_id s \<in> fst ` set ?m" if s: "s \<in> set path" for s
    proof -
      obtain u where "map_of (wp_templates p) (ws_template_id s) = Some u" using known [OF s] by blast
      then have "(ws_template_id s, u) \<in> set ?m" using s by (auto dest: map_of_SomeD)
      then show ?thesis by force
    qed
    then show ?thesis by auto
  qed
  moreover have "template_id E ` set (map snd ?m) = fst ` set ?m"
    using arg_cong [OF ids, of set] by (simp only: set_map)
  ultimately show "witness_is_canonical E wit"
    "template_id E ` set (ww_templates wit) = ws_template_id ` set (ww_workshares wit)"
    unfolding witness_is_canonical_iff w by (simp_all del: map_map)
  show "share_chain E hash_zero (ww_workshares wit)" "ww_workshares wit \<noteq> []"
    "last (ww_workshares wit) = share" "length (ww_workshares wit) \<le> MAX_WORKSHARES_PER_BLOCK"
    using pre by (simp_all add: w)
  have "length ?m \<le> MAX_TEMPLATES_PER_BLOCK"
    by (rule le_trans [OF length_filter_le]) (use o in simp)
  then show "length (ww_templates wit) \<le> MAX_TEMPLATES_PER_BLOCK" by (simp add: w)
  show "\<forall>t \<in> set (ww_templates wit). bt_parent t = wp_anchor p \<and> bt_version t = TEMPLATE_VERSION
       \<and> length (template_enc t) \<le> MAX_TEMPLATE_BYTES"
    using t by (auto simp: w)
  show "\<forall>s \<in> set (ww_workshares wit). bh_previous_block (ws_candidate_header s) = wp_anchor p"
    using known by (simp add: w)
qed

lemma tip_work_max:
  assumes "share_pool_ok E p" and "map_of (wp_path_work p) k = Some w"
  shows "w \<le> path_work_of p (wp_tip p)"
proof -
  have "tip_ok p" using assms(1) by (simp add: share_pool_ok_def)
  then have "w < path_work_of p (wp_tip p) \<or> w = path_work_of p (wp_tip p)"
    using assms(2) by (auto simp: tip_ok_def)
  then show ?thesis by auto
qed

text \<open>The witness of the pool is there: neither the tip nor its path is ever lost.\<close>

lemma pool_witness_Some:
  assumes ok: "share_pool_ok E p"
  obtains (empty) "wp_tip p = hash_zero" "pool_witness p = Some witness_empty"
  | (tip) share wit where "wp_tip p \<noteq> hash_zero" "map_of (wp_shares p) (wp_tip p) = Some share"
      "candidate_witness p share = Inr wit" "pool_witness p = Some wit"
      "map_of (wp_path_work p) (wp_tip p) \<noteq> None"
      "unat (path_work_of p (wp_tip p)) = sum_list (map share_work (ww_workshares wit))"
proof (cases "wp_tip p = hash_zero")
  case True
  then show thesis by (intro empty) (simp_all add: pool_witness_def)
next
  case False
  then obtain share where s: "map_of (wp_shares p) (wp_tip p) = Some share"
    using ok by (auto simp: share_pool_ok_def tip_ok_def)
  obtain path w where path: "share_path (wp_shares p) share [] [] = Inr path"
    "map_of (wp_path_work p) (wp_tip p) = Some w" "unat w = sum_list (map share_work path)"
    using share_entry_okD(4) [OF ok s] by blast
  obtain wit where wit: "candidate_witness p share = Inr wit" "ww_workshares wit = path"
    using share_entry_okD(2,3) [OF ok s] path(1) by (auto simp: candidate_witness_def Let_def)
  show thesis
    by (rule tip [OF False s wit(1)]) (use False s wit path in \<open>simp_all add: pool_witness_def path_work_of_def\<close>)
qed

text \<open>No share of the pool has more work behind it than the tip.\<close>

lemma pool_tip_best:
  assumes ok: "share_pool_ok E p" and s: "map_of (wp_shares p) k = Some s"
    and wit: "candidate_witness p s = Inr wit" and best: "pool_witness p = Some best"
    and zero: "map_of (wp_shares p) hash_zero = None"
  shows "sum_list (map share_work (ww_workshares wit)) \<le> sum_list (map share_work (ww_workshares best))"
proof -
  obtain path w where path: "share_path (wp_shares p) s [] [] = Inr path"
    "map_of (wp_path_work p) k = Some w" "unat w = sum_list (map share_work path)" "0 < w"
    using share_entry_okD(4) [OF ok s] by blast
  have wp: "ww_workshares wit = path" using wit path(1) by (auto simp: candidate_witness_Inr)
  have le: "w \<le> path_work_of p (wp_tip p)"
    by (rule tip_work_max [OF ok path(2)])
  show ?thesis
    using ok
  proof (cases rule: pool_witness_Some)
    case empty
    then have "path_work_of p (wp_tip p) = 0"
      using zero path_work_pos(2) [OF ok, of hash_zero]
      by (cases "map_of (wp_path_work p) hash_zero") (simp_all add: path_work_of_def)
    then show ?thesis using le path(4) by (simp add: word_le_nat_alt word_less_nat_alt)
  next
    case (tip share wit')
    then show ?thesis using le best path(3) wp by (simp add: word_le_nat_alt)
  qed
qed

end
