(* ===== verification/Live_Pool.thy ===== *)
theory Live_Pool
  imports Workshare_Pool Sample_Chain
begin

text \<open>
  The life of the workshare pool between two changes of the chain, as a state machine: \<open>reset\<close> when
  the chain gets a new tip, then templates and shares in any order.  The consensus rules accepted the
  path of every share the pool holds, and still do.
\<close>

section \<open>Steps\<close>

inductive live_pool :: "prims \<Rightarrow> pow_verifier \<Rightarrow> block list \<Rightarrow> ledger \<Rightarrow> share_pool \<Rightarrow> bool"
  for E pow hist s where
  start: "live_pool E pow hist s (pool_reset (block_id E (last hist)))"
| template: "live_pool E pow hist s p \<Longrightarrow> pool_register_template E t p = Inr (k, p') \<Longrightarrow>
    live_pool E pow hist s p'"
| share: "live_pool E pow hist s p \<Longrightarrow> submit_workshare E pow now hist s share p = Inr (changed, p') \<Longrightarrow>
    live_pool E pow hist s p'"

lemma live_pool_ok: "live_pool E pow hist s p \<Longrightarrow> share_pool_ok E p"
proof (induction rule: live_pool.induct)
  case start
  show ?case by (rule pool_reset_ok)
next
  case (template p t k p')
  then show ?case using pool_register_template_ok by blast
next
  case (share p now share changed p')
  then show ?case using submit_workshare_ok by blast
qed

lemma register_anchor: "pool_register_template E t p = Inr (k, p') \<Longrightarrow> wp_anchor p' = wp_anchor p"
  by (auto simp: pool_register_template_def Let_def split: if_splits)

lemma live_pool_anchor: "live_pool E pow hist s p \<Longrightarrow> wp_anchor p = block_id E (last hist)"
proof (induction rule: live_pool.induct)
  case start
  show ?case by (simp add: pool_reset_def)
next
  case (template p t k p')
  then show ?case using register_anchor by simp
next
  case (share p now share changed p')
  then show ?case using submit_workshare_ok [OF live_pool_ok] by metis
qed

section \<open>The path of a share does not change\<close>

lemma filter_smap_insert:
  "k \<notin> R \<Longrightarrow> map_of m k = None \<Longrightarrow>
   filter (\<lambda>(k, t). k \<in> R) (smap_insert k v m) = filter (\<lambda>(k, t). k \<in> R) m"
  by (induction k v m rule: smap_insert.induct) auto

lemma candidate_witness_register:
  assumes ok: "share_pool_ok E p" and r: "pool_register_template E t p = Inr (k, p')"
    and cw: "candidate_witness p share = Inr wit"
  shows "candidate_witness p' share = Inr wit"
proof -
  obtain path where a: "bh_previous_block (ws_candidate_header share) = wp_anchor p"
    "map_of (wp_templates p) (ws_template_id share) \<noteq> None"
    and path: "share_path (wp_shares p) share [] [] = Inr path"
    and w: "wit = \<lparr>ww_version = WITNESS_VERSION,
      ww_templates = map snd (filter (\<lambda>(k, t). k \<in> set (map ws_template_id path)) (wp_templates p)),
      ww_workshares = path\<rparr>"
    using cw by (auto simp: candidate_witness_Inr)
  have sh: "wp_shares p' = wp_shares p" and k: "k = template_id E t"
    using pool_register_template_ok [OF ok r] by simp_all
  show ?thesis
  proof (cases "map_of (wp_templates p) k")
    case (Some t')
    then have "p' = p" using r k by (auto simp: pool_register_template_def Let_def split: if_splits)
    then show ?thesis using cw by simp
  next
    case None
    then have t': "wp_templates p' = smap_insert k t (wp_templates p)"
      using r k by (auto simp: pool_register_template_def Let_def split: if_splits)
    obtain pre where pre: "path = pre @ [share]" "\<forall>x \<in> set pre. \<exists>k. map_of (wp_shares p) k = Some x"
      using pool_path_chain [OF ok path] by blast
    have "ws_template_id x \<noteq> k" if "x \<in> set path" for x
      using that pre a(2) share_entry_okD(3) [OF ok] None by fastforce
    then have "k \<notin> set (map ws_template_id path)" by auto
    from filter_smap_insert [OF this None, of t] show ?thesis
      using a path register_anchor [OF r] unfolding w
      by (simp add: candidate_witness_Inr sh t')
  qed
qed

lemma candidate_witness_with_share:
  assumes "candidate_witness p share = Inr wit" and "map_of (wp_shares p) k = None"
    and "wp_anchor p' = wp_anchor p" "wp_templates p' = wp_templates p"
    "wp_shares p' = wp_shares (with_share k x w p)"
  shows "candidate_witness p' share = Inr wit"
  using assms with_share_path [OF _ assms(2)] by (auto simp: candidate_witness_Inr)

lemma live_pool_accepted:
  assumes "live_pool E pow hist s p" and "map_of (wp_shares p) k = Some x"
  shows "\<exists>wit now. candidate_witness p x = Inr wit
    \<and> validate_workshares E pow wit hist s (saturating_add now MAX_FUTURE_BLOCK_TIME) = Inr ()"
  using assms
proof (induction arbitrary: k x rule: live_pool.induct)
  case start
  then show ?case by (simp add: pool_reset_def)
next
  case (template p t k' p')
  then have "map_of (wp_shares p) k = Some x"
    using pool_register_template_ok [OF live_pool_ok] by metis
  then show ?case
    using template candidate_witness_register [OF live_pool_ok [OF template.hyps(1)] template.hyps(2)] by blast
next
  case (share p now share changed p')
  let ?k = "workshare_id E share"
  note ok = live_pool_ok [OF share.hyps(1)]
  obtain wit where wit: "candidate_witness p share = Inr wit"
    "validate_workshares E pow wit hist s (saturating_add now MAX_FUTURE_BLOCK_TIME) = Inr ()"
    and acc: "pool_accept E share p = Inr (changed, p')"
    using share.hyps(2) by (auto simp: submit_workshare_def rbind_Inr)
  show ?case
    using ok wit(1) acc
  proof (cases rule: pool_accept_cases)
    case known
    then show ?thesis using share.IH share.prems by blast
  next
    case (new w)
    have p': "wp_anchor p' = wp_anchor p" "wp_templates p' = wp_templates p"
      "wp_shares p' = wp_shares (with_share ?k share w p)"
      by (simp_all add: new(6))
    note keep = candidate_witness_with_share [OF _ new(1) p']
    show ?thesis
    proof (cases "k = ?k")
      case True
      then have "x = share" using share.prems p'(3) by simp
      then show ?thesis using keep [OF wit(1)] wit(2) by blast
    next
      case False
      then have "map_of (wp_shares p) k = Some x" using share.prems p'(3) by simp
      then show ?thesis using share.IH keep by blast
    qed
  qed
qed

section \<open>The settling time\<close>

text \<open>Validation uses the settling time only as a bound on the times of the shares.\<close>

lemma validate_workshares_settle:
  assumes v: "validate_workshares E pow wit hist s t = Inr ()"
    and le: "\<forall>x \<in> set (ww_workshares wit). bh_timestamp (ws_candidate_header x) \<le> t'"
  shows "validate_workshares E pow wit hist s t' = Inr ()"
proof (cases "ww_workshares wit = []")
  case False
  let ?r = "\<lambda>c. c\<lparr>sc_settling_timestamp := t'\<rparr>"
  have step: "check_share E pow hist s (?r c) st x = Inr r"
    if "check_share E pow hist s c st x = Inr r" "bh_timestamp (ws_candidate_header x) \<le> t'" for c st x r
  proof -
    have "\<not> share_header_bad E c (fst st) x" using that(1)
      by (auto simp: check_share_def Let_def result_simps split: prod.splits)
    then have "\<not> share_header_bad E (?r c) (fst st) x"
      using that(2) by (simp add: share_header_bad_def Let_def)
    then show ?thesis using that(1)
      by (auto simp: check_share_def Let_def result_simps split: prod.splits)
  qed
  have fold: "try_fold (check_share E pow hist s (?r c)) st xs = Inr r"
    if "try_fold (check_share E pow hist s c) st xs = Inr r"
      "\<forall>x \<in> set xs. bh_timestamp (ws_candidate_header x) \<le> t'" for c st xs r
    using that
  proof (induction xs arbitrary: st)
    case (Cons x xs)
    then obtain st' where "check_share E pow hist s c st x = Inr st'"
      "try_fold (check_share E pow hist s c) st' xs = Inr r" by (auto simp: rbind_Inr)
    then show ?case using Cons step by (auto simp: rbind_Inr)
  qed simp
  obtain c r where c: "share_context_of E wit hist t = Inr c"
    and f: "try_fold (check_share E pow hist s c) (hash_zero, witness_empty) (ww_workshares wit) = Inr r"
    using v False by (auto simp: validate_workshares_def result_simps)
  have "share_context_of E wit hist t' = Inr (?r c)"
    using c by (auto simp: share_context_of_def result_simps Let_def)
  then show ?thesis using fold [OF f le] False by (simp add: validate_workshares_def)
qed (simp add: validate_workshares_def)

lemma validate_workshares_times:
  assumes "validate_workshares E pow wit hist s t = Inr ()" and "x \<in> set (ww_workshares wit)"
  shows "bh_timestamp (ws_candidate_header x) \<le> t"
proof -
  have ne: "ww_workshares wit \<noteq> []" using assms(2) by auto
  obtain c where "share_context_of E wit hist t = Inr c"
    "\<forall>share \<in> set (ww_workshares wit). share_accepted E pow c share"
    by (rule validate_workshares_accepts [OF assms(1) ne])
  then show ?thesis
    using assms(2) share_context_targets(4) by (auto simp: share_accepted_def Let_def)
qed

section \<open>The witness of a live pool\<close>

lemma live_pool_witness:
  assumes live: "live_pool E pow hist s p" and wit: "pool_witness p = Some wit"
  shows "witness_is_canonical E wit" "share_chain E hash_zero (ww_workshares wit)"
    "length (ww_workshares wit) \<le> MAX_WORKSHARES_PER_BLOCK"
    "length (ww_templates wit) \<le> MAX_TEMPLATES_PER_BLOCK"
    "validate_witness_shape E wit =
       (if length (witness_enc wit) \<le> MAX_WORKSHARE_WITNESS_BYTES then Inr () else Inl NonCanonicalWitness)"
    "validate_workshares E pow wit hist s t = Inr ()
       \<longleftrightarrow> (\<forall>x \<in> set (ww_workshares wit). bh_timestamp (ws_candidate_header x) \<le> t)"
proof -
  note ok = live_pool_ok [OF live]
  have *: "ww_version wit = WITNESS_VERSION
    \<and> (\<forall>t \<in> set (ww_templates wit). bt_version t = TEMPLATE_VERSION
         \<and> length (template_enc t) \<le> MAX_TEMPLATE_BYTES)
    \<and> witness_is_canonical E wit \<and> share_chain E hash_zero (ww_workshares wit)
    \<and> length (ww_workshares wit) \<le> MAX_WORKSHARES_PER_BLOCK
    \<and> length (ww_templates wit) \<le> MAX_TEMPLATES_PER_BLOCK
    \<and> (\<exists>now. validate_workshares E pow wit hist s (saturating_add now MAX_FUTURE_BLOCK_TIME) = Inr ())"
    using ok
  proof (cases rule: pool_witness_Some)
    case empty
    then have "wit = witness_empty" using wit by simp
    then show ?thesis
      by (simp add: witness_is_canonical_iff validate_workshares_def) (simp add: witness_empty_def)
  next
    case (tip share wit')
    have cw: "candidate_witness p share = Inr wit" using tip(3,4) wit by simp
    then have "ww_version wit = WITNESS_VERSION" by (auto simp: candidate_witness_Inr)
    moreover have "\<exists>now. validate_workshares E pow wit hist s (saturating_add now MAX_FUTURE_BLOCK_TIME) = Inr ()"
      using live_pool_accepted [OF live tip(2)] cw by simp
    moreover note sh = candidate_witness_shape [OF ok cw]
    ultimately show ?thesis using sh(8) by (intro conjI sh(1,2,5,6)) simp_all
  qed
  then show "witness_is_canonical E wit" "share_chain E hash_zero (ww_workshares wit)"
    "length (ww_workshares wit) \<le> MAX_WORKSHARES_PER_BLOCK"
    "length (ww_templates wit) \<le> MAX_TEMPLATES_PER_BLOCK" by simp_all
  show "validate_witness_shape E wit =
       (if length (witness_enc wit) \<le> MAX_WORKSHARE_WITNESS_BYTES then Inr () else Inl NonCanonicalWitness)"
    using * by (fastforce simp: validate_witness_shape_def list_ex_iff)
  obtain now where "validate_workshares E pow wit hist s (saturating_add now MAX_FUTURE_BLOCK_TIME) = Inr ()"
    using * by blast
  then show "validate_workshares E pow wit hist s t = Inr ()
       \<longleftrightarrow> (\<forall>x \<in> set (ww_workshares wit). bh_timestamp (ws_candidate_header x) \<le> t)"
    using validate_workshares_settle validate_workshares_times by blast
qed

section \<open>A live pool\<close>

definition sample_templates :: "(hash32, block_template) smap" where
  "sample_templates = [(template_id sample_env sample_template, sample_template)]"

definition sample_live_pool :: share_pool where
  "sample_live_pool = \<lparr>wp_anchor = block_id sample_env (genesis sample_env),
     wp_templates = sample_templates, wp_template_bytes = length (template_enc sample_template),
     wp_shares = [(workshare_id sample_env sample_share, sample_share)],
     wp_path_work = [(workshare_id sample_env sample_share, target_work sample_share_target)],
     wp_tip = workshare_id sample_env sample_share\<rparr>"

lemma sample_template_size: "length (template_enc sample_template) = 46"
  by (simp add: template_enc_def sample_template_def put_vec_def put_list_def)

lemma sample_share_id: "workshare_id sample_env x \<noteq> hash_zero" "hash_zero \<noteq> workshare_id sample_env x"
proof -
  have "0 < length (workshare_enc x)" by (simp add: workshare_enc_def del: length_greater_0_conv)
  then have ne: "workshare_enc x \<noteq> []" unfolding length_greater_0_conv .
  have "array_bytes (workshare_id sample_env x) ! 0 = 80"
    unfolding workshare_id_def by (subst sample_domain_hash [OF _ ne]) (simp_all add: ascii_def nth_append)
  then show "workshare_id sample_env x \<noteq> hash_zero" "hash_zero \<noteq> workshare_id sample_env x"
    by (auto simp: hash_zero_def)
qed

lemma sample_registered:
  "pool_register_template sample_env sample_template (pool_reset (block_id sample_env (genesis sample_env)))
    = Inr (template_id sample_env sample_template, \<lparr>wp_anchor = block_id sample_env (genesis sample_env),
       wp_templates = sample_templates, wp_template_bytes = length (template_enc sample_template),
       wp_shares = [], wp_path_work = [], wp_tip = hash_zero\<rparr>)"
  by (simp add: pool_register_template_def pool_reset_def Let_def sample_template_size sample_templates_def)
    (simp add: sample_template_def limit_defs MAX_POOL_TEMPLATE_BYTES_def)

lemma sample_candidate_witness:
  assumes "wp_anchor p = block_id sample_env (genesis sample_env)" "wp_templates p = sample_templates"
  shows "candidate_witness p sample_share = Inr sample_witness"
proof -
  have "ws_previous sample_share = hash_zero" by (simp add: sample_share_def)
  then have "share_path (wp_shares p) sample_share [] [] = Inr [sample_share]"
    by (simp add: share_path_first)
  then show ?thesis using assms
    by (simp add: candidate_witness_def Let_def sample_witness_def sample_templates_def)
      (simp add: sample_share_def)
qed

lemma sample_weight: "workshare_weight 0x1f03ffff = Inr (target_work sample_share_target)"
  by (simp add: workshare_weight_def sample_targets ok_or_def rbind_def)

lemma sample_submitted:
  "submit_workshare sample_env sample_pow sample_now [genesis sample_env] (ledger_default sample_env)
     sample_share \<lparr>wp_anchor = block_id sample_env (genesis sample_env),
       wp_templates = sample_templates, wp_template_bytes = length (template_enc sample_template),
       wp_shares = [], wp_path_work = [], wp_tip = hash_zero\<rparr> = Inr (True, sample_live_pool)"
proof -
  have "bh_timestamp (ws_candidate_header sample_share) \<le> saturating_add sample_now MAX_FUTURE_BLOCK_TIME"
    by (simp add: sample_share_def sample_now_def saturating_add_def MAX_FUTURE_BLOCK_TIME_def
        GENESIS_TIMESTAMP_def)
  then have v: "validate_workshares sample_env sample_pow sample_witness [genesis sample_env]
      (ledger_default sample_env) (saturating_add sample_now MAX_FUTURE_BLOCK_TIME) = Inr ()"
    by (intro validate_workshares_settle [OF sample_workshares_valid]) (simp add: sample_witness_def)
  have pos: "0 < target_work sample_share_target"
    using workshare_weight_pos [OF sample_weight] by (simp add: word_less_nat_alt)
  have s: "ws_previous sample_share = hash_zero" "bh_bits (ws_candidate_header sample_share) = 0x1f03ffff"
    by (simp_all add: sample_share_def)
  have "checked_add 0 (target_work sample_share_target) = Some (target_work sample_share_target)"
    by (simp add: checked_add_Some)
  then show ?thesis
    using v pos sample_share_id
    by (simp add: submit_workshare_def sample_candidate_witness pool_accept_def Let_def s sample_weight
        path_work_of_def MAX_POOL_SHARES_def sample_live_pool_def ok_or_def rbind_def)
qed

lemma sample_live:
  "live_pool sample_env sample_pow [genesis sample_env] (ledger_default sample_env) sample_live_pool"
  "pool_witness sample_live_pool = Some sample_witness"
proof -
  have "live_pool sample_env sample_pow [genesis sample_env] (ledger_default sample_env)
      (pool_reset (block_id sample_env (genesis sample_env)))"
    using live_pool.start [of sample_env sample_pow "[genesis sample_env]" "ledger_default sample_env"] by simp
  from live_pool.share [OF live_pool.template [OF this sample_registered] sample_submitted]
  show "live_pool sample_env sample_pow [genesis sample_env] (ledger_default sample_env) sample_live_pool" .
  show "pool_witness sample_live_pool = Some sample_witness"
    using sample_share_id sample_candidate_witness [of sample_live_pool]
    by (simp add: pool_witness_def sample_live_pool_def)
qed

section \<open>Properties\<close>



text \<open>C31: The tip of the pool is the share with the most accumulated work: no other share the pool holds
  has more work on its path, so the next block settles the heaviest chain of shares.\<close>

theorem pool_tip_heaviest:
  assumes "live_pool E pow hist s p" and "map_of (wp_shares p) hash_zero = None"
    and "map_of (wp_shares p) k = Some x" and "candidate_witness p x = Inr other"
    and "pool_witness p = Some best"
  shows "sum_list (map share_work (ww_workshares other)) \<le> sum_list (map share_work (ww_workshares best))"
  by (rule pool_tip_best [OF live_pool_ok [OF assms(1)] assms(3-5,2)])

theorem pool_tip_heaviest_witness:
  "\<exists>other. candidate_witness sample_live_pool sample_share = Inr other
    \<and> sum_list (map share_work (ww_workshares other))
        \<le> sum_list (map share_work (ww_workshares sample_witness))"
proof -
  have a: "wp_anchor sample_live_pool = block_id sample_env (genesis sample_env)"
    "wp_templates sample_live_pool = sample_templates" by (simp_all add: sample_live_pool_def)
  have z: "map_of (wp_shares sample_live_pool) hash_zero = None"
    "map_of (wp_shares sample_live_pool) (workshare_id sample_env sample_share) = Some sample_share"
    using sample_share_id by (simp_all add: sample_live_pool_def)
  show ?thesis
    using pool_tip_heaviest [OF sample_live(1) z sample_candidate_witness [OF a] sample_live(2)]
      sample_candidate_witness [OF a] by blast
qed

end
