(* ===== verification/Wire.thy ===== *)
theory Wire
  imports Sample_Chain
begin

text \<open>
  The peer-to-peer messages of \<open>src/p2p.rs\<close>: the signed greeting, the message enum with its codec and
  frame, and the message budget of a connection.  A \<open>String\<close> is its UTF-8 bytes.  Signing and
  randomness of \<open>Hello::signed\<close> are arguments: the caller's public key, its signing function and the
  challenge it draws.
\<close>

section \<open>Limits\<close>

definition WIRE_MAGIC :: bytes where
  "WIRE_MAGIC = ascii ''PRT9''"

definition MAX_WIRE_FRAME :: nat where
  "MAX_WIRE_FRAME = MAX_BLOCK_BYTES + 64 * 1024"

definition MAX_PEER_URLS :: nat where
  "MAX_PEER_URLS = 256"

definition MAX_HEADERS :: nat where
  "MAX_HEADERS = 2000"

definition RATE_WINDOW_SECONDS :: nat where
  "RATE_WINDOW_SECONDS = 10"

definition MAX_MESSAGES_PER_WINDOW :: u32 where
  "MAX_MESSAGES_PER_WINDOW = 1000"

definition MAX_HEAVY_MESSAGES_PER_WINDOW :: u32 where
  "MAX_HEAVY_MESSAGES_PER_WINDOW = 200"

section \<open>Object kinds\<close>

datatype object_kind = KindBlock | KindTransaction | KindWorkshare | KindTemplate

fun kind_u8 :: "object_kind \<Rightarrow> u8" where
  "kind_u8 KindBlock = 1"
| "kind_u8 KindTransaction = 2"
| "kind_u8 KindWorkshare = 3"
| "kind_u8 KindTemplate = 4"

definition kind_try_from :: "u8 \<Rightarrow> codec_error + object_kind" where
  "kind_try_from v =
     (if v = 1 then Inr KindBlock
      else if v = 2 then Inr KindTransaction
      else if v = 3 then Inr KindWorkshare
      else if v = 4 then Inr KindTemplate
      else Inl (InvalidTag v))"

section \<open>The greeting\<close>

record hello =
  he_protocol :: u16
  he_chain_id :: bytes
  he_genesis :: hash32
  he_node_public_key :: bytes
  he_timestamp :: u64
  he_challenge :: hash32
  he_response_to :: hash32
  he_height :: u64
  he_tip :: hash32
  he_cumulative_work :: "32 barr"
  he_listen_url :: bytes
  he_signature :: bytes

definition hello_enc :: "hello \<Rightarrow> bytes" where
  "hello_enc h =
     put_u16 (he_protocol h) @ put_string (he_chain_id h) @ hash_enc (he_genesis h)
     @ put_bytes (he_node_public_key h) @ put_u64 (he_timestamp h) @ hash_enc (he_challenge h)
     @ hash_enc (he_response_to h) @ put_u64 (he_height h) @ hash_enc (he_tip h)
     @ put_fixed (array_bytes (he_cumulative_work h)) @ put_string (he_listen_url h)
     @ put_bytes (he_signature h)"

definition hello_dec :: "hello decoder" where
  "hello_dec bs off =
     rbind (get_u16 bs off) (\<lambda>(protocol, off).
     rbind (get_string 64 bs off) (\<lambda>(chain_id, off).
     rbind (hash_dec bs off) (\<lambda>(genesis_id, off).
     rbind (get_bytes 33 bs off) (\<lambda>(node_public_key, off).
     rbind (get_u64 bs off) (\<lambda>(timestamp, off).
     rbind (hash_dec bs off) (\<lambda>(challenge, off).
     rbind (hash_dec bs off) (\<lambda>(response_to, off).
     rbind (get_u64 bs off) (\<lambda>(height, off).
     rbind (hash_dec bs off) (\<lambda>(tip, off).
     rbind (get_fixed bs off) (\<lambda>(work, off).
     rbind (get_string 512 bs off) (\<lambda>(listen_url, off).
     rbind (get_bytes 64 bs off) (\<lambda>(signature, off).
       Inr (\<lparr>he_protocol = protocol, he_chain_id = chain_id, he_genesis = genesis_id,
             he_node_public_key = node_public_key, he_timestamp = timestamp,
             he_challenge = challenge, he_response_to = response_to, he_height = height, he_tip = tip,
             he_cumulative_work = work, he_listen_url = listen_url, he_signature = signature\<rparr>,
            off)))))))))))))"

definition hello_signing_hash :: "prims \<Rightarrow> hello \<Rightarrow> hash32" where
  "hello_signing_hash E h =
     domain_hash E (ascii ''PARITR-P9-HELLO-v1'') (hello_enc (h\<lparr>he_signature := []\<rparr>))"

definition node_id :: "prims \<Rightarrow> hello \<Rightarrow> hash32" where
  "node_id E h = domain_hash E (ascii ''PARITR-P9-NODE-ID-v1'') (he_node_public_key h)"

definition hello_signed ::
    "prims \<Rightarrow> bytes \<Rightarrow> (hash32 \<Rightarrow> 64 barr) \<Rightarrow> hash32 \<Rightarrow> u64 \<Rightarrow> u64 \<times> hash32 \<times> bytes \<Rightarrow> bytes \<Rightarrow> hash32 \<Rightarrow> hello"
  where
  "hello_signed E public sign challenge now snapshot listen_url response_to =
     (let (height, tip, cumulative_work) = snapshot;
          work = (case hex_decode E cumulative_work of
              Some bs \<Rightarrow> if length bs = 32 then array_of bs else array_zero
            | None \<Rightarrow> array_zero);
          h = \<lparr>he_protocol = PROTOCOL_VERSION, he_chain_id = CHAIN_ID,
               he_genesis = block_id E (genesis E), he_node_public_key = public,
               he_timestamp = now, he_challenge = challenge, he_response_to = response_to,
               he_height = height, he_tip = tip, he_cumulative_work = work,
               he_listen_url = listen_url, he_signature = []\<rparr>
      in h\<lparr>he_signature := array_bytes (sign (hello_signing_hash E h))\<rparr>)"

definition abs_diff :: "u64 \<Rightarrow> u64 \<Rightarrow> u64" where
  "abs_diff a b = (if a < b then b - a else a - b)"

definition hello_verify :: "prims \<Rightarrow> u64 \<Rightarrow> hello \<Rightarrow> bool" where
  "hello_verify E now h =
     (if he_protocol h \<noteq> PROTOCOL_VERSION \<or> he_chain_id h \<noteq> CHAIN_ID
         \<or> he_genesis h \<noteq> block_id E (genesis E)
         \<or> length (he_node_public_key h) \<noteq> 33 \<or> length (he_signature h) \<noteq> 64
         \<or> 300 < abs_diff (he_timestamp h) now
      then False
      else case public_key_from_slice E (he_node_public_key h) of
        None \<Rightarrow> False
      | Some public \<Rightarrow>
          (case array_try_from (he_signature h) of
             None \<Rightarrow> False
           | Some raw \<Rightarrow>
               (case signature_from_compact E raw of
                  None \<Rightarrow> False
                | Some sig \<Rightarrow> verify_ecdsa E (hello_signing_hash E h) sig public)))"

section \<open>Messages\<close>

datatype wire_message =
    MsgHello hello
  | MsgInventory object_kind hash32
  | MsgGetData object_kind hash32
  | MsgBlock block
  | MsgTransaction transaction
  | MsgWorkshare workshare
  | MsgTemplate block_template
  | MsgGetHeaders "hash32 list" hash32
  | MsgHeaders "block_header list"
  | MsgPing u64
  | MsgPong u64
  | MsgPeers "bytes list"

fun wire_enc :: "wire_message \<Rightarrow> bytes" where
  "wire_enc (MsgHello v) = put_u8 1 @ put_bytes (hello_enc v)"
| "wire_enc (MsgInventory kind i) = put_u8 2 @ put_u8 (kind_u8 kind) @ hash_enc i"
| "wire_enc (MsgGetData kind i) = put_u8 3 @ put_u8 (kind_u8 kind) @ hash_enc i"
| "wire_enc (MsgBlock v) = put_u8 4 @ put_bytes (block_enc v)"
| "wire_enc (MsgTransaction v) = put_u8 5 @ put_bytes (transaction_enc v)"
| "wire_enc (MsgWorkshare v) = put_u8 6 @ put_bytes (workshare_enc v)"
| "wire_enc (MsgTemplate v) = put_u8 7 @ put_bytes (template_enc v)"
| "wire_enc (MsgGetHeaders locator stop) = put_u8 8 @ put_list hash_enc locator @ hash_enc stop"
| "wire_enc (MsgHeaders headers) = put_u8 9 @ put_list header_enc headers"
| "wire_enc (MsgPing nonce) = put_u8 10 @ put_u64 nonce"
| "wire_enc (MsgPong nonce) = put_u8 11 @ put_u64 nonce"
| "wire_enc (MsgPeers peers) = put_u8 12 @ put_list put_string peers"

fun dec_peers :: "nat \<Rightarrow> bytes list \<Rightarrow> bytes list decoder" where
  "dec_peers 0 unique bs off = Inr ([], off)"
| "dec_peers (Suc n) unique bs off =
     rbind (get_string 512 bs off) (\<lambda>(peer, off).
       if peer \<in> set unique then Inl (NonCanonical ''duplicate peer URL'')
       else rbind (dec_peers n (peer # unique) bs off) (\<lambda>(peers, off). Inr (peer # peers, off)))"

definition dec_map :: "('a \<Rightarrow> 'b) \<Rightarrow> 'a decoder \<Rightarrow> 'b decoder" where
  "dec_map f d bs off = rbind (d bs off) (\<lambda>(v, off). Inr (f v, off))"

definition dec_kind_id :: "(object_kind \<Rightarrow> hash32 \<Rightarrow> wire_message) \<Rightarrow> wire_message decoder" where
  "dec_kind_id f bs off =
     rbind (get_u8 bs off) (\<lambda>(tag, off).
     rbind (kind_try_from tag) (\<lambda>kind.
     rbind (hash_dec bs off) (\<lambda>(i, off). Inr (f kind i, off))))"

definition dec_get_headers :: "wire_message decoder" where
  "dec_get_headers bs off =
     rbind (get_list 64 hash_dec bs off) (\<lambda>(locator, off).
     rbind (hash_dec bs off) (\<lambda>(stop, off). Inr (MsgGetHeaders locator stop, off)))"

definition dec_peer_list :: "wire_message decoder" where
  "dec_peer_list bs off =
     rbind (get_vector_len MAX_PEER_URLS bs off) (\<lambda>(count, off).
       dec_map MsgPeers (dec_peers count []) bs off)"

definition wire_body :: "prims \<Rightarrow> u8 \<Rightarrow> wire_message decoder" where
  "wire_body E tag bs off =
     (if tag = 1 then dec_map MsgHello (get_nested 2048 hello_dec) bs off
      else if tag = 2 then dec_kind_id MsgInventory bs off
      else if tag = 3 then dec_kind_id MsgGetData bs off
      else if tag = 4 then dec_map MsgBlock (get_nested MAX_BLOCK_BYTES (block_dec E)) bs off
      else if tag = 5 then dec_map MsgTransaction (get_nested MAX_TRANSACTION_BYTES (transaction_dec E)) bs off
      else if tag = 6 then dec_map MsgWorkshare (get_nested 512 (workshare_dec E)) bs off
      else if tag = 7 then dec_map MsgTemplate (get_nested MAX_TEMPLATE_BYTES (template_dec E)) bs off
      else if tag = 8 then dec_get_headers bs off
      else if tag = 9 then dec_map MsgHeaders (get_list MAX_HEADERS header_dec) bs off
      else if tag = 10 then dec_map MsgPing get_u64 bs off
      else if tag = 11 then dec_map MsgPong get_u64 bs off
      else if tag = 12 then dec_peer_list bs off
      else Inl (InvalidTag tag))"

definition wire_dec :: "prims \<Rightarrow> wire_message decoder" where
  "wire_dec E bs off = rbind (get_u8 bs off) (\<lambda>(tag, off). wire_body E tag bs off)"

definition encode_frame :: "wire_message \<Rightarrow> bytes" where
  "encode_frame m = put_fixed WIRE_MAGIC @ wire_enc m"

definition decode_frame :: "prims \<Rightarrow> bytes \<Rightarrow> codec_error + wire_message" where
  "decode_frame E bs =
     (if MAX_WIRE_FRAME < length bs then Inl (LimitExceeded (length bs) MAX_WIRE_FRAME)
      else rbind (get_fixed bs 0 :: codec_error + 4 barr \<times> nat) (\<lambda>(magic, off).
           if array_bytes magic \<noteq> WIRE_MAGIC then Inl (NonCanonical ''wrong P2P magic'')
           else rbind (wire_dec E bs off) (\<lambda>(message, off).
                rbind (rd_finish bs off) (\<lambda>_. Inr message))))"

section \<open>The message budget\<close>

text \<open>An \<open>Instant\<close> is a number of nanoseconds of a monotonic clock.\<close>

record message_budget =
  mb_started :: nat
  mb_messages :: u32
  mb_heavy :: u32

definition budget_new :: "nat \<Rightarrow> message_budget" where
  "budget_new now = \<lparr>mb_started = now, mb_messages = 0, mb_heavy = 0\<rparr>"

fun heavy_message :: "wire_message \<Rightarrow> bool" where
  "heavy_message (MsgBlock b) = True"
| "heavy_message (MsgTransaction t) = True"
| "heavy_message (MsgWorkshare s) = True"
| "heavy_message (MsgTemplate t) = True"
| "heavy_message m = False"

definition budget_allow :: "nat \<Rightarrow> wire_message \<Rightarrow> message_budget \<Rightarrow> bool \<times> message_budget" where
  "budget_allow now message budget =
     (let b = (if RATE_WINDOW_SECONDS \<le> (now - mb_started budget) div 10 ^ 9
               then budget_new now else budget);
          b = b\<lparr>mb_messages := saturating_add (mb_messages b) 1\<rparr>;
          b = (if heavy_message message then b\<lparr>mb_heavy := saturating_add (mb_heavy b) 1\<rparr> else b)
      in (mb_messages b \<le> MAX_MESSAGES_PER_WINDOW \<and> mb_heavy b \<le> MAX_HEAVY_MESSAGES_PER_WINDOW, b))"

section \<open>Laws of the codec\<close>

definition hello_wf :: "hello \<Rightarrow> bool" where
  "hello_wf h \<longleftrightarrow> length (he_chain_id h) \<le> 64 \<and> utf8_valid (he_chain_id h)
     \<and> length (he_node_public_key h) \<le> 33
     \<and> length (he_listen_url h) \<le> 512 \<and> utf8_valid (he_listen_url h) \<and> length (he_signature h) \<le> 64"

lemma length_hello_enc:
  "length (hello_enc h) = 194 + length (he_chain_id h) + length (he_node_public_key h)
     + length (he_listen_url h) + length (he_signature h)"
  by (simp add: hello_enc_def put_string_def put_fixed_def)

lemma hello_dec_law:
  assumes small: "length bs < 2 ^ 64"
  shows "hello_dec bs off = Inr (v, off') \<longleftrightarrow> hello_wf v \<and> seg_at bs off (hello_enc v) off'"
proof -
  have bound: "n \<le> 512 \<Longrightarrow> n \<le> MAX_CONSENSUS_ALLOCATION" for n by (simp add: limit_defs)
  show ?thesis
    by (cases v)
      (simp add: hello_dec_def result_simps prim_laws [OF small] get_string_law [OF small]
        get_fixed_law [OF small] hello_wf_def hello_enc_def put_fixed_def seg_at_append,
        use bound in fastforce)
qed

interpretation hello_codec: codec hello_enc hello_dec hello_wf
  by unfold_locales (simp add: hello_dec_law)

lemma kind_try_from_Inr: "kind_try_from v = Inr k \<longleftrightarrow> v = kind_u8 k"
  by (cases k) (auto simp: kind_try_from_def)

lemma dec_kind_id_law:
  assumes small: "length bs < 2 ^ 64"
  shows "dec_kind_id f bs off = Inr (m, off') \<longleftrightarrow>
    (\<exists>k i. m = f k i \<and> seg_at bs off (put_u8 (kind_u8 k) @ hash_enc i) off')"
  unfolding dec_kind_id_def
  by (simp add: result_simps prim_laws [OF small] kind_try_from_Inr seg_at_append) blast

lemma dec_map_Inr: "dec_map f d bs off = Inr (m, off') \<longleftrightarrow> (\<exists>v. d bs off = Inr (v, off') \<and> m = f v)"
  by (auto simp: dec_map_def result_simps split: prod.splits)

definition peer_ok :: "bytes \<Rightarrow> bool" where
  "peer_ok p \<longleftrightarrow> length p \<le> 512 \<and> utf8_valid p"

lemma dec_peers_law:
  assumes small: "length bs < 2 ^ 64"
  shows "off \<le> length bs \<Longrightarrow> dec_peers n unique bs off = Inr (ps, off') \<longleftrightarrow>
    length ps = n \<and> distinct ps \<and> set ps \<inter> set unique = {} \<and> (\<forall>p \<in> set ps. peer_ok p)
      \<and> seg_at bs off (concat (map put_string ps)) off'"
proof (induction n arbitrary: unique off ps)
  case 0
  then show ?case by (auto simp: seg_at_Nil)
next
  case (Suc n)
  have bound: "n \<le> 512 \<Longrightarrow> n \<le> MAX_CONSENSUS_ALLOCATION" for n by (simp add: limit_defs)
  show ?case
  proof (cases ps)
    case Nil
    then show ?thesis by (auto simp: result_simps split: prod.splits if_splits)
  next
    case (Cons p qs)
    have "dec_peers (Suc n) unique bs off = Inr (ps, off') \<longleftrightarrow>
        (\<exists>o1. get_string 512 bs off = Inr (p, o1) \<and> p \<notin> set unique
          \<and> dec_peers n (p # unique) bs o1 = Inr (qs, off'))"
      by (auto simp: result_simps Cons split: prod.splits if_splits)
    also have "\<dots> \<longleftrightarrow> (\<exists>o1. peer_ok p \<and> seg_at bs off (put_string p) o1 \<and> p \<notin> set unique
          \<and> dec_peers n (p # unique) bs o1 = Inr (qs, off'))"
      using bound by (auto simp: get_string_law [OF small] peer_ok_def)
    also have "\<dots> \<longleftrightarrow> (\<exists>o1. peer_ok p \<and> seg_at bs off (put_string p) o1 \<and> p \<notin> set unique
          \<and> length qs = n \<and> distinct qs \<and> set qs \<inter> set (p # unique) = {} \<and> (\<forall>p \<in> set qs. peer_ok p)
          \<and> seg_at bs o1 (concat (map put_string qs)) off')"
      using Suc.IH seg_at_le by metis
    finally show ?thesis by (auto simp: Cons seg_at_append)
  qed
qed

fun wire_wf :: "prims \<Rightarrow> wire_message \<Rightarrow> bool" where
  "wire_wf E (MsgHello h) = hello_wf h"
| "wire_wf E (MsgBlock b) = (block_wf E b \<and> length (block_enc b) \<le> MAX_BLOCK_BYTES)"
| "wire_wf E (MsgTransaction t) = transaction_wf E t"
| "wire_wf E (MsgWorkshare s) = workshare_ok E s"
| "wire_wf E (MsgTemplate t) = (template_wf E t \<and> length (template_enc t) \<le> MAX_TEMPLATE_BYTES)"
| "wire_wf E (MsgGetHeaders locator stop) = (length locator \<le> 64)"
| "wire_wf E (MsgHeaders headers) = (length headers \<le> MAX_HEADERS)"
| "wire_wf E (MsgPeers peers) = (length peers \<le> MAX_PEER_URLS \<and> distinct peers \<and> (\<forall>p \<in> set peers. peer_ok p))"
| "wire_wf E m = True"

lemma nested_lt: "mx \<le> MAX_CONSENSUS_ALLOCATION \<Longrightarrow> n \<le> mx \<and> n \<le> MAX_CONSENSUS_ALLOCATION \<longleftrightarrow> n \<le> mx"
  by auto

lemma wire_dec_body:
  assumes small: "length bs < 2 ^ 64"
  shows "dec_map MsgHello (get_nested 2048 hello_dec) bs off = Inr (m, off') \<longleftrightarrow>
      (\<exists>h. m = MsgHello h \<and> wire_wf E m \<and> seg_at bs off (put_bytes (hello_enc h)) off')"
    "dec_map MsgBlock (get_nested MAX_BLOCK_BYTES (block_dec E)) bs off = Inr (m, off') \<longleftrightarrow>
      (\<exists>b. m = MsgBlock b \<and> wire_wf E m \<and> seg_at bs off (put_bytes (block_enc b)) off')"
    "dec_map MsgTransaction (get_nested MAX_TRANSACTION_BYTES (transaction_dec E)) bs off = Inr (m, off') \<longleftrightarrow>
      (\<exists>t. m = MsgTransaction t \<and> wire_wf E m \<and> seg_at bs off (put_bytes (transaction_enc t)) off')"
    "dec_map MsgWorkshare (get_nested 512 (workshare_dec E)) bs off = Inr (m, off') \<longleftrightarrow>
      (\<exists>s. m = MsgWorkshare s \<and> wire_wf E m \<and> seg_at bs off (put_bytes (workshare_enc s)) off')"
    "dec_map MsgTemplate (get_nested MAX_TEMPLATE_BYTES (template_dec E)) bs off = Inr (m, off') \<longleftrightarrow>
      (\<exists>t. m = MsgTemplate t \<and> wire_wf E m \<and> seg_at bs off (put_bytes (template_enc t)) off')"
    "dec_get_headers bs off = Inr (m, off') \<longleftrightarrow>
      (\<exists>l s. m = MsgGetHeaders l s \<and> wire_wf E m \<and> seg_at bs off (put_list hash_enc l @ hash_enc s) off')"
    "dec_map MsgHeaders (get_list MAX_HEADERS header_dec) bs off = Inr (m, off') \<longleftrightarrow>
      (\<exists>hs. m = MsgHeaders hs \<and> wire_wf E m \<and> seg_at bs off (put_list header_enc hs) off')"
    "dec_peer_list bs off = Inr (m, off') \<longleftrightarrow>
      (\<exists>ps. m = MsgPeers ps \<and> wire_wf E m \<and> seg_at bs off (put_list put_string ps) off')"
proof -
  have hello: "hello_wf h \<Longrightarrow> length (hello_enc h) \<le> 2048 \<and> length (hello_enc h) \<le> MAX_CONSENSUS_ALLOCATION" for h
    by (simp add: hello_wf_def length_hello_enc limit_defs)
  have tx: "transaction_wf E t \<Longrightarrow> length (transaction_enc t) \<le> MAX_TRANSACTION_BYTES
      \<and> length (transaction_enc t) \<le> MAX_CONSENSUS_ALLOCATION" for t
    using transaction_wf_length [of E t] by (simp add: limit_defs)
  have b: "MAX_BLOCK_BYTES \<le> MAX_CONSENSUS_ALLOCATION" "MAX_TEMPLATE_BYTES \<le> MAX_CONSENSUS_ALLOCATION"
    "259 \<le> MAX_CONSENSUS_ALLOCATION"
    by (simp_all add: limit_defs)
  show "dec_map MsgHello (get_nested 2048 hello_dec) bs off = Inr (m, off') \<longleftrightarrow>
      (\<exists>h. m = MsgHello h \<and> wire_wf E m \<and> seg_at bs off (put_bytes (hello_enc h)) off')"
    using hello by (auto simp: dec_map_Inr hello_codec.nested_law [OF small])
  show "dec_map MsgBlock (get_nested MAX_BLOCK_BYTES (block_dec E)) bs off = Inr (m, off') \<longleftrightarrow>
      (\<exists>b. m = MsgBlock b \<and> wire_wf E m \<and> seg_at bs off (put_bytes (block_enc b)) off')"
    using b(1) by (auto simp: dec_map_Inr block_codec.nested_law [OF small])
  show "dec_map MsgTransaction (get_nested MAX_TRANSACTION_BYTES (transaction_dec E)) bs off = Inr (m, off') \<longleftrightarrow>
      (\<exists>t. m = MsgTransaction t \<and> wire_wf E m \<and> seg_at bs off (put_bytes (transaction_enc t)) off')"
    using tx by (auto simp: dec_map_Inr transaction_codec.nested_law [OF small])
  show "dec_map MsgWorkshare (get_nested 512 (workshare_dec E)) bs off = Inr (m, off') \<longleftrightarrow>
      (\<exists>s. m = MsgWorkshare s \<and> wire_wf E m \<and> seg_at bs off (put_bytes (workshare_enc s)) off')"
    using b(3) by (auto simp: dec_map_Inr workshare_codec.nested_law [OF small])
  show "dec_map MsgTemplate (get_nested MAX_TEMPLATE_BYTES (template_dec E)) bs off = Inr (m, off') \<longleftrightarrow>
      (\<exists>t. m = MsgTemplate t \<and> wire_wf E m \<and> seg_at bs off (put_bytes (template_enc t)) off')"
    using b(2) by (auto simp: dec_map_Inr template_codec.nested_law [OF small])
  show "dec_get_headers bs off = Inr (m, off') \<longleftrightarrow>
      (\<exists>l s. m = MsgGetHeaders l s \<and> wire_wf E m \<and> seg_at bs off (put_list hash_enc l @ hash_enc s) off')"
  proof -
    have "dec_get_headers bs off = Inr (m, off') \<longleftrightarrow> (\<exists>l s o1. get_list 64 hash_dec bs off = Inr (l, o1)
        \<and> hash_dec bs o1 = Inr (s, off') \<and> m = MsgGetHeaders l s)"
      by (auto simp: dec_get_headers_def result_simps split: prod.splits)
    then show ?thesis
      by (cases m) (auto simp: hash_codec.list_law [OF small] hash_codec.law [OF small] seg_at_append)
  qed
  have "MAX_HEADERS < 2 ^ 32" by (simp add: MAX_HEADERS_def)
  then show "dec_map MsgHeaders (get_list MAX_HEADERS header_dec) bs off = Inr (m, off') \<longleftrightarrow>
      (\<exists>hs. m = MsgHeaders hs \<and> wire_wf E m \<and> seg_at bs off (put_list header_enc hs) off')"
    by (auto simp: dec_map_Inr header_codec.list_law [OF small])
  have p: "MAX_PEER_URLS < 2 ^ 32" by (simp add: MAX_PEER_URLS_def)
  have "dec_peer_list bs off = Inr (m, off') \<longleftrightarrow> (\<exists>n o1 ps. n \<le> MAX_PEER_URLS
      \<and> seg_at bs off (put_u32 (word_of_nat n)) o1 \<and> dec_peers n [] bs o1 = Inr (ps, off') \<and> m = MsgPeers ps)"
    by (auto simp: dec_peer_list_def result_simps dec_map_Inr get_vector_len_law [OF small p] split: prod.splits)
  also have "\<dots> \<longleftrightarrow> (\<exists>n o1 ps. n \<le> MAX_PEER_URLS \<and> seg_at bs off (put_u32 (word_of_nat n)) o1
      \<and> length ps = n \<and> distinct ps \<and> (\<forall>p \<in> set ps. peer_ok p)
      \<and> seg_at bs o1 (concat (map put_string ps)) off' \<and> m = MsgPeers ps)"
    using dec_peers_law [OF small seg_at_le] by (auto cong: conj_cong)
  finally show "dec_peer_list bs off = Inr (m, off') \<longleftrightarrow>
      (\<exists>ps. m = MsgPeers ps \<and> wire_wf E m \<and> seg_at bs off (put_list put_string ps) off')"
    by (auto simp: put_list_def seg_at_append)
qed

fun wire_tag :: "wire_message \<Rightarrow> u8" where
  "wire_tag (MsgHello h) = 1" | "wire_tag (MsgInventory k i) = 2" | "wire_tag (MsgGetData k i) = 3"
| "wire_tag (MsgBlock b) = 4" | "wire_tag (MsgTransaction t) = 5" | "wire_tag (MsgWorkshare s) = 6"
| "wire_tag (MsgTemplate t) = 7" | "wire_tag (MsgGetHeaders l s) = 8" | "wire_tag (MsgHeaders hs) = 9"
| "wire_tag (MsgPing n) = 10" | "wire_tag (MsgPong n) = 11" | "wire_tag (MsgPeers ps) = 12"

definition wire_rest :: "wire_message \<Rightarrow> bytes" where
  "wire_rest m = drop 1 (wire_enc m)"

lemma wire_enc_tag: "wire_enc m = put_u8 (wire_tag m) @ wire_rest m"
  by (cases m) (simp_all add: wire_rest_def put_u8_def)

lemma wire_rest_simps:
  "wire_rest (MsgHello h) = put_bytes (hello_enc h)"
  "wire_rest (MsgInventory k i) = put_u8 (kind_u8 k) @ hash_enc i"
  "wire_rest (MsgGetData k i) = put_u8 (kind_u8 k) @ hash_enc i"
  "wire_rest (MsgBlock b) = put_bytes (block_enc b)"
  "wire_rest (MsgTransaction t) = put_bytes (transaction_enc t)"
  "wire_rest (MsgWorkshare s) = put_bytes (workshare_enc s)"
  "wire_rest (MsgTemplate p) = put_bytes (template_enc p)"
  "wire_rest (MsgGetHeaders l st) = put_list hash_enc l @ hash_enc st"
  "wire_rest (MsgHeaders hs) = put_list header_enc hs"
  "wire_rest (MsgPing n) = put_u64 n" "wire_rest (MsgPong n) = put_u64 n"
  "wire_rest (MsgPeers ps) = put_list put_string ps"
  by (simp_all add: wire_rest_def put_u8_def)

lemma wire_body_tag: "wire_body E tag bs off = Inr r \<Longrightarrow> tag \<in> {1..12}"
  by (auto simp: wire_body_def word_le_nat_alt split: if_splits)

lemma wire_body_law:
  assumes small: "length bs < 2 ^ 64"
  shows "wire_body E tag bs off = Inr (m, off') \<longleftrightarrow>
    wire_wf E m \<and> tag = wire_tag m \<and> seg_at bs off (wire_rest m) off'"
  unfolding wire_body_def if_distrib [of "\<lambda>x. x = Inr (m, off')"]
    wire_dec_body [OF small, where E = E] dec_kind_id_law [OF small]
  by (cases m) (simp_all add: wire_rest_simps dec_map_Inr u64_codec.law [OF small])

lemma wire_dec_law:
  assumes small: "length bs < 2 ^ 64"
  shows "wire_dec E bs off = Inr (m, off') \<longleftrightarrow> wire_wf E m \<and> seg_at bs off (wire_enc m) off'"
  unfolding wire_enc_tag
  by (auto simp: wire_dec_def result_simps u8_codec.law [OF small] wire_body_law [OF small] seg_at_append)

interpretation wire_codec: codec wire_enc "wire_dec E" "wire_wf E" for E
  by unfold_locales (simp add: wire_dec_law)

text \<open>The frames a node reads are exactly the encodings of the messages within the limits.\<close>

lemma decode_frame_iff:
  "decode_frame E bs = Inr m \<longleftrightarrow> wire_wf E m \<and> bs = encode_frame m \<and> length bs \<le> MAX_WIRE_FRAME"
proof (cases "length bs \<le> MAX_WIRE_FRAME")
  case True
  then have small: "length bs < 2 ^ 64" by (simp add: MAX_WIRE_FRAME_def limit_defs)
  have "array_bytes (array_of WIRE_MAGIC :: 4 barr) = WIRE_MAGIC"
    by (simp add: WIRE_MAGIC_def ascii_def)
  then obtain x :: "4 barr" where magic: "array_bytes x = WIRE_MAGIC" ..
  have "decode_frame E bs = Inr m \<longleftrightarrow> (\<exists>(magic :: 4 barr) o1 o2. seg_at bs 0 (array_bytes magic) o1
      \<and> array_bytes magic = WIRE_MAGIC \<and> wire_wf E m \<and> seg_at bs o1 (wire_enc m) o2 \<and> length bs - o2 = 0)"
    using True by (auto simp: decode_frame_def result_simps get_fixed_law [OF small]
        wire_dec_law [OF small] rd_finish_def rd_remaining_def split: prod.splits if_splits)
  also have "\<dots> \<longleftrightarrow> (\<exists>o2. wire_wf E m \<and> seg_at bs 0 (WIRE_MAGIC @ wire_enc m) o2 \<and> length bs - o2 = 0)"
    unfolding seg_at_append using magic by metis
  also have "\<dots> \<longleftrightarrow> wire_wf E m \<and> bs = encode_frame m"
    using seg_at_whole [of bs "WIRE_MAGIC @ wire_enc m"] by (auto simp: encode_frame_def put_fixed_def)
  finally show ?thesis using True by simp
qed (simp add: decode_frame_def)

section \<open>Laws of the budget\<close>

definition budget_reset :: "nat \<Rightarrow> message_budget \<Rightarrow> bool" where
  "budget_reset now b \<longleftrightarrow> mb_started b + 10 ^ 10 \<le> now"

text \<open>The connection: every message must be allowed, the first refusal ends it.\<close>

fun budget_run :: "message_budget \<Rightarrow> (nat \<times> wire_message) list \<Rightarrow> bool" where
  "budget_run b [] = True"
| "budget_run b ((now, m) # events) = (let (ok, b') = budget_allow now m b in ok \<and> budget_run b' events)"

lemma budget_allow_alt:
  "budget_allow now message budget =
     (let b = (if budget_reset now budget then budget_new now else budget);
          b = b\<lparr>mb_messages := saturating_add (mb_messages b) 1\<rparr>;
          b = (if heavy_message message then b\<lparr>mb_heavy := saturating_add (mb_heavy b) 1\<rparr> else b)
      in (mb_messages b \<le> MAX_MESSAGES_PER_WINDOW \<and> mb_heavy b \<le> MAX_HEAVY_MESSAGES_PER_WINDOW, b))"
proof -
  have "RATE_WINDOW_SECONDS \<le> (now - mb_started budget) div 10 ^ 9 \<longleftrightarrow> budget_reset now budget"
    by (auto simp: RATE_WINDOW_SECONDS_def budget_reset_def less_eq_div_iff_mult_less_eq)
  then show ?thesis unfolding budget_allow_def by simp
qed

lemma budget_allow_started:
  "mb_started (snd (budget_allow now m b)) = (if budget_reset now b then now else mb_started b)"
  by (simp add: budget_allow_alt Let_def budget_new_def)

text \<open>One of the two counters, with its limit.\<close>

locale window_counter =
  fixes counter :: "message_budget \<Rightarrow> nat" and counted :: "wire_message \<Rightarrow> bool" and bound :: nat
  assumes step: "fst (budget_allow now m b) \<Longrightarrow> counter (snd (budget_allow now m b))
      = (if budget_reset now b then 0 else counter b) + (if counted m then 1 else 0)"
    and within: "fst (budget_allow now m b) \<Longrightarrow> counter (snd (budget_allow now m b)) \<le> bound"
begin

definition counted_before :: "nat \<Rightarrow> (nat \<times> wire_message) list \<Rightarrow> nat" where
  "counted_before t events = length (filter (\<lambda>(now, m). now < t \<and> counted m) events)"

lemma epoch_bound:
  assumes "budget_run b events" and "sorted (map fst events)" and "counter b \<le> bound"
  shows "counter b + counted_before (mb_started b + 10 ^ 10) events \<le> bound"
  using assms
proof (induction events arbitrary: b)
  case (Cons e events)
  obtain now m where e: "e = (now, m)" by force
  let ?b = "snd (budget_allow now m b)"
  have ok: "fst (budget_allow now m b)" and run: "budget_run ?b events"
    using Cons.prems(1) by (simp_all add: e Let_def split: prod.splits)
  show ?case
  proof (cases "budget_reset now b")
    case True
    then have "\<forall>x \<in> set (e # events). \<not> fst x < mb_started b + 10 ^ 10"
      using Cons.prems(2) by (fastforce simp: e budget_reset_def)
    then have "filter (\<lambda>(now, m). now < mb_started b + 10 ^ 10 \<and> counted m) (e # events) = []"
      by (auto simp: filter_empty_conv)
    then show ?thesis using Cons.prems(3) unfolding counted_before_def by simp
  next
    case False
    have "counter ?b + counted_before (mb_started ?b + 10 ^ 10) events \<le> bound"
      using Cons.prems(2) by (intro Cons.IH [OF run _ within [OF ok]]) (simp add: e)
    then show ?thesis using False step [OF ok]
      by (simp add: budget_allow_started counted_before_def e split: if_splits)
  qed
qed (simp add: counted_before_def)

lemma window_bound:
  assumes "budget_run b events" and "sorted (map fst events)" and "counter b \<le> bound"
    and "\<forall>e \<in> set events. t \<le> fst e"
  shows "counter b + counted_before (t + 10 ^ 10) events \<le> 2 * bound"
  using assms
proof (induction events arbitrary: b)
  case (Cons e events)
  obtain now m where e: "e = (now, m)" by force
  let ?b = "snd (budget_allow now m b)"
  have ok: "fst (budget_allow now m b)" and run: "budget_run ?b events"
    using Cons.prems(1) by (simp_all add: e Let_def split: prod.splits)
  have srt: "sorted (map fst events)" using Cons.prems(2) by simp
  show ?case
  proof (cases "budget_reset now b")
    case True
    have "t \<le> now" using Cons.prems(4) by (simp add: e)
    then have "counted_before (t + 10 ^ 10) events \<le> counted_before (now + 10 ^ 10) events"
      unfolding counted_before_def by (induction events) auto
    moreover have "counter ?b + counted_before (now + 10 ^ 10) events \<le> bound"
      using epoch_bound [OF run srt within [OF ok]] True by (simp add: budget_allow_started)
    ultimately show ?thesis using True step [OF ok] Cons.prems(3)
      by (auto simp: counted_before_def e)
  next
    case False
    have "counter ?b + counted_before (t + 10 ^ 10) events \<le> 2 * bound"
      using Cons.prems(4) by (intro Cons.IH [OF run srt within [OF ok]]) simp
    then show ?thesis using False step [OF ok] by (auto simp: counted_before_def e)
  qed
qed (simp add: counted_before_def)

text \<open>In any ten seconds, at most twice the limit: the end of one window and the start of the next.\<close>

lemma any_window:
  assumes "budget_run b events" and "sorted (map fst events)" and "counter b \<le> bound"
  shows "length (filter (\<lambda>(now, m). t \<le> now \<and> now < t + 10 ^ 10 \<and> counted m) events) \<le> 2 * bound"
  using assms
proof (induction events arbitrary: b)
  case (Cons e events)
  obtain now m where e: "e = (now, m)" by force
  let ?b = "snd (budget_allow now m b)"
  have ok: "fst (budget_allow now m b)" and run: "budget_run ?b events"
    using Cons.prems(1) by (simp_all add: e Let_def split: prod.splits)
  have srt: "sorted (map fst events)" using Cons.prems(2) by simp
  show ?case
  proof (cases "t \<le> now")
    case True
    then have all: "\<forall>x \<in> set (e # events). t \<le> fst x" using Cons.prems(2) by (fastforce simp: e)
    then have "filter (\<lambda>(now, m). t \<le> now \<and> now < t + 10 ^ 10 \<and> counted m) (e # events)
        = filter (\<lambda>(now, m). now < t + 10 ^ 10 \<and> counted m) (e # events)"
      by (intro filter_cong) auto
    then show ?thesis using window_bound [OF Cons.prems all] by (simp add: counted_before_def)
  next
    case False
    then show ?thesis using Cons.IH [OF run srt within [OF ok]] by (simp add: e)
  qed
qed simp

end

lemma saturating_succ:
  "saturating_add w 1 \<le> L \<Longrightarrow> L < - 1 \<Longrightarrow> unat (saturating_add w 1) = unat w + 1" for w L :: u32
  by (auto simp: word_le_nat_alt word_less_nat_alt unat_saturating_add unat_max_word min_def split: if_splits)

interpretation all_messages: window_counter "\<lambda>b. unat (mb_messages b)" "\<lambda>_. True" 1000
proof
  fix now m b
  assume "fst (budget_allow now m b)"
  then have le: "mb_messages (snd (budget_allow now m b)) \<le> 1000"
    by (auto simp: budget_allow_alt Let_def MAX_MESSAGES_PER_WINDOW_def split: if_splits)
  then show "unat (mb_messages (snd (budget_allow now m b))) \<le> 1000" by (simp add: word_le_nat_alt)
  show "unat (mb_messages (snd (budget_allow now m b)))
      = (if budget_reset now b then 0 else unat (mb_messages b)) + (if True then 1 else 0)"
    using le saturating_succ [of _ 1000]
    by (simp add: budget_allow_alt Let_def budget_new_def word_less_nat_alt unat_max_word
        split: if_splits)
qed

interpretation heavy_messages: window_counter "\<lambda>b. unat (mb_heavy b)" heavy_message 200
proof
  fix now m b
  assume "fst (budget_allow now m b)"
  then have le: "mb_heavy (snd (budget_allow now m b)) \<le> 200"
    by (auto simp: budget_allow_alt Let_def MAX_HEAVY_MESSAGES_PER_WINDOW_def split: if_splits)
  then show "unat (mb_heavy (snd (budget_allow now m b))) \<le> 200" by (simp add: word_le_nat_alt)
  show "unat (mb_heavy (snd (budget_allow now m b)))
      = (if budget_reset now b then 0 else unat (mb_heavy b)) + (if heavy_message m then 1 else 0)"
    using le saturating_succ [of _ 200]
    by (simp add: budget_allow_alt Let_def budget_new_def word_less_nat_alt unat_max_word
        split: if_splits)
qed

section \<open>The handshake\<close>

datatype peer_error = PeerCodec codec_error | PeerHandshake | PeerWebSocket string | PeerRateLimit

definition recv_hello :: "prims \<Rightarrow> bytes \<Rightarrow> peer_error + hello" where
  "recv_hello E bs =
     rbind (map_err PeerCodec (decode_frame E bs)) (\<lambda>message.
       case message of MsgHello h \<Rightarrow> Inr h | _ \<Rightarrow> Inl PeerHandshake)"

text \<open>The answer of a peer that connected to us, \<open>serve_socket\<close>: it must answer our challenge.\<close>

definition serve_check ::
    "prims \<Rightarrow> hash32 \<Rightarrow> hello \<Rightarrow> u64 \<Rightarrow> bytes \<Rightarrow> peer_error + hello" where
  "serve_check E own hello now bs =
     rbind (recv_hello E bs) (\<lambda>remote.
       if \<not> hello_verify E now remote \<or> he_response_to remote \<noteq> he_challenge hello
          \<or> node_id E remote = own
       then Inl PeerHandshake else Inr remote)"

text \<open>\<open>outbound_once\<close>: the first frame of the peer we dial, then its answer to our challenge.\<close>

definition dial_challenge :: "prims \<Rightarrow> hash32 \<Rightarrow> u64 \<Rightarrow> bytes \<Rightarrow> peer_error + hello" where
  "dial_challenge E own now bs =
     rbind (recv_hello E bs) (\<lambda>challenge.
       if \<not> hello_verify E now challenge \<or> he_response_to challenge \<noteq> hash_zero
          \<or> node_id E challenge = own
       then Inl PeerHandshake else Inr challenge)"

definition dial_acknowledge ::
    "prims \<Rightarrow> hello \<Rightarrow> hello \<Rightarrow> u64 \<Rightarrow> bytes \<Rightarrow> peer_error + hello" where
  "dial_acknowledge E challenge response now bs =
     rbind (recv_hello E bs) (\<lambda>remote.
       if \<not> hello_verify E now remote \<or> node_id E remote \<noteq> node_id E challenge
          \<or> he_response_to remote \<noteq> he_challenge response
       then Inl PeerHandshake else Inr remote)"

text \<open>A node's identity: a key pair of the external signature scheme whose signatures it verifies.\<close>

definition identity_ok :: "prims \<Rightarrow> bytes \<Rightarrow> (hash32 \<Rightarrow> 64 barr) \<Rightarrow> bool" where
  "identity_ok E public sign \<longleftrightarrow> length public = 33 \<and>
     (\<exists>key. public_key_from_slice E public = Some key \<and>
       (\<forall>digest. \<exists>sig. signature_from_compact E (sign digest) = Some sig \<and> verify_ecdsa E digest sig key))"

definition url_ok :: "bytes \<Rightarrow> bool" where
  "url_ok url \<longleftrightarrow> length url \<le> 512 \<and> utf8_valid url"

lemma hello_signed_simps [simp]:
  "he_challenge (hello_signed E public sign c now snap url r) = c"
  "he_response_to (hello_signed E public sign c now snap url r) = r"
  "he_node_public_key (hello_signed E public sign c now snap url r) = public"
  "he_protocol (hello_signed E public sign c now snap url r) = PROTOCOL_VERSION"
  "he_chain_id (hello_signed E public sign c now snap url r) = CHAIN_ID"
  "he_genesis (hello_signed E public sign c now snap url r) = block_id E (genesis E)"
  "he_timestamp (hello_signed E public sign c now snap url r) = now"
  "he_listen_url (hello_signed E public sign c now snap url r) = url"
  by (simp_all add: hello_signed_def Let_def split: prod.split)

lemma hello_signed_verifies:
  assumes "identity_ok E public sign" and "abs_diff now now' \<le> 300"
  shows "hello_verify E now' (hello_signed E public sign c now snap url r)"
proof -
  let ?h = "hello_signed E public sign c now snap url r"
  obtain key where key: "length public = 33" "public_key_from_slice E public = Some key"
    and sig: "\<And>digest. \<exists>sig. signature_from_compact E (sign digest) = Some sig \<and> verify_ecdsa E digest sig key"
    using assms(1) by (auto simp: identity_ok_def)
  have h: "hello_signing_hash E ?h = hello_signing_hash E (?h\<lparr>he_signature := []\<rparr>)"
    by (simp add: hello_signing_hash_def)
  have s: "he_signature ?h = array_bytes (sign (hello_signing_hash E ?h))"
    unfolding h by (simp add: hello_signed_def Let_def split: prod.split)
  then show ?thesis
    using key sig [of "hello_signing_hash E ?h"] assms(2)
    by (auto simp: hello_verify_def s not_less)
qed

lemma hello_signed_wf:
  assumes "length public = 33" and "url_ok url"
  shows "hello_wf (hello_signed E public sign c now snap url r)"
proof -
  have "length (he_signature (hello_signed E public sign c now snap url r)) = 64"
    by (simp add: hello_signed_def Let_def split: prod.split)
  then show ?thesis
    using assms by (simp add: hello_wf_def url_ok_def CHAIN_ID_def ascii_def)
qed

lemma recv_hello_frame:
  assumes "hello_wf h"
  shows "recv_hello E (encode_frame (MsgHello h)) = Inr h"
proof -
  have "length (encode_frame (MsgHello h)) \<le> MAX_WIRE_FRAME"
    using assms by (simp add: encode_frame_def put_fixed_def WIRE_MAGIC_def ascii_def length_hello_enc
        hello_wf_def MAX_WIRE_FRAME_def limit_defs)
  then have "decode_frame E (encode_frame (MsgHello h)) = Inr (MsgHello h)"
    using assms by (simp add: decode_frame_iff)
  then show ?thesis by (simp add: recv_hello_def)
qed

section \<open>Properties\<close>

text \<open>C40: A node reads a frame exactly when it is the encoding of a message within the limits and fits
  \<open>MAX_WIRE_FRAME\<close>: every frame has one reading, reading and writing are inverse, and trailing bytes,
  duplicate peers, wrong magic and oversized objects are refused.\<close>

theorem frame_codec:
  "decode_frame E bs = Inr m \<longleftrightarrow> wire_wf E m \<and> bs = encode_frame m \<and> length bs \<le> MAX_WIRE_FRAME"
  by (rule decode_frame_iff)

text \<open>The budget of a connection: on a monotonic clock no ten seconds pass more than 2000 messages,
  400 of them objects, however the peer places them around the resets of the window.\<close>

theorem peer_rate:
  assumes "budget_run (budget_new start) events" and "sorted (map fst events)"
  shows "length (filter (\<lambda>(now, m). t \<le> now \<and> now < t + 10 ^ 10) events) \<le> 2000
    \<and> length (filter (\<lambda>(now, m). t \<le> now \<and> now < t + 10 ^ 10 \<and> heavy_message m) events) \<le> 400"
proof -
  have z: "unat (mb_messages (budget_new start)) \<le> 1000" "unat (mb_heavy (budget_new start)) \<le> 200"
    by (simp_all add: budget_new_def)
  show ?thesis
    using all_messages.any_window [OF assms z(1), of t] heavy_messages.any_window [OF assms z(2), of t]
    by simp
qed

theorem peer_rate_witness:
  "length (filter (\<lambda>(now, m). (4 :: nat) \<le> now \<and> now < 4 + 10 ^ 10)
     [(3, MsgPing 1), (5, MsgBlock sample_block), (8, MsgPong 1)]) \<le> 2000"
proof -
  have run: "budget_run (budget_new 0) [(3, MsgPing 1), (5, MsgBlock sample_block), (8, MsgPong 1)]"
    by (simp add: budget_allow_alt budget_new_def budget_reset_def Let_def saturating_add_def
        MAX_MESSAGES_PER_WINDOW_def MAX_HEAVY_MESSAGES_PER_WINDOW_def)
  show ?thesis using peer_rate [OF run, of 4] by simp
qed

text \<open>Two nodes of the same chain with working keys, different identities and clocks at most 300
  seconds apart complete the handshake: each of the three greetings, sent through the frame codec, passes
  the check of the other side.\<close>

theorem handshake_completes:
  assumes "identity_ok E spub ssign" and "identity_ok E cpub csign" and "url_ok surl" and "url_ok curl"
    and "domain_hash E (ascii ''PARITR-P9-NODE-ID-v1'') spub \<noteq> domain_hash E (ascii ''PARITR-P9-NODE-ID-v1'') cpub"
    and "abs_diff t1 t1' \<le> 300" and "abs_diff t2 t2' \<le> 300" and "abs_diff t3 t3' \<le> 300"
    and "first = hello_signed E spub ssign sc t1 ssnap surl hash_zero"
    and "answer = hello_signed E cpub csign cc t2 csnap curl sc"
    and "second = hello_signed E spub ssign sc' t3 ssnap' surl cc"
  shows "dial_challenge E (node_id E answer) t1' (encode_frame (MsgHello first)) = Inr first
    \<and> serve_check E (node_id E first) first t2' (encode_frame (MsgHello answer)) = Inr answer
    \<and> dial_acknowledge E first answer t3' (encode_frame (MsgHello second)) = Inr second"
proof -
  have l: "length spub = 33" "length cpub = 33" using assms(1,2) by (simp_all add: identity_ok_def)
  have r: "recv_hello E (encode_frame (MsgHello first)) = Inr first"
    "recv_hello E (encode_frame (MsgHello answer)) = Inr answer"
    "recv_hello E (encode_frame (MsgHello second)) = Inr second"
    unfolding assms(9-11) using l assms(3,4) by (intro recv_hello_frame hello_signed_wf; simp)+
  have v: "hello_verify E t1' first" "hello_verify E t2' answer" "hello_verify E t3' second"
    unfolding assms(9-11) using assms(1,2,6-8) by (simp_all add: hello_signed_verifies)
  show ?thesis using r v assms(5)
    by (simp add: dial_challenge_def serve_check_def dial_acknowledge_def node_id_def assms(9-11))
qed

theorem handshake_completes_witness:
  "\<exists>first answer second. first \<noteq> answer
    \<and> dial_challenge sample_env (node_id sample_env answer) 7 (encode_frame (MsgHello first)) = Inr first
    \<and> serve_check sample_env (node_id sample_env first) first 9 (encode_frame (MsgHello answer)) = Inr answer
    \<and> dial_acknowledge sample_env first answer 9 (encode_frame (MsgHello second)) = Inr second"
proof -
  let ?key = "\<lambda>n. replicate 32 0 @ [n] :: bytes"
  let ?sign = "\<lambda>digest. array_zero :: 64 barr"
  let ?hello = "\<lambda>n t r. hello_signed sample_env (?key n) ?sign hash_zero t (3, hash_zero, []) [] r"
  have i: "identity_ok sample_env (?key n) ?sign" for n
    by (simp add: identity_ok_def sample_env_def)
  have u: "url_ok []" by (simp add: url_ok_def)
  have d: "domain_hash sample_env (ascii ''PARITR-P9-NODE-ID-v1'') (?key 1)
      \<noteq> domain_hash sample_env (ascii ''PARITR-P9-NODE-ID-v1'') (?key 2)"
    by (subst (1 2) sample_domain_hash) (simp_all add: ascii_def array_of_inject)
  have t: "abs_diff 7 7 \<le> 300" "abs_diff 8 9 \<le> 300" "abs_diff 9 9 \<le> 300" by (simp_all add: abs_diff_def)
  have "he_node_public_key (?hello 1 7 hash_zero) \<noteq> he_node_public_key (?hello 2 8 hash_zero)" by simp
  then have "?hello 1 7 hash_zero \<noteq> ?hello 2 8 hash_zero" by metis
  then show ?thesis
    using handshake_completes [OF i i u u d t refl refl refl] by blast
qed

end
