(* ===== verification/Storage.thy ===== *)
theory Storage
  imports Sample_Chain
begin

text \<open>
  The database of \<open>src/storage.rs\<close>.  SQLite is not part of the repository; the tables are maps with the
  primary key as the key and every SQL statement of the source is the map update it says, with the
  declared constraints as errors.  A transaction either commits or leaves the database as it was: an
  error is returned without a new state.  Failures of the disk are not modelled.
\<close>

record stored_block =
  sb_height :: u64
  sb_parent :: hash32
  sb_data :: bytes
  sb_received_at :: u64

record stored_snapshot =
  ss_block_hash :: hash32
  ss_state_root :: hash32
  ss_data :: bytes
  ss_created_at :: u64

record stored_peer =
  sp_url :: bytes
  sp_score :: int
  sp_last_success :: "u64 option"
  sp_banned_until :: "u64 option"

record storage =
  db_metadata :: "(bytes, bytes) smap"
  db_blocks :: "(hash32, stored_block) smap"
  db_active :: "(u64, hash32) smap"
  db_snapshots :: "(u64, stored_snapshot) smap"
  db_peers :: "(bytes, stored_peer) smap"

datatype storage_error =
    ForeignNetwork
  | ForeignIdentity
  | IntegerRange
  | ConstraintViolation
  | InvalidStoredBlock codec_error

definition storage_empty :: storage where
  "storage_empty = \<lparr>db_metadata = [], db_blocks = [], db_active = [], db_snapshots = [], db_peers = []\<rparr>"

text \<open>\<open>i64::try_from\<close>: SQLite integers are signed.\<close>

definition to_i64 :: "u64 \<Rightarrow> storage_error + u64" where
  "to_i64 v = (if unat v < 2 ^ 63 then Inr v else Inl IntegerRange)"

definition initialize_identity :: "prims \<Rightarrow> storage \<Rightarrow> storage_error + storage" where
  "initialize_identity E db =
     (case smap_get (db_metadata db) (ascii ''network'') of
        Some network \<Rightarrow>
          if network \<noteq> CHAIN_ID then Inl ForeignNetwork
          else if smap_get (db_metadata db) (ascii ''protocol'') \<noteq> Some (to_le_bytes PROTOCOL_VERSION)
             \<or> smap_get (db_metadata db) (ascii ''genesis'') \<noteq> Some (array_bytes (block_id E (genesis E)))
          then Inl ForeignIdentity
          else Inr db
      | None \<Rightarrow>
          Inr (db\<lparr>db_metadata :=
            smap_insert (ascii ''genesis'') (array_bytes (block_id E (genesis E)))
              (smap_insert (ascii ''protocol'') (to_le_bytes PROTOCOL_VERSION)
                (smap_insert (ascii ''network'') CHAIN_ID (db_metadata db)))\<rparr>))"

definition decode_stored :: "prims \<Rightarrow> bytes \<Rightarrow> storage_error + block" where
  "decode_stored E data = map_err InvalidStoredBlock (consensus_decode (block_dec E) data)"

text \<open>The join of the active chain with the blocks, in the order of the heights.\<close>

definition load_active_blocks :: "prims \<Rightarrow> storage \<Rightarrow> storage_error + block list" where
  "load_active_blocks E db =
     try_fold (\<lambda>blocks row. rbind (decode_stored E (sb_data row)) (\<lambda>b. Inr (blocks @ [b]))) []
       (concat (map (\<lambda>(height, hash). case smap_get (db_blocks db) hash of Some row \<Rightarrow> [row] | None \<Rightarrow> [])
          (db_active db)))"

text \<open>\<open>INSERT INTO blocks ... ON CONFLICT(hash) DO NOTHING\<close>; the parameters are converted first.\<close>

definition insert_block :: "prims \<Rightarrow> u64 \<Rightarrow> (hash32, stored_block) smap \<Rightarrow> block \<Rightarrow>
    storage_error + (hash32, stored_block) smap" where
  "insert_block E now blocks b =
     rbind (to_i64 (bh_height (blk_header b))) (\<lambda>height.
     rbind (to_i64 now) (\<lambda>received_at.
       Inr (if smap_contains blocks (block_id E b) then blocks
            else smap_insert (block_id E b)
              \<lparr>sb_height = height, sb_parent = bh_previous_block (blk_header b), sb_data = block_enc b,
               sb_received_at = received_at\<rparr> blocks)))"

text \<open>\<open>INSERT INTO active_chain\<close>: the height is the key, the hash is unique and references a block.\<close>

definition insert_active :: "prims \<Rightarrow> (hash32, stored_block) smap \<Rightarrow> (u64, hash32) smap \<Rightarrow> block \<Rightarrow>
    storage_error + (u64, hash32) smap" where
  "insert_active E blocks active b =
     rbind (to_i64 (bh_height (blk_header b))) (\<lambda>height.
       if smap_contains active height \<or> block_id E b \<in> snd ` set active
          \<or> \<not> smap_contains blocks (block_id E b)
       then Inl ConstraintViolation
       else Inr (smap_insert height (block_id E b) active))"

text \<open>The three snapshots with the greatest heights.\<close>

definition keep_latest :: "nat \<Rightarrow> ('k \<times> 'v) list \<Rightarrow> ('k \<times> 'v) list" where
  "keep_latest n m = drop (length m - n) m"

definition save_chain :: "prims \<Rightarrow> u64 \<Rightarrow> chain \<Rightarrow> storage \<Rightarrow> storage_error + storage" where
  "save_chain E now c db =
     rbind (try_fold (insert_block E now) (db_blocks db) (ch_blocks c)) (\<lambda>blocks.
     rbind (try_fold (insert_active E blocks) [] (ch_blocks c)) (\<lambda>active.
     let snapshot = ledger_enc (ch_state c) in
     rbind (to_i64 (chain_height c)) (\<lambda>height.
     rbind (to_i64 now) (\<lambda>created_at.
       Inr (db\<lparr>db_blocks := blocks, db_active := active,
         db_snapshots := keep_latest 3 (smap_insert height
           \<lparr>ss_block_hash = block_id E (chain_tip c), ss_state_root = ledger_root (ch_state c),
            ss_data = snapshot, ss_created_at = created_at\<rparr> (db_snapshots db)),
         db_metadata := smap_insert (ascii ''tip'') (array_bytes (block_id E (chain_tip c)))
           (db_metadata db)\<rparr>)))))"

definition storage_block :: "prims \<Rightarrow> hash32 \<Rightarrow> storage \<Rightarrow> storage_error + block option" where
  "storage_block E hash db =
     (case smap_get (db_blocks db) hash of
        None \<Rightarrow> Inr None
      | Some row \<Rightarrow> rbind (decode_stored E (sb_data row)) (\<lambda>b. Inr (Some b)))"

definition store_side_block :: "prims \<Rightarrow> u64 \<Rightarrow> block \<Rightarrow> storage \<Rightarrow> storage_error + storage" where
  "store_side_block E now b db =
     rbind (insert_block E now (db_blocks db) b) (\<lambda>blocks. Inr (db\<lparr>db_blocks := blocks\<rparr>))"

definition save_peer :: "stored_peer \<Rightarrow> storage \<Rightarrow> storage" where
  "save_peer peer db =
     (let signed = (\<lambda>v. case v of Some t \<Rightarrow> if unat t < 2 ^ 63 then Some (t :: u64) else None | None \<Rightarrow> None)
      in db\<lparr>db_peers := smap_insert (sp_url peer)
           (peer\<lparr>sp_last_success := signed (sp_last_success peer),
                 sp_banned_until := signed (sp_banned_until peer)\<rparr>) (db_peers db)\<rparr>)"

section \<open>The rows of a saved chain\<close>

text \<open>A database whose rows are encodings of decodable blocks under their ids.\<close>

definition storage_ok :: "prims \<Rightarrow> storage \<Rightarrow> bool" where
  "storage_ok E db \<longleftrightarrow> smap_ok (db_blocks db) \<and> smap_ok (db_active db) \<and> smap_ok (db_snapshots db)
     \<and> (\<forall>k row. smap_get (db_blocks db) k = Some row \<longrightarrow>
          (\<exists>b. block_wf E b \<and> sb_data row = block_enc b \<and> block_id E b = k
             \<and> length (block_enc b) \<le> MAX_CONSENSUS_ALLOCATION))
     \<and> length (db_snapshots db) \<le> 3"

definition storable :: "prims \<Rightarrow> block \<Rightarrow> bool" where
  "storable E b \<longleftrightarrow> block_wf E b \<and> length (block_enc b) \<le> MAX_CONSENSUS_ALLOCATION
     \<and> unat (bh_height (blk_header b)) < 2 ^ 63"

lemma to_i64_Inr: "to_i64 v = Inr w \<longleftrightarrow> w = v \<and> unat v < 2 ^ 63"
  by (auto simp: to_i64_def)

lemma insert_block_Inr:
  "insert_block E now m b = Inr m' \<longleftrightarrow> unat (bh_height (blk_header b)) < 2 ^ 63 \<and> unat now < 2 ^ 63
     \<and> m' = (if smap_contains m (block_id E b) then m else smap_insert (block_id E b)
              \<lparr>sb_height = bh_height (blk_header b), sb_parent = bh_previous_block (blk_header b),
               sb_data = block_enc b, sb_received_at = now\<rparr> m)"
  by (auto simp: insert_block_def result_simps to_i64_Inr)

text \<open>Rows are never changed, only added.\<close>

lemma insert_blocks_rows:
  assumes "try_fold (insert_block E now) m bs = Inr m'"
  shows "(\<forall>k row. smap_get m k = Some row \<longrightarrow> smap_get m' k = Some row)
    \<and> (\<forall>b \<in> set bs. smap_get m' (block_id E b) \<noteq> None)
    \<and> (\<forall>k row. smap_get m' k = Some row \<longrightarrow> smap_get m k = Some row
         \<or> (\<exists>b \<in> set bs. block_id E b = k \<and> sb_data row = block_enc b))
    \<and> (smap_ok m \<longrightarrow> smap_ok m')"
  using assms
proof (induction bs arbitrary: m)
  case (Cons b bs)
  obtain m1 where m1: "insert_block E now m b = Inr m1"
    and rest: "try_fold (insert_block E now) m1 bs = Inr m'"
    using Cons.prems by (auto simp: rbind_Inr)
  have s: "m1 = (if smap_contains m (block_id E b) then m else smap_insert (block_id E b)
              \<lparr>sb_height = bh_height (blk_header b), sb_parent = bh_previous_block (blk_header b),
               sb_data = block_enc b, sb_received_at = now\<rparr> m)"
    using m1 by (simp add: insert_block_Inr)
  note ih = Cons.IH [OF rest]
  have old: "smap_get m k = Some row \<Longrightarrow> smap_get m1 k = Some row" for k row
    by (auto simp: s smap_contains_def)
  have new: "smap_get m1 (block_id E b) \<noteq> None" by (auto simp: s smap_contains_def)
  have orig: "smap_get m1 k = Some row \<Longrightarrow> smap_get m k = Some row
      \<or> (block_id E b = k \<and> sb_data row = block_enc b)" for k row
    by (auto simp: s split: if_splits)
  have ok: "smap_ok m \<Longrightarrow> smap_ok m1" by (simp add: s)
  show ?case
  proof (intro conjI ballI allI impI)
    show "smap_get m' k = Some row" if "smap_get m k = Some row" for k row
      using ih old [OF that] by blast
    show "smap_get m' (block_id E x) \<noteq> None" if "x \<in> set (b # bs)" for x
      using ih new that by (cases "x = b") (auto simp: not_None_eq)
    show "smap_ok m'" if "smap_ok m" using ih ok [OF that] by blast
    show "smap_get m k = Some row \<or> (\<exists>x \<in> set (b # bs). block_id E x = k \<and> sb_data row = block_enc x)"
      if "smap_get m' k = Some row" for k row
    proof -
      have "smap_get m1 k = Some row \<or> (\<exists>x \<in> set bs. block_id E x = k \<and> sb_data row = block_enc x)"
        using ih that by blast
      then show ?thesis using orig [of k row] by auto
    qed
  qed
qed auto

lemma insert_active_rows:
  assumes "try_fold (insert_active E blocks) m bs = Inr m'"
    and "sorted_wrt (<) (map fst m @ map (\<lambda>b. bh_height (blk_header b)) bs)"
  shows "m' = m @ map (\<lambda>b. (bh_height (blk_header b), block_id E b)) bs"
  using assms
proof (induction bs arbitrary: m)
  case (Cons b bs)
  let ?m1 = "m @ [(bh_height (blk_header b), block_id E b)]"
  obtain m1 where m1: "insert_active E blocks m b = Inr m1"
    and rest: "try_fold (insert_active E blocks) m1 bs = Inr m'"
    using Cons.prems by (auto simp: rbind_Inr)
  have "m1 = smap_insert (bh_height (blk_header b)) (block_id E b) m"
    using m1 by (auto simp: insert_active_def result_simps to_i64_Inr)
  also have "\<dots> = ?m1" using Cons.prems(2) by (intro smap_insert_last) (auto simp: sorted_wrt_append)
  finally have "try_fold (insert_active E blocks) ?m1 bs = Inr m'" using rest by simp
  from Cons.IH [OF this] Cons.prems(2) show ?case by simp
qed simp

lemma decode_stored_enc:
  assumes "block_wf E b" and "length (block_enc b) \<le> MAX_CONSENSUS_ALLOCATION"
  shows "decode_stored E (block_enc b) = Inr b"
  using block_codec.round_trip [OF assms] by (simp add: decode_stored_def)

lemma load_rows:
  assumes "\<forall>b \<in> set bs. storable E b
      \<and> (\<exists>row. smap_get blocks (block_id E b) = Some row \<and> sb_data row = block_enc b)"
  shows "try_fold (\<lambda>bs row. rbind (decode_stored E (sb_data row)) (\<lambda>b. Inr (bs @ [b]))) acc
     (concat (map (\<lambda>(height, hash). case smap_get blocks hash of Some row \<Rightarrow> [row] | None \<Rightarrow> [])
       (map (\<lambda>b. (bh_height (blk_header b), block_id E b)) bs))) = Inr (acc @ bs)"
  using assms
proof (induction bs arbitrary: acc)
  case (Cons b bs)
  obtain row where "smap_get blocks (block_id E b) = Some row" "sb_data row = block_enc b"
    using Cons.prems by auto
  moreover have "decode_stored E (block_enc b) = Inr b"
    using Cons.prems by (intro decode_stored_enc) (auto simp: storable_def)
  ultimately show ?case using Cons.IH [of "acc @ [b]"] Cons.prems by simp
qed simp

lemma save_chain_Inr:
  "save_chain E now c db = Inr db' \<longleftrightarrow> (\<exists>blocks active.
     try_fold (insert_block E now) (db_blocks db) (ch_blocks c) = Inr blocks
     \<and> try_fold (insert_active E blocks) [] (ch_blocks c) = Inr active
     \<and> unat (chain_height c) < 2 ^ 63 \<and> unat now < 2 ^ 63
     \<and> db' = db\<lparr>db_blocks := blocks, db_active := active,
         db_snapshots := keep_latest 3 (smap_insert (chain_height c)
           \<lparr>ss_block_hash = block_id E (chain_tip c), ss_state_root = ledger_root (ch_state c),
            ss_data = ledger_enc (ch_state c), ss_created_at = now\<rparr> (db_snapshots db)),
         db_metadata := smap_insert (ascii ''tip'') (array_bytes (block_id E (chain_tip c)))
           (db_metadata db)\<rparr>)"
  by (auto simp: save_chain_def result_simps to_i64_Inr Let_def)

text \<open>What is saved is what is loaded, whatever chain was active before.\<close>

lemma load_save:
  assumes sv: "save_chain E now c db = Inr db'"
    and inc: "sorted_wrt (<) (map (\<lambda>b. bh_height (blk_header b)) (ch_blocks c))"
    and st: "\<forall>b \<in> set (ch_blocks c). storable E b"
    and uniq: "\<forall>b \<in> set (ch_blocks c). \<forall>b'. block_id E b' = block_id E b \<longrightarrow>
      (b' \<in> set (ch_blocks c) \<or> (\<exists>row. smap_get (db_blocks db) (block_id E b) = Some row
         \<and> sb_data row = block_enc b')) \<longrightarrow> b' = b"
    and ok: "storage_ok E db"
  shows "load_active_blocks E db' = Inr (ch_blocks c)"
proof -
  obtain blocks active where rows: "try_fold (insert_block E now) (db_blocks db) (ch_blocks c) = Inr blocks"
    and act: "try_fold (insert_active E blocks) [] (ch_blocks c) = Inr active"
    and db': "db_blocks db' = blocks" "db_active db' = active"
    using sv by (auto simp: save_chain_Inr)
  have active: "active = map (\<lambda>b. (bh_height (blk_header b), block_id E b)) (ch_blocks c)"
    using insert_active_rows [OF act] inc by simp
  note r = insert_blocks_rows [OF rows]
  have "\<exists>row. smap_get blocks (block_id E b) = Some row \<and> sb_data row = block_enc b"
    if b: "b \<in> set (ch_blocks c)" for b
  proof -
    obtain row where row: "smap_get blocks (block_id E b) = Some row" using r b by auto
    then consider "smap_get (db_blocks db) (block_id E b) = Some row"
      | b' where "b' \<in> set (ch_blocks c)" "block_id E b' = block_id E b" "sb_data row = block_enc b'"
      using r by blast
    then have "sb_data row = block_enc b"
    proof cases
      case 1
      then obtain b' where "sb_data row = block_enc b'" "block_id E b' = block_id E b"
        using ok unfolding storage_ok_def by blast
      then show ?thesis using uniq b 1 by blast
    next
      case (2 b')
      then show ?thesis using uniq b by blast
    qed
    then show ?thesis using row by blast
  qed
  then show ?thesis
    using load_rows [of "ch_blocks c" E blocks "[]"] st
    by (simp add: load_active_blocks_def db' active)
qed

lemma length_smap_insert_le: "length (smap_insert k v m) \<le> Suc (length m)"
  by (induction k v m rule: smap_insert.induct) auto

lemma sorted_wrt_drop: "sorted_wrt P xs \<Longrightarrow> sorted_wrt P (drop n xs)"
  by (metis append_take_drop_id sorted_wrt_append)

lemma save_chain_ok:
  assumes sv: "save_chain E now c db = Inr db'" and ok: "storage_ok E db"
    and st: "\<forall>b \<in> set (ch_blocks c). storable E b"
    and inc: "sorted_wrt (<) (map (\<lambda>b. bh_height (blk_header b)) (ch_blocks c))"
  shows "storage_ok E db'"
proof -
  obtain blocks active where rows: "try_fold (insert_block E now) (db_blocks db) (ch_blocks c) = Inr blocks"
    and act: "try_fold (insert_active E blocks) [] (ch_blocks c) = Inr active"
    and db': "db_blocks db' = blocks" "db_active db' = active"
      "\<exists>x. db_snapshots db' = keep_latest 3 (smap_insert (chain_height c) x (db_snapshots db))"
    using sv unfolding save_chain_Inr by (elim exE conjE) (rule that, simp_all, blast)
  have active: "active = map (\<lambda>b. (bh_height (blk_header b), block_id E b)) (ch_blocks c)"
    using insert_active_rows [OF act] inc by simp
  note r = insert_blocks_rows [OF rows]
  note o = ok [unfolded storage_ok_def]
  have "smap_ok active" using inc by (simp add: smap_ok_def active comp_def)
  moreover have "smap_ok (keep_latest 3 (smap_insert k x (db_snapshots db)))" for k x
    using o smap_ok_insert [of "db_snapshots db" k x]
    by (auto simp: smap_ok_def keep_latest_def drop_map [symmetric] intro: sorted_wrt_drop)
  moreover have "length (keep_latest 3 (smap_insert k x (db_snapshots db))) \<le> 3" for k x
    by (simp add: keep_latest_def)
  moreover have "\<exists>b. block_wf E b \<and> sb_data row = block_enc b \<and> block_id E b = k
             \<and> length (block_enc b) \<le> MAX_CONSENSUS_ALLOCATION"
    if "smap_get blocks k = Some row" for k row
    using r that o st unfolding storable_def by blast
  ultimately show ?thesis using o r db' unfolding storage_ok_def by auto
qed

section \<open>Opening a node\<close>

datatype open_error = OpenStorage storage_error | OpenChain consensus_error

text \<open>\<open>Node::open\<close>: the chain a node starts with; \<open>None\<close> is the panic of \<open>Chain::genesis\<close>.\<close>

definition open_chain ::
    "prims \<Rightarrow> pow_verifier \<Rightarrow> u64 \<Rightarrow> storage \<Rightarrow> (open_error + chain \<times> storage) option" where
  "open_chain E pow now db =
     (case rbind (initialize_identity E db) (\<lambda>db.
             rbind (load_active_blocks E db) (\<lambda>stored. Inr (stored, db))) of
        Inl e \<Rightarrow> Some (Inl (OpenStorage e))
      | Inr (stored, db) \<Rightarrow>
          if stored = [] then
            (case chain_genesis E of
               None \<Rightarrow> None
             | Some c \<Rightarrow> Some (map_err OpenStorage (rbind (save_chain E now c db) (\<lambda>db. Inr (c, db)))))
          else Some (map_err OpenChain
                 (rbind (chain_from_blocks E pow now stored) (\<lambda>c. Inr (c, db)))))"

lemma header_context_later:
  assumes "validate_header_context E h parent hist now = Inr ()"
    and "unat (bh_timestamp h) \<le> unat now' + 300"
  shows "validate_header_context E h parent hist now' = Inr ()"
  using assms unfolding header_context_Inr by blast

lemma validate_block_later:
  assumes v: "validate_block E pow now b hist s = Inr s'" and h: "bh_height (blk_header b) \<noteq> 0"
    and t: "time_of b \<le> unat now' + 300"
  shows "validate_block E pow now' b hist s = Inr s'"
proof -
  have c: "validate_header_context E (blk_header b) (last hist) hist now = Inr ()"
    using validate_block_InrE [OF v h] by metis
  then have "validate_header_context E (blk_header b) (last hist) hist now' = Inr ()"
    by (rule header_context_later) (use t in \<open>simp add: time_of_def\<close>)
  then show ?thesis using v c h unfolding validate_block_def Let_def by simp
qed

lemma valid_history_replay:
  assumes "valid_history E pow hist s" and "\<forall>b \<in> set hist. time_of b \<le> unat now' + 300"
  shows "validate_from E pow now' [genesis E] (ledger_default E) (tl hist) = Inr s"
  using assms
proof (induction rule: valid_history.induct)
  case (extend hist s now b s')
  have ne: "hist \<noteq> []" "hd hist = genesis E"
    using valid_history_inv [OF extend.hyps(1)] by (simp_all add: history_inv_def)
  then have "[genesis E] @ tl hist = hist" by (cases hist) simp_all
  moreover have "validate_block E pow now' b hist s = Inr s'"
    using extend.prems by (intro validate_block_later [OF extend.hyps(2,3)]) simp
  ultimately show ?case using extend ne by (simp add: validate_from_append)
qed simp

lemma chain_reopen:
  assumes "chain_ok E pow c" and "\<forall>b \<in> set (ch_blocks c). time_of b \<le> unat now' + 300"
  shows "chain_from_blocks E pow now' (ch_blocks c) = Inr c"
proof -
  have vh: "valid_history E pow (ch_blocks c) (ch_state c)"
    and w: "cumulative_work (ch_blocks c) = Inr (ch_work c)" using assms(1) by (simp_all add: chain_ok_def)
  have "ch_blocks c \<noteq> [] \<and> hd (ch_blocks c) = genesis E"
    using valid_history_inv [OF vh] by (simp add: history_inv_def)
  then have "ch_blocks c = genesis E # tl (ch_blocks c)" by (cases "ch_blocks c") simp_all
  then show ?thesis using valid_history_replay [OF vh assms(2)] w by (auto simp: chain_from_blocks_Inr)
qed

lemma history_heights_sorted:
  assumes "valid_history E pow hist s"
  shows "sorted_wrt (<) (map (\<lambda>b. bh_height (blk_header b)) hist)"
  using valid_history_inv [OF assms]
  by (auto simp: sorted_wrt_iff_nth_less history_inv_def height_of_def word_less_nat_alt)

lemma metadata_keys:
  "ascii ''tip'' \<noteq> ascii ''network''" "ascii ''tip'' \<noteq> ascii ''protocol''" "ascii ''tip'' \<noteq> ascii ''genesis''"
  "ascii ''genesis'' \<noteq> ascii ''network''" "ascii ''genesis'' \<noteq> ascii ''protocol''"
  "ascii ''protocol'' \<noteq> ascii ''network''"
  by (simp_all add: ascii_def)

lemma initialize_identity_again:
  assumes "initialize_identity E db = Inr db1"
  shows "initialize_identity E db1 = Inr db1"
  using assms metadata_keys
  by (auto simp: initialize_identity_def split: option.splits if_splits)

lemma save_chain_identity:
  assumes "save_chain E now c db = Inr db'" and "initialize_identity E db = Inr db"
  shows "initialize_identity E db' = Inr db'"
proof -
  have "smap_get (db_metadata db) (ascii ''network'') \<noteq> None"
  proof
    assume none: "smap_get (db_metadata db) (ascii ''network'') = None"
    then have "smap_get (db_metadata (db\<lparr>db_metadata :=
            smap_insert (ascii ''genesis'') (array_bytes (block_id E (genesis E)))
              (smap_insert (ascii ''protocol'') (to_le_bytes PROTOCOL_VERSION)
                (smap_insert (ascii ''network'') CHAIN_ID (db_metadata db)))\<rparr>)) (ascii ''network'') = None"
      using assms(2) by (simp add: initialize_identity_def)
    then show False using metadata_keys by simp
  qed
  then obtain n where n: "smap_get (db_metadata db) (ascii ''network'') = Some n" by blast
  show ?thesis
    using assms metadata_keys n
    by (auto simp: initialize_identity_def save_chain_Inr split: if_splits)
qed

section \<open>Properties\<close>

text \<open>A restart loses nothing: after the database has saved a chain, a node that opens it with a clock
  not more than 300 seconds behind the youngest block starts with exactly that chain, its ledger and its
  work, whatever was stored before.\<close>

theorem restart_restores_chain:
  assumes "chain_ok E pow c" and "storage_ok E db" and "initialize_identity E db = Inr db"
    and "save_chain E now c db = Inr db'" and "\<forall>b \<in> set (ch_blocks c). storable E b"
    and "\<forall>b \<in> set (ch_blocks c). time_of b \<le> unat now' + 300"
    and "\<forall>b \<in> set (ch_blocks c). \<forall>b'. block_id E b' = block_id E b \<longrightarrow>
      (b' \<in> set (ch_blocks c) \<or> (\<exists>row. smap_get (db_blocks db) (block_id E b) = Some row
         \<and> sb_data row = block_enc b')) \<longrightarrow> b' = b"
  shows "open_chain E pow now' db' = Some (Inr (c, db')) \<and> storage_ok E db'"
proof -
  have vh: "valid_history E pow (ch_blocks c) (ch_state c)" using assms(1) by (simp add: chain_ok_def)
  note inc = history_heights_sorted [OF vh]
  have "load_active_blocks E db' = Inr (ch_blocks c)"
    by (rule load_save [OF assms(4) inc assms(5,7,2)])
  moreover have "ch_blocks c \<noteq> []" using valid_history_inv [OF vh] by (simp add: history_inv_def)
  ultimately have "open_chain E pow now' db' = Some (Inr (c, db'))"
    using save_chain_identity [OF assms(4,3)] chain_reopen [OF assms(1,6)] by (simp add: open_chain_def)
  then show ?thesis using save_chain_ok [OF assms(4,2,5) inc] by simp
qed

lemma genesis_wf: "storable E (genesis E)"
  by (simp add: storable_def block_wf_def witness_wf_def genesis_def witness_empty_def block_enc_def
      witness_enc_def put_vec_def put_list_def limit_defs)

theorem restart_restores_chain_witness:
  "\<exists>c db db'. chain_genesis sample_env = Some c \<and> save_chain sample_env 5 c db = Inr db'
    \<and> open_chain sample_env sample_pow GENESIS_TIMESTAMP db' = Some (Inr (c, db'))"
proof -
  obtain w where g: "chain_genesis sample_env = Some \<lparr>ch_blocks = [genesis sample_env],
      ch_state = ledger_default sample_env, ch_work = w\<rparr>" (is "_ = Some ?c")
    by (rule chain_genesis_Some)
  obtain db where db: "initialize_identity sample_env storage_empty = Inr db" "db_blocks db = []"
    "db_snapshots db = []" "db_active db = []"
    by (simp add: initialize_identity_def storage_empty_def)
  have ok: "storage_ok sample_env db" using db by (simp add: storage_ok_def)
  have "\<exists>db'. save_chain sample_env 5 ?c db = Inr db'"
    by (simp add: save_chain_def db insert_block_def insert_active_def to_i64_def chain_height_def
        chain_tip_def Let_def rbind_def smap_contains_def)
  then obtain db' where sv: "save_chain sample_env 5 ?c db = Inr db'" by blast
  have "open_chain sample_env sample_pow GENESIS_TIMESTAMP db' = Some (Inr (?c, db')) \<and> storage_ok sample_env db'"
    by (rule restart_restores_chain [OF chain_genesis_ok [OF g] ok initialize_identity_again [OF db(1)] sv])
      (simp_all add: genesis_wf time_of_def db)
  then show ?thesis using g sv by blast
qed

end
