(* ===== verification/Node_State.thy ===== *)
theory Node_State
  imports Mempool Live_Pool Wire Storage
begin

text \<open>
  The node of \<open>src/node.rs\<close>: the chain, the pools, the database and the tables about peers, and the
  operations the network, the miner and the API call on them.  Every operation takes the state and
  returns it with its result; \<open>None\<close> is a panic.  The locks that a handler holds make it one step.
  Broadcast events are appended to a list.  The \<open>HashMap\<close> of orphan shares is searched in its iteration
  order, which is unspecified: the order is an argument \<open>it\<close>, a reordering of the entries.
\<close>

section \<open>State\<close>

record node_config =
  nc_miner_address :: "address option"
  nc_max_inbound_peers :: nat
  nc_max_outbound_peers :: nat

record node =
  nd_config :: node_config
  nd_chain :: chain
  nd_mempool :: mempool
  nd_workshares :: share_pool
  nd_storage :: storage
  nd_peers :: "(hash32, bool) smap"
  nd_queues :: "(hash32, hash32 list) smap"
  nd_pending :: "(hash32, hash32 \<times> workshare) smap"
  nd_events :: "wire_message list"
  nd_generation :: u64

type_synonym pending_order =
  "(hash32 \<times> hash32 \<times> workshare) list \<Rightarrow> (hash32 \<times> hash32 \<times> workshare) list"

definition send_event :: "wire_message \<Rightarrow> node \<Rightarrow> node" where
  "send_event m n = n\<lparr>nd_events := nd_events n @ [m]\<rparr>"

definition bump_generation :: "node \<Rightarrow> node" where
  "bump_generation n = n\<lparr>nd_generation := nd_generation n + 1\<rparr>"

definition MAX_PENDING_WORKSHARES :: nat where
  "MAX_PENDING_WORKSHARES = 2048"

definition MAX_BRANCH :: nat where
  "MAX_BRANCH = 100000"

text \<open>The state \<open>Node::open\<close> builds around the chain it loaded.\<close>

definition node_open :: "node_config \<Rightarrow> prims \<Rightarrow> chain \<Rightarrow> storage \<Rightarrow> node" where
  "node_open config E c db = \<lparr>nd_config = config, nd_chain = c,
     nd_mempool = mempool_new relay_policy_default,
     nd_workshares = pool_reset (block_id E (chain_tip c)), nd_storage = db,
     nd_peers = [], nd_queues = [], nd_pending = [], nd_events = [], nd_generation = 0\<rparr>"

section \<open>Lookups\<close>

definition node_block_by_hash :: "prims \<Rightarrow> hash32 \<Rightarrow> node \<Rightarrow> block option" where
  "node_block_by_hash E hash n =
     (case block_by_hash E (nd_chain n) hash of
        Some b \<Rightarrow> Some b
      | None \<Rightarrow> (case storage_block E hash (nd_storage n) of Inr found \<Rightarrow> found | Inl _ \<Rightarrow> None))"

text \<open>The locator: ten recent blocks, then steps that double; \<open>None\<close> is the panic of the \<open>expect\<close> or a
  loop that does not end.\<close>

partial_function (option) locator_loop ::
    "prims \<Rightarrow> chain \<Rightarrow> hash32 list \<Rightarrow> u64 \<Rightarrow> u64 \<Rightarrow> hash32 list option" where
  "locator_loop E c locator height step =
     (case block_at c height of
        None \<Rightarrow> None
      | Some b \<Rightarrow>
          let locator = locator @ [block_id E b]
          in if height = 0 then Some locator
             else locator_loop E c locator (saturating_sub height step)
                    (if 10 \<le> length locator then saturating_mul step 2 else step))"

definition block_locator :: "prims \<Rightarrow> chain \<Rightarrow> hash32 list option" where
  "block_locator E c = locator_loop E c [] (chain_height c) 1"

section \<open>Transactions and blocks\<close>

definition submit_transaction ::
    "prims \<Rightarrow> u64 \<Rightarrow> transaction \<Rightarrow> node \<Rightarrow> ((mempool_error + hash32) \<times> node) option" where
  "submit_transaction E now t n =
     (case accept E t (ch_state (nd_chain n)) now (nd_mempool n) of
        None \<Rightarrow> None
      | Some (Inl e, p) \<Rightarrow> Some (Inl e, n\<lparr>nd_mempool := p\<rparr>)
      | Some (Inr txid, p) \<Rightarrow>
          Some (Inr txid, send_event (MsgInventory KindTransaction txid) (n\<lparr>nd_mempool := p\<rparr>)))"

definition storage_message :: "storage_error \<Rightarrow> string" where
  "storage_message e =
     (case e of ForeignNetwork \<Rightarrow> ''foreign network'' | ForeignIdentity \<Rightarrow> ''foreign identity''
      | IntegerRange \<Rightarrow> ''out of range'' | ConstraintViolation \<Rightarrow> ''constraint failed''
      | InvalidStoredBlock _ \<Rightarrow> ''invalid stored block'')"

text \<open>The branch from the submitted block back to the active chain, oldest block first.\<close>

function assemble_branch ::
    "prims \<Rightarrow> storage \<Rightarrow> chain \<Rightarrow> block list \<Rightarrow> hash32 list \<Rightarrow> consensus_error + u64 \<times> block list" where
  "assemble_branch E db active branch seen =
     (let parent_hash = bh_previous_block (blk_header (hd branch)) in
      case block_by_hash E active parent_hash of
        Some parent \<Rightarrow> Inr (bh_height (blk_header parent), branch)
      | None \<Rightarrow>
          if parent_hash \<in> set seen \<or> MAX_BRANCH < length branch then Inl WrongParent
          else case storage_block E parent_hash db of
            Inl e \<Rightarrow> Inl (StorageInvariant (storage_message e))
          | Inr None \<Rightarrow> Inl WrongParent
          | Inr (Some b) \<Rightarrow> assemble_branch E db active (b # branch) (parent_hash # seen))"
  by pat_completeness auto
termination
  by (relation "measure (\<lambda>(E, db, active, branch, seen). Suc MAX_BRANCH - length branch)") auto

declare assemble_branch.simps [simp del]

definition assemble_candidate ::
    "prims \<Rightarrow> storage \<Rightarrow> chain \<Rightarrow> block \<Rightarrow> (consensus_error + block list) option" where
  "assemble_candidate E db active b =
     (case assemble_branch E db active [b] [] of
        Inl e \<Rightarrow> Some (Inl e)
      | Inr (fork_at, branch) \<Rightarrow>
          if unat fork_at < length (ch_blocks active)
          then Some (Inr (take (Suc (unat fork_at)) (ch_blocks active) @ branch))
          else None)"

definition chain_transactions :: "block list \<Rightarrow> transaction list" where
  "chain_transactions blocks = concat (map blk_transactions blocks)"

text \<open>The transactions a change of the chain confirms and those it takes out of the chain.\<close>

definition confirmed_detached ::
    "chain_event \<Rightarrow> block \<Rightarrow> chain \<Rightarrow> chain \<Rightarrow> (transaction list \<times> transaction list) option" where
  "confirmed_detached event b live candidate =
     (case event of
        Extended _ _ \<Rightarrow> Some (blk_transactions b, [])
      | Reorganized _ _ fork_at \<Rightarrow>
          let first = Suc fork_at
          in if first \<le> length (ch_blocks candidate) \<and> first \<le> length (ch_blocks live)
             then Some (chain_transactions (drop first (ch_blocks candidate)),
                        chain_transactions (drop first (ch_blocks live)))
             else None
      | _ \<Rightarrow> None)"

fun resurrect ::
    "prims \<Rightarrow> hash32 set \<Rightarrow> ledger \<Rightarrow> u64 \<Rightarrow> transaction list \<Rightarrow> mempool \<Rightarrow> mempool option" where
  "resurrect E confirmed s now [] p = Some p"
| "resurrect E confirmed s now (t # ts) p =
     (if transaction_id E t \<in> confirmed then resurrect E confirmed s now ts p
      else case accept E t s now p of
        None \<Rightarrow> None
      | Some (_, p) \<Rightarrow> resurrect E confirmed s now ts p)"

text \<open>The part of \<open>submit_block\<close> after the active chain has changed to \<open>candidate\<close>.\<close>

definition activate_chain ::
    "prims \<Rightarrow> u64 \<Rightarrow> chain_event \<Rightarrow> block \<Rightarrow> chain \<Rightarrow> node
     \<Rightarrow> ((consensus_error + chain_event) \<times> node) option" where
  "activate_chain E now event b candidate n =
     (case confirmed_detached event b (nd_chain n) candidate of
        None \<Rightarrow> None
      | Some (confirmed, detached) \<Rightarrow>
          (case save_chain E now candidate (nd_storage n) of
             Inl e \<Rightarrow> Some (Inl (StorageInvariant (storage_message e)), n)
           | Inr db \<Rightarrow>
               (case resurrect E (transaction_id E ` set confirmed) (ch_state candidate) now detached
                       (remove_confirmed E confirmed (nd_mempool n)) of
                  None \<Rightarrow> None
                | Some p \<Rightarrow>
                    let new_tip = block_id E (chain_tip candidate)
                    in Some (Inr event, send_event (MsgInventory KindBlock new_tip) (bump_generation
                         (n\<lparr>nd_storage := db, nd_mempool := p, nd_chain := candidate,
                            nd_workshares := pool_reset new_tip, nd_pending := []\<rparr>))))))"

definition submit_block ::
    "prims \<Rightarrow> pow_verifier \<Rightarrow> u64 \<Rightarrow> block \<Rightarrow> node \<Rightarrow> ((consensus_error + chain_event) \<times> node) option" where
  "submit_block E pow now b n =
     (let live = nd_chain n in
      if block_by_hash E live (block_id E b) \<noteq> None then Some (Inr Known, n)
      else
        case (if bh_previous_block (blk_header b) = block_id E (chain_tip live)
              then Some (chain_append E pow now b live)
              else case assemble_candidate E (nd_storage n) live b of
                None \<Rightarrow> None
              | Some r \<Rightarrow> Some (rbind r (\<lambda>blocks. consider_chain E pow now blocks live))) of
          None \<Rightarrow> None
        | Some (Inl e) \<Rightarrow> Some (Inl e, n)
        | Some (Inr (event, candidate)) \<Rightarrow>
            (case store_side_block E now b (nd_storage n) of
               Inl e \<Rightarrow> Some (Inl (StorageInvariant (storage_message e)), n)
             | Inr db \<Rightarrow>
                 let n = n\<lparr>nd_storage := db\<rparr>
                 in case event of
                   Extended _ _ \<Rightarrow> activate_chain E now event b candidate n
                 | Reorganized _ _ _ \<Rightarrow> activate_chain E now event b candidate n
                 | _ \<Rightarrow> Some (Inr event, n)))"

section \<open>Templates, shares and candidates\<close>

definition register_template ::
    "prims \<Rightarrow> block_template \<Rightarrow> node \<Rightarrow> (consensus_error + hash32) \<times> node" where
  "register_template E t n =
     (let k = template_id E t; c = nd_chain n in
      if bt_version t \<noteq> TEMPLATE_VERSION \<or> MAX_TEMPLATE_BYTES < length (template_enc t)
      then (Inl SizeLimit, n)
      else if bt_height t \<noteq> saturating_add (chain_height c) 1 \<or> bt_parent t \<noteq> block_id E (chain_tip c)
      then (Inl InvalidWorkshareChain, n)
      else if smap_contains (wp_templates (nd_workshares n)) k then (Inr k, n)
      else case validate_template_transactions E (bt_transactions t) (ch_state c) (bt_height t) of
        Inl e \<Rightarrow> (Inl e, n)
      | Inr _ \<Rightarrow>
          (case pool_register_template E t (nd_workshares n) of
             Inl e \<Rightarrow> (Inl e, n)
           | Inr (_, p) \<Rightarrow> (Inr k, send_event (MsgInventory KindTemplate k) (n\<lparr>nd_workshares := p\<rparr>))))"

definition node_submit_workshare ::
    "prims \<Rightarrow> pow_verifier \<Rightarrow> u64 \<Rightarrow> workshare \<Rightarrow> node \<Rightarrow> (consensus_error + bool) \<times> node" where
  "node_submit_workshare E pow now share n =
     (case submit_workshare E pow now (ch_blocks (nd_chain n)) (ch_state (nd_chain n)) share
             (nd_workshares n) of
        Inl e \<Rightarrow> (Inl e, n)
      | Inr (changed, p) \<Rightarrow>
          let n = n\<lparr>nd_workshares := p\<rparr>; n = (if changed then bump_generation n else n)
          in (Inr changed, send_event (MsgInventory KindWorkshare (workshare_id E share)) n))"

record mining_candidate =
  mc_block :: block
  mc_template :: block_template
  mc_seed :: bytes
  mc_block_target :: u256
  mc_share_target :: u256
  mc_generation :: u64

text \<open>The claim of a candidate and the ledger after it.\<close>

definition candidate_claim ::
    "prims \<Rightarrow> address option \<Rightarrow> u64 \<Rightarrow> transaction list \<Rightarrow> chain \<Rightarrow> consensus_error + reward_claim \<times> ledger"
  where
  "candidate_claim E miner extranonce transactions c =
     (let height = bh_height (blk_header (chain_tip c)) + 1 in
      rbind (try_fold (\<lambda>total t. ok_or (opt_filter (\<lambda>fees. fees \<le> MAX_MONEY)
               (checked_add total (tx_fee t))) MoneyRange) 0 transactions) (\<lambda>fees.
      rbind (ok_or miner RewardMismatch) (\<lambda>finder.
      rbind (reward_allocation height finder fees (ch_blocks c)) (\<lambda>allocation.
      let claim = \<lparr>rc_version = CLAIM_VERSION, rc_height = height, rc_finder = finder,
                   rc_amount = ra_finder_amount allocation, rc_extranonce = extranonce\<rparr>
      in rbind (transition_for_candidate E height claim transactions (ch_blocks c) (ch_state c))
           (\<lambda>(post_state, _, _). Inr (claim, post_state))))))"

definition candidate_timestamp :: "u64 \<Rightarrow> chain \<Rightarrow> u64" where
  "candidate_timestamp now c =
     max (max now (bh_timestamp (blk_header (chain_tip c)) + 1)) (median_time_past (ch_blocks c) + 1)"

definition candidate_block ::
    "prims \<Rightarrow> u64 \<Rightarrow> transaction list \<Rightarrow> reward_claim \<Rightarrow> ledger \<Rightarrow> workshare_witness \<Rightarrow> chain \<Rightarrow> block" where
  "candidate_block E now transactions claim post_state witness c =
     \<lparr>blk_header =
        \<lparr>bh_version = HEADER_VERSION, bh_protocol = PROTOCOL_VERSION,
         bh_height = bh_height (blk_header (chain_tip c)) + 1,
         bh_previous_block = block_id E (chain_tip c),
         bh_transactions_root = merkle_root E (claim_id E claim # map (transaction_id E) transactions),
         bh_state_root = ledger_root post_state, bh_workshare_root = witness_root E witness,
         bh_timestamp = candidate_timestamp now c, bh_bits = next_bits (ch_blocks c), bh_nonce = 0\<rparr>,
      blk_reward_claim = Some claim, blk_transactions = transactions, blk_witness = witness\<rparr>"

definition candidate_targets ::
    "prims \<Rightarrow> u64 \<Rightarrow> u32 \<Rightarrow> block list \<Rightarrow> consensus_error + bytes \<times> u256 \<times> u256" where
  "candidate_targets E height bits blocks =
     rbind (randomx_seed E blocks height) (\<lambda>seed.
     rbind (ok_or (bits_to_target bits) InvalidTarget) (\<lambda>block_target.
     rbind (ok_or (workshare_bits bits) InvalidTarget) (\<lambda>share_bits.
     rbind (ok_or (bits_to_target share_bits) InvalidTarget) (\<lambda>share_target.
       Inr (seed, block_target, share_target)))))"

definition make_candidate ::
    "prims \<Rightarrow> u64 \<Rightarrow> u64 \<Rightarrow> node \<Rightarrow> ((consensus_error + mining_candidate) \<times> node) option" where
  "make_candidate E now extranonce n =
     (let c = nd_chain n in
      case select E (nd_mempool n) (ch_state c) MAX_BLOCK_TRANSACTIONS of
        None \<Rightarrow> None
      | Some transactions \<Rightarrow>
      (case candidate_claim E (nc_miner_address (nd_config n)) extranonce transactions c of
        Inl e \<Rightarrow> Some (Inl e, n)
      | Inr (claim, post_state) \<Rightarrow>
      (case pool_witness (nd_workshares n) of
        None \<Rightarrow> None
      | Some witness \<Rightarrow>
          let b = candidate_block E now transactions claim post_state witness c;
              height = bh_height (blk_header b);
              template = \<lparr>bt_version = TEMPLATE_VERSION, bt_height = height,
                bt_parent = block_id E (chain_tip c), bt_transactions = transactions\<rparr>;
              k = template_id E template;
              is_new = (\<not> smap_contains (wp_templates (nd_workshares n)) k)
          in case pool_register_template E template (nd_workshares n) of
            Inl e \<Rightarrow> Some (Inl e, n)
          | Inr (_, p) \<Rightarrow>
              let n = n\<lparr>nd_workshares := p\<rparr>;
                  n = (if is_new then send_event (MsgInventory KindTemplate k) n else n)
              in Some (rbind (candidate_targets E height (bh_bits (blk_header b)) (ch_blocks c))
                   (\<lambda>(seed, block_target, share_target).
                      Inr \<lparr>mc_block = b, mc_template = template, mc_seed = seed,
                           mc_block_target = block_target, mc_share_target = share_target,
                           mc_generation = nd_generation n\<rparr>), n))))"

section \<open>Peers\<close>

definition peer_connected :: "hash32 \<Rightarrow> bool \<Rightarrow> node \<Rightarrow> bool \<times> node" where
  "peer_connected peer inbound n =
     (if smap_contains (nd_peers n) peer then (False, n)
      else
        let direction_count = length (filter (\<lambda>(_, direction). direction = inbound) (nd_peers n));
            limit = (if inbound then nc_max_inbound_peers (nd_config n)
                     else nc_max_outbound_peers (nd_config n))
        in if limit \<le> direction_count then (False, n)
           else (True, n\<lparr>nd_peers := smap_insert peer inbound (nd_peers n)\<rparr>))"

definition peer_disconnected :: "hash32 \<Rightarrow> node \<Rightarrow> node" where
  "peer_disconnected peer n =
     n\<lparr>nd_peers := smap_remove peer (nd_peers n), nd_queues := smap_remove peer (nd_queues n),
       nd_pending := filter (\<lambda>(_, origin, _). origin \<noteq> peer) (nd_pending n)\<rparr>"

definition drop_queue :: "hash32 \<Rightarrow> node \<Rightarrow> node" where
  "drop_queue peer n = n\<lparr>nd_queues := smap_remove peer (nd_queues n)\<rparr>"

section \<open>Orphan shares\<close>

definition template_missing :: "workshare \<Rightarrow> node \<Rightarrow> bool" where
  "template_missing share n \<longleftrightarrow> \<not> smap_contains (wp_templates (nd_workshares n)) (ws_template_id share)"

definition previous_missing :: "workshare \<Rightarrow> node \<Rightarrow> bool" where
  "previous_missing share n \<longleftrightarrow> ws_previous share \<noteq> hash_zero
     \<and> \<not> smap_contains (wp_shares (nd_workshares n)) (ws_previous share)"

definition find_ready :: "pending_order \<Rightarrow> node \<Rightarrow> hash32 option" where
  "find_ready it n =
     map_option fst (List.find (\<lambda>(_, _, share). \<not> template_missing share n \<and> \<not> previous_missing share n)
       (it (nd_pending n)))"

text \<open>\<open>None\<close> is a loop that does not end.\<close>

partial_function (option) process_pending_workshares ::
    "prims \<Rightarrow> pow_verifier \<Rightarrow> u64 \<Rightarrow> pending_order \<Rightarrow> node \<Rightarrow> node option" where
  "process_pending_workshares E pow now it n =
     (case find_ready it n of
        None \<Rightarrow> Some n
      | Some k \<Rightarrow>
          (case smap_get (nd_pending n) k of
             None \<Rightarrow> process_pending_workshares E pow now it n
           | Some entry \<Rightarrow>
               process_pending_workshares E pow now it
                 (snd (node_submit_workshare E pow now (snd entry)
                    (n\<lparr>nd_pending := smap_remove k (nd_pending n)\<rparr>)))))"

fun first_request :: "hash32 \<Rightarrow> node \<Rightarrow> (hash32 \<times> hash32 \<times> workshare) list \<Rightarrow> wire_message option" where
  "first_request peer n [] = None"
| "first_request peer n ((k, origin, share) # r) =
     (if origin \<noteq> peer then first_request peer n r
      else if template_missing share n then Some (MsgGetData KindTemplate (ws_template_id share))
      else if previous_missing share n then Some (MsgGetData KindWorkshare (ws_previous share))
      else first_request peer n r)"

definition pending_request_for :: "pending_order \<Rightarrow> hash32 \<Rightarrow> node \<Rightarrow> wire_message option" where
  "pending_request_for it peer n = first_request peer n (it (nd_pending n))"

section \<open>Messages\<close>

definition wanted :: "prims \<Rightarrow> object_kind \<Rightarrow> hash32 \<Rightarrow> node \<Rightarrow> bool" where
  "wanted E kind k n =
     (case kind of
        KindBlock \<Rightarrow> node_block_by_hash E k n = None
      | KindTransaction \<Rightarrow> \<not> mempool_contains (nd_mempool n) k
      | KindTemplate \<Rightarrow> \<not> smap_contains (wp_templates (nd_workshares n)) k
      | KindWorkshare \<Rightarrow> \<not> smap_contains (wp_shares (nd_workshares n)) k
          \<and> \<not> smap_contains (nd_pending n) k)"

definition lookup_object :: "prims \<Rightarrow> object_kind \<Rightarrow> hash32 \<Rightarrow> node \<Rightarrow> wire_message option" where
  "lookup_object E kind k n =
     (case kind of
        KindBlock \<Rightarrow> map_option MsgBlock (node_block_by_hash E k n)
      | KindTransaction \<Rightarrow> map_option MsgTransaction (mempool_get (nd_mempool n) k)
      | KindTemplate \<Rightarrow> map_option MsgTemplate (smap_get (wp_templates (nd_workshares n)) k)
      | KindWorkshare \<Rightarrow> map_option MsgWorkshare (smap_get (wp_shares (nd_workshares n)) k))"

definition serve_headers :: "prims \<Rightarrow> hash32 list \<Rightarrow> hash32 \<Rightarrow> chain \<Rightarrow> block_header list" where
  "serve_headers E locator stop c =
     (let start = (case List.find (\<lambda>h. block_by_hash E c h \<noteq> None) locator of
            None \<Rightarrow> 0
          | Some h \<Rightarrow> (case block_by_hash E c h of
              Some b \<Rightarrow> bh_height (blk_header b) + 1 | None \<Rightarrow> 0))
      in map blk_header (takeWhile (\<lambda>b. stop = hash_zero \<or> block_id E b \<noteq> stop)
           (take MAX_HEADERS (drop (unat start) (ch_blocks c)))))"

text \<open>The loop over announced headers: the queue of unknown blocks, or \<open>None\<close> when the list is refused.
  \<open>expected\<close> is the id and the height the next header must build on.\<close>

fun queue_headers ::
    "prims \<Rightarrow> node \<Rightarrow> (hash32 \<times> u64) option \<Rightarrow> block_header list \<Rightarrow> hash32 list option" where
  "queue_headers E n expected [] = Some []"
| "queue_headers E n expected (h # r) =
     (if bh_version h \<noteq> HEADER_VERSION \<or> bh_protocol h \<noteq> PROTOCOL_VERSION then None
      else if (case expected of
            Some (parent, height) \<Rightarrow> bh_previous_block h \<noteq> parent \<or> bh_height h \<noteq> height
          | None \<Rightarrow> (case node_block_by_hash E (bh_previous_block h) n of
              None \<Rightarrow> True
            | Some parent \<Rightarrow> bh_height h \<noteq> saturating_add (bh_height (blk_header parent)) 1))
      then None
      else
        let k = header_id E h in
        case queue_headers E n (Some (k, saturating_add (bh_height h) 1)) r of
          None \<Rightarrow> None
        | Some q \<Rightarrow> Some (if node_block_by_hash E k n = None then k # q else q))"

definition handle_block ::
    "prims \<Rightarrow> pow_verifier \<Rightarrow> u64 \<Rightarrow> hash32 \<Rightarrow> block \<Rightarrow> node \<Rightarrow> (wire_message option \<times> node) option" where
  "handle_block E pow now peer b n =
     (case submit_block E pow now b n of
        None \<Rightarrow> None
      | Some (Inl _, n) \<Rightarrow> Some (None, drop_queue peer n)
      | Some (Inr _, n) \<Rightarrow>
          (case smap_get (nd_queues n) peer of
             None \<Rightarrow> Some (None, n)
           | Some [] \<Rightarrow> Some (None, drop_queue peer n)
           | Some (front # queue) \<Rightarrow>
               if front \<noteq> block_id E b then Some (None, drop_queue peer n)
               else (case queue of
                   next_id # _ \<Rightarrow>
                     Some (Some (MsgGetData KindBlock next_id),
                           n\<lparr>nd_queues := smap_insert peer queue (nd_queues n)\<rparr>)
                 | [] \<Rightarrow>
                     (case block_locator E (nd_chain n) of
                        None \<Rightarrow> None
                      | Some locator \<Rightarrow>
                          Some (Some (MsgGetHeaders locator hash_zero), drop_queue peer n)))))"

definition handle_share ::
    "prims \<Rightarrow> pow_verifier \<Rightarrow> u64 \<Rightarrow> pending_order \<Rightarrow> hash32 \<Rightarrow> workshare \<Rightarrow> node
     \<Rightarrow> (wire_message option \<times> node) option" where
  "handle_share E pow now it peer share n =
     (if template_missing share n \<or> previous_missing share n
      then
        let k = workshare_id E share;
            n = (if length (nd_pending n) < MAX_PENDING_WORKSHARES \<and> \<not> smap_contains (nd_pending n) k
                 then n\<lparr>nd_pending := smap_insert k (peer, share) (nd_pending n)\<rparr> else n)
        in Some (pending_request_for it peer n, n)
      else
        (case process_pending_workshares E pow now it (snd (node_submit_workshare E pow now share n)) of
           None \<Rightarrow> None
         | Some n \<Rightarrow> Some (pending_request_for it peer n, n)))"

definition handle_template ::
    "prims \<Rightarrow> pow_verifier \<Rightarrow> u64 \<Rightarrow> pending_order \<Rightarrow> hash32 \<Rightarrow> block_template \<Rightarrow> node
     \<Rightarrow> (wire_message option \<times> node) option" where
  "handle_template E pow now it peer t n =
     (case register_template E t n of
        (Inl _, n) \<Rightarrow> Some (pending_request_for it peer n, n)
      | (Inr _, n) \<Rightarrow>
          (case process_pending_workshares E pow now it n of
             None \<Rightarrow> None
           | Some n \<Rightarrow> Some (pending_request_for it peer n, n)))"

definition handle_headers ::
    "prims \<Rightarrow> hash32 \<Rightarrow> block_header list \<Rightarrow> node \<Rightarrow> wire_message option \<times> node" where
  "handle_headers E peer headers n =
     (if headers = [] \<or> MAX_HEADERS < length headers then (None, drop_queue peer n)
      else case queue_headers E n None headers of
        None \<Rightarrow> (None, drop_queue peer n)
      | Some [] \<Rightarrow> (None, n)
      | Some (k # q) \<Rightarrow> (Some (MsgGetData KindBlock k),
            n\<lparr>nd_queues := smap_insert peer (k # q) (nd_queues n)\<rparr>))"

definition handle_wire ::
    "prims \<Rightarrow> pow_verifier \<Rightarrow> u64 \<Rightarrow> pending_order \<Rightarrow> hash32 \<Rightarrow> wire_message \<Rightarrow> node
     \<Rightarrow> (wire_message option \<times> node) option" where
  "handle_wire E pow now it peer message n =
     (case message of
        MsgHello _ \<Rightarrow> Some (None, n)
      | MsgPong _ \<Rightarrow> Some (None, n)
      | MsgPeers _ \<Rightarrow> Some (None, n)
      | MsgPing nonce \<Rightarrow> Some (Some (MsgPong nonce), n)
      | MsgInventory kind k \<Rightarrow> Some (if wanted E kind k n then Some (MsgGetData kind k) else None, n)
      | MsgGetData kind k \<Rightarrow> Some (lookup_object E kind k n, n)
      | MsgBlock b \<Rightarrow> handle_block E pow now peer b n
      | MsgTransaction t \<Rightarrow>
          (case submit_transaction E now t n of None \<Rightarrow> None | Some (_, n) \<Rightarrow> Some (None, n))
      | MsgTemplate t \<Rightarrow> handle_template E pow now it peer t n
      | MsgWorkshare share \<Rightarrow> handle_share E pow now it peer share n
      | MsgGetHeaders locator stop \<Rightarrow> Some (Some (MsgHeaders (serve_headers E locator stop (nd_chain n))), n)
      | MsgHeaders headers \<Rightarrow> Some (handle_headers E peer headers n))"

section \<open>Views\<close>

text \<open>The supply a height has, by eras.\<close>

function scheduled_supply_loop :: "u64 \<Rightarrow> u64 \<Rightarrow> u64 \<Rightarrow> u64" where
  "scheduled_supply_loop remaining subsidy acc =
     (if remaining = 0 then acc
      else let span = min remaining HALVING_INTERVAL in
        scheduled_supply_loop (remaining - span) (max (subsidy div 2) MIN_SUBSIDY)
          (saturating_add acc (saturating_mul span subsidy)))"
  by pat_completeness auto
termination
proof (relation "measure (\<lambda>(remaining, _). unat remaining)")
  fix remaining span :: u64
  assume "remaining \<noteq> 0" "span = min remaining HALVING_INTERVAL"
  then have "span \<le> remaining" "span \<noteq> 0" by (auto simp: HALVING_INTERVAL_def min_def)
  then have "unat (remaining - span) = unat remaining - unat span" "0 < unat span" "unat span \<le> unat remaining"
    by (simp_all add: unat_sub_exact word_le_nat_alt unat_gt_0)
  then show "((remaining - span, x, y), remaining, x', y') \<in> measure (\<lambda>(remaining, _). unat remaining)"
    for x y x' y' by simp
qed simp

declare scheduled_supply_loop.simps [simp del]

definition scheduled_supply :: "u64 \<Rightarrow> u64" where
  "scheduled_supply height = scheduled_supply_loop height INITIAL_SUBSIDY 0"

text \<open>Pending transfers of an account: what it receives, what it spends and its next nonce.\<close>

definition account_view ::
    "prims \<Rightarrow> address \<Rightarrow> node \<Rightarrow> (account \<times> u64 \<times> u64 \<times> u64 \<times> u64) option" where
  "account_view E a n =
     (let s = ch_state (nd_chain n); account = ledger_account s a in
      case select E (nd_mempool n) s MAX_BLOCK_TRANSACTIONS of
        None \<Rightarrow> None
      | Some selected \<Rightarrow>
          let (pending_in, pending_out, next_nonce) = fold (\<lambda>t (i, x, next_nonce).
                 (if tx_recipient t = a then saturating_add i (tx_amount t) else i,
                  if tx_sender t = a then saturating_add (saturating_add x (tx_amount t)) (tx_fee t) else x,
                  if tx_sender t = a then max next_nonce (saturating_add (tx_nonce t) 1) else next_nonce))
               selected (0, 0, ac_nonce account)
          in Some (account, pending_for s a, pending_in, pending_out, next_nonce))"

text \<open>What an account has ever been credited in rewards; the sums are \<open>u128\<close> in the code and do not
  overflow below a chain of 2^63 transactions.\<close>

definition mining_rewards :: "address \<Rightarrow> chain \<Rightarrow> u64 \<times> u64" where
  "mining_rewards a c =
     (let s = ch_state c; pending = pending_for s a;
          credited = unat (ac_balance (ledger_account s a)) + unat pending
            + sum_list (map (\<lambda>t. unat (tx_amount t) + unat (tx_fee t))
                (filter (\<lambda>t. tx_sender t = a) (chain_transactions (ch_blocks c))));
          received = sum_list (map (\<lambda>t. unat (tx_amount t))
                (filter (\<lambda>t. tx_recipient t = a) (chain_transactions (ch_blocks c))))
      in (if credited - received < 2 ^ 64 then word_of_nat (credited - received) else - 1, pending))"

end
