(* ===== verification/Mining.thy ===== *)
theory Mining
  imports Node_State
begin

text \<open>
  What the miner of \<open>src/miner.rs\<close> makes of a candidate of the node: the block and the share for a nonce,
  and what the consensus rules say to them.
\<close>

section \<open>Mined objects\<close>

definition mined_block :: "mining_candidate \<Rightarrow> u64 \<Rightarrow> block" where
  "mined_block mc nonce =
     (mc_block mc)\<lparr>blk_header := (blk_header (mc_block mc))\<lparr>bh_nonce := nonce\<rparr>\<rparr>"

text \<open>\<open>None\<close> is the panic of a candidate without a claim.\<close>

definition mined_share :: "prims \<Rightarrow> mining_candidate \<Rightarrow> u64 \<Rightarrow> u64 \<Rightarrow> workshare option" where
  "mined_share E mc extranonce nonce =
     (let shares = ww_workshares (blk_witness (mc_block mc));
          previous_workshare = (if shares = [] then hash_zero else workshare_id E (last shares))
      in case blk_reward_claim (mc_block mc) of
        None \<Rightarrow> None
      | Some claim \<Rightarrow>
          Some \<lparr>ws_version = SHARE_VERSION, ws_previous = previous_workshare,
                ws_template_id = template_id E (mc_template mc), ws_miner = rc_finder claim,
                ws_extranonce = extranonce,
                ws_candidate_header = (blk_header (mc_block mc))\<lparr>bh_nonce := nonce\<rparr>\<rparr>)"

datatype mining_result = MinedBlock block | MinedShare workshare | MinedNothing

text \<open>The decision of the mining loop for one hash.\<close>

definition mine_step :: "prims \<Rightarrow> mining_candidate \<Rightarrow> u64 \<Rightarrow> u64 \<Rightarrow> hash32 \<Rightarrow> mining_result option" where
  "mine_step E mc extranonce nonce hash =
     (if from_le_bytes (array_bytes hash) \<le> mc_block_target mc then Some (MinedBlock (mined_block mc nonce))
      else if from_le_bytes (array_bytes hash) \<le> mc_share_target mc
      then map_option MinedShare (mined_share E mc extranonce nonce)
      else Some MinedNothing)"

section \<open>Candidates\<close>

lemma make_candidate_InrE:
  assumes "make_candidate E now extranonce n = Some (Inr mc, n')"
  obtains transactions claim post_state witness p k where
    "select E (nd_mempool n) (ch_state (nd_chain n)) MAX_BLOCK_TRANSACTIONS = Some transactions"
    "candidate_claim E (nc_miner_address (nd_config n)) extranonce transactions (nd_chain n)
      = Inr (claim, post_state)"
    "pool_witness (nd_workshares n) = Some witness"
    "mc_block mc = candidate_block E now transactions claim post_state witness (nd_chain n)"
    "mc_template mc = \<lparr>bt_version = TEMPLATE_VERSION, bt_height = bh_height (blk_header (mc_block mc)),
       bt_parent = block_id E (chain_tip (nd_chain n)), bt_transactions = transactions\<rparr>"
    "pool_register_template E (mc_template mc) (nd_workshares n) = Inr (k, p)"
    "nd_workshares n' = p" "nd_chain n' = nd_chain n"
    "candidate_targets E (bh_height (blk_header (mc_block mc))) (bh_bits (blk_header (mc_block mc)))
       (ch_blocks (nd_chain n)) = Inr (mc_seed mc, mc_block_target mc, mc_share_target mc)"
proof -
  obtain transactions where t: "select E (nd_mempool n) (ch_state (nd_chain n)) MAX_BLOCK_TRANSACTIONS
      = Some transactions"
    using assms by (auto simp: make_candidate_def Let_def split: option.splits)
  obtain claim post_state where c: "candidate_claim E (nc_miner_address (nd_config n)) extranonce
      transactions (nd_chain n) = Inr (claim, post_state)"
    using assms t by (auto simp: make_candidate_def Let_def split: sum.splits)
  obtain witness where w: "pool_witness (nd_workshares n) = Some witness"
    using assms t c by (auto simp: make_candidate_def Let_def split: option.splits)
  let ?b = "candidate_block E now transactions claim post_state witness (nd_chain n)"
  let ?t = "\<lparr>bt_version = TEMPLATE_VERSION, bt_height = bh_height (blk_header ?b),
       bt_parent = block_id E (chain_tip (nd_chain n)), bt_transactions = transactions\<rparr>"
  obtain k p where r: "pool_register_template E ?t (nd_workshares n) = Inr (k, p)"
    using assms t c w by (auto simp: make_candidate_def Let_def split: sum.splits)
  obtain seed bt st where ct: "candidate_targets E (bh_height (blk_header ?b)) (bh_bits (blk_header ?b))
      (ch_blocks (nd_chain n)) = Inr (seed, bt, st)"
    using assms t c w r
    by (cases "candidate_targets E (bh_height (blk_header ?b)) (bh_bits (blk_header ?b)) (ch_blocks (nd_chain n))")
      (auto simp: make_candidate_def Let_def)
  show thesis
    by (rule that [OF t c w])
      (use assms t c w r ct in \<open>auto simp: make_candidate_def Let_def send_event_def rbind_def split: if_splits\<close>)
qed

lemma candidate_claim_Inr:
  assumes "candidate_claim E miner extranonce transactions c = Inr (claim, post_state)"
  obtains finder alloc fees where "miner = Some finder" "rc_finder claim = finder"
    "rc_version claim = CLAIM_VERSION" "rc_height claim = bh_height (blk_header (chain_tip c)) + 1"
    "rc_extranonce claim = extranonce"
    "transition_for_candidate E (bh_height (blk_header (chain_tip c)) + 1) claim transactions (ch_blocks c)
       (ch_state c) = Inr (post_state, alloc, fees)"
    "rc_amount claim = ra_finder_amount alloc"
proof -
  let ?h = "bh_height (blk_header (chain_tip c)) + 1"
  let ?c = "\<lambda>finder alloc. \<lparr>rc_version = CLAIM_VERSION, rc_height = ?h, rc_finder = finder,
        rc_amount = ra_finder_amount alloc, rc_extranonce = extranonce\<rparr>"
  note unf = candidate_claim_def Let_def
  obtain fees0 where f: "try_fold (\<lambda>total t. ok_or (opt_filter (\<lambda>fees. fees \<le> MAX_MONEY)
               (checked_add total (tx_fee t))) MoneyRange) 0 transactions = Inr fees0"
    using assms unfolding unf rbind_Inr by blast
  obtain finder where m: "miner = Some finder"
    using assms f by (cases miner) (simp_all add: unf)
  obtain alloc' where al: "reward_allocation ?h finder fees0 (ch_blocks c) = Inr alloc'"
    using assms f m by (cases "reward_allocation ?h finder fees0 (ch_blocks c)") (simp_all add: unf)
  obtain post alloc fees where t0: "transition_for_candidate E ?h (?c finder alloc') transactions
      (ch_blocks c) (ch_state c) = Inr (post, alloc, fees)"
    using assms f m al
    by (cases "transition_for_candidate E ?h (?c finder alloc') transactions (ch_blocks c) (ch_state c)")
      (auto simp: unf)
  have cl: "claim = ?c finder alloc'" and post: "post = post_state"
    using assms f m al t0 by (simp_all add: unf)
  have t: "transition_for_candidate E ?h claim transactions (ch_blocks c) (ch_state c)
      = Inr (post_state, alloc, fees)" using t0 cl post by simp
  have "rc_amount claim = ra_finder_amount alloc" by (rule transition_InrE [OF t])
  then show thesis using m cl t by (intro that [of finder alloc fees]) simp_all
qed

section \<open>Mined blocks\<close>

lemma candidate_timestamp_bounds:
  assumes "time_of (chain_tip c) + 1 < 2 ^ 64" and "median_time_past (ch_blocks c) \<le> bh_timestamp (blk_header (chain_tip c))"
  shows "bh_timestamp (blk_header (chain_tip c)) < candidate_timestamp now c"
    "median_time_past (ch_blocks c) < candidate_timestamp now c" "now \<le> candidate_timestamp now c"
proof -
  let ?p = "bh_timestamp (blk_header (chain_tip c))"
  have "unat (?p + 1) = unat ?p + 1" using assms(1) unat_add_exact [of ?p 1] by (simp add: time_of_def)
  then have "?p < ?p + 1" by (simp add: word_less_nat_alt)
  moreover have "?p + 1 \<le> candidate_timestamp now c"
    unfolding candidate_timestamp_def by (simp add: le_max_iff_disj)
  ultimately show p: "?p < candidate_timestamp now c" by simp
  show "median_time_past (ch_blocks c) < candidate_timestamp now c" using assms(2) p by simp
  show "now \<le> candidate_timestamp now c" by (simp add: candidate_timestamp_def le_max_iff_disj)
qed

lemma chain_ok_tip:
  assumes ok: "chain_ok E pow c" and len: "length (ch_blocks c) < 2 ^ 64"
  shows "ch_blocks c \<noteq> []" "height_of (chain_tip c) = length (ch_blocks c) - 1"
    "unat (bh_height (blk_header (chain_tip c)) + 1) = length (ch_blocks c)"
    "bh_height (blk_header (chain_tip c)) + 1 \<noteq> 0"
proof -
  have inv: "history_inv E (ch_blocks c) (ch_state c)"
    using ok unfolding chain_ok_def by (blast intro: valid_history_inv)
  show ne: "ch_blocks c \<noteq> []" using inv by (simp add: history_inv_def)
  show h: "height_of (chain_tip c) = length (ch_blocks c) - 1"
    using inv ne by (simp add: history_inv_def chain_tip_def last_conv_nth)
  have "unat (bh_height (blk_header (chain_tip c))) + 1 = length (ch_blocks c)"
    using h ne by (simp add: height_of_def Suc_leI)
  then show u: "unat (bh_height (blk_header (chain_tip c)) + 1) = length (ch_blocks c)"
    using len unat_add_exact [of "bh_height (blk_header (chain_tip c))" 1] by simp
  show "bh_height (blk_header (chain_tip c)) + 1 \<noteq> 0" using u ne by auto
qed

lemma mined_block_simps [simp]:
  "blk_reward_claim (mined_block mc nonce) = blk_reward_claim (mc_block mc)"
  "blk_transactions (mined_block mc nonce) = blk_transactions (mc_block mc)"
  "blk_witness (mined_block mc nonce) = blk_witness (mc_block mc)"
  "blk_header (mined_block mc nonce) = (blk_header (mc_block mc))\<lparr>bh_nonce := nonce\<rparr>"
  by (simp_all add: mined_block_def)

lemma candidate_block_simps [simp]:
  "blk_reward_claim (candidate_block E now ts claim post wit c) = Some claim"
  "blk_transactions (candidate_block E now ts claim post wit c) = ts"
  "blk_witness (candidate_block E now ts claim post wit c) = wit"
  by (simp_all add: candidate_block_def)

lemma chain_ok_inv: "chain_ok E pow c \<Longrightarrow> history_inv E (ch_blocks c) (ch_state c)"
  unfolding chain_ok_def by (blast intro: valid_history_inv)

lemma median_le_tip:
  assumes "chain_ok E pow c"
  shows "median_time_past (ch_blocks c) \<le> bh_timestamp (blk_header (chain_tip c))"
  using chain_ok_inv [OF assms] unfolding history_inv_def chain_tip_def
  by (blast intro: median_time_past_le)

lemma candidate_targets_Inr:
  "candidate_targets E h bits blocks = Inr (seed, bt, st) \<longleftrightarrow> randomx_seed E blocks h = Inr seed
     \<and> bits_to_target bits = Some bt
     \<and> (\<exists>sb. workshare_bits bits = Some sb \<and> bits_to_target sb = Some st)"
  by (auto simp: candidate_targets_def result_simps)

text \<open>Once its nonce is found, a candidate is a valid block.\<close>

lemma mined_block_valid:
  assumes ok: "chain_ok E pow (nd_chain n)" and len: "length (ch_blocks (nd_chain n)) < 2 ^ 64"
    and live: "live_pool E pow (ch_blocks (nd_chain n)) (ch_state (nd_chain n)) (nd_workshares n)"
    and mk: "make_candidate E now extranonce n = Some (Inr mc, n')"
    and few: "length (blk_transactions (mc_block mc)) \<le> MAX_BLOCK_TRANSACTIONS"
    and size: "length (block_enc (mined_block mc nonce)) \<le> MAX_BLOCK_BYTES"
      "length (witness_enc (blk_witness (mc_block mc))) \<le> MAX_WORKSHARE_WITNESS_BYTES"
    and times: "time_of (chain_tip (nd_chain n)) + 1 < 2 ^ 64"
      "time_of (mc_block mc) \<le> unat now' + 300"
      "\<forall>x \<in> set (ww_workshares (blk_witness (mc_block mc))).
         bh_timestamp (ws_candidate_header x) \<le> bh_timestamp (blk_header (mc_block mc))"
    and pow: "pow (mc_seed mc) (header_enc (blk_header (mined_block mc nonce))) = Inr hash"
      "hash_meets_target hash (mc_block_target mc)"
  shows "\<exists>s'. validate_block E pow now' (mined_block mc nonce) (ch_blocks (nd_chain n))
      (ch_state (nd_chain n)) = Inr s'"
proof -
  let ?c = "nd_chain n"
  obtain transactions claim post witness p k where
    cl: "candidate_claim E (nc_miner_address (nd_config n)) extranonce transactions ?c = Inr (claim, post)"
    and wit: "pool_witness (nd_workshares n) = Some witness"
    and b: "mc_block mc = candidate_block E now transactions claim post witness ?c"
    and ct: "candidate_targets E (bh_height (blk_header (mc_block mc))) (bh_bits (blk_header (mc_block mc)))
       (ch_blocks ?c) = Inr (mc_seed mc, mc_block_target mc, mc_share_target mc)"
    by (rule make_candidate_InrE [OF mk]) blast
  obtain finder alloc fees where claim: "rc_version claim = CLAIM_VERSION"
    "rc_height claim = bh_height (blk_header (chain_tip ?c)) + 1"
    "transition_for_candidate E (bh_height (blk_header (chain_tip ?c)) + 1) claim transactions (ch_blocks ?c)
       (ch_state ?c) = Inr (post, alloc, fees)" "rc_amount claim = ra_finder_amount alloc"
    by (rule candidate_claim_Inr [OF cl]) blast
  let ?h = "blk_header (mined_block mc nonce)"
  have h: "bh_version ?h = HEADER_VERSION" "bh_protocol ?h = PROTOCOL_VERSION"
    "bh_height ?h = bh_height (blk_header (chain_tip ?c)) + 1"
    "bh_previous_block ?h = block_id E (chain_tip ?c)" "bh_bits ?h = next_bits (ch_blocks ?c)"
    "bh_timestamp ?h = candidate_timestamp now ?c" "bh_state_root ?h = ledger_root post"
    "bh_workshare_root ?h = witness_root E witness"
    "bh_transactions_root ?h = merkle_root E (claim_id E claim # map (transaction_id E) transactions)"
    by (simp_all add: b) (simp_all add: candidate_block_def)
  note tip = chain_ok_tip [OF ok len]
  obtain t where t: "bits_to_target (next_bits (ch_blocks ?c)) = Some t" "t \<le> pow_limit"
    by (rule next_bits_decodes)
  have hc: "validate_header_context E ?h (last (ch_blocks ?c)) (ch_blocks ?c) now' = Inr ()"
    using candidate_timestamp_bounds [OF times(1) median_le_tip [OF ok], of now] t times(2) h(6)
    by (simp add: header_context_Inr h(1-5) h(6) flip: chain_tip_def)
      (simp add: time_of_def b candidate_block_def)
  have shape: "validate_witness_shape E witness = Inr ()"
    using live_pool_witness(5) [OF live wit] size(2) by (simp add: b)
  have shares: "validate_workshares E pow witness (ch_blocks ?c) (ch_state ?c) (bh_timestamp ?h) = Inr ()"
    using live_pool_witness(6) [OF live wit] times(3) by (simp add: b)
  have seed: "randomx_seed E (ch_blocks ?c) (bh_height ?h) = Inr (mc_seed mc)"
    "bits_to_target (bh_bits ?h) = Some (mc_block_target mc)"
    using ct by (simp_all add: candidate_targets_Inr)
  have parts: "blk_reward_claim (mined_block mc nonce) = Some claim"
    "blk_transactions (mined_block mc nonce) = transactions" "blk_witness (mined_block mc nonce) = witness"
    by (simp_all add: b)
  have root: "block_transaction_root E (mined_block mc nonce) = bh_transactions_root ?h"
    unfolding block_transaction_root_def parts h(9) by simp
  have powok: "verify_pow E pow (mc_seed mc) ?h (mc_block_target mc) = Inr ()"
    using pow by (simp add: verify_pow_def)
  have z: "bh_height ?h \<noteq> 0" using tip(4) h(3) by simp
  have hm: "bh_height (blk_header (mc_block mc)) = bh_height (blk_header (chain_tip ?c)) + 1"
    by (simp add: b candidate_block_def)
  have n: "length transactions \<le> MAX_BLOCK_TRANSACTIONS" using few by (simp add: b)
  show ?thesis
    unfolding validate_block_def Let_def if_not_P [OF z] parts
    using tip(1) hc size(1) n root shape seed powok claim shares h(7,8)
    by (simp add: hm result_simps not_less)
qed

text \<open>A share from the future spoils every block built on it until that time has come.\<close>

lemma future_share_spoils:
  assumes "make_candidate E now extranonce n = Some (Inr mc, n')"
    and "chain_ok E pow (nd_chain n)" and "length (ch_blocks (nd_chain n)) < 2 ^ 64"
    and "x \<in> set (ww_workshares (blk_witness (mc_block mc)))"
    and "bh_timestamp (blk_header (mc_block mc)) < bh_timestamp (ws_candidate_header x)"
  shows "validate_block E pow now' (mined_block mc nonce) (ch_blocks (nd_chain n)) (ch_state (nd_chain n))
    \<noteq> Inr s'"
proof
  assume v: "validate_block E pow now' (mined_block mc nonce) (ch_blocks (nd_chain n)) (ch_state (nd_chain n))
    = Inr s'"
  have "bh_height (blk_header (mc_block mc)) = bh_height (blk_header (chain_tip (nd_chain n))) + 1"
    by (rule make_candidate_InrE [OF assms(1)]) (simp add: candidate_block_def)
  then have "bh_height (blk_header (mined_block mc nonce)) \<noteq> 0"
    using chain_ok_tip(4) [OF assms(2,3)] by simp
  from validate_block_InrE [OF v this]
  have "validate_workshares E pow (blk_witness (mined_block mc nonce)) (ch_blocks (nd_chain n))
      (ch_state (nd_chain n)) (bh_timestamp (blk_header (mined_block mc nonce))) = Inr ()" by metis
  from validate_workshares_times [OF this] assms(4,5) show False by fastforce
qed

text \<open>A pool that is full of templates, which cost nothing to make, stops mining.\<close>

lemma full_pool_refuses:
  assumes "MAX_TEMPLATES_PER_BLOCK \<le> length (wp_templates p)"
    and "\<not> smap_contains (wp_templates p) (template_id E t)"
  shows "\<exists>e. pool_register_template E t p = Inl e"
  using assms by (auto simp: pool_register_template_def Let_def smap_contains_def)

section \<open>A node that mines\<close>

definition sample_config :: node_config where
  "sample_config = \<lparr>nc_miner_address = Some sample_alice, nc_max_inbound_peers = 8,
     nc_max_outbound_peers = 8\<rparr>"

definition sample_genesis_chain :: "u256 \<Rightarrow> chain" where
  "sample_genesis_chain w = \<lparr>ch_blocks = [genesis sample_env], ch_state = ledger_default sample_env,
     ch_work = w\<rparr>"

definition sample_node :: "storage \<Rightarrow> u256 \<Rightarrow> share_pool \<Rightarrow> node" where
  "sample_node db w p = (node_open sample_config sample_env (sample_genesis_chain w) db)
     \<lparr>nd_workshares := p\<rparr>"

lemma sample_node_simps [simp]:
  "nd_config (sample_node db w p) = sample_config" "nd_chain (sample_node db w p) = sample_genesis_chain w"
  "nd_workshares (sample_node db w p) = p" "nd_mempool (sample_node db w p) = mempool_new relay_policy_default"
  "nd_storage (sample_node db w p) = db" "nd_pending (sample_node db w p) = []"
  "nd_queues (sample_node db w p) = []"
  by (simp_all add: sample_node_def node_open_def)

lemma sample_genesis_chain_simps [simp]:
  "ch_blocks (sample_genesis_chain w) = [genesis sample_env]"
  "ch_state (sample_genesis_chain w) = ledger_default sample_env"
  "chain_tip (sample_genesis_chain w) = genesis sample_env"
  by (simp_all add: sample_genesis_chain_def chain_tip_def)

lemma sample_genesis_chain_ok:
  obtains w where "chain_ok sample_env pow (sample_genesis_chain w)"
proof -
  obtain w where "chain_genesis sample_env = Some \<lparr>ch_blocks = [genesis sample_env],
      ch_state = ledger_default sample_env, ch_work = w\<rparr>"
    by (rule chain_genesis_Some)
  from chain_genesis_ok [OF this] show thesis by (intro that [of w]) (simp add: sample_genesis_chain_def)
qed

lemma sample_selects: "select E (mempool_new policy) s k = Some []"
  unfolding select_def by (subst select_loop.simps) (simp add: mempool_new_def sort_by_def)

lemma sample_candidate_claim:
  "candidate_claim sample_env (Some sample_alice) 0 [] (sample_genesis_chain w)
    = Inr (sample_claim sample_alice, sample_state sample_alice)"
proof -
  have c: "\<lparr>rc_version = CLAIM_VERSION, rc_height = 1, rc_finder = sample_alice,
      rc_amount = 1000000000, rc_extranonce = 0\<rparr> = sample_claim sample_alice"
    by (simp add: sample_claim_def)
  show ?thesis
    by (simp add: candidate_claim_def Let_def sample_allocation c sample_transition rbind_def ok_or_def)
qed

lemma sample_candidate_of:
  assumes wit: "pool_witness p = Some wit" and reg: "pool_register_template sample_env sample_template p = Inr (k, p')"
  obtains mc n' where "make_candidate sample_env now 0 (sample_node db w p) = Some (Inr mc, n')"
    "mc_block mc = candidate_block sample_env now [] (sample_claim sample_alice) (sample_state sample_alice)
       wit (sample_genesis_chain w)"
    "mc_seed mc = RANDOMX_BOOTSTRAP_SEED" "mc_block_target mc = sample_target"
    "mc_template mc = sample_template" "mc_share_target mc = sample_share_target" "nd_workshares n' = p'"
proof -
  let ?b = "candidate_block sample_env now [] (sample_claim sample_alice) (sample_state sample_alice)
       wit (sample_genesis_chain w)"
  have h: "bh_height (blk_header ?b) = 1" "bh_bits (blk_header ?b) = 0x1f03ffff"
    by (simp_all add: candidate_block_def genesis_bits)
  have t: "\<lparr>bt_version = TEMPLATE_VERSION, bt_height = 1,
       bt_parent = block_id sample_env (genesis sample_env), bt_transactions = []\<rparr> = sample_template"
    by (simp add: sample_template_def)
  have ct: "candidate_targets sample_env 1 0x1f03ffff [genesis sample_env]
      = Inr (RANDOMX_BOOTSTRAP_SEED, sample_target, sample_share_target)"
    using sample_seed by (simp add: candidate_targets_def sample_targets ok_or_def rbind_def)
  let ?n = "(sample_node db w p)\<lparr>nd_workshares := p'\<rparr>"
  let ?n' = "if \<not> smap_contains (wp_templates p) (template_id sample_env sample_template)
    then send_event (MsgInventory KindTemplate (template_id sample_env sample_template)) ?n else ?n"
  have g: "nd_generation ?n' = 0" "nd_workshares ?n' = p'"
    by (simp_all add: send_event_def) (simp add: sample_node_def node_open_def)
  show thesis
    by (rule that [of "\<lparr>mc_block = ?b, mc_template = sample_template, mc_seed = RANDOMX_BOOTSTRAP_SEED,
          mc_block_target = sample_target, mc_share_target = sample_share_target, mc_generation = 0\<rparr>" ?n'])
      (use g in \<open>simp_all add: make_candidate_def Let_def sample_selects sample_config_def sample_candidate_claim
        wit h t reg ct split del: if_split cong: if_cong\<close>)
qed

lemma sample_candidate:
  assumes "GENESIS_TIMESTAMP < now"
  obtains mc n' where "make_candidate sample_env now 0 (sample_node db w sample_live_pool) = Some (Inr mc, n')"
    "mc_block mc = candidate_block sample_env now [] (sample_claim sample_alice) (sample_state sample_alice)
       sample_witness (sample_genesis_chain w)"
    "mc_seed mc = RANDOMX_BOOTSTRAP_SEED" "mc_block_target mc = sample_target"
    "mc_template mc = sample_template" "mc_share_target mc = sample_share_target"
proof -
  have r: "pool_register_template sample_env sample_template sample_live_pool
      = Inr (template_id sample_env sample_template, sample_live_pool)"
  proof -
    have "bt_parent sample_template = wp_anchor sample_live_pool" "bt_version sample_template = TEMPLATE_VERSION"
      by (simp_all add: sample_template_def sample_live_pool_def)
    then show ?thesis
      by (simp add: pool_register_template_def Let_def sample_template_size)
        (simp add: sample_live_pool_def sample_templates_def limit_defs)
  qed
  show thesis by (rule sample_candidate_of [OF sample_live(2) r]) (rule that)
qed

end
