(* ===== verification/Node_Invariant.thy ===== *)
theory Node_Invariant
  imports Mining
begin

text \<open>
  The invariant of a node and its preservation by every operation: the chain is a chain of valid blocks,
  the database holds it, the pools are consistent with it and the tables about peers are within their
  limits.  The operations return on every state that satisfies the invariant.
\<close>

section \<open>Candidate chains\<close>

text \<open>Only the genesis block itself passes validation at height 0.\<close>

lemma validate_from_heights:
  assumes "validate_from E pow now before s bs = Inr s'" and "b \<in> set bs" "bh_height (blk_header b) = 0"
  shows "b = genesis E"
  using assms
proof (induction bs arbitrary: before s)
  case (Cons x bs)
  obtain s1 where s1: "validate_block E pow now x before s = Inr s1"
    "validate_from E pow now (before @ [x]) s1 bs = Inr s'"
    using Cons.prems(1) by (auto simp: result_simps)
  show ?case
  proof (cases "b = x")
    case True
    then show ?thesis using s1(1) Cons.prems(3) by (simp add: validate_block_height_0)
  next
    case False
    then show ?thesis using Cons.IH [OF s1(2)] Cons.prems by simp
  qed
qed simp

lemma validate_from_sizes:
  assumes "validate_from E pow now before s bs = Inr s'" and "b \<in> set bs" "b \<noteq> genesis E"
  shows "length (block_enc b) \<le> MAX_BLOCK_BYTES"
  using assms
proof (induction bs arbitrary: before s)
  case (Cons x bs)
  obtain s1 where s1: "validate_block E pow now x before s = Inr s1"
    "validate_from E pow now (before @ [x]) s1 bs = Inr s'"
    using Cons.prems(1) by (auto simp: result_simps)
  show ?case
  proof (cases "b = x")
    case True
    have "bh_height (blk_header x) \<noteq> 0"
      using s1(1) Cons.prems(3) True by (auto simp: validate_block_height_0)
    then show ?thesis using s1(1) True validate_block_InrE [OF s1(1)] by metis
  next
    case False
    then show ?thesis using Cons.IH [OF s1(2)] Cons.prems by simp
  qed
qed simp

lemma from_blocks_ok:
  assumes "chain_from_blocks E pow now bs = Inr c"
    and "\<forall>b \<in> set (tl bs). b \<noteq> genesis E \<and> block_typed E b"
  shows "chain_ok E pow c" "\<forall>b \<in> set (tl bs). length (block_enc b) \<le> MAX_BLOCK_BYTES"
proof -
  obtain rest s where bs: "bs = genesis E # rest"
    and v: "validate_from E pow now [genesis E] (ledger_default E) rest = Inr s"
    using assms(1) by (auto simp: chain_from_blocks_Inr)
  have "bh_height (blk_header b) \<noteq> 0" if "b \<in> set (tl bs)" for b
    using validate_from_heights [OF v, of b] assms(2) that by (auto simp: bs)
  then show "chain_ok E pow c" by (intro chain_from_blocks_ok [OF assms(1)]) (use assms(2) in blast)
  show "\<forall>b \<in> set (tl bs). length (block_enc b) \<le> MAX_BLOCK_BYTES"
    using validate_from_sizes [OF v] assms(2) by (auto simp: bs)
qed

lemma block_wf_typed: "block_wf E b \<Longrightarrow> block_typed E b"
  by (auto simp: block_wf_def block_typed_def witness_wf_def transaction_wf_def transaction_ok_def)

lemma block_by_hash_Some:
  assumes "block_by_hash E c h = Some b"
  shows "b \<in> set (ch_blocks c)" "block_id E b = h"
  using assms by (auto simp: block_by_hash_def find_Some_iff)

lemma storage_block_Some:
  assumes "storage_ok E db" and "storage_block E k db = Inr (Some b)"
  shows "block_wf E b" "length (block_enc b) \<le> MAX_CONSENSUS_ALLOCATION" "block_id E b = k"
proof -
  obtain row where row: "smap_get (db_blocks db) k = Some row" "decode_stored E (sb_data row) = Inr b"
    using assms(2) by (auto simp: storage_block_def result_simps split: option.splits)
  then obtain b' where b': "block_wf E b'" "sb_data row = block_enc b'" "block_id E b' = k"
    "length (block_enc b') \<le> MAX_CONSENSUS_ALLOCATION"
    using assms(1) unfolding storage_ok_def by blast
  then have "b = b'" using decode_stored_enc [OF b'(1,4)] row(2) by simp
  then show "block_wf E b" "length (block_enc b) \<le> MAX_CONSENSUS_ALLOCATION" "block_id E b = k"
    using b' by simp_all
qed

text \<open>The branch found behind a block consists of stored blocks that are not active, and its parent is
  active.\<close>

lemma assemble_branch_Inr:
  assumes "assemble_branch E db active branch seen = Inr (fork_at, br)" and "storage_ok E db"
  shows "\<exists>pre. br = pre @ branch \<and> (\<forall>x \<in> set pre. block_wf E x
      \<and> length (block_enc x) \<le> MAX_CONSENSUS_ALLOCATION \<and> block_id E x \<notin> block_id E ` set (ch_blocks active))
    \<and> (\<exists>parent \<in> set (ch_blocks active). fork_at = bh_height (blk_header parent)
         \<and> (branch \<noteq> [] \<longrightarrow> block_id E parent = bh_previous_block (blk_header (hd br))))"
  using assms
proof (induction E db active branch seen rule: assemble_branch.induct)
  case (1 E db active branch seen)
  let ?p = "bh_previous_block (blk_header (hd branch))"
  show ?case
  proof (cases "block_by_hash E active ?p")
    case (Some parent)
    then show ?thesis using "1.prems"(1) block_by_hash_Some [OF Some]
      by (subst (asm) assemble_branch.simps) (auto simp: Let_def intro!: bexI [of _ parent])
  next
    case None
    have c: "\<not> (?p \<in> set seen \<or> MAX_BRANCH < length branch)"
      using "1.prems"(1) None by (subst (asm) assemble_branch.simps) (auto simp: Let_def split: if_splits)
    obtain b where b: "storage_block E ?p db = Inr (Some b)"
      and rec: "assemble_branch E db active (b # branch) (?p # seen) = Inr (fork_at, br)"
      using "1.prems"(1) None c
      by (subst (asm) assemble_branch.simps) (auto simp: Let_def split: sum.splits option.splits)
    obtain pre where pre: "br = pre @ b # branch" "\<forall>x \<in> set pre. block_wf E x
      \<and> length (block_enc x) \<le> MAX_CONSENSUS_ALLOCATION \<and> block_id E x \<notin> block_id E ` set (ch_blocks active)"
      "\<exists>parent \<in> set (ch_blocks active). fork_at = bh_height (blk_header parent)
         \<and> block_id E parent = bh_previous_block (blk_header (hd br))"
      using "1.IH" [OF refl None c b refl rec "1.prems"(2)] by blast
    note st = storage_block_Some [OF "1.prems"(2) b]
    show ?thesis using pre st None by (intro exI [of _ "pre @ [b]"]) (auto simp: block_by_hash_None)
  qed
qed

section \<open>The invariant\<close>

text \<open>The database holds the active chain: its ids by height and a row for each.\<close>

definition chain_stored :: "prims \<Rightarrow> chain \<Rightarrow> storage \<Rightarrow> bool" where
  "chain_stored E c db \<longleftrightarrow> db_active db = map (\<lambda>b. (bh_height (blk_header b), block_id E b)) (ch_blocks c)
     \<and> distinct (map (block_id E) (ch_blocks c))
     \<and> (\<forall>b \<in> set (ch_blocks c). storable E b \<and> smap_contains (db_blocks db) (block_id E b))"

text \<open>What the pool of shares holds came through the decoders or from the node itself.\<close>

definition pool_typed :: "prims \<Rightarrow> share_pool \<Rightarrow> bool" where
  "pool_typed E p \<longleftrightarrow> (\<forall>k t. map_of (wp_templates p) k = Some t \<longrightarrow> template_wf E t)
     \<and> (\<forall>k s. map_of (wp_shares p) k = Some s \<longrightarrow> workshare_ok E s)"

definition storage_part :: "prims \<Rightarrow> node \<Rightarrow> bool" where
  "storage_part E n \<longleftrightarrow> storage_ok E (nd_storage n) \<and> initialize_identity E (nd_storage n) = Inr (nd_storage n)
     \<and> chain_stored E (nd_chain n) (nd_storage n)"

definition mempool_part :: "prims \<Rightarrow> node \<Rightarrow> bool" where
  "mempool_part E n \<longleftrightarrow> pool_ok E (nd_mempool n) \<and> mp_policy (nd_mempool n) = relay_policy_default
     \<and> mp_bytes (nd_mempool n) \<le> DEFAULT_MAX_MEMPOOL_BYTES"

definition shares_part :: "prims \<Rightarrow> pow_verifier \<Rightarrow> node \<Rightarrow> bool" where
  "shares_part E pow n \<longleftrightarrow>
     live_pool E pow (ch_blocks (nd_chain n)) (ch_state (nd_chain n)) (nd_workshares n)
     \<and> pool_typed E (nd_workshares n)"

definition pending_part :: "prims \<Rightarrow> node \<Rightarrow> bool" where
  "pending_part E n \<longleftrightarrow> smap_ok (nd_pending n) \<and> length (nd_pending n) \<le> MAX_PENDING_WORKSHARES
     \<and> (\<forall>k origin s. map_of (nd_pending n) k = Some (origin, s) \<longrightarrow>
          workshare_id E s = k \<and> workshare_ok E s)"

definition slots :: "bool \<Rightarrow> node \<Rightarrow> nat" where
  "slots inbound n = length (filter (\<lambda>(_, direction). direction = inbound) (nd_peers n))"

definition peers_part :: "node \<Rightarrow> bool" where
  "peers_part n \<longleftrightarrow> smap_ok (nd_peers n) \<and> smap_ok (nd_queues n)
     \<and> slots True n \<le> nc_max_inbound_peers (nd_config n) \<and> slots False n \<le> nc_max_outbound_peers (nd_config n)"

definition node_ok :: "prims \<Rightarrow> pow_verifier \<Rightarrow> node \<Rightarrow> bool" where
  "node_ok E pow n \<longleftrightarrow> chain_ok E pow (nd_chain n) \<and> storage_part E n \<and> mempool_part E n
     \<and> shares_part E pow n \<and> pending_part E n \<and> peers_part n"

lemmas node_parts = storage_part_def mempool_part_def shares_part_def pending_part_def peers_part_def slots_def

lemma node_ok_event [simp]: "node_ok E pow (send_event m n) \<longleftrightarrow> node_ok E pow n"
  by (simp add: node_ok_def node_parts send_event_def)

lemma node_ok_generation [simp]: "node_ok E pow (bump_generation n) \<longleftrightarrow> node_ok E pow n"
  by (simp add: node_ok_def node_parts bump_generation_def)

section \<open>Transactions\<close>

lemma transaction_wf_ok: "transaction_wf E t \<Longrightarrow> transaction_ok E t"
  by (simp add: transaction_wf_def transaction_ok_def)

lemma mempool_part_accept:
  assumes "mempool_part E n" and "transaction_ok E t"
  obtains r p where "accept E t s now (nd_mempool n) = Some (r, p)" "mempool_part E (n\<lparr>nd_mempool := p\<rparr>)"
proof -
  have ok: "pool_ok E (nd_mempool n)" "mp_policy (nd_mempool n) = relay_policy_default"
    "mp_bytes (nd_mempool n) \<le> DEFAULT_MAX_MEMPOOL_BYTES" using assms(1) by (simp_all add: mempool_part_def)
  obtain r p where "accept E t s now (nd_mempool n) = Some (r, p)" "pool_ok E p"
    "mp_policy p = mp_policy (nd_mempool n)"
    "mp_bytes (nd_mempool n) \<le> rp_max_mempool_bytes (mp_policy (nd_mempool n)) \<Longrightarrow>
      mp_bytes p \<le> rp_max_mempool_bytes (mp_policy p)"
    by (rule accept_ok [OF ok(1) assms(2), where s = s and now = now]) blast
  then show thesis using ok
    by (intro that) (simp_all add: mempool_part_def relay_policy_default_def)
qed

lemma submit_transaction_ok:
  assumes "node_ok E pow n" and "transaction_wf E t"
  obtains r n' where "submit_transaction E now t n = Some (r, n')" "node_ok E pow n'"
    "nd_chain n' = nd_chain n" "nd_peers n' = nd_peers n" "nd_pending n' = nd_pending n"
proof -
  have m: "mempool_part E n" using assms(1) by (simp add: node_ok_def)
  obtain r p where p: "accept E t (ch_state (nd_chain n)) now (nd_mempool n) = Some (r, p)"
    "mempool_part E (n\<lparr>nd_mempool := p\<rparr>)"
    by (rule mempool_part_accept [OF m transaction_wf_ok [OF assms(2)]])
  have "node_ok E pow (n\<lparr>nd_mempool := p\<rparr>)" using assms(1) p(2) by (simp add: node_ok_def node_parts)
  then show thesis using p(1)
    by (cases r) (auto simp: submit_transaction_def send_event_def node_ok_def node_parts intro!: that)
qed

section \<open>Storage\<close>

lemma smap_insert_values:
  "\<not> smap_contains m k \<Longrightarrow> snd ` set (smap_insert k v m) = insert v (snd ` set m)"
  by (induction k v m rule: smap_insert.induct) (auto simp: smap_contains_def split: if_splits)

lemma identity_metadata:
  assumes "initialize_identity E db = Inr db" and "db_metadata db' = db_metadata db"
  shows "initialize_identity E db' = Inr db'"
proof -
  have "smap_get (db_metadata db) (ascii ''network'') \<noteq> None"
  proof
    assume none: "smap_get (db_metadata db) (ascii ''network'') = None"
    then have "smap_get (db_metadata (db\<lparr>db_metadata :=
            smap_insert (ascii ''genesis'') (array_bytes (block_id E (genesis E)))
              (smap_insert (ascii ''protocol'') (to_le_bytes PROTOCOL_VERSION)
                (smap_insert (ascii ''network'') CHAIN_ID (db_metadata db)))\<rparr>)) (ascii ''network'') = None"
      using assms(1) by (simp add: initialize_identity_def)
    then show False using metadata_keys by simp
  qed
  then show ?thesis using assms
    by (auto simp: initialize_identity_def split: option.splits if_splits)
qed

lemma insert_active_Inr:
  "insert_active E blocks m b = Inr m' \<longleftrightarrow> unat (bh_height (blk_header b)) < 2 ^ 63
     \<and> \<not> smap_contains m (bh_height (blk_header b)) \<and> block_id E b \<notin> snd ` set m
     \<and> smap_contains blocks (block_id E b) \<and> m' = smap_insert (bh_height (blk_header b)) (block_id E b) m"
  by (auto simp: insert_active_def rbind_Inr to_i64_Inr)

lemma storable_ids:
  assumes "save_chain E now c db = Inr db'"
  shows "distinct (map (block_id E) (ch_blocks c))" "\<forall>b \<in> set (ch_blocks c). unat (bh_height (blk_header b)) < 2 ^ 63"
proof -
  obtain blocks active where rows: "try_fold (insert_block E now) (db_blocks db) (ch_blocks c) = Inr blocks"
    and act: "try_fold (insert_active E blocks) [] (ch_blocks c) = Inr active"
    using assms by (auto simp: save_chain_Inr)
  have "distinct (map (block_id E) bs) \<and> (\<forall>b \<in> set bs. block_id E b \<notin> snd ` set m
      \<and> unat (bh_height (blk_header b)) < 2 ^ 63)"
    if "try_fold (insert_active E blocks) m bs = Inr m'" for m bs m'
    using that
  proof (induction bs arbitrary: m)
    case (Cons b bs)
    let ?m = "smap_insert (bh_height (blk_header b)) (block_id E b) m"
    have i: "\<not> smap_contains m (bh_height (blk_header b))" "block_id E b \<notin> snd ` set m"
      "unat (bh_height (blk_header b)) < 2 ^ 63" and rest: "try_fold (insert_active E blocks) ?m bs = Inr m'"
      using Cons.prems by (auto simp: rbind_Inr insert_active_Inr)
    note ih = Cons.IH [OF rest]
    show ?case using ih i smap_insert_values [OF i(1), of "block_id E b"] by auto
  qed simp
  from this [OF act] show "distinct (map (block_id E) (ch_blocks c))"
    "\<forall>b \<in> set (ch_blocks c). unat (bh_height (blk_header b)) < 2 ^ 63" by blast+
qed

lemma save_chain_stored:
  assumes sv: "save_chain E now c db = Inr db'" and ok: "storage_ok E db" and c: "chain_ok E pow c"
    and bs: "\<forall>b \<in> set (ch_blocks c). block_wf E b \<and> length (block_enc b) \<le> MAX_CONSENSUS_ALLOCATION"
  shows "storage_ok E db'" "chain_stored E c db'"
proof -
  have vh: "valid_history E pow (ch_blocks c) (ch_state c)" using c by (simp add: chain_ok_def)
  note inc = history_heights_sorted [OF vh]
  have st: "\<forall>b \<in> set (ch_blocks c). storable E b"
    using bs storable_ids(2) [OF sv] by (simp add: storable_def)
  show "storage_ok E db'" by (rule save_chain_ok [OF sv ok st inc])
  obtain blocks active where rows: "try_fold (insert_block E now) (db_blocks db) (ch_blocks c) = Inr blocks"
    and act: "try_fold (insert_active E blocks) [] (ch_blocks c) = Inr active"
    and db': "db_blocks db' = blocks" "db_active db' = active"
    using sv by (auto simp: save_chain_Inr)
  show "chain_stored E c db'"
    using insert_active_rows [OF act] inc insert_blocks_rows [OF rows] storable_ids(1) [OF sv] st
    by (simp add: chain_stored_def db' smap_contains_def)
qed

lemma store_side_block_stored:
  assumes "store_side_block E now b db = Inr db'" and "storage_ok E db"
    and "block_wf E b" "length (block_enc b) \<le> MAX_CONSENSUS_ALLOCATION"
  shows "storage_ok E db'" "chain_stored E c db \<Longrightarrow> chain_stored E c db'"
    "initialize_identity E db = Inr db \<Longrightarrow> initialize_identity E db' = Inr db'"
proof -
  obtain blocks where i: "insert_block E now (db_blocks db) b = Inr blocks" "db' = db\<lparr>db_blocks := blocks\<rparr>"
    using assms(1) by (auto simp: store_side_block_def rbind_Inr)
  have rows: "try_fold (insert_block E now) (db_blocks db) [b] = Inr blocks" using i(1) by simp
  note r = insert_blocks_rows [OF rows]
  have "\<exists>x. block_wf E x \<and> sb_data row = block_enc x \<and> block_id E x = k
             \<and> length (block_enc x) \<le> MAX_CONSENSUS_ALLOCATION"
    if "smap_get blocks k = Some row" for k row
    using r that assms(2-4) unfolding storage_ok_def by (metis list.set_cases empty_iff empty_set set_ConsD)
  then show "storage_ok E db'" using r assms(2) by (simp add: storage_ok_def i(2))
  show "chain_stored E c db \<Longrightarrow> chain_stored E c db'"
    using r by (auto simp: chain_stored_def i(2) smap_contains_def not_None_eq)
  show "initialize_identity E db = Inr db \<Longrightarrow> initialize_identity E db' = Inr db'"
    by (rule identity_metadata) (simp_all add: i(2))
qed

section \<open>Blocks\<close>

definition chain_blocks_wf :: "prims \<Rightarrow> chain \<Rightarrow> bool" where
  "chain_blocks_wf E c \<longleftrightarrow> (\<forall>b \<in> set (ch_blocks c). block_wf E b \<and> length (block_enc b) \<le> MAX_CONSENSUS_ALLOCATION)"

text \<open>A chain that may replace the active one.\<close>

definition successor :: "prims \<Rightarrow> pow_verifier \<Rightarrow> chain_event \<Rightarrow> block \<Rightarrow> chain \<Rightarrow> chain \<Rightarrow> bool" where
  "successor E pow event b live c \<longleftrightarrow> chain_ok E pow c \<and> chain_blocks_wf E c
     \<and> outranks (chain_key E c) (chain_key E live)
     \<and> (\<exists>confirmed detached. confirmed_detached event b live c = Some (confirmed, detached)
          \<and> (\<forall>t \<in> set detached. transaction_ok E t))"

lemma resurrect_ok:
  assumes "mempool_part E n" and "\<forall>t \<in> set ts. transaction_ok E t" and "nd_mempool n = p"
  shows "\<exists>p'. resurrect E confirmed s now ts p = Some p' \<and> mempool_part E (n\<lparr>nd_mempool := p'\<rparr>)"
  using assms
proof (induction ts arbitrary: n p)
  case Nil
  then show ?case by (simp add: mempool_part_def)
next
  case (Cons t ts)
  have ts: "transaction_ok E t" "\<forall>t \<in> set ts. transaction_ok E t" using Cons.prems(2) by simp_all
  show ?case
  proof (cases "transaction_id E t \<in> confirmed")
    case True
    then show ?thesis using Cons.IH [OF Cons.prems(1) ts(2) Cons.prems(3)] by simp
  next
    case False
    obtain r q where q: "accept E t s now p = Some (r, q)" "mempool_part E (n\<lparr>nd_mempool := q\<rparr>)"
      using mempool_part_accept [OF Cons.prems(1) ts(1), of s now] Cons.prems(3) by metis
    show ?thesis using Cons.IH [OF q(2) ts(2)] False q(1) by simp
  qed
qed

lemma node_ok_activated:
  assumes "node_ok E pow n" and "chain_ok E pow c"
    and "storage_ok E db" "initialize_identity E db = Inr db" "chain_stored E c db"
    and "mempool_part E (n\<lparr>nd_mempool := p\<rparr>)"
  shows "node_ok E pow (n\<lparr>nd_storage := db, nd_mempool := p, nd_chain := c,
      nd_workshares := pool_reset (block_id E (chain_tip c)), nd_pending := []\<rparr>)"
proof -
  have "live_pool E pow (ch_blocks c) (ch_state c) (pool_reset (block_id E (chain_tip c)))"
    unfolding chain_tip_def by (rule live_pool.start)
  then show ?thesis
    using assms by (simp add: node_ok_def node_parts pool_typed_def pool_reset_def)
qed

lemma fold_remove_bytes:
  assumes "pool_ok E p"
  shows "mp_policy (remove_confirmed E ts p) = mp_policy p \<and> mp_bytes (remove_confirmed E ts p) \<le> mp_bytes p"
  unfolding remove_confirmed_def using assms
proof (induction ts arbitrary: p)
  case (Cons t ts)
  have "mp_bytes (mempool_remove (transaction_id E t) p) \<le> mp_bytes p"
    by (simp add: mempool_remove_def split: option.split)
  then show ?case using Cons.IH [OF pool_ok_remove [OF Cons.prems]] by (auto intro: order_trans)
qed simp

lemma activate_chain_ok:
  assumes ok: "node_ok E pow n" and succ: "successor E pow event b (nd_chain n) c"
  obtains (failed) e where "activate_chain E now event b c n = Some (Inl e, n)"
  | (active) n' where "activate_chain E now event b c n = Some (Inr event, n')" "node_ok E pow n'"
      "nd_chain n' = c" "nd_peers n' = nd_peers n" "nd_generation n' = nd_generation n + 1"
proof -
  obtain confirmed detached where cd: "confirmed_detached event b (nd_chain n) c = Some (confirmed, detached)"
    and det: "\<forall>t \<in> set detached. transaction_ok E t" using succ by (auto simp: successor_def)
  have c: "chain_ok E pow c" and wf: "chain_blocks_wf E c" using succ by (simp_all add: successor_def)
  show thesis
  proof (cases "save_chain E now c (nd_storage n)")
    case (Inl e)
    then show thesis by (intro failed) (simp add: activate_chain_def cd)
  next
    case (Inr db)
    have st: "storage_ok E (nd_storage n)" "initialize_identity E (nd_storage n) = Inr (nd_storage n)"
      using ok by (simp_all add: node_ok_def storage_part_def)
    have db: "storage_ok E db" "chain_stored E c db" "initialize_identity E db = Inr db"
      using save_chain_stored [OF Inr st(1) c] wf save_chain_identity [OF Inr st(2)]
      by (simp_all add: chain_blocks_wf_def)
    have mp: "mempool_part E (n\<lparr>nd_mempool := remove_confirmed E confirmed (nd_mempool n)\<rparr>)"
      using ok fold_remove_bytes [of E "nd_mempool n" confirmed]
        remove_confirmed_ok [of E "nd_mempool n" confirmed]
      by (auto simp: node_ok_def mempool_part_def)
    obtain p where p: "resurrect E (transaction_id E ` set confirmed) (ch_state c) now detached
        (remove_confirmed E confirmed (nd_mempool n)) = Some p" "mempool_part E (n\<lparr>nd_mempool := p\<rparr>)"
      using resurrect_ok [OF mp det refl, of "transaction_id E ` set confirmed" "ch_state c" now] by auto
    let ?n = "n\<lparr>nd_storage := db, nd_mempool := p, nd_chain := c,
      nd_workshares := pool_reset (block_id E (chain_tip c)), nd_pending := []\<rparr>"
    let ?n' = "send_event (MsgInventory KindBlock (block_id E (chain_tip c))) (bump_generation ?n)"
    have "activate_chain E now event b c n = Some (Inr event, ?n')"
      using cd Inr p(1) by (simp add: activate_chain_def Let_def)
    moreover have "node_ok E pow ?n'" using node_ok_activated [OF ok c db(1,3,2) p(2)] by simp
    ultimately show thesis by (intro active [of ?n']) (simp_all add: send_event_def bump_generation_def)
  qed
qed

lemma chain_blocks_wf_stored: "node_ok E pow n \<Longrightarrow> chain_blocks_wf E (nd_chain n)"
  by (auto simp: node_ok_def storage_part_def chain_stored_def storable_def chain_blocks_wf_def)

lemma block_limits: "MAX_BLOCK_BYTES = MAX_CONSENSUS_ALLOCATION"
  by (simp add: limit_defs)

lemma chain_transactions_ok:
  assumes "chain_blocks_wf E c" and "t \<in> set (chain_transactions (drop k (ch_blocks c)))"
  shows "transaction_ok E t"
  using assms by (fastforce simp: chain_blocks_wf_def chain_transactions_def block_wf_def
      intro: transaction_wf_ok dest: in_set_dropD)

lemma target_work_nonzero: "bits_to_target bits = Some t \<Longrightarrow> 0 < unat (target_work t)"
  using bits_to_target_Some(2) by (rule target_work_pos)

lemma append_successor:
  assumes ok: "node_ok E pow n" and wf: "block_wf E b"
    and new: "block_by_hash E (nd_chain n) (block_id E b) = None"
    and app: "chain_append E pow now b (nd_chain n) = Inr (event, c)"
  shows "successor E pow event b (nd_chain n) c \<and> length (block_enc b) \<le> MAX_CONSENSUS_ALLOCATION
    \<and> event = Extended (block_id E b) (bh_height (blk_header b))"
  using app
proof (cases rule: chain_append_InrE)
  case known
  then show ?thesis using new by (simp add: block_by_hash_None)
next
  case (extended s' w)
  have cok: "chain_ok E pow (nd_chain n)" using ok by (simp add: node_ok_def)
  have c: "chain_ok E pow c" by (rule chain_append_ok [OF cok app block_wf_typed [OF wf]])
  have "b \<noteq> genesis E" using extended(1) chain_ok_genesis [OF cok] by blast
  then have "bh_height (blk_header b) \<noteq> 0"
    using extended(3) by (auto simp: validate_block_height_0)
  then have size: "length (block_enc b) \<le> MAX_CONSENSUS_ALLOCATION"
    using validate_block_InrE [OF extended(3)] block_limits by metis
  have "0 < block_work b" using extended(5) target_work_nonzero by (auto simp: block_work_def)
  then have "outranks (chain_key E c) (chain_key E (nd_chain n))"
    using extended(4) by (simp add: chain_key_def extended(7) word_less_nat_alt)
  moreover have "chain_blocks_wf E c"
    using chain_blocks_wf_stored [OF ok] wf size by (simp add: chain_blocks_wf_def extended(7))
  ultimately show ?thesis using c size extended(6)
    by (simp add: successor_def confirmed_detached_def)
qed

text \<open>The candidate of a branch replaces a suffix of the active chain.\<close>

lemma assemble_candidate_Inr:
  assumes ok: "node_ok E pow n" and new: "block_by_hash E (nd_chain n) (block_id E b) = None"
  obtains (failed) e where "assemble_candidate E (nd_storage n) (nd_chain n) b = Some (Inl e)"
  | (found) k pre where "assemble_candidate E (nd_storage n) (nd_chain n) b
        = Some (Inr (take (Suc k) (ch_blocks (nd_chain n)) @ pre @ [b]))"
      "k < length (ch_blocks (nd_chain n))"
      "bh_previous_block (blk_header (hd (pre @ [b]))) = block_id E (ch_blocks (nd_chain n) ! k)"
      "\<forall>x \<in> set pre. block_wf E x \<and> length (block_enc x) \<le> MAX_CONSENSUS_ALLOCATION"
      "\<forall>x \<in> set (pre @ [b]). block_id E x \<notin> block_id E ` set (ch_blocks (nd_chain n))"
proof (cases "assemble_branch E (nd_storage n) (nd_chain n) [b] []")
  case (Inl e)
  then show thesis by (intro failed) (simp add: assemble_candidate_def)
next
  case (Inr r)
  obtain fork_at br where r: "r = (fork_at, br)" by (cases r)
  have st: "storage_ok E (nd_storage n)" using ok by (simp add: node_ok_def storage_part_def)
  obtain pre parent where pre: "br = pre @ [b]" "\<forall>x \<in> set pre. block_wf E x
      \<and> length (block_enc x) \<le> MAX_CONSENSUS_ALLOCATION \<and> block_id E x \<notin> block_id E ` set (ch_blocks (nd_chain n))"
    and parent: "parent \<in> set (ch_blocks (nd_chain n))" "fork_at = bh_height (blk_header parent)"
      "block_id E parent = bh_previous_block (blk_header (hd br))"
    using assemble_branch_Inr [OF Inr [unfolded r] st] by auto
  obtain k where k: "k < length (ch_blocks (nd_chain n))" "ch_blocks (nd_chain n) ! k = parent"
    using parent(1) by (auto simp: in_set_conv_nth)
  have "chain_ok E pow (nd_chain n)" using ok by (simp add: node_ok_def)
  then have "unat fork_at = k" using chain_ok_inv k parent(2) by (auto simp: history_inv_def height_of_def)
  then show thesis
    using Inr r k parent(3) pre new
    by (intro found [of k pre]) (auto simp: assemble_candidate_def block_by_hash_None)
qed

lemma fork_index_less:
  assumes "old \<noteq> []" "new \<noteq> []"
  shows "Suc (fork_index E old new) \<le> length old" "Suc (fork_index E old new) \<le> length new"
proof -
  let ?m = "length (takeWhile (\<lambda>(left, right). block_id E left = block_id E right) (zip old new))"
  have "?m \<le> length old" "?m \<le> length new" "0 < length old" "0 < length new"
    using length_takeWhile_le [of _ "zip old new"] assms by simp_all
  then show "Suc (fork_index E old new) \<le> length old" "Suc (fork_index E old new) \<le> length new"
    unfolding fork_index_def by linarith+
qed

lemma consider_successor:
  assumes ok: "node_ok E pow n" and wf: "block_wf E b"
    and new: "block_by_hash E (nd_chain n) (block_id E b) = None"
    and cand: "assemble_candidate E (nd_storage n) (nd_chain n) b = Some (Inr blocks)"
    and cons: "consider_chain E pow now blocks (nd_chain n) = Inr (event, c)"
  shows "length (block_enc b) \<le> MAX_CONSENSUS_ALLOCATION
    \<and> (event = SideChain \<and> c = nd_chain n
       \<or> (\<exists>old tip k. event = Reorganized old tip k) \<and> successor E pow event b (nd_chain n) c)"
proof -
  let ?l = "ch_blocks (nd_chain n)"
  have cok: "chain_ok E pow (nd_chain n)" using ok by (simp add: node_ok_def)
  note inv = chain_ok_inv [OF cok]
  have ne: "?l \<noteq> []" "hd ?l = genesis E" using inv by (simp_all add: history_inv_def)
  obtain k pre where bl: "blocks = take (Suc k) ?l @ pre @ [b]" and k: "k < length ?l"
    and pre: "\<forall>x \<in> set pre. block_wf E x \<and> length (block_enc x) \<le> MAX_CONSENSUS_ALLOCATION"
      "\<forall>x \<in> set (pre @ [b]). block_id E x \<notin> block_id E ` set ?l"
    using assemble_candidate_Inr [OF ok new] cand by (metis option.inject sum.inject(2) sum.distinct(1))
  obtain v where v: "chain_from_blocks E pow now blocks = Inr v"
    using cons by (auto simp: consider_chain_cases [OF ne(1)] split: if_splits sum.splits)
  have tl: "set (tl blocks) \<subseteq> set (tl ?l) \<union> set (pre @ [b])"
    using ne k by (cases ?l) (auto simp: bl dest: in_set_takeD)
  have old: "x \<noteq> genesis E" if "x \<in> set (tl ?l)" for x
  proof -
    have "\<exists>i. Suc i < length ?l \<and> x = ?l ! Suc i"
      using that ne by (cases ?l) (auto simp: in_set_conv_nth)
    then obtain i where i: "Suc i < length ?l" "x = ?l ! Suc i" by blast
    then have "height_of x = Suc i" using inv by (simp add: history_inv_def)
    then show ?thesis by (auto simp: height_of_def genesis_def)
  qed
  have "\<forall>x \<in> set (tl blocks). x \<noteq> genesis E \<and> block_typed E x"
  proof
    fix x assume "x \<in> set (tl blocks)"
    then consider "x \<in> set (tl ?l)" | "x \<in> set (pre @ [b])" using tl by blast
    then show "x \<noteq> genesis E \<and> block_typed E x"
    proof cases
      case 1
      then have "x \<in> set ?l" by (meson list.set_sel(2) ne(1))
      then show ?thesis using 1 old inv by (simp add: history_inv_def)
    next
      case 2
      then have "x \<noteq> genesis E" using pre(2) chain_ok_genesis [OF cok] by blast
      moreover have "block_wf E x" using 2 pre(1) wf by auto
      ultimately show ?thesis by (simp add: block_wf_typed)
    qed
  qed
  note vok = from_blocks_ok [OF v this]
  have size: "length (block_enc b) \<le> MAX_CONSENSUS_ALLOCATION"
    using vok(2) ne by (auto simp: bl block_limits [symmetric])
  have vb: "ch_blocks v = blocks" using v by (auto simp: chain_from_blocks_Inr)
  have wfv: "chain_blocks_wf E v"
    using chain_blocks_wf_stored [OF ok] pre(1) wf size
    by (auto simp: chain_blocks_wf_def vb bl dest: in_set_takeD)
  show ?thesis
  proof (cases "outranks (chain_key E v) (chain_key E (nd_chain n))")
    case True
    let ?k = "fork_index E ?l blocks"
    have e: "event = Reorganized (block_id E (chain_tip (nd_chain n))) (block_id E (chain_tip v)) ?k" "c = v"
      using cons v True by (auto simp: consider_chain_cases [OF ne(1)] vb split: if_splits)
    have "blocks \<noteq> []" by (simp add: bl)
    note fi = fork_index_less [OF ne(1) this, of E]
    show ?thesis using vok(1) wfv True size fi chain_transactions_ok [OF chain_blocks_wf_stored [OF ok]]
      by (simp add: e successor_def confirmed_detached_def vb)
  next
    case False
    then show ?thesis using cons v size by (auto simp: consider_chain_cases [OF ne(1)] split: if_splits)
  qed
qed

text \<open>Before the chain changes: the candidate for a block that is new.\<close>

definition block_candidate ::
    "prims \<Rightarrow> pow_verifier \<Rightarrow> u64 \<Rightarrow> block \<Rightarrow> node \<Rightarrow> (consensus_error + chain_event \<times> chain) option" where
  "block_candidate E pow now b n =
     (if bh_previous_block (blk_header b) = block_id E (chain_tip (nd_chain n))
      then Some (chain_append E pow now b (nd_chain n))
      else case assemble_candidate E (nd_storage n) (nd_chain n) b of
        None \<Rightarrow> None
      | Some r \<Rightarrow> Some (rbind r (\<lambda>blocks. consider_chain E pow now blocks (nd_chain n))))"

lemma block_candidate_cases:
  assumes ok: "node_ok E pow n" and wf: "block_wf E b"
    and new: "block_by_hash E (nd_chain n) (block_id E b) = None"
  obtains (failed) e where "block_candidate E pow now b n = Some (Inl e)"
  | (side) "block_candidate E pow now b n = Some (Inr (SideChain, nd_chain n))"
      "length (block_enc b) \<le> MAX_CONSENSUS_ALLOCATION"
  | (change) event c where "block_candidate E pow now b n = Some (Inr (event, c))"
      "event \<noteq> SideChain" "event \<noteq> Known"
      "length (block_enc b) \<le> MAX_CONSENSUS_ALLOCATION" "successor E pow event b (nd_chain n) c"
proof (cases "bh_previous_block (blk_header b) = block_id E (chain_tip (nd_chain n))")
  case True
  show thesis
  proof (cases "chain_append E pow now b (nd_chain n)")
    case (Inl e)
    then show thesis using True by (intro failed [of e]) (simp add: block_candidate_def)
  next
    case (Inr r)
    obtain event c where r: "r = (event, c)" by (cases r)
    note a = append_successor [OF ok wf new Inr [unfolded r]]
    have "block_candidate E pow now b n = Some (Inr (event, c))"
      using True Inr r by (simp add: block_candidate_def)
    then show thesis using a by (intro change [of event c]) auto
  qed
next
  case False
  show thesis
  proof (cases rule: assemble_candidate_Inr [OF ok new])
    case (1 e)
    then show thesis using False by (intro failed [of e]) (simp add: block_candidate_def rbind_def)
  next
    case (2 k pre)
    let ?bs = "take (Suc k) (ch_blocks (nd_chain n)) @ pre @ [b]"
    show thesis
    proof (cases "consider_chain E pow now ?bs (nd_chain n)")
      case (Inl e)
      then show thesis using False 2(1) by (intro failed [of e]) (simp add: block_candidate_def rbind_def)
    next
      case (Inr r)
      obtain event c where r: "r = (event, c)" by (cases r)
      have bc: "block_candidate E pow now b n = Some (Inr (event, c))"
        using False 2(1) Inr r by (simp add: block_candidate_def rbind_def)
      note cs = consider_successor [OF ok wf new 2(1) Inr [unfolded r]]
      show thesis using cs bc side change [of event c] by auto
    qed
  qed
qed

lemma submit_block_unfold:
  "submit_block E pow now b n =
     (if block_by_hash E (nd_chain n) (block_id E b) \<noteq> None then Some (Inr Known, n)
      else case block_candidate E pow now b n of
          None \<Rightarrow> None
        | Some (Inl e) \<Rightarrow> Some (Inl e, n)
        | Some (Inr (event, candidate)) \<Rightarrow>
            (case store_side_block E now b (nd_storage n) of
               Inl e \<Rightarrow> Some (Inl (StorageInvariant (storage_message e)), n)
             | Inr db \<Rightarrow>
                 let n = n\<lparr>nd_storage := db\<rparr>
                 in case event of
                   Extended _ _ \<Rightarrow> activate_chain E now event b candidate n
                 | Reorganized _ _ _ \<Rightarrow> activate_chain E now event b candidate n
                 | _ \<Rightarrow> Some (Inr event, n)))"
  by (simp add: submit_block_def block_candidate_def Let_def)

lemma submit_block_ok:
  assumes ok: "node_ok E pow n" and wf: "block_wf E b"
  obtains (same) r n' where "submit_block E pow now b n = Some (r, n')" "node_ok E pow n'"
      "nd_chain n' = nd_chain n" "nd_peers n' = nd_peers n" "nd_generation n' = nd_generation n"
  | (active) event n' where "submit_block E pow now b n = Some (Inr event, n')" "node_ok E pow n'"
      "successor E pow event b (nd_chain n) (nd_chain n')" "nd_peers n' = nd_peers n"
      "nd_generation n' = nd_generation n + 1"
proof (cases "block_by_hash E (nd_chain n) (block_id E b)")
  case (Some b')
  then show thesis using ok by (intro same) (simp_all add: submit_block_def Let_def)
next
  case None
  note unf = submit_block_unfold [of E pow now b n] None
  have side: thesis if "block_candidate E pow now b n = Some (Inr (event, c))" "event = SideChain \<or> event = Known"
    "length (block_enc b) \<le> MAX_CONSENSUS_ALLOCATION" for event c
  proof (cases "store_side_block E now b (nd_storage n)")
    case (Inl e)
    then show thesis using ok that unf by (intro same) simp_all
  next
    case (Inr db)
    have "node_ok E pow (n\<lparr>nd_storage := db\<rparr>)"
      using ok store_side_block_stored [OF Inr _ wf that(3)] by (simp add: node_ok_def node_parts)
    then show thesis using Inr that unf by (intro same [of "Inr event" "n\<lparr>nd_storage := db\<rparr>"]) auto
  qed
  show thesis
  proof (cases rule: block_candidate_cases [OF ok wf None, of now])
    case (1 e)
    then show thesis using ok unf by (intro same) simp_all
  next
    case 2
    then show thesis using side by blast
  next
    case (3 event c)
    show thesis
    proof (cases "store_side_block E now b (nd_storage n)")
      case (Inl e)
      then show thesis using ok 3(1) unf by (intro same) simp_all
    next
      case (Inr db)
      let ?n = "n\<lparr>nd_storage := db\<rparr>"
      have ok1: "node_ok E pow ?n"
        using ok store_side_block_stored [OF Inr _ wf 3(4)] by (simp add: node_ok_def node_parts)
      have sb: "submit_block E pow now b n = activate_chain E now event b c ?n"
        using unf 3(1-3) Inr by (cases event) simp_all
      have succ: "successor E pow event b (nd_chain ?n) c" using 3(5) by simp
      show thesis
        by (cases rule: activate_chain_ok [OF ok1 succ, of now])
          (use sb ok1 3(5) in \<open>auto intro: same active\<close>)
    qed
  qed
qed

section \<open>Templates and shares\<close>

lemma event_simps [simp]:
  "nd_chain (send_event m n) = nd_chain n" "nd_pending (send_event m n) = nd_pending n"
  "nd_peers (send_event m n) = nd_peers n" "nd_config (send_event m n) = nd_config n"
  "nd_workshares (send_event m n) = nd_workshares n" "nd_queues (send_event m n) = nd_queues n"
  "nd_storage (send_event m n) = nd_storage n" "nd_generation (send_event m n) = nd_generation n"
  "nd_chain (bump_generation n) = nd_chain n" "nd_pending (bump_generation n) = nd_pending n"
  "nd_peers (bump_generation n) = nd_peers n" "nd_config (bump_generation n) = nd_config n"
  "nd_workshares (bump_generation n) = nd_workshares n" "nd_queues (bump_generation n) = nd_queues n"
  "nd_storage (bump_generation n) = nd_storage n"
  by (simp_all add: send_event_def bump_generation_def)

lemma node_ok_workshares:
  assumes "node_ok E pow n" and "live_pool E pow (ch_blocks (nd_chain n)) (ch_state (nd_chain n)) p" "pool_typed E p"
  shows "node_ok E pow (n\<lparr>nd_workshares := p\<rparr>)"
  using assms by (simp add: node_ok_def node_parts)

lemma register_typed:
  assumes "pool_typed E p" and "pool_register_template E t p = Inr (k, p')" "template_wf E t"
  shows "pool_typed E p'"
  using assms by (auto simp: pool_typed_def pool_register_template_def Let_def split: if_splits)

lemma register_node:
  assumes ok: "node_ok E pow n" and t: "template_wf E t"
    and r: "pool_register_template E t (nd_workshares n) = Inr (k, p)"
  shows "node_ok E pow (n\<lparr>nd_workshares := p\<rparr>)"
proof -
  have "shares_part E pow n" using ok by (simp add: node_ok_def)
  then show ?thesis using live_pool.template [OF _ r] register_typed [OF _ r t]
    by (intro node_ok_workshares [OF ok]) (simp_all add: shares_part_def)
qed

lemma register_template_ok:
  assumes ok: "node_ok E pow n" and t: "template_wf E t"
  shows "node_ok E pow (snd (register_template E t n))"
    "nd_chain (snd (register_template E t n)) = nd_chain n"
    "nd_pending (snd (register_template E t n)) = nd_pending n"
    "nd_peers (snd (register_template E t n)) = nd_peers n"
proof -
  show "node_ok E pow (snd (register_template E t n))"
    using ok register_node [OF ok t] by (auto simp: register_template_def Let_def split: sum.split)
qed (auto simp: register_template_def Let_def split: sum.split)

lemma submit_workshare_typed:
  assumes "share_pool_ok E p" and "submit_workshare E pow now hist s share p = Inr (changed, p')"
    and "pool_typed E p" and "workshare_ok E share"
  shows "pool_typed E p'"
proof -
  obtain wit where "candidate_witness p share = Inr wit" and acc: "pool_accept E share p = Inr (changed, p')"
    using assms(2) by (auto simp: submit_workshare_def rbind_Inr)
  from assms(1) this show ?thesis
  proof (cases rule: pool_accept_cases)
    case known
    then show ?thesis using assms(3) by simp
  next
    case (new w)
    then show ?thesis using assms(3,4) by (auto simp: pool_typed_def)
  qed
qed

lemma submit_workshare_node:
  assumes ok: "node_ok E pow n" and share: "workshare_ok E share"
  shows "node_ok E pow (snd (node_submit_workshare E pow now share n))"
    "nd_chain (snd (node_submit_workshare E pow now share n)) = nd_chain n"
    "nd_pending (snd (node_submit_workshare E pow now share n)) = nd_pending n"
    "nd_peers (snd (node_submit_workshare E pow now share n)) = nd_peers n"
proof -
  have sp: "shares_part E pow n" using ok by (simp add: node_ok_def)
  have n: "node_ok E pow (n\<lparr>nd_workshares := p\<rparr>)"
    if "submit_workshare E pow now (ch_blocks (nd_chain n)) (ch_state (nd_chain n)) share (nd_workshares n)
      = Inr (changed, p)" for changed p
  proof -
    have live: "live_pool E pow (ch_blocks (nd_chain n)) (ch_state (nd_chain n)) (nd_workshares n)"
      and typed: "pool_typed E (nd_workshares n)" using sp by (simp_all add: shares_part_def)
    show ?thesis
      by (intro node_ok_workshares [OF ok] live_pool.share [OF live that]
          submit_workshare_typed [OF live_pool_ok [OF live] that typed share])
  qed
  show "node_ok E pow (snd (node_submit_workshare E pow now share n))"
    using ok n by (auto simp: node_submit_workshare_def Let_def split: sum.split)
  show "nd_chain (snd (node_submit_workshare E pow now share n)) = nd_chain n"
    "nd_pending (snd (node_submit_workshare E pow now share n)) = nd_pending n"
    "nd_peers (snd (node_submit_workshare E pow now share n)) = nd_peers n"
    by (auto simp: node_submit_workshare_def Let_def split: sum.split)
qed

section \<open>Candidates\<close>

text \<open>While heights fit 32 bits the supply is within the range of money.\<close>

definition young :: "chain \<Rightarrow> bool" where
  "young c \<longleftrightarrow> length (ch_blocks c) \<le> 2 ^ 32"

lemma chain_ok_ledger:
  assumes "chain_ok E pow c" and "young c"
  shows "ledger_ok E (ch_state c)" "ledger_supply (ch_state c) \<le> unat MAX_MONEY"
  using chain_ok_inv [OF assms(1)] supply_in_range assms(2) by (auto simp: history_inv_def young_def)

lemma relayed_wf:
  assumes "relayed E policy t" and "transaction_ok E t"
  shows "transaction_wf E t"
  using assms by (auto simp: relayed_def transaction_ok_def transaction_wf_def)

lemma node_select:
  assumes ok: "node_ok E pow n" and young: "young (nd_chain n)"
  obtains txs where "select E (nd_mempool n) (ch_state (nd_chain n)) MAX_BLOCK_TRANSACTIONS = Some txs"
    "length txs \<le> MAX_BLOCK_TRANSACTIONS" "\<forall>t \<in> set txs. transaction_wf E t"
proof -
  have p: "pool_ok E (nd_mempool n)" and c: "chain_ok E pow (nd_chain n)"
    using ok by (simp_all add: node_ok_def mempool_part_def)
  note s = chain_ok_ledger [OF c young]
  obtain txs where txs: "select E (nd_mempool n) (ch_state (nd_chain n)) MAX_BLOCK_TRANSACTIONS = Some txs"
    "length txs \<le> max 1 MAX_BLOCK_TRANSACTIONS"
    "\<forall>t \<in> set txs. mempool_get (nd_mempool n) (transaction_id E t) = Some t"
    using select_valid [OF p s s, of MAX_BLOCK_TRANSACTIONS] by blast
  have "transaction_wf E t" if t: "t \<in> set txs" for t
  proof -
    obtain e where "map_of (mp_entries (nd_mempool n)) (transaction_id E t) = Some e" "en_transaction e = t"
      using bspec [OF txs(3) t] by (auto simp: mempool_get_def)
    then have "entry_ok E (nd_mempool n) (transaction_id E t) e" "en_transaction e = t"
      using pool_okD(3) [OF p] by simp_all
    then show ?thesis using relayed_wf by (auto simp: entry_ok_def)
  qed
  then show thesis using txs that by (simp add: limit_defs)
qed

lemma make_candidate_ok:
  assumes ok: "node_ok E pow n" and young: "young (nd_chain n)"
  obtains r n' where "make_candidate E now extranonce n = Some (r, n')" "node_ok E pow n'"
    "nd_chain n' = nd_chain n" "nd_pending n' = nd_pending n" "nd_peers n' = nd_peers n"
proof -
  obtain txs where txs: "select E (nd_mempool n) (ch_state (nd_chain n)) MAX_BLOCK_TRANSACTIONS = Some txs"
    "length txs \<le> MAX_BLOCK_TRANSACTIONS" "\<forall>t \<in> set txs. transaction_wf E t"
    by (rule node_select [OF ok young])
  have sp: "shares_part E pow n" using ok by (simp add: node_ok_def)
  obtain wit where wit: "pool_witness (nd_workshares n) = Some wit"
    by (rule pool_witness_Some [OF live_pool_ok]) (use sp in \<open>auto simp: shares_part_def\<close>)
  have t: "template_wf E \<lparr>bt_version = v, bt_height = h, bt_parent = p, bt_transactions = txs\<rparr>" for v h p
    using txs by (simp add: template_wf_def)
  have "\<exists>r n'. make_candidate E now extranonce n = Some (r, n') \<and> node_ok E pow n' \<and>
      nd_chain n' = nd_chain n \<and> nd_pending n' = nd_pending n \<and> nd_peers n' = nd_peers n"
    using ok txs(1) wit register_node [OF ok t]
    by (auto simp: make_candidate_def Let_def split: sum.split) 
  then show thesis using that by blast
qed

section \<open>Peers\<close>

lemma filter_smap_insert_new:
  "\<not> smap_contains m k \<Longrightarrow>
   length (filter P (smap_insert k v m)) = length (filter P m) + (if P (k, v) then 1 else 0)"
  by (induction k v m rule: smap_insert.induct) (auto simp: smap_contains_def split: if_splits)

lemma filter_smap_remove_le: "length (filter P (smap_remove k m)) \<le> length (filter P m)"
  by (induction k m rule: smap_remove.induct) auto

lemma smap_ok_filter: "smap_ok m \<Longrightarrow> smap_ok (filter P m)"
  by (induction m) auto

lemma map_of_filter_Some: "smap_ok m \<Longrightarrow> map_of (filter P m) k = Some v \<Longrightarrow> map_of m k = Some v"
  using smap_set_iff [of m k v] smap_set_iff [of "filter P m" k v] smap_ok_filter [of m P] by simp

lemma peer_connected_ok:
  assumes "node_ok E pow n"
  shows "node_ok E pow (snd (peer_connected peer inbound n))"
    "nd_chain (snd (peer_connected peer inbound n)) = nd_chain n"
  using assms filter_smap_insert_new [of "nd_peers n" peer]
  by (auto simp: peer_connected_def Let_def node_ok_def node_parts)

lemma peer_disconnected_ok:
  assumes "node_ok E pow n"
  shows "node_ok E pow (peer_disconnected peer n)"
proof -
  have "pending_part E n" "peers_part n" using assms by (simp_all add: node_ok_def)
  then have "pending_part E (peer_disconnected peer n)" "peers_part (peer_disconnected peer n)"
    using map_of_filter_Some [of "nd_pending n"]
    by (fastforce simp: pending_part_def peers_part_def slots_def peer_disconnected_def smap_ok_filter
        intro: order_trans [OF length_filter_le] order_trans [OF filter_smap_remove_le])+
  then show ?thesis using assms by (simp add: node_ok_def node_parts peer_disconnected_def)
qed

lemma drop_queue_ok: "node_ok E pow n \<Longrightarrow> node_ok E pow (drop_queue peer n)"
  by (simp add: node_ok_def node_parts drop_queue_def)

lemma set_queue_ok: "node_ok E pow n \<Longrightarrow> node_ok E pow (n\<lparr>nd_queues := smap_insert peer q (nd_queues n)\<rparr>)"
  by (simp add: node_ok_def node_parts)

section \<open>The locator\<close>

text \<open>A locator loop from a height of the chain ends: its entries are active blocks of falling heights
  down to the genesis block.  Once ten entries are there the steps double.\<close>

lemma doubling_bound:
  fixes height step :: u64
  assumes "unat height \<le> unat step * (2 ^ Suc m - 1)" and "0 < unat step"
  shows "unat height - unat step \<le> unat (saturating_mul step 2) * (2 ^ m - 1)"
proof (cases "unat step * 2 < 2 ^ 64")
  case True
  have "unat step * (2 * 2 ^ m - 1) = unat step + unat step * 2 * (2 ^ m - 1)"
    by (cases "2 ^ m :: nat") (simp_all add: algebra_simps)
  then show ?thesis using True assms(1) by (simp add: unat_saturating_mul)
next
  case False
  then have s: "unat (saturating_mul step 2) = 2 ^ 64 - 1" by (simp add: unat_saturating_mul)
  show ?thesis
  proof (cases m)
    case 0
    then show ?thesis using assms(1) by simp
  next
    case (Suc k)
    have h: "unat height - unat step \<le> (2 ^ 64 - 1) * 1" using unat_bound [of height] by simp
    have "0 < (2 :: nat) ^ k" by simp
    then have "(1 :: nat) \<le> 2 ^ m - 1" unfolding Suc power_Suc by linarith
    then have "(2 ^ 64 - 1) * 1 \<le> (2 ^ 64 - 1) * (2 ^ m - 1 :: nat)" by (rule mult_le_mono2)
    with h show ?thesis unfolding s by (rule order_trans)
  qed
qed

lemma locator_loop_spec:
  assumes "unat height < length (ch_blocks c)" and "0 < unat step" and "length acc < 9 \<longrightarrow> step = 1"
  shows "\<exists>hs. locator_loop E c acc height step = Some (acc @ map (\<lambda>h. block_id E (ch_blocks c ! h)) hs)
    \<and> hs \<noteq> [] \<and> hd hs = unat height \<and> last hs = 0 \<and> sorted_wrt (>) hs
    \<and> (\<forall>m. unat height \<le> (9 - length acc) + unat step * (2 ^ m - 1)
         \<longrightarrow> length hs \<le> (9 - length acc) + m + 1)"
  using assms
proof (induction "unat height" arbitrary: height step acc rule: less_induct)
  case less
  let ?acc = "acc @ [block_id E (ch_blocks c ! unat height)]"
  let ?step = "if 10 \<le> length ?acc then saturating_mul step 2 else step"
  have at: "block_at c height = Some (ch_blocks c ! unat height)"
    using less.prems(1) by (simp add: block_at_def)
  show ?case
  proof (cases "height = 0")
    case True
    then show ?thesis using at
      by (subst locator_loop.simps) (auto intro!: exI [of _ "[0]"])
  next
    case False
    let ?h = "saturating_sub height step"
    have h: "unat ?h = unat height - unat step" by (simp add: unat_saturating_sub)
    have pos: "0 < unat height" using False by (simp add: unat_gt_0)
    have lt: "unat ?h < unat height" using h pos less.prems(2) by simp
    have st: "0 < unat ?step" using less.prems(2) by (simp add: unat_saturating_mul)
    have pr: "length ?acc < 9 \<longrightarrow> ?step = 1" using less.prems(3) by simp
    obtain hs where hs: "locator_loop E c ?acc ?h ?step
        = Some (?acc @ map (\<lambda>h. block_id E (ch_blocks c ! h)) hs)"
      "hs \<noteq> []" "hd hs = unat ?h" "last hs = 0" "sorted_wrt (>) hs"
      and len: "\<And>m. unat ?h \<le> (9 - length ?acc) + unat ?step * (2 ^ m - 1)
         \<Longrightarrow> length hs \<le> (9 - length ?acc) + m + 1"
      using less.hyps [OF lt _ st pr] less.prems(1) lt by (meson order_less_trans)
    have loop: "locator_loop E c acc height step = locator_loop E c ?acc ?h ?step"
      using False at by (subst locator_loop.simps) (simp add: Let_def)
    have bound: "length (unat height # hs) \<le> (9 - length acc) + m + 1"
      if le: "unat height \<le> (9 - length acc) + unat step * (2 ^ m - 1)" for m
    proof (cases "length acc < 9")
      case True
      then have "step = 1" "?step = 1" using less.prems(3) by auto
      then have "unat ?h \<le> (9 - length ?acc) + unat ?step * (2 ^ m - 1)" using le h True by simp
      from len [OF this] show ?thesis using True by simp
    next
      case long: False
      then have "m \<noteq> 0" using le pos by (cases m) auto
      then obtain k where k: "m = Suc k" by (cases m) auto
      have "unat height - unat step \<le> unat (saturating_mul step 2) * (2 ^ k - 1)"
        using le long k by (intro doubling_bound less.prems(2)) simp
      then have "unat ?h \<le> (9 - length ?acc) + unat ?step * (2 ^ k - 1)" using h long by simp
      from len [OF this] show ?thesis using long k by simp
    qed
    have "hd hs < unat height" using hs(3) lt by simp
    moreover have "\<forall>x \<in> set hs. x \<le> hd hs" using hs(2,5) by (cases hs) auto
    ultimately have "sorted_wrt (>) (unat height # hs)" using hs(5) by fastforce
    then show ?thesis using hs(1,2,4) bound loop
      by (intro exI [of _ "unat height # hs"]) auto
  qed
qed

lemma chain_tip_at:
  assumes "chain_ok E pow c"
  shows "unat (chain_height c) = length (ch_blocks c) - 1" "unat (chain_height c) < length (ch_blocks c)"
    "ch_blocks c ! unat (chain_height c) = chain_tip c"
proof -
  have ne: "ch_blocks c \<noteq> []" and h: "\<forall>i < length (ch_blocks c). height_of (ch_blocks c ! i) = i"
    using chain_ok_inv [OF assms] by (simp_all add: history_inv_def)
  then show u: "unat (chain_height c) = length (ch_blocks c) - 1"
    by (simp add: chain_height_def chain_tip_def height_of_def last_conv_nth)
  show "unat (chain_height c) < length (ch_blocks c)" using u ne by (simp add: Suc_le_eq)
  show "ch_blocks c ! unat (chain_height c) = chain_tip c" using u ne by (simp add: chain_tip_def last_conv_nth)
qed

lemma block_locator_spec:
  assumes "chain_ok E pow c"
  obtains hs where "block_locator E c = Some (map (\<lambda>h. block_id E (ch_blocks c ! h)) hs)"
    "hs \<noteq> []" "hd hs = length (ch_blocks c) - 1" "last hs = 0" "sorted_wrt (>) hs"
    "\<forall>m. length (ch_blocks c) \<le> 9 + 2 ^ m \<longrightarrow> length hs \<le> m + 10"
proof -
  note t = chain_tip_at [OF assms]
  have "\<exists>hs. block_locator E c = Some (map (\<lambda>h. block_id E (ch_blocks c ! h)) hs)
    \<and> hs \<noteq> [] \<and> hd hs = unat (chain_height c) \<and> last hs = 0 \<and> sorted_wrt (>) hs
    \<and> (\<forall>m. unat (chain_height c) \<le> 9 + (2 ^ m - 1) \<longrightarrow> length hs \<le> 9 + m + 1)"
    using locator_loop_spec [OF t(2), of 1 "[]" E] by (simp add: block_locator_def)
  then show thesis using t(1) that by (auto simp: le_diff_conv add.commute)
qed

section \<open>Orphan shares\<close>

text \<open>An iteration order of a table is a reordering of its entries.\<close>

definition reordering :: "pending_order \<Rightarrow> bool" where
  "reordering it \<longleftrightarrow> (\<forall>xs. mset (it xs) = mset xs)"

lemma reordering_set: "reordering it \<Longrightarrow> set (it xs) = set xs"
  unfolding reordering_def by (metis set_mset_mset)

lemma find_ready_Some:
  assumes "reordering it" and "smap_ok (nd_pending n)" and "find_ready it n = Some k"
  obtains origin share where "map_of (nd_pending n) k = Some (origin, share)"
    "\<not> template_missing share n" "\<not> previous_missing share n"
proof -
  obtain x where x: "List.find (\<lambda>(_, _, share). \<not> template_missing share n \<and> \<not> previous_missing share n)
      (it (nd_pending n)) = Some x" "fst x = k"
    using assms(3) by (auto simp: find_ready_def)
  obtain origin share where xs: "x = (k, origin, share)" using x(2) by (cases x) auto
  have "x \<in> set (nd_pending n)" using x(1) reordering_set [OF assms(1), of "nd_pending n"]
    by (auto simp: find_Some_iff) (metis nth_mem)
  then have "map_of (nd_pending n) k = Some (origin, share)"
    using smap_set_iff [OF assms(2)] xs by blast
  moreover have "\<not> template_missing share n \<and> \<not> previous_missing share n"
    using x(1) xs by (auto simp: find_Some_iff)
  ultimately show thesis using that by blast
qed

lemma find_ready_None:
  "reordering it \<Longrightarrow> find_ready it n = None \<longleftrightarrow>
     (\<forall>(_, _, share) \<in> set (nd_pending n). template_missing share n \<or> previous_missing share n)"
  using reordering_set [of it "nd_pending n"] by (auto simp: find_ready_def find_None_iff)

lemma node_ok_pending:
  assumes "node_ok E pow n"
  shows "smap_ok (nd_pending n)" "map_of (nd_pending n) k = Some (origin, s) \<Longrightarrow> workshare_ok E s"
  using assms by (auto simp: node_ok_def pending_part_def)

lemma node_ok_remove_pending:
  assumes "node_ok E pow n"
  shows "node_ok E pow (n\<lparr>nd_pending := smap_remove k (nd_pending n)\<rparr>)"
proof -
  have "pending_part E (n\<lparr>nd_pending := smap_remove k (nd_pending n)\<rparr>)"
    using assms by (auto simp: node_ok_def pending_part_def intro: order_trans [OF length_smap_remove_le])
  then show ?thesis using assms by (simp add: node_ok_def node_parts)
qed

text \<open>Processing the orphan shares ends and leaves none that is ready.\<close>

lemma process_pending_ok:
  assumes "reordering it" and "node_ok E pow n"
  shows "\<exists>n'. process_pending_workshares E pow now it n = Some n' \<and> node_ok E pow n'
    \<and> nd_chain n' = nd_chain n \<and> nd_peers n' = nd_peers n \<and> set (nd_pending n') \<subseteq> set (nd_pending n)
    \<and> find_ready it n' = None"
  using assms(2)
proof (induction "length (nd_pending n)" arbitrary: n rule: less_induct)
  case less
  show ?case
  proof (cases "find_ready it n")
    case None
    then show ?thesis using less.prems by (subst process_pending_workshares.simps) simp
  next
    case (Some k)
    note p = node_ok_pending [OF less.prems]
    obtain origin share where share: "map_of (nd_pending n) k = Some (origin, share)"
      by (rule find_ready_Some [OF assms(1) p(1) Some])
    let ?n = "n\<lparr>nd_pending := smap_remove k (nd_pending n)\<rparr>"
    let ?m = "snd (node_submit_workshare E pow now share ?n)"
    have ok: "node_ok E pow ?n" by (rule node_ok_remove_pending [OF less.prems])
    note m = submit_workshare_node [OF ok p(2) [OF share], of now]
    have lt: "length (nd_pending ?m) < length (nd_pending n)"
      using length_smap_remove [of "nd_pending n" k] share m(3) by (simp add: smap_contains_def)
    have step: "process_pending_workshares E pow now it n = process_pending_workshares E pow now it ?m"
      using Some share by (subst process_pending_workshares.simps) simp
    have sub: "set (nd_pending ?m) \<subseteq> set (nd_pending n)"
      using set_smap_remove [OF p(1)] m(3) by auto
    from less.hyps [OF lt m(1)] show ?thesis using step m sub by auto
  qed
qed

section \<open>Messages\<close>

lemma handle_block_ok:
  assumes ok: "node_ok E pow n" and wf: "block_wf E b"
  shows "\<exists>r n'. handle_block E pow now peer b n = Some (r, n') \<and> node_ok E pow n'"
proof -
  obtain r n' where sb: "submit_block E pow now b n = Some (r, n')" "node_ok E pow n'"
    by (cases rule: submit_block_ok [OF ok wf, of now]) blast+
  have "chain_ok E pow (nd_chain n')" using sb(2) by (simp add: node_ok_def)
  then obtain l where "block_locator E (nd_chain n') = Some l" by (rule block_locator_spec)
  then show ?thesis using sb drop_queue_ok [OF sb(2)] set_queue_ok [OF sb(2)]
    by (auto simp: handle_block_def split: sum.split option.split list.split)
qed

lemma handle_share_ok:
  assumes it: "reordering it" and ok: "node_ok E pow n" and share: "workshare_ok E share"
  shows "\<exists>r n'. handle_share E pow now it peer share n = Some (r, n') \<and> node_ok E pow n'"
proof (cases "template_missing share n \<or> previous_missing share n")
  case True
  let ?k = "workshare_id E share"
  let ?n = "n\<lparr>nd_pending := smap_insert ?k (peer, share) (nd_pending n)\<rparr>"
  have "node_ok E pow ?n" if "length (nd_pending n) < MAX_PENDING_WORKSHARES" "\<not> smap_contains (nd_pending n) ?k"
    using ok that share by (auto simp: node_ok_def node_parts length_smap_insert split: if_splits)
  then show ?thesis using True ok by (simp add: handle_share_def Let_def)
next
  case False
  note s = submit_workshare_node [OF ok share, of now]
  from process_pending_ok [OF it s(1), of now] show ?thesis using False by (auto simp: handle_share_def)
qed

lemma handle_template_ok:
  assumes it: "reordering it" and ok: "node_ok E pow n" and t: "template_wf E t"
  shows "\<exists>r n'. handle_template E pow now it peer t n = Some (r, n') \<and> node_ok E pow n'"
proof -
  obtain r n1 where r: "register_template E t n = (r, n1)" by fastforce
  then have ok1: "node_ok E pow n1" using register_template_ok(1) [OF ok t] by simp
  from process_pending_ok [OF it ok1, of now] show ?thesis using ok1 r
    by (auto simp: handle_template_def split: sum.split)
qed

lemma handle_headers_ok:
  assumes "node_ok E pow n"
  shows "node_ok E pow (snd (handle_headers E peer headers n))"
  using assms drop_queue_ok set_queue_ok by (auto simp: handle_headers_def split: option.split list.split)

text \<open>Whatever well-formed message a peer sends, the handler returns and keeps the invariant.\<close>

lemma handle_wire_ok:
  assumes it: "reordering it" and ok: "node_ok E pow n" and wf: "wire_wf E m"
  shows "\<exists>r n'. handle_wire E pow now it peer m n = Some (r, n') \<and> node_ok E pow n'"
proof (cases m)
  case (MsgBlock b)
  then show ?thesis using handle_block_ok [OF ok] wf by (simp add: handle_wire_def)
next
  case (MsgTransaction t)
  obtain r n' where "submit_transaction E now t n = Some (r, n')" "node_ok E pow n'"
    by (rule submit_transaction_ok [OF ok, of t now]) (use wf MsgTransaction in simp_all)
  then show ?thesis by (simp add: handle_wire_def MsgTransaction)
next
  case (MsgTemplate t)
  then show ?thesis using handle_template_ok [OF it ok] wf by (simp add: handle_wire_def)
next
  case (MsgWorkshare s)
  then show ?thesis using handle_share_ok [OF it ok] wf by (simp add: handle_wire_def)
next
  case (MsgHeaders hs)
  then show ?thesis using handle_headers_ok [OF ok, of peer hs]
    by (cases "handle_headers E peer hs n") (simp add: handle_wire_def)
qed (use ok in \<open>simp_all add: handle_wire_def\<close>)

section \<open>Runs of a node\<close>

text \<open>A step of a node: a call of one of its operations by a peer, the miner, the API or the network
  layer, with the clock and the iteration order of that moment.  Arguments are what the decoders deliver.\<close>

inductive node_step :: "prims \<Rightarrow> pow_verifier \<Rightarrow> node \<Rightarrow> node \<Rightarrow> bool" for E pow where
  transaction: "transaction_wf E t \<Longrightarrow> submit_transaction E now t n = Some (r, n') \<Longrightarrow> node_step E pow n n'"
| block: "block_wf E b \<Longrightarrow> submit_block E pow now b n = Some (r, n') \<Longrightarrow> node_step E pow n n'"
| template: "template_wf E t \<Longrightarrow> register_template E t n = (r, n') \<Longrightarrow> node_step E pow n n'"
| share: "workshare_ok E s \<Longrightarrow> node_submit_workshare E pow now s n = (r, n') \<Longrightarrow> node_step E pow n n'"
| candidate: "young (nd_chain n) \<Longrightarrow> make_candidate E now extranonce n = Some (r, n') \<Longrightarrow> node_step E pow n n'"
| connect: "peer_connected peer inbound n = (r, n') \<Longrightarrow> node_step E pow n n'"
| disconnect: "node_step E pow n (peer_disconnected peer n)"
| message: "reordering it \<Longrightarrow> wire_wf E m \<Longrightarrow> handle_wire E pow now it peer m n = Some (r, n') \<Longrightarrow>
    node_step E pow n n'"

inductive_cases node_stepE: "node_step E pow n n'"

lemma node_step_ok:
  assumes "node_step E pow n n'" and "node_ok E pow n"
  shows "node_ok E pow n'"
  using assms
proof (cases rule: node_step.cases)
  case (transaction t now r)
  then show ?thesis using submit_transaction_ok [OF assms(2), of t now] by (metis option.inject prod.inject)
next
  case (block b now r)
  then show ?thesis
    by (cases rule: submit_block_ok [OF assms(2) block(1), of now]) auto
next
  case (template t r)
  then show ?thesis using register_template_ok(1) [OF assms(2) template(1)] by simp
next
  case (share s now r)
  then show ?thesis using submit_workshare_node(1) [OF assms(2) share(1), of now] by simp
next
  case (candidate now extranonce r)
  then show ?thesis using make_candidate_ok [OF assms(2) candidate(1), of now extranonce]
    by (metis option.inject prod.inject)
next
  case (connect peer inbound r)
  then show ?thesis using peer_connected_ok(1) [OF assms(2), of peer inbound] by simp
next
  case (disconnect peer)
  then show ?thesis using peer_disconnected_ok [OF assms(2)] by simp
next
  case (message it m now peer r)
  then show ?thesis using handle_wire_ok [OF message(1) assms(2) message(2), of now peer] by simp
qed

section \<open>Starting a node\<close>

lemma node_open_ok:
  assumes "chain_ok E pow c" and "storage_ok E db" "initialize_identity E db = Inr db" "chain_stored E c db"
  shows "node_ok E pow (node_open config E c db)"
proof -
  have "live_pool E pow (ch_blocks c) (ch_state c) (pool_reset (block_id E (chain_tip c)))"
    unfolding chain_tip_def by (rule live_pool.start)
  moreover have "pool_ok E (mempool_new relay_policy_default)" by (rule pool_ok_new)
  ultimately show ?thesis using assms
    by (simp add: node_ok_def node_parts node_open_def pool_typed_def pool_reset_def mempool_new_def)
qed

text \<open>The first start creates the database of the genesis chain.\<close>

lemma open_fresh_ok:
  assumes "open_chain E pow now storage_empty = Some (Inr (c, db))"
  shows "chain_ok E pow c" "storage_ok E db" "initialize_identity E db = Inr db" "chain_stored E c db"
    "ch_blocks c = [genesis E]"
proof -
  obtain db1 where db1: "initialize_identity E storage_empty = Inr db1" "db_blocks db1 = []"
    "db_snapshots db1 = []" "db_active db1 = []"
    by (simp add: initialize_identity_def storage_empty_def)
  obtain w where g: "chain_genesis E = Some \<lparr>ch_blocks = [genesis E], ch_state = ledger_default E, ch_work = w\<rparr>"
    by (rule chain_genesis_Some)
  have l: "load_active_blocks E db1 = Inr []" by (simp add: load_active_blocks_def db1)
  have c: "chain_genesis E = Some c" and sv: "save_chain E now c db1 = Inr db"
    using assms g by (auto simp: open_chain_def db1(1) l result_simps)
  show cok: "chain_ok E pow c" by (rule chain_genesis_ok [OF c])
  show bl: "ch_blocks c = [genesis E]" using g c by simp
  have st: "storage_ok E db1" by (simp add: storage_ok_def db1)
  have wf: "\<forall>b \<in> set (ch_blocks c). block_wf E b \<and> length (block_enc b) \<le> MAX_CONSENSUS_ALLOCATION"
    using genesis_wf [of E] by (simp add: bl storable_def)
  show "storage_ok E db" "chain_stored E c db" using save_chain_stored [OF sv st cok wf] by simp_all
  show "initialize_identity E db = Inr db"
    by (rule save_chain_identity [OF sv initialize_identity_again [OF db1(1)]])
qed

text \<open>Rows of a sound table decode to well-formed blocks with the ids of the rows.\<close>

lemma load_rows_ids:
  assumes "storage_ok E db" and "\<forall>k \<in> set ids. smap_contains (db_blocks db) k" and "length hs = length ids"
  shows "\<exists>bs. try_fold (\<lambda>bs row. rbind (decode_stored E (sb_data row)) (\<lambda>b. Inr (bs @ [b]))) acc
     (concat (map (\<lambda>(height, hash). case smap_get (db_blocks db) hash of Some row \<Rightarrow> [row] | None \<Rightarrow> [])
       (zip hs ids))) = Inr (acc @ bs) \<and> map (block_id E) bs = ids
     \<and> (\<forall>b \<in> set bs. block_wf E b \<and> length (block_enc b) \<le> MAX_CONSENSUS_ALLOCATION)"
  using assms(3,2)
proof (induction hs ids arbitrary: acc rule: list_induct2)
  case (Cons h hs k ids)
  obtain row where row: "smap_get (db_blocks db) k = Some row"
    using Cons.prems by (auto simp: smap_contains_def)
  then obtain b where b: "block_wf E b" "sb_data row = block_enc b" "block_id E b = k"
    "length (block_enc b) \<le> MAX_CONSENSUS_ALLOCATION"
    using assms(1) unfolding storage_ok_def by blast
  note d = decode_stored_enc [OF b(1,4)]
  obtain bs where "try_fold (\<lambda>bs row. rbind (decode_stored E (sb_data row)) (\<lambda>b. Inr (bs @ [b]))) (acc @ [b])
     (concat (map (\<lambda>(height, hash). case smap_get (db_blocks db) hash of Some row \<Rightarrow> [row] | None \<Rightarrow> [])
       (zip hs ids))) = Inr ((acc @ [b]) @ bs)" "map (block_id E) bs = ids"
     "\<forall>b \<in> set bs. block_wf E b \<and> length (block_enc b) \<le> MAX_CONSENSUS_ALLOCATION"
    using Cons.IH [of "acc @ [b]"] Cons.prems by auto
  then show ?case using row b d by (intro exI [of _ "b # bs"]) simp
qed simp

lemma zip_map_map_same: "zip (map f xs) (map g xs) = map (\<lambda>x. (f x, g x)) xs"
  by (induction xs) simp_all

lemma heights_enumerate:
  assumes "chain_ok E pow c" "chain_ok E pow c'" "length (ch_blocks c) = length (ch_blocks c')"
  shows "map (\<lambda>b. bh_height (blk_header b)) (ch_blocks c) = map (\<lambda>b. bh_height (blk_header b)) (ch_blocks c')"
proof (rule nth_equalityI)
  fix i assume "i < length (map (\<lambda>b. bh_height (blk_header b)) (ch_blocks c))"
  then have i: "i < length (ch_blocks c)" "i < length (ch_blocks c')" using assms(3) by simp_all
  then have "unat (bh_height (blk_header (ch_blocks c ! i))) = unat (bh_height (blk_header (ch_blocks c' ! i)))"
    using chain_ok_inv [OF assms(1)] chain_ok_inv [OF assms(2)] by (simp add: history_inv_def height_of_def)
  then show "map (\<lambda>b. bh_height (blk_header b)) (ch_blocks c) ! i
      = map (\<lambda>b. bh_height (blk_header b)) (ch_blocks c') ! i" using i by (simp add: word_unat_eq_iff)
qed (use assms(3) in simp)

text \<open>A restart on the node's own database.\<close>

lemma open_again_ok:
  assumes ok: "node_ok E pow n" and op: "open_chain E pow now (nd_storage n) = Some (Inr (c, db))"
  shows "chain_ok E pow c" "chain_stored E c db" "db = nd_storage n"
    "map (block_id E) (ch_blocks c) = map (block_id E) (ch_blocks (nd_chain n))"
proof -
  let ?db = "nd_storage n" and ?l = "ch_blocks (nd_chain n)"
  have st: "storage_ok E ?db" and idn: "initialize_identity E ?db = Inr ?db" and cs: "chain_stored E (nd_chain n) ?db"
    and lok: "chain_ok E pow (nd_chain n)" using ok by (simp_all add: node_ok_def storage_part_def)
  have act: "db_active ?db = zip (map (\<lambda>b. bh_height (blk_header b)) ?l) (map (block_id E) ?l)"
    using cs by (simp add: chain_stored_def zip_map_map_same)
  have have_rows: "\<forall>k \<in> set (map (block_id E) ?l). smap_contains (db_blocks ?db) k"
    using cs by (simp add: chain_stored_def)
  have len: "length (map (\<lambda>b. bh_height (blk_header b)) ?l) = length (map (block_id E) ?l)" by simp
  obtain bs where bs: "load_active_blocks E ?db = Inr bs" "map (block_id E) bs = map (block_id E) ?l"
    "\<forall>b \<in> set bs. block_wf E b \<and> length (block_enc b) \<le> MAX_CONSENSUS_ALLOCATION"
    using load_rows_ids [OF st have_rows len, of "[]"] by (auto simp: load_active_blocks_def act)
  have ne: "?l \<noteq> []" using chain_ok_inv [OF lok] by (simp add: history_inv_def)
  then have "bs \<noteq> []" using bs(2) by auto
  then have fb: "chain_from_blocks E pow now bs = Inr c" and db: "db = ?db"
    using op by (auto simp: open_chain_def idn bs(1) result_simps)
  show "db = ?db" by (rule db)
  have cb: "ch_blocks c = bs" "bs \<noteq> []" "hd bs = genesis E" using from_blocks_starts [OF fb] by simp_all
  show "map (block_id E) (ch_blocks c) = map (block_id E) ?l" using bs(2) cb(1) by simp
  have "distinct (map (block_id E) bs)" using cs bs(2) by (simp add: chain_stored_def)
  then have "\<forall>b \<in> set (tl bs). b \<noteq> genesis E" using cb(2,3) by (cases bs) auto
  then have tl: "\<forall>b \<in> set (tl bs). b \<noteq> genesis E \<and> block_typed E b"
    using bs(3) cb(2) by (auto intro: block_wf_typed dest: list.set_sel(2))
  show cok: "chain_ok E pow c" by (rule from_blocks_ok(1) [OF fb tl])
  have "length bs = length ?l" using bs(2) by (metis length_map)
  then have hs: "map (\<lambda>b. bh_height (blk_header b)) bs = map (\<lambda>b. bh_height (blk_header b)) ?l"
    using heights_enumerate [OF cok lok] cb(1) by simp
  have h63: "unat (bh_height (blk_header b)) < 2 ^ 63" if b: "b \<in> set bs" for b
  proof -
    have "bh_height (blk_header b) \<in> set (map (\<lambda>b. bh_height (blk_header b)) ?l)"
      unfolding hs [symmetric] using b by simp
    then obtain x where x: "x \<in> set ?l" "bh_height (blk_header b) = bh_height (blk_header x)" by auto
    then have "storable E x" using cs by (simp add: chain_stored_def)
    then show ?thesis by (simp add: x(2) storable_def)
  qed
  have "block_id E b \<in> set (map (block_id E) ?l)" if "b \<in> set bs" for b
    unfolding bs(2) [symmetric] using that by simp
  then have "smap_contains (db_blocks ?db) (block_id E b)" if "b \<in> set bs" for b
    using that have_rows by blast
  moreover have "db_active ?db = map (\<lambda>b. (bh_height (blk_header b), block_id E b)) bs"
    unfolding act hs [symmetric] bs(2) [symmetric] by (simp add: zip_map_map_same)
  ultimately show "chain_stored E c db"
    using cs bs(2,3) h63 by (simp add: chain_stored_def storable_def cb(1) db)
qed

text \<open>A run starts with an empty database and goes through operations and restarts.\<close>

inductive node_run :: "prims \<Rightarrow> pow_verifier \<Rightarrow> node \<Rightarrow> bool" for E pow where
  fresh: "open_chain E pow now storage_empty = Some (Inr (c, db)) \<Longrightarrow> node_run E pow (node_open config E c db)"
| step: "node_run E pow n \<Longrightarrow> node_step E pow n n' \<Longrightarrow> node_run E pow n'"
| restart: "node_run E pow n \<Longrightarrow> open_chain E pow now (nd_storage n) = Some (Inr (c, db)) \<Longrightarrow>
    node_run E pow (node_open config E c db)"

lemma node_run_ok: "node_run E pow n \<Longrightarrow> node_ok E pow n"
proof (induction rule: node_run.induct)
  case (fresh now c db config)
  from open_fresh_ok(1-4) [OF fresh] show ?case by (rule node_open_ok)
next
  case (step n n')
  from node_step_ok [OF step.hyps(2) step.IH] show ?case .
next
  case (restart n now c db config)
  note o = open_again_ok [OF restart.IH restart.hyps(2)]
  have "storage_ok E db" "initialize_identity E db = Inr db"
    using restart.IH o(3) by (simp_all add: node_ok_def storage_part_def)
  then show ?case using o(1,2) by (intro node_open_ok)
qed

section \<open>The chain of a node\<close>

lemma submit_block_chain:
  assumes "node_ok E pow n" and "block_wf E b" and "submit_block E pow now b n = Some (r, n')"
  shows "(nd_chain n' = nd_chain n \<and> nd_generation n' = nd_generation n)
    \<or> (outranks (chain_key E (nd_chain n')) (chain_key E (nd_chain n)) \<and> nd_generation n' = nd_generation n + 1)"
  using assms(3) by (cases rule: submit_block_ok [OF assms(1,2), of now]) (auto simp: successor_def)

lemma handle_wire_chain:
  assumes it: "reordering it" and ok: "node_ok E pow n" and wf: "wire_wf E m"
    and h: "handle_wire E pow now it peer m n = Some (r, n')"
  shows "nd_chain n' = nd_chain n \<or>
    (outranks (chain_key E (nd_chain n')) (chain_key E (nd_chain n)) \<and> nd_generation n' = nd_generation n + 1)"
proof (cases m)
  case (MsgBlock b)
  obtain r1 n1 where sb: "submit_block E pow now b n = Some (r1, n1)"
    by (cases rule: submit_block_ok [OF ok, of b now]) (use wf MsgBlock in auto)
  have "nd_chain n' = nd_chain n1 \<and> nd_generation n' = nd_generation n1"
    using h sb by (auto simp: handle_wire_def MsgBlock handle_block_def drop_queue_def
        split: sum.splits option.splits list.splits if_splits)
  then show ?thesis using submit_block_chain [OF ok _ sb] wf MsgBlock by auto
next
  case (MsgTransaction t)
  obtain r1 n1 where "submit_transaction E now t n = Some (r1, n1)" "nd_chain n1 = nd_chain n"
    by (rule submit_transaction_ok [OF ok, of t now]) (use wf MsgTransaction in simp_all)
  then show ?thesis using h by (simp add: handle_wire_def MsgTransaction)
next
  case (MsgTemplate t)
  obtain r1 n1 where r: "register_template E t n = (r1, n1)" by fastforce
  have t: "template_wf E t" using wf MsgTemplate by simp
  have n1: "node_ok E pow n1" "nd_chain n1 = nd_chain n" using register_template_ok [OF ok t] r by simp_all
  show ?thesis using h r process_pending_ok [OF it n1(1), of now] n1(2)
    by (auto simp: handle_wire_def MsgTemplate handle_template_def split: sum.splits option.splits)
next
  case (MsgWorkshare s)
  have s: "workshare_ok E s" using wf MsgWorkshare by simp
  note m = submit_workshare_node [OF ok s, of now]
  show ?thesis using h process_pending_ok [OF it m(1), of now] m(2)
    by (auto simp: handle_wire_def MsgWorkshare handle_share_def Let_def split: option.splits if_splits)
next
  case (MsgHeaders hs)
  then show ?thesis using h
    by (auto simp: handle_wire_def handle_headers_def drop_queue_def split: option.splits list.splits if_splits)
qed (use h in \<open>auto simp: handle_wire_def\<close>)

lemma node_step_chain:
  assumes "node_step E pow n n'" and "node_ok E pow n"
  shows "nd_chain n' = nd_chain n \<or>
    (outranks (chain_key E (nd_chain n')) (chain_key E (nd_chain n)) \<and> nd_generation n' = nd_generation n + 1)"
  using assms
proof (cases rule: node_step.cases)
  case (transaction t now r)
  obtain r1 n1 where "submit_transaction E now t n = Some (r1, n1)" "nd_chain n1 = nd_chain n"
    by (rule submit_transaction_ok [OF assms(2) transaction(1), of now])
  then show ?thesis using transaction(2) by simp
next
  case (block b now r)
  from submit_block_chain [OF assms(2) block] show ?thesis by auto
next
  case (template t r)
  then show ?thesis using register_template_ok(2) [OF assms(2) template(1)] by simp
next
  case (share s now r)
  then show ?thesis using submit_workshare_node(2) [OF assms(2) share(1), of now] by simp
next
  case (candidate now extranonce r)
  obtain r1 n1 where "make_candidate E now extranonce n = Some (r1, n1)" "nd_chain n1 = nd_chain n"
    by (rule make_candidate_ok [OF assms(2) candidate(1), of now extranonce])
  then show ?thesis using candidate(2) by simp
next
  case (connect peer inbound r)
  then show ?thesis using peer_connected_ok(2) [OF assms(2), of peer inbound] by simp
next
  case (disconnect peer)
  then show ?thesis by (simp add: peer_disconnected_def)
next
  case (message it m now peer r)
  from handle_wire_chain [OF message(1) assms(2) message(2,3)] show ?thesis .
qed

lemma outranks_work: "outranks (chain_key E c') (chain_key E c) \<Longrightarrow> ch_work c \<le> ch_work c'"
  by (auto simp: chain_key_def)

section \<open>A first run\<close>

lemma open_fresh_Some:
  assumes "unat now < 2 ^ 63"
  shows "\<exists>c db. open_chain E pow now storage_empty = Some (Inr (c, db))"
proof -
  obtain db1 where db1: "initialize_identity E storage_empty = Inr db1" "db_blocks db1 = []"
    "db_snapshots db1 = []" "db_active db1 = []"
    by (simp add: initialize_identity_def storage_empty_def)
  obtain w where g: "chain_genesis E = Some \<lparr>ch_blocks = [genesis E], ch_state = ledger_default E, ch_work = w\<rparr>"
    by (rule chain_genesis_Some)
  have "load_active_blocks E db1 = Inr []" by (simp add: load_active_blocks_def db1)
  then show ?thesis using assms
    by (simp add: open_chain_def db1 g save_chain_def insert_block_def insert_active_def to_i64_def
        chain_height_def chain_tip_def Let_def rbind_def smap_contains_def)
qed

lemma sample_run:
  obtains db w where "node_run sample_env sample_pow (node_open sample_config sample_env (sample_genesis_chain w) db)"
    "cumulative_work [genesis sample_env] = Inr w" "smap_contains (db_blocks db) (block_id sample_env (genesis sample_env))"
proof -
  obtain c db where o: "open_chain sample_env sample_pow 5 storage_empty = Some (Inr (c, db))"
    using open_fresh_Some [of 5 sample_env sample_pow] by auto
  note f = open_fresh_ok [OF o]
  have vh: "valid_history sample_env sample_pow [genesis sample_env] (ch_state c)"
    and w: "cumulative_work [genesis sample_env] = Inr (ch_work c)"
    using f(1) by (simp_all add: chain_ok_def f(5))
  obtain w' where g: "chain_genesis sample_env = Some \<lparr>ch_blocks = [genesis sample_env],
      ch_state = ledger_default sample_env, ch_work = w'\<rparr>" by (rule chain_genesis_Some)
  have "ch_state c = ledger_default sample_env" using vh by (cases rule: valid_history.cases) auto
  then have c: "c = sample_genesis_chain (ch_work c)" by (cases c) (use f(5) in \<open>simp add: sample_genesis_chain_def\<close>)
  show thesis
    using node_run.fresh [OF o, of sample_config] w f(4)
    by (intro that [of "ch_work c" db]) (simp_all add: c [symmetric] chain_stored_def f(5))
qed

end
