(* ===== verification/Node_Properties.thy ===== *)
theory Node_Properties
  imports Node_Invariant
begin

text \<open>
  What a node guarantees along every run: its state stays consistent, no peer can stop it, its chain only
  improves, a restart loses nothing and the blocks it mines extend its chain.
\<close>

section \<open>Properties of every run\<close>



text \<open>C7: No peer can crash or hang a node: whatever bytes arrive, if they are a frame at all, the handler
  returns in every reachable state and for every iteration order of the table of orphans, and the node
  goes on.\<close>

theorem peers_cannot_stop_node:
  assumes "node_run E pow n" and "decode_frame E frame = Inr m" and "reordering it"
  shows "\<exists>reply n'. handle_wire E pow now it peer m n = Some (reply, n') \<and> node_run E pow n'"
proof -
  have wf: "wire_wf E m" using assms(2) by (simp add: decode_frame_iff)
  obtain reply n' where "handle_wire E pow now it peer m n = Some (reply, n')"
    using handle_wire_ok [OF assms(3) node_run_ok [OF assms(1)] wf] by blast
  then show ?thesis using node_run.step [OF assms(1) node_step.message [OF assms(3) wf]] by blast
qed

lemma sample_block_wf: "block_wf sample_env sample_block"
  by (simp add: block_wf_def witness_wf_def template_wf_def claim_ok_def workshare_ok_def
      sample_block_def sample_witness_def sample_share_def sample_template_def limit_defs
      witness_enc_def template_enc_def put_vec_def put_list_def)

lemma sample_block_frame: "decode_frame sample_env (encode_frame (MsgBlock sample_block)) = Inr (MsgBlock sample_block)"
proof -
  have w: "length (witness_enc sample_witness) = 323"
    by (simp add: witness_enc_def sample_witness_def put_vec_def put_list_def workshare_enc_def
        template_enc_def sample_template_def)
  have b: "length (block_enc sample_block) \<le> 1000"
    by (simp add: block_enc_def sample_block_def w put_vec_def put_list_def)
  then have "length (encode_frame (MsgBlock sample_block)) \<le> MAX_WIRE_FRAME"
    by (simp add: encode_frame_def WIRE_MAGIC_def ascii_def MAX_WIRE_FRAME_def limit_defs put_fixed_def)
  then show ?thesis using b sample_block_wf by (simp add: decode_frame_iff limit_defs)
qed

theorem peers_cannot_stop_node_witness:
  "\<exists>n reply n'. nd_config n = sample_config
    \<and> handle_wire sample_env sample_pow sample_now rev hash_zero (MsgBlock sample_block) n = Some (reply, n')"
proof -
  obtain db w where r: "node_run sample_env sample_pow
      (node_open sample_config sample_env (sample_genesis_chain w) db)" by (rule sample_run)
  have it: "reordering rev" by (simp add: reordering_def)
  show ?thesis
    using peers_cannot_stop_node [OF r sample_block_frame it, of sample_now hash_zero]
    by (intro exI [of _ "node_open sample_config sample_env (sample_genesis_chain w) db"])
      (auto simp: node_open_def)
qed

text \<open>C5: The chain of a node only improves: an operation leaves it as it is, or replaces it with one of
  more work, or of equal work and a lower tip id, and then the generation counter tells the miners.\<close>

theorem chain_only_improves:
  assumes "node_run E pow n" and "node_step E pow n n'"
  shows "nd_chain n' = nd_chain n
    \<or> (nd_generation n' = nd_generation n + 1
       \<and> (ch_work (nd_chain n) < ch_work (nd_chain n')
          \<or> (ch_work (nd_chain n') = ch_work (nd_chain n)
             \<and> block_id E (chain_tip (nd_chain n')) < block_id E (chain_tip (nd_chain n)))))"
  using node_step_chain [OF assms(2) node_run_ok [OF assms(1)]] by (auto simp: chain_key_def)

theorem chain_only_improves_witness:
  "\<exists>n r n'. nd_config n = sample_config \<and> submit_block sample_env sample_pow sample_now sample_block n = Some (r, n')
    \<and> ch_work (nd_chain n) \<le> ch_work (nd_chain n')"
proof -
  obtain db w where r: "node_run sample_env sample_pow
      (node_open sample_config sample_env (sample_genesis_chain w) db)" (is "node_run _ _ ?n") by (rule sample_run)
  obtain x n' where sb: "submit_block sample_env sample_pow sample_now sample_block ?n = Some (x, n')"
    by (cases rule: submit_block_ok [OF node_run_ok [OF r] sample_block_wf, of sample_now]) auto
  have "ch_work (nd_chain ?n) \<le> ch_work (nd_chain n')"
    using chain_only_improves [OF r node_step.block [OF sample_block_wf sb]] by auto
  then show ?thesis using sb by (intro exI [of _ ?n]) (auto simp: node_open_def)
qed

section \<open>Saving succeeds\<close>

lemma insert_blocks_total:
  assumes "unat now < 2 ^ 63" and "\<forall>b \<in> set bs. unat (bh_height (blk_header b)) < 2 ^ 63"
  shows "\<exists>m'. try_fold (insert_block E now) m bs = Inr m'"
  using assms(2)
proof (induction bs arbitrary: m)
  case (Cons b bs)
  obtain m1 where "insert_block E now m b = Inr m1" using Cons.prems assms(1) by (simp add: insert_block_Inr)
  then show ?case using Cons.IH [of m1] Cons.prems by simp
qed simp

lemma insert_active_total:
  assumes "\<forall>b \<in> set bs. unat (bh_height (blk_header b)) < 2 ^ 63 \<and> smap_contains blocks (block_id E b)"
    and "sorted_wrt (<) (map fst m @ map (\<lambda>b. bh_height (blk_header b)) bs)"
    and "distinct (map snd m @ map (block_id E) bs)"
  shows "\<exists>m'. try_fold (insert_active E blocks) m bs = Inr m'"
  using assms
proof (induction bs arbitrary: m)
  case (Cons b bs)
  let ?m = "m @ [(bh_height (blk_header b), block_id E b)]"
  have ins: "smap_insert (bh_height (blk_header b)) (block_id E b) m = ?m"
    using Cons.prems(2) by (intro smap_insert_last) (auto simp: sorted_wrt_append)
  have "\<not> smap_contains m (bh_height (blk_header b))"
    using Cons.prems(2) by (force simp: sorted_wrt_append smap_contains_keys)
  moreover have "block_id E b \<notin> snd ` set m" using Cons.prems(3) by auto
  ultimately have "insert_active E blocks m b = Inr ?m"
    using Cons.prems(1) ins by (simp add: insert_active_Inr)
  then show ?case using Cons.IH [of ?m] Cons.prems by simp
qed simp

lemma save_chain_total:
  assumes "chain_ok E pow c" and "unat now < 2 ^ 63" and "length (ch_blocks c) \<le> 2 ^ 63"
    and "distinct (map (block_id E) (ch_blocks c))"
  shows "\<exists>db'. save_chain E now c db = Inr db'"
proof -
  have inv: "history_inv E (ch_blocks c) (ch_state c)" by (rule chain_ok_inv [OF assms(1)])
  have h: "unat (bh_height (blk_header b)) < 2 ^ 63" if b: "b \<in> set (ch_blocks c)" for b
  proof -
    obtain i where i: "i < length (ch_blocks c)" "b = ch_blocks c ! i" using b by (auto simp: in_set_conv_nth)
    then show ?thesis using inv assms(3) by (simp add: history_inv_def height_of_def)
  qed
  obtain blocks where bl: "try_fold (insert_block E now) (db_blocks db) (ch_blocks c) = Inr blocks"
    using insert_blocks_total [OF assms(2)] h by blast
  have vh: "valid_history E pow (ch_blocks c) (ch_state c)" using assms(1) by (simp add: chain_ok_def)
  have "\<exists>active. try_fold (insert_active E blocks) [] (ch_blocks c) = Inr active"
    using insert_blocks_rows [OF bl] h history_heights_sorted [OF vh] assms(4)
    by (intro insert_active_total) (auto simp: smap_contains_def)
  moreover have "chain_tip c \<in> set (ch_blocks c)" using inv by (simp add: history_inv_def chain_tip_def)
  then have "unat (chain_height c) < 2 ^ 63" using h by (simp add: chain_height_def)
  ultimately show ?thesis using bl assms(2) by (auto simp: save_chain_Inr)
qed

section \<open>Restarting\<close>

lemma block_enc_inject:
  assumes "block_enc b = block_enc b'" and "block_wf E b" "block_wf E b'"
    and "length (block_enc b') \<le> MAX_CONSENSUS_ALLOCATION"
  shows "b = b'"
proof -
  have "decode_stored E (block_enc b) = Inr b"
    by (rule decode_stored_enc [OF assms(2)]) (use assms(1,4) in simp)
  then show ?thesis using decode_stored_enc [OF assms(3,4)] unfolding assms(1) by simp
qed

lemma open_fresh_rows:
  assumes "open_chain E pow now storage_empty = Some (Inr (c, db))" and "smap_get (db_blocks db) k = Some row"
  shows "sb_data row = block_enc (genesis E)"
proof -
  obtain db1 where db1: "initialize_identity E storage_empty = Inr db1" "db_blocks db1 = []" "db_active db1 = []"
    by (simp add: initialize_identity_def storage_empty_def)
  obtain w where g: "chain_genesis E = Some \<lparr>ch_blocks = [genesis E], ch_state = ledger_default E, ch_work = w\<rparr>"
    by (rule chain_genesis_Some)
  have l: "load_active_blocks E db1 = Inr []" by (simp add: load_active_blocks_def db1)
  have sv: "save_chain E now c db1 = Inr db"
    using assms g by (auto simp: open_chain_def db1(1) l result_simps)
  obtain blocks where "try_fold (insert_block E now) (db_blocks db1) (ch_blocks c) = Inr blocks" "db_blocks db = blocks"
    using sv by (auto simp: save_chain_Inr)
  then show ?thesis
    using insert_blocks_rows [of E now "db_blocks db1" "ch_blocks c" blocks] assms(2) open_fresh_ok(5) [OF assms(1)]
    by (auto simp: db1)
qed

lemma fresh_twins:
  assumes "open_chain E pow now storage_empty = Some (Inr (c, db))"
    and "smap_get (db_blocks db) k = Some row" "sb_data row = block_enc b" "block_wf E b"
  shows "b = genesis E"
proof -
  have "block_enc b = block_enc (genesis E)" using open_fresh_rows [OF assms(1,2)] assms(3) by simp
  then show ?thesis
    by (rule block_enc_inject) (use assms(4) genesis_wf [of E] in \<open>auto simp only: storable_def\<close>)
qed

lemma restart_opens:
  assumes ok: "node_ok E pow n" and "\<forall>b \<in> set (ch_blocks (nd_chain n)). time_of b \<le> unat now + 300"
    and "\<forall>b \<in> set (ch_blocks (nd_chain n)). \<forall>row b'.
      smap_get (db_blocks (nd_storage n)) (block_id E b) = Some row \<and> sb_data row = block_enc b'
        \<and> block_wf E b' \<and> block_id E b' = block_id E b \<longrightarrow> b' = b"
  shows "open_chain E pow now (nd_storage n) = Some (Inr (nd_chain n, nd_storage n))"
proof -
  let ?db = "nd_storage n" and ?l = "ch_blocks (nd_chain n)"
  have st: "storage_ok E ?db" and idn: "initialize_identity E ?db = Inr ?db" and cs: "chain_stored E (nd_chain n) ?db"
    and lok: "chain_ok E pow (nd_chain n)" using ok by (simp_all add: node_ok_def storage_part_def)
  have "storable E b \<and> (\<exists>row. smap_get (db_blocks ?db) (block_id E b) = Some row \<and> sb_data row = block_enc b)"
    if b: "b \<in> set ?l" for b
  proof -
    obtain row where row: "smap_get (db_blocks ?db) (block_id E b) = Some row" "storable E b"
      using cs b by (auto simp: chain_stored_def smap_contains_def)
    then obtain b' where "sb_data row = block_enc b'" "block_wf E b'" "block_id E b' = block_id E b"
      using st unfolding storage_ok_def by blast
    then show ?thesis using assms(3) b row by blast
  qed
  then have "load_active_blocks E ?db = Inr ?l"
    using load_rows [of ?l E "db_blocks ?db" "[]"] cs by (simp add: load_active_blocks_def chain_stored_def)
  moreover have "?l \<noteq> []" using chain_ok_inv [OF lok] by (simp add: history_inv_def)
  ultimately show ?thesis using idn chain_reopen [OF lok assms(2)] by (simp add: open_chain_def)
qed



lemma sample_header_id: "array_bytes (header_id sample_env h) ! 0 = header_enc h ! 4"
proof -
  have ne: "header_enc h \<noteq> []" "4 < length (header_enc h)"
    using length_header_enc [of h] by (auto simp del: length_header_enc)
  have d: "array_bytes (sample_digest bs) = replicate 5 (if 4 < length bs then bs ! 4 else 0) @ replicate 26 0
     @ [if bs = [] then 0 else last bs]" for bs by (simp add: sample_digest_def)
  show ?thesis using ne
    by (simp add: header_id_def sha256d_def sample_env_def d nth_append)
qed

lemma header_height_byte: "header_enc h ! 4 = word_of_nat (unat (bh_height h) mod 256)"
proof -
  have "le_bytes_nat 8 n ! 0 = word_of_nat (n mod 256)" for n
    using le_bytes_nat.simps(2) [of 7 n] by simp
  then show ?thesis by (simp add: header_enc_def nth_append put_u64_def to_le_bytes_def)
qed

lemma sample_block_new: "block_id sample_env sample_block \<noteq> block_id sample_env (genesis sample_env)"
proof
  assume "block_id sample_env sample_block = block_id sample_env (genesis sample_env)"
  then have "array_bytes (header_id sample_env (blk_header sample_block)) ! 0
      = array_bytes (header_id sample_env (blk_header (genesis sample_env))) ! 0" by (simp add: block_id_def)
  then show False
    by (simp add: sample_header_id header_height_byte sample_block_height)
qed

lemma sample_mined:
  assumes "mc_block mc = candidate_block sample_env (GENESIS_TIMESTAMP + 64) [] (sample_claim sample_alice)
      (sample_state sample_alice) sample_witness (sample_genesis_chain w)"
  shows "mined_block mc 7 = sample_block"
proof -
  have "candidate_timestamp (GENESIS_TIMESTAMP + 64) (sample_genesis_chain w) = GENESIS_TIMESTAMP + 64"
    by (simp add: candidate_timestamp_def sample_mtp GENESIS_TIMESTAMP_def)
  then show ?thesis
    by (simp add: mined_block_def assms candidate_block_def sample_block_def sample_header_def genesis_bits)
qed

text \<open>A node with a share in its pool, ready to mine.\<close>

lemma sample_miner:
  obtains db w where "node_ok sample_env sample_pow (sample_node db w sample_live_pool)"
    "young (nd_chain (sample_node db w sample_live_pool))" "unat w < 2 ^ 255"
proof -
  obtain db w where r: "node_run sample_env sample_pow (node_open sample_config sample_env (sample_genesis_chain w) db)"
    and w: "cumulative_work [genesis sample_env] = Inr w" by (rule sample_run)
  let ?n = "node_open sample_config sample_env (sample_genesis_chain w) db"
  have c: "nd_chain ?n = sample_genesis_chain w" by (simp add: node_open_def)
  have typed: "pool_typed sample_env sample_live_pool"
    by (simp add: pool_typed_def sample_live_pool_def sample_templates_def template_wf_def workshare_ok_def)
      (simp add: sample_template_def sample_share_def limit_defs)
  have "node_ok sample_env sample_pow (?n\<lparr>nd_workshares := sample_live_pool\<rparr>)"
    by (rule node_ok_workshares [OF node_run_ok [OF r] _ typed]) (simp add: c sample_live(1))
  moreover have "unat w < 2 ^ 255"
  proof -
    have "unat w = unat (target_work sample_target)"
      using cumulative_work_Inr(1) [OF w] by (simp add: block_work_def genesis_bits' sample_targets(1))
    also have "\<dots> < 2 ^ 255" by (simp add: unat_target_work sample_target_def)
    finally show ?thesis .
  qed
  ultimately show thesis by (intro that [of db w]) (simp_all add: sample_node_def young_def node_open_def)
qed

section \<open>Mining\<close>

lemma pool_witness_wf:
  assumes live: "live_pool E pow hist s p" and typed: "pool_typed E p" and wit: "pool_witness p = Some wit"
  shows "witness_wf E wit"
proof -
  note ok = live_pool_ok [OF live]
  note w = live_pool_witness(3,4) [OF live wit]
  have "(\<forall>t \<in> set (ww_templates wit). template_wf E t \<and> length (template_enc t) \<le> MAX_TEMPLATE_BYTES)
     \<and> (\<forall>s \<in> set (ww_workshares wit). workshare_ok E s)"
    using ok
  proof (cases rule: pool_witness_Some)
    case empty
    then show ?thesis using wit by (simp add: witness_empty_def)
  next
    case (tip share wit')
    have cw: "candidate_witness p share = Inr wit" using tip(3,4) wit by simp
    then obtain path where path: "share_path (wp_shares p) share [] [] = Inr path"
      and t: "ww_templates wit = map snd (filter (\<lambda>(k, t). k \<in> set (map ws_template_id path)) (wp_templates p))"
      and x: "ww_workshares wit = path" by (auto simp: candidate_witness_Inr)
    have tok: "smap_ok (wp_templates p)" using ok by (simp add: share_pool_ok_def)
    have "template_wf E u \<and> length (template_enc u) \<le> MAX_TEMPLATE_BYTES" if u: "u \<in> set (ww_templates wit)" for u
    proof -
      obtain k where "(k, u) \<in> set (wp_templates p)" using u by (auto simp: t)
      then have "map_of (wp_templates p) k = Some u" using smap_set_iff [OF tok] by blast
      then show ?thesis using typed ok by (auto simp: pool_typed_def share_pool_ok_def template_entry_ok_def)
    qed
    moreover have "workshare_ok E u" if u: "u \<in> set (ww_workshares wit)" for u
    proof -
      obtain pre where "path = pre @ [share]" "\<forall>x \<in> set pre. \<exists>k. map_of (wp_shares p) k = Some x"
        using pool_path_chain [OF ok path] by blast
      then have "\<exists>k. map_of (wp_shares p) k = Some u" using u tip(2) by (auto simp: x)
      then show ?thesis using typed by (auto simp: pool_typed_def)
    qed
    ultimately show ?thesis by blast
  qed
  then show ?thesis using w by (simp add: witness_wf_def)
qed

lemma hash_meets_target_iff: "hash_meets_target hash t \<longleftrightarrow> from_le_bytes (array_bytes hash) \<le> t"
  by (simp add: hash_meets_target_def)

text \<open>A block of a candidate is a well-formed object.\<close>

lemma candidate_wf:
  assumes ok: "node_ok E pow n" and young: "young (nd_chain n)"
    and mk: "make_candidate E now extranonce n = Some (Inr mc, n')"
    and miner: "nc_miner_address (nd_config n) = Some finder" "address_ok E finder"
    and size: "length (witness_enc (blk_witness (mc_block mc))) \<le> MAX_WORKSHARE_WITNESS_BYTES"
  shows "block_wf E (mined_block mc nonce)" "length (blk_transactions (mc_block mc)) \<le> MAX_BLOCK_TRANSACTIONS"
proof -
  obtain txs claim post wit where c: "select E (nd_mempool n) (ch_state (nd_chain n)) MAX_BLOCK_TRANSACTIONS = Some txs"
    "candidate_claim E (nc_miner_address (nd_config n)) extranonce txs (nd_chain n) = Inr (claim, post)"
    "pool_witness (nd_workshares n) = Some wit"
    "mc_block mc = candidate_block E now txs claim post wit (nd_chain n)"
    by (rule make_candidate_InrE [OF mk]) blast
  have sp: "live_pool E pow (ch_blocks (nd_chain n)) (ch_state (nd_chain n)) (nd_workshares n)"
    "pool_typed E (nd_workshares n)" using ok by (simp_all add: node_ok_def shares_part_def)
  have "rc_finder claim = finder" by (rule candidate_claim_Inr [OF c(2)]) (use miner in simp)
  then have claim: "claim_ok E claim" using miner(2) by (simp add: claim_ok_def)
  have txs: "length txs \<le> MAX_BLOCK_TRANSACTIONS \<and> (\<forall>t \<in> set txs. transaction_wf E t)"
    using node_select [OF ok young] c(1) by (metis option.inject)
  then show "length (blk_transactions (mc_block mc)) \<le> MAX_BLOCK_TRANSACTIONS" by (simp add: c(4))
  show "block_wf E (mined_block mc nonce)"
    using txs claim pool_witness_wf [OF sp c(3)] size by (simp add: block_wf_def c(4))
qed

text \<open>A valid block on the tip is appended, saved and announced.\<close>

lemma submit_extends:
  assumes ok: "node_ok E pow n" and wf: "block_wf E b"
    and v: "validate_block E pow now b (ch_blocks (nd_chain n)) (ch_state (nd_chain n)) = Inr s'"
    and prev: "bh_previous_block (blk_header b) = block_id E (chain_tip (nd_chain n))"
    and new: "block_by_hash E (nd_chain n) (block_id E b) = None"
    and bits: "bits_to_target (bh_bits (blk_header b)) = Some t"
    and work: "unat (ch_work (nd_chain n)) + block_work b < 2 ^ 256"
    and now: "unat now < 2 ^ 63" and len: "length (ch_blocks (nd_chain n)) < 2 ^ 63"
  shows "\<exists>n'. submit_block E pow now b n = Some (Inr (Extended (block_id E b) (bh_height (blk_header b))), n')
    \<and> ch_blocks (nd_chain n') = ch_blocks (nd_chain n) @ [b] \<and> ch_state (nd_chain n') = s'"
proof -
  let ?c = "nd_chain n"
  obtain w where "checked_add (ch_work ?c) (target_work t) = Some w"
    using work bits by (auto simp: checked_add_def block_work_def)
  then have app: "chain_append E pow now b ?c = Inr (Extended (block_id E b) (bh_height (blk_header b)),
      \<lparr>ch_blocks = ch_blocks ?c @ [b], ch_state = s', ch_work = w\<rparr>)" (is "_ = Inr (?ev, ?c')")
    using new prev v bits by (simp add: chain_append_def rbind_def ok_or_def)
  have succ: "successor E pow ?ev b ?c ?c'" and size: "length (block_enc b) \<le> MAX_CONSENSUS_ALLOCATION"
    using append_successor [OF ok wf new app] by simp_all
  have c': "chain_ok E pow ?c'" using succ by (simp add: successor_def)
  have "height_of b = length (ch_blocks ?c)"
    using chain_ok_inv [OF c'] by (auto simp: history_inv_def dest!: spec [of _ "length (ch_blocks ?c)"])
  then have h: "unat (bh_height (blk_header b)) < 2 ^ 63" using len by (simp add: height_of_def)
  obtain db where db: "store_side_block E now b (nd_storage n) = Inr db"
    using h now by (simp add: store_side_block_def insert_block_Inr rbind_Inr)
  let ?n = "n\<lparr>nd_storage := db\<rparr>"
  have ok1: "node_ok E pow ?n"
    using ok store_side_block_stored [OF db _ wf size] by (simp add: node_ok_def node_parts)
  have "distinct (map (block_id E) (ch_blocks ?c'))"
    using ok new by (simp add: node_ok_def storage_part_def chain_stored_def block_by_hash_None)
  then obtain db' where sv: "save_chain E now ?c' (nd_storage ?n) = Inr db'"
    using save_chain_total [OF c' now] len by auto
  have bc: "block_candidate E pow now b n = Some (Inr (?ev, ?c'))"
    using prev app by (simp add: block_candidate_def)
  have sb: "submit_block E pow now b n = activate_chain E now ?ev b ?c' ?n"
    using submit_block_unfold [of E pow now b n] new bc db by simp
  have succ1: "successor E pow ?ev b (nd_chain ?n) ?c'" using succ by simp
  show ?thesis
  proof (cases rule: activate_chain_ok [OF ok1 succ1, of now])
    case (1 e)
    then show ?thesis using sv by (auto simp: activate_chain_def Let_def split: option.splits)
  next
    case (2 n')
    then show ?thesis using sb by (intro exI [of _ n']) simp
  qed
qed


lemma sample_target_work: "unat (target_work sample_target) < 2 ^ 255"
  by (simp add: unat_target_work sample_target_def)

lemma sample_mine_step:
  assumes "mc_block_target mc = sample_target"
  obtains hash where "sample_pow seed (header_enc (blk_header (mined_block mc 7))) = Inr hash"
    "mine_step sample_env mc 0 7 hash = Some (MinedBlock (mined_block mc 7))"
proof -
  obtain hash where hash: "sample_pow seed (header_enc (blk_header (mined_block mc 7))) = Inr hash"
    "from_le_bytes (array_bytes hash)
      = (word_of_nat (2 ^ 192 * unat (bh_nonce (blk_header (mined_block mc 7)))) :: u256)"
    by (rule sample_pow_header)
  then show thesis using assms by (intro that [OF hash(1)]) (simp add: mine_step_def sample_target_def)
qed


text \<open>A share from the future stops a miner: shares dated up to 300 seconds ahead enter the pool, but
  a candidate is dated by the local clock, so once the pool's best chain holds a share that is later than
  the candidate, no nonce makes a block that the node itself would accept, at any later time.\<close>

theorem future_share_stalls_mining:
  assumes ok: "node_ok E pow n" and young: "young (nd_chain n)"
    and mk: "make_candidate E now extranonce n = Some (Inr mc, n')"
    and x: "x \<in> set (ww_workshares (blk_witness (mc_block mc)))"
      "bh_timestamp (blk_header (mc_block mc)) < bh_timestamp (ws_candidate_header x)"
  shows "\<exists>r. submit_block E pow now' (mined_block mc nonce) n' = Some (r, n') \<and> (r = Inr Known \<or> (\<exists>e. r = Inl e))"
proof -
  let ?b = "mined_block mc nonce"
  obtain r1 n1 where n1: "make_candidate E now extranonce n = Some (r1, n1)" "node_ok E pow n1" "nd_chain n1 = nd_chain n"
    by (rule make_candidate_ok [OF ok young, of now extranonce])
  then have n': "node_ok E pow n'" "nd_chain n' = nd_chain n" using mk by simp_all
  have cok: "chain_ok E pow (nd_chain n)" using ok by (simp add: node_ok_def)
  have len: "length (ch_blocks (nd_chain n)) < 2 ^ 64" using young by (simp add: young_def)
  show ?thesis
  proof (cases "block_by_hash E (nd_chain n') (block_id E ?b)")
    case (Some old)
    then show ?thesis by (simp add: submit_block_def Let_def)
  next
    case None
    obtain txs claim post wit where c: "mc_block mc = candidate_block E now txs claim post wit (nd_chain n)"
      by (rule make_candidate_InrE [OF mk]) blast
    have prev: "bh_previous_block (blk_header ?b) = block_id E (chain_tip (nd_chain n'))"
      by (simp add: c n'(2) candidate_block_def)
    have "validate_block E pow now' ?b (ch_blocks (nd_chain n)) (ch_state (nd_chain n)) \<noteq> Inr s'" for s'
      by (rule future_share_spoils [OF mk cok len x])
    then obtain e where "validate_block E pow now' ?b (ch_blocks (nd_chain n)) (ch_state (nd_chain n)) = Inl e"
      by (metis sum.exhaust)
    then have "chain_append E pow now' ?b (nd_chain n') = Inl e"
      using None prev n'(2) by (simp add: chain_append_def rbind_def)
    then have "block_candidate E pow now' ?b n' = Some (Inl e)" using prev by (simp add: block_candidate_def)
    then show ?thesis using None by (simp add: submit_block_unfold)
  qed
qed

theorem future_share_stalls_mining_witness:
  "\<exists>n mc n' r. make_candidate sample_env (GENESIS_TIMESTAMP + 10) 0 n = Some (Inr mc, n')
    \<and> node_ok sample_env sample_pow n
    \<and> submit_block sample_env sample_pow (GENESIS_TIMESTAMP + 10) (mined_block mc 7) n' = Some (r, n')"
proof -
  obtain db w where ok: "node_ok sample_env sample_pow (sample_node db w sample_live_pool)"
    "young (nd_chain (sample_node db w sample_live_pool))" by (rule sample_miner)
  have late: "GENESIS_TIMESTAMP < GENESIS_TIMESTAMP + 10" by (simp add: GENESIS_TIMESTAMP_def)
  obtain mc n' where mk: "make_candidate sample_env (GENESIS_TIMESTAMP + 10) 0 (sample_node db w sample_live_pool)
      = Some (Inr mc, n')"
    and b: "mc_block mc = candidate_block sample_env (GENESIS_TIMESTAMP + 10) [] (sample_claim sample_alice)
       (sample_state sample_alice) sample_witness (sample_genesis_chain w)" by (rule sample_candidate [OF late])
  have ts: "bh_timestamp (blk_header (mc_block mc)) = GENESIS_TIMESTAMP + 10"
    by (simp add: b candidate_block_def candidate_timestamp_def sample_mtp GENESIS_TIMESTAMP_def)
  have x: "sample_share \<in> set (ww_workshares (blk_witness (mc_block mc)))"
    "bh_timestamp (blk_header (mc_block mc)) < bh_timestamp (ws_candidate_header sample_share)"
    unfolding ts by (simp_all add: b sample_witness_def sample_share_def GENESIS_TIMESTAMP_def)
  obtain r where r: "submit_block sample_env sample_pow (GENESIS_TIMESTAMP + 10) (mined_block mc 7) n' = Some (r, n')"
    using future_share_stalls_mining [OF ok mk x] by blast
  show ?thesis by (intro exI conjI) (fact mk, fact ok(1), fact r)
qed

section \<open>Synchronisation\<close>

text \<open>A locator is never a panic and always useful: it names active blocks in falling order, the tip
  first and the genesis block last, and for chains of up to 2 ^ 54 blocks it is within the 64 entries a
  peer accepts.\<close>

theorem locator_spans_chain:
  assumes "node_run E pow n"
  shows "\<exists>heights. block_locator E (nd_chain n)
      = Some (map (\<lambda>h. block_id E (ch_blocks (nd_chain n) ! h)) heights)
    \<and> heights \<noteq> [] \<and> hd heights = length (ch_blocks (nd_chain n)) - 1 \<and> last heights = 0
    \<and> sorted_wrt (>) heights
    \<and> (length (ch_blocks (nd_chain n)) \<le> 2 ^ 54 \<longrightarrow> length heights \<le> 64)"
proof -
  have c: "chain_ok E pow (nd_chain n)" using node_run_ok [OF assms] by (simp add: node_ok_def)
  obtain hs where "block_locator E (nd_chain n) = Some (map (\<lambda>h. block_id E (ch_blocks (nd_chain n) ! h)) hs)"
    "hs \<noteq> []" "hd hs = length (ch_blocks (nd_chain n)) - 1" "last hs = 0" "sorted_wrt (>) hs"
    "\<forall>m. length (ch_blocks (nd_chain n)) \<le> 9 + 2 ^ m \<longrightarrow> length hs \<le> m + 10"
    by (rule block_locator_spec [OF c])
  then show ?thesis by (intro exI [of _ hs]) (auto dest: spec [of _ 54])
qed

theorem locator_spans_chain_witness:
  "\<exists>n. node_run sample_env sample_pow n
    \<and> block_locator sample_env (nd_chain n) = Some [block_id sample_env (genesis sample_env)]"
proof -
  obtain db w where r: "node_run sample_env sample_pow
      (node_open sample_config sample_env (sample_genesis_chain w) db)" (is "node_run _ _ ?n") by (rule sample_run)
  have bl: "ch_blocks (nd_chain ?n) = [genesis sample_env]" by (simp add: node_open_def)
  obtain hs where l: "block_locator sample_env (nd_chain ?n)
      = Some (map (\<lambda>h. block_id sample_env ([genesis sample_env] ! h)) hs)"
    and hs: "hs \<noteq> []" "hd hs = 0" "sorted_wrt (>) hs"
    using locator_spans_chain [OF r] unfolding bl by auto
  have "hs = [0]" using hs by (cases hs; cases "tl hs") auto
  then show ?thesis using r l by (intro exI [of _ ?n]) simp
qed

lemma find_None_all: "List.find P xs = None \<longleftrightarrow> (\<forall>x \<in> set xs. \<not> P x)"
  by (auto simp: find_None_iff)

text \<open>A list of linked headers behind a known block is queued.\<close>

lemma queue_linked:
  assumes "\<forall>h \<in> set hs. bh_version h = HEADER_VERSION \<and> bh_protocol h = PROTOCOL_VERSION"
    and "\<forall>i. Suc i < length hs \<longrightarrow> bh_previous_block (hs ! Suc i) = header_id E (hs ! i)
      \<and> bh_height (hs ! Suc i) = saturating_add (bh_height (hs ! i)) 1"
    and "hs \<noteq> [] \<longrightarrow> (case expected of
        Some (parent, height) \<Rightarrow> bh_previous_block (hd hs) = parent \<and> bh_height (hd hs) = height
      | None \<Rightarrow> (\<exists>parent. node_block_by_hash E (bh_previous_block (hd hs)) n = Some parent
          \<and> bh_height (hd hs) = saturating_add (bh_height (blk_header parent)) 1))"
  shows "queue_headers E n expected hs = Some (filter (\<lambda>k. node_block_by_hash E k n = None) (map (header_id E) hs))"
  using assms
proof (induction hs arbitrary: expected)
  case (Cons h hs)
  let ?e = "Some (header_id E h, saturating_add (bh_height h) 1)"
  have "queue_headers E n ?e hs
      = Some (filter (\<lambda>k. node_block_by_hash E k n = None) (map (header_id E) hs))"
  proof (rule Cons.IH)
    show "\<forall>i. Suc i < length hs \<longrightarrow> bh_previous_block (hs ! Suc i) = header_id E (hs ! i)
      \<and> bh_height (hs ! Suc i) = saturating_add (bh_height (hs ! i)) 1"
      using Cons.prems(2) by (metis Suc_less_eq length_Cons nth_Cons_Suc)
    show "hs \<noteq> [] \<longrightarrow> (case ?e of
        Some (parent, height) \<Rightarrow> bh_previous_block (hd hs) = parent \<and> bh_height (hd hs) = height
      | None \<Rightarrow> (\<exists>parent. node_block_by_hash E (bh_previous_block (hd hs)) n = Some parent
          \<and> bh_height (hd hs) = saturating_add (bh_height (blk_header parent)) 1))"
      using Cons.prems(2) by (auto simp: hd_conv_nth dest: spec [of _ 0])
  qed (use Cons.prems(1) in simp)
  then show ?case using Cons.prems(1,3) by (auto split: option.splits)
qed simp

lemma chain_header_versions:
  assumes "valid_history E pow hist s" and "b \<in> set hist"
  shows "bh_version (blk_header b) = HEADER_VERSION \<and> bh_protocol (blk_header b) = PROTOCOL_VERSION"
  using assms
proof (induction rule: valid_history.induct)
  case genesis
  then show ?case by (simp add: genesis_def)
next
  case (extend hist s now x s')
  have "validate_header_context E (blk_header x) (last hist) hist now = Inr ()"
    using validate_block_InrE [OF extend.hyps(2,3)] by metis
  then show ?case using extend by (auto simp: header_context_Inr)
qed

lemma block_by_hash_height:
  assumes "chain_ok E pow c" and "block_by_hash E c h = Some b"
  obtains k where "k < length (ch_blocks c)" "ch_blocks c ! k = b" "height_of b = k" "block_id E b = h"
proof -
  note b = block_by_hash_Some [OF assms(2)]
  obtain k where k: "k < length (ch_blocks c)" "ch_blocks c ! k = b" using b(1) by (auto simp: in_set_conv_nth)
  then have "height_of b = k" using chain_ok_inv [OF assms(1)] by (auto simp: history_inv_def)
  then show thesis using that k b(2) by blast
qed

text \<open>The answer to a locator starts behind a block that both sides have.\<close>

lemma serve_headers_start:
  assumes c: "chain_ok E pow c" and len: "length (ch_blocks c) < 2 ^ 64"
    and l: "block_id E (genesis E) \<in> set locator"
  obtains k h where "k < length (ch_blocks c)" "h \<in> set locator" "block_id E (ch_blocks c ! k) = h"
    "serve_headers E locator hash_zero c = map blk_header (take MAX_HEADERS (drop (Suc k) (ch_blocks c)))"
proof -
  have "block_by_hash E c (block_id E (genesis E)) \<noteq> None"
    using chain_ok_genesis [OF c] by (auto simp: block_by_hash_None)
  then have "List.find (\<lambda>h. block_by_hash E c h \<noteq> None) locator \<noteq> None"
    using l by (auto simp: find_None_all)
  then obtain h where f: "List.find (\<lambda>h. block_by_hash E c h \<noteq> None) locator = Some h" by blast
  then obtain b where b: "block_by_hash E c h = Some b" "h \<in> set locator"
    by (auto simp: find_Some_iff)
  obtain k where k: "k < length (ch_blocks c)" "ch_blocks c ! k = b" "height_of b = k" "block_id E b = h"
    by (rule block_by_hash_height [OF c b(1)])
  have "unat (bh_height (blk_header b) + 1) = Suc k"
    using k(1,3) len unat_add_exact [of "bh_height (blk_header b)" 1] by (simp add: height_of_def)
  moreover have tw: "takeWhile (\<lambda>b. True) bs = bs" for bs :: "block list" by (induction bs) simp_all
  ultimately show thesis
    using that [OF k(1) b(2)] k f b(1) by (simp add: serve_headers_def tw)
qed

lemma locator_known:
  assumes nc: "chain_ok E pow c" and l: "block_locator E c = Some locator"
  shows "block_id E (genesis E) \<in> set locator" "set locator \<subseteq> block_id E ` set (ch_blocks c)"
proof -
  let ?l = "ch_blocks c"
  obtain hs where hs: "block_locator E c = Some (map (\<lambda>h. block_id E (?l ! h)) hs)"
    "hs \<noteq> []" "hd hs = length ?l - 1" "last hs = 0" "sorted_wrt (>) hs"
    by (rule block_locator_spec [OF nc])
  have ne: "?l \<noteq> []" "hd ?l = genesis E" using chain_ok_inv [OF nc] by (simp_all add: history_inv_def)
  have loc: "locator = map (\<lambda>h. block_id E (?l ! h)) hs" using l hs(1) by simp
  have "\<forall>x \<in> set hs. x \<le> hd hs" using hs(2,5) by (cases hs) auto
  then have small: "\<forall>x \<in> set hs. x < length ?l" using hs(3) ne(1) by (cases ?l) fastforce+
  have "0 \<in> set hs" using hs(2,4) by (metis last_in_set)
  then have "block_id E (?l ! 0) \<in> set locator" by (auto simp: loc)
  then show "block_id E (genesis E) \<in> set locator" using ne by (simp add: hd_conv_nth)
  show "set locator \<subseteq> block_id E ` set ?l" using small by (auto simp: loc)
qed

text \<open>The headers behind a block of a chain link and rise by one.\<close>

lemma chain_headers_step:
  assumes c: "chain_ok E pow c" and len: "length (ch_blocks c) < 2 ^ 64" and i: "Suc i < length (ch_blocks c)"
  shows "bh_height (blk_header (ch_blocks c ! Suc i)) = saturating_add (bh_height (blk_header (ch_blocks c ! i))) 1"
    "bh_previous_block (blk_header (ch_blocks c ! Suc i)) = block_id E (ch_blocks c ! i)"
  using chain_ok_inv [OF c] len i
  by (simp_all add: history_inv_def links_def word_unat_eq_iff unat_saturating_add height_of_def)

lemma queue_slice:
  assumes c: "chain_ok E pow c" and len: "length (ch_blocks c) < 2 ^ 64" and k: "k < length (ch_blocks c)"
    and p: "node_block_by_hash E (block_id E (ch_blocks c ! k)) n = Some p" "blk_header p = blk_header (ch_blocks c ! k)"
    and bs: "bs = take MAX_HEADERS (drop (Suc k) (ch_blocks c))"
  shows "queue_headers E n None (map blk_header bs)
    = Some (filter (\<lambda>i. node_block_by_hash E i n = None) (map (header_id E) (map blk_header bs)))"
proof (rule queue_linked)
  note step = chain_headers_step [OF c len]
  have bsn: "bs ! i = ch_blocks c ! (Suc k + i)" "Suc k + i < length (ch_blocks c)" if "i < length bs" for i
    using that k by (simp_all add: bs less_diff_conv)
  have vh: "valid_history E pow (ch_blocks c) (ch_state c)" using c by (simp add: chain_ok_def)
  show "\<forall>h \<in> set (map blk_header bs). bh_version h = HEADER_VERSION \<and> bh_protocol h = PROTOCOL_VERSION"
    using chain_header_versions [OF vh] by (auto simp: bs dest: in_set_takeD in_set_dropD)
  show "\<forall>i. Suc i < length (map blk_header bs) \<longrightarrow>
      bh_previous_block (map blk_header bs ! Suc i) = header_id E (map blk_header bs ! i)
    \<and> bh_height (map blk_header bs ! Suc i) = saturating_add (bh_height (map blk_header bs ! i)) 1"
  proof (intro allI impI)
    fix i assume "Suc i < length (map blk_header bs)"
    then have "Suc i < length bs" "i < length bs" by simp_all
    then show "bh_previous_block (map blk_header bs ! Suc i) = header_id E (map blk_header bs ! i)
      \<and> bh_height (map blk_header bs ! Suc i) = saturating_add (bh_height (map blk_header bs ! i)) 1"
      using bsn [of i] bsn [of "Suc i"] step [of "Suc k + i"] by (simp add: block_id_def)
  qed
  show "map blk_header bs \<noteq> [] \<longrightarrow> (case None of
      Some (parent, height) \<Rightarrow> bh_previous_block (hd (map blk_header bs)) = parent
        \<and> bh_height (hd (map blk_header bs)) = height
    | None \<Rightarrow> (\<exists>parent. node_block_by_hash E (bh_previous_block (hd (map blk_header bs))) n = Some parent
        \<and> bh_height (hd (map blk_header bs)) = saturating_add (bh_height (blk_header parent)) 1))"
  proof
    assume "map blk_header bs \<noteq> []"
    then have "0 < length bs" "bs \<noteq> []" by simp_all
    then have "hd (map blk_header bs) = blk_header (ch_blocks c ! Suc k)" "Suc k < length (ch_blocks c)"
      using bsn [of 0] by (simp_all add: hd_map hd_conv_nth)
    then show "case None of
      Some (parent, height) \<Rightarrow> bh_previous_block (hd (map blk_header bs)) = parent
        \<and> bh_height (hd (map blk_header bs)) = height
    | None \<Rightarrow> (\<exists>parent. node_block_by_hash E (bh_previous_block (hd (map blk_header bs))) n = Some parent
        \<and> bh_height (hd (map blk_header bs)) = saturating_add (bh_height (blk_header parent)) 1)"
      using step [of k] p by simp
  qed
qed

text \<open>C24: Synchronisation works between honest nodes: the headers that a server on any valid chain sends
  for the locator of a client start behind a common block, and the client accepts them all and queues
  exactly the blocks it does not have, in order, unless two different headers share an id.\<close>

theorem header_sync_agrees:
  assumes n: "node_ok E pow n" and c: "chain_ok E pow c" and len: "length (ch_blocks c) < 2 ^ 64"
    and l: "block_locator E (nd_chain n) = Some locator"
    and ids: "\<forall>b \<in> set (ch_blocks (nd_chain n)). \<forall>b' \<in> set (ch_blocks c).
      block_id E b = block_id E b' \<longrightarrow> blk_header b = blk_header b'"
  shows "\<exists>k. k < length (ch_blocks c) \<and> block_id E (ch_blocks c ! k) \<in> block_id E ` set (ch_blocks (nd_chain n))
    \<and> serve_headers E locator hash_zero c = map blk_header (take MAX_HEADERS (drop (Suc k) (ch_blocks c)))
    \<and> queue_headers E n None (serve_headers E locator hash_zero c)
      = Some (filter (\<lambda>i. node_block_by_hash E i n = None)
          (map (block_id E) (take MAX_HEADERS (drop (Suc k) (ch_blocks c)))))"
proof -
  let ?l = "ch_blocks (nd_chain n)"
  have nc: "chain_ok E pow (nd_chain n)" using n by (simp add: node_ok_def)
  note loc = locator_known [OF nc l]
  obtain k h where k: "k < length (ch_blocks c)" "h \<in> set locator" "block_id E (ch_blocks c ! k) = h"
    "serve_headers E locator hash_zero c = map blk_header (take MAX_HEADERS (drop (Suc k) (ch_blocks c)))"
    by (rule serve_headers_start [OF c len loc(1)])
  have known: "h \<in> block_id E ` set ?l" using k(2) loc(2) by blast
  then obtain p where p: "block_by_hash E (nd_chain n) h = Some p"
    using block_by_hash_None by (metis option.exhaust)
  have "blk_header p = blk_header (ch_blocks c ! k)" using ids block_by_hash_Some [OF p] k(1,3) by (metis nth_mem)
  then have "queue_headers E n None (map blk_header (take MAX_HEADERS (drop (Suc k) (ch_blocks c))))
      = Some (filter (\<lambda>i. node_block_by_hash E i n = None)
          (map (header_id E) (map blk_header (take MAX_HEADERS (drop (Suc k) (ch_blocks c))))))"
    using queue_slice [OF c len k(1) _ _ refl, of n p] p k(3) by (simp add: node_block_by_hash_def)
  moreover have "block_id E = (\<lambda>b. header_id E (blk_header b))" by (simp add: fun_eq_iff block_id_def)
  ultimately show ?thesis using k known by (intro exI [of _ k]) (simp add: comp_def)
qed

lemma sample_chain_two:
  obtains c where "chain_ok sample_env sample_pow c" "ch_blocks c = [genesis sample_env, sample_block]"
    "ch_state c = sample_state sample_alice"
proof -
  obtain w0 where w0: "cumulative_work [genesis sample_env] = Inr w0" "unat w0 = block_work (genesis sample_env)"
    by (rule genesis_work)
  have s: "unat w0 < 2 ^ 255" "block_work sample_block < 2 ^ 255"
    using sample_target_work w0(2)
    by (simp_all add: block_work_def genesis_bits' sample_block_def sample_targets(1))
  then obtain w where "checked_add w0 (target_work sample_target) = Some w"
    by (auto simp: checked_add_def block_work_def sample_block_def sample_targets(1))
  then have "cumulative_work ([genesis sample_env] @ [sample_block]) = Inr w"
    by (subst cumulative_work_snoc) (simp add: w0(1) rbind_def ok_or_def sample_block_def sample_targets(1))
  then show thesis using sample_history
    by (intro that [of "\<lparr>ch_blocks = [genesis sample_env, sample_block], ch_state = sample_state sample_alice,
        ch_work = w\<rparr>"]) (simp_all add: chain_ok_def)
qed

theorem header_sync_agrees_witness:
  "\<exists>n c locator q. node_run sample_env sample_pow n \<and> block_locator sample_env (nd_chain n) = Some locator
    \<and> ch_blocks c = [genesis sample_env, sample_block]
    \<and> serve_headers sample_env locator hash_zero c = [blk_header sample_block]
    \<and> queue_headers sample_env n None [blk_header sample_block] = Some q"
proof -
  obtain db w where r: "node_run sample_env sample_pow
      (node_open sample_config sample_env (sample_genesis_chain w) db)" (is "node_run _ _ ?n") by (rule sample_run)
  note ok = node_run_ok [OF r]
  obtain c where c: "chain_ok sample_env sample_pow c" "ch_blocks c = [genesis sample_env, sample_block]"
    by (rule sample_chain_two)
  have bl: "ch_blocks (nd_chain ?n) = [genesis sample_env]" by (simp add: node_open_def)
  have "chain_ok sample_env sample_pow (nd_chain ?n)" using ok by (simp add: node_ok_def)
  then obtain locator where l: "block_locator sample_env (nd_chain ?n) = Some locator" by (rule block_locator_spec)
  have len: "length (ch_blocks c) < 2 ^ 64" by (simp add: c(2))
  have ids: "\<forall>b \<in> set (ch_blocks (nd_chain ?n)). \<forall>b' \<in> set (ch_blocks c).
      block_id sample_env b = block_id sample_env b' \<longrightarrow> blk_header b = blk_header b'"
    unfolding bl c(2) using sample_block_new by auto
  obtain k where k: "k < length (ch_blocks c)"
    "block_id sample_env (ch_blocks c ! k) \<in> block_id sample_env ` set (ch_blocks (nd_chain ?n))"
    "serve_headers sample_env locator hash_zero c = map blk_header (take MAX_HEADERS (drop (Suc k) (ch_blocks c)))"
    "\<exists>q. queue_headers sample_env ?n None (serve_headers sample_env locator hash_zero c) = Some q"
    using header_sync_agrees [OF ok c(1) len l ids] by blast
  have "k = 0"
  proof (rule ccontr)
    assume "k \<noteq> 0"
    then have "k = 1" using k(1) by (simp add: c(2))
    then show False using k(2) sample_block_new unfolding bl c(2) by simp
  qed
  then have h: "serve_headers sample_env locator hash_zero c = [blk_header sample_block]"
    using k(3) by (simp add: c(2) MAX_HEADERS_def)
  then obtain q where "queue_headers sample_env ?n None [blk_header sample_block] = Some q" using k(4) by auto
  then show ?thesis using r l c(2) h by blast
qed

section \<open>Orphan shares\<close>

text \<open>C33: Shares that arrive before what they need are not lost and not stuck: processing them ends
  for every iteration order of the table, and afterwards each share that is still waiting lacks its
  template or its predecessor in the pool.\<close>

theorem orphans_settle:
  assumes "reordering it" and "node_ok E pow n"
  shows "\<exists>n'. process_pending_workshares E pow now it n = Some n' \<and> node_ok E pow n'
    \<and> set (nd_pending n') \<subseteq> set (nd_pending n)
    \<and> (\<forall>(k, origin, share) \<in> set (nd_pending n').
         \<not> smap_contains (wp_templates (nd_workshares n')) (ws_template_id share)
         \<or> (ws_previous share \<noteq> hash_zero \<and> \<not> smap_contains (wp_shares (nd_workshares n')) (ws_previous share)))"
  using process_pending_ok [OF assms, of now] find_ready_None [OF assms(1)]
  unfolding template_missing_def previous_missing_def by fastforce

lemma sample_orphan:
  obtains db w where "node_ok sample_env sample_pow ((sample_node db w sample_live_pool)
    \<lparr>nd_pending := [(workshare_id sample_env sample_share, hash_zero, sample_share)]\<rparr>)"
proof -
  obtain db w where "node_ok sample_env sample_pow (sample_node db w sample_live_pool)" by (rule sample_miner)
  then show thesis
    by (intro that [of db w])
      (simp add: node_ok_def node_parts MAX_PENDING_WORKSHARES_def workshare_ok_def, simp add: sample_share_def)
qed

theorem orphans_settle_witness:
  "\<exists>n n'. nd_pending n = [(workshare_id sample_env sample_share, hash_zero, sample_share)]
    \<and> process_pending_workshares sample_env sample_pow sample_now id n = Some n'
    \<and> (\<forall>(k, origin, share) \<in> set (nd_pending n').
         \<not> smap_contains (wp_templates (nd_workshares n')) (ws_template_id share)
         \<or> (ws_previous share \<noteq> hash_zero \<and> \<not> smap_contains (wp_shares (nd_workshares n')) (ws_previous share)))"
proof -
  obtain db w where ok: "node_ok sample_env sample_pow ((sample_node db w sample_live_pool)
    \<lparr>nd_pending := [(workshare_id sample_env sample_share, hash_zero, sample_share)]\<rparr>)"
    (is "node_ok _ _ ?n") by (rule sample_orphan)
  have it: "reordering id" by (simp add: reordering_def)
  obtain n' where n': "process_pending_workshares sample_env sample_pow sample_now id ?n = Some n'"
    "\<forall>(k, origin, share) \<in> set (nd_pending n').
         \<not> smap_contains (wp_templates (nd_workshares n')) (ws_template_id share)
         \<or> (ws_previous share \<noteq> hash_zero \<and> \<not> smap_contains (wp_shares (nd_workshares n')) (ws_previous share))"
    using orphans_settle [OF it ok, of sample_now] by blast
  show ?thesis by (rule exI [of _ ?n], rule exI [of _ n']) (use n' in simp)
qed

end
