(* ===== verification/Session.thy ===== *)
theory Session
  imports Node_Properties
begin

text \<open>
The connections of a node, \<open>src/p2p.rs\<close>: \<open>serve_socket\<close> and \<open>outbound_once\<close> with their greeting, the
  handshake and the loop, one turn per event the loop wakes up for; \<open>Node::local_hello\<close> and
  \<open>Node::request_sync\<close> of \<open>src/node.rs\<close>.  The transport is an input: what \<open>socket.next()\<close> yields and
  whether a \<open>send\<close> fails.  A connection is an inductive relation over the turns, interleaved with every
  other operation of the node; the lemmas carry an invariant through it: the node stays consistent, what
  it announces and answers is well formed, and the end of a connection forgets the peer.
\<close>

section \<open>The greeting of a node\<close>

definition hex_digit :: "nat \<Rightarrow> u8" where
  "hex_digit d = word_of_nat (if d < 10 then 48 + d else 87 + d)"

fun lower_hex :: "nat \<Rightarrow> bytes" where
  "lower_hex n = (if n < 16 then [hex_digit n] else lower_hex (n div 16) @ [hex_digit (n mod 16)])"

declare lower_hex.simps [simp del]

text \<open>Rust's \<open>format!("{:064x}", n)\<close>.\<close>

definition format_064x :: "nat \<Rightarrow> bytes" where
  "format_064x n = replicate (64 - length (lower_hex n)) 48 @ lower_hex n"

definition chain_snapshot :: "prims \<Rightarrow> chain \<Rightarrow> u64 \<times> hash32 \<times> bytes" where
  "chain_snapshot E c = (chain_height c, block_id E (chain_tip c), format_064x (unat (ch_work c)))"

definition listen_url :: "bytes option \<Rightarrow> bytes" where
  "listen_url public_url = (case public_url of
     None \<Rightarrow> []
   | Some url \<Rightarrow> rev (dropWhile (\<lambda>c. c = 47) (rev url)) @ ascii ''/p2p/v9'')"

definition local_hello ::
    "prims \<Rightarrow> bytes \<Rightarrow> (hash32 \<Rightarrow> 64 barr) \<Rightarrow> hash32 \<Rightarrow> u64 \<Rightarrow> bytes option \<Rightarrow> node \<Rightarrow> hash32 \<Rightarrow> hello" where
  "local_hello E public sign challenge now public_url n response_to =
     hello_signed E public sign challenge now (chain_snapshot E (nd_chain n)) (listen_url public_url) response_to"

text \<open>The work of a chain, as text of 64 digits.\<close>

lemma length_lower_hex: "0 < k \<Longrightarrow> n < 16 ^ k \<Longrightarrow> length (lower_hex n) \<le> k"
proof (induction k arbitrary: n)
  case (Suc k)
  show ?case
  proof (cases "n < 16")
    case False
    then have "0 < k" using Suc.prems by (cases k) auto
    moreover have "n div 16 < 16 ^ k" using Suc.prems by (simp add: div_less_iff_less_mult mult.commute)
    ultimately show ?thesis using Suc.IH [of "n div 16"] False by (simp add: lower_hex.simps [of n])
  qed (simp add: lower_hex.simps [of n])
qed simp

lemma length_format_064x: "length (format_064x (unat (w :: u256))) = 64"
  using length_lower_hex [of 64 "unat w"] unat_bound [of w] by (simp add: format_064x_def)

section \<open>Connections\<close>

datatype socket_message =
    SockBinary bytes
  | SockPing bytes
  | SockPong bytes
  | SockText
  | SockClose

text \<open>What \<open>socket.next()\<close> yields: a message, a transport error, or the end of the stream.\<close>

datatype socket_input = SockItem socket_message | SockError string | SockEnd

text \<open>What the loop of a connection wakes up for.  \<open>Tick\<close> carries \<open>node.is_enabled()\<close>, \<open>Announce\<close> what
  the broadcast channel yields (\<open>None\<close> is a lagging receiver), \<open>Heartbeat\<close> the random nonce.\<close>

datatype session_event =
    Tick bool
  | Arrive socket_input
  | Announce "wire_message option"
  | Heartbeat u64

text \<open>A turn of the loop goes on with messages sent, returns from the connection, or panics.\<close>

datatype loop_result =
    Proceed message_budget node "socket_message list"
  | Finish "peer_error + unit" node
  | Panicked

text \<open>\<open>socket.send\<close>: \<open>failure\<close> is the error of the transport, if any.\<close>

definition deliver :: "string option \<Rightarrow> socket_message \<Rightarrow> message_budget \<Rightarrow> node \<Rightarrow> loop_result" where
  "deliver failure m budget n =
     (case failure of
        None \<Rightarrow> Proceed budget n [m]
      | Some e \<Rightarrow> Finish (Inl (PeerWebSocket e)) n)"

definition receive_frame ::
    "prims \<Rightarrow> pow_verifier \<Rightarrow> u64 \<Rightarrow> nat \<Rightarrow> pending_order \<Rightarrow> hash32 \<Rightarrow> string option \<Rightarrow> bytes
     \<Rightarrow> message_budget \<Rightarrow> node \<Rightarrow> loop_result" where
  "receive_frame E pow now at it peer failure bs budget n =
     (case decode_frame E bs of
        Inl e \<Rightarrow> Finish (Inl (PeerCodec e)) n
      | Inr request \<Rightarrow>
          let (allowed, budget) = budget_allow at request budget in
          if \<not> allowed then Finish (Inl PeerRateLimit) n
          else case handle_wire E pow now it peer request n of
            None \<Rightarrow> Panicked
          | Some (None, n) \<Rightarrow> Proceed budget n []
          | Some (Some response, n) \<Rightarrow> deliver failure (SockBinary (encode_frame response)) budget n)"

definition session_turn ::
    "prims \<Rightarrow> pow_verifier \<Rightarrow> u64 \<Rightarrow> nat \<Rightarrow> pending_order \<Rightarrow> hash32 \<Rightarrow> string option \<Rightarrow> session_event
     \<Rightarrow> message_budget \<Rightarrow> node \<Rightarrow> loop_result" where
  "session_turn E pow now at it peer failure event budget n =
     (case event of
        Tick enabled \<Rightarrow> if enabled then Proceed budget n [] else Finish (Inr ()) n
      | Arrive SockEnd \<Rightarrow> Finish (Inr ()) n
      | Arrive (SockError e) \<Rightarrow> Finish (Inl (PeerWebSocket e)) n
      | Arrive (SockItem m) \<Rightarrow>
          (case m of
             SockBinary bs \<Rightarrow> receive_frame E pow now at it peer failure bs budget n
           | SockPing payload \<Rightarrow> deliver failure (SockPong payload) budget n
           | SockClose \<Rightarrow> Finish (Inr ()) n
           | SockText \<Rightarrow> Proceed budget n []
           | SockPong _ \<Rightarrow> Proceed budget n [])
      | Announce None \<Rightarrow> Proceed budget n []
      | Announce (Some m) \<Rightarrow> deliver failure (SockBinary (encode_frame m)) budget n
      | Heartbeat nonce \<Rightarrow> deliver failure (SockBinary (encode_frame (MsgPing nonce))) budget n)"

text \<open>After the handshake: the slot, then the first request when the tips differ.  \<open>Inl\<close> is the return
  before the node has a record of the connection.\<close>

definition session_begin ::
    "prims \<Rightarrow> hello \<Rightarrow> bool \<Rightarrow> string option \<Rightarrow> nat \<Rightarrow> node \<Rightarrow> peer_error + loop_result" where
  "session_begin E remote inbound failure at n =
     (case peer_connected (node_id E remote) inbound n of
        (False, _) \<Rightarrow> Inl PeerHandshake
      | (True, n) \<Rightarrow> Inr
          (if he_tip remote \<noteq> block_id E (chain_tip (nd_chain n))
           then (case block_locator E (nd_chain n) of
                None \<Rightarrow> Panicked
              | Some locator \<Rightarrow>
                  deliver failure (SockBinary (encode_frame (MsgGetHeaders locator hash_zero))) (budget_new at) n)
           else Proceed (budget_new at) n []))"

text \<open>Whatever ends the loop, the node forgets the peer.\<close>

definition session_close :: "hash32 \<Rightarrow> loop_result \<Rightarrow> loop_result" where
  "session_close peer r = (case r of Finish result n \<Rightarrow> Finish result (peer_disconnected peer n) | _ \<Rightarrow> r)"

text \<open>The first message of a connection, for which the node waits ten seconds; \<open>None\<close> is the timeout.\<close>

definition first_frame :: "socket_input option \<Rightarrow> peer_error + bytes" where
  "first_frame input =
     (case input of
        None \<Rightarrow> Inl PeerHandshake
      | Some SockEnd \<Rightarrow> Inl PeerHandshake
      | Some (SockError e) \<Rightarrow> Inl (PeerWebSocket e)
      | Some (SockItem (SockBinary bs)) \<Rightarrow> Inr bs
      | Some (SockItem _) \<Rightarrow> Inl PeerHandshake)"

definition send_frame :: "string option \<Rightarrow> peer_error + unit" where
  "send_frame failure = (case failure of None \<Rightarrow> Inr () | Some e \<Rightarrow> Inl (PeerWebSocket e))"

text \<open>\<open>serve_socket\<close> up to its loop: our greeting, the answer of the peer, our answer to its challenge.\<close>

definition serve_socket ::
    "prims \<Rightarrow> bool \<Rightarrow> hello \<Rightarrow> hash32 \<Rightarrow> u64 \<Rightarrow> string option \<times> string option \<times> string option
     \<Rightarrow> socket_input option \<Rightarrow> nat \<Rightarrow> node \<Rightarrow> peer_error + hash32 \<times> loop_result" where
  "serve_socket E enabled greeting own now failures input at n =
     (case failures of (f1, f2, f3) \<Rightarrow>
      rbind (ensure enabled PeerHandshake) (\<lambda>_.
      rbind (send_frame f1) (\<lambda>_.
      rbind (first_frame input) (\<lambda>bs.
      rbind (serve_check E own greeting now bs) (\<lambda>remote.
      rbind (send_frame f2) (\<lambda>_.
      rbind (session_begin E remote True f3 at n) (\<lambda>r. Inr (node_id E remote, r))))))))"

text \<open>\<open>outbound_once\<close> up to its loop, behind the address check and the connection: the challenge of the
  peer, our answer, and the acknowledgement.\<close>

definition outbound_once ::
    "prims \<Rightarrow> (hash32 \<Rightarrow> hello) \<Rightarrow> hash32 \<Rightarrow> u64 \<Rightarrow> string option \<times> string option
     \<Rightarrow> socket_input option \<Rightarrow> socket_input option \<Rightarrow> nat \<Rightarrow> node \<Rightarrow> peer_error + hash32 \<times> loop_result" where
  "outbound_once E answer own now failures first second at n =
     (case failures of (f1, f2) \<Rightarrow>
      rbind (first_frame first) (\<lambda>bs.
      rbind (dial_challenge E own now bs) (\<lambda>challenge.
      let response = answer (he_challenge challenge) in
      rbind (send_frame f1) (\<lambda>_.
      rbind (first_frame second) (\<lambda>bs.
      rbind (dial_acknowledge E challenge response now bs) (\<lambda>remote.
      rbind (session_begin E remote False f2 at n) (\<lambda>r. Inr (node_id E remote, r))))))))"

text \<open>\<open>Node::request_sync\<close>: every connection is told to send a locator; \<open>None\<close> is the panic of the locator.\<close>

definition request_sync :: "prims \<Rightarrow> node \<Rightarrow> node option" where
  "request_sync E n =
     map_option (\<lambda>locator. send_event (MsgGetHeaders locator hash_zero) n) (block_locator E (nd_chain n))"

section \<open>Frames fit\<close>

lemma length_concat_le:
  "(\<And>x. x \<in> set xs \<Longrightarrow> length (f x) \<le> k) \<Longrightarrow> length (concat (map f xs)) \<le> length xs * k"
  by (induction xs) (auto simp: add_mono)

text \<open>Every message that is well formed can be sent: its frame is read back by the peer.\<close>

lemma frame_fits:
  assumes "wire_wf E m"
  shows "length (encode_frame m) \<le> MAX_WIRE_FRAME" "decode_frame E (encode_frame m) = Inr m"
proof -
  have l: "length (encode_frame m) = 4 + length (wire_enc m)"
    by (simp add: encode_frame_def put_fixed_def WIRE_MAGIC_def ascii_def)
  have "length (wire_enc m) \<le> MAX_BLOCK_BYTES + 1024"
  proof (cases m)
    case (MsgGetHeaders locator stop)
    then have "length (concat (map hash_enc locator)) \<le> length locator * 32"
      by (intro length_concat_le) simp
    then show ?thesis using assms MsgGetHeaders by (simp add: put_list_def limit_defs)
  next
    case (MsgHeaders headers)
    then have "length (concat (map header_enc headers)) \<le> length headers * 160"
      by (intro length_concat_le) simp
    then show ?thesis using assms MsgHeaders by (simp add: put_list_def limit_defs MAX_HEADERS_def)
  next
    case (MsgPeers peers)
    have "length (concat (map put_string peers)) \<le> length peers * 516"
    proof (rule length_concat_le)
      fix p assume "p \<in> set peers"
      then have "length p \<le> 512" using assms MsgPeers by (auto simp: peer_ok_def)
      then show "length (put_string p) \<le> 516" by (simp add: put_string_def put_bytes_def put_fixed_def)
    qed
    then show ?thesis using assms MsgPeers by (simp add: put_list_def limit_defs MAX_PEER_URLS_def)
  next
    case (MsgTransaction t)
    then show ?thesis using assms transaction_wf_length [of E t] by (simp add: limit_defs)
  next
    case (MsgTemplate t)
    then show ?thesis using assms by (simp add: limit_defs)
  next
    case (MsgBlock b)
    then show ?thesis using assms by (simp add: limit_defs)
  qed (use assms in \<open>simp_all add: limit_defs length_hello_enc hello_wf_def\<close>)
  then show fit: "length (encode_frame m) \<le> MAX_WIRE_FRAME" by (simp add: l MAX_WIRE_FRAME_def)
  show "decode_frame E (encode_frame m) = Inr m" using assms fit by (simp add: decode_frame_iff)
qed


section \<open>What a node announces\<close>

definition events_ok :: "prims \<Rightarrow> node \<Rightarrow> bool" where
  "events_ok E n \<longleftrightarrow> (\<forall>m \<in> set (nd_events n). wire_wf E m)"

lemma events_ok_simps [simp]:
  "events_ok E (send_event m n) \<longleftrightarrow> wire_wf E m \<and> events_ok E n"
  "events_ok E (bump_generation n) \<longleftrightarrow> events_ok E n"
  "events_ok E (n\<lparr>nd_chain := c\<rparr>) \<longleftrightarrow> events_ok E n" "events_ok E (n\<lparr>nd_mempool := p\<rparr>) \<longleftrightarrow> events_ok E n"
  "events_ok E (n\<lparr>nd_workshares := w\<rparr>) \<longleftrightarrow> events_ok E n" "events_ok E (n\<lparr>nd_storage := db\<rparr>) \<longleftrightarrow> events_ok E n"
  "events_ok E (n\<lparr>nd_peers := ps\<rparr>) \<longleftrightarrow> events_ok E n" "events_ok E (n\<lparr>nd_queues := qs\<rparr>) \<longleftrightarrow> events_ok E n"
  "events_ok E (n\<lparr>nd_pending := os\<rparr>) \<longleftrightarrow> events_ok E n"
  by (auto simp: events_ok_def send_event_def bump_generation_def)

lemma events_transaction: "submit_transaction E now t n = Some (r, n') \<Longrightarrow> events_ok E n \<Longrightarrow> events_ok E n'"
  by (auto simp: submit_transaction_def split: option.splits sum.splits prod.splits)

lemma events_activate: "activate_chain E now event b c n = Some (r, n') \<Longrightarrow> events_ok E n \<Longrightarrow> events_ok E n'"
  by (auto simp: activate_chain_def Let_def split: option.splits sum.splits prod.splits)

lemma events_block: "submit_block E pow now b n = Some (r, n') \<Longrightarrow> events_ok E n \<Longrightarrow> events_ok E n'"
  by (auto simp: submit_block_def Let_def
      split: option.splits sum.splits prod.splits chain_event.splits if_splits
      dest!: events_activate)

lemma events_template: "register_template E t n = (r, n') \<Longrightarrow> events_ok E n \<Longrightarrow> events_ok E n'"
  by (auto simp: register_template_def Let_def split: sum.splits prod.splits if_splits)

lemma events_share: "node_submit_workshare E pow now s n = (r, n') \<Longrightarrow> events_ok E n \<Longrightarrow> events_ok E n'"
  by (auto simp: node_submit_workshare_def Let_def split: sum.splits prod.splits if_splits)

lemma events_snd:
  "events_ok E n \<Longrightarrow> events_ok E (snd (register_template E t n))"
  "events_ok E n \<Longrightarrow> events_ok E (snd (node_submit_workshare E pow now s n))"
  using events_template events_share by (metis prod.collapse)+

lemma events_candidate: "make_candidate E now x n = Some (r, n') \<Longrightarrow> events_ok E n \<Longrightarrow> events_ok E n'"
  by (auto simp: make_candidate_def Let_def split: option.splits sum.splits prod.splits if_splits)

lemma events_pending:
  assumes "process_pending_workshares E pow now it n = Some n'" and "events_ok E n"
  shows "events_ok E n'"
proof -
  have "events_ok E n \<longrightarrow> events_ok E n'"
    using assms(1)
  proof (rule process_pending_workshares.raw_induct [where P = "\<lambda>E pow now it n n'. events_ok E n \<longrightarrow> events_ok E n'", rotated])
    fix f E pow now it n n'
    assume IH: "\<And>E pow now it n n'. f E pow now it n = Some n' \<Longrightarrow> events_ok E n \<longrightarrow> events_ok E n'"
      and eq: "(case find_ready it n of None \<Rightarrow> Some n
         | Some k \<Rightarrow> (case smap_get (nd_pending n) k of None \<Rightarrow> f E pow now it n
            | Some entry \<Rightarrow> f E pow now it (snd (node_submit_workshare E pow now (snd entry)
                (n\<lparr>nd_pending := smap_remove k (nd_pending n)\<rparr>))))) = Some n'"
    show "events_ok E n \<longrightarrow> events_ok E n'"
      using eq IH by (auto split: option.splits simp: events_snd)
  qed
  then show ?thesis using assms(2) by simp
qed

lemma events_handle: "handle_wire E pow now it peer m n = Some (r, n') \<Longrightarrow> events_ok E n \<Longrightarrow> events_ok E n'"
  by (auto simp: handle_wire_def handle_block_def handle_template_def handle_share_def handle_headers_def Let_def
      drop_queue_def prod_eq_iff
      split: wire_message.splits option.splits sum.splits prod.splits list.splits if_splits
      dest!: events_block events_transaction events_pending simp: events_snd)

lemma events_step: "node_step E pow n n' \<Longrightarrow> events_ok E n \<Longrightarrow> events_ok E n'"
  by (cases rule: node_step.cases)
    (auto simp: peer_connected_def peer_disconnected_def Let_def events_transaction events_block events_template
      events_share events_candidate events_handle split: if_splits)


section \<open>What a node answers\<close>

lemma known_block_wf:
  assumes ok: "node_ok E pow n" and b: "node_block_by_hash E k n = Some b"
  shows "block_wf E b \<and> length (block_enc b) \<le> MAX_BLOCK_BYTES"
proof (cases "block_by_hash E (nd_chain n) k")
  case None
  then have "storage_block E k (nd_storage n) = Inr (Some b)"
    using b by (auto simp: node_block_by_hash_def split: sum.splits)
  moreover have "storage_ok E (nd_storage n)" using ok by (simp add: node_ok_def storage_part_def)
  ultimately show ?thesis using storage_block_Some block_limits by metis
next
  case (Some b')
  then have "b \<in> set (ch_blocks (nd_chain n))" using b block_by_hash_Some [OF Some] by (simp add: node_block_by_hash_def)
  then show ?thesis using ok block_limits
    by (auto simp: node_ok_def storage_part_def chain_stored_def storable_def)
qed

lemma object_wf:
  assumes ok: "node_ok E pow n" and m: "lookup_object E kind k n = Some m"
  shows "wire_wf E m"
proof (cases kind)
  case KindBlock
  then show ?thesis using m known_block_wf [OF ok] by (auto simp: lookup_object_def)
next
  case KindTransaction
  then obtain entry where e: "map_of (mp_entries (nd_mempool n)) k = Some entry" "m = MsgTransaction (en_transaction entry)"
    using m by (auto simp: lookup_object_def mempool_get_def)
  have "pool_ok E (nd_mempool n)" using ok by (simp add: node_ok_def mempool_part_def)
  from pool_okD(3) [OF this e(1)] show ?thesis using e(2) by (auto simp: entry_ok_def relayed_wf)
next
  case KindTemplate
  then obtain t where t: "map_of (wp_templates (nd_workshares n)) k = Some t" "m = MsgTemplate t"
    using m by (auto simp: lookup_object_def)
  have "share_pool_ok E (nd_workshares n)" "pool_typed E (nd_workshares n)"
    using ok live_pool_ok by (auto simp: node_ok_def shares_part_def)
  then show ?thesis using t by (auto simp: share_pool_ok_def template_entry_ok_def pool_typed_def)
next
  case KindWorkshare
  then show ?thesis using m ok by (auto simp: lookup_object_def node_ok_def shares_part_def pool_typed_def)
qed

lemma first_request_wf: "first_request peer n xs = Some m \<Longrightarrow> wire_wf E m"
  by (induction peer n xs rule: first_request.induct) (auto split: if_splits)

lemma locator_wf:
  assumes "node_ok E pow n" and "length (ch_blocks (nd_chain n)) \<le> 2 ^ 54"
    and "block_locator E (nd_chain n) = Some locator"
  shows "length locator \<le> 64"
proof -
  have c: "chain_ok E pow (nd_chain n)" using assms(1) by (simp add: node_ok_def)
  obtain hs where "block_locator E (nd_chain n) = Some (map (\<lambda>h. block_id E (ch_blocks (nd_chain n) ! h)) hs)"
    "\<forall>m. length (ch_blocks (nd_chain n)) \<le> 9 + 2 ^ m \<longrightarrow> length hs \<le> m + 10"
    by (rule block_locator_spec [OF c])
  then show ?thesis using assms(2,3) by (auto dest: spec [of _ 54])
qed

lemma block_reply:
  assumes "handle_block E pow now peer b n = Some (Some reply, n')"
  shows "(\<exists>k. reply = MsgGetData KindBlock k)
    \<or> (\<exists>locator. reply = MsgGetHeaders locator hash_zero \<and> block_locator E (nd_chain n') = Some locator)"
  using assms by (auto simp: handle_block_def drop_queue_def split: option.splits sum.splits prod.splits list.splits if_splits)

lemma reply_wf:
  assumes ok: "node_ok E pow n" and it: "reordering it" and wf: "wire_wf E m"
    and h: "handle_wire E pow now it peer m n = Some (Some reply, n')"
    and len: "length (ch_blocks (nd_chain n')) \<le> 2 ^ 54"
  shows "wire_wf E reply"
proof -
  have ok': "node_ok E pow n'" using handle_wire_ok [OF it ok wf, of now peer] h by auto
  show ?thesis
  proof (cases m)
    case (MsgBlock b)
    then have "handle_block E pow now peer b n = Some (Some reply, n')" using h by (simp add: handle_wire_def)
    from block_reply [OF this] show ?thesis using locator_wf [OF ok' len] by auto
  next
    case (MsgGetData kind k)
    then show ?thesis using h object_wf [OF ok, of kind k reply] by (auto simp: handle_wire_def)
  next
    case (MsgTemplate t)
    then show ?thesis using h first_request_wf
      by (auto simp: handle_wire_def handle_template_def pending_request_for_def split: sum.splits option.splits prod.splits)
  next
    case (MsgWorkshare s)
    then show ?thesis using h first_request_wf
      by (auto simp: handle_wire_def handle_share_def pending_request_for_def Let_def split: option.splits if_splits)
  next
    case (MsgGetHeaders locator stop)
    have "length (takeWhile P (take MAX_HEADERS xs)) \<le> MAX_HEADERS" for P and xs :: "block list"
      using length_takeWhile_le [of P "take MAX_HEADERS xs"] by simp
    then show ?thesis using h MsgGetHeaders by (auto simp: handle_wire_def serve_headers_def Let_def)
  qed (use h in \<open>auto simp: handle_wire_def handle_headers_def split: if_splits option.splits list.splits prod.splits\<close>)
qed

section \<open>The life of a connection\<close>

text \<open>A connection of a reachable node: it opens after the handshake, takes turns of its own, and other
  tasks of the node act in between.  It announces only what the node put on its channel, and \<open>room\<close>
  says that the chain is short enough for a locator to fit its frame.\<close>

definition room :: "node \<Rightarrow> bool" where
  "room n \<longleftrightarrow> length (ch_blocks (nd_chain n)) \<le> 2 ^ 54"

inductive connection :: "prims \<Rightarrow> pow_verifier \<Rightarrow> hash32 \<Rightarrow> loop_result \<Rightarrow> bool" for E pow peer where
  opened: "node_run E pow n \<Longrightarrow> node_id E remote = peer \<Longrightarrow>
    session_begin E remote inbound failure at n = Inr r \<Longrightarrow> connection E pow peer (session_close peer r)"
| turn: "connection E pow peer (Proceed budget n sent) \<Longrightarrow> reordering it \<Longrightarrow>
    (\<And>m. event = Announce (Some m) \<Longrightarrow> m \<in> set (nd_events n)) \<Longrightarrow>
    connection E pow peer (session_close peer (session_turn E pow now at it peer failure event budget n))"
| meanwhile: "connection E pow peer (Proceed budget n sent) \<Longrightarrow> node_step E pow n n' \<Longrightarrow>
    connection E pow peer (Proceed budget n' [])"
| sync: "connection E pow peer (Proceed budget n sent) \<Longrightarrow> request_sync E n = Some n' \<Longrightarrow> room n \<Longrightarrow>
    connection E pow peer (Proceed budget n' [])"

text \<open>A message of the socket that the other side can read.\<close>

definition readable :: "prims \<Rightarrow> socket_message \<Rightarrow> bool" where
  "readable E s \<longleftrightarrow> (case s of
     SockBinary bs \<Rightarrow> (case decode_frame E bs of Inl _ \<Rightarrow> False | Inr m \<Rightarrow> encode_frame m = bs)
   | SockPong _ \<Rightarrow> True | _ \<Rightarrow> False)"

definition forgotten :: "hash32 \<Rightarrow> node \<Rightarrow> bool" where
  "forgotten peer n \<longleftrightarrow> \<not> smap_contains (nd_peers n) peer \<and> \<not> smap_contains (nd_queues n) peer
     \<and> (\<forall>(k, origin, s) \<in> set (nd_pending n). origin \<noteq> peer)"

definition connection_ok :: "prims \<Rightarrow> pow_verifier \<Rightarrow> hash32 \<Rightarrow> loop_result \<Rightarrow> bool" where
  "connection_ok E pow peer r \<longleftrightarrow> (case r of
     Proceed budget n sent \<Rightarrow> node_ok E pow n \<and> events_ok E n \<and> (room n \<longrightarrow> (\<forall>s \<in> set sent. readable E s))
   | Finish result n \<Rightarrow> node_ok E pow n \<and> forgotten peer n
   | Panicked \<Rightarrow> False)"

lemma readable_simps [simp]:
  "wire_wf E m \<Longrightarrow> readable E (SockBinary (encode_frame m))" "readable E (SockPong payload)"
  by (simp_all add: readable_def frame_fits)

lemma disconnected_forgotten:
  assumes "node_ok E pow n"
  shows "forgotten peer (peer_disconnected peer n)"
proof -
  have "smap_ok (nd_peers n)" "smap_ok (nd_queues n)"
    using assms by (simp_all add: node_ok_def peers_part_def)
  then show ?thesis by (auto simp: forgotten_def peer_disconnected_def smap_contains_def)
qed

text \<open>What holds of a turn before the loop's end is taken into account.\<close>

definition loop_ok :: "prims \<Rightarrow> pow_verifier \<Rightarrow> loop_result \<Rightarrow> bool" where
  "loop_ok E pow r \<longleftrightarrow> (case r of
     Proceed budget n sent \<Rightarrow> node_ok E pow n \<and> events_ok E n \<and> (room n \<longrightarrow> (\<forall>s \<in> set sent. readable E s))
   | Finish result n \<Rightarrow> node_ok E pow n
   | Panicked \<Rightarrow> False)"

lemma close_ok: "loop_ok E pow r \<Longrightarrow> connection_ok E pow peer (session_close peer r)"
  by (auto simp: loop_ok_def connection_ok_def session_close_def peer_disconnected_ok disconnected_forgotten
      split: loop_result.splits)

lemma loop_ok_Proceed [simp]:
  "loop_ok E pow (Proceed budget n sent) \<longleftrightarrow>
     node_ok E pow n \<and> events_ok E n \<and> (room n \<longrightarrow> (\<forall>s \<in> set sent. readable E s))"
  "loop_ok E pow (Finish result n) \<longleftrightarrow> node_ok E pow n" "\<not> loop_ok E pow Panicked"
  by (simp_all add: loop_ok_def)

lemma deliver_ok:
  "node_ok E pow n \<Longrightarrow> events_ok E n \<Longrightarrow> (room n \<Longrightarrow> readable E s) \<Longrightarrow> loop_ok E pow (deliver failure s budget n)"
  by (simp add: deliver_def split: option.split)

lemma receive_ok:
  assumes "node_ok E pow n" "events_ok E n" "reordering it"
  shows "loop_ok E pow (receive_frame E pow now at it peer failure bs budget n)"
proof (cases "decode_frame E bs")
  case (Inr m)
  then have wf: "wire_wf E m" by (simp add: decode_frame_iff)
  obtain r n' where h: "handle_wire E pow now it peer m n = Some (r, n')" "node_ok E pow n'"
    using handle_wire_ok [OF assms(3,1) wf] by blast
  have "events_ok E n'" using events_handle [OF h(1) assms(2)] .
  moreover have "wire_wf E reply" if "r = Some reply" "room n'" for reply
    using reply_wf [OF assms(1,3) wf] h(1) that by (simp add: room_def)
  ultimately show ?thesis using h Inr assms(1)
    by (auto simp: receive_frame_def split: prod.split option.split intro!: deliver_ok)
qed (use assms in \<open>simp add: receive_frame_def\<close>)

lemma turn_ok:
  assumes "node_ok E pow n" "events_ok E n" "reordering it"
    and "\<And>m. event = Announce (Some m) \<Longrightarrow> m \<in> set (nd_events n)"
  shows "loop_ok E pow (session_turn E pow now at it peer failure event budget n)"
proof -
  have "wire_wf E m" if "event = Announce (Some m)" for m
    using assms(2,4) that by (simp add: events_ok_def)
  then show ?thesis using assms(1-3)
    by (auto simp: session_turn_def split: session_event.split socket_input.split socket_message.split option.split
        intro!: deliver_ok receive_ok)
qed

lemma node_run_events: "node_run E pow n \<Longrightarrow> events_ok E n"
  by (induction rule: node_run.induct) (auto simp: events_ok_def node_open_def dest: events_step [unfolded events_ok_def])

lemma connected_events: "events_ok E n \<Longrightarrow> events_ok E (snd (peer_connected peer inbound n))"
  by (simp add: peer_connected_def Let_def)

lemma begin_ok:
  assumes run: "node_run E pow n" and b: "session_begin E remote inbound failure at n = Inr r"
  shows "loop_ok E pow r"
proof -
  obtain ok n' where c: "peer_connected (node_id E remote) inbound n = (ok, n')" by (cases "peer_connected (node_id E remote) inbound n")
  have n': "node_ok E pow n'" "events_ok E n'"
    using peer_connected_ok(1) [OF node_run_ok [OF run]] connected_events [OF node_run_events [OF run]] c
    by (metis snd_conv)+
  then have "chain_ok E pow (nd_chain n')" by (simp add: node_ok_def)
  then obtain hs where l: "block_locator E (nd_chain n') = Some hs" by (metis block_locator_spec)
  have "wire_wf E (MsgGetHeaders hs hash_zero)" if "room n'"
    using locator_wf [OF n'(1) _ l] that by (simp add: room_def)
  then show ?thesis using b c l n'
    by (auto simp: session_begin_def split: if_splits bool.splits intro!: deliver_ok)
qed

lemma connection_invariant: "connection E pow peer r \<Longrightarrow> connection_ok E pow peer r"
proof (induction rule: connection.induct)
  case (opened n remote inbound failure at r)
  then show ?case using begin_ok close_ok by blast
next
  case (turn budget n sent it event now at failure)
  then show ?case by (intro close_ok turn_ok) (auto simp: connection_ok_def)
next
  case (meanwhile budget n sent n')
  then show ?case using node_step_ok events_step by (auto simp: connection_ok_def)
next
  case (sync budget n sent n')
  then obtain l where l: "block_locator E (nd_chain n) = Some l"
    and n': "n' = send_event (MsgGetHeaders l hash_zero) n" by (auto simp: request_sync_def)
  have ok: "node_ok E pow n" "events_ok E n" using sync.IH by (simp_all add: connection_ok_def)
  have "length l \<le> 64" using locator_wf [OF ok(1) _ l] sync.hyps by (simp add: room_def)
  moreover have "node_ok E pow n'" using ok(1) by (simp add: n' node_ok_def node_parts send_event_def)
  ultimately show ?case using ok(2) by (simp add: n' connection_ok_def)
qed

section \<open>Who is served\<close>

text \<open>What a peer has proved when the node gives it a slot.\<close>

definition authenticated :: "prims \<Rightarrow> hash32 \<Rightarrow> u64 \<Rightarrow> hello \<Rightarrow> bool" where
  "authenticated E challenge now h \<longleftrightarrow>
     he_response_to h = challenge \<and> he_protocol h = PROTOCOL_VERSION \<and> he_chain_id h = CHAIN_ID
     \<and> he_genesis h = block_id E (genesis E) \<and> abs_diff (he_timestamp h) now \<le> 300
     \<and> (\<exists>key raw sig. public_key_from_slice E (he_node_public_key h) = Some key
          \<and> array_try_from (he_signature h) = Some raw \<and> signature_from_compact E raw = Some sig
          \<and> verify_ecdsa E (hello_signing_hash E h) sig key)"

lemma verified_authenticated:
  "hello_verify E now h \<Longrightarrow> he_response_to h = challenge \<Longrightarrow> authenticated E challenge now h"
  by (auto simp: hello_verify_def authenticated_def not_less split: if_splits option.splits)

lemma session_begin_new:
  "session_begin E remote inbound failure at n = Inr r \<Longrightarrow>
     \<not> smap_contains (nd_peers n) (node_id E remote)
     \<and> length (filter (\<lambda>(_, direction). direction = inbound) (nd_peers n))
       < (if inbound then nc_max_inbound_peers (nd_config n) else nc_max_outbound_peers (nd_config n))"
  by (auto simp: session_begin_def peer_connected_def Let_def split: if_splits prod.splits bool.splits)

section \<open>Properties\<close>

text \<open>C25: A connection never takes the node down and never leaves anything behind.  Whatever its peer sends,
  whatever the transport does and whatever the other tasks of the node do in between, no turn of its loop
  panics; and when it ends, by an error, a close or the end of the stream, the node is consistent, the
  peer's slot is free again, its download queue is gone and none of its orphan shares is held.\<close>

theorem connection_ends_clean:
  assumes "connection E pow peer r"
  shows "case r of
      Proceed budget n sent \<Rightarrow> node_ok E pow n
    | Finish result n \<Rightarrow> node_ok E pow n \<and> \<not> smap_contains (nd_peers n) peer
        \<and> \<not> smap_contains (nd_queues n) peer \<and> (\<forall>(k, origin, s) \<in> set (nd_pending n). origin \<noteq> peer)
    | Panicked \<Rightarrow> False"
  using connection_invariant [OF assms]
  by (cases r) (auto simp: connection_ok_def forgotten_def)

definition sample_remote :: hello where
  "sample_remote = \<lparr>he_protocol = 9, he_chain_id = [], he_genesis = hash_zero, he_node_public_key = [2],
     he_timestamp = 5, he_challenge = hash_zero, he_response_to = hash_zero, he_height = 3,
     he_tip = array_of (replicate 32 1), he_cumulative_work = hash_zero, he_listen_url = [], he_signature = []\<rparr>"

lemma sample_connection:
  obtains budget n bs m where "connection sample_env sample_pow (node_id sample_env sample_remote) (Proceed budget n [SockBinary bs])"
    "room n" "nd_config n = sample_config"
proof -
  obtain db w where r: "node_run sample_env sample_pow
      (node_open sample_config sample_env (sample_genesis_chain w) db)" (is "node_run _ _ ?n") by (rule sample_run)
  have c: "chain_ok sample_env sample_pow (sample_genesis_chain w)"
    using node_run_ok [OF r] by (simp add: node_ok_def node_open_def)
  obtain l where l: "block_locator sample_env (sample_genesis_chain w) = Some l" by (metis block_locator_spec [OF c])
  have "array_bytes (sha256d sample_env bs) ! 10 = 0" for bs
    by (simp add: sha256d_def sample_env_def sample_digest_def nth_append)
  moreover have "array_bytes (array_of (replicate 32 1) :: hash32) ! 10 = 1" by simp
  ultimately have tip: "array_of (replicate 32 1) \<noteq> block_id sample_env (genesis sample_env)"
    unfolding block_id_def header_id_def by (metis zero_neq_one)
  let ?m = "?n\<lparr>nd_peers := smap_insert (node_id sample_env sample_remote) True (nd_peers ?n)\<rparr>"
  have "session_begin sample_env sample_remote True None 0 ?n
     = Inr (Proceed (budget_new 0) ?m [SockBinary (encode_frame (MsgGetHeaders l hash_zero))])"
    using l tip by (simp add: session_begin_def peer_connected_def node_open_def smap_contains_def sample_config_def
      deliver_def sample_remote_def chain_tip_def sample_genesis_chain_def)
  from connection.opened [OF r refl this] show thesis
    by (intro that) (auto simp: session_close_def room_def node_open_def sample_genesis_chain_def)
qed

theorem connection_ends_clean_witness:
  "\<exists>result n. connection sample_env sample_pow (node_id sample_env sample_remote) (Finish result n)
    \<and> \<not> smap_contains (nd_peers n) (node_id sample_env sample_remote)"
proof -
  obtain budget n bs where c: "connection sample_env sample_pow (node_id sample_env sample_remote)
      (Proceed budget n [SockBinary bs])" by (rule sample_connection)
  have "connection sample_env sample_pow (node_id sample_env sample_remote)
     (session_close (node_id sample_env sample_remote) (session_turn sample_env sample_pow 5 0 rev
        (node_id sample_env sample_remote) None (Arrive SockEnd) budget n))"
    by (rule connection.turn [OF c]) (simp_all add: reordering_def)
  then have f: "connection sample_env sample_pow (node_id sample_env sample_remote)
     (Finish (Inr ()) (peer_disconnected (node_id sample_env sample_remote) n))"
    by (simp add: session_turn_def session_close_def)
  show ?thesis using connection_ends_clean [OF f] f by auto
qed

text \<open>A node only sends what its peer can read: every binary message of a connection, the locator it
  opens with, the answers to requests, the announcements and the heartbeats alike, is a frame within the
  size limit that decodes to the message it encodes, as long as the chain has at most 2^54 blocks.\<close>

theorem frames_are_readable:
  assumes "connection E pow peer (Proceed budget n sent)" and "length (ch_blocks (nd_chain n)) \<le> 2 ^ 54"
    and "SockBinary bs \<in> set sent"
  shows "\<exists>m. decode_frame E bs = Inr m \<and> bs = encode_frame m \<and> length bs \<le> MAX_WIRE_FRAME"
proof -
  have "readable E (SockBinary bs)"
    using connection_invariant [OF assms(1)] assms(2,3) by (simp add: connection_ok_def room_def)
  then obtain m where m: "decode_frame E bs = Inr m" by (auto simp: readable_def split: sum.splits)
  then show ?thesis by (auto simp: decode_frame_iff)
qed

theorem frames_are_readable_witness:
  "\<exists>budget n bs m. connection sample_env sample_pow (node_id sample_env sample_remote) (Proceed budget n [SockBinary bs])
    \<and> decode_frame sample_env bs = Inr m"
proof -
  obtain budget n bs where c: "connection sample_env sample_pow (node_id sample_env sample_remote)
      (Proceed budget n [SockBinary bs])" "room n" by (rule sample_connection)
  then show ?thesis using frames_are_readable [OF c(1), of bs] by (auto simp: room_def)
qed

text \<open>C27: Only a peer that proves its identity gets a slot.  When \<open>serve_socket\<close> or \<open>outbound_once\<close> reaches
  its loop, the peer has signed, within 300 seconds, a greeting of this protocol, chain and genesis block
  that answers the challenge this very connection sent; it is not the node itself, it had no connection
  yet, and a slot of its direction was free.\<close>

theorem peers_are_authenticated:
  "(serve_socket E enabled greeting own now failures input at n = Inr (peer, r) \<longrightarrow>
      enabled \<and> peer \<noteq> own \<and> \<not> smap_contains (nd_peers n) peer
      \<and> length (filter (\<lambda>(_, inbound). inbound) (nd_peers n)) < nc_max_inbound_peers (nd_config n)
      \<and> (\<exists>h. node_id E h = peer \<and> authenticated E (he_challenge greeting) now h))
   \<and> (outbound_once E answer own now failures' first second at n = Inr (peer, r) \<longrightarrow>
      peer \<noteq> own \<and> \<not> smap_contains (nd_peers n) peer
      \<and> length (filter (\<lambda>(_, inbound). \<not> inbound) (nd_peers n)) < nc_max_outbound_peers (nd_config n)
      \<and> (\<exists>h challenge. node_id E h = peer \<and> node_id E challenge = peer \<and> hello_verify E now challenge
           \<and> authenticated E (he_challenge (answer (he_challenge challenge))) now h))"
proof (intro conjI impI)
  assume s: "serve_socket E enabled greeting own now failures input at n = Inr (peer, r)"
  then obtain h f where e: "enabled" "peer = node_id E h" "hello_verify E now h"
    "he_response_to h = he_challenge greeting" "node_id E h \<noteq> own" "session_begin E h True f at n = Inr r"
    by (auto simp: serve_socket_def serve_check_def split: prod.splits if_splits simp: rbind_Inr ensure_def)
  show "enabled" "peer \<noteq> own" using e by simp_all
  show "\<not> smap_contains (nd_peers n) peer"
    "length (filter (\<lambda>(_, inbound). inbound) (nd_peers n)) < nc_max_inbound_peers (nd_config n)"
    using session_begin_new [OF e(6)] e(2) by simp_all
  show "\<exists>h. node_id E h = peer \<and> authenticated E (he_challenge greeting) now h"
    using e verified_authenticated by blast
next
  assume s: "outbound_once E answer own now failures' first second at n = Inr (peer, r)"
  then obtain h challenge f where e: "peer = node_id E h" "hello_verify E now challenge" "hello_verify E now h"
    "node_id E h = node_id E challenge" "node_id E challenge \<noteq> own"
    "he_response_to h = he_challenge (answer (he_challenge challenge))" "session_begin E h False f at n = Inr r"
    by (auto simp: outbound_once_def dial_challenge_def dial_acknowledge_def Let_def
        split: prod.splits if_splits simp: rbind_Inr ensure_def)
  show "peer \<noteq> own" using e by simp
  show "\<not> smap_contains (nd_peers n) peer"
    "length (filter (\<lambda>(_, inbound). \<not> inbound) (nd_peers n)) < nc_max_outbound_peers (nd_config n)"
    using session_begin_new [OF e(7)] e(1) by simp_all
  show "\<exists>h challenge. node_id E h = peer \<and> node_id E challenge = peer \<and> hello_verify E now challenge
      \<and> authenticated E (he_challenge (answer (he_challenge challenge))) now h"
    using e verified_authenticated by metis
qed

lemma sample_served:
  obtains greeting own n peer r where
    "serve_socket sample_env True greeting own 9 (None, None, None)
      (Some (SockItem (SockBinary (encode_frame (MsgHello
        (hello_signed sample_env (replicate 32 0 @ [2]) (\<lambda>_. array_zero) hash_zero 8 (3, hash_zero, []) [] hash_zero))))))
      0 n = Inr (peer, r)"
proof -
  let ?key = "\<lambda>n. replicate 32 0 @ [n] :: bytes"
  let ?sign = "\<lambda>digest :: hash32. array_zero :: 64 barr"
  let ?hello = "\<lambda>n t r. hello_signed sample_env (?key n) ?sign hash_zero t (3, hash_zero, []) [] r"
  have i: "identity_ok sample_env (?key n) ?sign" for n
    by (simp add: identity_ok_def sample_env_def)
  have r: "recv_hello sample_env (encode_frame (MsgHello (?hello 2 8 hash_zero))) = Inr (?hello 2 8 hash_zero)"
    by (intro recv_hello_frame hello_signed_wf) (simp_all add: url_ok_def)
  have v: "hello_verify sample_env 9 (?hello 2 8 hash_zero)"
    by (rule hello_signed_verifies [OF i]) (simp add: abs_diff_def)
  have d: "domain_hash sample_env (ascii ''PARITR-P9-NODE-ID-v1'') (?key 1)
      \<noteq> domain_hash sample_env (ascii ''PARITR-P9-NODE-ID-v1'') (?key 2)"
    by (subst (1 2) sample_domain_hash) (simp_all add: ascii_def array_of_inject)
  obtain db w where run: "node_run sample_env sample_pow
      (node_open sample_config sample_env (sample_genesis_chain w) db)" (is "node_run _ _ ?n") by (rule sample_run)
  have c: "chain_ok sample_env sample_pow (sample_genesis_chain w)"
    using node_run_ok [OF run] by (simp add: node_ok_def node_open_def)
  obtain l where l: "block_locator sample_env (sample_genesis_chain w) = Some l" by (metis block_locator_spec [OF c])
  have "\<exists>r. session_begin sample_env (?hello 2 8 hash_zero) True None 0 ?n = Inr r"
    using l by (simp add: session_begin_def peer_connected_def node_open_def smap_contains_def sample_config_def)
  then obtain x where x: "session_begin sample_env (?hello 2 8 hash_zero) True None 0 ?n = Inr x" by blast
  show thesis
    by (rule that [of "?hello 1 7 hash_zero" "node_id sample_env (?hello 1 7 hash_zero)" ?n])
      (use r v d x in \<open>simp add: serve_socket_def serve_check_def send_frame_def first_frame_def ensure_def
         node_id_def\<close>)
qed

theorem peers_are_authenticated_witness:
  "\<exists>(greeting :: hello) h (n :: node). authenticated sample_env (he_challenge greeting) 9 h
    \<and> \<not> smap_contains (nd_peers n) (node_id sample_env h)"
proof -
  obtain greeting own n peer r where s: "serve_socket sample_env True greeting own 9 (None, None, None)
      (Some (SockItem (SockBinary (encode_frame (MsgHello
        (hello_signed sample_env (replicate 32 0 @ [2]) (\<lambda>_. array_zero) hash_zero 8 (3, hash_zero, []) [] hash_zero))))))
      0 n = Inr (peer, r)" by (rule sample_served)
  from conjunct1 [OF peers_are_authenticated, THEN mp, OF s] show ?thesis by metis
qed

end
