(* ===== verification/Std_Text.thy ===== *)
theory Std_Text
  imports Crypto
begin

text \<open>
The text functions of Rust's standard library that the configuration, the web interface and the portal
  agent use, on the UTF-8 bytes of a string: searching and trimming, \<open>parse\<close> of unsigned integers, and
  the parser of socket addresses.  The lemmas: trimming is idempotent and drops a suffix or a prefix, a
  number is read back from its decimal text, and a port is below 65536.
\<close>

section \<open>Strings\<close>

definition str_starts :: "bytes \<Rightarrow> bytes \<Rightarrow> bool" where
  "str_starts pattern s \<longleftrightarrow> take (length pattern) s = pattern"

definition str_ends :: "bytes \<Rightarrow> bytes \<Rightarrow> bool" where
  "str_ends pattern s \<longleftrightarrow> str_starts (rev pattern) (rev s)"

fun str_contains :: "bytes \<Rightarrow> bytes \<Rightarrow> bool" where
  "str_contains pattern [] \<longleftrightarrow> pattern = []"
| "str_contains pattern (c # s) \<longleftrightarrow> str_starts pattern (c # s) \<or> str_contains pattern s"

definition strip_prefix :: "bytes \<Rightarrow> bytes \<Rightarrow> bytes option" where
  "strip_prefix pattern s = (if str_starts pattern s then Some (drop (length pattern) s) else None)"

definition to_ascii_lowercase :: "bytes \<Rightarrow> bytes" where
  "to_ascii_lowercase = map (\<lambda>c. if 65 \<le> c \<and> c \<le> 90 then c + 32 else c)"

text \<open>\<open>trim_start_matches\<close> with any of several strings, each of them again and again.\<close>

function trim_start_of :: "bytes list \<Rightarrow> bytes \<Rightarrow> bytes" where
  "trim_start_of patterns s =
     (case find (\<lambda>p. p \<noteq> [] \<and> str_starts p s) patterns of
        None \<Rightarrow> s
      | Some p \<Rightarrow> trim_start_of patterns (drop (length p) s))"
  by pat_completeness auto

termination
proof (relation "measure (length \<circ> snd)")
  fix patterns s p assume "find (\<lambda>p. p \<noteq> [] \<and> str_starts p s) patterns = Some p"
  then have "p \<noteq> []" "take (length p) s = p" by (auto simp: find_Some_iff str_starts_def)
  then have "s \<noteq> []" "length p > 0" by auto
  then show "((patterns, drop (length p) s), patterns, s) \<in> measure (length \<circ> snd)" by simp
qed simp

declare trim_start_of.simps [simp del]

definition trim_end_of :: "bytes list \<Rightarrow> bytes \<Rightarrow> bytes" where
  "trim_end_of patterns s = rev (trim_start_of (map rev patterns) (rev s))"

text \<open>The characters with the property \<open>White_Space\<close>, in UTF-8.\<close>

definition white_space :: "bytes list" where
  "white_space = [[9], [10], [11], [12], [13], [32], [0xC2, 0x85], [0xC2, 0xA0], [0xE1, 0x9A, 0x80]]
     @ map (\<lambda>c. [0xE2, 0x80, c]) [0x80, 0x81, 0x82, 0x83, 0x84, 0x85, 0x86, 0x87, 0x88, 0x89, 0x8A, 0xA8, 0xA9, 0xAF]
     @ [[0xE2, 0x81, 0x9F], [0xE3, 0x80, 0x80]]"

definition str_trim :: "bytes \<Rightarrow> bytes" where
  "str_trim s = trim_end_of white_space (trim_start_of white_space s)"

lemma trim_start_none: "(\<And>p. p \<in> set patterns \<Longrightarrow> p \<noteq> [] \<Longrightarrow> \<not> str_starts p s) \<Longrightarrow> trim_start_of patterns s = s"
  by (subst trim_start_of.simps) (auto split: option.split simp: find_Some_iff)

lemma trim_start_stops:
  "p \<in> set patterns \<Longrightarrow> p \<noteq> [] \<Longrightarrow> \<not> str_starts p (trim_start_of patterns s)"
proof (induction patterns s rule: trim_start_of.induct)
  case (1 patterns s)
  show ?case
  proof (cases "find (\<lambda>p. p \<noteq> [] \<and> str_starts p s) patterns")
    case None
    then have "trim_start_of patterns s = s" by (subst trim_start_of.simps) simp
    then show ?thesis using None "1.prems" by (auto simp: find_None_iff)
  next
    case (Some q)
    show ?thesis using "1.IH" [OF Some "1.prems"] Some by (subst trim_start_of.simps) simp
  qed
qed

lemma trim_start_idem [simp]: "trim_start_of patterns (trim_start_of patterns s) = trim_start_of patterns s"
  by (rule trim_start_none) (auto dest: trim_start_stops)

lemma trim_end_idem [simp]: "trim_end_of patterns (trim_end_of patterns s) = trim_end_of patterns s"
  by (simp add: trim_end_of_def)

lemma trim_start_suffix: "\<exists>dropped. s = dropped @ trim_start_of patterns s"
proof (induction patterns s rule: trim_start_of.induct)
  case (1 patterns s)
  show ?case
  proof (cases "find (\<lambda>p. p \<noteq> [] \<and> str_starts p s) patterns")
    case None
    then show ?thesis by (subst trim_start_of.simps) simp
  next
    case (Some p)
    then have e: "trim_start_of patterns s = trim_start_of patterns (drop (length p) s)"
      by (subst trim_start_of.simps) simp
    obtain d where d: "drop (length p) s = d @ trim_start_of patterns (drop (length p) s)"
      using 1 [OF Some] by blast
    have "s = take (length p) s @ drop (length p) s" by simp
    then have "s = (take (length p) s @ d) @ trim_start_of patterns s" using d e by simp
    then show ?thesis by blast
  qed
qed

lemma trim_end_prefix: "\<exists>dropped. s = trim_end_of patterns s @ dropped"
  using trim_start_suffix [of "rev s" "map rev patterns"] by (metis rev_append rev_rev_ident trim_end_of_def)

lemma str_starts_prefix: "str_starts p s \<Longrightarrow> str_starts p (s @ t)"
  by (auto simp: str_starts_def) (metis append_Nil2 drop_eq_Nil length_take min.absorb_iff2 min.commute)

lemma str_trim_idem [simp]: "str_trim (str_trim s) = str_trim s"
proof -
  let ?t = "trim_end_of white_space (trim_start_of white_space s)"
  obtain d where d: "trim_start_of white_space s = ?t @ d" using trim_end_prefix by blast
  have "\<not> str_starts p ?t" if "p \<in> set white_space" "p \<noteq> []" for p
    using trim_start_stops [OF that, of s] str_starts_prefix [of p ?t d] d by metis
  then have "trim_start_of white_space ?t = ?t" by (rule trim_start_none)
  then show ?thesis by (simp add: str_trim_def)
qed

section \<open>Numbers\<close>

definition digit_value :: "nat \<Rightarrow> u8 \<Rightarrow> nat option" where
  "digit_value radix c =
     (let d = (if 48 \<le> c \<and> c \<le> 57 then unat c - 48
               else if 65 \<le> c \<and> c \<le> 90 then unat c - 55
               else if 97 \<le> c \<and> c \<le> 122 then unat c - 87 else 36)
      in if d < radix then Some d else None)"

definition digits_value :: "nat \<Rightarrow> bytes \<Rightarrow> nat" where
  "digits_value radix = foldl (\<lambda>n c. n * radix + (case digit_value radix c of None \<Rightarrow> 0 | Some d \<Rightarrow> d)) 0"

text \<open>\<open>str::parse\<close> for an unsigned integer of \<open>w\<close> bits.\<close>

definition parse_unsigned :: "nat \<Rightarrow> bytes \<Rightarrow> nat option" where
  "parse_unsigned w s =
     (let digits = (case s of [] \<Rightarrow> [] | c # r \<Rightarrow> if c = 43 \<and> r \<noteq> [] then r else s)
      in if digits = [] \<or> \<not> list_all (\<lambda>c. digit_value 10 c \<noteq> None) digits \<or> 2 ^ w \<le> digits_value 10 digits
         then None else Some (digits_value 10 digits))"

text \<open>The decimal text of a number.\<close>

fun decimal :: "nat \<Rightarrow> bytes" where
  "decimal n = (if n < 10 then [word_of_nat (48 + n)] else decimal (n div 10) @ [word_of_nat (48 + n mod 10)])"

declare decimal.simps [simp del]

lemma digit_value_of: "d < 10 \<Longrightarrow> digit_value 10 (word_of_nat (48 + d)) = Some d"
proof -
  assume d: "d < 10"
  then have "unat (word_of_nat (48 + d) :: u8) = 48 + d" using unat_of_nat_lt [of "48 + d", where 'a = 8] by simp
  then show ?thesis using d by (simp add: digit_value_def word_le_nat_alt)
qed

lemma digits_value_snoc:
  "digits_value radix (s @ [c]) = digits_value radix s * radix + (case digit_value radix c of None \<Rightarrow> 0 | Some d \<Rightarrow> d)"
  by (simp add: digits_value_def)

lemma decimal_digits:
  "list_all (\<lambda>c. digit_value 10 c \<noteq> None) (decimal n) \<and> digits_value 10 (decimal n) = n \<and> decimal n \<noteq> []
     \<and> hd (decimal n) \<noteq> 43"
proof (induction n rule: decimal.induct)
  case (1 n)
  have "word_of_nat (48 + d) \<noteq> (43 :: u8)" if "d < 10" for d
  proof -
    have "unat (word_of_nat (48 + d) :: u8) = 48 + d" using that unat_of_nat_lt [of "48 + d", where 'a = 8] by simp
    moreover have "unat (43 :: u8) = 43" by simp
    ultimately have "unat (word_of_nat (48 + d) :: u8) \<noteq> unat (43 :: u8)" by linarith
    then show ?thesis by metis
  qed
  then show ?case
    using 1 digit_value_of [of n] digit_value_of [of "n mod 10"]
    by (subst (1 2 3 4) decimal.simps) (auto simp: digits_value_snoc digits_value_def)
qed

lemma parse_decimal: "n < 2 ^ w \<Longrightarrow> parse_unsigned w (decimal n) = Some n"
  using decimal_digits [of n] by (cases "decimal n") (auto simp: parse_unsigned_def Let_def)

section \<open>Socket addresses\<close>

text \<open>The parser of \<open>SocketAddr\<close> in \<open>core::net\<close>; a result is a value and the bytes left.\<close>

datatype ip_addr = V4 "nat list" | V6 "nat list"

definition read_number :: "nat \<Rightarrow> nat option \<Rightarrow> bool \<Rightarrow> nat \<Rightarrow> bytes \<Rightarrow> (nat \<times> bytes) option" where
  "read_number radix max_digits allow_zero_prefix bound s =
     (let digits = takeWhile (\<lambda>c. digit_value radix c \<noteq> None) s;
          n = digits_value radix digits
      in if digits = [] \<or> (case max_digits of None \<Rightarrow> False | Some m \<Rightarrow> m < length digits)
            \<or> (\<not> allow_zero_prefix \<and> hd digits = 48 \<and> 1 < length digits) \<or> bound \<le> n
         then None else Some (n, drop (length digits) s))"

definition read_char :: "u8 \<Rightarrow> bytes \<Rightarrow> bytes option" where
  "read_char c s = (case s of [] \<Rightarrow> None | x # r \<Rightarrow> if x = c then Some r else None)"

definition read_separator :: "u8 \<Rightarrow> nat \<Rightarrow> (bytes \<Rightarrow> 'a option) \<Rightarrow> bytes \<Rightarrow> 'a option" where
  "read_separator separator i inner s =
     (if 0 < i then Option.bind (read_char separator s) inner else inner s)"

definition read_octet :: "nat \<Rightarrow> bytes \<Rightarrow> (nat \<times> bytes) option" where
  "read_octet i = read_separator 46 i (read_number 10 (Some 3) False 256)"

definition read_ipv4 :: "bytes \<Rightarrow> (nat list \<times> bytes) option" where
  "read_ipv4 s =
     Option.bind (read_octet 0 s) (\<lambda>(a, s).
     Option.bind (read_octet 1 s) (\<lambda>(b, s).
     Option.bind (read_octet 2 s) (\<lambda>(c, s).
     Option.bind (read_octet 3 s) (\<lambda>(d, s). Some ([a, b, c, d], s)))))"

function read_groups :: "nat \<Rightarrow> nat \<Rightarrow> bytes \<Rightarrow> nat list \<times> bool \<times> bytes" where
  "read_groups size_max i s =
     (if size_max \<le> i then ([], False, s)
      else case (if i < size_max - 1 then read_separator 58 i read_ipv4 s else None) of
        Some (octets, s) \<Rightarrow> ([octets ! 0 * 256 + octets ! 1, octets ! 2 * 256 + octets ! 3], True, s)
      | None \<Rightarrow>
          (case read_separator 58 i (read_number 16 (Some 4) True 65536) s of
             None \<Rightarrow> ([], False, s)
           | Some (g, s) \<Rightarrow>
               (case read_groups size_max (Suc i) s of (gs, ipv4, s) \<Rightarrow> (g # gs, ipv4, s))))"
  by pat_completeness auto

termination by (relation "measure (\<lambda>(size_max, i, s). size_max - i)") auto

declare read_groups.simps [simp del]

definition read_ipv6 :: "bytes \<Rightarrow> (nat list \<times> bytes) option" where
  "read_ipv6 s =
     (case read_groups 8 0 s of
        (head, head_ipv4, s) \<Rightarrow>
          if length head = 8 then Some (head, s)
          else if head_ipv4 then None
          else
            Option.bind (read_char 58 s) (\<lambda>s.
            Option.bind (read_char 58 s) (\<lambda>s.
            case read_groups (8 - (length head + 1)) 0 s of
              (tail, _, s) \<Rightarrow> Some (head @ replicate (8 - length head - length tail) 0 @ tail, s))))"

definition read_port :: "bytes \<Rightarrow> (nat \<times> bytes) option" where
  "read_port s = Option.bind (read_char 58 s) (read_number 10 None True 65536)"

definition read_scope_id :: "bytes \<Rightarrow> (nat \<times> bytes) option" where
  "read_scope_id s = Option.bind (read_char 37 s) (read_number 10 None True (2 ^ 32))"

definition read_socket_v4 :: "bytes \<Rightarrow> ((ip_addr \<times> nat) \<times> bytes) option" where
  "read_socket_v4 s =
     Option.bind (read_ipv4 s) (\<lambda>(ip, s).
     Option.bind (read_port s) (\<lambda>(port, s). Some ((V4 ip, port), s)))"

definition read_socket_v6 :: "bytes \<Rightarrow> ((ip_addr \<times> nat) \<times> bytes) option" where
  "read_socket_v6 s =
     Option.bind (read_char 91 s) (\<lambda>s.
     Option.bind (read_ipv6 s) (\<lambda>(ip, s).
     let s = (case read_scope_id s of None \<Rightarrow> s | Some (_, s) \<Rightarrow> s) in
     Option.bind (read_char 93 s) (\<lambda>s.
     Option.bind (read_port s) (\<lambda>(port, s). Some ((V6 ip, port), s)))))"

definition socket_addr :: "bytes \<Rightarrow> (ip_addr \<times> nat) option" where
  "socket_addr s =
     (case (case read_socket_v4 s of None \<Rightarrow> read_socket_v6 s | Some x \<Rightarrow> Some x) of
        Some (address, []) \<Rightarrow> Some address
      | _ \<Rightarrow> None)"

definition is_loopback :: "ip_addr \<Rightarrow> bool" where
  "is_loopback ip = (case ip of V4 octets \<Rightarrow> hd octets = 127 | V6 groups \<Rightarrow> groups = [0, 0, 0, 0, 0, 0, 0, 1])"

lemma read_number_less: "read_number radix m z bound s = Some (n, r) \<Longrightarrow> n < bound"
  by (auto simp: read_number_def Let_def split: if_splits)

lemma socket_port_bound: "socket_addr s = Some (ip, port) \<Longrightarrow> port < 65536"
  by (auto simp: socket_addr_def read_socket_v4_def read_socket_v6_def read_port_def Let_def bind_eq_Some_conv
      dest: read_number_less split: option.splits list.splits prod.splits)

lemmas socket_simps = socket_addr_def read_socket_v4_def read_socket_v6_def read_ipv4_def read_ipv6_def read_octet_def
  read_port_def read_scope_id_def read_separator_def read_number_def read_char_def Let_def digit_value_def
  digits_value_def ascii_def read_groups.simps

lemma socket_addr_examples:
  "socket_addr (ascii ''0.0.0.0:5050'') = Some (V4 [0, 0, 0, 0], 5050)"
  "socket_addr (ascii ''127.0.0.1:5051'') = Some (V4 [127, 0, 0, 1], 5051)"
  "socket_addr (ascii ''[::1]:80'') = Some (V6 [0, 0, 0, 0, 0, 0, 0, 1], 80)"
  "socket_addr (ascii ''localhost:80'') = None"
  "socket_addr (ascii ''127.0.0.1:65536'') = None"
  "socket_addr (ascii ''127.0.0.01:1'') = None"
  by (simp_all add: socket_simps) (simp add: numeral_eq_Suc)

end
