(* ===== verification/Config.thy ===== *)
theory Config
  imports Session Std_Text
begin

text \<open>
\<open>src/config.rs\<close>: the configuration of a node, its validation, the file it is kept in and its migration
  at start-up.  A file is read back as the configuration that was written (\<open>serde_json\<close>); the \<open>url\<close> and
  \<open>secp256k1\<close> crates are the fields of the record \<open>web\<close>, random texts and errors of the file system are
  arguments.  The lemmas: what a valid configuration is, loading a settled one changes nothing, a refused
  load changes nothing, and the default configuration is valid.
\<close>

section \<open>External crates\<close>

text \<open>The view of \<open>url::Url\<close> the code takes.\<close>

record url =
  ur_scheme :: bytes
  ur_username :: bytes
  ur_password :: "bytes option"
  ur_host :: "bytes option"
  ur_port :: "nat option"
  ur_path :: bytes
  ur_query :: "bytes option"
  ur_fragment :: "bytes option"

text \<open>\<open>Url::parse\<close>, \<open>Url::to_string\<close>, \<open>Url::set_path\<close>, \<open>Url::set_scheme\<close>,
  \<open>Url::port_or_known_default\<close> and \<open>SecretKey::from_slice\<close>.\<close>

record web =
  url_parse :: "bytes \<Rightarrow> url option"
  url_text :: "url \<Rightarrow> bytes"
  url_set_path :: "bytes \<Rightarrow> url \<Rightarrow> url"
  url_set_scheme :: "bytes \<Rightarrow> url \<Rightarrow> url option"
  url_known_port :: "url \<Rightarrow> nat option"
  secret_key_valid :: "bytes \<Rightarrow> bool"

section \<open>The configuration\<close>

datatype mining_mode = LightMode | FastMode

record config =
  cf_network :: bytes
  cf_public_bind :: bytes
  cf_admin_bind :: bytes
  cf_management_bind :: bytes
  cf_data_dir :: bytes
  cf_randomx_library :: "bytes option"
  cf_randomx_mode :: mining_mode
  cf_node_enabled :: bool
  cf_mining_enabled :: bool
  cf_mining_threads :: nat
  cf_mining_intensity :: u8
  cf_miner_address :: "address option"
  cf_seed_nodes :: "bytes list"
  cf_peers :: "bytes list"
  cf_max_inbound_peers :: nat
  cf_max_outbound_peers :: nat
  cf_public_url :: "bytes option"
  cf_admin_secret :: bytes
  cf_device_id :: bytes
  cf_device_name :: bytes
  cf_node_private_key :: bytes
  cf_portal_url :: "bytes option"
  cf_portal_agent_id :: "bytes option"
  cf_portal_agent_token :: "bytes option"
  cf_log_level :: bytes

datatype config_error =
    ConfigIo string
  | ConfigJson string
  | WrongNetwork bytes
  | BadPublicBind
  | BadAdminBind
  | AdminNotLoopback
  | BadManagementBind
  | BadIntensity
  | BadThreads
  | BadPeerLimits
  | TooManyPeerUrls
  | MinerAddressRequired
  | UrlInvalid string
  | UrlNotHttps string
  | UrlCredentials string
  | BadAdminSecret
  | BadDeviceId
  | BadDeviceName
  | NodeKeyNotHex
  | NodeKeyInvalid

text \<open>\<open>Config::default\<close>; the three random texts are arguments.\<close>

definition config_default :: "bytes \<Rightarrow> bytes \<Rightarrow> bytes \<Rightarrow> config" where
  "config_default device_id admin_secret node_private_key =
     \<lparr>cf_network = CHAIN_ID, cf_public_bind = ascii ''0.0.0.0:5050'', cf_admin_bind = ascii ''127.0.0.1:5051'',
      cf_management_bind = ascii ''0.0.0.0:5051'', cf_data_dir = ascii ''data'', cf_randomx_library = None,
      cf_randomx_mode = LightMode, cf_node_enabled = True, cf_mining_enabled = False, cf_mining_threads = 0,
      cf_mining_intensity = 100, cf_miner_address = None, cf_seed_nodes = [ascii ''https://node0.oe-net.de''],
      cf_peers = [], cf_max_inbound_peers = 64, cf_max_outbound_peers = 16, cf_public_url = None,
      cf_admin_secret = admin_secret, cf_device_id = device_id,
      cf_device_name = ascii ''pnode-'' @ take 8 device_id, cf_node_private_key = node_private_key,
      cf_portal_url = None, cf_portal_agent_id = None, cf_portal_agent_token = None,
      cf_log_level = ascii ''info''\<rparr>"

definition is_digit :: "u8 \<Rightarrow> bool" where
  "is_digit c \<longleftrightarrow> 48 \<le> c \<and> c \<le> 57"

definition is_lowercase :: "u8 \<Rightarrow> bool" where
  "is_lowercase c \<longleftrightarrow> 97 \<le> c \<and> c \<le> 122"

definition is_uppercase :: "u8 \<Rightarrow> bool" where
  "is_uppercase c \<longleftrightarrow> 65 \<le> c \<and> c \<le> 90"

definition is_alphanumeric :: "u8 \<Rightarrow> bool" where
  "is_alphanumeric c \<longleftrightarrow> is_digit c \<or> is_lowercase c \<or> is_uppercase c"

definition valid_device_name :: "bytes \<Rightarrow> bool" where
  "valid_device_name value \<longleftrightarrow>
     value \<noteq> [] \<and> length value \<le> 63 \<and> is_alphanumeric (hd value) \<and> is_alphanumeric (last value)
     \<and> list_all (\<lambda>c. is_lowercase c \<or> is_digit c \<or> c = 45) value"

definition url_loopback :: "url \<Rightarrow> bool" where
  "url_loopback url \<longleftrightarrow>
     (case ur_host url of None \<Rightarrow> False
      | Some host \<Rightarrow> host = ascii ''localhost'' \<or> host = ascii ''127.0.0.1'' \<or> host = ascii ''::1'')"

definition validate_https_url :: "web \<Rightarrow> bytes option \<Rightarrow> string \<Rightarrow> config_error + unit" where
  "validate_https_url W value field =
     (case value of None \<Rightarrow> Inr ()
      | Some value \<Rightarrow>
          if value = [] then Inr ()
          else case url_parse W value of None \<Rightarrow> Inl (UrlInvalid field)
            | Some url \<Rightarrow>
                if ur_scheme url \<noteq> ascii ''https'' \<and> \<not> (ur_scheme url = ascii ''http'' \<and> url_loopback url)
                then Inl (UrlNotHttps field)
                else if ur_username url \<noteq> [] \<or> ur_password url \<noteq> None \<or> ur_fragment url \<noteq> None
                then Inl (UrlCredentials field)
                else Inr ())"

definition config_validate :: "prims \<Rightarrow> web \<Rightarrow> config \<Rightarrow> config_error + unit" where
  "config_validate E W c =
     rbind (ensure (cf_network c = CHAIN_ID) (WrongNetwork (cf_network c))) (\<lambda>_.
     rbind (ensure (socket_addr (cf_public_bind c) \<noteq> None) BadPublicBind) (\<lambda>_.
     rbind (ok_or (socket_addr (cf_admin_bind c)) BadAdminBind) (\<lambda>(ip, port).
     rbind (ensure (is_loopback ip) AdminNotLoopback) (\<lambda>_.
     rbind (ensure (socket_addr (cf_management_bind c) \<noteq> None) BadManagementBind) (\<lambda>_.
     rbind (ensure (5 \<le> cf_mining_intensity c \<and> cf_mining_intensity c \<le> 100) BadIntensity) (\<lambda>_.
     rbind (ensure (cf_mining_threads c \<le> 1024) BadThreads) (\<lambda>_.
     rbind (ensure (cf_max_inbound_peers c \<le> 1024 \<and> cf_max_outbound_peers c \<le> 256) BadPeerLimits) (\<lambda>_.
     rbind (ensure (min (length (cf_seed_nodes c) + length (cf_peers c)) (2 ^ 64 - 1) \<le> 4096) TooManyPeerUrls) (\<lambda>_.
     rbind (ensure (\<not> (cf_mining_enabled c \<and> cf_miner_address c = None)) MinerAddressRequired) (\<lambda>_.
     rbind (validate_https_url W (cf_public_url c) ''public_url'') (\<lambda>_.
     rbind (validate_https_url W (cf_portal_url c) ''portal_url'') (\<lambda>_.
     rbind (ensure (case hex_decode E (cf_admin_secret c) of None \<Rightarrow> False | Some bs \<Rightarrow> 24 \<le> length bs) BadAdminSecret) (\<lambda>_.
     rbind (ensure (length (cf_device_id c) = 32 \<and> list_all is_ascii_hexdigit (cf_device_id c)) BadDeviceId) (\<lambda>_.
     rbind (ensure (valid_device_name (cf_device_name c)) BadDeviceName) (\<lambda>_.
     rbind (ok_or (hex_decode E (cf_node_private_key c)) NodeKeyNotHex) (\<lambda>secret.
     ensure (secret_key_valid W secret) NodeKeyInvalid))))))))))))))))"

section \<open>The file\<close>

text \<open>What is at the path of the configuration: nothing, something that cannot be read or parsed, or
  the configuration that was written there.\<close>

datatype config_file = NoFile | Unreadable config_error | Stored config

text \<open>\<open>Path::is_relative\<close> and \<open>Path::join\<close> on Unix.\<close>

definition path_relative :: "bytes \<Rightarrow> bool" where
  "path_relative p \<longleftrightarrow> \<not> str_starts [47] p"

definition path_join :: "bytes \<Rightarrow> bytes \<Rightarrow> bytes" where
  "path_join base p =
     (if \<not> path_relative p then p
      else if base = [] \<or> last base = 47 then base @ p else base @ [47] @ p)"

text \<open>\<open>Config::save\<close>: the file is replaced as a whole or not at all; \<open>failure\<close> is the error of the
  file system, if any.\<close>

definition config_save :: "string option \<Rightarrow> config \<Rightarrow> config_file \<Rightarrow> (config_error + unit) \<times> config_file" where
  "config_save failure c file =
     (case failure of None \<Rightarrow> (Inr (), Stored c) | Some e \<Rightarrow> (Inl (ConfigIo e), file))"

text \<open>The change of an old default and of a relative data directory; \<open>dir\<close> is the parent of the path of
  the file.\<close>

definition config_migrate :: "bytes option \<Rightarrow> config \<Rightarrow> config \<times> bool" where
  "config_migrate dir c =
     (let old = cf_management_bind c = ascii ''0.0.0.0:5052'' \<and> cf_admin_bind c = ascii ''127.0.0.1:5051'';
          c = (if old then c\<lparr>cf_management_bind := ascii ''0.0.0.0:5051''\<rparr> else c)
      in if path_relative (cf_data_dir c)
         then (c\<lparr>cf_data_dir := path_join (case dir of None \<Rightarrow> ascii ''.'' | Some d \<Rightarrow> d) (cf_data_dir c)\<rparr>, True)
         else (c, old))"

definition load_or_create ::
    "prims \<Rightarrow> web \<Rightarrow> bytes option \<Rightarrow> config \<Rightarrow> string option \<Rightarrow> config_file \<Rightarrow> (config_error + config) \<times> config_file"
  where
  "load_or_create E W dir fresh failure file =
     (case (case file of NoFile \<Rightarrow> Inr fresh | Unreadable e \<Rightarrow> Inl e | Stored c \<Rightarrow> Inr c) of
        Inl e \<Rightarrow> (Inl e, file)
      | Inr c \<Rightarrow>
          let (c, migrated) = config_migrate dir c in
          case config_validate E W c of
            Inl e \<Rightarrow> (Inl e, file)
          | Inr _ \<Rightarrow>
              if file = NoFile \<or> migrated
              then (case config_save failure c file of (Inl e, file) \<Rightarrow> (Inl e, file) | (Inr _, file) \<Rightarrow> (Inr c, file))
              else (Inr c, file))"

section \<open>Lemmas\<close>

definition config_ok :: "prims \<Rightarrow> web \<Rightarrow> config \<Rightarrow> bool" where
  "config_ok E W c \<longleftrightarrow> config_validate E W c = Inr ()"

lemma config_ok_iff:
  "config_ok E W c \<longleftrightarrow>
     cf_network c = CHAIN_ID \<and> socket_addr (cf_public_bind c) \<noteq> None
     \<and> (\<exists>ip port. socket_addr (cf_admin_bind c) = Some (ip, port) \<and> is_loopback ip)
     \<and> socket_addr (cf_management_bind c) \<noteq> None
     \<and> 5 \<le> cf_mining_intensity c \<and> cf_mining_intensity c \<le> 100 \<and> cf_mining_threads c \<le> 1024
     \<and> cf_max_inbound_peers c \<le> 1024 \<and> cf_max_outbound_peers c \<le> 256
     \<and> length (cf_seed_nodes c) + length (cf_peers c) \<le> 4096
     \<and> (cf_mining_enabled c \<longrightarrow> cf_miner_address c \<noteq> None)
     \<and> validate_https_url W (cf_public_url c) ''public_url'' = Inr ()
     \<and> validate_https_url W (cf_portal_url c) ''portal_url'' = Inr ()
     \<and> (\<exists>bs. hex_decode E (cf_admin_secret c) = Some bs \<and> 24 \<le> length bs)
     \<and> length (cf_device_id c) = 32 \<and> list_all is_ascii_hexdigit (cf_device_id c)
     \<and> valid_device_name (cf_device_name c)
     \<and> (\<exists>secret. hex_decode E (cf_node_private_key c) = Some secret \<and> secret_key_valid W secret)"
  by (auto simp: config_ok_def config_validate_def result_simps ok_or_def split: option.splits)

text \<open>A configuration that \<open>load_or_create\<close> has nothing to change in.\<close>

definition settled :: "config \<Rightarrow> bool" where
  "settled c \<longleftrightarrow> \<not> path_relative (cf_data_dir c)
     \<and> \<not> (cf_management_bind c = ascii ''0.0.0.0:5052'' \<and> cf_admin_bind c = ascii ''127.0.0.1:5051'')"

lemma migrate_settled: "settled c \<Longrightarrow> config_migrate dir c = (c, False)"
  by (auto simp: settled_def config_migrate_def Let_def)

lemma load_settled: "config_ok E W c \<Longrightarrow> settled c \<Longrightarrow> load_or_create E W dir fresh failure (Stored c) = (Inr c, Stored c)"
  by (simp add: load_or_create_def migrate_settled config_ok_def)

lemma binds_differ: "ascii ''0.0.0.0:5051'' \<noteq> ascii ''0.0.0.0:5052''"
  by (simp add: ascii_def)

lemma join_absolute: "\<not> path_relative d \<Longrightarrow> \<not> path_relative (path_join d p)"
  by (cases d) (auto simp: path_join_def path_relative_def str_starts_def)

lemma migrate_absolute:
  assumes "dir = Some d" "\<not> path_relative d"
  shows "settled (fst (config_migrate dir c))"
  using assms join_absolute [of d] binds_differ
  by (auto simp: config_migrate_def settled_def Let_def)

lemma load_cases:
  assumes "load_or_create E W dir fresh failure disk = (Inr c, disk')"
  obtains c0 where "c = fst (config_migrate dir c0)" "disk = Stored c0 \<or> disk = NoFile \<and> c0 = fresh"
    "config_ok E W c" "disk' = Stored c"
proof -
  define loaded where "loaded = (case disk of NoFile \<Rightarrow> Inr fresh | Unreadable e \<Rightarrow> Inl e | Stored c \<Rightarrow> Inr c)"
  obtain c0 where c0: "loaded = Inr c0" using assms by (auto simp: load_or_create_def loaded_def split: sum.splits)
  obtain m b where m: "config_migrate dir c0 = (m, b)" by force
  have l: "load_or_create E W dir fresh failure disk =
      (case config_validate E W m of Inl e \<Rightarrow> (Inl e, disk)
       | Inr _ \<Rightarrow> if disk = NoFile \<or> b
           then (case config_save failure m disk of (Inl e, disk) \<Rightarrow> (Inl e, disk) | (Inr _, disk) \<Rightarrow> (Inr m, disk))
           else (Inr m, disk))"
    using c0 m by (simp add: load_or_create_def loaded_def [symmetric])
  have d: "disk = Stored c0 \<or> disk = NoFile \<and> c0 = fresh"
    using c0 by (cases disk) (auto simp: loaded_def)
  have "m = c \<and> config_ok E W c"
    using assms by (auto simp: l config_ok_def config_save_def split: sum.splits if_splits option.splits)
  moreover have "disk' = Stored c"
    using assms d m
    by (auto simp: l config_save_def config_migrate_def Let_def split: sum.splits if_splits option.splits)
  ultimately show thesis using that [of c0] d m by simp
qed

lemma load_refused: "load_or_create E W dir fresh failure file = (Inl e, file') \<Longrightarrow> file' = file"
  by (auto simp: load_or_create_def config_save_def Let_def split: sum.splits if_splits option.splits prod.splits)

lemma default_binds:
  "socket_addr (ascii ''0.0.0.0:5050'') = Some (V4 [0, 0, 0, 0], 5050)"
  "socket_addr (ascii ''0.0.0.0:5051'') = Some (V4 [0, 0, 0, 0], 5051)"
  "socket_addr (ascii ''127.0.0.1:5051'') = Some (V4 [127, 0, 0, 1], 5051)"
  by (simp_all add: socket_simps)

lemma migrate_ok: "config_ok E W c \<Longrightarrow> config_ok E W (fst (config_migrate dir c))"
  using default_binds by (auto simp: config_ok_iff config_migrate_def Let_def)

lemma load_stored:
  assumes "config_ok E W c"
  shows "load_or_create E W dir fresh None (Stored c) =
    (Inr (fst (config_migrate dir c)), Stored (fst (config_migrate dir c)))"
proof (cases "config_migrate dir c")
  case (Pair m b)
  have "config_ok E W m" using migrate_ok [OF assms, of dir] Pair by simp
  moreover have "m = c" if "\<not> b" using that Pair by (auto simp: config_migrate_def Let_def split: if_splits)
  ultimately show ?thesis by (auto simp: load_or_create_def Pair config_ok_def config_save_def)
qed

text \<open>The \<open>hex\<close> crate: encoding gives two lowercase digits for each byte, and decoding inverts it.\<close>

definition hex_crate :: "prims \<Rightarrow> bool" where
  "hex_crate E \<longleftrightarrow> (\<forall>bs. hex_decode E (hex_encode E bs) = Some bs \<and> length (hex_encode E bs) = 2 * length bs
     \<and> list_all (\<lambda>c. is_digit c \<or> (97 \<le> c \<and> c \<le> 102)) (hex_encode E bs))"

lemma lowercase_hex:
  assumes "is_digit c \<or> (97 \<le> c \<and> c \<le> 102)"
  shows "is_ascii_hexdigit c" "is_alphanumeric c" "is_lowercase c \<or> is_digit c"
proof -
  have "c \<le> 122" if "c \<le> 102" using that by (rule order_trans) simp
  then show "is_ascii_hexdigit c" "is_alphanumeric c" "is_lowercase c \<or> is_digit c"
    using assms by (auto simp: is_ascii_hexdigit_def is_digit_def is_alphanumeric_def is_lowercase_def)
qed

lemma default_device_name:
  assumes "length device_id = 32" and "list_all (\<lambda>c. is_digit c \<or> (97 \<le> c \<and> c \<le> 102)) device_id"
  shows "valid_device_name (ascii ''pnode-'' @ take 8 device_id)"
proof -
  let ?tail = "take 8 device_id"
  have h: "\<And>c. c \<in> set ?tail \<Longrightarrow> is_digit c \<or> (97 \<le> c \<and> c \<le> 102)"
    using assms(2) by (auto simp: list_all_iff dest: in_set_takeD)
  have ne: "?tail \<noteq> []" using assms(1) by auto
  have "last (ascii ''pnode-'' @ ?tail) = last ?tail" using ne by simp
  moreover have "last ?tail \<in> set ?tail" using ne by simp
  ultimately have "is_alphanumeric (last (ascii ''pnode-'' @ ?tail))"
    using h lowercase_hex(2) by metis
  moreover have "list_all (\<lambda>c. is_lowercase c \<or> is_digit c \<or> c = 45) ?tail"
    using h lowercase_hex(3) by (auto simp: list_all_iff)
  ultimately show ?thesis
    by (simp add: valid_device_name_def ascii_def is_alphanumeric_def is_lowercase_def is_digit_def)
qed

lemma default_ok:
  assumes "hex_crate E" "length device = 16" "length secret = 24" "secret_key_valid W key"
  shows "config_ok E W (config_default (hex_encode E device) (hex_encode E secret) (hex_encode E key))"
proof -
  have h: "hex_decode E (hex_encode E bs) = Some bs" "length (hex_encode E bs) = 2 * length bs"
    "list_all (\<lambda>c. is_digit c \<or> (97 \<le> c \<and> c \<le> 102)) (hex_encode E bs)" for bs
    using assms(1) by (simp_all add: hex_crate_def)
  have "list_all is_ascii_hexdigit (hex_encode E device)"
    using h(3) lowercase_hex(1) by (auto simp: list_all_iff)
  then show ?thesis
    using assms(2-4) default_device_name [OF _ h(3) [of device]]
    by (simp add: config_ok_iff config_default_def default_binds is_loopback_def validate_https_url_def h)
qed

section \<open>Properties\<close>


text \<open>A \<open>hex\<close> crate and a \<open>url\<close> crate for the witnesses: the latter reads a text as the host of an
  \<open>https\<close> URL.\<close>

definition sample_hex :: "bytes \<Rightarrow> bytes" where
  "sample_hex bs = concat (map (\<lambda>b. [hex_digit (unat b div 16), hex_digit (unat b mod 16)]) bs)"

definition sample_nibble :: "u8 \<Rightarrow> nat" where
  "sample_nibble c = unat c - (if c \<le> 57 then 48 else 87)"

fun sample_unhex :: "bytes \<Rightarrow> bytes option" where
  "sample_unhex [] = Some []"
| "sample_unhex [_] = None"
| "sample_unhex (a # b # r) = map_option ((#) (word_of_nat (sample_nibble a * 16 + sample_nibble b))) (sample_unhex r)"

definition hex_env :: prims where
  "hex_env = sample_env\<lparr>hex_encode := sample_hex, hex_decode := sample_unhex\<rparr>"

definition sample_web :: web where
  "sample_web = \<lparr>url_parse = (\<lambda>s. Some \<lparr>ur_scheme = ascii ''https'', ur_username = [], ur_password = None,
       ur_host = Some (trim_end_of [[47]] s), ur_port = None, ur_path = [47], ur_query = None, ur_fragment = None\<rparr>),
     url_text = (\<lambda>u. case ur_host u of None \<Rightarrow> [] | Some s \<Rightarrow> s),
     url_set_path = (\<lambda>p u. u\<lparr>ur_path := p\<rparr>), url_set_scheme = (\<lambda>s u. Some (u\<lparr>ur_scheme := s\<rparr>)),
     url_known_port = (\<lambda>u. Some 443), secret_key_valid = (\<lambda>bs. length bs = 32)\<rparr>"

lemma hex_digit_facts:
  assumes "d < 16"
  shows "sample_nibble (hex_digit d) = d" "is_digit (hex_digit d) \<or> (97 \<le> hex_digit d \<and> hex_digit d \<le> 102)"
proof -
  have u: "unat (hex_digit d) = (if d < 10 then 48 + d else 87 + d)"
    unfolding hex_digit_def using assms by (subst unat_of_nat_lt) auto
  show "sample_nibble (hex_digit d) = d" using assms by (simp add: sample_nibble_def word_le_nat_alt u)
  show "is_digit (hex_digit d) \<or> (97 \<le> hex_digit d \<and> hex_digit d \<le> 102)"
    using assms by (simp add: is_digit_def word_le_nat_alt u)
qed

lemma sample_hex_crate: "hex_crate hex_env"
proof -
  have b: "unat b div 16 < 16" "unat b mod 16 < 16" for b :: u8
    using unat_bound [of b] by (simp_all add: div_less_iff_less_mult)
  have d: "sample_unhex (sample_hex bs) = Some bs" for bs
    by (induction bs) (simp_all add: sample_hex_def hex_digit_facts b del: of_nat_add of_nat_mult)
  have l: "length (sample_hex bs) = 2 * length bs" for bs by (induction bs) (simp_all add: sample_hex_def)
  have a: "list_all (\<lambda>c. is_digit c \<or> (97 \<le> c \<and> c \<le> 102)) (sample_hex bs)" for bs
    by (induction bs) (simp_all add: sample_hex_def hex_digit_facts b)
  show ?thesis using d l a by (simp add: hex_crate_def hex_env_def)
qed


text \<open>With a relative path in a directory of its own the data directory drifts: each load of a
  configuration whose data directory is relative puts the directory of the file in front of it once more
  and writes that back, so that the next start looks for the chain and the identity somewhere else.\<close>

theorem relative_config_drifts:
  assumes "config_ok E W c" and "path_relative (cf_data_dir c)" and "path_relative d" and "d \<noteq> []"
  shows "\<exists>c1 c2. load_or_create E W (Some d) fresh None (Stored c) = (Inr c1, Stored c1)
    \<and> load_or_create E W (Some d) fresh None (Stored c1) = (Inr c2, Stored c2)
    \<and> cf_data_dir c1 = path_join d (cf_data_dir c) \<and> cf_data_dir c2 = path_join d (cf_data_dir c1)
    \<and> cf_data_dir c2 \<noteq> cf_data_dir c1"
proof -
  have rel: "path_relative (path_join d p)" if "path_relative p" for p
    using assms(3,4) that by (cases d) (auto simp: path_join_def path_relative_def str_starts_def)
  have longer: "length p < length (path_join d p)" if "path_relative p" for p
    using assms(4) that by (simp add: path_join_def)
  have mig: "cf_data_dir (fst (config_migrate (Some d) x)) = path_join d (cf_data_dir x)"
    if "path_relative (cf_data_dir x)" for x using that by (simp add: config_migrate_def Let_def)
  let ?c1 = "fst (config_migrate (Some d) c)" and ?c2 = "fst (config_migrate (Some d) (fst (config_migrate (Some d) c)))"
  have d1: "cf_data_dir ?c1 = path_join d (cf_data_dir c)" by (rule mig [OF assms(2)])
  have r1: "path_relative (cf_data_dir ?c1)" unfolding d1 by (rule rel [OF assms(2)])
  have d2: "cf_data_dir ?c2 = path_join d (cf_data_dir ?c1)" by (rule mig [OF r1])
  have "cf_data_dir ?c2 \<noteq> cf_data_dir ?c1" using longer [OF r1] unfolding d2 by force
  then show ?thesis
    using load_stored [OF assms(1)] load_stored [OF migrate_ok [OF assms(1)]] d1 d2 by blast
qed

theorem relative_config_drifts_witness:
  "\<exists>c c1 c2. load_or_create hex_env sample_web (Some (ascii ''conf'')) c None (Stored c) = (Inr c1, Stored c1)
    \<and> load_or_create hex_env sample_web (Some (ascii ''conf'')) c None (Stored c1) = (Inr c2, Stored c2)
    \<and> cf_data_dir c1 = ascii ''conf/data'' \<and> cf_data_dir c2 = ascii ''conf/conf/data''"
proof -
  let ?c = "config_default (hex_encode hex_env (replicate 16 1)) (hex_encode hex_env (replicate 24 2)) (hex_encode hex_env (replicate 32 3))"
  have ok: "config_ok hex_env sample_web ?c"
    by (rule default_ok [OF sample_hex_crate]) (simp_all add: sample_web_def)
  have p: "path_relative (cf_data_dir ?c)" "path_relative (ascii ''conf'')" "ascii ''conf'' \<noteq> []"
    "path_join (ascii ''conf'') (cf_data_dir ?c) = ascii ''conf/data''"
    "path_join (ascii ''conf'') (ascii ''conf/data'') = ascii ''conf/conf/data''"
    by (simp_all add: config_default_def path_relative_def str_starts_def path_join_def ascii_def)
  show ?thesis using relative_config_drifts [OF ok p(1-3), of ?c] p(4,5) by (metis (no_types))
qed

end
