(* ===== verification/Mined_Shares.thy ===== *)
theory Mined_Shares
  imports Node_Properties
begin

text \<open>
  What the node's own miner submits as a share passes the same checks as a share of a peer: the path the
  pool finds behind it, the prefix the consensus rules rebuild from it and the roots in its header agree
  with the candidate it was mined on.
\<close>

section \<open>Paths that grow\<close>

lemma share_path_suffix:
  "share_path shares s rest seen = Inr path \<Longrightarrow> \<exists>pre. path = pre @ s # rest"
proof (induction shares s rest seen rule: share_path.induct)
  case (1 shares s rest seen)
  show ?case
  proof (cases "ws_previous s = hash_zero")
    case True
    then show ?thesis using "1.prems" by (subst (asm) share_path.simps) simp
  next
    case False
    have c: "\<not> (ws_previous s \<in> set seen \<or> MAX_WORKSHARES_PER_BLOCK \<le> length (s # rest))"
      using "1.prems" False by (subst (asm) share_path.simps) (auto split: if_splits)
    obtain s' where s': "smap_get shares (ws_previous s) = Some s'"
      and rec: "share_path shares s' (s # rest) (ws_previous s # seen) = Inr path"
      using "1.prems" False c by (subst (asm) share_path.simps) (auto split: option.splits)
    obtain pre where "path = pre @ s' # s # rest" using "1.IH" [OF False c s' rec] by blast
    then show ?thesis by (intro exI [of _ "pre @ [s']"]) simp
  qed
qed

text \<open>The path of a share is found again behind later shares, while there is room and the later shares
  do not close a cycle.\<close>

lemma share_path_extend:
  assumes "share_path shares s rest seen = Inr path" and "\<forall>x \<in> set path. ws_previous x \<notin> extra"
    and "length path + length later \<le> MAX_WORKSHARES_PER_BLOCK" and "set seen' \<subseteq> set seen \<union> extra"
  shows "share_path shares s (rest @ later) seen' = Inr (path @ later)"
  using assms
proof (induction shares s rest seen arbitrary: seen' rule: share_path.induct)
  case (1 shares s rest seen)
  show ?case
  proof (cases "ws_previous s = hash_zero")
    case True
    then have "path = s # rest" using "1.prems"(1) by (subst (asm) share_path.simps) simp
    then show ?thesis using True by (subst share_path.simps) simp
  next
    case False
    have c: "\<not> (ws_previous s \<in> set seen \<or> MAX_WORKSHARES_PER_BLOCK \<le> length (s # rest))"
      using "1.prems"(1) False by (subst (asm) share_path.simps) (auto split: if_splits)
    obtain s' where s': "smap_get shares (ws_previous s) = Some s'"
      and rec: "share_path shares s' (s # rest) (ws_previous s # seen) = Inr path"
      using "1.prems"(1) False c by (subst (asm) share_path.simps) (auto split: option.splits)
    obtain pre where pre: "path = pre @ s' # s # rest" using share_path_suffix [OF rec] by blast
    have c': "\<not> (ws_previous s \<in> set seen' \<or> MAX_WORKSHARES_PER_BLOCK \<le> length (s # rest @ later))"
      using c "1.prems"(2,3,4) by (auto simp: pre)
    have "share_path shares s' ((s # rest) @ later) (ws_previous s # seen') = Inr (path @ later)"
      by (rule "1.IH" [OF False c s' rec "1.prems"(2,3)]) (use "1.prems"(4) in auto)
    then show ?thesis using False c' s' by (subst share_path.simps) simp
  qed
qed

lemma share_path_elements:
  assumes "share_path shares s [] [] = Inr path" and "x \<in> set path"
  shows "\<exists>q. share_path shares x [] [] = Inr q \<and> (x = s \<and> q = path \<or> length q < length path)"
  using assms
proof (induction "length path" arbitrary: s path rule: less_induct)
  case less
  show ?case
  proof (cases "ws_previous s = hash_zero")
    case True
    then have "path = [s]" using less.prems(1) by (simp add: share_path_first)
    then show ?thesis using less.prems by auto
  next
    case False
    obtain s' pre where s': "share_path shares s' [] [] = Inr pre" "path = pre @ [s]"
      by (rule share_path_step [OF less.prems(1) False])
    show ?thesis
    proof (cases "x = s")
      case True
      then show ?thesis using less.prems(1) by blast
    next
      case False
      then have "x \<in> set pre" using less.prems(2) s'(2) by simp
      from less.hyps [OF _ s'(1) this] s'(2) show ?thesis by fastforce
    qed
  qed
qed

text \<open>No share of a path follows its last share.\<close>

lemma path_avoids_end:
  assumes ok: "share_pool_ok E p" and k: "map_of (wp_shares p) k = Some s" "k \<noteq> hash_zero"
    and path: "share_path (wp_shares p) s [] [] = Inr path"
  shows "\<forall>x \<in> set path. ws_previous x \<noteq> k"
proof -
  obtain pre where pre: "path = pre @ [s]" "share_chain E hash_zero path"
    "\<forall>x \<in> set pre. \<exists>k. map_of (wp_shares p) k = Some x" using pool_path_chain [OF ok path] by blast
  have "workshare_id E x \<noteq> k" if x: "x \<in> set pre" for x
  proof
    assume id: "workshare_id E x = k"
    obtain k' where k': "map_of (wp_shares p) k' = Some x" using pre(3) x by blast
    then have "k' = k" using share_entry_okD(1) [OF ok] id by blast
    then have xs: "x = s" using k' k(1) by simp
    obtain s' q where "share_path (wp_shares p) s' [] [] = Inr q" "path = q @ [s]"
    proof (cases "ws_previous s = hash_zero")
      case True
      then have "path = [s]" using path by (simp add: share_path_first)
      then show thesis using x pre(1) by simp
    next
      case False
      then show thesis by (rule share_path_step [OF path]) (rule that)
    qed
    then have "share_path (wp_shares p) s' [] [] = Inr pre" using pre(1) by simp
    then obtain r where "share_path (wp_shares p) x [] [] = Inr r" "length r \<le> length pre"
      using share_path_elements x by (metis less_imp_le order_refl)
    then have "r = path" "length r \<le> length pre" using path xs by simp_all
    then show False using pre(1) by simp
  qed
  moreover have "ws_previous x = h \<or> (\<exists>y \<in> set xs. ws_previous x = workshare_id E y)"
    if "share_chain E h (xs @ [s])" "x \<in> set (xs @ [s])" for xs h x
    using that
  proof (induction xs arbitrary: h)
    case (Cons y xs)
    then show ?case by (cases "x = y") auto
  qed simp
  ultimately show ?thesis using pre(1,2) k(2) by metis
qed

section \<open>The prefix of a share\<close>

text \<open>What checking a path leaves behind: the last id, and a witness of the path with its templates in
  order.\<close>

definition prefix_of :: "prims \<Rightarrow> (hash32 \<Rightarrow> block_template) \<Rightarrow> workshare list \<Rightarrow> workshare_witness \<Rightarrow> bool" where
  "prefix_of E T xs w \<longleftrightarrow> ww_version w = WITNESS_VERSION \<and> ww_workshares w = xs
     \<and> sorted (map (template_id E) (ww_templates w)) \<and> distinct (map (template_id E) (ww_templates w))
     \<and> set (ww_templates w) = T ` ws_template_id ` set xs"

lemma add_template_prefix:
  assumes "sorted (map (template_id E) ts)" "distinct (map (template_id E) ts)"
    and "\<forall>u \<in> set ts. template_id E u = template_id E t \<longrightarrow> u = t"
  shows "sorted (map (template_id E) (add_template E t ts))" "distinct (map (template_id E) (add_template E t ts))"
    "set (add_template E t ts) = insert t (set ts)"
proof -
  have d: "distinct (map (template_id E) (sort_key (template_id E) xs)) \<longleftrightarrow> distinct (map (template_id E) xs)" for xs
    by (simp add: distinct_map)
  show "sorted (map (template_id E) (add_template E t ts))" "distinct (map (template_id E) (add_template E t ts))"
    "set (add_template E t ts) = insert t (set ts)"
    using assms by (auto simp: add_template_def list_ex_iff d)
qed

lemma fold_prefix:
  assumes "try_fold (check_share E pow hist s c) (h, w) xs = Inr (h', w')"
    and "\<forall>x \<in> set xs. smap_get (sc_templates c) (ws_template_id x) = Some (T (ws_template_id x))
      \<and> template_id E (T (ws_template_id x)) = ws_template_id x"
    and "prefix_of E T ys w" and "\<forall>x \<in> set ys. template_id E (T (ws_template_id x)) = ws_template_id x"
  shows "prefix_of E T (ys @ xs) w' \<and> h' = (if xs = [] then h else workshare_id E (last xs))"
  using assms
proof (induction xs arbitrary: h w ys)
  case (Cons x xs)
  let ?t = "T (ws_template_id x)"
  let ?w = "w\<lparr>ww_workshares := ww_workshares w @ [x], ww_templates := add_template E ?t (ww_templates w)\<rparr>"
  obtain r where r: "check_share E pow hist s c (h, w) x = Inr r"
    "try_fold (check_share E pow hist s c) r xs = Inr (h', w')" using Cons.prems(1) by (auto simp: rbind_Inr)
  have "r = (workshare_id E x, ?w)"
    using r(1) Cons.prems(2) by (auto simp: check_share_def Let_def result_simps)
  then have rest: "try_fold (check_share E pow hist s c) (workshare_id E x, ?w) xs = Inr (h', w')" using r(2) by simp
  have ts: "\<forall>u \<in> set (ww_templates w). template_id E u = template_id E ?t \<longrightarrow> u = ?t"
    using Cons.prems(2-4) by (auto simp: prefix_of_def)
  have "prefix_of E T (ys @ [x]) ?w"
    using Cons.prems(3) add_template_prefix [OF _ _ ts] by (auto simp: prefix_of_def)
  from Cons.IH [OF rest _ this] show ?case using Cons.prems(2,4) by auto
qed simp

lemma prefix_of_unique:
  assumes "prefix_of E T xs w" "prefix_of E T xs w'"
  shows "w = w'"
proof -
  have inj: "inj_on (template_id E) (set (ww_templates w) \<union> set (ww_templates w'))"
  proof -
    have "set (ww_templates w') = set (ww_templates w)" using assms by (simp add: prefix_of_def)
    moreover have "distinct (map (template_id E) (ww_templates w))" using assms(1) by (simp add: prefix_of_def)
    ultimately show ?thesis by (simp add: distinct_map)
  qed
  have "ww_templates w = ww_templates w'"
    using assms map_sorted_distinct_set_unique [OF inj] by (simp add: prefix_of_def)
  then show ?thesis using assms by (simp add: prefix_of_def)
qed

section \<open>The path of a new share\<close>

text \<open>A share behind the tip of a pool extends the path of the tip.\<close>

lemma candidate_witness_extends:
  assumes live: "live_pool E pow hist s p" and wit: "pool_witness p = Some wit"
    and room: "length (ww_workshares wit) < MAX_WORKSHARES_PER_BLOCK"
    and share: "bh_previous_block (ws_candidate_header share) = wp_anchor p"
      "map_of (wp_templates p) (ws_template_id share) \<noteq> None"
      "ws_previous share = (if ww_workshares wit = [] then hash_zero else workshare_id E (last (ww_workshares wit)))"
  obtains wit' where "candidate_witness p share = Inr wit'" "ww_workshares wit' = ww_workshares wit @ [share]"
proof -
  note ok = live_pool_ok [OF live]
  have "share_path (wp_shares p) share [] [] = Inr (ww_workshares wit @ [share])"
    using ok
  proof (cases rule: pool_witness_Some)
    case empty
    then have "ww_workshares wit = []" using wit by (simp add: witness_empty_def)
    then show ?thesis using share(3) by (simp add: share_path_first)
  next
    case (tip tipshare wit0)
    have w: "candidate_witness p tipshare = Inr wit" using tip(3,4) wit by simp
    then have path: "share_path (wp_shares p) tipshare [] [] = Inr (ww_workshares wit)"
      by (auto simp: candidate_witness_Inr)
    have l: "ww_workshares wit \<noteq> []" "last (ww_workshares wit) = tipshare"
      using candidate_witness_shape(3,4) [OF ok w] by simp_all
    have prev: "ws_previous share = wp_tip p" using share(3) l share_entry_okD(1) [OF ok tip(2)] by simp
    have "share_path (wp_shares p) tipshare ([] @ [share]) [wp_tip p] = Inr (ww_workshares wit @ [share])"
      by (rule share_path_extend [OF path, where extra = "{wp_tip p}"])
        (use path_avoids_end [OF ok tip(2,1) path] room in auto)
    moreover have "1 < MAX_WORKSHARES_PER_BLOCK" by (simp add: limit_defs)
    ultimately show ?thesis using prev tip(1,2) by (subst share_path.simps) simp
  qed
  then show thesis using share(1,2) by (intro that) (auto simp: candidate_witness_Inr)
qed

text \<open>The witness of a pool is the prefix its path leaves behind.\<close>

lemma witness_prefix:
  assumes ok: "share_pool_ok E p" and w: "candidate_witness p share = Inr wit"
  shows "prefix_of E (\<lambda>k. the (map_of (wp_templates p) k)) (ww_workshares wit) wit"
    "\<forall>x \<in> set (ww_workshares wit). map_of (fold (\<lambda>t m. smap_insert (template_id E t) t m) (ww_templates wit) [])
        (ws_template_id x) = map_of (wp_templates p) (ws_template_id x)
      \<and> map_of (wp_templates p) (ws_template_id x) \<noteq> None"
proof -
  obtain path where known: "map_of (wp_templates p) (ws_template_id share) \<noteq> None"
    and path: "share_path (wp_shares p) share [] [] = Inr path"
    and wit: "wit = \<lparr>ww_version = WITNESS_VERSION,
      ww_templates = map snd (filter (\<lambda>(k, t). k \<in> set (map ws_template_id path)) (wp_templates p)),
      ww_workshares = path\<rparr>"
    using w by (auto simp: candidate_witness_Inr)
  let ?m = "filter (\<lambda>(k, t). k \<in> set (map ws_template_id path)) (wp_templates p)"
  have tok: "smap_ok (wp_templates p)" and tid: "\<And>k t. map_of (wp_templates p) k = Some t \<Longrightarrow> template_id E t = k"
    using ok by (simp_all add: share_pool_ok_def template_entry_ok_def)
  have entry: "map_of (wp_templates p) k = Some t \<and> template_id E t = k" if "(k, t) \<in> set (wp_templates p)" for k t
    using that smap_set_iff [OF tok] tid by blast
  obtain pre where pre: "path = pre @ [share]" "\<forall>x \<in> set pre. \<exists>k. map_of (wp_shares p) k = Some x"
    using pool_path_chain [OF ok path] by blast
  have has: "map_of (wp_templates p) (ws_template_id x) \<noteq> None" if "x \<in> set path" for x
    using that pre known share_entry_okD(3) [OF ok] by fastforce
  have wt: "ww_templates wit = map snd ?m" "ww_version wit = WITNESS_VERSION" "ww_workshares wit = path"
    by (simp_all add: wit)
  have ids: "map (template_id E) (ww_templates wit) = map fst ?m"
    unfolding wt(1) map_map using entry by (auto intro!: map_cong)
  have mok: "smap_ok ?m" using tok by (rule smap_ok_filter)
  have "sorted (map (template_id E) (ww_templates wit))" "distinct (map (template_id E) (ww_templates wit))"
    unfolding ids using mok smap_ok_distinct [OF mok] by (auto simp: smap_ok_def intro: strict_sorted_imp_sorted)
  moreover have "snd ` set ?m = (\<lambda>k. the (map_of (wp_templates p) k)) ` ws_template_id ` set path"
  proof (intro equalityI subsetI)
    fix t assume "t \<in> snd ` set ?m"
    then obtain x k where "(k, t) \<in> set (wp_templates p)" "x \<in> set path" "k = ws_template_id x" by auto
    then show "t \<in> (\<lambda>k. the (map_of (wp_templates p) k)) ` ws_template_id ` set path"
      using entry by force
  next
    fix t assume "t \<in> (\<lambda>k. the (map_of (wp_templates p) k)) ` ws_template_id ` set path"
    then obtain x where x: "x \<in> set path" "t = the (map_of (wp_templates p) (ws_template_id x))" by auto
    then have "map_of (wp_templates p) (ws_template_id x) = Some t" using has by auto
    then have "(ws_template_id x, t) \<in> set ?m" using smap_set_iff [OF tok] x(1) by auto
    then show "t \<in> snd ` set ?m" by force
  qed
  ultimately show "prefix_of E (\<lambda>k. the (map_of (wp_templates p) k)) (ww_workshares wit) wit"
    unfolding prefix_of_def wt(2,3) by (simp add: wt(1))
  have get: "map_of (fold (\<lambda>t m. smap_insert (template_id E t) t m) ts m0) (template_id E t) = Some t"
    if "t \<in> set ts" "\<forall>u \<in> set ts. template_id E u = template_id E t \<longrightarrow> u = t" for ts t m0
    using that by (induction ts rule: rev_induct) auto
  have "map_of (fold (\<lambda>t m. smap_insert (template_id E t) t m) (ww_templates wit) []) (ws_template_id x)
      = map_of (wp_templates p) (ws_template_id x)" if x: "x \<in> set path" for x
  proof -
    obtain t where t: "map_of (wp_templates p) (ws_template_id x) = Some t" using has [OF x] by blast
    then have "(ws_template_id x, t) \<in> set ?m" using smap_set_iff [OF tok] x by auto
    then have mem: "t \<in> set (ww_templates wit)" by (force simp: wit)
    have "\<forall>u \<in> set (ww_templates wit). template_id E u = template_id E t \<longrightarrow> u = t"
    proof (intro ballI impI)
      fix u assume "u \<in> set (ww_templates wit)" and e: "template_id E u = template_id E t"
      then obtain k where "(k, u) \<in> set (wp_templates p)" by (auto simp: wit)
      then have "map_of (wp_templates p) (template_id E u) = Some u" using entry by blast
      then show "u = t" using t e tid [OF t] by simp
    qed
    from get [OF mem this] show ?thesis unfolding tid [OF t] t .
  qed
  then show "\<forall>x \<in> set (ww_workshares wit). map_of (fold (\<lambda>t m. smap_insert (template_id E t) t m) (ww_templates wit) [])
        (ws_template_id x) = map_of (wp_templates p) (ws_template_id x)
      \<and> map_of (wp_templates p) (ws_template_id x) \<noteq> None"
    using has by (simp add: wit)
qed

section \<open>Checking in another context\<close>

definition retemplated :: "(hash32, block_template) smap \<Rightarrow> share_context \<Rightarrow> share_context" where
  "retemplated m c = c\<lparr>sc_templates := m\<rparr>"

lemma check_share_retemplated:
  assumes "check_share E pow hist s c st x = Inr r"
    and "smap_get m (ws_template_id x) = smap_get (sc_templates c) (ws_template_id x)"
  shows "check_share E pow hist s (retemplated m c) st x = Inr r"
proof -
  have "share_header_bad E (retemplated m c) h x = share_header_bad E c h x" for h
    by (simp add: share_header_bad_def retemplated_def)
  then show ?thesis using assms
    by (auto simp: check_share_def Let_def result_simps retemplated_def split: prod.splits)
qed

lemma fold_retemplated:
  assumes "try_fold (check_share E pow hist s c) st xs = Inr r"
    and "\<forall>x \<in> set xs. smap_get m (ws_template_id x) = smap_get (sc_templates c) (ws_template_id x)"
  shows "try_fold (check_share E pow hist s (retemplated m c)) st xs = Inr r"
  using assms
proof (induction xs arbitrary: st)
  case (Cons x xs)
  then obtain st' where "check_share E pow hist s c st x = Inr st'"
    "try_fold (check_share E pow hist s c) st' xs = Inr r" by (auto simp: rbind_Inr)
  then show ?case using Cons check_share_retemplated by (auto simp: rbind_Inr)
qed simp

lemma share_context_retemplated:
  "share_context_of E w hist t = Inr c \<Longrightarrow> share_context_of E w' hist t
    = Inr (retemplated (fold (\<lambda>t m. smap_insert (template_id E t) t m) (ww_templates w') []) c)"
  by (auto simp: share_context_of_def result_simps Let_def retemplated_def)

text \<open>Checking the path of a pool again, before a share that extends it, leaves the witness of the pool.\<close>

lemma path_prefix:
  assumes live: "live_pool E pow hist s p" and wit: "pool_witness p = Some wit"
    and cw: "candidate_witness p share = Inr wit'" "ww_workshares wit' = ww_workshares wit @ [share]"
    and times: "\<forall>x \<in> set (ww_workshares wit). bh_timestamp (ws_candidate_header x) \<le> t"
    and c: "share_context_of E wit' hist t = Inr c"
  shows "try_fold (check_share E pow hist s c) (hash_zero, witness_empty) (ww_workshares wit)
    = Inr (if ww_workshares wit = [] then hash_zero else workshare_id E (last (ww_workshares wit)), wit)"
proof -
  note ok = live_pool_ok [OF live]
  show ?thesis
    using ok
  proof (cases rule: pool_witness_Some)
    case empty
    then show ?thesis using wit by (simp add: witness_empty_def)
  next
    case (tip tipshare wit0)
    have w: "candidate_witness p tipshare = Inr wit" using tip(3,4) wit by simp
    have ne: "ww_workshares wit \<noteq> []" using candidate_witness_shape(3) [OF ok w] .
    have "validate_workshares E pow wit hist s t = Inr ()" using live_pool_witness(6) [OF live wit] times by simp
    then obtain c0 r where c0: "share_context_of E wit hist t = Inr c0"
      and f: "try_fold (check_share E pow hist s c0) (hash_zero, witness_empty) (ww_workshares wit) = Inr r"
      using ne by (auto simp: validate_workshares_def result_simps)
    let ?m = "\<lambda>w. fold (\<lambda>t m. smap_insert (template_id E t) t m) (ww_templates w) []"
    have ce: "c = retemplated (?m wit') c0" using share_context_retemplated [OF c0] c by simp
    have t0: "sc_templates c0 = ?m wit" using c0 by (auto simp: share_context_of_def result_simps Let_def)
    note p1 = witness_prefix [OF ok w] and p2 = witness_prefix [OF ok cw(1)]
    have get: "smap_get (?m wit') (ws_template_id x) = map_of (wp_templates p) (ws_template_id x)"
      "smap_get (?m wit) (ws_template_id x) = map_of (wp_templates p) (ws_template_id x)"
      "map_of (wp_templates p) (ws_template_id x) \<noteq> None"
      if "x \<in> set (ww_workshares wit)" for x
      using that p1(2) p2(2) cw(2) by simp_all
    have f': "try_fold (check_share E pow hist s c) (hash_zero, witness_empty) (ww_workshares wit) = Inr r"
      unfolding ce by (rule fold_retemplated [OF f]) (simp add: t0 get)
    obtain h' w' where r: "r = (h', w')" by (cases r)
    have tid: "template_id E (the (map_of (wp_templates p) (ws_template_id x))) = ws_template_id x"
      if "x \<in> set (ww_workshares wit)" for x
      using get(3) [OF that] ok by (auto simp: share_pool_ok_def template_entry_ok_def)
    have "prefix_of E (\<lambda>k. the (map_of (wp_templates p) k)) ([] @ ww_workshares wit) w'
      \<and> h' = (if ww_workshares wit = [] then hash_zero else workshare_id E (last (ww_workshares wit)))"
      by (rule fold_prefix [OF f [unfolded r]])
        (use get tid in \<open>auto simp: t0 prefix_of_def witness_empty_def\<close>)
    then have "w' = wit" "h' = (if ww_workshares wit = [] then hash_zero else workshare_id E (last (ww_workshares wit)))"
      using prefix_of_unique p1(1) by auto
    then show ?thesis using f' r by simp
  qed
qed

section \<open>The share of a candidate\<close>

lemma unchecked_fees:
  assumes "try_fold (\<lambda>total t. ok_or (opt_filter P (checked_add total (tx_fee t))) MoneyRange) z ts = Inr fees"
  shows "try_fold (\<lambda>total t. ok_or (checked_add total (tx_fee t)) MoneyRange) z ts = Inr fees"
  using assms
proof (induction ts arbitrary: z)
  case (Cons t ts)
  then obtain z' where "ok_or (opt_filter P (checked_add z (tx_fee t))) MoneyRange = Inr z'"
    "try_fold (\<lambda>total t. ok_or (opt_filter P (checked_add total (tx_fee t))) MoneyRange) z' ts = Inr fees"
    by (auto simp: rbind_Inr)
  then show ?case using Cons.IH
    by (auto simp: rbind_Inr ok_or_def opt_filter_def split: option.splits if_splits)
qed simp

text \<open>The claim that the check of a share derives from its template is the claim of the candidate.\<close>

lemma candidate_claim_rebuilt:
  assumes "candidate_claim E miner extranonce ts c = Inr (claim, post)"
  obtains fees alloc rest where
    "try_fold (\<lambda>total t. ok_or (checked_add total (tx_fee t)) MoneyRange) 0 ts = Inr fees"
    "reward_allocation (bh_height (blk_header (chain_tip c)) + 1) (rc_finder claim) fees (ch_blocks c) = Inr alloc"
    "claim = \<lparr>rc_version = CLAIM_VERSION, rc_height = bh_height (blk_header (chain_tip c)) + 1,
       rc_finder = rc_finder claim, rc_amount = ra_finder_amount alloc, rc_extranonce = extranonce\<rparr>"
    "transition_for_candidate E (bh_height (blk_header (chain_tip c)) + 1) claim ts (ch_blocks c) (ch_state c)
       = Inr (post, rest)"
proof -
  obtain fees finder alloc where
    f: "try_fold (\<lambda>total t. ok_or (opt_filter (\<lambda>fees. fees \<le> MAX_MONEY) (checked_add total (tx_fee t))) MoneyRange) 0 ts
      = Inr fees" "reward_allocation (bh_height (blk_header (chain_tip c)) + 1) finder fees (ch_blocks c) = Inr alloc"
    and cl: "claim = \<lparr>rc_version = CLAIM_VERSION, rc_height = bh_height (blk_header (chain_tip c)) + 1,
       rc_finder = finder, rc_amount = ra_finder_amount alloc, rc_extranonce = extranonce\<rparr>"
    using assms unfolding candidate_claim_def Let_def by (auto simp: rbind_Inr)
  obtain a b where t: "transition_for_candidate E (bh_height (blk_header (chain_tip c)) + 1) claim ts (ch_blocks c)
      (ch_state c) = Inr (post, a, b)"
    by (rule candidate_claim_Inr [OF assms]) blast
  show thesis
    by (rule that [OF unchecked_fees [OF f(1)]]) (use f(2) t cl in simp_all)
qed

text \<open>A share mined on a candidate passes the check behind the witness of the candidate.\<close>

lemma mined_share_checked:
  assumes cl: "candidate_claim E miner extranonce ts c = Inr (claim, post)"
    and b: "mc_block mc = candidate_block E now ts claim post wit c"
    and tm: "mc_template mc = \<lparr>bt_version = TEMPLATE_VERSION, bt_height = bh_height (blk_header (mc_block mc)),
       bt_parent = block_id E (chain_tip c), bt_transactions = ts\<rparr>"
    and share: "mined_share E mc extranonce nonce = Some share"
    and ctx: "sc_parent sc = chain_tip c" "sc_expected_bits sc = next_bits (ch_blocks c)" "sc_seed sc = mc_seed mc"
      "sc_mtp sc = median_time_past (ch_blocks c)"
      "smap_get (sc_templates sc) (ws_template_id share) = Some (mc_template mc)"
    and pow: "pow (mc_seed mc) (header_enc (blk_header (mined_block mc nonce))) = Inr hash"
      "hash_meets_target hash (sc_share_target sc)" "\<not> hash_meets_target hash (sc_block_target sc)"
    and times: "bh_timestamp (blk_header (chain_tip c)) < candidate_timestamp now c"
      "median_time_past (ch_blocks c) < candidate_timestamp now c" "candidate_timestamp now c \<le> sc_settling_timestamp sc"
  shows "\<exists>r. check_share E pow (ch_blocks c) (ch_state c) sc (ws_previous share, wit) share = Inr r"
proof -
  let ?h = "bh_height (blk_header (chain_tip c)) + 1"
  have s: "ws_version share = SHARE_VERSION" "ws_template_id share = template_id E (mc_template mc)"
    "ws_miner share = rc_finder claim" "ws_extranonce share = extranonce"
    "ws_candidate_header share = blk_header (mined_block mc nonce)"
    using share by (auto simp: mined_share_def Let_def b)
  have h: "bh_version (ws_candidate_header share) = HEADER_VERSION" "bh_protocol (ws_candidate_header share) = PROTOCOL_VERSION"
    "bh_height (ws_candidate_header share) = ?h" "bh_previous_block (ws_candidate_header share) = block_id E (chain_tip c)"
    "bh_bits (ws_candidate_header share) = next_bits (ch_blocks c)"
    "bh_timestamp (ws_candidate_header share) = candidate_timestamp now c"
    "bh_state_root (ws_candidate_header share) = ledger_root post"
    "bh_workshare_root (ws_candidate_header share) = witness_root E wit"
    "bh_transactions_root (ws_candidate_header share) = merkle_root E (claim_id E claim # map (transaction_id E) ts)"
    unfolding s(5) by (simp_all add: b) (simp_all add: candidate_block_def)
  have t: "bt_version (mc_template mc) = TEMPLATE_VERSION" "bt_height (mc_template mc) = ?h"
    "bt_parent (mc_template mc) = block_id E (chain_tip c)" "bt_transactions (mc_template mc) = ts"
    by (simp_all add: tm b candidate_block_def)
  obtain fees alloc rest where f: "try_fold (\<lambda>total t. ok_or (checked_add total (tx_fee t)) MoneyRange) 0 ts = Inr fees"
    and al: "reward_allocation ?h (rc_finder claim) fees (ch_blocks c) = Inr alloc"
    and ce: "claim = \<lparr>rc_version = CLAIM_VERSION, rc_height = ?h, rc_finder = rc_finder claim,
       rc_amount = ra_finder_amount alloc, rc_extranonce = extranonce\<rparr>"
    and tr: "transition_for_candidate E ?h claim ts (ch_blocks c) (ch_state c) = Inr (post, rest)"
    by (rule candidate_claim_rebuilt [OF cl])
  have good: "\<not> share_header_bad E sc (ws_previous share) share"
    using times by (simp add: share_header_bad_def Let_def ctx s(1) h(1-6) not_le not_less)
  have p: "pow (sc_seed sc) (header_enc (ws_candidate_header share)) = Inr hash" using pow(1) by (simp add: ctx s(5))
  obtain x y where r: "rest = (x, y)" by (cases rest)
  show ?thesis
    unfolding check_share_def Let_def
    using good p pow(2,3)
    by (simp add: ctx t s(3,4) f al tr r h(7-9) ensure_def flip: ce)
qed


section \<open>The pool with one more share\<close>

text \<open>A new share behind the tip becomes the tip.\<close>

lemma pool_accept_extends:
  assumes ok: "share_pool_ok E p" and wit: "pool_witness p = Some wit"
    and cw: "candidate_witness p share = Inr wit'"
    and prev: "ws_previous share = (if ww_workshares wit = [] then hash_zero else workshare_id E (last (ww_workshares wit)))"
    and new: "map_of (wp_shares p) (workshare_id E share) = None" "length (wp_shares p) < MAX_POOL_SHARES"
    and zero: "map_of (wp_shares p) hash_zero = None" "workshare_id E share \<noteq> hash_zero"
    and weight: "workshare_weight (bh_bits (ws_candidate_header share)) = Inr weight"
    and sum: "sum_list (map share_work (ww_workshares wit)) + unat weight < 2 ^ 256"
  obtains p' where "pool_accept E share p = Inr (True, p')" "pool_witness p' = Some wit'"
proof -
  let ?k = "workshare_id E share"
  have zp: "map_of (wp_path_work p) hash_zero = None"
    using path_work_pos(2) [OF ok, of hash_zero] zero(1) by (cases "map_of (wp_path_work p) hash_zero") auto
  obtain pw where pw: "(if ws_previous share = hash_zero then Inr 0
      else ok_or (smap_get (wp_path_work p) (ws_previous share)) InvalidWorkshareChain) = Inr pw"
    "pw = path_work_of p (wp_tip p)" "unat pw = sum_list (map share_work (ww_workshares wit))"
    using ok
  proof (cases rule: pool_witness_Some)
    case empty
    then show ?thesis using wit prev zp by (intro that [of 0]) (simp_all add: witness_empty_def path_work_of_def)
  next
    case (tip tipshare wit0)
    have w: "candidate_witness p tipshare = Inr wit" using tip(3,4) wit by simp
    have "ww_workshares wit \<noteq> []" "last (ww_workshares wit) = tipshare"
      using candidate_witness_shape(3,4) [OF ok w] by simp_all
    then have "ws_previous share = wp_tip p" using prev share_entry_okD(1) [OF ok tip(2)] by simp
    then show ?thesis using tip wit
      by (intro that [of "path_work_of p (wp_tip p)"]) (auto simp: path_work_of_def ok_or_def)
  qed
  obtain cum where cum: "checked_add pw weight = Some cum" "unat cum = unat pw + unat weight"
    using that [of "pw + weight"] sum pw(3) by (simp add: checked_add_def unat_add_exact)
  have pos: "0 < unat weight" by (rule workshare_weight_pos [OF weight])
  let ?p = "(with_share ?k share cum p)\<lparr>wp_tip := ?k\<rparr>"
  have kt: "wp_tip p \<noteq> ?k"
    using ok new(1) zero(2) by (auto simp: share_pool_ok_def tip_ok_def)
  have "path_work_of (with_share ?k share cum p) (wp_tip p) = pw"
    using kt pw(2) by (simp add: path_work_of_def)
  then have less: "path_work_of (with_share ?k share cum p) (wp_tip p) < cum"
    using cum(2) pos by (simp add: word_less_nat_alt)
  have acc: "pool_accept E share p = Inr (True, ?p)"
    using new pw(1) weight cum(1) less
    by (simp add: pool_accept_def Let_def with_share_def rbind_def ok_or_def)
  have "candidate_witness ?p share = Inr wit'"
    by (rule candidate_witness_with_share [OF cw new(1)]) simp_all
  then have "pool_witness ?p = Some wit'" using zero(2) by (simp add: pool_witness_def)
  then show thesis by (rule that [OF acc])
qed

section \<open>The node's own shares\<close>

lemma register_witness:
  assumes ok: "share_pool_ok E p" and r: "pool_register_template E t p = Inr (k, p')"
    and w: "pool_witness p = Some wit"
  shows "pool_witness p' = Some wit"
  using ok
proof (cases rule: pool_witness_Some)
  case empty
  then show ?thesis using w pool_register_template_ok [OF ok r] by (simp add: pool_witness_def)
next
  case (tip share wit0)
  then have "candidate_witness p' share = Inr wit" using candidate_witness_register [OF ok r] w by simp
  then show ?thesis using tip(1,2) pool_register_template_ok [OF ok r] by (simp add: pool_witness_def)
qed

text \<open>The share rules on the path of the pool and the mined share.\<close>

lemma mined_path_valid:
  assumes live: "live_pool E pow (ch_blocks c) (ch_state c) p" and wit: "pool_witness p = Some wit"
    and cw: "candidate_witness p share = Inr wit'" "ww_workshares wit' = ww_workshares wit @ [share]"
    and cl: "candidate_claim E miner extranonce ts c = Inr (claim, post)"
    and b: "mc_block mc = candidate_block E now ts claim post wit c"
    and tm: "mc_template mc = \<lparr>bt_version = TEMPLATE_VERSION, bt_height = bh_height (blk_header (mc_block mc)),
       bt_parent = block_id E (chain_tip c), bt_transactions = ts\<rparr>"
    and ct: "candidate_targets E (bh_height (blk_header (mc_block mc))) (bh_bits (blk_header (mc_block mc)))
       (ch_blocks c) = Inr (mc_seed mc, mc_block_target mc, mc_share_target mc)"
    and tid: "map_of (wp_templates p) (ws_template_id share) = Some (mc_template mc)"
    and share: "mined_share E mc extranonce nonce = Some share"
    and pow: "pow (mc_seed mc) (header_enc (blk_header (mined_block mc nonce))) = Inr hash"
      "hash_meets_target hash (mc_share_target mc)" "\<not> hash_meets_target hash (mc_block_target mc)"
    and ne: "ch_blocks c \<noteq> []"
    and times: "bh_timestamp (blk_header (chain_tip c)) < candidate_timestamp now c"
      "median_time_past (ch_blocks c) < candidate_timestamp now c" "candidate_timestamp now c \<le> t"
      "\<forall>x \<in> set (ww_workshares wit). bh_timestamp (ws_candidate_header x) \<le> t"
  shows "validate_workshares E pow wit' (ch_blocks c) (ch_state c) t = Inr ()"
proof -
  let ?m = "fold (\<lambda>t m. smap_insert (template_id E t) t m) (ww_templates wit') []"
  let ?sc = "\<lparr>sc_parent = chain_tip c, sc_templates = ?m, sc_seed = mc_seed mc, sc_expected_bits = next_bits (ch_blocks c),
    sc_block_target = mc_block_target mc, sc_share_target = mc_share_target mc, sc_mtp = median_time_past (ch_blocks c),
    sc_settling_timestamp = t\<rparr>"
  have h: "bh_height (blk_header (mc_block mc)) = bh_height (blk_header (chain_tip c)) + 1"
    "bh_bits (blk_header (mc_block mc)) = next_bits (ch_blocks c)" by (simp_all add: b candidate_block_def)
  have sc: "share_context_of E wit' (ch_blocks c) t = Inr ?sc"
    using ne ct unfolding h by (auto simp: share_context_of_def Let_def candidate_targets_Inr chain_tip_def)
  have pre: "try_fold (check_share E pow (ch_blocks c) (ch_state c) ?sc) (hash_zero, witness_empty) (ww_workshares wit)
    = Inr (if ww_workshares wit = [] then hash_zero else workshare_id E (last (ww_workshares wit)), wit)"
    by (rule path_prefix [OF live wit cw times(4) sc])
  have prev: "ws_previous share = (if ww_workshares wit = [] then hash_zero else workshare_id E (last (ww_workshares wit)))"
    using share by (auto simp: mined_share_def Let_def b)
  have "smap_get ?m (ws_template_id share) = Some (mc_template mc)"
    using witness_prefix(2) [OF live_pool_ok [OF live] cw(1)] cw(2) tid by simp
  then obtain r where "check_share E pow (ch_blocks c) (ch_state c) ?sc (ws_previous share, wit) share = Inr r"
    using mined_share_checked [OF cl b tm share, of ?sc pow hash] pow times(1-3) by auto
  then have "try_fold (check_share E pow (ch_blocks c) (ch_state c) ?sc) (hash_zero, witness_empty)
      (ww_workshares wit') = Inr r"
    unfolding cw(2) try_fold_append pre prev by simp
  then show ?thesis using sc cw(2) by (simp add: validate_workshares_def)
qed



end
