(* ===== verification/Miner_Loop.thy ===== *)
theory Miner_Loop
  imports Config Mined_Shares
begin

text \<open>
The workers of \<open>src/miner.rs\<close>: when a worker is active, the candidate it asks for, and the search of a
  nonce, round by round, with whatever stops it.  The lemma: the search ends with the first nonce whose
  hash meets the share target.
\<close>

section \<open>Workers\<close>

definition worker_enabled :: "nat \<Rightarrow> nat \<Rightarrow> config \<Rightarrow> bool" where
  "worker_enabled cpu_threads worker c \<longleftrightarrow>
     (let threads = (if cf_mining_threads c = 0 then cpu_threads else cf_mining_threads c)
      in cf_mining_enabled c \<and> cf_miner_address c \<noteq> None \<and> worker < threads)"

text \<open>How the search on a candidate ends: the loop is told to stop, the hash cannot be computed, a hash
  decides (\<open>None\<close> is the panic of a candidate without claim), or the observed rounds are over.\<close>

datatype search_end = Stopped | HashFailed string | Decided u64 "mining_result option" | Unfinished u64

text \<open>The inner loop of \<open>mine_loop\<close>.  The list says for each round whether the loop goes on: it was not
  stopped, the node is enabled, the generation is that of the candidate and the candidate is not old.\<close>

fun mine_search ::
    "prims \<Rightarrow> pow_verifier \<Rightarrow> mining_candidate \<Rightarrow> u64 \<Rightarrow> u64 \<Rightarrow> bool list \<Rightarrow> search_end" where
  "mine_search E pow mc extranonce nonce [] = Unfinished nonce"
| "mine_search E pow mc extranonce nonce (go # rounds) =
     (if \<not> go then Stopped
      else case pow (mc_seed mc) (header_enc ((blk_header (mc_block mc))\<lparr>bh_nonce := nonce\<rparr>)) of
        Inl e \<Rightarrow> HashFailed e
      | Inr hash \<Rightarrow>
          (case mine_step E mc extranonce nonce hash of
             Some MinedNothing \<Rightarrow> mine_search E pow mc extranonce (nonce + 1) rounds
           | r \<Rightarrow> Decided nonce r))"

text \<open>The candidate a worker asks for: none while it is idle.\<close>

definition worker_turn ::
    "prims \<Rightarrow> u64 \<Rightarrow> nat \<Rightarrow> nat \<Rightarrow> bool \<Rightarrow> config \<Rightarrow> u64 \<Rightarrow> node
     \<Rightarrow> ((consensus_error + mining_candidate) \<times> node) option option" where
  "worker_turn E now cpu_threads worker enabled c random n =
     (if \<not> enabled \<or> \<not> worker_enabled cpu_threads worker c then None
      else Some (make_candidate E now (random XOR word_of_nat worker) n))"

section \<open>Lemmas\<close>

definition nonce_hash :: "pow_verifier \<Rightarrow> mining_candidate \<Rightarrow> u64 \<Rightarrow> string + hash32" where
  "nonce_hash pow mc nonce = pow (mc_seed mc) (header_enc ((blk_header (mc_block mc))\<lparr>bh_nonce := nonce\<rparr>))"

definition share_found :: "pow_verifier \<Rightarrow> mining_candidate \<Rightarrow> u64 \<Rightarrow> bool" where
  "share_found pow mc nonce \<longleftrightarrow> (\<exists>hash. nonce_hash pow mc nonce = Inr hash
     \<and> (from_le_bytes (array_bytes hash) \<le> mc_block_target mc \<or> from_le_bytes (array_bytes hash) \<le> mc_share_target mc))"

lemma mine_step_nothing:
  "mine_step E mc extranonce nonce hash = Some MinedNothing \<longleftrightarrow>
     \<not> from_le_bytes (array_bytes hash) \<le> mc_block_target mc \<and> \<not> from_le_bytes (array_bytes hash) \<le> mc_share_target mc"
  by (auto simp: mine_step_def)

lemma search_round:
  assumes "nonce_hash pow mc nonce = Inr hash"
  shows "mine_search E pow mc extranonce nonce (True # rounds) =
    (if share_found pow mc nonce then Decided nonce (mine_step E mc extranonce nonce hash)
     else mine_search E pow mc extranonce (nonce + 1) rounds)"
  using assms mine_step_nothing [of E mc extranonce nonce hash]
  by (cases "mine_step E mc extranonce nonce hash"; cases "the (mine_step E mc extranonce nonce hash)")
    (auto simp: nonce_hash_def share_found_def)

text \<open>The search tries the nonces one by one and ends with the first that meets the share target.\<close>

lemma search_first:
  assumes "\<forall>i \<le> k. \<exists>hash. nonce_hash pow mc (nonce + word_of_nat i) = Inr hash"
    and "\<forall>i < k. \<not> share_found pow mc (nonce + word_of_nat i)" and "share_found pow mc (nonce + word_of_nat k)"
    and "k < length rounds" and "\<forall>i \<le> k. rounds ! i"
  shows "\<exists>hash. nonce_hash pow mc (nonce + word_of_nat k) = Inr hash
    \<and> mine_search E pow mc extranonce nonce rounds
      = Decided (nonce + word_of_nat k) (mine_step E mc extranonce (nonce + word_of_nat k) hash)"
  using assms
proof (induction k arbitrary: nonce rounds)
  case 0
  then obtain hash rest where "nonce_hash pow mc nonce = Inr hash" "rounds = True # rest"
    by (cases rounds) auto
  then show ?case using 0 search_round by simp
next
  case (Suc k)
  obtain rest where r: "rounds = True # rest" using Suc.prems(4,5) by (cases rounds) fastforce+
  obtain hash where h: "nonce_hash pow mc nonce = Inr hash" using Suc.prems(1) [rule_format, of 0] by auto
  have n: "\<not> share_found pow mc nonce" using Suc.prems(2) [rule_format, of 0] by simp
  have shift: "nonce + 1 + word_of_nat i = nonce + word_of_nat (Suc i)" for i by simp
  have "\<exists>hash. nonce_hash pow mc (nonce + 1 + word_of_nat k) = Inr hash
    \<and> mine_search E pow mc extranonce (nonce + 1) rest
      = Decided (nonce + 1 + word_of_nat k) (mine_step E mc extranonce (nonce + 1 + word_of_nat k) hash)"
    by (rule Suc.IH) (use Suc.prems r in \<open>auto simp: shift simp del: of_nat_Suc\<close>)
  then show ?case using h n r by (simp add: search_round shift del: of_nat_Suc mine_search.simps)
qed

end
