(* ===== verification/Dialing.thy ===== *)
theory Dialing
  imports Config "HOL-Library.List_Lexorder"
begin

text \<open>
The outgoing side of \<open>src/p2p.rs\<close>: which peers a node dials, how long it waits between attempts, and the
  check that an address is public.  The resolver and the \<open>url\<close> crate are parameters.
\<close>

section \<open>Peers to dial\<close>

text \<open>\<open>normalize_peer_url\<close>: HTTP addresses become WebSocket ones, and a bare host gets the path of the
  protocol.\<close>

definition websocket_scheme :: "web \<Rightarrow> url \<Rightarrow> url option" where
  "websocket_scheme W url =
     (if ur_scheme url = ascii ''https'' then url_set_scheme W (ascii ''wss'') url
      else if ur_scheme url = ascii ''http'' then url_set_scheme W (ascii ''ws'') url
      else if ur_scheme url = ascii ''wss'' \<or> ur_scheme url = ascii ''ws'' then Some url
      else None)"

definition normalize_peer_url :: "web \<Rightarrow> bytes \<Rightarrow> bytes option" where
  "normalize_peer_url W value =
     Option.bind (url_parse W (str_trim value)) (\<lambda>url.
     Option.bind (websocket_scheme W url) (\<lambda>url.
       if ur_username url \<noteq> [] \<or> ur_password url \<noteq> None \<or> ur_query url \<noteq> None \<or> ur_fragment url \<noteq> None then None
       else Some (url_text W
         (if ur_path url = [] \<or> ur_path url = [47] then url_set_path W (ascii ''/p2p/v9'') url else url))))"

text \<open>\<open>spawn_outbound_manager\<close>: the ordered set of what normalizes, cut off at the limit.\<close>

definition dial_targets :: "web \<Rightarrow> config \<Rightarrow> bytes list" where
  "dial_targets W c =
     take (cf_max_outbound_peers c)
       (sort (remdups (List.map_filter (normalize_peer_url W) (cf_seed_nodes c @ cf_peers c))))"

text \<open>One turn of the task of a peer: the seconds it sleeps and the next delay.\<close>

definition outbound_turn :: "bool \<Rightarrow> u64 \<Rightarrow> u64 \<times> u64" where
  "outbound_turn enabled delay = (if \<not> enabled then (1, 2) else (delay, min (delay * 2) 300))"

section \<open>Addresses\<close>

text \<open>\<open>is_unspecified\<close>, \<open>is_private\<close>, \<open>is_link_local\<close>, \<open>is_unique_local\<close> and \<open>is_unicast_link_local\<close> of
  \<open>std::net\<close>.\<close>

definition is_unspecified_ip :: "ip_addr \<Rightarrow> bool" where
  "is_unspecified_ip ip = (case ip of V4 octets \<Rightarrow> octets = [0, 0, 0, 0] | V6 groups \<Rightarrow> groups = [0, 0, 0, 0, 0, 0, 0, 0])"

definition is_private_v4 :: "nat list \<Rightarrow> bool" where
  "is_private_v4 octets \<longleftrightarrow>
     octets ! 0 = 10 \<or> (octets ! 0 = 172 \<and> 16 \<le> octets ! 1 \<and> octets ! 1 \<le> 31) \<or> (octets ! 0 = 192 \<and> octets ! 1 = 168)"

definition is_link_local_v4 :: "nat list \<Rightarrow> bool" where
  "is_link_local_v4 octets \<longleftrightarrow> octets ! 0 = 169 \<and> octets ! 1 = 254"

definition is_unique_local_v6 :: "nat list \<Rightarrow> bool" where
  "is_unique_local_v6 groups \<longleftrightarrow> groups ! 0 AND 0xfe00 = 0xfc00"

definition is_link_local_v6 :: "nat list \<Rightarrow> bool" where
  "is_link_local_v6 groups \<longleftrightarrow> groups ! 0 AND 0xffc0 = 0xfe80"

definition private_address :: "ip_addr \<Rightarrow> bool" where
  "private_address ip \<longleftrightarrow> is_loopback ip \<or> is_unspecified_ip ip
     \<or> (case ip of V4 octets \<Rightarrow> is_private_v4 octets \<or> is_link_local_v4 octets
        | V6 groups \<Rightarrow> is_unique_local_v6 groups \<or> is_link_local_v6 groups)"

text \<open>\<open>ensure_public_peer\<close>; \<open>lookup\<close> is the resolver.\<close>

definition ensure_public_peer ::
    "web \<Rightarrow> (bytes \<Rightarrow> nat \<Rightarrow> string + ip_addr list) \<Rightarrow> bytes \<Rightarrow> peer_error + unit" where
  "ensure_public_peer W lookup value =
     rbind (ok_or (url_parse W value) PeerHandshake) (\<lambda>url.
     rbind (ok_or (ur_host url) PeerHandshake) (\<lambda>host.
     rbind (ok_or (url_known_port W url) PeerHandshake) (\<lambda>port.
     rbind (map_err PeerWebSocket (lookup host port)) (\<lambda>addresses.
     if list_ex (\<lambda>ip. private_address ip \<and> \<not> (ur_scheme url = ascii ''ws'' \<and> is_loopback ip)) addresses
     then Inl PeerHandshake
     else ensure (addresses \<noteq> []) PeerHandshake))))"

section \<open>Lemmas\<close>

lemma dial_targets_facts:
  "distinct (dial_targets W c)" "sorted (dial_targets W c)" "length (dial_targets W c) \<le> cf_max_outbound_peers c"
  "t \<in> set (dial_targets W c) \<Longrightarrow> \<exists>s \<in> set (cf_seed_nodes c) \<union> set (cf_peers c). normalize_peer_url W s = Some t"
  by (auto simp: dial_targets_def distinct_take sorted_wrt_take List.map_filter_def dest!: in_set_takeD) blast+

lemma outbound_delay:
  "k \<le> 300 \<Longrightarrow> snd ((outbound_turn True \<circ> snd) ((x :: u64), word_of_nat k)) = word_of_nat (min (k * 2) 300)"
proof -
  assume k: "k \<le> 300"
  have "(word_of_nat k :: u64) * 2 = word_of_nat (k * 2)" by simp
  moreover have "unat (word_of_nat (k * 2) :: u64) = k * 2" using k by (intro unat_of_nat_lt) simp
  ultimately show ?thesis by (auto simp: outbound_turn_def min_def word_le_nat_alt)
qed

text \<open>After failures in a row the task waits 2, 4, 8 and so on up to 300 seconds.\<close>

lemma outbound_delays:
  "((\<lambda>delay. snd (outbound_turn True delay)) ^^ n) 2 = word_of_nat (min (2 ^ Suc n) 300)"
proof (induction n)
  case (Suc n)
  have "min (2 ^ Suc n) 300 \<le> (300 :: nat)" by simp
  from outbound_delay [OF this, of 0] show ?case
    by (simp add: Suc.IH del: of_nat_mult of_nat_power) (simp add: min_def)
qed (simp add: min_def)

text \<open>The IPv4 loopback address, written as an IPv6 address, counts as public.\<close>

lemma mapped_loopback_passes:
  assumes "url_parse W value = Some url" "ur_host url = Some host" "url_known_port W url = Some port"
    and "lookup host port = Inr [V6 [0, 0, 0, 0, 0, 0xffff, 0x7f00, 1]]"
  shows "ensure_public_peer W lookup value = Inr ()"
  using assms by (simp add: ensure_public_peer_def ok_or_def map_err_def private_address_def is_loopback_def
      is_unspecified_ip_def is_unique_local_v6_def is_link_local_v6_def ensure_def)

lemma public_peer:
  assumes "ensure_public_peer W lookup value = Inr ()"
  obtains url host port addresses where "url_parse W value = Some url" "ur_host url = Some host"
    "lookup host port = Inr addresses" "addresses \<noteq> []"
    "\<And>ip. ip \<in> set addresses \<Longrightarrow> private_address ip \<Longrightarrow> ur_scheme url = ascii ''ws'' \<and> is_loopback ip"
  using assms by (auto simp: ensure_public_peer_def rbind_Inr ok_or_def map_err_def list_ex_iff ensure_def
      split: option.splits sum.splits if_splits)

end
