(* ===== verification/Admin.thy ===== *)
theory Admin
  imports Config
begin

text \<open>
The administration of a node, \<open>src/rpc.rs\<close> and the pairing of \<open>src/portal.rs\<close>: every request that changes
  the configuration file, the live configuration, the switch or the node, behind the check of the secret.
  A locale states the contract of such a request, that it keeps the invariant of the state when it is
  granted and changes nothing when it is refused; each handler is an interpretation.  Reachable states are
  those of a process that loaded its configuration, under any requests and operations of the node.
\<close>

section \<open>The state\<close>

text \<open>What the machine around the node supplies: the parent directory of the configuration, the default
  configuration a missing file is replaced with, the results of the file system, the number of CPU
  threads, whether RandomX has the memory for its fast mode, and the search of a name on the LAN.\<close>

record host =
  ho_web :: web
  ho_dir :: "bytes option"
  ho_fresh :: config
  ho_load_failure :: "string option"
  ho_save_failure :: "string option"
  ho_threads :: nat
  ho_fast_available :: bool
  ho_name_available :: "bytes \<Rightarrow> bytes \<Rightarrow> string + bool"

text \<open>The file, \<open>node.config\<close> with which the process started, \<open>runtime_mining\<close>, the switch, whether a
  restart is scheduled, and the node.\<close>

record admin =
  ad_disk :: config_file
  ad_startup :: config
  ad_live :: config
  ad_enabled :: bool
  ad_restart :: bool
  ad_node :: node

datatype api_cause =
    CauseConfig config_error
  | CauseText string
  | CauseCrypto crypto_error
  | CauseCodec codec_error
  | CauseMempool mempool_error
  | CauseConsensus consensus_error

datatype api_error = BadRequest api_cause | NotFound string | Unavailable string | Unauthorized

text \<open>\<open>Node::apply_mining_config\<close>, \<open>Node::set_enabled\<close> and the schedule of a restart.\<close>

definition apply_mining_config :: "config \<Rightarrow> admin \<Rightarrow> admin" where
  "apply_mining_config c st = st\<lparr>ad_live := c,
     ad_node := bump_generation ((ad_node st)\<lparr>nd_config := (nd_config (ad_node st))
       \<lparr>nc_miner_address := cf_miner_address c\<rparr>\<rparr>)\<rparr>"

definition set_enabled :: "bool \<Rightarrow> admin \<Rightarrow> admin" where
  "set_enabled enabled st = st\<lparr>ad_enabled := enabled, ad_node := bump_generation (ad_node st)\<rparr>"

definition schedule_restart :: "admin \<Rightarrow> admin" where
  "schedule_restart st = st\<lparr>ad_restart := True\<rparr>"

section \<open>The configuration file\<close>

definition load_config :: "prims \<Rightarrow> host \<Rightarrow> admin \<Rightarrow> (api_error + config) \<times> admin" where
  "load_config E H st =
     (case load_or_create E (ho_web H) (ho_dir H) (ho_fresh H) (ho_load_failure H) (ad_disk st) of
        (r, disk) \<Rightarrow> (map_err (BadRequest \<circ> CauseConfig) r, st\<lparr>ad_disk := disk\<rparr>))"

definition save_config :: "host \<Rightarrow> config \<Rightarrow> admin \<Rightarrow> (api_error + unit) \<times> admin" where
  "save_config H c st =
     (case config_save (ho_save_failure H) c (ad_disk st) of
        (r, disk) \<Rightarrow> (map_err (BadRequest \<circ> CauseConfig) r, st\<lparr>ad_disk := disk\<rparr>))"

definition store_config :: "prims \<Rightarrow> host \<Rightarrow> config \<Rightarrow> admin \<Rightarrow> (api_error + unit) \<times> admin" where
  "store_config E H c st =
     (case config_validate E (ho_web H) c of
        Inl e \<Rightarrow> (Inl (BadRequest (CauseConfig e)), st)
      | Inr _ \<Rightarrow> save_config H c st)"

section \<open>The requests\<close>

text \<open>\<open>admin_config_update\<close>: the changes to the configuration that was read, and the end of the handler
  after the search of the name.\<close>

definition update_device :: "host \<Rightarrow> bytes option \<Rightarrow> bytes option \<Rightarrow> config \<Rightarrow> api_error + config" where
  "update_device H name url c =
     rbind (case name of
         None \<Rightarrow> Inr c
       | Some name \<Rightarrow>
           let name = to_ascii_lowercase (str_trim name) in
           if \<not> valid_device_name name then Inl (BadRequest (CauseText ''device_name''))
           else if name = cf_device_name c then Inr (c\<lparr>cf_device_name := name\<rparr>)
           else (case ho_name_available H name (cf_device_id c) of
               Inl e \<Rightarrow> Inl (BadRequest (CauseText e))
             | Inr available \<Rightarrow>
                 if available then Inr (c\<lparr>cf_device_name := name\<rparr>)
                 else Inl (BadRequest (CauseText ''device_name is already used''))))
       (\<lambda>c. Inr (case url of
           None \<Rightarrow> c
         | Some url \<Rightarrow> c\<lparr>cf_public_url := if str_trim url = [] then None else Some (str_trim url)\<rparr>))"

definition finish_update :: "prims \<Rightarrow> host \<Rightarrow> bool \<Rightarrow> config \<Rightarrow> admin \<Rightarrow> (api_error + unit) \<times> admin" where
  "finish_update E H restart c st =
     (case store_config E H c st of
        (Inl e, st) \<Rightarrow> (Inl e, st)
      | (Inr _, st) \<Rightarrow>
          let st = apply_mining_config c st in (Inr (), if restart then schedule_restart st else st))"

definition admin_config_update ::
    "prims \<Rightarrow> host \<Rightarrow> bytes option \<Rightarrow> bytes option \<Rightarrow> admin \<Rightarrow> (api_error + unit) \<times> admin" where
  "admin_config_update E H name url st =
     (case load_config E H st of
        (Inl e, st) \<Rightarrow> (Inl e, st)
      | (Inr c, st) \<Rightarrow>
          (case update_device H name url c of
             Inl e \<Rightarrow> (Inl e, st)
           | Inr c \<Rightarrow> finish_update E H (cf_device_name c \<noteq> cf_device_name (ad_startup st)) c st))"

record mining_update =
  mu_miner_address :: "bytes option"
  mu_mining_enabled :: "bool option"
  mu_mining_processes :: "nat option"
  mu_mining_intensity :: "u8 option"
  mu_randomx_mode :: "mining_mode option"

definition update_miner :: "prims \<Rightarrow> bytes option \<Rightarrow> config \<Rightarrow> api_error + config" where
  "update_miner E address c =
     (case address of
        None \<Rightarrow> Inr c
      | Some value \<Rightarrow>
          if str_trim value = [] then Inr (c\<lparr>cf_miner_address := None\<rparr>)
          else (case address_from_str E (str_trim value) of
              Inl e \<Rightarrow> Inl (BadRequest (CauseCrypto e))
            | Inr a \<Rightarrow> Inr (c\<lparr>cf_miner_address := Some a\<rparr>)))"

definition update_threads :: "host \<Rightarrow> nat option \<Rightarrow> config \<Rightarrow> api_error + config" where
  "update_threads H processes c =
     (case processes of
        None \<Rightarrow> Inr c
      | Some value \<Rightarrow>
          if ho_threads H < value then Inl (BadRequest (CauseText ''Worker count exceeds available CPU threads''))
          else Inr (c\<lparr>cf_mining_threads := value\<rparr>))"

definition update_mode :: "host \<Rightarrow> mining_mode option \<Rightarrow> config \<Rightarrow> api_error + config" where
  "update_mode H mode c =
     (case mode of
        None \<Rightarrow> Inr c
      | Some mode \<Rightarrow>
          if mode = FastMode \<and> \<not> ho_fast_available H then Inl (BadRequest (CauseText ''RandomX fast mode''))
          else Inr (c\<lparr>cf_randomx_mode := mode\<rparr>))"

definition update_mining :: "prims \<Rightarrow> host \<Rightarrow> mining_update \<Rightarrow> config \<Rightarrow> api_error + config" where
  "update_mining E H u c =
     rbind (update_miner E (mu_miner_address u) c) (\<lambda>c.
     let c = (case mu_mining_enabled u of None \<Rightarrow> c | Some b \<Rightarrow> c\<lparr>cf_mining_enabled := b\<rparr>) in
     rbind (update_threads H (mu_mining_processes u) c) (\<lambda>c.
     let c = (case mu_mining_intensity u of None \<Rightarrow> c | Some v \<Rightarrow> c\<lparr>cf_mining_intensity := v\<rparr>) in
     update_mode H (mu_randomx_mode u) c))"

definition admin_mining :: "prims \<Rightarrow> host \<Rightarrow> mining_update \<Rightarrow> admin \<Rightarrow> (api_error + unit) \<times> admin" where
  "admin_mining E H u st =
     (case load_config E H st of
        (Inl e, st) \<Rightarrow> (Inl e, st)
      | (Inr c, st) \<Rightarrow>
          (case update_mining E H u c of
             Inl e \<Rightarrow> (Inl e, st)
           | Inr c \<Rightarrow> finish_update E H (cf_randomx_mode c \<noteq> cf_randomx_mode (ad_startup st)) c st))"

definition validate_peer_url :: "web \<Rightarrow> bytes \<Rightarrow> api_error + unit" where
  "validate_peer_url W value =
     (case url_parse W (str_trim value) of
        None \<Rightarrow> Inl (BadRequest (CauseText ''url''))
      | Some url \<Rightarrow>
          ensure ((ur_scheme url = ascii ''https'' \<or> ur_scheme url = ascii ''wss''
                   \<or> ur_scheme url = ascii ''http'' \<or> ur_scheme url = ascii ''ws'')
              \<and> ur_host url \<noteq> None \<and> ur_username url = [] \<and> ur_password url = None
              \<and> ur_query url = None \<and> ur_fragment url = None) (BadRequest (CauseText ''invalid peer URL'')))"

definition admin_peer_add :: "prims \<Rightarrow> host \<Rightarrow> bytes \<Rightarrow> admin \<Rightarrow> (api_error + unit) \<times> admin" where
  "admin_peer_add E H url st =
     (case validate_peer_url (ho_web H) url of
        Inl e \<Rightarrow> (Inl e, st)
      | Inr _ \<Rightarrow>
          (case load_config E H st of
             (Inl e, st) \<Rightarrow> (Inl e, st)
           | (Inr c, st) \<Rightarrow>
               let c = (if url \<in> set (cf_peers c) then c else c\<lparr>cf_peers := cf_peers c @ [url]\<rparr>) in
               case store_config E H c st of
                 (Inl e, st) \<Rightarrow> (Inl e, st)
               | (Inr _, st) \<Rightarrow> (Inr (), schedule_restart st)))"

definition admin_peer_remove :: "prims \<Rightarrow> host \<Rightarrow> bytes \<Rightarrow> admin \<Rightarrow> (api_error + unit) \<times> admin" where
  "admin_peer_remove E H url st =
     (case load_config E H st of
        (Inl e, st) \<Rightarrow> (Inl e, st)
      | (Inr c, st) \<Rightarrow>
          let c = c\<lparr>cf_peers := filter (\<lambda>value. value \<noteq> str_trim url) (cf_peers c),
                    cf_seed_nodes := filter (\<lambda>value. value \<noteq> str_trim url) (cf_seed_nodes c)\<rparr> in
          case save_config H c st of
            (Inl e, st) \<Rightarrow> (Inl e, st)
          | (Inr _, st) \<Rightarrow> (Inr (), schedule_restart st))"

definition set_node_enabled :: "prims \<Rightarrow> host \<Rightarrow> bool \<Rightarrow> admin \<Rightarrow> (api_error + unit) \<times> admin" where
  "set_node_enabled E H enabled st =
     (case load_config E H st of
        (Inl e, st) \<Rightarrow> (Inl e, st)
      | (Inr c, st) \<Rightarrow>
          (case store_config E H (c\<lparr>cf_node_enabled := enabled\<rparr>) st of
             (Inl e, st) \<Rightarrow> (Inl e, st)
           | (Inr _, st) \<Rightarrow> (Inr (), set_enabled enabled st)))"

definition ensure_node_running :: "admin \<Rightarrow> api_error + unit" where
  "ensure_node_running st = ensure (ad_enabled st) (Unavailable ''node operation is stopped'')"

text \<open>\<open>admin_sync\<close>; \<open>None\<close> is the panic of the locator.\<close>

definition admin_sync :: "prims \<Rightarrow> admin \<Rightarrow> ((api_error + unit) \<times> admin) option" where
  "admin_sync E st =
     (case ensure_node_running st of
        Inl e \<Rightarrow> Some (Inl e, st)
      | Inr _ \<Rightarrow> map_option (\<lambda>n. (Inr (), st\<lparr>ad_node := n\<rparr>)) (request_sync E (ad_node st)))"

section \<open>Pairing with the portal\<close>

definition validate_portal :: "web \<Rightarrow> bytes \<Rightarrow> api_error + url" where
  "validate_portal W value =
     (case url_parse W value of
        None \<Rightarrow> Inl (BadRequest (CauseText ''portal''))
      | Some url \<Rightarrow>
          if ur_scheme url \<noteq> ascii ''https'' \<and> \<not> (ur_scheme url = ascii ''http'' \<and> url_loopback url)
          then Inl (BadRequest (CauseText ''portal must use HTTPS''))
          else if ur_username url \<noteq> [] \<or> ur_password url \<noteq> None \<or> ur_query url \<noteq> None \<or> ur_fragment url \<noteq> None
          then Inl (BadRequest (CauseText ''portal URL must not contain credentials, query, or fragment''))
          else
            let url = (if str_ends (ascii ''/api.php'') (ur_path url)
                       then url_set_path W (trim_end_of [ascii ''/api.php''] (ur_path url)) url else url)
            in Inr (if \<not> str_ends [47] (ur_path url) then url_set_path W (ur_path url @ [47]) url else url))"

text \<open>\<open>portal::pair\<close>; \<open>reply\<close> is what the portal answers to the request, an error or the agent id and its
  token.\<close>

definition portal_pair ::
    "prims \<Rightarrow> host \<Rightarrow> bytes \<Rightarrow> string + bytes \<times> bytes \<Rightarrow> admin \<Rightarrow> (api_error + unit) \<times> admin" where
  "portal_pair E H portal reply st =
     (case load_config E H st of
        (Inl e, st) \<Rightarrow> (Inl e, st)
      | (Inr _, st) \<Rightarrow>
          (case validate_portal (ho_web H) portal of
             Inl e \<Rightarrow> (Inl e, st)
           | Inr base \<Rightarrow>
               (case reply of
                  Inl e \<Rightarrow> (Inl (BadRequest (CauseText e)), st)
                | Inr (agent, token) \<Rightarrow>
                    if agent = [] \<or> length token < 24
                    then (Inl (BadRequest (CauseText ''portal returned invalid agent credentials'')), st)
                    else (case load_config E H st of
                        (Inl e, st) \<Rightarrow> (Inl e, st)
                      | (Inr c, st) \<Rightarrow>
                          save_config H (c\<lparr>cf_portal_url := Some (trim_end_of [[47]] (url_text (ho_web H) base)),
                            cf_portal_agent_id := Some agent, cf_portal_agent_token := Some token\<rparr>) st))))"

definition portal_unpair :: "prims \<Rightarrow> host \<Rightarrow> admin \<Rightarrow> (api_error + unit) \<times> admin" where
  "portal_unpair E H st =
     (case load_config E H st of
        (Inl e, st) \<Rightarrow> (Inl e, st)
      | (Inr c, st) \<Rightarrow> save_config H (c\<lparr>cf_portal_agent_id := None, cf_portal_agent_token := None\<rparr>) st)"

text \<open>\<open>admin_pair\<close> and \<open>admin_unpair\<close>: what the file holds then becomes the live configuration.\<close>

definition reload :: "prims \<Rightarrow> host \<Rightarrow> (api_error + unit) \<times> admin \<Rightarrow> (api_error + unit) \<times> admin" where
  "reload E H r =
     (case r of
        (Inl e, st) \<Rightarrow> (Inl e, st)
      | (Inr _, st) \<Rightarrow>
          (case load_config E H st of
             (Inl e, st) \<Rightarrow> (Inl e, st)
           | (Inr c, st) \<Rightarrow> (Inr (), apply_mining_config c st)))"

definition admin_pair ::
    "prims \<Rightarrow> host \<Rightarrow> bytes \<Rightarrow> string + bytes \<times> bytes \<Rightarrow> admin \<Rightarrow> (api_error + unit) \<times> admin" where
  "admin_pair E H portal reply st = reload E H (portal_pair E H portal reply st)"

definition admin_unpair :: "prims \<Rightarrow> host \<Rightarrow> admin \<Rightarrow> (api_error + unit) \<times> admin" where
  "admin_unpair E H st = reload E H (portal_unpair E H st)"

section \<open>The router\<close>

text \<open>The header of a request, as text; \<open>HeaderValue::to_str\<close> allows visible ASCII and tabs.\<close>

definition header_text :: "bytes \<Rightarrow> bytes option" where
  "header_text value = (if list_all (\<lambda>b. b = 9 \<or> (32 \<le> b \<and> b < 127)) value then Some value else None)"

definition require_admin :: "prims \<Rightarrow> config \<Rightarrow> bytes option \<Rightarrow> bool" where
  "require_admin E c authorization =
     (let token = Option.bind (Option.bind authorization header_text) (strip_prefix (ascii ''Bearer ''));
          expected = domain_hash E (ascii ''PARITR-P9-ADMIN-AUTH-v1'') (cf_admin_secret c);
          supplied = map_option (domain_hash E (ascii ''PARITR-P9-ADMIN-AUTH-v1'')) token
      in supplied = Some expected)"

text \<open>The routes of \<open>admin_router\<close> that change something; the other ones read.\<close>

datatype admin_request =
    ReadRequest
  | ConfigRequest "bytes option" "bytes option"
  | MiningRequest mining_update
  | PairRequest bytes "string + bytes \<times> bytes"
  | UnpairRequest
  | PeerAddRequest bytes
  | PeerRemoveRequest bytes
  | SyncRequest
  | StartRequest
  | StopRequest
  | RestartRequest

definition admin_route ::
    "prims \<Rightarrow> host \<Rightarrow> admin_request \<Rightarrow> admin \<Rightarrow> ((api_error + unit) \<times> admin) option" where
  "admin_route E H request st =
     (case request of
        ReadRequest \<Rightarrow> Some (Inr (), st)
      | ConfigRequest name url \<Rightarrow> Some (admin_config_update E H name url st)
      | MiningRequest u \<Rightarrow> Some (admin_mining E H u st)
      | PairRequest portal reply \<Rightarrow> Some (admin_pair E H portal reply st)
      | UnpairRequest \<Rightarrow> Some (admin_unpair E H st)
      | PeerAddRequest url \<Rightarrow> Some (admin_peer_add E H url st)
      | PeerRemoveRequest url \<Rightarrow> Some (admin_peer_remove E H url st)
      | SyncRequest \<Rightarrow> admin_sync E st
      | StartRequest \<Rightarrow> Some (set_node_enabled E H True st)
      | StopRequest \<Rightarrow> Some (set_node_enabled E H False st)
      | RestartRequest \<Rightarrow> Some (Inr (), schedule_restart st))"

definition handle_admin ::
    "prims \<Rightarrow> host \<Rightarrow> bytes option \<Rightarrow> admin_request \<Rightarrow> admin \<Rightarrow> ((api_error + unit) \<times> admin) option" where
  "handle_admin E H authorization request st =
     (if require_admin E (ad_startup st) authorization then admin_route E H request st
      else Some (Inl Unauthorized, st))"

section \<open>The invariant\<close>

text \<open>What no request may change: addresses, data directory, secrets and identity.\<close>

definition same_base :: "config \<Rightarrow> config \<Rightarrow> bool" where
  "same_base c c' \<longleftrightarrow>
     cf_network c = cf_network c' \<and> cf_public_bind c = cf_public_bind c' \<and> cf_admin_bind c = cf_admin_bind c'
     \<and> cf_management_bind c = cf_management_bind c' \<and> cf_data_dir c = cf_data_dir c'
     \<and> cf_admin_secret c = cf_admin_secret c' \<and> cf_device_id c = cf_device_id c'
     \<and> cf_node_private_key c = cf_node_private_key c'
     \<and> cf_max_inbound_peers c = cf_max_inbound_peers c' \<and> cf_max_outbound_peers c = cf_max_outbound_peers c'"

definition admin_ok :: "prims \<Rightarrow> pow_verifier \<Rightarrow> web \<Rightarrow> admin \<Rightarrow> bool" where
  "admin_ok E pow W st \<longleftrightarrow>
     (\<exists>c. ad_disk st = Stored c \<and> config_ok E W c \<and> same_base c (ad_startup st))
     \<and> settled (ad_startup st) \<and> config_ok E W (ad_live st)
     \<and> nc_miner_address (nd_config (ad_node st)) = cf_miner_address (ad_live st)
     \<and> node_ok E pow (ad_node st)"

definition stored :: "admin \<Rightarrow> config" where
  "stored st = (case ad_disk st of Stored c \<Rightarrow> c | _ \<Rightarrow> ad_startup st)"

lemma same_base_settled: "same_base c c' \<Longrightarrow> settled c \<longleftrightarrow> settled c'"
  by (auto simp: same_base_def settled_def)

lemma same_base_refl [simp]: "same_base c c"
  by (simp add: same_base_def)

lemma stored_ok:
  assumes "admin_ok E pow W st"
  shows "ad_disk st = Stored (stored st)" "config_ok E W (stored st)" "same_base (stored st) (ad_startup st)"
    "settled (stored st)"
  using assms same_base_settled by (auto simp: admin_ok_def stored_def)

lemma load_config_ok:
  assumes "admin_ok E pow W st" "ho_web H = W"
  shows "load_config E H st = (Inr (stored st), st)"
  using load_settled [OF stored_ok(2,4) [OF assms(1)]] stored_ok(1) [OF assms(1)] assms(2)
  by (simp add: load_config_def map_err_def)

lemma save_config_cases:
  "save_config H c st = (r, st') \<Longrightarrow>
     (r = Inr () \<and> st' = st\<lparr>ad_disk := Stored c\<rparr>) \<or> (\<exists>e. r = Inl e \<and> st' = st)"
  by (auto simp: save_config_def config_save_def map_err_def split: option.splits)

lemma store_config_cases:
  "store_config E H c st = (r, st') \<Longrightarrow>
     (r = Inr () \<and> config_ok E (ho_web H) c \<and> st' = st\<lparr>ad_disk := Stored c\<rparr>) \<or> (\<exists>e. r = Inl e \<and> st' = st)"
  by (auto simp: store_config_def config_ok_def split: sum.splits dest: save_config_cases)

lemma admin_ok_disk:
  "admin_ok E pow W st \<Longrightarrow> config_ok E W c \<Longrightarrow> same_base c (ad_startup st) \<Longrightarrow>
     admin_ok E pow W (st\<lparr>ad_disk := Stored c\<rparr>)"
  by (simp add: admin_ok_def)

lemma admin_ok_node:
  "admin_ok E pow W st \<Longrightarrow> node_ok E pow n \<Longrightarrow> nd_config n = nd_config (ad_node st) \<Longrightarrow>
     admin_ok E pow W (st\<lparr>ad_node := n\<rparr>)"
  by (simp add: admin_ok_def)

lemma node_ok_config:
  assumes "node_ok E pow n"
  shows "node_ok E pow (n\<lparr>nd_config := (nd_config n)\<lparr>nc_miner_address := a\<rparr>\<rparr>)"
  using assms by (simp add: node_ok_def node_parts)

lemma admin_ok_apply:
  "admin_ok E pow W st \<Longrightarrow> config_ok E W c \<Longrightarrow> admin_ok E pow W (apply_mining_config c st)"
  by (simp add: admin_ok_def apply_mining_config_def node_ok_config)

lemma admin_ok_enabled: "admin_ok E pow W st \<Longrightarrow> admin_ok E pow W (set_enabled b st)"
  by (simp add: admin_ok_def set_enabled_def)

lemma admin_ok_restart [simp]: "admin_ok E pow W (schedule_restart st) \<longleftrightarrow> admin_ok E pow W st"
  by (simp add: admin_ok_def schedule_restart_def)

lemma update_device_base: "update_device H name url c = Inr c' \<Longrightarrow> same_base c' c"
  by (auto simp: update_device_def same_base_def rbind_Inr Let_def split: option.splits if_splits sum.splits bool.splits)

lemma same_base_trans: "same_base c c' \<Longrightarrow> same_base c' c'' \<Longrightarrow> same_base c c''"
  by (simp add: same_base_def)

lemma update_parts_base:
  "update_miner E address c = Inr c' \<Longrightarrow> same_base c' c"
  "update_threads H processes c = Inr c' \<Longrightarrow> same_base c' c"
  "update_mode H mode c = Inr c' \<Longrightarrow> same_base c' c"
  by (auto simp: update_miner_def update_threads_def update_mode_def same_base_def
      split: option.splits if_splits sum.splits)

lemma same_base_mining:
  "same_base (case b of None \<Rightarrow> c | Some b \<Rightarrow> c\<lparr>cf_mining_enabled := b\<rparr>) c"
  "same_base (case v of None \<Rightarrow> c | Some v \<Rightarrow> c\<lparr>cf_mining_intensity := v\<rparr>) c"
  by (simp_all add: same_base_def split: option.split)

lemma update_mining_base: "update_mining E H u c = Inr c' \<Longrightarrow> same_base c' c"
  by (auto simp: update_mining_def rbind_Inr Let_def dest!: update_parts_base
      intro: same_base_trans [OF _ same_base_trans [OF same_base_mining(1)]]
        same_base_trans [OF _ same_base_trans [OF same_base_mining(2)]] same_base_trans)

section \<open>The contract of a request\<close>

text \<open>A request that changes the settings keeps the invariant when it succeeds and changes nothing when it
  is refused; then so does every sequence of them.\<close>

locale settings_request =
  fixes ok :: "admin \<Rightarrow> bool" and run :: "admin \<Rightarrow> (api_error + unit) \<times> admin"
  assumes accepted: "ok st \<Longrightarrow> run st = (Inr (), st') \<Longrightarrow> ok st'"
    and refused: "ok st \<Longrightarrow> run st = (Inl e, st') \<Longrightarrow> st' = st"
begin

lemma kept: "ok st \<Longrightarrow> ok (snd (run st))"
proof -
  assume ok: "ok st"
  obtain r st' where r: "run st = (r, st')" by force
  show ?thesis
  proof (cases r)
    case (Inl e)
    then show ?thesis using refused [OF ok] r ok by fastforce
  next
    case (Inr u)
    then show ?thesis using accepted [OF ok] r by simp
  qed
qed

lemma repeated: "ok st \<Longrightarrow> ok (((snd \<circ> run) ^^ k) st)"
  by (induction k) (auto simp: kept)

lemma refused_twice: "ok st \<Longrightarrow> run st = (Inl e, st') \<Longrightarrow> run st' = (Inl e, st')"
  using refused by blast

end

lemma finish_contract:
  assumes "admin_ok E pow (ho_web H) st" "same_base c (ad_startup st)" "finish_update E H b c st = (r, st')"
  shows "(r = Inr () \<and> admin_ok E pow (ho_web H) st') \<or> (\<exists>e. r = Inl e \<and> st' = st)"
proof (cases "store_config E H c st")
  case (Pair x s)
  show ?thesis using store_config_cases [OF Pair] assms
    by (auto simp: finish_update_def Pair Let_def intro!: admin_ok_apply admin_ok_disk split: if_splits)
qed

interpretation config_request: settings_request "admin_ok E pow (ho_web H)" "admin_config_update E H name url"
proof
  fix st st' assume ok: "admin_ok E pow (ho_web H) st"
  note l = load_config_ok [OF ok refl]
  have base: "same_base c (ad_startup st)" if "update_device H name url (stored st) = Inr c" for c
    using same_base_trans [OF update_device_base [OF that] stored_ok(3) [OF ok]] .
  show "admin_ok E pow (ho_web H) st'" if "admin_config_update E H name url st = (Inr (), st')"
    using that finish_contract [OF ok base] by (auto simp: admin_config_update_def l split: sum.splits)
  show "st' = st" if "admin_config_update E H name url st = (Inl e, st')" for e
    using that finish_contract [OF ok base] by (fastforce simp: admin_config_update_def l split: sum.splits)
qed

interpretation mining_request: settings_request "admin_ok E pow (ho_web H)" "admin_mining E H u"
proof
  fix st st' assume ok: "admin_ok E pow (ho_web H) st"
  note l = load_config_ok [OF ok refl]
  have base: "same_base c (ad_startup st)" if "update_mining E H u (stored st) = Inr c" for c
    using same_base_trans [OF update_mining_base [OF that] stored_ok(3) [OF ok]] .
  show "admin_ok E pow (ho_web H) st'" if "admin_mining E H u st = (Inr (), st')"
    using that finish_contract [OF ok base] by (auto simp: admin_mining_def l split: sum.splits)
  show "st' = st" if "admin_mining E H u st = (Inl e, st')" for e
    using that finish_contract [OF ok base] by (fastforce simp: admin_mining_def l split: sum.splits)
qed

interpretation add_request: settings_request "admin_ok E pow (ho_web H)" "admin_peer_add E H url"
proof
  fix st st' assume ok: "admin_ok E pow (ho_web H) st"
  note l = load_config_ok [OF ok refl] and b = stored_ok(3) [OF ok]
  show "admin_ok E pow (ho_web H) st'" if "admin_peer_add E H url st = (Inr (), st')"
    using that b admin_ok_disk [OF ok]
    by (auto simp: admin_peer_add_def l same_base_def Let_def split: sum.splits prod.splits dest!: store_config_cases)
  show "st' = st" if "admin_peer_add E H url st = (Inl e, st')" for e
    using that by (auto simp: admin_peer_add_def l Let_def split: sum.splits prod.splits dest!: store_config_cases)
qed

lemma fewer_peers_ok:
  "config_ok E W c \<Longrightarrow> config_ok E W (c\<lparr>cf_peers := filter P (cf_peers c), cf_seed_nodes := filter Q (cf_seed_nodes c)\<rparr>)"
  using order_trans [OF add_mono [OF length_filter_le length_filter_le]] by (auto simp: config_ok_iff)

interpretation remove_request: settings_request "admin_ok E pow (ho_web H)" "admin_peer_remove E H url"
proof
  fix st st' assume ok: "admin_ok E pow (ho_web H) st"
  note l = load_config_ok [OF ok refl] and b = stored_ok(2,3) [OF ok]
  show "admin_ok E pow (ho_web H) st'" if "admin_peer_remove E H url st = (Inr (), st')"
    using that b admin_ok_disk [OF ok fewer_peers_ok [OF b(1)]]
    by (auto simp: admin_peer_remove_def l same_base_def Let_def split: sum.splits prod.splits dest!: save_config_cases)
  show "st' = st" if "admin_peer_remove E H url st = (Inl e, st')" for e
    using that by (auto simp: admin_peer_remove_def l Let_def split: sum.splits prod.splits dest!: save_config_cases)
qed

interpretation switch_request: settings_request "admin_ok E pow (ho_web H)" "set_node_enabled E H enabled"
proof
  fix st st' assume ok: "admin_ok E pow (ho_web H) st"
  note l = load_config_ok [OF ok refl] and b = stored_ok(3) [OF ok]
  show "admin_ok E pow (ho_web H) st'" if "set_node_enabled E H enabled st = (Inr (), st')"
    using that b admin_ok_enabled [OF admin_ok_disk [OF ok]]
    by (auto simp: set_node_enabled_def l same_base_def split: sum.splits prod.splits dest!: store_config_cases)
  show "st' = st" if "set_node_enabled E H enabled st = (Inl e, st')" for e
    using that by (auto simp: set_node_enabled_def l split: sum.splits prod.splits dest!: store_config_cases)
qed

text \<open>The \<open>url\<close> crate: a new path changes nothing else; and the text of a URL without query and fragment,
  less slashes at its end, is read as a URL with the same scheme, host and credentials.\<close>

inductive url_real :: "web \<Rightarrow> url \<Rightarrow> bool" for W where
  parsed: "url_parse W s = Some u \<Longrightarrow> url_real W u"
| set_path: "url_real W u \<Longrightarrow> url_real W (url_set_path W p u)"

definition same_site :: "url \<Rightarrow> url \<Rightarrow> bool" where
  "same_site u u' \<longleftrightarrow> ur_scheme u = ur_scheme u' \<and> ur_username u = ur_username u'
     \<and> ur_password u = ur_password u' \<and> ur_host u = ur_host u' \<and> ur_query u = ur_query u'
     \<and> ur_fragment u = ur_fragment u'"

definition url_crate :: "web \<Rightarrow> bool" where
  "url_crate W \<longleftrightarrow>
     (\<forall>u p. url_real W u \<longrightarrow> same_site (url_set_path W p u) u)
     \<and> (\<forall>u. url_real W u \<longrightarrow> ur_query u = None \<longrightarrow> ur_fragment u = None \<longrightarrow>
          (\<exists>u'. url_parse W (trim_end_of [[47]] (url_text W u)) = Some u' \<and> same_site u' u))"

lemma same_site_trans: "same_site u v \<Longrightarrow> same_site v w \<Longrightarrow> same_site u w"
  by (simp add: same_site_def)

lemma same_site_loopback: "same_site u v \<Longrightarrow> url_loopback u = url_loopback v"
  by (simp add: same_site_def url_loopback_def)

lemma portal_site:
  assumes W: "url_crate W" and v: "validate_portal W value = Inr base"
  shows "\<exists>u. url_parse W value = Some u \<and> url_real W base \<and> same_site base u
    \<and> (ur_scheme u = ascii ''https'' \<or> ur_scheme u = ascii ''http'' \<and> url_loopback u)
    \<and> ur_username u = [] \<and> ur_password u = None \<and> ur_query u = None \<and> ur_fragment u = None"
proof -
  obtain u where u: "url_parse W value = Some u" using v by (auto simp: validate_portal_def split: option.splits)
  have step: "same_site (url_set_path W p x) x" if "url_real W x" for x p using W that by (simp add: url_crate_def)
  let ?v = "if str_ends (ascii ''/api.php'') (ur_path u)
    then url_set_path W (trim_end_of [ascii ''/api.php''] (ur_path u)) u else u"
  have rv: "url_real W ?v" "same_site ?v u"
    using url_real.parsed [OF u] url_real.set_path step by (auto simp: same_site_def)
  have b: "base = (if \<not> str_ends [47] (ur_path ?v) then url_set_path W (ur_path ?v @ [47]) ?v else ?v)"
    and c: "ur_scheme u = ascii ''https'' \<or> ur_scheme u = ascii ''http'' \<and> url_loopback u"
      "ur_username u = []" "ur_password u = None" "ur_query u = None" "ur_fragment u = None"
    using v u by (auto simp: validate_portal_def Let_def split: if_splits)
  have "url_real W base" "same_site base u"
    using b rv url_real.set_path [OF rv(1)] same_site_trans [OF step [OF rv(1)] rv(2)] by (simp_all split: if_split)
  then show ?thesis using u c by blast
qed

lemma portal_url_ok:
  assumes W: "url_crate W" and v: "validate_portal W value = Inr base"
  shows "validate_https_url W (Some (trim_end_of [[47]] (url_text W base))) field = Inr ()"
proof -
  obtain u where u: "url_real W base" "same_site base u"
    "ur_scheme u = ascii ''https'' \<or> ur_scheme u = ascii ''http'' \<and> url_loopback u"
    "ur_username u = []" "ur_password u = None" "ur_query u = None" "ur_fragment u = None"
    using portal_site [OF W v] by blast
  have "ur_query base = None" "ur_fragment base = None" using u by (simp_all add: same_site_def)
  then obtain u' where p: "url_parse W (trim_end_of [[47]] (url_text W base)) = Some u'" and s: "same_site u' base"
    using W u(1) by (auto simp: url_crate_def)
  have s': "same_site u' u" using same_site_trans [OF s u(2)] .
  then show ?thesis using u(3-7) same_site_loopback [OF s']
    by (auto simp: validate_https_url_def p same_site_def)
qed

lemma pair_config_ok:
  "config_ok E W c \<Longrightarrow> validate_https_url W (Some url) ''portal_url'' = Inr () \<Longrightarrow>
     config_ok E W (c\<lparr>cf_portal_url := Some url, cf_portal_agent_id := i, cf_portal_agent_token := t\<rparr>)"
  "config_ok E W c \<Longrightarrow> config_ok E W (c\<lparr>cf_portal_agent_id := i, cf_portal_agent_token := t\<rparr>)"
  by (simp_all add: config_ok_iff)

text \<open>A save that leads to a consistent state is followed by a reload that cannot fail.\<close>

lemma reload_contract:
  assumes ok: "admin_ok E pow (ho_web H) st" and c: "config_ok E (ho_web H) c" "same_base c (ad_startup st)"
    and r: "reload E H (save_config H c st) = (r, st')"
  shows "(r = Inr () \<and> admin_ok E pow (ho_web H) st') \<or> (\<exists>e. r = Inl e \<and> st' = st)"
proof -
  obtain x s where x: "save_config H c st = (x, s)" by force
  show ?thesis
  proof (cases "x = Inr ()")
    case True
    have s: "s = st\<lparr>ad_disk := Stored c\<rparr>" using save_config_cases [OF x] True by auto
    have ok': "admin_ok E pow (ho_web H) s" unfolding s by (rule admin_ok_disk [OF ok c])
    show ?thesis using r x True load_config_ok [OF ok' refl] admin_ok_apply [OF ok' stored_ok(2) [OF ok']]
      by (simp add: reload_def)
  next
    case False
    then obtain e where "x = Inl e" "s = st" using save_config_cases [OF x] by auto
    then show ?thesis using r x by (auto simp: reload_def)
  qed
qed

lemma pair_contract:
  assumes W: "url_crate (ho_web H)" and ok: "admin_ok E pow (ho_web H) st" and r: "admin_pair E H portal reply st = (r, st')"
  shows "(r = Inr () \<and> admin_ok E pow (ho_web H) st') \<or> (\<exists>e. r = Inl e \<and> st' = st)"
proof (cases "validate_portal (ho_web H) portal")
  case (Inl e)
  then show ?thesis using r load_config_ok [OF ok refl] by (auto simp: admin_pair_def portal_pair_def reload_def)
next
  case (Inr base)
  show ?thesis
  proof (cases reply)
    case (Inl e)
    then show ?thesis using r Inr load_config_ok [OF ok refl] by (auto simp: admin_pair_def portal_pair_def reload_def)
  next
    fix agent_token assume p: "reply = Inr agent_token"
    obtain agent token where at: "agent_token = (agent, token)" by force
    let ?c = "(stored st)\<lparr>cf_portal_url := Some (trim_end_of [[47]] (url_text (ho_web H) base)),
      cf_portal_agent_id := Some agent, cf_portal_agent_token := Some token\<rparr>"
    have c: "config_ok E (ho_web H) ?c" "same_base ?c (ad_startup st)"
      using pair_config_ok(1) [OF stored_ok(2) [OF ok] portal_url_ok [OF W Inr]] stored_ok(3) [OF ok]
      by (simp_all add: same_base_def)
    show ?thesis using r Inr p load_config_ok [OF ok refl] reload_contract [OF ok c]
      by (auto simp: admin_pair_def portal_pair_def at reload_def split: if_splits)
  qed
qed

lemma unpair_contract:
  assumes ok: "admin_ok E pow (ho_web H) st" and r: "admin_unpair E H st = (r, st')"
  shows "(r = Inr () \<and> admin_ok E pow (ho_web H) st') \<or> (\<exists>e. r = Inl e \<and> st' = st)"
proof -
  let ?c = "(stored st)\<lparr>cf_portal_agent_id := None, cf_portal_agent_token := None\<rparr>"
  have c: "config_ok E (ho_web H) ?c" "same_base ?c (ad_startup st)"
    using pair_config_ok(2) [OF stored_ok(2) [OF ok]] stored_ok(3) [OF ok] by (simp_all add: same_base_def)
  show ?thesis using r load_config_ok [OF ok refl] reload_contract [OF ok c]
    by (simp add: admin_unpair_def portal_unpair_def)
qed

interpretation unpair_request: settings_request "admin_ok E pow (ho_web H)" "admin_unpair E H"
  by unfold_locales (use unpair_contract in fastforce)+

lemma sync_contract:
  assumes ok: "admin_ok E pow W st"
  obtains r st' where "admin_sync E st = Some (r, st')"
    "(r = Inr () \<and> admin_ok E pow W st') \<or> (\<exists>e. r = Inl e \<and> st' = st)"
proof -
  have n: "node_ok E pow (ad_node st)" using ok by (simp add: admin_ok_def)
  then have "chain_ok E pow (nd_chain (ad_node st))" by (simp add: node_ok_def)
  then obtain l where l: "block_locator E (nd_chain (ad_node st)) = Some l" by (metis block_locator_spec)
  have "node_ok E pow (send_event m (ad_node st))" for m
    using n by (simp add: node_ok_def node_parts send_event_def)
  then have s: "admin_ok E pow W (st\<lparr>ad_node := send_event m (ad_node st)\<rparr>)" for m
    using admin_ok_node [OF ok] by (simp add: send_event_def)
  then show thesis using that l
    by (cases "ad_enabled st") (auto simp: admin_sync_def ensure_node_running_def request_sync_def)
qed

text \<open>The contract of the whole router.\<close>

lemma route_contract:
  assumes W: "url_crate (ho_web H)" and ok: "admin_ok E pow (ho_web H) st"
  obtains r st' where "admin_route E H request st = Some (r, st')"
    "(r = Inr () \<and> admin_ok E pow (ho_web H) st') \<or> (\<exists>e. r = Inl e \<and> st' = st)"
proof -
  have via: "\<exists>r st'. Some (run st) = Some (r, st') \<and> ((r = Inr () \<and> admin_ok E pow (ho_web H) st') \<or> (\<exists>e. r = Inl e \<and> st' = st))"
    if "settings_request (admin_ok E pow (ho_web H)) run" for run
  proof -
    obtain r st' where r: "run st = (r, st')" by force
    show ?thesis using settings_request.accepted [OF that ok] settings_request.refused [OF that ok] r by (cases r) auto
  qed
  have "\<exists>r st'. admin_route E H request st = Some (r, st') \<and> ((r = Inr () \<and> admin_ok E pow (ho_web H) st') \<or> (\<exists>e. r = Inl e \<and> st' = st))"
  proof (cases request)
    case (PairRequest portal reply)
    then show ?thesis using pair_contract [OF W ok, of portal reply] by (cases "admin_pair E H portal reply st") (simp add: admin_route_def)
  next
    case SyncRequest
    show ?thesis by (rule sync_contract [OF ok]) (auto simp: admin_route_def SyncRequest)
  next
    case (ConfigRequest name url)
    show ?thesis using via [OF config_request.settings_request_axioms] by (simp add: admin_route_def ConfigRequest)
  next
    case (MiningRequest u)
    show ?thesis using via [OF mining_request.settings_request_axioms] by (simp add: admin_route_def MiningRequest)
  next
    case UnpairRequest
    show ?thesis using via [OF unpair_request.settings_request_axioms] by (simp add: admin_route_def UnpairRequest)
  next
    case (PeerAddRequest url)
    show ?thesis using via [OF add_request.settings_request_axioms] by (simp add: admin_route_def PeerAddRequest)
  next
    case (PeerRemoveRequest url)
    show ?thesis using via [OF remove_request.settings_request_axioms] by (simp add: admin_route_def PeerRemoveRequest)
  next
    case StartRequest
    show ?thesis using via [OF switch_request.settings_request_axioms] by (simp add: admin_route_def StartRequest)
  next
    case StopRequest
    show ?thesis using via [OF switch_request.settings_request_axioms] by (simp add: admin_route_def StopRequest)
  qed (use ok in \<open>auto simp: admin_route_def\<close>)
  then show thesis using that by blast
qed

section \<open>Reachable states\<close>

text \<open>No operation of the node touches its configuration.\<close>

lemma config_handle:
  "submit_transaction E now t n = Some (r, n') \<Longrightarrow> nd_config n' = nd_config n"
  "register_template E bt n = (r1, n') \<Longrightarrow> nd_config n' = nd_config n"
  "node_submit_workshare E pow now s n = (r2, n') \<Longrightarrow> nd_config n' = nd_config n"
  "make_candidate E now x n = Some (r3, n') \<Longrightarrow> nd_config n' = nd_config n"
  by (auto simp: submit_transaction_def register_template_def node_submit_workshare_def make_candidate_def Let_def
      send_event_def split: option.splits sum.splits prod.splits if_splits)

lemma config_activate: "activate_chain E now event b c n = Some (r, n') \<Longrightarrow> nd_config n' = nd_config n"
  by (auto simp: activate_chain_def Let_def send_event_def bump_generation_def split: option.splits sum.splits prod.splits)

lemma config_block: "submit_block E pow now b n = Some (r, n') \<Longrightarrow> nd_config n' = nd_config n"
  by (auto simp: submit_block_def Let_def split: option.splits sum.splits prod.splits chain_event.splits if_splits
      dest!: config_activate)

lemma config_snd [simp]:
  "nd_config (snd (register_template E t n)) = nd_config n"
  "nd_config (snd (node_submit_workshare E pow now s n)) = nd_config n"
  using config_handle(2,3) by (metis prod.collapse)+

lemma config_pending:
  assumes "process_pending_workshares E pow now it n = Some n'"
  shows "nd_config n' = nd_config n"
  using assms
proof (rule process_pending_workshares.raw_induct [where P = "\<lambda>E pow now it n n'. nd_config n' = nd_config n", rotated])
  fix f E pow now it n n'
  assume IH: "\<And>E pow now it n n'. f E pow now it n = Some n' \<Longrightarrow> nd_config n' = nd_config n"
    and eq: "(case find_ready it n of None \<Rightarrow> Some n
       | Some k \<Rightarrow> (case smap_get (nd_pending n) k of None \<Rightarrow> f E pow now it n
          | Some entry \<Rightarrow> f E pow now it (snd (node_submit_workshare E pow now (snd entry)
              (n\<lparr>nd_pending := smap_remove k (nd_pending n)\<rparr>))))) = Some n'"
  show "nd_config n' = nd_config n" using eq IH by (auto split: option.splits)
qed

lemma config_message: "handle_wire E pow now it peer m n = Some (r, n') \<Longrightarrow> nd_config n' = nd_config n"
  by (auto simp: handle_wire_def handle_block_def handle_template_def handle_share_def handle_headers_def Let_def
      drop_queue_def prod_eq_iff send_event_def
      split: wire_message.splits option.splits sum.splits prod.splits list.splits if_splits
      dest!: config_block config_handle(1) config_pending)

lemma config_step: "node_step E pow n n' \<Longrightarrow> nd_config n' = nd_config n"
  by (cases rule: node_step.cases)
    (auto simp: peer_connected_def peer_disconnected_def Let_def config_handle config_block config_message split: if_splits)

text \<open>A process: it loads its configuration, and then requests and the operations of the node alternate in
  any order; it ends and starts again on the file and the database it left.\<close>

inductive admin_run :: "prims \<Rightarrow> pow_verifier \<Rightarrow> web \<Rightarrow> bytes \<Rightarrow> admin \<Rightarrow> bool" for E pow W d where
  started: "load_or_create E W (Some d) fresh failure disk = (Inr c, disk') \<Longrightarrow> node_run E pow n \<Longrightarrow>
    nc_miner_address (nd_config n) = cf_miner_address c \<Longrightarrow>
    admin_run E pow W d \<lparr>ad_disk = disk', ad_startup = c, ad_live = c, ad_enabled = cf_node_enabled c,
      ad_restart = False, ad_node = n\<rparr>"
| request: "admin_run E pow W d st \<Longrightarrow> ho_web H = W \<Longrightarrow> handle_admin E H authorization req st = Some (r, st') \<Longrightarrow>
    admin_run E pow W d st'"
| operation: "admin_run E pow W d st \<Longrightarrow> node_step E pow (ad_node st) n \<Longrightarrow> admin_run E pow W d (st\<lparr>ad_node := n\<rparr>)"
| restarted: "admin_run E pow W d st \<Longrightarrow> load_or_create E W (Some d) fresh failure (ad_disk st) = (Inr c, disk) \<Longrightarrow>
    open_chain E pow now (nd_storage (ad_node st)) = Some (Inr (chain, db)) \<Longrightarrow>
    nc_miner_address config = cf_miner_address c \<Longrightarrow>
    admin_run E pow W d \<lparr>ad_disk = disk, ad_startup = c, ad_live = c, ad_enabled = cf_node_enabled c,
      ad_restart = False, ad_node = node_open config E chain db\<rparr>"

lemma handle_contract:
  assumes W: "url_crate (ho_web H)" and ok: "admin_ok E pow (ho_web H) st"
  obtains r st' where "handle_admin E H authorization req st = Some (r, st')"
    "(r = Inr () \<and> admin_ok E pow (ho_web H) st') \<or> (\<exists>e. r = Inl e \<and> st' = st)"
proof (cases "require_admin E (ad_startup st) authorization")
  case True
  obtain r st' where "admin_route E H req st = Some (r, st')"
    "(r = Inr () \<and> admin_ok E pow (ho_web H) st') \<or> (\<exists>e. r = Inl e \<and> st' = st)"
    by (rule route_contract [OF W ok])
  then show ?thesis using that True by (simp add: handle_admin_def)
next
  case False
  then show ?thesis using that [of "Inl Unauthorized" st] by (simp add: handle_admin_def)
qed

lemma admin_run_ok:
  assumes "admin_run E pow W d st" and W: "url_crate W" and d: "\<not> path_relative d"
  shows "admin_ok E pow W st"
  using assms(1)
proof (induction rule: admin_run.induct)
  case (started fresh failure disk c disk' n)
  obtain c0 where c: "c = fst (config_migrate (Some d) c0)" "config_ok E W c" "disk' = Stored c"
    by (rule load_cases [OF started(1)])
  then show ?case using migrate_absolute [OF refl d] started(2,3) node_run_ok by (auto simp: admin_ok_def)
next
  case (request st H authorization req r st')
  have "url_crate (ho_web H)" "admin_ok E pow (ho_web H) st" using W request by simp_all
  then obtain r1 st1 where "handle_admin E H authorization req st = Some (r1, st1)"
    "(r1 = Inr () \<and> admin_ok E pow (ho_web H) st1) \<or> (\<exists>e. r1 = Inl e \<and> st1 = st)" by (rule handle_contract)
  then show ?case using request by auto
next
  case (operation st n)
  have "node_ok E pow (ad_node st)" using operation.IH by (simp add: admin_ok_def)
  then show ?case using admin_ok_node [OF operation.IH] node_step_ok config_step operation.hyps by blast
next
  case (restarted st fresh failure c disk now chain db config)
  note s = stored_ok [OF restarted.IH]
  have "load_or_create E W (Some d) fresh failure (ad_disk st) = (Inr (stored st), Stored (stored st))"
    by (subst s(1)) (rule load_settled [OF s(2,4)])
  then have c: "c = stored st" "disk = Stored (stored st)" using restarted.hyps(2) by (metis Inr_inject prod.inject)+
  have ok: "node_ok E pow (ad_node st)" using restarted.IH by (simp add: admin_ok_def)
  note o = open_again_ok [OF ok restarted.hyps(3)]
  have "storage_ok E db" "initialize_identity E db = Inr db"
    using ok o(3) by (simp_all add: node_ok_def storage_part_def)
  then have "node_ok E pow (node_open config E chain db)" using o(1,2) by (intro node_open_ok)
  then show ?case using s c restarted.hyps(4) by (auto simp: admin_ok_def node_open_def)
qed

section \<open>A sample process\<close>

definition sample_settings :: config where
  "sample_settings = (config_default (replicate 32 97) (replicate 24 98) (replicate 32 99))
     \<lparr>cf_data_dir := ascii ''/data'', cf_miner_address := Some sample_alice\<rparr>"

definition sample_host :: host where
  "sample_host = \<lparr>ho_web = sample_web, ho_dir = Some (ascii ''/etc''), ho_fresh = sample_settings,
     ho_load_failure = None, ho_save_failure = None, ho_threads = 4, ho_fast_available = False,
     ho_name_available = (\<lambda>_ _. Inr True)\<rparr>"

lemma sample_settings_ok: "config_ok sample_env sample_web sample_settings" "settled sample_settings"
proof -
  have h: "list_all (\<lambda>c. is_digit c \<or> (97 \<le> c \<and> c \<le> 102)) (replicate 32 97)" by (simp add: list_all_iff)
  then have x: "list_all is_ascii_hexdigit (replicate 32 97)" by (simp add: list_all_iff lowercase_hex(1))
  have b: "ascii ''0.0.0.0:5051'' \<noteq> ascii ''0.0.0.0:5052''" by (rule binds_differ)
  show "config_ok sample_env sample_web sample_settings"
    using default_device_name [OF _ h] x
    by (simp add: sample_settings_def config_ok_iff config_default_def default_binds is_loopback_def
        validate_https_url_def) (simp add: sample_env_def sample_web_def)
  show "settled sample_settings"
    using b by (simp add: settled_def sample_settings_def config_default_def path_relative_def str_starts_def)
      (simp add: ascii_def)
qed

lemma sample_web_real:
  "url_real sample_web u \<Longrightarrow> ur_scheme u = ascii ''https'' \<and> ur_username u = [] \<and> ur_password u = None
     \<and> (\<exists>s. ur_host u = Some (trim_end_of [[47]] s)) \<and> ur_query u = None \<and> ur_fragment u = None"
  by (induction rule: url_real.induct) (auto simp: sample_web_def)

lemma sample_url_crate: "url_crate sample_web"
proof -
  have p: "url_parse sample_web s = Some \<lparr>ur_scheme = ascii ''https'', ur_username = [], ur_password = None,
       ur_host = Some (trim_end_of [[47]] s), ur_port = None, ur_path = [47], ur_query = None, ur_fragment = None\<rparr>"
    and t: "ur_host u = Some h \<Longrightarrow> url_text sample_web u = h"
    and q: "url_set_path sample_web p u = u\<lparr>ur_path := p\<rparr>" for s u h p
    by (simp_all add: sample_web_def)
  show ?thesis unfolding url_crate_def
    by (auto dest!: sample_web_real simp: same_site_def p t q)
qed

lemma sample_admin:
  obtains st where "admin_run sample_env sample_pow sample_web (ascii ''/etc'') st"
    "ad_disk st = Stored sample_settings" "ad_startup st = sample_settings" "ad_live st = sample_settings"
proof -
  obtain db w where r: "node_run sample_env sample_pow
      (node_open sample_config sample_env (sample_genesis_chain w) db)" (is "node_run _ _ ?n") by (rule sample_run)
  have l: "load_or_create sample_env sample_web (Some (ascii ''/etc'')) sample_settings None (Stored sample_settings)
      = (Inr sample_settings, Stored sample_settings)" by (rule load_settled [OF sample_settings_ok])
  have a: "nc_miner_address (nd_config ?n) = cf_miner_address sample_settings"
    by (simp add: node_open_def sample_config_def sample_settings_def)
  show thesis by (rule that [OF admin_run.started [OF l r a]]) simp_all
qed

lemma sample_host_simps [simp]:
  "ho_web sample_host = sample_web" "ho_dir sample_host = Some (ascii ''/etc'')"
  "ho_save_failure sample_host = None" "ho_load_failure sample_host = None"
  by (simp_all add: sample_host_def)

lemma etc_absolute [simp]: "\<not> path_relative (ascii ''/etc'')"
  by (simp add: path_relative_def str_starts_def ascii_def)

lemma sample_load:
  "ad_disk st = Stored sample_settings \<Longrightarrow> load_config sample_env sample_host st = (Inr sample_settings, st)"
  by (simp add: load_config_def load_settled [OF sample_settings_ok] map_err_def)

section \<open>Properties\<close>





text \<open>Only the secret opens the administration: a request that changes anything, or is answered with
  anything but the refusal of its credentials, came with a bearer token that has the hash of the secret the
  process was started with.\<close>

theorem admin_needs_secret:
  assumes "handle_admin E H authorization req st = Some (r, st')" and "r \<noteq> Inl Unauthorized \<or> st' \<noteq> st"
  shows "\<exists>token. authorization = Some (ascii ''Bearer '' @ token)
    \<and> domain_hash E (ascii ''PARITR-P9-ADMIN-AUTH-v1'') token
      = domain_hash E (ascii ''PARITR-P9-ADMIN-AUTH-v1'') (cf_admin_secret (ad_startup st))"
proof -
  have "require_admin E (ad_startup st) authorization"
    using assms by (auto simp: handle_admin_def split: if_splits)
  then obtain h token where v: "authorization = Some h" "strip_prefix (ascii ''Bearer '') h = Some token"
    "domain_hash E (ascii ''PARITR-P9-ADMIN-AUTH-v1'') token
      = domain_hash E (ascii ''PARITR-P9-ADMIN-AUTH-v1'') (cf_admin_secret (ad_startup st))"
    by (auto simp: require_admin_def Let_def header_text_def bind_eq_Some_conv split: if_splits)
  have "h = ascii ''Bearer '' @ token"
    using v(2) by (auto simp: strip_prefix_def str_starts_def split: if_splits) (metis append_take_drop_id)
  then show ?thesis using v by blast
qed

theorem admin_needs_secret_witness:
  "\<exists>token st st'. handle_admin sample_env sample_host (Some (ascii ''Bearer '' @ token)) RestartRequest st = Some (Inr (), st')"
proof -
  obtain st :: admin where st: "ad_startup st = sample_settings" by (rule sample_admin)
  let ?auth = "Some (ascii ''Bearer '' @ replicate 24 98)"
  have "cf_admin_secret sample_settings = replicate 24 98" by (simp add: sample_settings_def config_default_def)
  then have h: "handle_admin sample_env sample_host ?auth RestartRequest st = Some (Inr (), schedule_restart st)"
    using st by (simp add: handle_admin_def admin_route_def require_admin_def header_text_def strip_prefix_def
        str_starts_def ascii_def Let_def list_all_iff)
  show ?thesis using admin_needs_secret [OF h] h by auto
qed

text \<open>Two administrators at once can undo each other.  A change of the device name reads the file, then
  searches the network for the name; a change of the mining settings that is accepted meanwhile, and
  answered with success, is gone as soon as the first request ends, from the file and from the miner.\<close>

theorem update_is_lost:
  assumes "admin_run E pow W d st" and "url_crate W" and "\<not> path_relative d" and "ho_web H = W" and "ho_web H' = W"
    and "load_config E H st = (Inr c, st)" and "update_device H name url c = Inr c'"
    and "admin_mining E H' u st = (Inr (), st1)" and "finish_update E H b c' st1 = (Inr (), st2)"
  shows "ad_disk st2 = Stored c' \<and> ad_live st2 = c'
    \<and> cf_mining_intensity (ad_live st2) = cf_mining_intensity c \<and> cf_mining_enabled (ad_live st2) = cf_mining_enabled c
    \<and> cf_mining_threads (ad_live st2) = cf_mining_threads c \<and> cf_miner_address (ad_live st2) = cf_miner_address c"
proof -
  obtain x s where x: "store_config E H c' st1 = (x, s)" by force
  have "ad_disk st2 = Stored c' \<and> ad_live st2 = c'"
    using assms(9) store_config_cases [OF x]
    by (auto simp: finish_update_def x Let_def apply_mining_config_def schedule_restart_def split: sum.splits if_splits)
  moreover have "cf_mining_intensity c' = cf_mining_intensity c \<and> cf_mining_enabled c' = cf_mining_enabled c
    \<and> cf_mining_threads c' = cf_mining_threads c \<and> cf_miner_address c' = cf_miner_address c"
    using assms(7) by (auto simp: update_device_def rbind_Inr Let_def split: option.splits if_splits sum.splits bool.splits)
  ultimately show ?thesis by simp
qed

theorem update_is_lost_witness:
  "\<exists>st st1 (st2 :: admin). admin_mining sample_env sample_host
      \<lparr>mu_miner_address = None, mu_mining_enabled = None, mu_mining_processes = None, mu_mining_intensity = Some 50,
       mu_randomx_mode = None\<rparr> st = (Inr (), st1)
    \<and> cf_mining_intensity (ad_live st1) = 50 \<and> cf_mining_intensity (ad_live st2) = 100"
proof -
  obtain st where r: "admin_run sample_env sample_pow sample_web (ascii ''/etc'') st" and
    d: "ad_disk st = Stored sample_settings" by (rule sample_admin)
  let ?u = "\<lparr>mu_miner_address = None, mu_mining_enabled = None, mu_mining_processes = None, mu_mining_intensity = Some 50,
       mu_randomx_mode = None\<rparr>"
  let ?c1 = "sample_settings\<lparr>cf_mining_intensity := 50\<rparr>" and ?c2 = "sample_settings\<lparr>cf_device_name := ascii ''x''\<rparr>"
  have ok: "config_ok sample_env sample_web ?c1" "config_ok sample_env sample_web ?c2"
    using sample_settings_ok(1) by (simp_all add: config_ok_iff valid_device_name_def is_alphanumeric_def is_lowercase_def ascii_def)
  have v: "config_validate sample_env sample_web ?c1 = Inr ()" "config_validate sample_env sample_web ?c2 = Inr ()"
    using ok by (simp_all only: config_ok_def)
  have f: "\<exists>st2. finish_update sample_env sample_host b c x = (Inr (), st2)
      \<and> ad_live st2 = c" if "config_validate sample_env sample_web c = Inr ()" for b c x
    using that by (simp add: finish_update_def store_config_def save_config_def config_save_def map_err_def Let_def
        apply_mining_config_def schedule_restart_def)
  have "update_mining sample_env sample_host ?u sample_settings = Inr ?c1"
    by (simp add: update_mining_def update_miner_def update_threads_def update_mode_def)
  then obtain st1 where m: "admin_mining sample_env sample_host ?u st = (Inr (), st1)" "ad_live st1 = ?c1"
    using f [OF v(1)] sample_load [OF d] by (auto simp: admin_mining_def)
  obtain st2 where fin: "finish_update sample_env sample_host True ?c2 st1 = (Inr (), st2)" using f [OF v(2)] by blast
  have "str_trim (ascii ''x'') = ascii ''x''" "to_ascii_lowercase (ascii ''x'') = ascii ''x''"
    by (simp_all add: str_trim_def trim_end_of_def trim_start_of.simps white_space_def str_starts_def ascii_def
        to_ascii_lowercase_def)
  then have up: "update_device sample_host (Some (ascii ''x'')) None sample_settings = Inr ?c2"
    by (simp add: update_device_def sample_host_def Let_def valid_device_name_def is_alphanumeric_def is_lowercase_def ascii_def)
  show ?thesis
    using update_is_lost [OF r sample_url_crate etc_absolute _ _ sample_load [OF d] up m(1) fin] m
    by (intro exI [of _ st] exI [of _ st1] exI [of _ st2]) (simp add: sample_settings_def config_default_def)
qed

text \<open>A peer whose URL was entered with white space around it is accepted, because the check trims it,
  but stored as it was entered, and no request can remove it any more: the removal compares with trimmed
  text.\<close>

theorem untrimmed_peer_stays:
  assumes "admin_run E pow W d st" and "url_crate W" and "\<not> path_relative d" and "ho_web H = W" and "ho_web H' = W"
    and "admin_peer_add E H url st = (Inr (), st1)" and "str_trim url \<noteq> url"
    and "admin_peer_remove E H' request st1 = (Inr (), st2)"
  shows "\<exists>c. ad_disk st2 = Stored c \<and> url \<in> set (cf_peers c)"
proof -
  have ok: "admin_ok E pow (ho_web H) st" using admin_run_ok [OF assms(1-3)] assms(4) by simp
  have ok1: "admin_ok E pow (ho_web H') st1" using add_request.accepted [OF ok assms(6)] assms(4,5) by simp
  have in1: "url \<in> set (cf_peers (stored st1))"
    using assms(6) load_config_ok [OF ok refl]
    by (auto simp: admin_peer_add_def stored_def schedule_restart_def Let_def split: sum.splits prod.splits if_splits
        dest!: store_config_cases)
  have "str_trim (str_trim t) = str_trim t" for t by (rule str_trim_idem)
  then have "url \<noteq> str_trim request" using assms(7) by metis
  then show ?thesis using assms(8) load_config_ok [OF ok1 refl] in1
    by (auto simp: admin_peer_remove_def schedule_restart_def Let_def split: sum.splits prod.splits
        dest!: save_config_cases)
qed

theorem untrimmed_peer_stays_witness:
  "\<exists>(st2 :: admin) c. ad_disk st2 = Stored c \<and> [32, 112] \<in> set (cf_peers c)"
proof -
  obtain st where r: "admin_run sample_env sample_pow sample_web (ascii ''/etc'') st" and
    d: "ad_disk st = Stored sample_settings" by (rule sample_admin)
  let ?c = "sample_settings\<lparr>cf_peers := [[32, 112]]\<rparr>"
  have t: "str_trim [32, 112] = [112]"
    by (simp add: str_trim_def trim_end_of_def trim_start_of.simps white_space_def str_starts_def)
  have ok: "config_ok sample_env sample_web ?c" "settled ?c"
    using sample_settings_ok by (simp_all add: config_ok_iff settled_def)
      (simp_all add: sample_settings_def config_default_def)
  have p: "cf_peers sample_settings = []" by (simp add: sample_settings_def config_default_def)
  have "validate_peer_url sample_web [32, 112] = Inr ()" by (simp add: validate_peer_url_def sample_web_def)
  then have add: "admin_peer_add sample_env sample_host [32, 112] st = (Inr (), schedule_restart (st\<lparr>ad_disk := Stored ?c\<rparr>))"
    using ok(1) p by (simp add: admin_peer_add_def sample_load [OF d] store_config_def save_config_def config_save_def
        map_err_def config_ok_def)
  have "load_config sample_env sample_host (schedule_restart (st\<lparr>ad_disk := Stored ?c\<rparr>))
      = (Inr ?c, schedule_restart (st\<lparr>ad_disk := Stored ?c\<rparr>))"
    using load_settled [OF ok] by (simp add: load_config_def schedule_restart_def map_err_def)
  then have "\<exists>st2. admin_peer_remove sample_env sample_host [32, 112] (schedule_restart (st\<lparr>ad_disk := Stored ?c\<rparr>)) = (Inr (), st2)"
    by (simp add: admin_peer_remove_def save_config_def config_save_def map_err_def)
  then obtain st2 where rem: "admin_peer_remove sample_env sample_host [32, 112]
      (schedule_restart (st\<lparr>ad_disk := Stored ?c\<rparr>)) = (Inr (), st2)" by blast
  have ne: "str_trim [32, 112] \<noteq> ([32, 112] :: bytes)" using t by simp
  show ?thesis using untrimmed_peer_stays [OF r sample_url_crate etc_absolute _ _ add ne rem] by auto
qed

end
