(* ===== verification/Portal.thy ===== *)
theory Portal
  imports Admin
begin

text \<open>
The agent of \<open>src/portal.rs\<close> that takes commands from the portal: the filter of the endpoints, the request
  a command becomes on the loopback interface, its result, and one turn of the agent's loop with its
  credentials, its results and its pauses.  The HTTP client and JSON are inputs.
\<close>

section \<open>What the portal may ask\<close>

definition MAX_COMMANDS :: nat where
  "MAX_COMMANDS = 20"

definition MAX_RESULT_BYTES :: nat where
  "MAX_RESULT_BYTES = 2 * 1024 * 1024"

definition get_paths :: "bytes list" where
  "get_paths = map ascii
     [''/'', ''/status'', ''/info'', ''/health'', ''/chain/params'', ''/supply'', ''/fee/estimate'', ''/mining/info'',
      ''/mining/distribution'', ''/p2p/info'', ''/p2p/whoami'', ''/state/snapshot'', ''/admin/auth'',
      ''/admin/status'', ''/admin/peers'', ''/admin/mempool'', ''/admin/blocks'']"

definition get_prefixes :: "bytes list" where
  "get_prefixes = map ascii [''/address/'', ''/block/'', ''/transaction/'', ''/mining/rewards/'']"

definition post_paths :: "bytes list" where
  "post_paths = map ascii
     [''/transaction'', ''/admin/auth'', ''/admin/mining'', ''/admin/peers/unban'', ''/admin/peers/add'',
      ''/admin/peers/remove'', ''/admin/sync'', ''/admin/start'', ''/admin/stop'', ''/admin/restart'']"

text \<open>The path of an endpoint, up to its first question mark.\<close>

definition endpoint_path :: "bytes \<Rightarrow> bytes" where
  "endpoint_path endpoint = takeWhile (\<lambda>c. c \<noteq> 63) endpoint"

definition allowed_endpoint :: "bytes \<Rightarrow> bytes \<Rightarrow> bool" where
  "allowed_endpoint verb endpoint =
     (if 2048 < length endpoint \<or> \<not> str_starts [47] endpoint \<or> str_contains [46, 46] endpoint
         \<or> str_contains (ascii ''://'') endpoint \<or> 0 \<in> set endpoint
      then False
      else
        let path = endpoint_path endpoint in
        if verb = ascii ''GET'' then path \<in> set get_paths \<or> list_ex (\<lambda>p. str_starts p path) get_prefixes
        else if verb = ascii ''POST'' then path \<in> set post_paths \<and> 63 \<notin> set endpoint
        else False)"

section \<open>Commands\<close>

record portal_command =
  pc_id :: u64
  pc_verb :: bytes
  pc_endpoint :: bytes
  pc_payload :: bytes

record command_result =
  cr_id :: u64
  cr_http_status :: nat
  cr_response :: bytes

text \<open>The request a command becomes, on the loopback interface.\<close>

record local_request =
  lr_port :: nat
  lr_verb :: bytes
  lr_endpoint :: bytes
  lr_bearer :: "bytes option"
  lr_payload :: "bytes option"

text \<open>What the request yields: the error of the client, or a status, the announced length and the body.\<close>

type_synonym local_reply = "string + nat \<times> nat option \<times> bytes"

definition is_admin_endpoint :: "bytes \<Rightarrow> bool" where
  "is_admin_endpoint endpoint \<longleftrightarrow> str_starts (ascii ''/admin/'') endpoint \<or> str_starts (ascii ''/state/'') endpoint"

definition local_request_of :: "config \<Rightarrow> bytes \<Rightarrow> portal_command \<Rightarrow> local_request" where
  "local_request_of c verb command =
     (let endpoint = pc_endpoint command; privileged = is_admin_endpoint endpoint;
          port = (case socket_addr (if privileged then cf_admin_bind c else cf_public_bind c) of
              None \<Rightarrow> if privileged then 5051 else 5050 | Some (_, port) \<Rightarrow> port)
      in \<lparr>lr_port = port, lr_verb = verb, lr_endpoint = endpoint,
          lr_bearer = (if privileged then Some (cf_admin_secret c) else None),
          lr_payload = (if verb = ascii ''POST'' then Some (pc_payload command) else None)\<rparr>)"

text \<open>\<open>response_to_result\<close>; \<open>json\<close> says whether a body is JSON, \<open>message\<close> renders an error.\<close>

definition response_to_result ::
    "(bytes \<Rightarrow> bool) \<Rightarrow> (string \<Rightarrow> bytes) \<Rightarrow> u64 \<Rightarrow> nat \<times> nat option \<times> bytes \<Rightarrow> command_result" where
  "response_to_result json message k reply =
     (case reply of
        (status, content_length, body) \<Rightarrow>
          if (case content_length of None \<Rightarrow> False | Some n \<Rightarrow> MAX_RESULT_BYTES < n)
          then \<lparr>cr_id = k, cr_http_status = 502, cr_response = message ''node response exceeds relay limit''\<rparr>
          else \<lparr>cr_id = k, cr_http_status = status, cr_response =
            (if MAX_RESULT_BYTES < length body then message ''node response exceeds relay limit''
             else if json body then body else message ''node returned non-JSON data'')\<rparr>)"

text \<open>\<open>execute_command\<close>: the request that leaves, if any, and the result; \<open>uppercase\<close> is
  \<open>str::to_uppercase\<close>, \<open>send\<close> the HTTP client.\<close>

definition execute_command ::
    "(bytes \<Rightarrow> bytes) \<Rightarrow> (bytes \<Rightarrow> bool) \<Rightarrow> (string \<Rightarrow> bytes) \<Rightarrow> (local_request \<Rightarrow> local_reply) \<Rightarrow> config
     \<Rightarrow> portal_command \<Rightarrow> local_request option \<times> command_result" where
  "execute_command uppercase json message send c command =
     (let verb = uppercase (pc_verb command) in
      if \<not> allowed_endpoint verb (pc_endpoint command)
      then (None, \<lparr>cr_id = pc_id command, cr_http_status = 400, cr_response = message ''relay endpoint is not allowed''\<rparr>)
      else
        let request = local_request_of c verb command in
        (Some request,
         (case send request of
            Inl e \<Rightarrow> \<lparr>cr_id = pc_id command, cr_http_status = 502, cr_response = message e\<rparr>
          | Inr reply \<Rightarrow> response_to_result json message (pc_id command) reply)))"

section \<open>The agent\<close>

type_synonym credentials = "(bytes \<times> bytes) \<times> bytes"

record agent =
  ag_results :: "command_result list"
  ag_backoff :: u64
  ag_previous :: "credentials option"

definition agent_new :: agent where
  "agent_new = \<lparr>ag_results = [], ag_backoff = 2, ag_previous = None\<rparr>"

definition credentials_of :: "config \<Rightarrow> credentials option" where
  "credentials_of c =
     (case (cf_portal_url c, cf_portal_agent_id c, cf_portal_agent_token c) of
        (Some portal, Some agent, Some token) \<Rightarrow> Some ((portal, agent), token)
      | _ \<Rightarrow> None)"

text \<open>The commands of one answer: before each the credentials are compared again, with the live
  configuration of that moment.\<close>

fun run_commands ::
    "(config \<Rightarrow> portal_command \<Rightarrow> command_result) \<Rightarrow> bytes \<Rightarrow> bytes \<Rightarrow> (config \<times> portal_command) list
     \<Rightarrow> command_result list" where
  "run_commands execute agent token [] = []"
| "run_commands execute agent token ((current, command) # rest) =
     (if cf_portal_agent_id current \<noteq> Some agent \<or> cf_portal_agent_token current \<noteq> Some token then []
      else execute current command # run_commands execute agent token rest)"

text \<open>One turn of the loop of \<open>spawn\<close>: the seconds it sleeps, and the agent after it.  \<open>sync\<close> is what
  \<open>sync_once\<close> yields for the results it is given: the error, or the commands, each with the live
  configuration at the time it is taken up.\<close>

definition refresh :: "config \<Rightarrow> agent \<Rightarrow> agent" where
  "refresh c s =
     (if credentials_of c \<noteq> ag_previous s
      then \<lparr>ag_results = [], ag_backoff = 2, ag_previous = credentials_of c\<rparr> else s)"

definition agent_round ::
    "web \<Rightarrow> (config \<Rightarrow> portal_command \<Rightarrow> command_result) \<Rightarrow> config
     \<Rightarrow> (url \<Rightarrow> bytes \<Rightarrow> bytes \<Rightarrow> command_result list \<Rightarrow> string + (config \<times> portal_command) list)
     \<Rightarrow> agent \<Rightarrow> u64 \<times> agent" where
  "agent_round W execute c sync s =
     (case credentials_of c of
        None \<Rightarrow> (2, s)
      | Some ((portal, agent), token) \<Rightarrow>
          (case validate_portal W portal of
             Inl _ \<Rightarrow> (2, s)
           | Inr base \<Rightarrow>
               (case sync base agent token (ag_results s) of
                  Inr commands \<Rightarrow>
                    let results = run_commands execute agent token (take MAX_COMMANDS commands) in
                    (if results = [] then 2 else 0, s\<lparr>ag_results := results, ag_backoff := 2\<rparr>)
                | Inl _ \<Rightarrow> (ag_backoff s, s\<lparr>ag_backoff := min (ag_backoff s * 2) 60\<rparr>))))"

definition agent_turn ::
    "web \<Rightarrow> (config \<Rightarrow> portal_command \<Rightarrow> command_result) \<Rightarrow> config
     \<Rightarrow> (url \<Rightarrow> bytes \<Rightarrow> bytes \<Rightarrow> command_result list \<Rightarrow> string + (config \<times> portal_command) list)
     \<Rightarrow> agent \<Rightarrow> u64 \<times> agent" where
  "agent_turn W execute c sync s = agent_round W execute c sync (refresh c s)"

section \<open>Lemmas\<close>

lemma str_starts_take: "str_starts p s \<Longrightarrow> str_starts p (takeWhile P s) \<or> \<not> list_all P p"
proof -
  assume p: "str_starts p s"
  then obtain r where s: "s = p @ r" by (metis append_take_drop_id str_starts_def)
  show ?thesis
  proof (cases "list_all P p")
    case True
    then have "takeWhile P s = p @ takeWhile P r" by (simp add: s list_all_iff)
    then show ?thesis by (simp add: str_starts_def)
  qed simp
qed

lemma str_starts_takeWhile: "str_starts p (takeWhile P s) \<Longrightarrow> str_starts p s"
proof -
  assume "str_starts p (takeWhile P s)"
  then obtain r where "takeWhile P s = p @ r" by (metis append_take_drop_id str_starts_def)
  then have "s = p @ r @ dropWhile P s" by (metis append.assoc takeWhile_dropWhile_id)
  then have "take (length p) s = take (length p) (p @ r @ dropWhile P s)" by (rule arg_cong)
  then show ?thesis by (simp add: str_starts_def)
qed

text \<open>The endpoints that are served with the secret.\<close>

definition privileged_paths :: "bytes list" where
  "privileged_paths = map ascii
     [''/state/snapshot'', ''/admin/auth'', ''/admin/status'', ''/admin/peers'', ''/admin/mempool'', ''/admin/blocks'',
      ''/admin/mining'', ''/admin/peers/unban'', ''/admin/peers/add'', ''/admin/peers/remove'', ''/admin/sync'',
      ''/admin/start'', ''/admin/stop'', ''/admin/restart'']"

lemma no_question_mark: "list_all (\<lambda>c. c \<noteq> 63) (ascii ''/admin/'')" "list_all (\<lambda>c. c \<noteq> 63) (ascii ''/state/'')"
  by (simp_all add: ascii_def)

lemma prefixes_agree:
  "str_starts p s \<Longrightarrow> str_starts q s \<Longrightarrow> take (min (length p) (length q)) p = take (min (length p) (length q)) q"
proof -
  assume "str_starts p s" "str_starts q s"
  then have p: "take (length p) s = p" and q: "take (length q) s = q" by (simp_all add: str_starts_def)
  have "take (min (length p) (length q)) (take (length p) s) = take (min (length p) (length q)) (take (length q) s)"
    by (simp add: min.assoc min.commute min.left_commute)
  then show ?thesis unfolding p q .
qed

lemma prefixes_differ:
  "p \<in> set get_prefixes \<Longrightarrow> q = ascii ''/admin/'' \<or> q = ascii ''/state/'' \<Longrightarrow>
     take (min (length p) (length q)) p \<noteq> take (min (length p) (length q)) q"
  by (auto simp: get_prefixes_def ascii_def)

lemma privileged_path:
  assumes a: "allowed_endpoint verb endpoint" and p: "is_admin_endpoint endpoint"
  shows "endpoint_path endpoint \<in> set privileged_paths"
proof -
  let ?path = "endpoint_path endpoint"
  have s: "str_starts (ascii ''/admin/'') ?path \<or> str_starts (ascii ''/state/'') ?path"
    using p str_starts_take no_question_mark by (auto simp: is_admin_endpoint_def endpoint_path_def)
  have "?path \<in> set get_paths \<or> list_ex (\<lambda>p. str_starts p ?path) get_prefixes \<or> ?path \<in> set post_paths"
    using a by (auto simp: allowed_endpoint_def Let_def split: if_splits)
  then show ?thesis
  proof (elim disjE)
    assume "list_ex (\<lambda>p. str_starts p ?path) get_prefixes"
    then obtain p where "p \<in> set get_prefixes" "str_starts p ?path" by (auto simp: list_ex_iff)
    then show ?thesis using s prefixes_agree [of p ?path] prefixes_differ [of p] by blast
  next
    assume "?path \<in> set get_paths"
    then show ?thesis using s by (auto simp: get_paths_def privileged_paths_def str_starts_def ascii_def)
  next
    assume "?path \<in> set post_paths"
    then show ?thesis using s by (auto simp: post_paths_def privileged_paths_def str_starts_def ascii_def)
  qed
qed

lemma length_run_commands: "length (run_commands execute agent token xs) \<le> length xs"
  by (induction execute agent token xs rule: run_commands.induct) auto

text \<open>The state of the agent between two turns.\<close>

definition agent_ok :: "agent \<Rightarrow> bool" where
  "agent_ok s \<longleftrightarrow> 2 \<le> ag_backoff s \<and> ag_backoff s \<le> 60 \<and> length (ag_results s) \<le> MAX_COMMANDS
     \<and> (ag_previous s = None \<longrightarrow> ag_results s = [])"

lemma backoff_range:
  fixes b :: u64
  assumes "2 \<le> b" "b \<le> 60"
  shows "2 \<le> min (b * 2) 60" "min (b * 2) 60 \<le> 60"
proof -
  have "unat (b * 2) = unat b * 2"
    using assms(2) unat_mult_exact [of b 2] by (simp add: word_le_nat_alt)
  then show "2 \<le> min (b * 2) 60" "min (b * 2) 60 \<le> 60"
    using assms by (auto simp: word_le_nat_alt min_def)
qed

lemma refresh_ok: "agent_ok s \<Longrightarrow> agent_ok (refresh c s) \<and> ag_previous (refresh c s) = credentials_of c"
  by (auto simp: agent_ok_def refresh_def)

lemma round_ok:
  assumes s: "agent_ok s" "ag_previous s = credentials_of c"
  obtains pause s' where "agent_round W execute c sync s = (pause, s')" "agent_ok s'" "pause \<le> 60"
    "pause < 2 \<longrightarrow> ag_results s' \<noteq> []" "ag_previous s' = credentials_of c" "credentials_of c = None \<longrightarrow> ag_results s' = []"
proof (cases "credentials_of c")
  case None
  then show ?thesis using that [of 2 s] s by (simp add: agent_round_def agent_ok_def)
next
  case (Some x)
  obtain portal agent token where x: "x = ((portal, agent), token)" by (cases x) auto
  show ?thesis
  proof (cases "validate_portal W portal")
    case (Inl e)
    then show ?thesis using that [of 2 s] s Some x by (simp add: agent_round_def)
  next
    case (Inr base)
    note r = Some x Inr
    show ?thesis
    proof (cases "sync base agent token (ag_results s)")
      case (Inl e)
      have b: "2 \<le> ag_backoff s" "ag_backoff s \<le> 60" using s(1) by (simp_all add: agent_ok_def)
      then have "\<not> ag_backoff s < 2" by simp
      then show ?thesis
        using that [of "ag_backoff s" "s\<lparr>ag_backoff := min (ag_backoff s * 2) 60\<rparr>"] s r Inl b backoff_range [OF b]
        by (simp add: agent_round_def agent_ok_def)
    next
      fix commands assume ok: "sync base agent token (ag_results s) = Inr commands"
      let ?results = "run_commands execute agent token (take MAX_COMMANDS commands)"
      have "length ?results \<le> MAX_COMMANDS"
        using length_run_commands [of execute agent token "take MAX_COMMANDS commands"] by simp
      then show ?thesis
        using that [of "if ?results = [] then 2 else 0" "s\<lparr>ag_results := ?results, ag_backoff := 2\<rparr>"] s r ok
        by (simp add: agent_round_def agent_ok_def Let_def)
    qed
  qed
qed

section \<open>Properties\<close>



text \<open>C23: The agent is paced and keeps to its pairing.  No turn waits more than a minute, and only one that
  has results to deliver, at most 20, goes on at once; the pause after failures doubles from two seconds.
  Results are never sent under other credentials than those they were made for, however the configuration
  changes between the turns, and an unpaired node sends and executes nothing.\<close>

theorem agent_is_paced:
  assumes "agent_ok s" and "agent_turn W execute c sync s = (pause, s')"
  shows "agent_ok s' \<and> pause \<le> 60 \<and> (pause < 2 \<longrightarrow> ag_results s' \<noteq> []) \<and> ag_previous s' = credentials_of c
    \<and> (credentials_of c \<noteq> ag_previous s \<longrightarrow>
        agent_turn W execute c sync s = agent_turn W execute c sync (s\<lparr>ag_results := results, ag_backoff := backoff\<rparr>))
    \<and> (credentials_of c = None \<longrightarrow> ag_results s' = [] \<and> agent_turn W execute c sync s = agent_turn W execute' c sync' s)"
proof -
  obtain pause1 s1 where r: "agent_round W execute c sync (refresh c s) = (pause1, s1)" "agent_ok s1" "pause1 \<le> 60"
    "pause1 < 2 \<longrightarrow> ag_results s1 \<noteq> []" "ag_previous s1 = credentials_of c" "credentials_of c = None \<longrightarrow> ag_results s1 = []"
    by (rule round_ok) (use refresh_ok [OF assms(1), of c] in auto)
  have "pause1 = pause" "s1 = s'" using assms(2) r(1) by (simp_all add: agent_turn_def)
  moreover have "refresh c s = refresh c (s\<lparr>ag_results := results, ag_backoff := backoff\<rparr>)" if "credentials_of c \<noteq> ag_previous s"
    using that by (simp add: refresh_def)
  moreover have "agent_turn W execute c sync s = agent_turn W execute' c sync' s" if "credentials_of c = None"
    using that by (simp add: agent_turn_def agent_round_def)
  ultimately show ?thesis using r(2-) by (simp add: agent_turn_def)
qed

theorem agent_is_paced_witness:
  "\<exists>s'. agent_turn sample_web (\<lambda>c command. \<lparr>cr_id = pc_id command, cr_http_status = 200, cr_response = []\<rparr>)
      (sample_settings\<lparr>cf_portal_url := Some [1], cf_portal_agent_id := Some [2], cf_portal_agent_token := Some [3]\<rparr>)
      (\<lambda>base agent token results. Inl ''timeout'') agent_new = (2, s') \<and> ag_backoff s' = 4 \<and> agent_ok s'"
proof -
  let ?c = "sample_settings\<lparr>cf_portal_url := Some [1], cf_portal_agent_id := Some [2], cf_portal_agent_token := Some [3]\<rparr>"
  let ?execute = "\<lambda>c command. \<lparr>cr_id = pc_id command, cr_http_status = 200, cr_response = []\<rparr>"
  have n: "agent_ok agent_new" by (simp add: agent_ok_def agent_new_def)
  have "\<exists>base. validate_portal sample_web [1] = Inr base"
    by (simp add: validate_portal_def sample_web_def Let_def)
  then obtain base where v: "validate_portal sample_web [1] = Inr base" by blast
  have t: "agent_turn sample_web ?execute ?c (\<lambda>base agent token results. Inl ''timeout'') agent_new
      = (2, \<lparr>ag_results = [], ag_backoff = 4, ag_previous = Some (([1], [2]), [3])\<rparr>)"
    by (simp add: agent_turn_def agent_round_def refresh_def agent_new_def credentials_of_def v)
  have "agent_ok \<lparr>ag_results = [], ag_backoff = 4, ag_previous = Some (([1], [2]), [3])\<rparr>"
    using agent_is_paced [OF n t] by blast
  then show ?thesis using t by auto
qed

end
