(* ===== verification/Views.thy ===== *)
theory Views
  imports Node_Properties
begin

text \<open>
  What the node reports about the chain: the supply of a height and the rewards of an account, against
  the ledger and the blocks they summarise.
\<close>

section \<open>The supply\<close>

lemma supply_at_split: "supply_at (a + n) = supply_at a + sum_list (map (\<lambda>i. subsidy_nat (a + i)) [0..<n])"
  by (induction n) (simp_all add: add.assoc)

text \<open>The subsidy of an era, as the loop computes it.\<close>

definition era_subsidy :: "nat \<Rightarrow> nat" where
  "era_subsidy k = max (1000000000 div 2 ^ k) 50000000"

lemma era_subsidy_next: "era_subsidy (Suc k) = max (era_subsidy k div 2) 50000000"
proof -
  have "1000000000 div 2 ^ Suc k = (1000000000 :: nat) div 2 ^ k div 2"
    by (simp only: power_Suc2 div_mult2_eq)
  then show ?thesis by (auto simp: era_subsidy_def max_def)
qed

lemma era_subsidy_at: "i < 1600000 \<Longrightarrow> subsidy_nat (k * 1600000 + 1 + i) = era_subsidy k"
  by (simp add: subsidy_nat_def era_subsidy_def)

lemma supply_at_era:
  assumes "n \<le> 1600000"
  shows "supply_at (k * 1600000 + 1 + n) = supply_at (k * 1600000 + 1) + n * era_subsidy k"
  using assms
proof (induction n)
  case (Suc n)
  then show ?case using era_subsidy_at [of n k] by simp
qed simp

lemma scheduled_supply_loop_exact:
  assumes "unat subsidy = era_subsidy k" and "unat acc = supply_at (k * 1600000 + 1)"
    and "supply_at (k * 1600000 + 1 + unat remaining) < 2 ^ 64"
  shows "unat (scheduled_supply_loop remaining subsidy acc) = supply_at (k * 1600000 + 1 + unat remaining)"
  using assms
proof (induction remaining subsidy acc arbitrary: k rule: scheduled_supply_loop.induct)
  case (1 remaining subsidy acc)
  show ?case
  proof (cases "remaining = 0")
    case True
    then show ?thesis using "1.prems"(2) by (subst scheduled_supply_loop.simps) simp
  next
    case False
    let ?span = "min remaining HALVING_INTERVAL"
    let ?next = "max (subsidy div 2) MIN_SUBSIDY"
    let ?acc = "saturating_add acc (saturating_mul ?span subsidy)"
    have span: "unat ?span = min (unat remaining) 1600000"
      by (simp add: min_def word_le_nat_alt unat_subsidy_consts)
    have rest: "unat (remaining - ?span) = unat remaining - unat ?span"
      by (simp add: unat_sub_exact word_le_nat_alt span)
    have next_sub: "unat ?next = era_subsidy (Suc k)"
      by (simp add: era_subsidy_next max_def word_le_nat_alt unat_div unat_subsidy_consts "1.prems"(1))
    have era: "supply_at (k * 1600000 + 1 + unat ?span) = supply_at (k * 1600000 + 1) + unat ?span * era_subsidy k"
      by (rule supply_at_era) (simp add: span)
    have mono: "supply_at (k * 1600000 + 1 + unat ?span) \<le> supply_at (k * 1600000 + 1 + unat remaining)"
      using supply_at_split [of "k * 1600000 + 1 + unat ?span" "unat remaining - unat ?span"] span by simp
    then have small: "supply_at (k * 1600000 + 1) + unat ?span * era_subsidy k < 2 ^ 64"
      using "1.prems"(3) era by linarith
    have acc: "unat ?acc = supply_at (k * 1600000 + 1 + unat ?span)"
      using small by (simp only: unat_saturating_add unat_saturating_mul "1.prems"(1,2) era) simp
    have step: "scheduled_supply_loop remaining subsidy acc = scheduled_supply_loop (remaining - ?span) ?next ?acc"
      using False by (subst scheduled_supply_loop.simps) (simp add: Let_def)
    show ?thesis
    proof (cases "unat remaining \<le> 1600000")
      case True
      then have "unat ?span = unat remaining" "remaining - ?span = 0"
        using span rest by (simp_all add: unat_eq_0 [symmetric])
      moreover have "scheduled_supply_loop 0 ?next ?acc = ?acc" by (subst scheduled_supply_loop.simps) simp
      ultimately show ?thesis using step acc by simp
    next
      case long: False
      then have sp: "unat ?span = 1600000" using span by simp
      have eq: "k * 1600000 + 1 + unat remaining = Suc k * 1600000 + 1 + unat (remaining - ?span)"
        using rest sp long by simp
      have acc': "unat ?acc = supply_at (Suc k * 1600000 + 1)" using acc sp by simp
      have "unat (scheduled_supply_loop (remaining - ?span) ?next ?acc)
          = supply_at (Suc k * 1600000 + 1 + unat (remaining - ?span))"
        by (rule "1.IH" [OF False refl next_sub acc' "1.prems"(3) [unfolded eq]])
      then show ?thesis unfolding step eq .
    qed
  qed
qed

lemma scheduled_supply_exact:
  assumes "chain_ok E pow c" and "young c"
  shows "unat (scheduled_supply (chain_height c)) = ledger_supply (ch_state c)"
proof -
  have inv: "ledger_supply (ch_state c) = supply_at (length (ch_blocks c))" "ch_blocks c \<noteq> []"
    using chain_ok_inv [OF assms(1)] by (simp_all add: history_inv_def)
  have h: "Suc (unat (chain_height c)) = length (ch_blocks c)"
    using chain_tip_at(1) [OF assms(1)] inv(2) by simp
  have "supply_at (length (ch_blocks c)) \<le> unat MAX_MONEY"
    using supply_in_range assms(2) by (simp add: young_def)
  then have "supply_at (0 * 1600000 + 1 + unat (chain_height c)) < 2 ^ 64"
    using h by (simp add: unat_MAX_MONEY)
  moreover have "unat INITIAL_SUBSIDY = era_subsidy 0" by (simp add: unat_subsidy_consts era_subsidy_def)
  moreover have "unat (0 :: u64) = supply_at (0 * 1600000 + 1)" by (simp add: subsidy_nat_def)
  ultimately show ?thesis
    using scheduled_supply_loop_exact [of INITIAL_SUBSIDY 0 0 "chain_height c"] h inv(1)
    by (simp add: scheduled_supply_def)
qed

text \<open>The supply the node reports for its height, summed by eras in closed form, is the money that
  is in balances and pending rewards of its ledger.\<close>

theorem reported_supply:
  assumes "chain_ok E pow c" and "young c"
  shows "unat (scheduled_supply (chain_height c)) = ledger_supply (ch_state c)"
  by (rule scheduled_supply_exact [OF assms])

theorem reported_supply_witness:
  "\<exists>c. ch_blocks c = [genesis sample_env, sample_block] \<and> unat (scheduled_supply (chain_height c)) = 1000000000"
proof -
  obtain c where c: "chain_ok sample_env sample_pow c" "ch_blocks c = [genesis sample_env, sample_block]"
    "ch_state c = sample_state sample_alice" by (rule sample_chain_two)
  have "young c" by (simp add: young_def c(2))
  from reported_supply [OF c(1) this] have "unat (scheduled_supply (chain_height c)) = supply_at 2"
    using chain_ok_inv [OF c(1)] by (simp add: history_inv_def c(2) eval_nat_numeral)
  then show ?thesis using c(2) by (intro exI [of _ c]) (simp add: numeral_2_eq_2 subsidy_nat_def)
qed

section \<open>The rewards of an account\<close>

definition pend_total :: "ledger \<Rightarrow> address \<Rightarrow> nat" where
  "pend_total s a = (\<Sum>k \<in> UNIV. pend s (k, a))"

lemma sum_update:
  fixes f :: "'k::finite \<Rightarrow> nat"
  assumes "\<And>k. k \<noteq> k0 \<Longrightarrow> f' k = f k"
  shows "(\<Sum>k \<in> UNIV. f' k) + f k0 = (\<Sum>k \<in> UNIV. f k) + f' k0"
proof -
  have "(\<Sum>k \<in> UNIV. f' k) = f' k0 + (\<Sum>k \<in> UNIV - {k0}. f' k)" "(\<Sum>k \<in> UNIV. f k) = f k0 + (\<Sum>k \<in> UNIV - {k0}. f k)"
    by (simp_all add: sum.remove)
  moreover have "(\<Sum>k \<in> UNIV - {k0}. f' k) = (\<Sum>k \<in> UNIV - {k0}. f k)" using assms by (intro sum.cong) auto
  ultimately show ?thesis by simp
qed

lemma sum_list_entries:
  assumes "distinct (map fst m)"
  shows "sum_list (map (\<lambda>x. unat (snd x)) (filter (\<lambda>((k, r), v). r = a) m))
    = (\<Sum>k \<in> (UNIV :: u64 set). case map_of m (k, a) of Some x \<Rightarrow> unat (x :: u64) | None \<Rightarrow> 0)"
  using assms
proof (induction m)
  case (Cons x m)
  obtain k0 r v where x: "x = ((k0, r), v)" by (metis prod.exhaust)
  show ?case
  proof (cases "r = a")
    case True
    have none: "map_of m (k0, a) = None" using Cons.prems True x by (auto simp: map_of_eq_None_iff)
    have "(\<Sum>k \<in> UNIV. case map_of (x # m) (k, a) of Some x \<Rightarrow> unat x | None \<Rightarrow> 0) + 0
        = (\<Sum>k \<in> UNIV. case map_of m (k, a) of Some x \<Rightarrow> unat x | None \<Rightarrow> 0) + unat v"
      using sum_update [of k0 "\<lambda>k. case map_of (x # m) (k, a) of Some x \<Rightarrow> unat x | None \<Rightarrow> 0"
          "\<lambda>k. case map_of m (k, a) of Some x \<Rightarrow> unat x | None \<Rightarrow> 0"] none True x by simp
    then show ?thesis using Cons True x by simp
  next
    case False
    then show ?thesis using Cons x by simp
  qed
qed simp

lemma fold_saturating:
  "unat (fold (\<lambda>amount total. saturating_add total amount) xs (acc :: u64))
    = min (unat acc + sum_list (map unat xs)) (2 ^ 64 - 1)"
proof (induction xs arbitrary: acc)
  case Nil
  then show ?case using unat_bound [of acc] by simp
next
  case (Cons x xs)
  show ?case by (simp add: Cons unat_saturating_add)
qed

lemma pending_for_total:
  assumes "ledger_ok E s"
  shows "unat (pending_for s a) = min (pend_total s a) (2 ^ 64 - 1)"
proof -
  have "distinct (map fst (led_pending s))"
    using assms unfolding ledger_ok_def by (blast intro: smap_ok_distinct)
  then have "sum_list (map unat (map snd (filter (\<lambda>((m, recipient), amount). recipient = a) (led_pending s)))) = pend_total s a"
    using sum_list_entries [of "led_pending s" a] by (simp add: pend_total_def pend_def comp_def)
  then show ?thesis by (simp only: pending_for_def fold_saturating) simp
qed

text \<open>The rewards a block gives an account, by the rules of consensus.\<close>

definition block_reward :: "address \<Rightarrow> block list \<Rightarrow> block \<Rightarrow> nat" where
  "block_reward a before b =
     (case blk_reward_claim b of
        None \<Rightarrow> 0
      | Some claim \<Rightarrow> (if rc_finder claim = a then unat (rc_amount claim) else 0)
          + (case reward_allocation (bh_height (blk_header b)) (rc_finder claim)
                    (word_of_nat (sum_list (map (\<lambda>t. unat (tx_fee t)) (blk_transactions b)))) before of
               Inl _ \<Rightarrow> 0 | Inr alloc \<Rightarrow> reward_to a (ra_workshare_rewards alloc)))"

definition earned :: "address \<Rightarrow> block list \<Rightarrow> nat" where
  "earned a hist = (\<Sum>i < length hist. block_reward a (take i hist) (hist ! i))"

lemma earned_snoc: "earned a (hist @ [b]) = earned a hist + block_reward a hist b"
  by (simp add: earned_def nth_append)

lemma rewards_balance:
  assumes "valid_history E pow hist s"
  shows "bal s a + pend_total s a + sum_list (map (paid_by a) (chain_transactions hist))
    = earned a hist + sum_list (map (paid_to a) (chain_transactions hist))"
  using assms
proof (induction rule: valid_history.induct)
  case genesis
  show ?case
    by (simp add: earned_def block_reward_def chain_transactions_def bal_def pend_total_def pend_def
        ledger_account_def) (simp add: genesis_def ledger_default_def account_default_def)
next
  case (extend hist s now b s')
  let ?h = "bh_height (blk_header b)" and ?m = "bh_height (blk_header b) + REWARD_MATURITY"
  obtain claim alloc fees where c: "blk_reward_claim b = Some claim"
    and f: "unat fees = sum_list (map (\<lambda>t. unat (tx_fee t)) (blk_transactions b))"
    and al: "reward_allocation ?h (rc_finder claim) fees hist = Inr alloc"
    and bal: "\<And>a. bal s' a + sum_list (map (paid_by a) (blk_transactions b))
        = bal s a + pend s (?h, a) + sum_list (map (paid_to a) (blk_transactions b))"
    and pend: "\<And>k a. pend s' (k, a) = (if k = ?h then 0 else pend s (k, a))
       + (if k = ?m then (if a = rc_finder claim then unat (rc_amount claim) else 0)
            + reward_to a (ra_workshare_rewards alloc) else 0)"
    by (rule block_step [OF extend.hyps(1-4)]) blast
  have fees: "word_of_nat (sum_list (map (\<lambda>t. unat (tx_fee t)) (blk_transactions b))) = fees"
    unfolding f [symmetric] by simp
  have r: "block_reward a hist b = (if a = rc_finder claim then unat (rc_amount claim) else 0)
      + reward_to a (ra_workshare_rewards alloc)"
    by (auto simp: block_reward_def c fees al)
  have p1: "(\<Sum>k \<in> UNIV. if k = ?h then 0 else pend s (k, a)) + pend s (?h, a) = pend_total s a"
    using sum_update [of ?h "\<lambda>k. if k = ?h then 0 else pend s (k, a)" "\<lambda>k. pend s (k, a)"]
    by (simp add: pend_total_def)
  have p2: "pend_total s' a = (\<Sum>k \<in> UNIV. if k = ?h then 0 else pend s (k, a)) + block_reward a hist b"
    by (simp add: pend_total_def pend sum.distrib r)
  have "chain_transactions (hist @ [b]) = chain_transactions hist @ blk_transactions b"
    by (simp add: chain_transactions_def)
  then show ?case using extend.IH bal [of a] p1 p2 by (simp add: earned_snoc)
qed

lemma sum_filter: "sum_list (map f (filter P xs)) = sum_list (map (\<lambda>x. if P x then f x else 0) xs)"
  by (induction xs) simp_all

lemma pend_total_le_supply:
  assumes "ledger_ok E s"
  shows "pend_total s a \<le> ledger_supply s"
proof -
  have "distinct (map fst (led_pending s))"
    using assms unfolding ledger_ok_def by (blast intro: smap_ok_distinct)
  then have "pend_total s a = sum_list (map (\<lambda>x. unat (snd x)) (filter (\<lambda>((k, r), v). r = a) (led_pending s)))"
    using sum_list_entries [of "led_pending s" a] by (simp add: pend_total_def pend_def)
  also have "\<dots> \<le> sum_list (map (\<lambda>x. unat (snd x)) (led_pending s))"
    by (induction "led_pending s" rule: list.induct) (auto simp: sum_filter intro!: sum_list_mono)
  also have "\<dots> \<le> ledger_supply s" by (simp add: ledger_supply_def smap_sum_def)
  finally show ?thesis .
qed

text \<open>Balance, pending and transfers of an account leave what it earned.\<close>

lemma mining_rewards_exact:
  assumes "chain_ok E pow c" and "young c"
  shows "unat (fst (mining_rewards a c)) = min (earned a (ch_blocks c)) (2 ^ 64 - 1)"
    "unat (snd (mining_rewards a c)) = pend_total (ch_state c) a"
proof -
  let ?s = "ch_state c" and ?txs = "chain_transactions (ch_blocks c)"
  have vh: "valid_history E pow (ch_blocks c) ?s" using assms(1) by (simp add: chain_ok_def)
  note led = chain_ok_ledger [OF assms]
  have pt: "unat (pending_for ?s a) = pend_total ?s a"
    using pending_for_total [OF led(1), of a] pend_total_le_supply [OF led(1), of a] led(2)
    by (simp add: unat_MAX_MONEY)
  let ?credited = "bal ?s a + pend_total ?s a + sum_list (map (paid_by a) ?txs)"
  let ?received = "sum_list (map (paid_to a) ?txs)"
  have by_: "sum_list (map (\<lambda>t. unat (tx_amount t) + unat (tx_fee t)) (filter (\<lambda>t. tx_sender t = a) ?txs))
      = sum_list (map (paid_by a) ?txs)" by (simp only: sum_filter paid_by_def [abs_def])
  have to: "sum_list (map (\<lambda>t. unat (tx_amount t)) (filter (\<lambda>t. tx_recipient t = a) ?txs)) = ?received"
    by (simp only: sum_filter paid_to_def [abs_def])
  have "?credited - ?received = earned a (ch_blocks c)" using rewards_balance [OF vh, of a] by simp
  then have "mining_rewards a c = (if earned a (ch_blocks c) < 2 ^ 64 then word_of_nat (earned a (ch_blocks c))
      else - 1, pending_for ?s a)"
    unfolding mining_rewards_def Let_def by_ to pt bal_def by simp
  then show "unat (fst (mining_rewards a c)) = min (earned a (ch_blocks c)) (2 ^ 64 - 1)"
    "unat (snd (mining_rewards a c)) = pend_total (ch_state c) a"
    using pt by (simp_all add: unat_of_nat take_bit_nat_eq_self unat_max_word)
qed

text \<open>The rewards the node reports for an account, computed from its funds and its transactions in
  one pass, are exactly what the blocks have awarded it, as finder and for its shares, capped at
  \<open>u64::MAX\<close>; the second number is what of it still waits to mature.\<close>

theorem reported_rewards:
  assumes "chain_ok E pow c" and "young c"
  shows "unat (fst (mining_rewards a c)) = min (earned a (ch_blocks c)) (2 ^ 64 - 1)
    \<and> unat (snd (mining_rewards a c)) = pend_total (ch_state c) a"
  using mining_rewards_exact [OF assms] by simp

theorem reported_rewards_witness:
  "\<exists>c. ch_blocks c = [genesis sample_env, sample_block]
    \<and> unat (snd (mining_rewards sample_alice c)) = 1000000000
    \<and> unat (fst (mining_rewards sample_alice c)) = min (earned sample_alice (ch_blocks c)) (2 ^ 64 - 1)"
proof -
  obtain c where c: "chain_ok sample_env sample_pow c" "ch_blocks c = [genesis sample_env, sample_block]"
    "ch_state c = sample_state sample_alice" by (rule sample_chain_two)
  have y: "young c" by (simp add: young_def c(2))
  have p: "pending_for (sample_state sample_alice) sample_alice = 1000000000"
    by (simp add: pending_for_def sample_state_def put_reward_def ledger_default_def saturating_add_def)
  have "unat (snd (mining_rewards sample_alice c)) = 1000000000"
    by (simp add: mining_rewards_def Let_def c(3) p)
  then show ?thesis using reported_rewards [OF c(1) y, of sample_alice] c(2) by blast
qed

end
