(* ===== verification/History.thy ===== *)
theory History
  imports Views
begin

text \<open>
The answers of \<open>src/node.rs\<close> about an account and about the chain that the API serves in pages:
  the history with its reward entries, the supply, the entitlement to the next block.  The objects of the
  JSON answers are records; the clock is read once for each answer.
\<close>

section \<open>The history of an account\<close>

datatype transfer_direction = TransferOut | TransferIn

record transfer_entry =
  te_txid :: hash32
  te_direction :: transfer_direction
  te_counterparty :: address
  te_amount :: u64
  te_fee :: u64
  te_timestamp :: u64
  te_height :: "u64 option"
  te_confirmations :: u64
  te_status :: string
  te_matured :: bool

record reward_entry =
  re_txid :: hash32
  re_amount :: u64
  re_finder_amount :: u64
  re_workshare_amount :: u64
  re_fee :: u64
  re_timestamp :: u64
  re_height :: u64
  re_confirmations :: u64
  re_status :: string
  re_matured :: bool
  re_maturity_height :: u64

datatype history_entry = TransferEntry transfer_entry | RewardEntry reward_entry

definition transfer_view :: "address \<Rightarrow> transaction \<Rightarrow> (transfer_direction \<times> address) option" where
  "transfer_view a t =
     (if tx_sender t = a then Some (TransferOut, tx_recipient t)
      else if tx_recipient t = a then Some (TransferIn, tx_sender t)
      else None)"

definition pending_entry :: "prims \<Rightarrow> u64 \<Rightarrow> address \<Rightarrow> transaction \<Rightarrow> history_entry option" where
  "pending_entry E now a t =
     map_option (\<lambda>(direction, counterparty). TransferEntry
       \<lparr>te_txid = transaction_id E t, te_direction = direction, te_counterparty = counterparty,
        te_amount = tx_amount t, te_fee = (if direction = TransferOut then tx_fee t else 0), te_timestamp = now,
        te_height = None, te_confirmations = 0, te_status = ''pending'', te_matured = True\<rparr>)
       (transfer_view a t)"

definition confirmed_entry ::
    "prims \<Rightarrow> u64 \<Rightarrow> block_header \<Rightarrow> address \<Rightarrow> transaction \<Rightarrow> history_entry option" where
  "confirmed_entry E height h a t =
     map_option (\<lambda>(direction, counterparty). TransferEntry
       \<lparr>te_txid = transaction_id E t, te_direction = direction, te_counterparty = counterparty,
        te_amount = tx_amount t, te_fee = (if direction = TransferOut then tx_fee t else 0),
        te_timestamp = bh_timestamp h, te_height = Some (bh_height h),
        te_confirmations = saturating_add (saturating_sub height (bh_height h)) 1,
        te_status = ''confirmed'', te_matured = True\<rparr>)
       (transfer_view a t)"

text \<open>\<open>slice::partition_point\<close> of a slice whose elements with \<open>P\<close> come first.\<close>

definition partition_point :: "('a \<Rightarrow> bool) \<Rightarrow> 'a list \<Rightarrow> nat" where
  "partition_point P xs = length (takeWhile P xs)"

definition historical_reward ::
    "prims \<Rightarrow> block list \<Rightarrow> nat \<Rightarrow> address \<Rightarrow> nat list \<Rightarrow> reward_entry option" where
  "historical_reward E history index a share_blocks =
     (let b = history ! index; h = blk_header b in
      case blk_reward_claim b of
        None \<Rightarrow> None
      | Some claim \<Rightarrow>
          let finder_amount = (if rc_finder claim = a then rc_amount claim else 0);
              before = partition_point (\<lambda>position. position < index) share_blocks;
              eligible = (0 < before \<and> index - REWARD_WINDOW \<le> share_blocks ! (before - 1))
          in case (if eligible
                   then (case reward_allocation (bh_height h) (rc_finder claim) 0 (take index history) of
                      Inl _ \<Rightarrow> None
                    | Inr allocation \<Rightarrow> Some (case map_of (ra_workshare_rewards allocation) a of
                        Some amount \<Rightarrow> amount | None \<Rightarrow> 0))
                   else Some 0) of
               None \<Rightarrow> None
             | Some share_amount \<Rightarrow>
                 let amount = finder_amount + share_amount;
                     height = bh_height (blk_header (last history))
                 in if amount = 0 then None
                    else Some \<lparr>re_txid = domain_hash E (ascii ''PARITR-REWARD-HISTORY-v1'')
                                 (hash_enc (block_id E b) @ address_enc a),
                      re_amount = amount, re_finder_amount = finder_amount, re_workshare_amount = share_amount,
                      re_fee = 0, re_timestamp = bh_timestamp h, re_height = bh_height h,
                      re_confirmations = saturating_add (saturating_sub height (bh_height h)) 1,
                      re_status = ''confirmed'',
                      re_matured = (saturating_add (bh_height h) REWARD_MATURITY \<le> height),
                      re_maturity_height = saturating_add (bh_height h) REWARD_MATURITY\<rparr>)"

definition share_blocks_of :: "address \<Rightarrow> block list \<Rightarrow> nat list" where
  "share_blocks_of a blocks =
     map fst (filter (\<lambda>(index, b). list_ex (\<lambda>share. ws_miner share = a) (ww_workshares (blk_witness b)))
       (enumerate 0 blocks))"

definition block_entries ::
    "prims \<Rightarrow> address \<Rightarrow> u64 \<Rightarrow> block list \<Rightarrow> nat list \<Rightarrow> nat \<Rightarrow> history_entry list" where
  "block_entries E a height blocks share_blocks index =
     (case historical_reward E blocks index a share_blocks of Some r \<Rightarrow> [RewardEntry r] | None \<Rightarrow> [])
     @ List.map_filter (confirmed_entry E height (blk_header (blocks ! index)) a)
         (rev (blk_transactions (blocks ! index)))"

text \<open>The loop over the blocks, the youngest first, until the page is full.\<close>

fun history_loop :: "(nat \<Rightarrow> history_entry list) \<Rightarrow> nat \<Rightarrow> nat list \<Rightarrow> history_entry list \<Rightarrow> history_entry list"
  where
  "history_loop entries_of stop [] entries = entries"
| "history_loop entries_of stop (index # r) entries =
     (if stop \<le> length entries then entries
      else history_loop entries_of stop r (entries @ entries_of index))"

definition usize_saturating_add :: "nat \<Rightarrow> nat \<Rightarrow> nat" where
  "usize_saturating_add x y = min (x + y) (2 ^ 64 - 1)"

definition address_history ::
    "prims \<Rightarrow> u64 \<Rightarrow> address \<Rightarrow> nat \<Rightarrow> nat \<Rightarrow> node \<Rightarrow> history_entry list option" where
  "address_history E now a maximum offset n =
     (let c = nd_chain n; blocks = ch_blocks c in
      map_option (\<lambda>selected.
        take (min maximum 100) (drop offset
          (history_loop (block_entries E a (chain_height c) blocks (share_blocks_of a blocks))
            (usize_saturating_add offset (min maximum 100)) (rev [0..<length blocks])
            (List.map_filter (pending_entry E now a) (rev selected)))))
        (select E (nd_mempool n) (ch_state c) MAX_BLOCK_TRANSACTIONS))"

section \<open>Pages\<close>

text \<open>The whole history, the youngest entry first.\<close>

definition full_history :: "prims \<Rightarrow> u64 \<Rightarrow> address \<Rightarrow> transaction list \<Rightarrow> chain \<Rightarrow> history_entry list" where
  "full_history E now a selected c =
     List.map_filter (pending_entry E now a) (rev selected)
     @ concat (map (block_entries E a (chain_height c) (ch_blocks c) (share_blocks_of a (ch_blocks c)))
         (rev [0..<length (ch_blocks c)]))"

lemma history_loop_prefix:
  "\<exists>rest. entries @ concat (map f is) = history_loop f stop is entries @ rest
     \<and> (rest = [] \<or> stop \<le> length (history_loop f stop is entries))"
proof (induction f stop "is" entries rule: history_loop.induct)
  case (2 f stop i r entries)
  show ?case
  proof (cases "stop \<le> length entries")
    case False
    then show ?thesis using "2.IH" by simp
  qed simp
qed simp

lemma history_page:
  assumes "length (entries @ concat (map f is)) < 2 ^ 64"
  shows "take k (drop offset (history_loop f (usize_saturating_add offset k) is entries))
    = take k (drop offset (entries @ concat (map f is)))"
proof -
  let ?stop = "usize_saturating_add offset k"
  obtain rest where full: "entries @ concat (map f is) = history_loop f ?stop is entries @ rest"
    and r: "rest = [] \<or> ?stop \<le> length (history_loop f ?stop is entries)"
    using history_loop_prefix by blast
  show ?thesis
  proof (cases "rest = []")
    case False
    have "length (history_loop f ?stop is entries) + length rest < 2 ^ 64"
      using assms unfolding full by simp
    moreover have "0 < length rest" using False by simp
    ultimately have "length (history_loop f ?stop is entries) < 2 ^ 64 - 1" by linarith
    then have "offset + k \<le> length (history_loop f ?stop is entries)"
      using r False by (simp add: usize_saturating_add_def)
    then show ?thesis unfolding full by simp
  qed (use full in simp)
qed


section \<open>Rewards in the history\<close>

lemma partition_point_last:
  assumes "sorted xs"
  shows "0 < partition_point (\<lambda>x. x < i) xs \<and> m \<le> xs ! (partition_point (\<lambda>x. x < i) xs - 1)
    \<longleftrightarrow> (\<exists>x \<in> set xs. x < i \<and> m \<le> (x :: nat))"
proof -
  let ?p = "takeWhile (\<lambda>x. x < i) xs"
  have mem: "set ?p = {x \<in> set xs. x < i}"
    using assms by (induction xs) (auto dest: order_le_less_trans)
  have nth: "xs ! (length ?p - 1) = last ?p" if "?p \<noteq> []"
    using that by (simp add: last_conv_nth takeWhile_nth)
  have top: "x \<le> last ?p" if "x \<in> set ?p" for x
  proof -
    have "sorted ?p" using assms by (rule sorted_wrt_takeWhile)
    moreover have "?p = butlast ?p @ [last ?p]" using that by (cases "?p = []") simp_all
    ultimately have "sorted (butlast ?p @ [last ?p])" by simp
    moreover have "x \<in> set (butlast ?p @ [last ?p])" using that \<open>?p = butlast ?p @ [last ?p]\<close> by simp
    ultimately show ?thesis by (auto simp: sorted_append)
  qed
  show ?thesis
  proof (cases "?p = []")
    case True
    then show ?thesis using mem by (auto simp: partition_point_def)
  next
    case False
    then have l: "last ?p \<in> set ?p" by (rule last_in_set)
    have "(\<exists>x \<in> set xs. x < i \<and> m \<le> x) \<longleftrightarrow> m \<le> last ?p"
      using l mem top by (metis (mono_tags, lifting) le_trans mem_Collect_eq)
    then show ?thesis using False nth [OF False] by (simp add: partition_point_def)
  qed
qed

lemma share_blocks_of_spec:
  "sorted (share_blocks_of a blocks)"
  "set (share_blocks_of a blocks)
    = {j. j < length blocks \<and> (\<exists>share \<in> set (ww_workshares (blk_witness (blocks ! j))). ws_miner share = a)}"
proof -
  have "sorted (map fst (enumerate 0 blocks))" by simp
  then show "sorted (share_blocks_of a blocks)" unfolding share_blocks_of_def by (rule sorted_filter)
  show "set (share_blocks_of a blocks)
    = {j. j < length blocks \<and> (\<exists>share \<in> set (ww_workshares (blk_witness (blocks ! j))). ws_miner share = a)}"
    by (force simp: share_blocks_of_def in_set_enumerate_eq list_ex_iff image_iff)
qed

text \<open>The division of the pool does not depend on the fees or the finder.\<close>

lemma rewards_ignore_fees:
  assumes small: "window_small hist" and r: "reward_allocation h f fees hist = Inr r"
  obtains r0 where "reward_allocation h f' 0 hist = Inr r0" "ra_workshare_rewards r0 = ra_workshare_rewards r"
proof -
  obtain m where m: "collect_weights (reward_window hist) = Inr m"
    using r by (auto simp: reward_allocation_def Let_def result_simps split: if_splits)
  obtain r0 where r0: "reward_allocation h f' 0 hist = Inr r0"
    using allocation_total_ok [OF small _ m, of 0 h f'] by auto
  have "ra_workshare_rewards r0 = ra_workshare_rewards r"
    using r r0 m unfolding reward_allocation_def Let_def
    by (auto simp: result_simps split: if_splits)
  with r0 show thesis by (rule that)
qed


text \<open>The allocation behind every block of a valid chain.\<close>

lemma block_allocations:
  assumes "valid_history E pow hist s" and "i < length hist"
  shows "blk_reward_claim (hist ! i) = None \<or> (\<exists>claim alloc fees. blk_reward_claim (hist ! i) = Some claim
    \<and> unat fees = sum_list (map (\<lambda>t. unat (tx_fee t)) (blk_transactions (hist ! i)))
    \<and> reward_allocation (bh_height (blk_header (hist ! i))) (rc_finder claim) fees (take i hist) = Inr alloc
    \<and> rc_amount claim = ra_finder_amount alloc \<and> window_small (take i hist))"
  using assms
proof (induction arbitrary: i rule: valid_history.induct)
  case genesis
  then show ?case by (simp add: genesis_def)
next
  case (extend hist s now b s')
  show ?case
  proof (cases "i < length hist")
    case True
    then show ?thesis using extend.IH [OF True] by (simp add: nth_append)
  next
    case False
    then have i: "i = length hist" using extend.prems by simp
    obtain claim alloc fees where "blk_reward_claim b = Some claim" "rc_amount claim = ra_finder_amount alloc"
      "unat fees = sum_list (map (\<lambda>t. unat (tx_fee t)) (blk_transactions b))"
      "reward_allocation (bh_height (blk_header b)) (rc_finder claim) fees hist = Inr alloc"
      by (rule block_step [OF extend.hyps(1-4)])
    then show ?thesis using history_inv_small [OF valid_history_inv [OF extend.hyps(1)]] by (auto simp: i)
  qed
qed

lemma reward_to_map_of:
  assumes "sorted_wrt (<) (map fst rs)"
  shows "reward_to a rs = (case map_of rs a of Some x \<Rightarrow> unat x | None \<Rightarrow> 0)"
  using assms
proof (induction rs)
  case (Cons e rs)
  obtain b x where e: "e = (b, x)" by (cases e)
  show ?case
  proof (cases "b = a")
    case True
    then have "filter (\<lambda>x. fst x = a) rs = []" using Cons.prems e by (auto simp: filter_empty_conv)
    then show ?thesis using True e by (simp add: reward_to_def)
  next
    case False
    then show ?thesis using Cons e by (simp add: reward_to_def)
  qed
qed (simp add: reward_to_def)

lemma reward_window_blocks:
  assumes "i \<le> length hist"
  shows "set (reward_window (take i hist)) = (!) hist ` {i - REWARD_WINDOW ..< i}"
proof -
  have "take i hist = map ((!) hist) [0..<i]"
    using assms by (intro nth_equalityI) simp_all
  then show ?thesis by (simp add: reward_window_def drop_map)
qed

text \<open>The reward entry of a block is what the block awarded.\<close>

lemma historical_reward_exact:
  assumes vh: "valid_history E pow hist s" and i: "i < length hist"
  shows "case historical_reward E hist i a (share_blocks_of a hist) of
      None \<Rightarrow> block_reward a (take i hist) (hist ! i) = 0
    | Some r \<Rightarrow> unat (re_amount r) = block_reward a (take i hist) (hist ! i) \<and> 0 < re_amount r"
proof (cases "blk_reward_claim (hist ! i)")
  case None
  then show ?thesis by (simp add: historical_reward_def block_reward_def)
next
  case (Some claim)
  let ?b = "hist ! i" and ?k = "partition_point (\<lambda>p. p < i) (share_blocks_of a hist)"
  let ?h = "bh_height (blk_header ?b)"
  obtain alloc fees where f: "unat fees = sum_list (map (\<lambda>t. unat (tx_fee t)) (blk_transactions ?b))"
    and al: "reward_allocation ?h (rc_finder claim) fees (take i hist) = Inr alloc"
    and am: "rc_amount claim = ra_finder_amount alloc" and small: "window_small (take i hist)"
    using block_allocations [OF vh i] Some by auto
  obtain alloc0 where al0: "reward_allocation ?h (rc_finder claim) 0 (take i hist) = Inr alloc0"
    "ra_workshare_rewards alloc0 = ra_workshare_rewards alloc" by (rule rewards_ignore_fees [OF small al])
  note e = allocation_exact [OF small al]
  have fees: "word_of_nat (sum_list (map (\<lambda>t. unat (tx_fee t)) (blk_transactions ?b))) = fees"
    unfolding f [symmetric] by simp
  let ?finder = "if rc_finder claim = a then rc_amount claim else 0"
  let ?eligible = "0 < ?k \<and> i - REWARD_WINDOW \<le> share_blocks_of a hist ! (?k - 1)"
  let ?share = "if ?eligible then (case map_of (ra_workshare_rewards alloc) a of Some x \<Rightarrow> x | None \<Rightarrow> 0) else 0"
  have br: "block_reward a (take i hist) ?b = unat ?finder + reward_to a (ra_workshare_rewards alloc)"
    by (simp add: block_reward_def Some fees al)
  have elig: "?eligible \<longleftrightarrow> (\<exists>share \<in> set (window_shares (reward_window (take i hist))). ws_miner share = a)"
    unfolding partition_point_last [OF share_blocks_of_spec(1)] share_blocks_of_spec(2)
    using i by (auto simp: window_shares_def reward_window_blocks) (metis less_trans)
  have share: "unat ?share = reward_to a (ra_workshare_rewards alloc)"
  proof (cases ?eligible)
    case True
    then show ?thesis by (simp add: reward_to_map_of [OF e(2)] split: option.split)
  next
    case False
    have "map_of (ra_workshare_rewards alloc) a = None"
      using False [unfolded elig] reward_recipients [OF small al] by (fastforce simp: map_of_eq_None_iff)
    then show ?thesis using False by (simp add: reward_to_map_of [OF e(2)])
  qed
  have "reward_to a (ra_workshare_rewards alloc) \<le> sum_list (map (\<lambda>x. unat (snd x)) (ra_workshare_rewards alloc))"
    by (simp add: reward_to_def sum_filter) (rule sum_list_mono, simp)
  moreover have "fees \<le> MAX_MONEY"
    using al by (auto simp: reward_allocation_def Let_def not_less split: if_splits)
  ultimately have "unat ?finder + unat ?share < 2 ^ 64"
    using e(1) subsidy_nat_bound [of "unat ?h"] am share by (auto simp: word_le_nat_alt unat_MAX_MONEY)
  then have sum: "unat (?finder + ?share) = block_reward a (take i hist) ?b"
    unfolding br share [symmetric] by (intro unat_add_exact) simp
  have "historical_reward E hist i a (share_blocks_of a hist) = None \<longleftrightarrow> ?finder + ?share = 0"
    "\<And>r. historical_reward E hist i a (share_blocks_of a hist) = Some r \<Longrightarrow> re_amount r = ?finder + ?share"
    by (auto simp: historical_reward_def Let_def Some al0 split: if_splits)
  then show ?thesis using sum by (auto simp: word_gt_0 unat_eq_0 [symmetric] split: option.split)
qed


section \<open>Properties\<close>

definition entry_reward :: "history_entry \<Rightarrow> nat" where
  "entry_reward e = (case e of RewardEntry r \<Rightarrow> unat (re_amount r) | TransferEntry t \<Rightarrow> 0)"

lemma entry_reward_transfers [simp]:
  "sum_list (map entry_reward (List.map_filter (pending_entry E now a) ts)) = 0"
  "sum_list (map entry_reward (List.map_filter (confirmed_entry E height h a) ts)) = 0"
  by (induction ts)
    (auto simp: List.map_filter_simps pending_entry_def confirmed_entry_def entry_reward_def split: option.split)

lemma sum_entries_concat:
  "sum_list (map f (concat xss)) = sum_list (map (\<lambda>xs. sum_list (map f xs)) xss)"
  by (induction xss) simp_all

lemma block_entries_reward:
  assumes "valid_history E pow hist s" and "i < length hist"
  shows "sum_list (map entry_reward (block_entries E a height hist (share_blocks_of a hist) i))
    = block_reward a (take i hist) (hist ! i)"
  using historical_reward_exact [OF assms, of a]
  by (auto simp: block_entries_def entry_reward_def split: option.splits)

text \<open>C35: Paging through the history of an account misses nothing and repeats nothing: each page is the
  slice of one list, whatever the page before was, although the loop over the blocks stops as soon as the
  page is full.\<close>

theorem history_pages:
  assumes "node_ok E pow n" and "young (nd_chain n)"
  shows "\<exists>selected. select E (nd_mempool n) (ch_state (nd_chain n)) MAX_BLOCK_TRANSACTIONS = Some selected
    \<and> (length (full_history E now a selected (nd_chain n)) < 2 ^ 64 \<longrightarrow>
        address_history E now a page offset n
          = Some (take (min page 100) (drop offset (full_history E now a selected (nd_chain n)))))"
proof -
  obtain selected where s: "select E (nd_mempool n) (ch_state (nd_chain n)) MAX_BLOCK_TRANSACTIONS = Some selected"
    by (rule node_select [OF assms])
  show ?thesis
  proof (intro exI conjI impI)
    assume "length (full_history E now a selected (nd_chain n)) < 2 ^ 64"
    from history_page [OF this [unfolded full_history_def]]
    show "address_history E now a page offset n
        = Some (take (min page 100) (drop offset (full_history E now a selected (nd_chain n))))"
      by (simp only: address_history_def full_history_def Let_def s option.map)
  qed (fact s)
qed

theorem history_pages_witness:
  "\<exists>n. node_ok sample_env sample_pow n \<and> address_history sample_env sample_now sample_alice 10 0 n = Some []"
proof -
  obtain db w where ok: "node_ok sample_env sample_pow (sample_node db w sample_live_pool)"
    "young (nd_chain (sample_node db w sample_live_pool))" by (rule sample_miner)
  have f: "full_history sample_env sample_now sample_alice [] (sample_genesis_chain w) = []"
    by (simp add: full_history_def block_entries_def historical_reward_def List.map_filter_simps)
      (simp add: genesis_def List.map_filter_simps)
  have "address_history sample_env sample_now sample_alice 10 0 (sample_node db w sample_live_pool) = Some []"
    using history_pages [OF ok, of sample_now sample_alice 10 0] by (simp add: sample_selects f)
  then show ?thesis using ok(1) by blast
qed

text \<open>The reward entries in the history of an account, each worked out for its block alone, add up to
  the total that the node reports from the balance of the account: the search for a share in the window
  of a block and the division without the fees lose nothing.\<close>

theorem history_rewards:
  assumes "chain_ok E pow c" and "young c"
  shows "unat (fst (mining_rewards a c))
    = min (sum_list (map entry_reward (full_history E now a selected c))) (2 ^ 64 - 1)"
proof -
  have vh: "valid_history E pow (ch_blocks c) (ch_state c)" using assms(1) by (simp add: chain_ok_def)
  let ?f = "block_entries E a (chain_height c) (ch_blocks c) (share_blocks_of a (ch_blocks c))"
  have "sum_list (map entry_reward (concat (map ?f (rev [0..<length (ch_blocks c)]))))
      = (\<Sum>i \<leftarrow> rev [0..<length (ch_blocks c)]. block_reward a (take i (ch_blocks c)) (ch_blocks c ! i))"
    unfolding sum_entries_concat map_map
    by (intro arg_cong [where f = sum_list] map_cong refl) (simp add: block_entries_reward [OF vh])
  also have "\<dots> = earned a (ch_blocks c)"
    by (simp add: earned_def rev_map [symmetric] sum_list_rev interv_sum_list_conv_sum_set_nat atLeast0LessThan)
  finally show ?thesis
    using mining_rewards_exact(1) [OF assms, of a] by (simp add: full_history_def)
qed

theorem history_rewards_witness:
  "\<exists>c. ch_blocks c = [genesis sample_env, sample_block]
    \<and> sum_list (map entry_reward (full_history sample_env sample_now sample_alice [] c)) = 1000000000"
proof -
  obtain c where c: "chain_ok sample_env sample_pow c" "ch_blocks c = [genesis sample_env, sample_block]"
    "ch_state c = sample_state sample_alice" by (rule sample_chain_two)
  have y: "young c" by (simp add: young_def c(2))
  have p: "pending_for (sample_state sample_alice) sample_alice = 1000000000"
    by (simp add: pending_for_def sample_state_def put_reward_def ledger_default_def saturating_add_def)
  have b: "ac_balance (ledger_account (sample_state sample_alice) sample_alice) = 0"
    by (simp add: sample_state_def ledger_account_def put_reward_def ledger_default_def account_default_def)
  have t: "chain_transactions [genesis sample_env, sample_block] = []"
    by (simp add: chain_transactions_def genesis_def sample_block_def)
  have "unat (fst (mining_rewards sample_alice c)) = 1000000000"
    by (simp add: mining_rewards_def Let_def c(2,3) p b t)
  then show ?thesis using history_rewards [OF c(1) y, where a = sample_alice and now = sample_now and selected = "[]"] c(2)
    by (intro exI [of _ c]) (simp add: min_def split: if_splits)
qed

section \<open>Queries\<close>

definition supply_state :: "chain \<Rightarrow> u64 \<times> u64 \<times> nat \<times> nat" where
  "supply_state c =
     (let s = ch_state c in
      (fold (\<lambda>amount total. saturating_add total amount) (map (\<lambda>(_, acc). ac_balance acc) (led_accounts s)) 0,
       fold (\<lambda>amount total. saturating_add total amount) (map snd (led_pending s)) 0,
       length (led_accounts s), length (led_pending s)))"

definition next_workshare_entitlement :: "address \<Rightarrow> chain \<Rightarrow> u64" where
  "next_workshare_entitlement a c =
     (case reward_allocation (saturating_add (chain_height c) 1) a 0 (ch_blocks c) of
        Inl _ \<Rightarrow> 0
      | Inr allocation \<Rightarrow> (case map_of (ra_workshare_rewards allocation) a of Some amount \<Rightarrow> amount | None \<Rightarrow> 0))"

definition account_and_pending :: "address \<Rightarrow> chain \<Rightarrow> account \<times> u64" where
  "account_and_pending a c = (ledger_account (ch_state c) a, pending_for (ch_state c) a)"

definition recent_blocks :: "nat \<Rightarrow> chain \<Rightarrow> block list" where
  "recent_blocks maximum c = take (min maximum 100) (rev (ch_blocks c))"

definition mempool_transactions :: "prims \<Rightarrow> node \<Rightarrow> transaction list option" where
  "mempool_transactions E n = select E (nd_mempool n) (ch_state (nd_chain n)) MAX_BLOCK_TRANSACTIONS"

definition find_transaction :: "prims \<Rightarrow> hash32 \<Rightarrow> node \<Rightarrow> transaction option" where
  "find_transaction E k n =
     (case mempool_get (nd_mempool n) k of
        Some t \<Rightarrow> Some t
      | None \<Rightarrow> List.find (\<lambda>t. transaction_id E t = k) (chain_transactions (ch_blocks (nd_chain n))))"

text \<open>All shares in the window, those of an account among them, and the connected identities;
  \<open>None\<close> is the panic of \<open>witness\<close>.\<close>

definition mining_distribution :: "address option \<Rightarrow> bool \<Rightarrow> node \<Rightarrow> (nat \<times> nat \<times> nat) option" where
  "mining_distribution miner enabled n =
     map_option (\<lambda>live.
       let shares = concat (map (\<lambda>b. ww_workshares (blk_witness b)) (reward_window (ch_blocks (nd_chain n))))
             @ ww_workshares live
       in (length shares,
           (case miner of None \<Rightarrow> 0 | Some a \<Rightarrow> length (filter (\<lambda>share. ws_miner share = a) shares)),
           length (nd_peers n) + (if enabled then 1 else 0)))
       (pool_witness (nd_workshares n))"

text \<open>What \<open>/supply\<close> answers from the report of the chain and the state of the ledger.\<close>

record supply_answer =
  sa_circulating :: u64
  sa_emitted :: u64
  sa_allocated :: u64
  sa_unissued :: u64
  sa_outstanding :: u64
  sa_reward_accounts :: nat
  sa_accounts :: nat

definition supply_report :: "chain \<Rightarrow> supply_answer" where
  "supply_report c =
     (let emitted = scheduled_supply (chain_height c);
          (materialized, outstanding, accounts, reward_entries) = supply_state c;
          allocated = saturating_add materialized outstanding
      in \<lparr>sa_circulating = materialized, sa_emitted = emitted, sa_allocated = allocated,
          sa_unissued = saturating_sub emitted allocated, sa_outstanding = outstanding,
          sa_reward_accounts = reward_entries, sa_accounts = accounts\<rparr>)"

lemma supply_state_numbers:
  assumes "ledger_supply (ch_state c) < 2 ^ 64"
  shows "unat (fst (supply_state c)) + unat (fst (snd (supply_state c))) = ledger_supply (ch_state c)"
proof -
  have m: "map unat (map (\<lambda>(_, acc). ac_balance acc) (led_accounts (ch_state c)))
      = map (\<lambda>x. unat (ac_balance (snd x))) (led_accounts (ch_state c))" by (simp add: case_prod_unfold)
  have "sum_list (map (\<lambda>x. unat (ac_balance (snd x))) (led_accounts (ch_state c)))
      + sum_list (map (\<lambda>x. unat (snd x)) (led_pending (ch_state c))) < 2 ^ 64"
    using assms by (simp add: ledger_supply_def smap_sum_def)
  then show ?thesis
    unfolding supply_state_def Let_def fst_conv snd_conv fold_saturating m
    by (simp add: ledger_supply_def smap_sum_def comp_def)
qed

text \<open>The supply report adds up: balances and outstanding rewards are together exactly the emission
  scheduled for the height, so nothing is ever reported as unissued.\<close>

theorem supply_report_balances:
  assumes "chain_ok E pow c" and "young c"
  shows "sa_allocated (supply_report c) = sa_emitted (supply_report c) \<and> sa_unissued (supply_report c) = 0
    \<and> unat (sa_circulating (supply_report c)) + unat (sa_outstanding (supply_report c)) = ledger_supply (ch_state c)"
proof -
  let ?m = "fst (supply_state c)" and ?o = "fst (snd (supply_state c))"
  have "ledger_supply (ch_state c) < 2 ^ 64" using chain_ok_ledger(2) [OF assms] by (simp add: unat_MAX_MONEY)
  then have sum: "unat ?m + unat ?o = ledger_supply (ch_state c)" "unat ?m + unat ?o < 2 ^ 64"
    using supply_state_numbers by simp_all
  have "unat (saturating_add ?m ?o) = unat (scheduled_supply (chain_height c))"
    using sum scheduled_supply_exact [OF assms] by (simp add: unat_saturating_add)
  then have "saturating_add ?m ?o = scheduled_supply (chain_height c)" by (simp add: word_unat_eq_iff)
  then show ?thesis using sum(1)
    by (simp add: supply_report_def Let_def case_prod_unfold saturating_sub_def)
qed

theorem supply_report_balances_witness:
  "\<exists>c. ch_blocks c = [genesis sample_env, sample_block] \<and> sa_unissued (supply_report c) = 0
    \<and> sa_outstanding (supply_report c) = 1000000000"
proof -
  obtain c where c: "chain_ok sample_env sample_pow c" "ch_blocks c = [genesis sample_env, sample_block]"
    "ch_state c = sample_state sample_alice" by (rule sample_chain_two)
  have y: "young c" by (simp add: young_def c(2))
  have "sa_outstanding (supply_report c) = 1000000000"
    by (simp add: supply_report_def supply_state_def Let_def c(3) sample_state_def put_reward_def
        ledger_default_def saturating_add_def)
  then show ?thesis using supply_report_balances [OF c(1) y] c(2) by blast
qed

text \<open>C37: The entitlement an account is shown is what it gets: whichever valid block comes next, whoever
  finds it and whatever fees it takes, exactly that amount is scheduled for the account's shares, 100
  blocks later, beside the finder's amount.\<close>

theorem entitlement_is_paid:
  assumes ok: "chain_ok E pow c" and len: "length (ch_blocks c) < 2 ^ 63"
    and v: "validate_block E pow now b (ch_blocks c) (ch_state c) = Inr s'"
    and h0: "bh_height (blk_header b) \<noteq> 0" and typed: "block_typed E b"
  shows "\<exists>claim. blk_reward_claim b = Some claim
    \<and> pend s' (bh_height (blk_header b) + REWARD_MATURITY, a)
      = pend (ch_state c) (bh_height (blk_header b) + REWARD_MATURITY, a)
        + (if a = rc_finder claim then unat (rc_amount claim) else 0) + unat (next_workshare_entitlement a c)"
proof -
  have vh: "valid_history E pow (ch_blocks c) (ch_state c)" using ok by (simp add: chain_ok_def)
  obtain claim alloc fees where c: "blk_reward_claim b = Some claim"
    and al: "reward_allocation (bh_height (blk_header b)) (rc_finder claim) fees (ch_blocks c) = Inr alloc"
    and pend: "\<And>k a. pend s' (k, a) = (if k = bh_height (blk_header b) then 0 else pend (ch_state c) (k, a))
       + (if k = bh_height (blk_header b) + REWARD_MATURITY then (if a = rc_finder claim then unat (rc_amount claim) else 0)
            + reward_to a (ra_workshare_rewards alloc) else 0)"
    by (rule block_step [OF vh v h0 typed]) blast
  have small: "window_small (ch_blocks c)" by (rule history_inv_small [OF chain_ok_inv [OF ok]])
  obtain r0 where r0: "reward_allocation (bh_height (blk_header b)) a 0 (ch_blocks c) = Inr r0"
    "ra_workshare_rewards r0 = ra_workshare_rewards alloc" by (rule rewards_ignore_fees [OF small al])
  have h: "saturating_add (chain_height c) 1 = bh_height (blk_header b)"
  proof -
    have "bh_height (blk_header b) = chain_height c + 1"
      using validate_block_InrE [OF v h0] by (metis header_context_Inr chain_height_def chain_tip_def)
    moreover have "unat (chain_height c) + 1 < 2 ^ 64"
      using chain_ok_tip(2) [OF ok] len by (simp add: chain_height_def height_of_def)
    ultimately show ?thesis by (simp add: saturating_add_def)
  qed
  have "unat (next_workshare_entitlement a c) = reward_to a (ra_workshare_rewards alloc)"
    using allocation_exact(2) [OF small al]
    by (simp add: next_workshare_entitlement_def h r0 reward_to_map_of split: option.split)
  moreover have "REWARD_MATURITY \<noteq> 0" by (simp add: REWARD_MATURITY_def)
  ultimately show ?thesis using c pend by (intro exI [of _ claim]) simp
qed

theorem entitlement_is_paid_witness:
  "\<exists>c. ch_blocks c = [genesis sample_env]
    \<and> pend (sample_state sample_alice) (101, sample_alice)
        = 1000000000 + unat (next_workshare_entitlement sample_alice c)"
proof -
  obtain w where ok: "chain_ok sample_env sample_pow (sample_genesis_chain w)"
    by (rule sample_genesis_chain_ok)
  have v: "validate_block sample_env sample_pow sample_now sample_block (ch_blocks (sample_genesis_chain w))
      (ch_state (sample_genesis_chain w)) = Inr (sample_state sample_alice)"
    using sample_block_valid by simp
  have "pend (ledger_default sample_env) k = 0" for k by (simp add: pend_def ledger_default_def)
  moreover have "blk_reward_claim sample_block = Some (sample_claim sample_alice)" by (simp add: sample_block_def)
  ultimately have "pend (sample_state sample_alice) (101, sample_alice)
      = 1000000000 + unat (next_workshare_entitlement sample_alice (sample_genesis_chain w))"
    using entitlement_is_paid [OF ok _ v _ sample_block_typed, of sample_alice]
    by (simp add: sample_block_height REWARD_MATURITY_def)
  then show ?thesis by (intro exI [of _ "sample_genesis_chain w"]) simp
qed

end
