(* ===== verification/Rpc.thy ===== *)
theory Rpc
  imports Admin History
begin

text \<open>
The public interface of a node, \<open>src/rpc.rs\<close>: the requests that read blocks, accounts, pages and reports,
  the submissions behind the switch of the node, the work for external miners, and the plan of the
  listeners.  HTTP and JSON are not modelled: a handler takes the texts of its path and query, or a typed
  body, and yields the data of its answer or the error.
\<close>

section \<open>Blocks\<close>

definition resolve_block :: "prims \<Rightarrow> bytes \<Rightarrow> node \<Rightarrow> api_error + block" where
  "resolve_block E selector n =
     (case parse_unsigned 64 selector of
        Some height \<Rightarrow> ok_or (block_at (nd_chain n) (word_of_nat height)) (NotFound ''block height not found'')
      | None \<Rightarrow>
          rbind (map_err (BadRequest \<circ> CauseCrypto) (hash_from_str E selector)) (\<lambda>k.
          ok_or (node_block_by_hash E k n) (NotFound ''block hash not found'')))"

definition block_response :: "prims \<Rightarrow> bytes \<Rightarrow> node \<Rightarrow> api_error + hash32 \<times> block" where
  "block_response E selector n = rbind (resolve_block E selector n) (\<lambda>b. Inr (block_id E b, b))"

definition raw_block :: "prims \<Rightarrow> bytes \<Rightarrow> node \<Rightarrow> api_error + bytes" where
  "raw_block E selector n = rbind (resolve_block E selector n) (\<lambda>b. Inr (block_enc b))"

section \<open>Accounts\<close>

record address_response =
  ar_balance :: u64
  ar_nonce :: u64
  ar_pending_rewards :: u64
  ar_pending_in :: u64
  ar_pending_out :: u64
  ar_spendable :: u64
  ar_next_nonce :: u64
  ar_height :: u64

definition parse_address :: "prims \<Rightarrow> bytes \<Rightarrow> api_error + address" where
  "parse_address E s = map_err (BadRequest \<circ> CauseCrypto) (address_from_str E s)"

text \<open>A reading handler; \<open>None\<close> is a panic of the view it asks.\<close>

definition address_answer :: "prims \<Rightarrow> bytes \<Rightarrow> node \<Rightarrow> (api_error + address_response) option" where
  "address_answer E s n =
     (case parse_address E s of
        Inl e \<Rightarrow> Some (Inl e)
      | Inr a \<Rightarrow> map_option (\<lambda>(account, pending_rewards, pending_in, pending_out, next_nonce). Inr
          \<lparr>ar_balance = ac_balance account, ar_nonce = ac_nonce account, ar_pending_rewards = pending_rewards,
           ar_pending_in = pending_in, ar_pending_out = pending_out,
           ar_spendable = saturating_sub (ac_balance account) pending_out, ar_next_nonce = next_nonce,
           ar_height = chain_height (nd_chain n)\<rparr>) (account_view E a n))"

text \<open>The query parameters of a page: what does not parse counts as missing.\<close>

definition page_limit :: "nat \<Rightarrow> nat \<Rightarrow> bytes option \<Rightarrow> nat" where
  "page_limit fallback most query =
     max 1 (min most (case Option.bind query (parse_unsigned 64) of None \<Rightarrow> fallback | Some v \<Rightarrow> v))"

definition page_offset :: "bytes option \<Rightarrow> nat" where
  "page_offset query = (case Option.bind query (parse_unsigned 64) of None \<Rightarrow> 0 | Some v \<Rightarrow> v)"

definition address_transactions ::
    "prims \<Rightarrow> u64 \<Rightarrow> bytes \<Rightarrow> bytes option \<Rightarrow> bytes option \<Rightarrow> node
     \<Rightarrow> (api_error + history_entry list \<times> nat \<times> nat) option" where
  "address_transactions E now s page offset n =
     (case parse_address E s of
        Inl e \<Rightarrow> Some (Inl e)
      | Inr a \<Rightarrow>
          let size = page_limit 25 100 page; start = page_offset offset in
          map_option (\<lambda>entries. Inr (entries, size, start)) (address_history E now a size start n))"

definition transaction_answer :: "prims \<Rightarrow> bytes \<Rightarrow> node \<Rightarrow> api_error + hash32 \<times> transaction" where
  "transaction_answer E s n =
     rbind (map_err (BadRequest \<circ> CauseCrypto) (hash_from_str E s)) (\<lambda>k.
     rbind (ok_or (find_transaction E k n) (NotFound ''transaction not found'')) (\<lambda>t. Inr (k, t)))"

definition rewards_answer :: "prims \<Rightarrow> bytes \<Rightarrow> node \<Rightarrow> api_error + u64 \<times> u64 \<times> u64" where
  "rewards_answer E s n =
     rbind (parse_address E s) (\<lambda>a.
     case mining_rewards a (nd_chain n) of (all_mined, pending) \<Rightarrow> Inr (all_mined, saturating_sub all_mined pending, pending))"

definition distribution_answer ::
    "prims \<Rightarrow> bytes option \<Rightarrow> bool \<Rightarrow> node \<Rightarrow> (api_error + u64 \<times> nat \<times> nat \<times> nat \<times> u64 \<times> u64) option" where
  "distribution_answer E query enabled n =
     (case (case query of None \<Rightarrow> Inr None
            | Some s \<Rightarrow> if s = [] then Inr None else rbind (parse_address E s) (\<lambda>a. Inr (Some a))) of
        Inl e \<Rightarrow> Some (Inl e)
      | Inr address \<Rightarrow>
          map_option (\<lambda>(all_shares, own, miners). Inr
            (saturating_add (chain_height (nd_chain n)) 1, all_shares, own, miners,
             case address of None \<Rightarrow> 0 | Some a \<Rightarrow> snd (account_and_pending a (nd_chain n)),
             case address of None \<Rightarrow> 0 | Some a \<Rightarrow> next_workshare_entitlement a (nd_chain n)))
            (mining_distribution address enabled n))"

definition admin_blocks :: "prims \<Rightarrow> bytes option \<Rightarrow> node \<Rightarrow> (u64 \<times> hash32 \<times> u64 \<times> nat \<times> u64 \<times> block) list" where
  "admin_blocks E query n =
     map (\<lambda>b. (bh_height (blk_header b), block_id E b, bh_timestamp (blk_header b), length (blk_transactions b),
          block_subsidy (bh_height (blk_header b)), b))
       (recent_blocks (page_limit 25 100 query) (nd_chain n))"

section \<open>Submissions\<close>

definition rpc_submit_transaction ::
    "prims \<Rightarrow> u64 \<Rightarrow> transaction \<Rightarrow> admin \<Rightarrow> ((api_error + hash32) \<times> admin) option" where
  "rpc_submit_transaction E now t st =
     (case ensure_node_running st of
        Inl e \<Rightarrow> Some (Inl e, st)
      | Inr _ \<Rightarrow> map_option (\<lambda>(r, n). (map_err (BadRequest \<circ> CauseMempool) r, st\<lparr>ad_node := n\<rparr>))
          (submit_transaction E now t (ad_node st)))"

definition rpc_submit_block ::
    "prims \<Rightarrow> pow_verifier \<Rightarrow> u64 \<Rightarrow> block \<Rightarrow> admin \<Rightarrow> ((api_error + hash32 \<times> chain_event) \<times> admin) option" where
  "rpc_submit_block E pow now b st =
     (case ensure_node_running st of
        Inl e \<Rightarrow> Some (Inl e, st)
      | Inr _ \<Rightarrow> map_option (\<lambda>(r, n).
            (rbind (map_err (BadRequest \<circ> CauseConsensus) r) (\<lambda>event. Inr (block_id E b, event)), st\<lparr>ad_node := n\<rparr>))
          (submit_block E pow now b (ad_node st)))"

definition rpc_submit_raw_block ::
    "prims \<Rightarrow> pow_verifier \<Rightarrow> u64 \<Rightarrow> bytes \<Rightarrow> admin \<Rightarrow> ((api_error + hash32 \<times> chain_event) \<times> admin) option" where
  "rpc_submit_raw_block E pow now bs st =
     (case consensus_decode (block_dec E) bs of
        Inl e \<Rightarrow> Some (Inl (BadRequest (CauseCodec e)), st)
      | Inr b \<Rightarrow> rpc_submit_block E pow now b st)"

definition rpc_submit_workshare ::
    "prims \<Rightarrow> pow_verifier \<Rightarrow> u64 \<Rightarrow> workshare \<Rightarrow> admin \<Rightarrow> (api_error + hash32 \<times> bool) \<times> admin" where
  "rpc_submit_workshare E pow now s st =
     (case ensure_node_running st of
        Inl e \<Rightarrow> (Inl e, st)
      | Inr _ \<Rightarrow> (case node_submit_workshare E pow now s (ad_node st) of
          (r, n) \<Rightarrow> (rbind (map_err (BadRequest \<circ> CauseConsensus) r) (\<lambda>preferred. Inr (workshare_id E s, preferred)),
            st\<lparr>ad_node := n\<rparr>)))"

definition rpc_submit_template ::
    "prims \<Rightarrow> block_template \<Rightarrow> admin \<Rightarrow> (api_error + hash32) \<times> admin" where
  "rpc_submit_template E t st =
     (case ensure_node_running st of
        Inl e \<Rightarrow> (Inl e, st)
      | Inr _ \<Rightarrow> (case register_template E t (ad_node st) of
          (r, n) \<Rightarrow> (map_err (BadRequest \<circ> CauseConsensus) r, st\<lparr>ad_node := n\<rparr>)))"

record template_response =
  tr_block :: block
  tr_block_binary :: bytes
  tr_template_id :: hash32
  tr_seed_hex :: bytes
  tr_block_target_hex :: bytes
  tr_workshare_target_hex :: bytes
  tr_generation :: u64

definition rpc_mining_template ::
    "prims \<Rightarrow> u64 \<Rightarrow> u64 \<Rightarrow> admin \<Rightarrow> ((api_error + template_response) \<times> admin) option" where
  "rpc_mining_template E now extranonce st =
     (case ensure_node_running st of
        Inl e \<Rightarrow> Some (Inl e, st)
      | Inr _ \<Rightarrow> map_option (\<lambda>(r, n).
            (rbind (map_err (BadRequest \<circ> CauseConsensus) r) (\<lambda>candidate. Inr
              \<lparr>tr_block = mc_block candidate, tr_block_binary = block_enc (mc_block candidate),
               tr_template_id = template_id E (mc_template candidate), tr_seed_hex = hex_encode E (mc_seed candidate),
               tr_block_target_hex = format_064x (unat (mc_block_target candidate)),
               tr_workshare_target_hex = format_064x (unat (mc_share_target candidate)),
               tr_generation = mc_generation candidate\<rparr>), st\<lparr>ad_node := n\<rparr>))
          (make_candidate E now extranonce (ad_node st)))"

section \<open>Listeners\<close>

text \<open>\<open>serve\<close>: whether the two interfaces share a listener, which must then take the loopback address of the
  administration.\<close>

definition is_unspecified :: "ip_addr \<Rightarrow> bool" where
  "is_unspecified ip = (case ip of V4 octets \<Rightarrow> list_all ((=) 0) octets | V6 groups \<Rightarrow> list_all ((=) 0) groups)"

definition is_ipv4 :: "ip_addr \<Rightarrow> bool" where
  "is_ipv4 ip = (case ip of V4 _ \<Rightarrow> True | V6 _ \<Rightarrow> False)"

definition serve_plan :: "config \<Rightarrow> string + bool" where
  "serve_plan c =
     (case (socket_addr (cf_public_bind c), socket_addr (cf_admin_bind c), socket_addr (cf_management_bind c)) of
        (Some (_, public_port), Some (admin_ip, admin_port), Some (management_ip, management_port)) \<Rightarrow>
          if public_port = admin_port \<or> public_port = management_port
          then Inl ''public and management ports must be different''
          else if admin_port = management_port
          then if is_ipv4 admin_ip = is_ipv4 management_ip \<and> (is_unspecified management_ip \<or> management_ip = admin_ip)
            then Inr True else Inl ''shared management listener must also accept the loopback admin address''
          else Inr False
      | _ \<Rightarrow> Inl ''address'')"

section \<open>Lemmas\<close>

lemma page_limit_range: "1 \<le> most \<Longrightarrow> 1 \<le> page_limit fallback most query \<and> page_limit fallback most query \<le> most"
  by (auto simp: page_limit_def)

lemma stopped_refuses:
  assumes "\<not> ad_enabled st"
  shows "rpc_submit_transaction E now t st = Some (Inl (Unavailable ''node operation is stopped''), st)"
    "rpc_submit_block E pow now b st = Some (Inl (Unavailable ''node operation is stopped''), st)"
    "rpc_submit_workshare E pow now s st = (Inl (Unavailable ''node operation is stopped''), st)"
    "rpc_submit_template E bt st = (Inl (Unavailable ''node operation is stopped''), st)"
    "rpc_mining_template E now x st = Some (Inl (Unavailable ''node operation is stopped''), st)"
    "admin_sync E st = Some (Inl (Unavailable ''node operation is stopped''), st)"
  using assms by (simp_all add: rpc_submit_transaction_def rpc_submit_block_def rpc_submit_workshare_def
      rpc_submit_template_def rpc_mining_template_def admin_sync_def ensure_node_running_def)

lemma switch_off:
  assumes "set_node_enabled E H b st = (Inr (), st')"
  shows "ad_enabled st' = b" "\<exists>c. ad_disk st' = Stored c \<and> cf_node_enabled c = b"
  using assms by (auto simp: set_node_enabled_def set_enabled_def split: prod.splits sum.splits
      dest!: store_config_cases)

lemma hash_text_back:
  assumes "hex_crate E"
  shows "hash_from_str E (hash_to_string E k) = Inr k"
proof -
  have h: "hex_decode E (hex_encode E bs) = Some bs" "length (hex_encode E bs) = 2 * length bs"
    "list_all (\<lambda>c. is_digit c \<or> (97 \<le> c \<and> c \<le> 102)) (hex_encode E bs)" for bs
    using assms by (simp_all add: hex_crate_def)
  have "\<forall>c \<in> set (hex_encode E (array_bytes k)). is_ascii_hexdigit c"
    using h(3) lowercase_hex(1) by (fastforce simp: list_all_iff)
  then show ?thesis by (simp add: hash_from_str_def hash_to_string_def h ok_or_def hash_from_slice_def)
qed

section \<open>Properties\<close>





end
