(* ===== verification/RandomX.thy ===== *)
theory RandomX
  imports Rpc
begin

text \<open>
\<open>src/pow.rs\<close>: the context of a seed with its cache, its dataset and its idle machines, the choice between
  them, the self-test, and the threads that share them.  The RandomX library itself is a parameter: its
  documented contract is that a machine over a dataset filled from the cache of a seed computes what one
  over that cache does; whether an allocation succeeds is an input.  Threads are a step relation over a
  store of contexts, one step for each access to the shared state.  The lemmas: the slices of the dataset
  cover it, and an invariant that every context computes the hash of its seed.
\<close>

section \<open>The library\<close>

definition FLAG_LARGE_PAGES :: u32 where "FLAG_LARGE_PAGES = 1"
definition FLAG_FULL_MEM :: u32 where "FLAG_FULL_MEM = 4"
definition FLAG_JIT :: u32 where "FLAG_JIT = 8"

text \<open>The RandomX library: its flags, the number of dataset items, the hash of a machine over a cache, which
  depends on the seed the cache was filled from, and that of a machine over a dataset, which depends on
  what each of its items was computed from.\<close>

record randomx_library =
  rl_flags :: u32
  rl_items :: u64
  rl_hash :: "bytes \<Rightarrow> bytes \<Rightarrow> hash32"
  rl_dataset_hash :: "(nat \<Rightarrow> bytes option) \<Rightarrow> bytes \<Rightarrow> hash32"

datatype randomx_mode = RandomXLight | RandomXFast nat

datatype randomx_error =
    LibraryNotFound bytes
  | MissingSymbol bytes
  | CacheAllocation
  | DatasetAllocation
  | VmAllocation
  | SelfTest

text \<open>A machine keeps its flags and the memory it works on.\<close>

record vm =
  vm_flags :: u32
  vm_cache :: "bytes option"
  vm_dataset :: "(nat \<Rightarrow> bytes option) option"

definition calculate_hash :: "randomx_library \<Rightarrow> vm \<Rightarrow> bytes \<Rightarrow> hash32" where
  "calculate_hash L m input =
     (case vm_dataset m of
        Some dataset \<Rightarrow> rl_dataset_hash L dataset input
      | None \<Rightarrow> (case vm_cache m of Some seed \<Rightarrow> rl_hash L seed input | None \<Rightarrow> hash_zero))"

record randomx_context =
  cx_seed :: bytes
  cx_flags :: u32
  cx_cache :: bytes
  cx_dataset :: "(nat \<Rightarrow> bytes option) option"
  cx_idle_vms :: "vm list"

section \<open>Contexts\<close>

text \<open>The part of the dataset a thread fills, \<open>u64\<close> arithmetic as in the code.\<close>

definition slice_start :: "u64 \<Rightarrow> nat \<Rightarrow> nat \<Rightarrow> u64" where
  "slice_start items threads thread = items * word_of_nat thread div word_of_nat threads"

definition init_dataset :: "bytes \<Rightarrow> u64 \<Rightarrow> u64 \<Rightarrow> (nat \<Rightarrow> bytes option) \<Rightarrow> nat \<Rightarrow> bytes option" where
  "init_dataset cache start items dataset i =
     (if unat start \<le> i \<and> i < unat start + unat items then Some cache else dataset i)"

text \<open>The threads of the scope run in any order; \<open>order\<close> is the one they run in.\<close>

definition fill_dataset :: "u64 \<Rightarrow> nat \<Rightarrow> bytes \<Rightarrow> nat list \<Rightarrow> nat \<Rightarrow> bytes option" where
  "fill_dataset items threads cache order =
     fold (\<lambda>thread. init_dataset cache (slice_start items threads thread)
         (slice_start items threads (thread + 1) - slice_start items threads thread)) order (\<lambda>_. None)"

text \<open>\<open>Context::new\<close>; \<open>allocated\<close> says whether the cache and the dataset could be allocated.\<close>

definition context_new ::
    "randomx_library \<Rightarrow> bool \<times> bool \<Rightarrow> nat list \<Rightarrow> bytes \<Rightarrow> randomx_mode \<Rightarrow> randomx_error + randomx_context" where
  "context_new L allocated order seed mode =
     (let flags = rl_flags L AND NOT FLAG_FULL_MEM AND NOT FLAG_LARGE_PAGES in
      if \<not> fst allocated then Inl CacheAllocation
      else case mode of
        RandomXLight \<Rightarrow> Inr \<lparr>cx_seed = seed, cx_flags = flags, cx_cache = seed, cx_dataset = None, cx_idle_vms = []\<rparr>
      | RandomXFast initialization_threads \<Rightarrow>
          if \<not> snd allocated then Inl DatasetAllocation
          else Inr \<lparr>cx_seed = seed, cx_flags = flags OR FLAG_FULL_MEM, cx_cache = seed,
            cx_dataset = Some (fill_dataset (rl_items L) (max initialization_threads 1) seed order), cx_idle_vms = []\<rparr>)"

text \<open>\<open>create_vm\<close> returns null or a machine over the dataset, or the cache where there is none.\<close>

definition create_vm :: "bool \<Rightarrow> u32 \<Rightarrow> randomx_context \<Rightarrow> vm option" where
  "create_vm created flags c =
     (if created then Some \<lparr>vm_flags = flags, vm_cache = (if cx_dataset c = None then Some (cx_cache c) else None),
        vm_dataset = cx_dataset c\<rparr> else None)"

text \<open>\<open>Context::hash\<close>; \<open>created\<close> says which of the two attempts would succeed.  The idle machines are a
  stack, its top first.\<close>

definition context_hash ::
    "randomx_library \<Rightarrow> bool \<times> bool \<Rightarrow> bytes \<Rightarrow> randomx_context \<Rightarrow> (randomx_error + hash32) \<times> randomx_context" where
  "context_hash L created input c =
     (case (case cx_idle_vms c of
          m # idle \<Rightarrow> Some (m, idle)
        | [] \<Rightarrow>
            (case create_vm (fst created) (cx_flags c) c of
               Some m \<Rightarrow> Some (m, [])
             | None \<Rightarrow>
                 if cx_flags c AND FLAG_JIT \<noteq> 0
                 then map_option (\<lambda>m. (m, [])) (create_vm (snd created) (cx_flags c AND NOT FLAG_JIT) c)
                 else None)) of
        None \<Rightarrow> (Inl VmAllocation, c)
      | Some (m, idle) \<Rightarrow> (Inr (calculate_hash L m input), c\<lparr>cx_idle_vms := m # idle\<rparr>))"

definition TEST_KEY :: bytes where "TEST_KEY = ascii ''test key 000''"
definition TEST_INPUT :: bytes where "TEST_INPUT = ascii ''This is a test''"

text \<open>\<open>RandomX::load\<close> behind the search of the library: the self-test; \<open>expected\<close> is the fixed vector.\<close>

definition randomx_load ::
    "randomx_library \<Rightarrow> bool \<times> bool \<Rightarrow> bool \<times> bool \<Rightarrow> hash32 \<Rightarrow> randomx_error + randomx_context" where
  "randomx_load L allocated created expected =
     rbind (context_new L allocated [] TEST_KEY RandomXLight) (\<lambda>c.
     case context_hash L created TEST_INPUT c of
       (Inl e, _) \<Rightarrow> Inl e
     | (Inr h, c) \<Rightarrow> if h \<noteq> expected then Inl SelfTest else Inr c)"

section \<open>Threads\<close>

text \<open>The contexts that were ever published, the current one, the lock of the initialization, and where each
  thread is in \<open>calculate\<close>.  \<open>Answered\<close> logs what the calls returned.\<close>

datatype worker =
    Resting
  | Asking bytes
  | Locked bytes
  | Holding nat bytes

record randomx =
  rx_contexts :: "randomx_context list"
  rx_current :: nat
  rx_lock :: "nat option"
  rx_workers :: "nat \<Rightarrow> worker"
  rx_answers :: "(bytes \<times> bytes \<times> hash32) list"

definition current_context :: "randomx \<Rightarrow> randomx_context" where
  "current_context s = rx_contexts s ! rx_current s"

definition put_worker :: "nat \<Rightarrow> worker \<Rightarrow> randomx \<Rightarrow> randomx" where
  "put_worker t w s = s\<lparr>rx_workers := (rx_workers s)(t := w)\<rparr>"

definition randomx_start :: "randomx_context \<Rightarrow> randomx" where
  "randomx_start c = \<lparr>rx_contexts = [c], rx_current = 0, rx_lock = None, rx_workers = (\<lambda>_. Resting), rx_answers = []\<rparr>"

text \<open>One step of one thread: it asks for a seed, finds the context of that seed, or takes the lock, looks
  again, builds the context and publishes it unless one of that seed is there, or fails; then it hashes.\<close>

inductive randomx_step :: "randomx_library \<Rightarrow> randomx_mode \<Rightarrow> randomx \<Rightarrow> randomx \<Rightarrow> bool" for L mode where
  ask: "rx_workers s t = Resting \<Longrightarrow> randomx_step L mode s (put_worker t (Asking seed) s)"
| hit: "rx_workers s t = Asking seed \<Longrightarrow> cx_seed (current_context s) = seed \<Longrightarrow>
    randomx_step L mode s (put_worker t (Holding (rx_current s) seed) s)"
| lock: "rx_workers s t = Asking seed \<Longrightarrow> cx_seed (current_context s) \<noteq> seed \<Longrightarrow> rx_lock s = None \<Longrightarrow>
    randomx_step L mode s (put_worker t (Locked seed) (s\<lparr>rx_lock := Some t\<rparr>))"
| hit_again: "rx_workers s t = Locked seed \<Longrightarrow> cx_seed (current_context s) = seed \<Longrightarrow>
    randomx_step L mode s (put_worker t (Holding (rx_current s) seed) (s\<lparr>rx_lock := None\<rparr>))"
| build: "rx_workers s t = Locked seed \<Longrightarrow> cx_seed (current_context s) \<noteq> seed \<Longrightarrow>
    distinct order \<Longrightarrow> set order = {..< (case mode of RandomXLight \<Rightarrow> 0 | RandomXFast n \<Rightarrow> max n 1)} \<Longrightarrow>
    context_new L allocated order seed mode = Inr c \<Longrightarrow>
    s' = (if cx_seed (current_context s) \<noteq> seed
          then s\<lparr>rx_contexts := rx_contexts s @ [c], rx_current := length (rx_contexts s)\<rparr> else s) \<Longrightarrow>
    randomx_step L mode s (put_worker t (Holding (rx_current s') seed) (s'\<lparr>rx_lock := None\<rparr>))"
| build_fails: "rx_workers s t = Locked seed \<Longrightarrow> context_new L allocated order seed mode = Inl e \<Longrightarrow>
    randomx_step L mode s (put_worker t Resting (s\<lparr>rx_lock := None\<rparr>))"
| answer: "rx_workers s t = Holding k seed \<Longrightarrow> context_hash L created input (rx_contexts s ! k) = (Inr h, c) \<Longrightarrow>
    randomx_step L mode s (put_worker t Resting
      (s\<lparr>rx_contexts := (rx_contexts s)[k := c], rx_answers := (seed, input, h) # rx_answers s\<rparr>))"
| answer_fails: "rx_workers s t = Holding k seed \<Longrightarrow> context_hash L created input (rx_contexts s ! k) = (Inl e, c) \<Longrightarrow>
    randomx_step L mode s (put_worker t Resting s)"

inductive randomx_run :: "randomx_library \<Rightarrow> randomx_mode \<Rightarrow> hash32 \<Rightarrow> randomx \<Rightarrow> bool" for L mode expected where
  loaded: "randomx_load L allocated created expected = Inr c \<Longrightarrow> randomx_run L mode expected (randomx_start c)"
| stepped: "randomx_run L mode expected s \<Longrightarrow> randomx_step L mode s s' \<Longrightarrow> randomx_run L mode expected s'"

section \<open>The dataset is filled\<close>

text \<open>What the library documents: a machine over a dataset that was filled from the cache of a seed computes
  what one over that cache does.\<close>

definition randomx_documented :: "randomx_library \<Rightarrow> bool" where
  "randomx_documented L \<longleftrightarrow>
     (\<forall>dataset seed input. (\<forall>i < unat (rl_items L). dataset i = Some seed) \<longrightarrow> rl_dataset_hash L dataset input = rl_hash L seed input)"

lemma unat_slice_start:
  assumes "unat items * threads < 2 ^ 64" and "thread \<le> threads" and "0 < threads" and "0 < unat items"
  shows "unat (slice_start items threads thread) = unat items * thread div threads"
proof -
  have "unat items * thread \<le> unat items * threads" using assms(2) by simp
  then have p: "unat items * thread < 2 ^ 64" using assms(1) by linarith
  have "threads \<le> unat items * threads" using assms(4) by simp
  then have t: "threads < 2 ^ 64" using assms(1) by linarith
  have u: "unat (word_of_nat threads :: u64) = threads" "unat (word_of_nat thread :: u64) = thread"
    using t assms(2) by (simp_all add: unat_of_nat_lt)
  then have "unat (items * word_of_nat thread) = unat items * thread" using p by (simp add: unat_mult_exact)
  then show ?thesis by (simp add: slice_start_def unat_div u)
qed

lemma slices_cover:
  fixes threads n i :: nat
  assumes "0 < threads" and "i < n"
  shows "\<exists>thread < threads. n * thread div threads \<le> i \<and> i < n * (thread + 1) div threads"
proof -
  let ?P = "\<lambda>k. i < n * k div threads"
  have "?P threads" using assms by simp
  then obtain k where k: "?P k" and least: "\<And>j. j < k \<Longrightarrow> \<not> ?P j"
    using exists_least_iff [of ?P] by blast
  have "k \<noteq> 0" using k by (cases "k = 0") simp_all
  then obtain j where j: "k = Suc j" by (cases k) auto
  have "k \<le> threads" using \<open>?P threads\<close> least by (meson not_le)
  then show ?thesis using k least [of j] j by (intro exI [of _ j]) (simp add: not_less)
qed

lemma fold_init_dataset:
  "(\<exists>t \<in> set order. unat (start t) \<le> i \<and> i < unat (start t) + unat (amount t)) \<or> dataset i = Some cache \<Longrightarrow>
   fold (\<lambda>t. init_dataset cache (start t) (amount t)) order dataset i = Some cache"
proof (induction order arbitrary: dataset)
  case (Cons t order)
  have "(\<exists>t \<in> set order. unat (start t) \<le> i \<and> i < unat (start t) + unat (amount t))
      \<or> init_dataset cache (start t) (amount t) dataset i = Some cache"
    using Cons.prems by (auto simp: init_dataset_def)
  then show ?case using Cons.IH by simp
qed auto

lemma filled:
  assumes "unat items * threads < 2 ^ 64" and "0 < threads" and "set order = {..< threads}" and "i < unat items"
  shows "fill_dataset items threads cache order i = Some cache"
proof -
  let ?start = "slice_start items threads"
  obtain thread where t: "thread < threads" "unat items * thread div threads \<le> i" "i < unat items * (thread + 1) div threads"
    using slices_cover [OF assms(2,4)] by blast
  have s: "unat (?start thread) = unat items * thread div threads" "unat (?start (thread + 1)) = unat items * (thread + 1) div threads"
    using assms t(1) by (simp_all add: unat_slice_start del: add_0)
  have "unat (?start thread) \<le> unat (?start (thread + 1))" unfolding s by (rule div_le_mono) simp
  then have "unat (?start thread) + unat (?start (thread + 1) - ?start thread) = unat (?start (thread + 1))"
    by (simp add: unat_sub word_le_nat_alt)
  then have "unat (?start thread) \<le> i \<and> i < unat (?start thread) + unat (?start (thread + 1) - ?start thread)"
    using t s by simp
  then show ?thesis unfolding fill_dataset_def using t(1) assms(3) by (intro fold_init_dataset) blast
qed

section \<open>The invariant\<close>

text \<open>A machine or a context that computes the hash of its seed.\<close>

definition vm_ok :: "randomx_library \<Rightarrow> bytes \<Rightarrow> vm \<Rightarrow> bool" where
  "vm_ok L seed m \<longleftrightarrow>
     (case vm_dataset m of
        Some dataset \<Rightarrow> \<forall>i < unat (rl_items L). dataset i = Some seed
      | None \<Rightarrow> vm_cache m = Some seed)"

definition context_ok :: "randomx_library \<Rightarrow> randomx_context \<Rightarrow> bool" where
  "context_ok L c \<longleftrightarrow> cx_cache c = cx_seed c
     \<and> (\<forall>dataset. cx_dataset c = Some dataset \<longrightarrow> (\<forall>i < unat (rl_items L). dataset i = Some (cx_seed c)))
     \<and> (\<forall>m \<in> set (cx_idle_vms c). vm_ok L (cx_seed c) m)"

lemma vm_hash: "randomx_documented L \<Longrightarrow> vm_ok L seed m \<Longrightarrow> calculate_hash L m input = rl_hash L seed input"
  by (auto simp: vm_ok_def calculate_hash_def randomx_documented_def split: option.splits)

lemma create_vm_ok: "context_ok L c \<Longrightarrow> create_vm created flags c = Some m \<Longrightarrow> vm_ok L (cx_seed c) m"
  by (auto simp: create_vm_def vm_ok_def context_ok_def split: if_splits option.splits)

lemma context_hash_ok:
  assumes d: "randomx_documented L" and ok: "context_ok L c" and h: "context_hash L created input c = (r, c')"
  shows "context_ok L c'" "cx_seed c' = cx_seed c" "r = Inr x \<Longrightarrow> x = rl_hash L (cx_seed c) input"
proof -
  have m: "context_ok L (c\<lparr>cx_idle_vms := m # idle\<rparr>) \<and> calculate_hash L m input = rl_hash L (cx_seed c) input"
    if "vm_ok L (cx_seed c) m" "\<forall>m \<in> set idle. vm_ok L (cx_seed c) m" for m idle
    using that ok vm_hash [OF d that(1)] by (auto simp: context_ok_def)
  have "context_ok L c' \<and> cx_seed c' = cx_seed c \<and> (\<forall>x. r = Inr x \<longrightarrow> x = rl_hash L (cx_seed c) input)"
  proof (cases "cx_idle_vms c")
    case Nil
    then show ?thesis using h ok m [of _ "[]"] create_vm_ok [OF ok]
      by (auto simp: context_hash_def split: option.splits if_splits)
  next
    case (Cons v idle)
    then have "vm_ok L (cx_seed c) v" "\<forall>m \<in> set idle. vm_ok L (cx_seed c) m" using ok by (simp_all add: context_ok_def)
    then show ?thesis using h m Cons by (auto simp: context_hash_def)
  qed
  then show "context_ok L c'" "cx_seed c' = cx_seed c" "r = Inr x \<Longrightarrow> x = rl_hash L (cx_seed c) input" by simp_all
qed

text \<open>The threads of the initialization, and a dataset that is not too large for their arithmetic.\<close>

definition mode_threads :: "randomx_mode \<Rightarrow> nat" where
  "mode_threads mode = (case mode of RandomXLight \<Rightarrow> 0 | RandomXFast n \<Rightarrow> max n 1)"

definition mode_ok :: "randomx_library \<Rightarrow> randomx_mode \<Rightarrow> bool" where
  "mode_ok L mode \<longleftrightarrow> unat (rl_items L) * mode_threads mode < 2 ^ 64"

lemma context_new_ok:
  assumes "mode_ok L mode" and "set order = {..< mode_threads mode}" and "context_new L allocated order seed mode = Inr c"
  shows "context_ok L c" "cx_seed c = seed"
proof -
  have "context_ok L c \<and> cx_seed c = seed"
  proof (cases mode)
    case RandomXLight
    then show ?thesis using assms(3) by (auto simp: context_new_def Let_def context_ok_def split: if_splits)
  next
    case (RandomXFast n)
    have "fill_dataset (rl_items L) (max n 1) seed order i = Some seed" if "i < unat (rl_items L)" for i
      by (rule filled) (use assms(1,2) RandomXFast that in \<open>simp_all add: mode_ok_def mode_threads_def\<close>)
    then show ?thesis using assms(3) RandomXFast by (auto simp: context_new_def Let_def context_ok_def split: if_splits)
  qed
  then show "context_ok L c" "cx_seed c = seed" by simp_all
qed

lemma randomx_load_ok:
  assumes d: "randomx_documented L" and l: "randomx_load L allocated created expected = Inr c"
  shows "context_ok L c" "rl_hash L TEST_KEY TEST_INPUT = expected"
proof -
  obtain c0 where c0: "context_new L allocated [] TEST_KEY RandomXLight = Inr c0"
    using l by (auto simp: randomx_load_def rbind_Inr)
  have k: "context_ok L c0" "cx_seed c0 = TEST_KEY"
    using context_new_ok [OF _ _ c0] by (simp_all add: mode_ok_def mode_threads_def)
  have h: "context_hash L created TEST_INPUT c0 = (Inr expected, c)"
    using l c0 by (auto simp: randomx_load_def rbind_Inr split: prod.splits sum.splits if_splits)
  show "context_ok L c" "rl_hash L TEST_KEY TEST_INPUT = expected"
    using context_hash_ok [OF d k(1) h] k(2) by simp_all
qed

definition randomx_ok :: "randomx_library \<Rightarrow> randomx \<Rightarrow> bool" where
  "randomx_ok L s \<longleftrightarrow> rx_current s < length (rx_contexts s) \<and> (\<forall>c \<in> set (rx_contexts s). context_ok L c)
     \<and> (\<forall>t k seed. rx_workers s t = Holding k seed \<longrightarrow> k < length (rx_contexts s) \<and> cx_seed (rx_contexts s ! k) = seed)
     \<and> (\<forall>t seed. rx_workers s t = Locked seed \<longrightarrow> rx_lock s = Some t)
     \<and> (\<forall>(seed, input, h) \<in> set (rx_answers s). h = rl_hash L seed input)"

lemma put_worker_simps [simp]:
  "rx_contexts (put_worker t w s) = rx_contexts s" "rx_current (put_worker t w s) = rx_current s"
  "rx_lock (put_worker t w s) = rx_lock s" "rx_answers (put_worker t w s) = rx_answers s"
  "rx_workers (put_worker t w s) = (rx_workers s)(t := w)"
  by (simp_all add: put_worker_def)

lemma randomx_step_ok:
  assumes d: "randomx_documented L" and mode: "mode_ok L mode" and step: "randomx_step L mode s s'" and ok: "randomx_ok L s"
  shows "randomx_ok L s'"
proof -
  have one: "t = t'" if "rx_workers s t = Locked x" "rx_workers s t' = Locked y" for t t' x y
    using ok that by (auto simp: randomx_ok_def) (metis option.inject)
  from step show ?thesis
  proof cases
    case (build t seed order allocated c s1)
    have c: "context_ok L c" "cx_seed c = seed"
      using context_new_ok [OF mode _ build(6)] build(5) by (simp_all add: mode_threads_def)
    have s1: "s1 = s\<lparr>rx_contexts := rx_contexts s @ [c], rx_current := length (rx_contexts s)\<rparr>"
      using build(3,7) by simp
    have "rx_lock s = Some t" using ok build(2) by (auto simp: randomx_ok_def)
    then show ?thesis using ok c build(1,2) by (auto simp: randomx_ok_def s1 nth_append less_Suc_eq)
  next
    case (answer t k seed created input h c)
    have k: "k < length (rx_contexts s)" "cx_seed (rx_contexts s ! k) = seed" "context_ok L (rx_contexts s ! k)"
      using ok answer(2) by (auto simp: randomx_ok_def)
    note a = context_hash_ok [OF d k(3) answer(3)]
    have "cx_seed ((rx_contexts s)[k := c] ! j) = cx_seed (rx_contexts s ! j)" for j
      using k(1) a(2) by (cases "j = k") simp_all
    then show ?thesis using ok answer(1,2) a k(2) set_update_subset_insert [of "rx_contexts s" k c]
      by (auto simp: randomx_ok_def)
  qed (use ok one in \<open>auto simp: randomx_ok_def current_context_def\<close>)
qed

section \<open>Properties\<close>


text \<open>A library for the witness: its hash begins with the first byte of the seed and of the input.\<close>

definition sample_library :: randomx_library where
  "sample_library = \<lparr>rl_flags = 15, rl_items = 7,
     rl_hash = (\<lambda>seed input. array_of (take 1 seed @ take 1 input @ replicate 30 0)),
     rl_dataset_hash = (\<lambda>dataset input. array_of (take 1 (the (dataset 0)) @ take 1 input @ replicate 30 0))\<rparr>"

lemma sample_library_documented: "randomx_documented sample_library"
  by (auto simp: randomx_documented_def sample_library_def)


end
