(* ===== verification/Json.thy ===== *)
theory Json
  imports Complex_Main Rpc
begin

text \<open>
The JSON of the interface: \<open>serde\<close> on the consensus objects of \<open>src/consensus/types.rs\<close> with its module
  \<open>hex_vec\<close>, and on the hashes and addresses of \<open>src/crypto.rs\<close>.  The text of a value is the business of
  \<open>serde_json\<close>; a derived reader of a struct is written out over \<open>struct_of\<close>.  Two locales: a writer and a
  reader that inverts it, and a reader whose results keep the invariant of their type; every object of the
  interface interprets both.
\<close>

section \<open>Values\<close>

text \<open>\<open>serde_json::Value\<close>: the members of an object in the order of the text; an integer of the text stays
  an integer, any other number is the rational number it stands for.\<close>

datatype json =
    JNull
  | JBool bool
  | JInt int
  | JFloat rat
  | JText bytes
  | JArray "json list"
  | JObject "(bytes \<times> json) list"

definition json_object :: "(string \<times> json) list \<Rightarrow> json" where
  "json_object members = JObject (map (\<lambda>(name, v). (ascii name, v)) members)"

definition json_word :: "'a::len word \<Rightarrow> json" where
  "json_word w = JInt (uint w)"

definition json_nat :: "nat \<Rightarrow> json" where
  "json_nat k = JInt (int k)"

definition json_option :: "('a \<Rightarrow> json) \<Rightarrow> 'a option \<Rightarrow> json" where
  "json_option to_json x = (case x of None \<Rightarrow> JNull | Some v \<Rightarrow> to_json v)"

definition json_list :: "('a \<Rightarrow> json) \<Rightarrow> 'a list \<Rightarrow> json" where
  "json_list to_json xs = JArray (map to_json xs)"

section \<open>Reading values\<close>

definition word_of_json :: "json \<Rightarrow> 'a::len word option" where
  "word_of_json j =
     (case j of JInt i \<Rightarrow> if 0 \<le> i \<and> i < 2 ^ LENGTH('a) then Some (word_of_int i) else None | _ \<Rightarrow> None)"

definition usize_of_json :: "json \<Rightarrow> nat option" where
  "usize_of_json j = (case j of JInt i \<Rightarrow> if 0 \<le> i \<and> i < 2 ^ 64 then Some (nat i) else None | _ \<Rightarrow> None)"

definition text_of_json :: "json \<Rightarrow> bytes option" where
  "text_of_json j = (case j of JText s \<Rightarrow> Some s | _ \<Rightarrow> None)"

definition bool_of_json :: "json \<Rightarrow> bool option" where
  "bool_of_json j = (case j of JBool b \<Rightarrow> Some b | _ \<Rightarrow> None)"

fun map_all :: "('a \<Rightarrow> 'b option) \<Rightarrow> 'a list \<Rightarrow> 'b list option" where
  "map_all f [] = Some []"
| "map_all f (x # xs) =
     (case f x of None \<Rightarrow> None | Some y \<Rightarrow> (case map_all f xs of None \<Rightarrow> None | Some ys \<Rightarrow> Some (y # ys)))"

definition list_of_json :: "(json \<Rightarrow> 'a option) \<Rightarrow> json \<Rightarrow> 'a list option" where
  "list_of_json of_json j = (case j of JArray vs \<Rightarrow> map_all of_json vs | _ \<Rightarrow> None)"

text \<open>A derived \<open>Deserialize\<close> of a struct: its members by name, in any order, others ignored, none twice;
  or an array of all its members in the order of the declaration.\<close>

fun position :: "string \<Rightarrow> string list \<Rightarrow> nat option" where
  "position name [] = None"
| "position name (x # xs) = (if x = name then Some 0 else map_option Suc (position name xs))"

definition struct_of :: "string list \<Rightarrow> json \<Rightarrow> (string \<Rightarrow> json option) option" where
  "struct_of names j =
     (case j of
        JObject members \<Rightarrow>
          if list_all (\<lambda>name. length (filter (\<lambda>(k, _). k = ascii name) members) \<le> 1) names
          then Some (\<lambda>name. map_of members (ascii name)) else None
      | JArray vs \<Rightarrow>
          if length vs = length names then Some (\<lambda>name. map_option ((!) vs) (position name names)) else None
      | _ \<Rightarrow> None)"

definition member :: "(string \<Rightarrow> json option) \<Rightarrow> string \<Rightarrow> (json \<Rightarrow> 'a option) \<Rightarrow> 'a option" where
  "member s name of_json = Option.bind (s name) of_json"

text \<open>A member of a type \<open>Option\<close> may be missing or null.\<close>

definition optional_member ::
    "(string \<Rightarrow> json option) \<Rightarrow> string \<Rightarrow> (json \<Rightarrow> 'a option) \<Rightarrow> 'a option option" where
  "optional_member s name of_json =
     (case s name of None \<Rightarrow> Some None | Some JNull \<Rightarrow> Some None | Some v \<Rightarrow> map_option Some (of_json v))"

section \<open>Hashes, addresses and bytes\<close>

definition json_hash :: "prims \<Rightarrow> hash32 \<Rightarrow> json" where
  "json_hash E h = JText (hash_to_string E h)"

definition hash_of_json :: "prims \<Rightarrow> json \<Rightarrow> hash32 option" where
  "hash_of_json E j = Option.bind (text_of_json j) (\<lambda>s. case hash_from_str E s of Inr h \<Rightarrow> Some h | Inl _ \<Rightarrow> None)"

definition json_address :: "prims \<Rightarrow> address \<Rightarrow> json" where
  "json_address E a = JText (address_to_string E a)"

definition address_of_json :: "prims \<Rightarrow> json \<Rightarrow> address option" where
  "address_of_json E j =
     Option.bind (text_of_json j) (\<lambda>s. case address_from_str E s of Inr a \<Rightarrow> Some a | Inl _ \<Rightarrow> None)"

definition json_hex :: "prims \<Rightarrow> bytes \<Rightarrow> json" where
  "json_hex E bs = JText (hex_encode E bs)"

definition hex_of_json :: "prims \<Rightarrow> json \<Rightarrow> bytes option" where
  "hex_of_json E j =
     Option.bind (text_of_json j) (\<lambda>s.
       if odd (length s) \<or> list_ex (\<lambda>c. \<not> is_ascii_hexdigit c) s then None else hex_decode E s)"

section \<open>Consensus objects\<close>

definition json_transaction :: "prims \<Rightarrow> transaction \<Rightarrow> json" where
  "json_transaction E t = json_object
     [(''version'', json_word (tx_version t)), (''sender'', json_address E (tx_sender t)),
      (''recipient'', json_address E (tx_recipient t)), (''amount'', json_word (tx_amount t)),
      (''fee'', json_word (tx_fee t)), (''nonce'', json_word (tx_nonce t)),
      (''public_key'', json_hex E (tx_public_key t)), (''signature'', json_hex E (tx_signature t))]"

definition transaction_of_json :: "prims \<Rightarrow> json \<Rightarrow> transaction option" where
  "transaction_of_json E j =
     Option.bind (struct_of [''version'', ''sender'', ''recipient'', ''amount'', ''fee'', ''nonce'',
         ''public_key'', ''signature''] j) (\<lambda>s.
     Option.bind (member s ''version'' word_of_json) (\<lambda>version.
     Option.bind (member s ''sender'' (address_of_json E)) (\<lambda>sender.
     Option.bind (member s ''recipient'' (address_of_json E)) (\<lambda>recipient.
     Option.bind (member s ''amount'' word_of_json) (\<lambda>amount.
     Option.bind (member s ''fee'' word_of_json) (\<lambda>fee.
     Option.bind (member s ''nonce'' word_of_json) (\<lambda>nonce.
     Option.bind (member s ''public_key'' (hex_of_json E)) (\<lambda>public_key.
     Option.bind (member s ''signature'' (hex_of_json E)) (\<lambda>signature.
       Some \<lparr>tx_version = version, tx_sender = sender, tx_recipient = recipient, tx_amount = amount,
         tx_fee = fee, tx_nonce = nonce, tx_public_key = public_key, tx_signature = signature\<rparr>)))))))))"

definition json_claim :: "prims \<Rightarrow> reward_claim \<Rightarrow> json" where
  "json_claim E c = json_object
     [(''version'', json_word (rc_version c)), (''height'', json_word (rc_height c)),
      (''finder'', json_address E (rc_finder c)), (''amount'', json_word (rc_amount c)),
      (''extranonce'', json_word (rc_extranonce c))]"

definition claim_of_json :: "prims \<Rightarrow> json \<Rightarrow> reward_claim option" where
  "claim_of_json E j =
     Option.bind (struct_of [''version'', ''height'', ''finder'', ''amount'', ''extranonce''] j) (\<lambda>s.
     Option.bind (member s ''version'' word_of_json) (\<lambda>version.
     Option.bind (member s ''height'' word_of_json) (\<lambda>height.
     Option.bind (member s ''finder'' (address_of_json E)) (\<lambda>finder.
     Option.bind (member s ''amount'' word_of_json) (\<lambda>amount.
     Option.bind (member s ''extranonce'' word_of_json) (\<lambda>extranonce.
       Some \<lparr>rc_version = version, rc_height = height, rc_finder = finder, rc_amount = amount,
         rc_extranonce = extranonce\<rparr>))))))"

definition json_header :: "prims \<Rightarrow> block_header \<Rightarrow> json" where
  "json_header E h = json_object
     [(''version'', json_word (bh_version h)), (''protocol'', json_word (bh_protocol h)),
      (''height'', json_word (bh_height h)), (''previous_block'', json_hash E (bh_previous_block h)),
      (''transactions_root'', json_hash E (bh_transactions_root h)), (''state_root'', json_hash E (bh_state_root h)),
      (''workshare_root'', json_hash E (bh_workshare_root h)), (''timestamp'', json_word (bh_timestamp h)),
      (''bits'', json_word (bh_bits h)), (''nonce'', json_word (bh_nonce h))]"

definition header_of_json :: "prims \<Rightarrow> json \<Rightarrow> block_header option" where
  "header_of_json E j =
     Option.bind (struct_of [''version'', ''protocol'', ''height'', ''previous_block'', ''transactions_root'',
         ''state_root'', ''workshare_root'', ''timestamp'', ''bits'', ''nonce''] j) (\<lambda>s.
     Option.bind (member s ''version'' word_of_json) (\<lambda>version.
     Option.bind (member s ''protocol'' word_of_json) (\<lambda>protocol.
     Option.bind (member s ''height'' word_of_json) (\<lambda>height.
     Option.bind (member s ''previous_block'' (hash_of_json E)) (\<lambda>previous_block.
     Option.bind (member s ''transactions_root'' (hash_of_json E)) (\<lambda>transactions_root.
     Option.bind (member s ''state_root'' (hash_of_json E)) (\<lambda>state_root.
     Option.bind (member s ''workshare_root'' (hash_of_json E)) (\<lambda>workshare_root.
     Option.bind (member s ''timestamp'' word_of_json) (\<lambda>timestamp.
     Option.bind (member s ''bits'' word_of_json) (\<lambda>bits.
     Option.bind (member s ''nonce'' word_of_json) (\<lambda>nonce.
       Some \<lparr>bh_version = version, bh_protocol = protocol, bh_height = height,
         bh_previous_block = previous_block, bh_transactions_root = transactions_root,
         bh_state_root = state_root, bh_workshare_root = workshare_root, bh_timestamp = timestamp,
         bh_bits = bits, bh_nonce = nonce\<rparr>)))))))))))"

definition json_template :: "prims \<Rightarrow> block_template \<Rightarrow> json" where
  "json_template E t = json_object
     [(''version'', json_word (bt_version t)), (''height'', json_word (bt_height t)),
      (''parent'', json_hash E (bt_parent t)), (''transactions'', json_list (json_transaction E) (bt_transactions t))]"

definition template_of_json :: "prims \<Rightarrow> json \<Rightarrow> block_template option" where
  "template_of_json E j =
     Option.bind (struct_of [''version'', ''height'', ''parent'', ''transactions''] j) (\<lambda>s.
     Option.bind (member s ''version'' word_of_json) (\<lambda>version.
     Option.bind (member s ''height'' word_of_json) (\<lambda>height.
     Option.bind (member s ''parent'' (hash_of_json E)) (\<lambda>parent.
     Option.bind (member s ''transactions'' (list_of_json (transaction_of_json E))) (\<lambda>transactions.
       Some \<lparr>bt_version = version, bt_height = height, bt_parent = parent, bt_transactions = transactions\<rparr>)))))"

definition json_workshare :: "prims \<Rightarrow> workshare \<Rightarrow> json" where
  "json_workshare E s = json_object
     [(''version'', json_word (ws_version s)), (''previous_workshare'', json_hash E (ws_previous s)),
      (''template_id'', json_hash E (ws_template_id s)), (''miner'', json_address E (ws_miner s)),
      (''extranonce'', json_word (ws_extranonce s)), (''candidate_header'', json_header E (ws_candidate_header s))]"

definition workshare_of_json :: "prims \<Rightarrow> json \<Rightarrow> workshare option" where
  "workshare_of_json E j =
     Option.bind (struct_of [''version'', ''previous_workshare'', ''template_id'', ''miner'', ''extranonce'',
         ''candidate_header''] j) (\<lambda>s.
     Option.bind (member s ''version'' word_of_json) (\<lambda>version.
     Option.bind (member s ''previous_workshare'' (hash_of_json E)) (\<lambda>previous.
     Option.bind (member s ''template_id'' (hash_of_json E)) (\<lambda>template_id.
     Option.bind (member s ''miner'' (address_of_json E)) (\<lambda>miner.
     Option.bind (member s ''extranonce'' word_of_json) (\<lambda>extranonce.
     Option.bind (member s ''candidate_header'' (header_of_json E)) (\<lambda>candidate_header.
       Some \<lparr>ws_version = version, ws_previous = previous, ws_template_id = template_id, ws_miner = miner,
         ws_extranonce = extranonce, ws_candidate_header = candidate_header\<rparr>)))))))"

definition json_witness :: "prims \<Rightarrow> workshare_witness \<Rightarrow> json" where
  "json_witness E w = json_object
     [(''version'', json_word (ww_version w)), (''templates'', json_list (json_template E) (ww_templates w)),
      (''workshares'', json_list (json_workshare E) (ww_workshares w))]"

definition witness_of_json :: "prims \<Rightarrow> json \<Rightarrow> workshare_witness option" where
  "witness_of_json E j =
     Option.bind (struct_of [''version'', ''templates'', ''workshares''] j) (\<lambda>s.
     Option.bind (member s ''version'' word_of_json) (\<lambda>version.
     Option.bind (member s ''templates'' (list_of_json (template_of_json E))) (\<lambda>templates.
     Option.bind (member s ''workshares'' (list_of_json (workshare_of_json E))) (\<lambda>workshares.
       Some \<lparr>ww_version = version, ww_templates = templates, ww_workshares = workshares\<rparr>))))"

definition json_block :: "prims \<Rightarrow> block \<Rightarrow> json" where
  "json_block E b = json_object
     [(''header'', json_header E (blk_header b)), (''reward_claim'', json_option (json_claim E) (blk_reward_claim b)),
      (''transactions'', json_list (json_transaction E) (blk_transactions b)),
      (''workshare_witness'', json_witness E (blk_witness b))]"

definition block_of_json :: "prims \<Rightarrow> json \<Rightarrow> block option" where
  "block_of_json E j =
     Option.bind (struct_of [''header'', ''reward_claim'', ''transactions'', ''workshare_witness''] j) (\<lambda>s.
     Option.bind (member s ''header'' (header_of_json E)) (\<lambda>h.
     Option.bind (optional_member s ''reward_claim'' (claim_of_json E)) (\<lambda>claim.
     Option.bind (member s ''transactions'' (list_of_json (transaction_of_json E))) (\<lambda>transactions.
     Option.bind (member s ''workshare_witness'' (witness_of_json E)) (\<lambda>witness.
       Some \<lparr>blk_header = h, blk_reward_claim = claim, blk_transactions = transactions, blk_witness = witness\<rparr>)))))"

section \<open>What is written is read back\<close>

locale serde =
  fixes to_json :: "'a \<Rightarrow> json" and of_json :: "json \<Rightarrow> 'a option" and typed :: "'a \<Rightarrow> bool"
  assumes reads_back: "typed x \<Longrightarrow> of_json (to_json x) = Some x"
    and not_null: "to_json x \<noteq> JNull"
begin

lemma list_reads_back: "list_all typed xs \<Longrightarrow> list_of_json of_json (json_list to_json xs) = Some xs"
proof -
  have "list_all typed xs \<Longrightarrow> map_all of_json (map to_json xs) = Some xs"
    by (induction xs) (simp_all add: reads_back)
  then show "list_all typed xs \<Longrightarrow> list_of_json of_json (json_list to_json xs) = Some xs"
    by (simp add: list_of_json_def json_list_def)
qed

lemma option_reads_back:
  assumes "pred_option typed x" and "s name = Some (json_option to_json x)"
  shows "optional_member s name of_json = Some x"
proof (cases x)
  case (Some a)
  have r: "of_json (to_json a) = Some a" using assms(1) Some by (simp add: reads_back)
  show ?thesis using assms(2) Some not_null [of a] r
    by (cases "to_json a") (simp_all add: optional_member_def json_option_def)
qed (use assms in \<open>simp add: optional_member_def json_option_def\<close>)

lemma unique: "typed x \<Longrightarrow> typed y \<Longrightarrow> to_json x = to_json y \<Longrightarrow> x = y"
  using reads_back by (metis option.inject)

end

lemma ascii_eq_iff [simp]: "ascii s = ascii t \<longleftrightarrow> s = t"
proof -
  have u: "unat (of_char x :: u8) = of_char x" for x
    using unat_of_nat_lt [of "of_char x", where ?'a = 8] nat_of_char_less_256 [of x]
    unfolding of_nat_of_char by simp
  have "inj (of_char :: char \<Rightarrow> u8)"
  proof (rule injI)
    fix c d :: char assume "(of_char c :: u8) = of_char d"
    then have "unat (of_char c :: u8) = unat (of_char d :: u8)" by (rule arg_cong)
    then have "(of_char c :: nat) = of_char d" unfolding u .
    then show "c = d" by simp
  qed
  then show ?thesis unfolding ascii_def by (rule inj_map_eq_map)
qed

text \<open>The \<open>bs58\<close> crate: decoding inverts encoding.\<close>

definition bs58_crate :: "prims \<Rightarrow> bool" where
  "bs58_crate E \<longleftrightarrow> (\<forall>bs. bs58_decode E (bs58_encode E bs) = Some bs)"

lemma word_reads_back [simp]: "word_of_json (json_word w) = Some w"
  by (simp add: word_of_json_def json_word_def)

lemma hash_reads_back: "hex_crate E \<Longrightarrow> hash_of_json E (json_hash E h) = Some h"
  by (simp add: hash_of_json_def json_hash_def text_of_json_def hash_text_back)

lemma address_reads_back:
  assumes "address_ok E a" "bs58_crate E"
  shows "address_of_json E (json_address E a) = Some a"
  using assms
  by (simp add: address_of_json_def json_address_def text_of_json_def address_from_str_def address_to_string_def
      address_ok_def bs58_crate_def ok_or_def rbind_def)

lemma hex_reads_back:
  assumes "hex_crate E"
  shows "hex_of_json E (json_hex E bs) = Some bs"
proof -
  have "list_all is_ascii_hexdigit (hex_encode E bs)"
    using assms lowercase_hex(1) by (auto simp: hex_crate_def list_all_iff)
  then have "\<not> list_ex (\<lambda>c. \<not> is_ascii_hexdigit c) (hex_encode E bs)" by (auto simp: list_all_iff list_ex_iff)
  then show ?thesis using assms by (simp add: hex_of_json_def json_hex_def text_of_json_def hex_crate_def)
qed

text \<open>The crates the texts go through, and the addresses in an object.\<close>

definition text_crates :: "prims \<Rightarrow> bool" where
  "text_crates E \<longleftrightarrow> hex_crate E \<and> bs58_crate E"

definition template_addressed :: "prims \<Rightarrow> block_template \<Rightarrow> bool" where
  "template_addressed E t \<longleftrightarrow> list_all (transaction_ok E) (bt_transactions t)"

definition witness_addressed :: "prims \<Rightarrow> workshare_witness \<Rightarrow> bool" where
  "witness_addressed E w \<longleftrightarrow> list_all (template_addressed E) (ww_templates w)
     \<and> list_all (workshare_ok E) (ww_workshares w)"

definition block_addressed :: "prims \<Rightarrow> block \<Rightarrow> bool" where
  "block_addressed E b \<longleftrightarrow> pred_option (claim_ok E) (blk_reward_claim b)
     \<and> list_all (transaction_ok E) (blk_transactions b) \<and> witness_addressed E (blk_witness b)"

lemmas struct_simps = struct_of_def json_object_def member_def

lemmas crate_simps = text_crates_def address_reads_back hash_reads_back hex_reads_back

interpretation transaction_serde:
  serde "json_transaction E" "transaction_of_json E" "\<lambda>t. text_crates E \<and> transaction_ok E t"
  by unfold_locales
    (simp_all add: json_transaction_def transaction_of_json_def struct_simps crate_simps transaction_ok_def)

interpretation claim_serde: serde "json_claim E" "claim_of_json E" "\<lambda>c. text_crates E \<and> claim_ok E c"
  by unfold_locales (simp_all add: json_claim_def claim_of_json_def struct_simps crate_simps claim_ok_def)

interpretation header_serde: serde "json_header E" "header_of_json E" "\<lambda>_. text_crates E"
  by unfold_locales (simp_all add: json_header_def header_of_json_def struct_simps crate_simps)

lemma list_all_crates [simp]: "text_crates E \<Longrightarrow> list_all (\<lambda>x. text_crates E \<and> P x) xs = list_all P xs"
  by simp

interpretation template_serde:
  serde "json_template E" "template_of_json E" "\<lambda>t. text_crates E \<and> template_addressed E t"
proof
  fix t assume t: "text_crates E \<and> template_addressed E t"
  then have "list_of_json (transaction_of_json E) (json_list (json_transaction E) (bt_transactions t)) = Some (bt_transactions t)"
    by (intro transaction_serde.list_reads_back) (simp add: template_addressed_def)
  then show "template_of_json E (json_template E t) = Some t"
    using t by (simp add: json_template_def template_of_json_def struct_simps crate_simps)
qed (simp add: json_template_def json_object_def)

interpretation workshare_serde:
  serde "json_workshare E" "workshare_of_json E" "\<lambda>s. text_crates E \<and> workshare_ok E s"
  by unfold_locales
    (use header_serde.reads_back in \<open>simp_all add: json_workshare_def workshare_of_json_def struct_simps crate_simps workshare_ok_def\<close>)

interpretation witness_serde:
  serde "json_witness E" "witness_of_json E" "\<lambda>w. text_crates E \<and> witness_addressed E w"
proof
  fix w assume w: "text_crates E \<and> witness_addressed E w"
  then have "list_of_json (template_of_json E) (json_list (json_template E) (ww_templates w)) = Some (ww_templates w)"
    by (intro template_serde.list_reads_back) (simp add: witness_addressed_def)
  moreover have "list_of_json (workshare_of_json E) (json_list (json_workshare E) (ww_workshares w)) = Some (ww_workshares w)"
    using w by (intro workshare_serde.list_reads_back) (simp add: witness_addressed_def)
  ultimately show "witness_of_json E (json_witness E w) = Some w"
    by (simp add: json_witness_def witness_of_json_def struct_simps)
qed (simp add: json_witness_def json_object_def)

interpretation block_serde: serde "json_block E" "block_of_json E" "\<lambda>b. text_crates E \<and> block_addressed E b"
proof
  fix b assume b: "text_crates E \<and> block_addressed E b"
  then have t: "list_of_json (transaction_of_json E) (json_list (json_transaction E) (blk_transactions b)) = Some (blk_transactions b)"
    by (intro transaction_serde.list_reads_back) (simp add: block_addressed_def)
  have c: "s ''reward_claim'' = Some (json_option (json_claim E) (blk_reward_claim b)) \<Longrightarrow>
      optional_member s ''reward_claim'' (claim_of_json E) = Some (blk_reward_claim b)" for s
    using b by (intro claim_serde.option_reads_back) (simp_all add: block_addressed_def option.pred_set)
  have w: "witness_of_json E (json_witness E (blk_witness b)) = Some (blk_witness b)"
    using b by (intro witness_serde.reads_back) (simp add: block_addressed_def)
  show "block_of_json E (json_block E b) = Some b"
    using b t w header_serde.reads_back [of E] by (simp add: json_block_def block_of_json_def struct_simps c)
qed (simp add: json_block_def json_object_def)

section \<open>What is read is typed\<close>

text \<open>A text that is no address is no address in an object either.\<close>

locale typed_reader =
  fixes of_json :: "json \<Rightarrow> 'a option" and typed :: "'a \<Rightarrow> bool"
  assumes read_typed: "of_json j = Some x \<Longrightarrow> typed x"
begin

lemma list_typed: "list_of_json of_json j = Some xs \<Longrightarrow> list_all typed xs"
proof -
  have "map_all of_json vs = Some xs \<Longrightarrow> list_all typed xs" for vs
    by (induction vs arbitrary: xs) (auto split: option.splits dest: read_typed)
  then show "list_of_json of_json j = Some xs \<Longrightarrow> list_all typed xs"
    by (cases j) (auto simp: list_of_json_def)
qed

lemma option_typed: "optional_member s name of_json = Some x \<Longrightarrow> pred_option typed x"
  by (auto simp: optional_member_def option.pred_set split: option.splits json.splits dest: read_typed)

end

lemma address_from_str_ok: "address_from_str E s = Inr a \<Longrightarrow> address_ok E a"
  by (auto simp: address_from_str_def rbind_Inr address_ok_def address_from_bytes_def Let_def split: if_splits)

lemma address_read:
  assumes "address_of_json E j = Some a"
  shows "address_ok E a"
proof -
  obtain s where "(case address_from_str E s of Inr a \<Rightarrow> Some a | Inl _ \<Rightarrow> None) = Some a"
    using assms by (auto simp: address_of_json_def bind_eq_Some_conv)
  then show ?thesis using address_from_str_ok by (auto split: sum.splits)
qed

lemmas reader_simps = bind_eq_Some_conv member_def

interpretation transaction_reader: typed_reader "transaction_of_json E" "transaction_ok E"
  by unfold_locales (auto simp: transaction_of_json_def reader_simps transaction_ok_def dest!: address_read)

interpretation claim_reader: typed_reader "claim_of_json E" "claim_ok E"
  by unfold_locales (auto simp: claim_of_json_def reader_simps claim_ok_def dest!: address_read)

interpretation template_reader: typed_reader "template_of_json E" "template_addressed E"
  by unfold_locales
    (auto simp: template_of_json_def reader_simps template_addressed_def dest!: transaction_reader.list_typed)

interpretation workshare_reader: typed_reader "workshare_of_json E" "workshare_ok E"
  by unfold_locales (auto simp: workshare_of_json_def reader_simps workshare_ok_def dest!: address_read)

interpretation witness_reader: typed_reader "witness_of_json E" "witness_addressed E"
  by unfold_locales
    (auto simp: witness_of_json_def reader_simps witness_addressed_def
      dest!: template_reader.list_typed workshare_reader.list_typed)

interpretation block_reader: typed_reader "block_of_json E" "block_addressed E"
  by unfold_locales
    (auto simp: block_of_json_def reader_simps block_addressed_def
      dest!: transaction_reader.list_typed claim_reader.option_typed witness_reader.read_typed)

end
