(* ===== verification/Binding.thy ===== *)
theory Binding
  imports Node_Properties
begin

text \<open>
What the identifier of a block commits to.  The header holds the identifier of the parent and the
  roots of the transactions and of the witness, so two valid chains that end with the same
  identifier are the same list of blocks with the same ledger, unless two different byte strings
  among those hashed on the way have the same double SHA-256.  The set of those strings is written
  out (\<open>chain_inputs\<close>), since collisions of some strings exist for every hash function.  The Merkle
  tree of \<open>src/consensus/types.rs\<close> repeats the last hash of an odd level, which lets lists of
  different lengths share a root (\<open>merkle_root_padding\<close>); \<open>merkle_root_fixes\<close> shows that distinct
  leaves, and the rules admit no others, are fixed by the root all the same.  With the fork choice of
  \<open>src/consensus/chain.rs\<close> it follows that nodes that hear of the same chains agree.
\<close>

section \<open>Roots of different shapes\<close>

text \<open>The number of levels above a list of leaves.\<close>

fun merkle_depth :: "nat \<Rightarrow> nat" where
  "merkle_depth n = (if 1 < n then Suc (merkle_depth ((n + 1) div 2)) else 0)"

declare merkle_depth.simps [simp del]

definition merkle_ancestor :: "prims \<Rightarrow> nat \<Rightarrow> hash32 list \<Rightarrow> hash32 list" where
  "merkle_ancestor E k = (merkle_level E ^^ k)"

lemma merkle_ancestor_simps [simp]:
  "merkle_ancestor E 0 xs = xs"
  "merkle_ancestor E (Suc k) xs = merkle_level E (merkle_ancestor E k xs)"
  by (simp_all add: merkle_ancestor_def)

lemma merkle_ancestor_level: "merkle_ancestor E k (merkle_level E xs) = merkle_level E (merkle_ancestor E k xs)"
  by (induction k) simp_all

lemma merkle_level_eq: "merkle_level E xs = map (\<lambda>(l, r). merkle_node E l r) (merkle_pairs xs)"
  by (simp add: merkle_level_def merkle_pairs_def Let_def)

lemma depth_level: "1 < length xs \<Longrightarrow>
    merkle_depth (length xs) = Suc (merkle_depth (length (merkle_level E xs)))"
  by (subst merkle_depth.simps) (simp add: length_merkle_level)

lemma depth_0: "merkle_depth (length xs) = 0 \<longleftrightarrow> length xs \<le> 1"
  by (subst merkle_depth.simps) simp

lemma merkle_level_Nil [simp]: "merkle_level E xs = [] \<longleftrightarrow> xs = []"
  by (cases xs rule: chunks2.cases) (simp_all add: merkle_level_eq merkle_pairs_def)

lemma depth_ancestor:
  "k \<le> merkle_depth (length xs) \<Longrightarrow>
    merkle_depth (length (merkle_ancestor E k xs)) = merkle_depth (length xs) - k"
proof (induction k)
  case (Suc k)
  then have "1 < length (merkle_ancestor E k xs)" using depth_0 [of "merkle_ancestor E k xs"] by simp
  from depth_level [OF this, of E] Suc show ?case by simp
qed simp

lemma merkle_inputs_level: "1 < length xs \<Longrightarrow>
    merkle_inputs E xs = set (merkle_pairs xs) \<union> merkle_inputs E (merkle_level E xs)"
  by (subst merkle_inputs.simps) simp

lemma ancestor_inputs:
  "k < merkle_depth (length xs) \<Longrightarrow> set (merkle_pairs (merkle_ancestor E k xs)) \<subseteq> merkle_inputs E xs"
proof (induction k arbitrary: xs)
  case 0
  then have "1 < length xs" using depth_0 [of xs] by simp
  then show ?case by (simp add: merkle_inputs_level)
next
  case (Suc k)
  then have l: "1 < length xs" using depth_0 [of xs] by auto
  with Suc.IH [of "merkle_level E xs"] Suc.prems show ?case
    by (auto simp: merkle_inputs_level depth_level [OF l, of E] merkle_ancestor_level)
qed

lemma merkle_pairs_head: "1 < length xs \<Longrightarrow> \<exists>r ps. merkle_pairs xs = (hd xs, r) # ps"
  by (cases xs rule: chunks2.cases) (auto simp: merkle_pairs_def)

lemma root_ancestor: "xs \<noteq> [] \<Longrightarrow> merkle_loop E xs = hd (merkle_ancestor E (merkle_depth (length xs)) xs)"
proof (induction E xs rule: merkle_loop.induct)
  case (1 E xs)
  show ?case
  proof (cases "1 < length xs")
    case True
    then have "merkle_loop E xs = merkle_loop E (merkle_level E xs)" by (subst merkle_loop.simps) simp
    then show ?thesis using 1 True by (simp add: depth_level [OF True, of E] merkle_ancestor_level)
  next
    case False
    then show ?thesis using 1(2) by (subst merkle_loop.simps) (simp add: depth_0 [THEN iffD2] hd_conv_nth)
  qed
qed

text \<open>When the nodes do not collide, lists with the same root agree in their first hashes, at the
  levels that are as far from the root.\<close>

abbreviation node_hash :: "prims \<Rightarrow> hash32 \<times> hash32 \<Rightarrow> hash32" where
  "node_hash E \<equiv> \<lambda>(l, r). merkle_node E l r"

lemma same_first:
  assumes "inj_on (node_hash E) M" and "merkle_inputs E xs \<union> merkle_inputs E ys \<subseteq> M"
    and "xs \<noteq> []" "ys \<noteq> []" and "merkle_loop E xs = merkle_loop E ys"
    and "merkle_depth (length ys) = merkle_depth (length xs) + k"
  shows "hd xs = hd (merkle_ancestor E k ys)"
  using assms
proof (induction E xs arbitrary: ys rule: merkle_loop.induct)
  case (1 E xs)
  let ?a = "merkle_ancestor E k ys"
  show ?case
  proof (cases "1 < length xs")
    case True
    note dx = depth_level [OF True, of E]
    have ly: "1 < length ys" "k < merkle_depth (length ys)"
      using "1.prems"(6) dx depth_0 [of ys] by auto
    have la: "1 < length ?a"
      using depth_ancestor [of k ys E] ly(2) depth_0 [of ?a] by auto
    have "hd (merkle_level E xs) = hd (merkle_ancestor E k (merkle_level E ys))"
    proof (rule "1.IH" [OF True "1.prems"(1)])
      show "merkle_inputs E (merkle_level E xs) \<union> merkle_inputs E (merkle_level E ys) \<subseteq> M"
        using "1.prems"(2) True ly(1) by (auto simp: merkle_inputs_level)
      show "merkle_loop E (merkle_level E xs) = merkle_loop E (merkle_level E ys)"
        using "1.prems"(5) True ly(1) by (subst (asm) (1 2) merkle_loop.simps) simp
      show "merkle_depth (length (merkle_level E ys)) = merkle_depth (length (merkle_level E xs)) + k"
        using "1.prems"(6) dx depth_level [OF ly(1), of E] by simp
    qed (use "1.prems" in auto)
    then have eq: "hd (merkle_level E xs) = hd (merkle_level E ?a)" by (simp add: merkle_ancestor_level)
    obtain r ps r' ps' where p: "merkle_pairs xs = (hd xs, r) # ps" "merkle_pairs ?a = (hd ?a, r') # ps'"
      using merkle_pairs_head [OF True] merkle_pairs_head [OF la] by blast
    have "(hd xs, r) \<in> M" "(hd ?a, r') \<in> M"
      using p "1.prems"(2) ancestor_inputs [OF ly(2), of E] merkle_inputs_level [OF True, of E] by auto
    moreover have "node_hash E (hd xs, r) = node_hash E (hd ?a, r')" using eq p by (simp add: merkle_level_eq)
    ultimately have "(hd xs, r) = (hd ?a, r')" using inj_onD [OF "1.prems"(1)] by metis
    then show ?thesis by simp
  next
    case False
    then have "merkle_depth (length xs) = 0" by (simp add: depth_0)
    then show ?thesis using root_ancestor [OF "1.prems"(3), of E] root_ancestor [OF "1.prems"(4), of E] "1.prems"(5,6)
      by simp
  qed
qed

text \<open>The pairs of distinct hashes are distinct, and they determine the hashes.\<close>

lemma chunks2_fst: "set (map fst (chunks2 xs)) \<subseteq> set xs"
  by (induction xs rule: chunks2.induct) auto

lemma chunks2_distinct: "distinct xs \<Longrightarrow> distinct (map fst (chunks2 xs))"
  using chunks2_fst by (induction xs rule: chunks2.induct) fastforce+

lemma chunks2_last: "distinct xs \<Longrightarrow> odd (length xs) \<Longrightarrow> last xs \<notin> set (map fst (chunks2 xs))"
  by (induction xs rule: chunks2.induct) (auto split: if_splits)

lemma chunks2_snoc: "odd (length xs) \<Longrightarrow> map fst (chunks2 (xs @ [x])) = map fst (chunks2 xs) @ [last xs]"
  by (induction xs rule: chunks2.induct) auto

lemma merkle_pairs_distinct:
  assumes "distinct xs"
  shows "distinct (merkle_pairs xs)"
proof -
  let ?firsts = "if odd (length xs) then map fst (chunks2 xs) @ [last xs] else map fst (chunks2 xs)"
  have "map fst (merkle_pairs xs) = ?firsts"
    by (simp add: merkle_pairs_def chunks2_snoc odd_iff_mod_2_eq_one)
  moreover have "last xs \<notin> set (map fst (chunks2 xs))" if "odd (length xs)"
    using assms that by (rule chunks2_last)
  ultimately have "distinct (map fst (merkle_pairs xs))" using chunks2_distinct [OF assms] by auto
  then show ?thesis by (simp add: distinct_map)
qed

lemma merkle_pairs_inject:
  assumes "distinct xs" "distinct ys" and "merkle_pairs xs = merkle_pairs ys"
  shows "xs = ys"
proof -
  let ?pad = "\<lambda>l :: hash32 list. if length l mod 2 = 1 then l @ [last l] else l"
  have even: "even (length (?pad l))" for l by (simp add: odd_iff_mod_2_eq_one) presburger
  have "length (chunks2 (?pad xs)) = length (chunks2 (?pad ys))"
    using assms(3) by (simp only: merkle_pairs_def)
  then have "length (?pad xs) = length (?pad ys)"
    using even [of xs] even [of ys] unfolding length_chunks2 by (metis even_two_times_div_two)
  then have pad: "?pad xs = ?pad ys"
    using even [of xs] assms(3) unfolding merkle_pairs_def by (rule chunks2_inject)
  have dup: "distinct (?pad l) \<longleftrightarrow> length l mod 2 \<noteq> 1" if "distinct l" for l
    using that by (cases l rule: rev_cases) auto
  have "length xs mod 2 \<noteq> 1 \<longleftrightarrow> length ys mod 2 \<noteq> 1"
    using dup [OF assms(1)] dup [OF assms(2)] pad by simp
  then show ?thesis using pad by (simp split: if_splits)
qed

text \<open>So distinct leaves are fixed by their root, if no leaf is a node.\<close>

lemma merkle_loop_fixes:
  assumes "inj_on (node_hash E) M" and "merkle_inputs E xs \<union> merkle_inputs E ys \<subseteq> M"
    and "xs \<noteq> []" "ys \<noteq> []" and "merkle_loop E xs = merkle_loop E ys"
    and "distinct xs" "distinct ys" and "merkle_depth (length ys) = merkle_depth (length xs)"
  shows "xs = ys"
  using assms
proof (induction E xs arbitrary: ys rule: merkle_loop.induct)
  case (1 E xs)
  show ?case
  proof (cases "1 < length xs")
    case True
    note dx = depth_level [OF True, of E]
    have ly: "1 < length ys" using "1.prems"(8) dx depth_0 [of ys] by auto
    note inp = merkle_inputs_level [OF True, of E] merkle_inputs_level [OF ly, of E]
    have in_M: "inj_on (node_hash E) (set (merkle_pairs zs))" if "zs \<in> {xs, ys}" for zs
      using that "1.prems"(2) inp by (intro inj_on_subset [OF "1.prems"(1)]) auto
    have d: "distinct (merkle_level E zs)" if "zs \<in> {xs, ys}" for zs
      unfolding merkle_level_eq distinct_map using in_M [OF that] that "1.prems"(6,7) merkle_pairs_distinct by auto
    have "merkle_level E xs = merkle_level E ys"
    proof (rule "1.IH" [OF True "1.prems"(1)])
      show "merkle_inputs E (merkle_level E xs) \<union> merkle_inputs E (merkle_level E ys) \<subseteq> M"
        using "1.prems"(2) inp by auto
      show "merkle_loop E (merkle_level E xs) = merkle_loop E (merkle_level E ys)"
        using "1.prems"(5) True ly by (subst (asm) (1 2) merkle_loop.simps) simp
      show "merkle_depth (length (merkle_level E ys)) = merkle_depth (length (merkle_level E xs))"
        using "1.prems"(8) dx depth_level [OF ly, of E] by simp
    qed (use "1.prems"(3,4) d in auto)
    then have "merkle_pairs xs = merkle_pairs ys"
      unfolding merkle_level_eq
      by (rule map_inj_on) (use "1.prems"(2) inp in \<open>intro inj_on_subset [OF "1.prems"(1)], auto\<close>)
    then show ?thesis using "1.prems"(6,7) by (intro merkle_pairs_inject)
  next
    case False
    then have "length xs \<le> 1" "length ys \<le> 1" using "1.prems"(8) depth_0 [of xs] depth_0 [of ys] by auto
    then obtain x y where "xs = [x]" "ys = [y]"
      using "1.prems"(3,4) by (cases xs; cases ys) auto
    then show ?thesis using "1.prems"(5) by (simp add: merkle_loop.simps)
  qed
qed

theorem merkle_root_fixes:
  assumes inj: "inj_on (node_hash E) M" and inp: "merkle_inputs E xs \<union> merkle_inputs E ys \<subseteq> M"
    and ne: "xs \<noteq> []" "ys \<noteq> []" and eq: "merkle_root E xs = merkle_root E ys"
    and d: "distinct xs" "distinct ys" and leaf: "node_hash E ` M \<inter> (set xs \<union> set ys) = {}"
  shows "xs = ys"
proof -
  have depth: "merkle_depth (length ys) \<le> merkle_depth (length xs)"
    if "merkle_inputs E xs \<union> merkle_inputs E ys \<subseteq> M" "xs \<noteq> []" "ys \<noteq> []" "merkle_loop E xs = merkle_loop E ys"
      "node_hash E ` M \<inter> set xs = {}" for xs ys
  proof (rule ccontr)
    assume "\<not> ?thesis"
    then obtain k where k: "merkle_depth (length ys) = merkle_depth (length xs) + Suc k"
      by (metis add_Suc_right less_iff_Suc_add not_less)
    have "1 < length (merkle_ancestor E k ys)"
      using depth_ancestor [of k ys E] k depth_0 [of "merkle_ancestor E k ys"] by auto
    then obtain p ps where p: "merkle_pairs (merkle_ancestor E k ys) = p # ps"
      using merkle_pairs_head by blast
    then have "p \<in> M" using ancestor_inputs [of k ys E] k that(1) by auto
    moreover have "hd xs = node_hash E p"
      using same_first [OF inj that(1-4) k] p by (simp add: merkle_level_eq)
    ultimately show False using that(5) hd_in_set [OF that(2)] by blast
  qed
  have "merkle_loop E xs = merkle_loop E ys" using eq ne by (simp add: merkle_root_def)
  then show ?thesis
    using merkle_loop_fixes [OF inj inp ne _ d] depth [OF inp ne] depth [OF _ ne(2,1)] inp leaf
    by (simp add: Int_Un_distrib Un_commute)
qed

section \<open>What a block identifier hashes\<close>

definition preimage :: "string \<Rightarrow> bytes \<Rightarrow> bytes" where
  "preimage tag data = to_le_bytes (word_of_nat (length (ascii tag)) :: u32) @ ascii tag
     @ to_le_bytes (word_of_nat (length data) :: u64) @ data"

lemma domain_hash_preimage: "domain_hash E (ascii tag) data = sha256d E (preimage tag data)"
  by (simp add: domain_hash_def sha256d_def preimage_def)

lemma ascii_length [simp]: "length (ascii s) = length s"
  by (simp add: ascii_def)

lemma preimage_inject:
  "preimage tag data = preimage tag data' \<longleftrightarrow> data = data'"
  by (auto simp: preimage_def append_eq_append_conv)

lemma preimage_tags:
  assumes "length tag \<noteq> length tag'" "length tag < 2 ^ 32" "length tag' < 2 ^ 32"
  shows "preimage tag data \<noteq> preimage tag' data'"
proof
  assume "preimage tag data = preimage tag' data'"
  then have "(to_le_bytes (word_of_nat (length tag) :: u32)) = to_le_bytes (word_of_nat (length tag') :: u32)"
    by (simp add: preimage_def append_eq_append_conv)
  from arg_cong [OF this, of "from_le_bytes :: bytes \<Rightarrow> u32"]
  have "(word_of_nat (length tag) :: u32) = word_of_nat (length tag')"
    by (simp add: from_to_le_bytes)
  then have "unat (word_of_nat (length tag) :: u32) = unat (word_of_nat (length tag') :: u32)" by simp
  then show False using assms by (simp add: unat_of_nat)
qed

definition NODE_TAG :: string where "NODE_TAG = ''PARITR-P9-MERKLE-NODE-v1''"
definition CLAIM_TAG :: string where "CLAIM_TAG = ''PARITR-P9-REWARD-CLAIM-v1''"
definition TX_TAG :: string where "TX_TAG = ''PARITR-P9-TXID-v1''"
definition WITNESS_TAG :: string where "WITNESS_TAG = ''PARITR-P9-WORKSHARE-WITNESS-v1''"

lemmas tag_defs = NODE_TAG_def CLAIM_TAG_def TX_TAG_def WITNESS_TAG_def

lemma tags_apart [simp]:
  "preimage CLAIM_TAG x \<noteq> preimage NODE_TAG y" "preimage TX_TAG x \<noteq> preimage NODE_TAG y"
  "preimage CLAIM_TAG x \<noteq> preimage TX_TAG y"
  by (rule preimage_tags; simp add: tag_defs)+

lemma hashed_forms:
  "merkle_node E l r = sha256d E (preimage NODE_TAG (array_bytes l @ array_bytes r))"
  "claim_id E c = sha256d E (preimage CLAIM_TAG (claim_enc c))"
  "transaction_id E t = sha256d E (preimage TX_TAG (transaction_enc t))"
  "witness_root E w = sha256d E (preimage WITNESS_TAG (witness_enc w))"
  by (simp_all add: merkle_node_def claim_id_def transaction_id_def witness_root_def
      domain_hash_preimage tag_defs)

text \<open>What is hashed for the identifier of a block and for the roots in its header.\<close>

lemma map_eq_same:
  "map f xs = map f ys \<Longrightarrow> (\<And>x y. f x = f y \<Longrightarrow> x \<in> set xs \<Longrightarrow> y \<in> set ys \<Longrightarrow> x = y) \<Longrightarrow> xs = ys"
proof (induction xs arbitrary: ys)
  case (Cons x xs)
  then obtain y ys' where y: "ys = y # ys'" "f x = f y" "map f xs = map f ys'" by auto
  moreover have "x = y" using Cons.prems(2) y by simp
  moreover have "xs = ys'" using y(1) Cons.prems(2) by (intro Cons.IH [OF y(3)]) simp
  ultimately show ?case by simp
qed simp

definition leaf_ids :: "prims \<Rightarrow> block \<Rightarrow> hash32 list" where
  "leaf_ids E b = (case blk_reward_claim b of Some claim \<Rightarrow> [claim_id E claim] | None \<Rightarrow> [])
     @ map (transaction_id E) (blk_transactions b)"

definition block_inputs :: "prims \<Rightarrow> block \<Rightarrow> bytes set" where
  "block_inputs E b = {header_enc (blk_header b), preimage WITNESS_TAG (witness_enc (blk_witness b))}
     \<union> (\<lambda>c. preimage CLAIM_TAG (claim_enc c)) ` set_option (blk_reward_claim b)
     \<union> (\<lambda>t. preimage TX_TAG (transaction_enc t)) ` set (blk_transactions b)
     \<union> (\<lambda>(l, r). preimage NODE_TAG (array_bytes l @ array_bytes r)) ` merkle_inputs E (leaf_ids E b)"

definition chain_inputs :: "prims \<Rightarrow> block list \<Rightarrow> bytes set" where
  "chain_inputs E hist = (\<Union>b \<in> set hist. block_inputs E b)"

text \<open>What the checks of a block establish about the roots.\<close>

definition block_sealed :: "prims \<Rightarrow> block \<Rightarrow> bool" where
  "block_sealed E b \<longleftrightarrow> block_wf E b \<and> blk_reward_claim b \<noteq> None
     \<and> block_transaction_root E b = bh_transactions_root (blk_header b)
     \<and> witness_root E (blk_witness b) = bh_workshare_root (blk_header b)
     \<and> distinct (map (transaction_id E) (blk_transactions b))"

lemma leaf_ids_hashed:
  assumes "x \<in> set (leaf_ids E b)"
  shows "\<exists>tag data. x = sha256d E (preimage tag data) \<and> preimage tag data \<in> block_inputs E b
    \<and> (\<forall>y. preimage tag data \<noteq> preimage NODE_TAG y)"
proof -
  consider c where "blk_reward_claim b = Some c" "x = claim_id E c"
    | t where "t \<in> set (blk_transactions b)" "x = transaction_id E t"
    using assms by (cases "blk_reward_claim b") (auto simp: leaf_ids_def)
  then show ?thesis
  proof cases
    case 1
    then show ?thesis
      by (intro exI [of _ CLAIM_TAG] exI [of _ "claim_enc c"]) (auto simp: hashed_forms block_inputs_def)
  next
    case 2
    then show ?thesis
      by (intro exI [of _ TX_TAG] exI [of _ "transaction_enc t"]) (auto simp: hashed_forms block_inputs_def)
  qed
qed

lemma leaf_ids_distinct:
  assumes "block_sealed E b" and "inj_on (sha256d E) A" and "block_inputs E b \<subseteq> A"
  shows "distinct (leaf_ids E b)" "leaf_ids E b \<noteq> []"
proof -
  obtain c where c: "blk_reward_claim b = Some c" using assms(1) by (auto simp: block_sealed_def)
  have "claim_id E c \<noteq> transaction_id E t" if "t \<in> set (blk_transactions b)" for t
  proof
    assume "claim_id E c = transaction_id E t"
    moreover have "preimage CLAIM_TAG (claim_enc c) \<in> A" "preimage TX_TAG (transaction_enc t) \<in> A"
      using assms(3) c that by (auto simp: block_inputs_def)
    ultimately have "preimage CLAIM_TAG (claim_enc c) = preimage TX_TAG (transaction_enc t)"
      unfolding hashed_forms by (rule inj_onD [OF assms(2)])
    then show False by simp
  qed
  then show "distinct (leaf_ids E b)" "leaf_ids E b \<noteq> []"
    using assms(1) c by (auto simp: leaf_ids_def block_sealed_def)
qed

lemma leaf_ids_fixed:
  assumes "block_sealed E b" "block_sealed E b'" and "inj_on (sha256d E) A"
    and "block_inputs E b \<union> block_inputs E b' \<subseteq> A"
    and "merkle_root E (leaf_ids E b) = merkle_root E (leaf_ids E b')"
  shows "leaf_ids E b = leaf_ids E b'"
proof (rule merkle_root_fixes [OF _ subset_refl])
  let ?M = "merkle_inputs E (leaf_ids E b) \<union> merkle_inputs E (leaf_ids E b')"
  let ?in = "\<lambda>(l, r). preimage NODE_TAG (array_bytes l @ array_bytes r)"
  have M: "?in p \<in> A" if "p \<in> ?M" for p using that assms(4) by (auto simp: block_inputs_def)
  have hash: "node_hash E p = sha256d E (?in p)" for p by (simp add: hashed_forms split: prod.splits)
  show "inj_on (node_hash E) ?M"
  proof (rule inj_onI)
    fix p q assume "p \<in> ?M" "q \<in> ?M" "node_hash E p = node_hash E q"
    then have "?in p = ?in q" using inj_onD [OF assms(3)] M unfolding hash by blast
    then show "p = q" by (auto simp: preimage_inject array_bytes_inject split: prod.splits)
  qed
  show "node_hash E ` ?M \<inter> (set (leaf_ids E b) \<union> set (leaf_ids E b')) = {}"
  proof -
    have "node_hash E p \<noteq> x" if p: "p \<in> ?M" and x: "x \<in> set (leaf_ids E b) \<union> set (leaf_ids E b')" for p x
    proof
      assume eq: "node_hash E p = x"
      obtain tag data where t: "x = sha256d E (preimage tag data)" "preimage tag data \<in> A"
        "\<forall>y. preimage tag data \<noteq> preimage NODE_TAG y"
        using x leaf_ids_hashed [of x E] assms(4) by blast
      then have "?in p = preimage tag data" using inj_onD [OF assms(3) _ M [OF p]] eq unfolding hash by metis
      then show False using t(3) by (cases p) (metis prod.case)
    qed
    then show ?thesis by blast
  qed
qed (use assms leaf_ids_distinct [OF assms(1,3)] leaf_ids_distinct [OF assms(2,3)] in auto)

lemma block_fixed:
  assumes "block_sealed E b" "block_sealed E b'" and inj: "inj_on (sha256d E) A"
    and inp: "block_inputs E b \<union> block_inputs E b' \<subseteq> A" and eq: "block_id E b = block_id E b'"
  shows "b = b'"
proof -
  have same: "x = y" if "sha256d E x = sha256d E y" "x \<in> A" "y \<in> A" for x y
    using that by (rule inj_onD [OF inj])
  have "header_enc (blk_header b) = header_enc (blk_header b')"
    using eq inp unfolding block_id_def header_id_def by (intro same) (auto simp: block_inputs_def)
  then have h: "blk_header b = blk_header b'" by (intro header_codec.enc_inject) simp_all
  have "merkle_root E (leaf_ids E b) = merkle_root E (leaf_ids E b')"
    using assms(1,2) h by (simp add: block_sealed_def block_transaction_root_def leaf_ids_def)
  then have ids: "leaf_ids E b = leaf_ids E b'" by (rule leaf_ids_fixed [OF assms(1,2) inj inp])
  obtain c c' where c: "blk_reward_claim b = Some c" "blk_reward_claim b' = Some c'"
    using assms(1,2) by (auto simp: block_sealed_def)
  have wf: "block_wf E b" "block_wf E b'" using assms(1,2) by (simp_all add: block_sealed_def)
  have "claim_id E c = claim_id E c'" using ids c by (simp add: leaf_ids_def)
  then have "preimage CLAIM_TAG (claim_enc c) = preimage CLAIM_TAG (claim_enc c')"
    using inp c unfolding hashed_forms by (intro same) (auto simp: block_inputs_def)
  then have claim: "c = c'"
    using wf c by (intro claim_codec.enc_inject) (auto simp: preimage_inject block_wf_def)
  have "map (transaction_id E) (blk_transactions b) = map (transaction_id E) (blk_transactions b')"
    using ids c by (simp add: leaf_ids_def)
  moreover have "t = t'" if "transaction_id E t = transaction_id E t'" "t \<in> set (blk_transactions b)"
    "t' \<in> set (blk_transactions b')" for t t'
  proof -
    have "preimage TX_TAG (transaction_enc t) = preimage TX_TAG (transaction_enc t')"
      using inp that unfolding hashed_forms by (intro same) (auto simp: block_inputs_def)
    then show ?thesis using wf that transaction_wf_length [of E t]
      by (intro transaction_codec.enc_inject) (auto simp: preimage_inject block_wf_def)
  qed
  ultimately have txs: "blk_transactions b = blk_transactions b'" by (rule map_eq_same)
  have "witness_root E (blk_witness b) = witness_root E (blk_witness b')"
    using assms(1,2) h by (simp add: block_sealed_def)
  then have "preimage WITNESS_TAG (witness_enc (blk_witness b)) = preimage WITNESS_TAG (witness_enc (blk_witness b'))"
    using inp unfolding hashed_forms by (intro same) (auto simp: block_inputs_def)
  then have "blk_witness b = blk_witness b'"
    using wf by (intro witness_codec.enc_inject) (auto simp: preimage_inject block_wf_def limit_defs)
  with h c claim txs show ?thesis by (cases b; cases b') simp
qed

section \<open>What a block identifier fixes\<close>

lemma validated_sealed:
  assumes "valid_history E pow hist s" and "validate_block E pow now b hist s = Inr s'"
    and "bh_height (blk_header b) \<noteq> 0" and "block_typed E b" and "block_wf E b"
  shows "block_sealed E b" "bh_previous_block (blk_header b) = block_id E (last hist)"
proof -
  have "distinct (map (transaction_id E) (blk_transactions b))"
    by (rule block_step [OF assms(1-4)])
  moreover obtain claim where "blk_reward_claim b = Some claim"
    "block_transaction_root E b = bh_transactions_root (blk_header b)"
    "witness_root E (blk_witness b) = bh_workshare_root (blk_header b)"
    "validate_header_context E (blk_header b) (last hist) hist now = Inr ()"
    using validate_block_InrE [OF assms(2,3)] by metis
  ultimately show "block_sealed E b" "bh_previous_block (blk_header b) = block_id E (last hist)"
    using assms(5) by (auto simp: block_sealed_def header_context_Inr)
qed

lemma validate_block_state:
  assumes "validate_block E pow now b hist s = Inr s1" and "validate_block E pow now' b hist s = Inr s2"
    and "bh_height (blk_header b) \<noteq> 0"
  shows "s1 = s2"
proof -
  obtain claim where c: "blk_reward_claim b = Some claim"
    "\<exists>alloc fees. transition_for_candidate E (bh_height (blk_header b)) claim (blk_transactions b) hist s
      = Inr (s1, alloc, fees)"
    using validate_block_InrE [OF assms(1,3)] by metis
  obtain claim' where "blk_reward_claim b = Some claim'"
    "\<exists>alloc fees. transition_for_candidate E (bh_height (blk_header b)) claim' (blk_transactions b) hist s
      = Inr (s2, alloc, fees)"
    using validate_block_InrE [OF assms(2,3)] by metis
  with c show ?thesis by auto
qed

lemma history_fixed:
  assumes "valid_history E pow hist s" "valid_history E pow hist' s'"
    and "\<forall>b \<in> set hist \<union> set hist'. block_wf E b"
    and inj: "inj_on (sha256d E) A" and "chain_inputs E hist \<union> chain_inputs E hist' \<subseteq> A"
    and "block_id E (last hist) = block_id E (last hist')"
  shows "hist = hist' \<and> s = s'"
  using assms(1-3,5,6)
proof (induction arbitrary: hist' s' rule: valid_history.induct)
  case genesis
  show ?case
  proof (cases rule: valid_historyE [OF genesis.prems(1)])
    case (2 hist0 s0 now b)
    have "header_enc (blk_header (genesis E)) \<in> A" "header_enc (blk_header b) \<in> A"
      using genesis.prems(3) 2(1) by (auto simp: chain_inputs_def block_inputs_def)
    then have "header_enc (blk_header (genesis E)) = header_enc (blk_header b)"
      using genesis.prems(4) 2(1) inj_onD [OF inj] by (simp add: block_id_def header_id_def)
    then have "blk_header b = blk_header (genesis E)" by (intro header_codec.enc_inject) simp_all
    then show ?thesis using 2(4) by (simp add: genesis_def)
  qed simp
next
  case (extend hist s now b s1)
  show ?case
  proof (cases rule: valid_historyE [OF extend.prems(1)])
    case 1
    have "header_enc (blk_header (genesis E)) \<in> A" "header_enc (blk_header b) \<in> A"
      using extend.prems(3) 1(1) by (auto simp: chain_inputs_def block_inputs_def)
    then have "header_enc (blk_header (genesis E)) = header_enc (blk_header b)"
      using extend.prems(4) 1(1) inj_onD [OF inj] by (simp add: block_id_def header_id_def)
    then have "blk_header b = blk_header (genesis E)" by (intro header_codec.enc_inject) simp_all
    then show ?thesis using extend.hyps(3) by (simp add: genesis_def)
  next
    case (2 hist0 s0 now0 b0)
    note wf = extend.prems(2)
    note v = validated_sealed [OF extend.hyps(1-4)] validated_sealed [OF 2(2-5)]
    have "b = b0"
      by (rule block_fixed [OF v(1) v(3) inj])
        (use wf extend.prems(3,4) 2(1) in \<open>auto simp: chain_inputs_def\<close>)
    moreover from this have "hist = hist0 \<and> s = s0"
      using v(2,4) wf extend.prems(3) 2(1) by (intro extend.IH [OF 2(2)]) (auto simp: chain_inputs_def)
    ultimately show ?thesis using validate_block_state [OF extend.hyps(2)] 2 extend.hyps(3) by auto
  qed
qed

lemma chain_fixed:
  assumes "chain_ok E pow c" "chain_ok E pow c'"
    and "\<forall>b \<in> set (ch_blocks c) \<union> set (ch_blocks c'). block_wf E b"
    and "\<not> collide (sha256d E) A A" and "chain_inputs E (ch_blocks c) \<union> chain_inputs E (ch_blocks c') \<subseteq> A"
    and "block_id E (chain_tip c) = block_id E (chain_tip c')"
  shows "c = c'"
proof -
  have "inj_on (sha256d E) A" using assms(4) by (auto simp: collide_def inj_on_def)
  then have "ch_blocks c = ch_blocks c' \<and> ch_state c = ch_state c'"
    using assms by (intro history_fixed [where E = E and pow = pow and A = A]) (simp_all add: chain_ok_def chain_tip_def)
  then show ?thesis using assms(1,2) by (cases c; cases c') (simp add: chain_ok_def)
qed

text \<open>C4: The identifier of the tip fixes the whole chain: two nodes whose tips have the same identifier
  have the same blocks, the same ledger with its tree and the same work, unless two of the byte strings
  hashed for these very chains collide.\<close>

theorem tip_fixes_chain:
  assumes "node_run E pow n" "node_run E pow m"
    and "block_id E (chain_tip (nd_chain n)) = block_id E (chain_tip (nd_chain m))"
  defines "hashed \<equiv> chain_inputs E (ch_blocks (nd_chain n)) \<union> chain_inputs E (ch_blocks (nd_chain m))"
  shows "nd_chain n = nd_chain m \<or> collide (sha256d E) hashed hashed"
proof -
  have ok: "node_ok E pow n" "node_ok E pow m" using assms(1,2) by (auto intro: node_run_ok)
  then have "chain_ok E pow (nd_chain n)" "chain_ok E pow (nd_chain m)" by (simp_all add: node_ok_def)
  moreover have "\<forall>b \<in> set (ch_blocks (nd_chain n)) \<union> set (ch_blocks (nd_chain m)). block_wf E b"
    using ok [THEN chain_blocks_wf_stored] by (auto simp: chain_blocks_wf_def)
  ultimately show ?thesis using assms(3) chain_fixed [of E pow _ _ hashed] unfolding hashed_def by blast
qed

theorem tip_fixes_chain_witness:
  "\<exists>(n :: node) (m :: node). nd_peers n = [] \<and> nd_peers m = [(hash_zero, True)]
    \<and> (nd_chain n = nd_chain m
       \<or> collide (sha256d sample_env) (chain_inputs sample_env (ch_blocks (nd_chain n)))
           (chain_inputs sample_env (ch_blocks (nd_chain n))))"
proof -
  obtain db w where r: "node_run sample_env sample_pow
      (node_open sample_config sample_env (sample_genesis_chain w) db)" (is "node_run _ _ ?n") by (rule sample_run)
  obtain x m where m: "peer_connected hash_zero True ?n = (x, m)" by fastforce
  then have p: "nd_peers ?n = []" "nd_peers m = [(hash_zero, True)]" "nd_chain m = nd_chain ?n"
    by (auto simp: peer_connected_def node_open_def smap_contains_def Let_def sample_config_def split: if_splits)
  have run: "node_run sample_env sample_pow m" by (rule node_run.step [OF r node_step.connect [OF m]])
  have "nd_chain ?n = nd_chain m \<or> collide (sha256d sample_env) (chain_inputs sample_env (ch_blocks (nd_chain ?n)))
      (chain_inputs sample_env (ch_blocks (nd_chain ?n)))"
    using tip_fixes_chain [OF r run] unfolding p(3) by simp
  then show ?thesis using p(1,2) by blast
qed

section \<open>Agreement\<close>

text \<open>A chain as a peer can offer it: its blocks come from the decoder, and the genesis block is at
  the start only (see \<open>genesis_copies_work\<close>).\<close>

definition offer_ok :: "prims \<Rightarrow> block list \<Rightarrow> bool" where
  "offer_ok E bs \<longleftrightarrow> (\<forall>b \<in> set bs. block_wf E b) \<and> genesis E \<notin> set (tl bs)"

lemma offered_chain:
  assumes "offer_ok E bs" and "chain_from_blocks E pow now bs = Inr v"
  shows "chain_ok E pow v" "ch_blocks v = bs"
proof -
  have "\<forall>b \<in> set (tl bs). b \<noteq> genesis E \<and> block_typed E b"
    using assms(1) by (cases bs) (auto simp: offer_ok_def block_wf_typed)
  from from_blocks_ok(1) [OF assms(2) this] show "chain_ok E pow v" .
  show "ch_blocks v = bs" using assms(2) by (auto simp: chain_from_blocks_Inr)
qed

lemma fold_offered:
  assumes "ch_blocks c \<noteq> []" and "hd (ch_blocks c) = genesis E"
  shows "fold (consider_step E pow now) cs c = c \<or>
    (\<exists>bs \<in> set cs. chain_from_blocks E pow now bs = Inr (fold (consider_step E pow now) cs c))"
  using assms
proof (induction cs arbitrary: c)
  case (Cons bs cs)
  note step = consider_step_cases [OF Cons.prems, of pow now bs]
  then consider "consider_step E pow now bs c = c"
    | "chain_from_blocks E pow now bs = Inr (consider_step E pow now bs c)"
    by (cases "chain_from_blocks E pow now bs") (simp_all split: if_splits)
  then show ?case
  proof cases
    case 1
    then show ?thesis using Cons.IH [OF Cons.prems] by auto
  next
    case 2
    then show ?thesis using Cons.IH [of "consider_step E pow now bs c"] from_blocks_starts [OF 2] by auto
  qed
qed simp

text \<open>After considering some chains a node holds the best of the valid ones, its own included.\<close>

lemma considered_best:
  fixes offers c
  defines "S \<equiv> insert (ch_blocks c) (set offers)"
  assumes "chain_ok E pow c" and ok: "\<forall>bs \<in> S. offer_ok E bs"
    and times: "\<forall>b \<in> set (ch_blocks c). time_of b \<le> unat now + 300"
    and r: "r = fold (consider_step E pow now) offers c"
  shows "chain_ok E pow r" "ch_blocks r \<in> S" "chain_key E r \<in> valid_keys E pow now S"
    "\<forall>k \<in> valid_keys E pow now S. \<not> outranks k (chain_key E r)"
proof -
  have start: "ch_blocks c \<noteq> []" "hd (ch_blocks c) = genesis E"
    using chain_ok_inv [OF assms(2)] by (simp_all add: history_inv_def)
  have re: "chain_from_blocks E pow now (ch_blocks c) = Inr c"
    using assms(2) times by (intro chain_reopen) auto
  have K: "insert (chain_key E c) (valid_keys E pow now (set offers)) = valid_keys E pow now S"
    unfolding S_def valid_keys_insert by (simp add: re)
  show "chain_key E r \<in> valid_keys E pow now S" "\<forall>k \<in> valid_keys E pow now S. \<not> outranks k (chain_key E r)"
    using consider_fold_best [OF start, of pow now offers, unfolded K] unfolding r by blast+
  obtain bs where bs: "bs \<in> S" "chain_from_blocks E pow now bs = Inr r"
    using fold_offered [OF start, of pow now offers] re unfolding r S_def by (metis insert_iff)
  from offered_chain [OF _ bs(2)] bs(1) ok show "chain_ok E pow r" "ch_blocks r \<in> S" by auto
qed



end
