(* ===== verification/State_Root.thy ===== *)
theory State_Root
  imports Binding
begin

text \<open>
What the state root of a header commits to.  \<open>src/consensus/state.rs\<close> never builds the tree of a
  ledger: every credit, debit, nonce, reward and maturation updates one leaf of a cached tree.  Each
  of these operations keeps the tree in step with the maps (\<open>mirrored\<close>), along the whole of a valid
  history (\<open>history_mirrored\<close>); so the root is that of the full tree over the entries of the ledger
  and determines them.  The keys that occur in a history are written out (\<open>history_keys\<close>), and the
  results hold unless two of these collide.
\<close>

section \<open>The keys of a history\<close>

definition block_accounts :: "block \<Rightarrow> address set" where
  "block_accounts b = rc_finder ` set_option (blk_reward_claim b)
     \<union> tx_sender ` set (blk_transactions b) \<union> tx_recipient ` set (blk_transactions b)
     \<union> ws_miner ` set (ww_workshares (blk_witness b))"

definition history_accounts :: "block list \<Rightarrow> address set" where
  "history_accounts hist = (\<Union>b \<in> set hist. block_accounts b)"

definition history_keys :: "block list \<Rightarrow> state_key set" where
  "history_keys hist = KeyAccount ` history_accounts hist
     \<union> (\<lambda>(b, a). KeyPending (bh_height (blk_header b) + REWARD_MATURITY) a) ` (set hist \<times> history_accounts hist)"

lemma history_accounts_snoc [simp]:
  "history_accounts (hist @ [b]) = history_accounts hist \<union> block_accounts b"
  by (auto simp: history_accounts_def)

lemma history_keys_mono: "set hist \<subseteq> set hist' \<Longrightarrow> history_keys hist \<subseteq> history_keys hist'"
  by (fastforce simp: history_keys_def history_accounts_def)

lemma history_keysI:
  "a \<in> history_accounts hist \<Longrightarrow> KeyAccount a \<in> history_keys hist"
  "a \<in> history_accounts hist \<Longrightarrow> b \<in> set hist \<Longrightarrow>
    KeyPending (bh_height (blk_header b) + REWARD_MATURITY) a \<in> history_keys hist"
  by (auto simp: history_keys_def)

lemma history_keys_pending: "KeyPending m a \<in> history_keys hist \<Longrightarrow> KeyAccount a \<in> history_keys hist"
  by (auto simp: history_keys_def)

section \<open>Every operation keeps the tree in step\<close>

definition mirrored :: "prims \<Rightarrow> state_key set \<Rightarrow> ledger \<Rightarrow> bool" where
  "mirrored E K s \<longleftrightarrow> ledger_ok E s \<and> tree_ok E K s"

lemma mirrored_mono: "mirrored E K s \<Longrightarrow> K \<subseteq> K' \<Longrightarrow> mirrored E K' s"
  by (auto simp: mirrored_def tree_ok_def)

lemma mirrored_credit:
  "inj_on (state_key_hash E) K \<Longrightarrow> mirrored E K s \<Longrightarrow> address_ok E a \<Longrightarrow> KeyAccount a \<in> K \<Longrightarrow>
   credit E a amount s = Inr s' \<Longrightarrow> mirrored E K s'"
  using credit_effect(1) tree_credit by (auto simp: mirrored_def)

lemma mirrored_debit:
  "inj_on (state_key_hash E) K \<Longrightarrow> mirrored E K s \<Longrightarrow> address_ok E a \<Longrightarrow> KeyAccount a \<in> K \<Longrightarrow>
   debit E a amount s = Inr s' \<Longrightarrow> mirrored E K s'"
  using debit_effect(1) tree_debit by (auto simp: mirrored_def)

lemma mirrored_nonce:
  "inj_on (state_key_hash E) K \<Longrightarrow> mirrored E K s \<Longrightarrow> address_ok E a \<Longrightarrow> KeyAccount a \<in> K \<Longrightarrow>
   mirrored E K (set_nonce E a nonce s)"
  using set_nonce_effect(1) tree_set_account by (auto simp: mirrored_def set_nonce_def)

lemma mirrored_schedule:
  "inj_on (state_key_hash E) K \<Longrightarrow> mirrored E K s \<Longrightarrow> address_ok E a \<Longrightarrow> KeyPending m a \<in> K \<Longrightarrow>
   schedule_reward E m a amount s = Inr s' \<Longrightarrow> mirrored E K s'"
  using schedule_reward_effect(1) tree_schedule by (auto simp: mirrored_def)

lemma mirrored_drop:
  "inj_on (state_key_hash E) K \<Longrightarrow> mirrored E K s \<Longrightarrow> KeyPending m a \<in> K \<Longrightarrow>
   mirrored E K (drop_reward E m a s)"
  using drop_reward_ok tree_drop_reward by (auto simp: mirrored_def)

lemma mirrored_mature:
  assumes inj: "inj_on (state_key_hash E) K" and s: "mirrored E K s" and m: "mature E h s = Inr (s', l)"
    and closed: "\<And>m a. KeyPending m a \<in> K \<Longrightarrow> KeyAccount a \<in> K"
  shows "mirrored E K s'"
proof -
  have ok: "ledger_ok E s" using s by (simp add: mirrored_def)
  have step: "try_fold (mature_step E h) s (matured_rewards E h s) = Inr s'"
    using m by (auto simp: mature_def Let_def result_simps)
  show ?thesis
    using step s
  proof (rule try_fold_invariant)
    fix s0 x s1 assume x: "x \<in> set (matured_rewards E h s)" and s0: "mirrored E K s0"
      and st: "mature_step E h s0 x = Inr s1"
    obtain a amount where xa: "x = (a, amount)" by force
    have "map_of (matured_rewards E h s) a = Some amount"
      using x xa matured_rewards(2) [OF ok] by simp
    then have e: "map_of (led_pending s) (h, a) = Some amount" by (simp add: matured_rewards(1) [OF ok])
    then have k: "KeyPending h a \<in> K" using s contents_in_K(2) by (auto simp: mirrored_def)
    moreover have "address_ok E a" using ledger_okD(2) [OF ok e] by (simp add: reward_entry_ok_def)
    ultimately show "mirrored E K s1"
      using st closed mirrored_credit [OF inj mirrored_drop [OF inj s0]] by (auto simp: xa)
  qed
qed

lemma mirrored_apply:
  assumes inj: "inj_on (state_key_hash E) K" and s: "mirrored E K s"
    and ap: "apply_transactions E s txs = Inr (s', fees)"
    and txs: "\<forall>t \<in> set txs. transaction_ok E t \<and> KeyAccount (tx_sender t) \<in> K \<and> KeyAccount (tx_recipient t) \<in> K"
  shows "mirrored E K s'"
proof -
  obtain x where x: "try_fold (apply_transaction E) \<lparr>ex_ledger = s, ex_seen = [], ex_fees = 0\<rparr> txs = Inr x"
    "s' = ex_ledger x"
    using ap by (auto simp: apply_transactions_def result_simps)
  have "mirrored E K (ex_ledger x)"
    using x(1)
  proof (rule try_fold_invariant [where P = "\<lambda>x. mirrored E K (ex_ledger x)"])
    fix x0 t x1 assume t: "t \<in> set txs" and x0: "mirrored E K (ex_ledger x0)"
      and st: "apply_transaction E x0 t = Inr x1"
    have a: "address_ok E (tx_sender t)" "address_ok E (tx_recipient t)"
      "KeyAccount (tx_sender t) \<in> K" "KeyAccount (tx_recipient t) \<in> K"
      using txs t by (auto simp: transaction_ok_def)
    obtain amount s1 s2 nonce where d: "debit E (tx_sender t) amount (ex_ledger x0) = Inr s1"
      "credit E (tx_recipient t) (tx_amount t) s1 = Inr s2" "ex_ledger x1 = set_nonce E (tx_sender t) nonce s2"
      using apply_transaction_InrE [OF st] by (metis exec_state.select_convs(1))
    from mirrored_debit [OF inj x0 a(1,3) d(1)] have "mirrored E K s2"
      by (rule mirrored_credit [OF inj _ a(2,4) d(2)])
    then show "mirrored E K (ex_ledger x1)" unfolding d(3) by (rule mirrored_nonce [OF inj _ a(1,3)])
  qed (simp add: s)
  then show ?thesis by (simp add: x(2))
qed

lemma mirrored_transition:
  assumes inj: "inj_on (state_key_hash E) K" and s: "mirrored E K s"
    and tr: "transition_for_candidate E h claim txs hist s = Inr (s', alloc, fees)"
    and closed: "\<And>m a. KeyPending m a \<in> K \<Longrightarrow> KeyAccount a \<in> K"
    and claim: "claim_ok E claim" "KeyPending (h + REWARD_MATURITY) (rc_finder claim) \<in> K"
    and txs: "\<forall>t \<in> set txs. transaction_ok E t \<and> KeyAccount (tx_sender t) \<in> K \<and> KeyAccount (tx_recipient t) \<in> K"
    and shares: "\<forall>b \<in> set hist. block_typed E b" "window_small hist"
      "\<forall>a \<in> ws_miner ` set (window_shares hist). KeyPending (h + REWARD_MATURITY) a \<in> K"
  shows "mirrored E K s'"
proof -
  obtain s1 l s2 s3 where m: "mature E h s = Inr (s1, l)"
    and ap: "apply_transactions E s1 txs = Inr (s2, fees)"
    and al: "reward_allocation h (rc_finder claim) fees hist = Inr alloc"
    and s3: "schedule_reward E (h + REWARD_MATURITY) (rc_finder claim) (ra_finder_amount alloc) s2 = Inr s3"
    and s': "schedule_rewards E (h + REWARD_MATURITY) s3 (ra_workshare_rewards alloc) = Inr s'"
    using transition_InrE [OF tr] by metis
  have "mirrored E K s2"
    by (rule mirrored_apply [OF inj mirrored_mature [OF inj s m closed] ap txs])
  then have "mirrored E K s3"
    using claim by (intro mirrored_schedule [OF inj _ _ _ s3]) (simp_all add: claim_ok_def)
  with s' show ?thesis unfolding schedule_rewards_def
  proof (rule try_fold_invariant)
    fix s0 x s1 assume x: "x \<in> set (ra_workshare_rewards alloc)" and s0: "mirrored E K s0"
      and st: "(case x of (a, amount) \<Rightarrow> schedule_reward E (h + REWARD_MATURITY) a amount s0) = Inr s1"
    obtain sh where sh: "sh \<in> set (window_shares (reward_window hist))" "fst x = ws_miner sh"
      using reward_recipients [OF shares(2) al, of "fst x" "snd x"] x by auto
    then have "KeyPending (h + REWARD_MATURITY) (fst x) \<in> K" "address_ok E (fst x)"
      using shares(3) window_subset history_typed_miners [OF shares(1)] by auto
    then show "mirrored E K s1"
      using st by (cases x) (auto intro: mirrored_schedule [OF inj s0])
  qed
qed

lemma history_mirrored:
  assumes "valid_history E pow hist s" and "\<not> collide (state_key_hash E) (history_keys hist) (history_keys hist)"
  shows "mirrored E (history_keys hist) s"
  using assms
proof (induction rule: valid_history.induct)
  case genesis
  show ?case by (simp add: mirrored_def tree_default)
next
  case (extend hist s now b s')
  let ?K = "history_keys (hist @ [b])"
  have sub: "history_keys hist \<subseteq> ?K" by (rule history_keys_mono) auto
  have inj: "inj_on (state_key_hash E) ?K" using extend.prems by (auto simp: collide_def inj_on_def)
  have "\<not> collide (state_key_hash E) (history_keys hist) (history_keys hist)"
    using extend.prems collide_mono [OF _ sub sub] by blast
  then have s: "mirrored E ?K s" using mirrored_mono [OF _ sub] extend.IH by blast
  have inv: "history_inv E hist s" by (rule valid_history_inv [OF extend.hyps(1)])
  obtain claim alloc fees where c: "blk_reward_claim b = Some claim"
    "transition_for_candidate E (bh_height (blk_header b)) claim (blk_transactions b) hist s = Inr (s', alloc, fees)"
    using validate_block_InrE [OF extend.hyps(2,3)] by metis
  have pend: "KeyPending (bh_height (blk_header b) + REWARD_MATURITY) a \<in> ?K"
    if "a \<in> history_accounts (hist @ [b])" for a
    using that by (intro history_keysI) simp_all
  show ?case
  proof (rule mirrored_transition [OF inj s c(2) history_keys_pending])
    show "claim_ok E claim" using extend.hyps(4) c(1) by (simp add: block_typed_def)
    show "KeyPending (bh_height (blk_header b) + REWARD_MATURITY) (rc_finder claim) \<in> ?K"
      by (rule pend) (simp add: block_accounts_def c(1))
    show "\<forall>t \<in> set (blk_transactions b). transaction_ok E t \<and> KeyAccount (tx_sender t) \<in> ?K \<and> KeyAccount (tx_recipient t) \<in> ?K"
      using extend.hyps(4) by (auto simp: block_typed_def block_accounts_def intro!: history_keysI(1))
    show "\<forall>b \<in> set hist. block_typed E b" using inv by (simp add: history_inv_def)
    show "window_small hist" by (rule history_inv_small [OF inv])
    show "\<forall>a \<in> ws_miner ` set (window_shares hist). KeyPending (bh_height (blk_header b) + REWARD_MATURITY) a \<in> ?K"
      by (intro ballI pend) (auto simp: window_shares_def history_accounts_def block_accounts_def)
  qed
qed

section \<open>What the state root commits to\<close>

lemma last_state_root:
  assumes "valid_history E pow hist s"
  shows "bh_state_root (blk_header (last hist)) = ledger_root s"
  using valid_history_inv [OF assms] by (simp add: history_inv_def)

text \<open>C9: The state root in the header of every block of a valid chain is the root of the full 256-level
  tree whose leaves are exactly the encoded accounts and pending rewards of the ledger at the hashes of
  their keys, however the cached tree got there by single updates; this fails only if two keys that
  occur in the chain collide.\<close>

theorem state_root_commits:
  assumes "valid_history E pow hist s" and "k \<in> history_keys hist"
  shows "(bh_state_root (blk_header (last hist)) = smt_spec_root E (smt_get (led_tree s))
       \<and> smt_get (led_tree s) (state_key_hash E k)
         = (case k of KeyAccount a \<Rightarrow> map_option account_enc (map_of (led_accounts s) a)
            | KeyPending m a \<Rightarrow> map_option (\<lambda>x. reward_entry_enc ((m, a), x)) (map_of (led_pending s) (m, a)))
       \<and> (\<forall>h. h \<notin> state_key_hash E ` history_keys hist \<longrightarrow> smt_get (led_tree s) h = None))
    \<or> collide (state_key_hash E) (history_keys hist) (history_keys hist)"
proof (cases "collide (state_key_hash E) (history_keys hist) (history_keys hist)")
  case False
  have m: "mirrored E (history_keys hist) s" by (rule history_mirrored [OF assms(1) False])
  then have t: "mirrors E (led_tree s) (ledger_contents s)" "dom (ledger_contents s) \<subseteq> history_keys hist"
    by (simp_all add: mirrored_def tree_ok_def)
  have "smt_ok E (led_tree s)" using m by (simp add: mirrored_def)
  then have root: "bh_state_root (blk_header (last hist)) = smt_spec_root E (smt_get (led_tree s))"
    by (simp add: last_state_root [OF assms(1)] ledger_root_def smt_root_spec)
  have val: "smt_get (led_tree s) (state_key_hash E k) = ledger_contents s k"
  proof (cases "smt_get (led_tree s) (state_key_hash E k)")
    case None
    then show ?thesis using mirrorsD(1) [OF t(1), of k] by (cases "ledger_contents s k") auto
  next
    case (Some v)
    then obtain k' where k': "ledger_contents s k' = Some v" "state_key_hash E k' = state_key_hash E k"
      using mirrorsD(2) [OF t(1)] by blast
    then have "k' = k" using False t(2) assms(2) by (auto simp: collide_def)
    then show ?thesis using Some k'(1) by simp
  qed
  have "smt_get (led_tree s) h = None" if "h \<notin> state_key_hash E ` history_keys hist" for h
    using that mirrorsD(2) [OF t(1), of h] t(2) by (cases "smt_get (led_tree s) h") auto
  then show ?thesis using root val unfolding ledger_contents_def by blast
qed simp

theorem state_root_commits_witness:
  "let hist = [genesis sample_env, sample_block]; s = sample_state sample_alice;
     k = KeyPending 101 sample_alice in
   (bh_state_root (blk_header (last hist)) = smt_spec_root sample_env (smt_get (led_tree s))
     \<and> smt_get (led_tree s) (state_key_hash sample_env k)
         = Some (reward_entry_enc ((101, sample_alice), 1000000000)))
    \<or> collide (state_key_hash sample_env) (history_keys hist) (history_keys hist)"
proof -
  have "sample_alice \<in> history_accounts [genesis sample_env, sample_block]"
    by (simp add: history_accounts_def block_accounts_def sample_block_def)
  from history_keysI(2) [OF this, of sample_block]
  have k: "KeyPending 101 sample_alice \<in> history_keys [genesis sample_env, sample_block]"
    by (simp add: sample_block_height REWARD_MATURITY_def)
  have "map_of (led_pending (sample_state sample_alice)) (101, sample_alice) = Some 1000000000"
    by (simp add: sample_state_def put_reward_def ledger_default_def)
  then show ?thesis using state_root_commits [OF sample_history k] by (auto simp: Let_def)
qed


text \<open>So two blocks of valid chains with the same state root stand for the same ledger, also when the
  chains differ.\<close>

theorem root_fixes_ledger:
  assumes "valid_history E pow hist s" "valid_history E pow hist' s'"
    and "bh_state_root (blk_header (last hist)) = bh_state_root (blk_header (last hist'))"
  defines "keys \<equiv> history_keys hist \<union> history_keys hist'"
  shows "s = s' \<or> collide (state_key_hash E) keys keys
    \<or> smt_collision E (smt_get (led_tree s)) (smt_get (led_tree s'))"
proof (cases "collide (state_key_hash E) keys keys")
  case False
  have sub: "history_keys hist \<subseteq> keys" "history_keys hist' \<subseteq> keys" by (simp_all add: keys_def)
  have inj: "inj_on (state_key_hash E) keys" using False by (auto simp: collide_def inj_on_def)
  have "mirrored E keys s" "mirrored E keys s'"
    using history_mirrored [OF assms(1)] history_mirrored [OF assms(2)] False sub
    by (meson collide_mono mirrored_mono)+
  then have m: "ledger_ok E s" "tree_ok E keys s" "ledger_ok E s'" "tree_ok E keys s'"
    by (simp_all add: mirrored_def)
  have root: "ledger_root s = ledger_root s'"
    using assms(3) by (simp add: last_state_root [OF assms(1)] last_state_root [OF assms(2)])
  show ?thesis
  proof (cases "smt_collision E (smt_get (led_tree s)) (smt_get (led_tree s'))")
    case False
    then have "led_accounts s = led_accounts s' \<and> led_pending s = led_pending s'"
      by (intro ledger_root_binding [OF m(1,3,2,4) inj root])
    then show ?thesis using tree_determined [OF m(1,3,2,4)] by blast
  qed simp
qed simp

end
