(* ===== verification/Status.thy ===== *)
theory Status
  imports Complex_Main Rpc State_Root
begin

text \<open>
The reports of a node: \<open>Node::status\<close>, \<open>state_snapshot\<close> and the memory probe of \<open>src/node.rs\<close>, the
  hash rate of \<open>src/miner.rs\<close>, and \<open>/p2p/info\<close> and \<open>/admin/peers\<close> of \<open>src/rpc.rs\<close>.  They change no
  state.  The code computes averages, rates and difficulties in 64-bit floating point; the model has
  the exact rational numbers these round.  The clock, the counters of the miner and the files of the
  system are inputs, as is the encoder of the base64 crate.
\<close>

section \<open>Figures\<close>

text \<open>The counters of the miner, as \<open>MiningStats\<close> holds them; times in milliseconds.\<close>

record mining_stats =
  ms_hashes :: u64
  ms_blocks :: u64
  ms_workshares :: u64
  ms_started_millis :: u64
  ms_last_hash_millis :: u64

definition stats_hashrate :: "u64 \<Rightarrow> mining_stats \<Rightarrow> rat" where
  "stats_hashrate millis stats =
     (let started = ms_started_millis stats; elapsed = saturating_sub millis started in
      if started = 0 \<or> elapsed = 0 \<or> 60000 < saturating_sub millis (ms_last_hash_millis stats) then 0
      else of_nat (unat (ms_hashes stats)) * 1000 / of_nat (unat elapsed))"

definition work_as_f64 :: "u256 \<Rightarrow> rat" where
  "work_as_f64 work = of_nat (unat work)"

definition displayed_difficulty :: "u32 \<Rightarrow> rat" where
  "displayed_difficulty bits =
     (case bits_to_target bits of None \<Rightarrow> 0 | Some target \<Rightarrow> work_as_f64 pow_limit / work_as_f64 target)"

definition format_08x :: "u32 \<Rightarrow> bytes" where
  "format_08x bits = replicate (8 - length (lower_hex (unat bits))) 48 @ lower_hex (unat bits)"

definition timestamp_of :: "block \<Rightarrow> u64" where
  "timestamp_of b = bh_timestamp (blk_header b)"

definition status_recent :: "chain \<Rightarrow> block list" where
  "status_recent c = drop (length (ch_blocks c) - 31) (ch_blocks c)"

definition status_span :: "chain \<Rightarrow> u64" where
  "status_span c = saturating_sub (timestamp_of (last (status_recent c))) (timestamp_of (hd (status_recent c)))"

definition avg_block_time :: "chain \<Rightarrow> rat" where
  "avg_block_time c =
     (if 1 < length (status_recent c)
      then of_nat (unat (status_span c)) / of_nat (length (status_recent c) - 1)
      else of_nat TARGET_BLOCK_TIME)"

definition estimated_hashrate :: "chain \<Rightarrow> rat" where
  "estimated_hashrate c =
     (if 1 < length (status_recent c)
      then if status_span c = 0 then 0
        else sum_list (map (\<lambda>target. work_as_f64 (target_work target))
            (List.map_filter (\<lambda>b. bits_to_target (bh_bits (blk_header b))) (drop 1 (status_recent c))))
          / of_nat (unat (status_span c))
      else 0)"

definition circulating_supply :: "chain \<Rightarrow> u64" where
  "circulating_supply c =
     fold (\<lambda>amount sum. saturating_add sum amount) (map (\<lambda>(_, acc). ac_balance acc) (led_accounts (ch_state c))) 0"

definition annual_inflation :: "u64 \<Rightarrow> u64 \<Rightarrow> rat" where
  "annual_inflation circulating reward =
     (if circulating = 0 then 0
      else of_nat (365 * 24 * 60 * 60 div TARGET_BLOCK_TIME) * of_nat (unat reward) / of_nat (unat circulating) * 100)"

definition blocks_until_halving :: "u64 \<Rightarrow> u64" where
  "blocks_until_halving next_height = HALVING_INTERVAL - saturating_sub next_height 1 mod HALVING_INTERVAL"

definition blocks_found_by :: "address option \<Rightarrow> chain \<Rightarrow> nat" where
  "blocks_found_by miner c =
     (case miner of None \<Rightarrow> 0
      | Some a \<Rightarrow> length (filter (\<lambda>claim. rc_finder claim = a) (List.map_filter blk_reward_claim (ch_blocks c))))"

definition mining_processes :: "nat \<Rightarrow> nat \<Rightarrow> nat" where
  "mining_processes threads cpu_total = (if threads = 0 then cpu_total else min threads cpu_total)"

definition management_url :: "config \<Rightarrow> bytes" where
  "management_url c =
     ascii ''http://'' @ cf_device_name c @ ascii ''.local:''
     @ decimal (case socket_addr (cf_management_bind c) of None \<Rightarrow> 5051 | Some (_, port) \<Rightarrow> port)"

definition NODE_VERSION :: bytes where "NODE_VERSION = ascii ''4.0.1-rc.4''"

section \<open>The status\<close>

record node_status =
  ns_status :: bytes
  ns_node_version :: bytes
  ns_protocol_version :: u16
  ns_chain_id :: bytes
  ns_genesis_hash :: hash32
  ns_height :: u64
  ns_best_block_hash :: hash32
  ns_state_root :: hash32
  ns_cumulative_work :: bytes
  ns_chain_work :: bytes
  ns_difficulty_bits :: bytes
  ns_bits :: bytes
  ns_tip_bits :: bytes
  ns_next_bits :: bytes
  ns_target_block_time :: nat
  ns_workshare_target_seconds :: nat
  ns_reward_window :: nat
  ns_finder_share_percent :: u64
  ns_reward_maturity :: u64
  ns_shares_in_window :: nat
  ns_mempool_transactions :: nat
  ns_mempool_size :: nat
  ns_mempool_bytes :: nat
  ns_live_workshares :: nat
  ns_connected_peers :: nat
  ns_peer_count :: nat
  ns_network_nodes :: nat
  ns_active_miners :: nat
  ns_active_miners_scope :: bytes
  ns_node_enabled :: bool
  ns_mining_enabled :: bool
  ns_mining_active :: bool
  ns_miner_address :: "address option"
  ns_mining_processes :: nat
  ns_mining_processes_config :: nat
  ns_mining_intensity :: u8
  ns_cpu_total :: nat
  ns_randomx_mode :: mining_mode
  ns_randomx_fast_available :: bool
  ns_hashrate :: rat
  ns_network_hashrate :: rat
  ns_estimated_hashrate :: rat
  ns_node_shares_submitted :: u64
  ns_blocks_found :: nat
  ns_blocks_found_local :: u64
  ns_difficulty :: rat
  ns_tip_difficulty :: rat
  ns_avg_block_time :: rat
  ns_last_block_time :: u64
  ns_circulating_supply :: u64
  ns_next_block_reward :: u64
  ns_min_subsidy :: u64
  ns_halving_interval :: u64
  ns_blocks_until_halving :: u64
  ns_annual_inflation :: rat
  ns_tail_emission :: bool
  ns_coin :: u64
  ns_share_multiplier :: nat
  ns_platform :: bytes
  ns_device_id :: bytes
  ns_device_name :: bytes
  ns_management_url :: bytes
  ns_uptime_seconds :: u64
  ns_emitted_supply :: u64

text \<open>What the status takes from outside the node: the clock in seconds and milliseconds, when the
  process started, the counters of the miner and the name of the platform.\<close>

record surroundings =
  su_unix_time :: u64
  su_unix_millis :: u64
  su_started_at :: u64
  su_stats :: mining_stats
  su_platform :: bytes

definition status_of :: "prims \<Rightarrow> host \<Rightarrow> surroundings \<Rightarrow> admin \<Rightarrow> workshare_witness \<Rightarrow> node_status" where
  "status_of E H W st witness =
    (let n = ad_node st; config = ad_live st; startup = ad_startup st;
         c = nd_chain n; pool = nd_mempool n; tip = chain_tip c;
         live = ww_workshares witness;
         peer_count = length (nd_peers n);
         cpu_total = ho_threads H;
         hashrate = stats_hashrate (su_unix_millis W) (su_stats W);
         settled = concat (map (\<lambda>b. ww_workshares (blk_witness b)) (reward_window (ch_blocks c)));
         estimated = estimated_hashrate c;
         circulating = circulating_supply c;
         next_height = saturating_add (chain_height c) 1;
         next_block_reward = block_subsidy next_height;
         cumulative_work = format_064x (unat (ch_work c));
         next_bits = next_bits (ch_blocks c);
         tip_bits = bh_bits (blk_header tip)
     in \<lparr>ns_status = ascii (if ad_enabled st then ''online'' else ''stopped''),
         ns_node_version = NODE_VERSION,
         ns_protocol_version = PROTOCOL_VERSION,
         ns_chain_id = CHAIN_ID,
         ns_genesis_hash = block_id E (genesis E),
         ns_height = chain_height c,
         ns_best_block_hash = block_id E tip,
         ns_state_root = ledger_root (ch_state c),
         ns_cumulative_work = cumulative_work,
         ns_chain_work = cumulative_work,
         ns_difficulty_bits = format_08x tip_bits,
         ns_bits = format_08x next_bits,
         ns_tip_bits = format_08x tip_bits,
         ns_next_bits = format_08x next_bits,
         ns_target_block_time = TARGET_BLOCK_TIME,
         ns_workshare_target_seconds = TARGET_BLOCK_TIME div WORKSHARE_TARGET_MULTIPLIER,
         ns_reward_window = REWARD_WINDOW,
         ns_finder_share_percent = FINDER_SHARE_PERCENT,
         ns_reward_maturity = REWARD_MATURITY,
         ns_shares_in_window = length settled + length live,
         ns_mempool_transactions = length (mp_entries pool),
         ns_mempool_size = length (mp_entries pool),
         ns_mempool_bytes = mp_bytes pool,
         ns_live_workshares = length live,
         ns_connected_peers = peer_count,
         ns_peer_count = peer_count,
         ns_network_nodes = peer_count + 1,
         ns_active_miners = peer_count + (if ad_enabled st then 1 else 0),
         ns_active_miners_scope = ascii ''connected_node_identities_including_self'',
         ns_node_enabled = ad_enabled st,
         ns_mining_enabled = cf_mining_enabled config,
         ns_mining_active = (ad_enabled st \<and> cf_mining_enabled config \<and> 0 < hashrate),
         ns_miner_address = cf_miner_address config,
         ns_mining_processes = mining_processes (cf_mining_threads config) cpu_total,
         ns_mining_processes_config = cf_mining_threads config,
         ns_mining_intensity = cf_mining_intensity config,
         ns_cpu_total = cpu_total,
         ns_randomx_mode = cf_randomx_mode config,
         ns_randomx_fast_available = ho_fast_available H,
         ns_hashrate = hashrate,
         ns_network_hashrate = max hashrate estimated,
         ns_estimated_hashrate = estimated,
         ns_node_shares_submitted = ms_workshares (su_stats W),
         ns_blocks_found = blocks_found_by (cf_miner_address config) c,
         ns_blocks_found_local = ms_blocks (su_stats W),
         ns_difficulty = displayed_difficulty next_bits,
         ns_tip_difficulty = displayed_difficulty tip_bits,
         ns_avg_block_time = avg_block_time c,
         ns_last_block_time = timestamp_of tip,
         ns_circulating_supply = circulating,
         ns_next_block_reward = next_block_reward,
         ns_min_subsidy = MIN_SUBSIDY,
         ns_halving_interval = HALVING_INTERVAL,
         ns_blocks_until_halving = blocks_until_halving next_height,
         ns_annual_inflation = annual_inflation circulating next_block_reward,
         ns_tail_emission = (0 < MIN_SUBSIDY),
         ns_coin = COIN,
         ns_share_multiplier = WORKSHARE_TARGET_MULTIPLIER,
         ns_platform = su_platform W,
         ns_device_id = cf_device_id startup,
         ns_device_name = cf_device_name startup,
         ns_management_url = management_url startup,
         ns_uptime_seconds = saturating_sub (su_unix_time W) (su_started_at W),
         ns_emitted_supply = scheduled_supply (chain_height c)\<rparr>)"

definition node_status :: "prims \<Rightarrow> host \<Rightarrow> surroundings \<Rightarrow> admin \<Rightarrow> node_status option" where
  "node_status E H W st = map_option (status_of E H W st) (pool_witness (nd_workshares (ad_node st)))"

section \<open>Other reports\<close>

text \<open>The state snapshot; \<open>base64\<close> is the encoder of the crate of that name.\<close>

record snapshot_report =
  sr_format :: bytes
  sr_snapshot_version :: u16
  sr_height :: u64
  sr_block_hash :: hash32
  sr_state_root :: hash32
  sr_consensus_base64 :: bytes

definition state_snapshot :: "(bytes \<Rightarrow> bytes) \<Rightarrow> prims \<Rightarrow> node \<Rightarrow> snapshot_report" where
  "state_snapshot base64 E n =
     (let c = nd_chain n in
      \<lparr>sr_format = ascii ''paritr-ledger-state-v1'', sr_snapshot_version = SNAPSHOT_VERSION,
       sr_height = chain_height c, sr_block_hash = block_id E (chain_tip c),
       sr_state_root = ledger_root (ch_state c),
       sr_consensus_base64 = base64 (ledger_enc (ch_state c))\<rparr>)"

record p2p_report =
  pi_chain_id :: bytes
  pi_protocol :: u16
  pi_node_version :: bytes
  pi_node_id :: hash32
  pi_height :: u64
  pi_best_hash :: hash32
  pi_chain_work :: bytes
  pi_hashrate :: rat
  pi_peer_count :: nat
  pi_wire_path :: bytes
  pi_node_url :: "bytes option"

definition p2p_info :: "prims \<Rightarrow> host \<Rightarrow> surroundings \<Rightarrow> hash32 \<Rightarrow> admin \<Rightarrow> p2p_report option" where
  "p2p_info E H W identity st =
     (let (height, tip, work) = chain_snapshot E (nd_chain (ad_node st))
      in map_option (\<lambda>status.
        \<lparr>pi_chain_id = CHAIN_ID, pi_protocol = PROTOCOL_VERSION, pi_node_version = NODE_VERSION,
         pi_node_id = identity, pi_height = height, pi_best_hash = tip, pi_chain_work = work,
         pi_hashrate = ns_hashrate status, pi_peer_count = ns_peer_count status,
         pi_wire_path = ascii ''/p2p/v9'', pi_node_url = cf_public_url (ad_live st)\<rparr>)
        (node_status E H W st))"

text \<open>\<open>/admin/peers\<close>: the seeds first, then the configured peers that are not among them.\<close>

record peers_report =
  pe_urls :: "bytes list"
  pe_connected_peer_ids :: "hash32 list"
  pe_active :: "bytes list"
  pe_seeds :: "bytes list"
  pe_node_id :: hash32
  pe_inbound_count :: nat
  pe_connected_nodes :: nat

definition peer_list :: "config \<Rightarrow> bytes list" where
  "peer_list c = fold (\<lambda>url urls. if url \<in> set urls then urls else urls @ [url]) (cf_peers c) (cf_seed_nodes c)"

definition admin_peers :: "prims \<Rightarrow> host \<Rightarrow> surroundings \<Rightarrow> hash32 \<Rightarrow> admin \<Rightarrow> peers_report option" where
  "admin_peers E H W identity st =
     map_option (\<lambda>status.
        \<lparr>pe_urls = peer_list (ad_startup st), pe_connected_peer_ids = map fst (nd_peers (ad_node st)),
         pe_active = cf_peers (ad_startup st), pe_seeds = cf_seed_nodes (ad_startup st), pe_node_id = identity,
         pe_inbound_count = ns_connected_peers status, pe_connected_nodes = ns_network_nodes status\<rparr>)
        (node_status E H W st)"

text \<open>Whether the machine has the memory for the fast mode; \<open>files\<close> reads a file as text.\<close>

definition MINIMUM_KIB :: nat where "MINIMUM_KIB = 2621440"

fun split_inclusive :: "bytes \<Rightarrow> bytes list" where
  "split_inclusive [] = []"
| "split_inclusive (c # r) = (if c = 10 then [c] # split_inclusive r
     else case split_inclusive r of [] \<Rightarrow> [[c]] | line # rest \<Rightarrow> (c # line) # rest)"

definition str_lines :: "bytes \<Rightarrow> bytes list" where
  "str_lines text = map (\<lambda>line.
     if line \<noteq> [] \<and> last line = 10
     then let body = butlast line in if body \<noteq> [] \<and> last body = 13 then butlast body else body
     else line) (split_inclusive text)"

text \<open>The first piece of \<open>split_whitespace\<close>.\<close>

fun first_run :: "bytes \<Rightarrow> bytes" where
  "first_run [] = []"
| "first_run (c # r) = (if list_ex (\<lambda>space. str_starts space (c # r)) white_space then [] else c # first_run r)"

definition first_word :: "bytes \<Rightarrow> bytes option" where
  "first_word text = (let rest = trim_start_of white_space text
     in if rest = [] then None else Some (first_run rest))"

definition memory_total :: "bytes \<Rightarrow> nat option" where
  "memory_total meminfo =
     List.find (\<lambda>_. True) (List.map_filter (\<lambda>line.
       Option.bind (strip_prefix (ascii ''MemTotal:'') line) (\<lambda>rest.
       Option.bind (first_word rest) (parse_unsigned 64))) (str_lines meminfo))"

definition randomx_fast_available :: "(bytes \<Rightarrow> bytes option) \<Rightarrow> bool" where
  "randomx_fast_available files =
     (let small = (\<lambda>path. case files path of None \<Rightarrow> False
         | Some text \<Rightarrow> (case parse_unsigned 64 (str_trim text) of None \<Rightarrow> False
             | Some bytes \<Rightarrow> bytes div 1024 < MINIMUM_KIB))
      in if small (ascii ''/sys/fs/cgroup/memory.max'')
            \<or> small (ascii ''/sys/fs/cgroup/memory/memory.limit_in_bytes'') then False
         else case Option.bind (files (ascii ''/proc/meminfo'')) memory_total of
             None \<Rightarrow> True
           | Some kib \<Rightarrow> MINIMUM_KIB \<le> kib)"

section \<open>What the reports promise\<close>

text \<open>The subsidy is constant over an era and then halves, but never below its minimum.\<close>

lemma subsidy_era:
  assumes "0 < h"
  defines "rest \<equiv> 1600000 - (h - 1) mod 1600000"
  shows "0 < rest" "rest \<le> 1600000"
    "h \<le> h' \<Longrightarrow> h' < h + rest \<Longrightarrow> subsidy_nat h' = subsidy_nat h"
    "subsidy_nat (h + rest) = max (subsidy_nat h div 2) 50000000"
proof -
  let ?e = "(h - 1) div 1600000" and ?r = "(h - 1) mod 1600000"
  have r: "?r < 1600000" by simp
  have h: "h - 1 = ?e * 1600000 + ?r" by simp
  have span: "h - 1 + rest = ?e * 1600000 + 1600000" using h r unfolding rest_def by linarith
  show "0 < rest" "rest \<le> 1600000" using r by (simp_all add: rest_def)
  show "subsidy_nat h' = subsidy_nat h" if "h \<le> h'" "h' < h + rest"
  proof -
    have "h' - 1 < h - 1 + rest" using that assms(1) by simp
    also note span
    finally have "h' - 1 < (?e + 1) * 1600000" by simp
    moreover have "?e * 1600000 \<le> h' - 1" using that h by linarith
    ultimately have "(h' - 1) div 1600000 = ?e" by (simp add: div_nat_eqI)
    then show ?thesis using that assms(1) by (simp add: subsidy_nat_def)
  qed
  have "h + rest - 1 = (?e + 1) * 1600000" using span assms(1) by simp
  then have "(h + rest - 1) div 1600000 = ?e + 1" by (metis div_mult_self_is_m zero_less_numeral)
  moreover have "(1000000000 :: nat) div 2 ^ (?e + 1) = 1000000000 div 2 ^ ?e div 2"
    unfolding power_add power_one_right by (rule div_mult2_eq)
  moreover have "max (x div 2) 50000000 = max (max x 50000000 div 2) 50000000" for x :: nat
    by (cases "x \<le> 50000000") (auto simp: max_def)
  ultimately show "subsidy_nat (h + rest) = max (subsidy_nat h div 2) 50000000"
    using assms(1) by (simp only: subsidy_nat_def) simp
qed

lemma circulating_is_materialized: "circulating_supply c = fst (supply_state c)"
  by (simp add: circulating_supply_def supply_state_def Let_def)

lemma young_next:
  assumes "chain_ok E pow c" and "young c"
  shows "unat (saturating_add (chain_height c) 1) = length (ch_blocks c)" "0 < length (ch_blocks c)"
    "saturating_add (chain_height c) 1 = chain_height c + 1"
proof -
  note t = chain_tip_at [OF assms(1)]
  have "Suc (unat (chain_height c)) = length (ch_blocks c)" using t by simp
  moreover have "length (ch_blocks c) \<le> 2 ^ 32" using assms(2) by (simp add: young_def)
  moreover have "ch_blocks c \<noteq> []" using t(2) by auto
  ultimately show l: "unat (saturating_add (chain_height c) 1) = length (ch_blocks c)" "0 < length (ch_blocks c)"
    by (simp_all add: unat_saturating_add)
  have "unat (chain_height c + 1) = length (ch_blocks c)"
    using chain_ok_tip(3) [OF assms(1)] assms(2) by (simp add: young_def chain_height_def)
  with l show "saturating_add (chain_height c) 1 = chain_height c + 1" by (simp add: word_unat_eq_iff)
qed

lemma unat_blocks_until_halving:
  assumes "unat next = Suc k"
  shows "unat (blocks_until_halving next) = 1600000 - k mod 1600000"
proof -
  have "unat (saturating_sub next 1) = k" using assms by (simp add: saturating_sub_def word_le_nat_alt unat_sub)
  then have "unat (saturating_sub next 1 mod HALVING_INTERVAL) = k mod 1600000"
    by (simp add: unat_mod unat_subsidy_consts)
  moreover from this have "saturating_sub next 1 mod HALVING_INTERVAL \<le> HALVING_INTERVAL"
    by (simp add: word_le_nat_alt unat_subsidy_consts)
  ultimately show ?thesis unfolding blocks_until_halving_def by (subst unat_sub) (simp_all add: unat_subsidy_consts)
qed

lemma status_answers:
  assumes "node_ok E pow (ad_node st)"
  obtains p where "node_status E H W st = Some (status_of E H W st p)"
proof -
  have live: "live_pool E pow (ch_blocks (nd_chain (ad_node st))) (ch_state (nd_chain (ad_node st))) (nd_workshares (ad_node st))"
    using assms by (simp add: node_ok_def shares_part_def)
  obtain p where "pool_witness (nd_workshares (ad_node st)) = Some p"
    by (rule pool_witness_Some [OF live_pool_ok [OF live]])
  then show thesis using that by (simp add: node_status_def)
qed

text \<open>C38: The status report is a true forecast: it always answers, and whichever valid block comes next has
  the height, parent, target and difficulty it announces and issues exactly the reward it announces on
  top of the emitted supply.  That reward stays for the announced number of blocks and then halves,
  down to the minimum; and no more than the emitted supply is reported as circulating.\<close>

theorem status_forecasts_block:
  assumes run: "node_run E pow (ad_node st)" and young: "young (nd_chain (ad_node st))"
    and v: "validate_block E pow now b (ch_blocks (nd_chain (ad_node st))) (ch_state (nd_chain (ad_node st))) = Inr s'"
    and h0: "bh_height (blk_header b) \<noteq> 0" and typed: "block_typed E b"
  shows "\<exists>r. node_status E H W st = Some r
    \<and> bh_height (blk_header b) = ns_height r + 1 \<and> bh_previous_block (blk_header b) = ns_best_block_hash r
    \<and> format_08x (bh_bits (blk_header b)) = ns_next_bits r
    \<and> displayed_difficulty (bh_bits (blk_header b)) = ns_difficulty r
    \<and> ledger_supply s' = unat (ns_emitted_supply r) + unat (ns_next_block_reward r)
    \<and> ns_circulating_supply r \<le> ns_emitted_supply r
    \<and> (\<forall>h. unat (ns_height r) < unat h \<and> unat h \<le> unat (ns_height r) + unat (ns_blocks_until_halving r)
          \<longrightarrow> block_subsidy h = ns_next_block_reward r)
    \<and> (\<forall>h. unat h = unat (ns_height r) + unat (ns_blocks_until_halving r) + 1
          \<longrightarrow> block_subsidy h = max (ns_next_block_reward r div 2) MIN_SUBSIDY)"
proof -
  let ?c = "nd_chain (ad_node st)" and ?next = "saturating_add (chain_height (nd_chain (ad_node st))) 1"
  have ok: "node_ok E pow (ad_node st)" by (rule node_run_ok [OF run])
  then have cok: "chain_ok E pow ?c" by (simp add: node_ok_def)
  obtain r p where r: "node_status E H W st = Some r" "r = status_of E H W st p"
    by (rule status_answers [OF ok]) blast
  have f: "ns_emitted_supply r = scheduled_supply (chain_height ?c)" "ns_circulating_supply r = circulating_supply ?c"
    "ns_height r = chain_height ?c" "ns_best_block_hash r = block_id E (chain_tip ?c)"
    "ns_next_bits r = format_08x (next_bits (ch_blocks ?c))" "ns_difficulty r = displayed_difficulty (next_bits (ch_blocks ?c))"
    "ns_next_block_reward r = block_subsidy ?next" "ns_blocks_until_halving r = blocks_until_halving ?next"
    by (simp_all add: r(2) status_of_def Let_def)
  note yn = young_next [OF cok young]
  have emitted: "unat (ns_emitted_supply r) = ledger_supply (ch_state ?c)"
    using scheduled_supply_exact [OF cok young] by (simp add: f)
  have sum: "unat (fst (supply_state ?c)) + unat (fst (snd (supply_state ?c))) = ledger_supply (ch_state ?c)"
    using chain_ok_ledger(2) [OF cok young] by (intro supply_state_numbers) (simp add: unat_MAX_MONEY)
  have circulating: "ns_circulating_supply r \<le> ns_emitted_supply r"
    using sum emitted by (simp add: word_le_nat_alt f(2) circulating_is_materialized)
  have until: "unat (ns_blocks_until_halving r) = 1600000 - (length (ch_blocks ?c) - 1) mod 1600000"
    using unat_blocks_until_halving [of ?next "length (ch_blocks ?c) - 1"] yn by (simp add: f)
  have height: "Suc (unat (ns_height r)) = length (ch_blocks ?c)"
    using chain_tip_at [OF cok] by (simp add: f)
  note era = subsidy_era [OF yn(2), folded until]
  have reward: "unat (ns_next_block_reward r) = subsidy_nat (length (ch_blocks ?c))"
    by (simp add: f unat_block_subsidy yn(1))
  have steady: "block_subsidy h = ns_next_block_reward r"
    if "unat (ns_height r) < unat h" "unat h \<le> unat (ns_height r) + unat (ns_blocks_until_halving r)" for h
    using that height era(3) [of "unat h"] reward by (simp add: word_unat_eq_iff unat_block_subsidy)
  have halved: "block_subsidy h = max (ns_next_block_reward r div 2) MIN_SUBSIDY"
    if "unat h = unat (ns_height r) + unat (ns_blocks_until_halving r) + 1" for h
  proof -
    have "unat h = length (ch_blocks ?c) + unat (ns_blocks_until_halving r)" using that height by simp
    moreover have "unat (max a b) = max (unat a) (unat b)" for a b :: u64 by (simp add: max_def word_le_nat_alt)
    ultimately show ?thesis
      using era(4) reward by (simp add: word_unat_eq_iff unat_block_subsidy unat_div unat_subsidy_consts)
  qed
  have inv: "history_inv E (ch_blocks ?c) (ch_state ?c)" by (rule chain_ok_inv [OF cok])
  have "validate_header_context E (blk_header b) (last (ch_blocks ?c)) (ch_blocks ?c) now = Inr ()"
    using validate_block_InrE [OF v h0] by metis
  then have header: "bh_height (blk_header b) = ns_height r + 1" "bh_previous_block (blk_header b) = ns_best_block_hash r"
    "format_08x (bh_bits (blk_header b)) = ns_next_bits r"
    "displayed_difficulty (bh_bits (blk_header b)) = ns_difficulty r"
    by (simp_all add: header_context_Inr f chain_height_def chain_tip_def)
  have "ledger_supply s' = unat (ns_emitted_supply r) + unat (ns_next_block_reward r)"
    using inv extend_inv [OF inv v h0 typed] by (simp add: history_inv_def reward emitted)
  then show ?thesis using r(1) header circulating steady halved by blast
qed

definition sample_surroundings :: surroundings where
  "sample_surroundings = \<lparr>su_unix_time = sample_now, su_unix_millis = sample_now * 1000,
     su_started_at = sample_now - 60,
     su_stats = \<lparr>ms_hashes = 6000, ms_blocks = 0, ms_workshares = 2,
       ms_started_millis = (sample_now - 60) * 1000, ms_last_hash_millis = sample_now * 1000\<rparr>,
     su_platform = ascii ''linux/x86_64''\<rparr>"

theorem status_forecasts_block_witness:
  "\<exists>(st :: admin) r. ch_blocks (nd_chain (ad_node st)) = [genesis sample_env]
    \<and> node_status sample_env sample_host sample_surroundings st = Some r
    \<and> ns_height r + 1 = 1 \<and> unat (ns_emitted_supply r) + unat (ns_next_block_reward r) = 1000000000"
proof -
  obtain db w where r: "node_run sample_env sample_pow
      (node_open sample_config sample_env (sample_genesis_chain w) db)" (is "node_run _ _ ?n") by (rule sample_run)
  let ?st = "\<lparr>ad_disk = Stored sample_settings, ad_startup = sample_settings, ad_live = sample_settings,
    ad_enabled = True, ad_restart = False, ad_node = ?n\<rparr>"
  have g: "ch_blocks (nd_chain ?n) = [genesis sample_env]" "ch_state (nd_chain ?n) = ledger_default sample_env"
    by (simp_all add: node_open_def sample_genesis_chain_def)
  then have y: "young (nd_chain ?n)" by (simp add: young_def)
  have "ledger_supply (sample_state sample_alice) = 1000000000"
    using valid_history_inv [OF sample_history] by (simp add: history_inv_def subsidy_nat_def)
  then show ?thesis
    using status_forecasts_block [of sample_env sample_pow ?st sample_now sample_block "sample_state sample_alice"
        sample_host sample_surroundings] r y g sample_block_valid sample_block_typed sample_block_height
    by (intro exI [of _ ?st]) auto
qed

text \<open>C12: The state snapshot restores the ledger: what the report carries decodes, through the checks of the
  snapshot decoder, to the ledger of the node with its tree, and the state root beside it is the one in
  the header of the tip; while the entries fit the limits of the codec and unless two state keys that
  occur in the chain collide.\<close>

theorem snapshot_restores:
  assumes run: "node_run E pow n"
    and base64: "\<And>bytes. unbase64 (base64 bytes) = Some bytes"
    and size: "length (led_accounts (ch_state (nd_chain n))) \<le> 2000000" "length (led_pending (ch_state (nd_chain n))) \<le> 4000000"
      "length (ledger_enc (ch_state (nd_chain n))) \<le> MAX_CONSENSUS_ALLOCATION"
  defines "keys \<equiv> history_keys (ch_blocks (nd_chain n))" and "report \<equiv> state_snapshot base64 E n"
  shows "sr_state_root report = bh_state_root (blk_header (chain_tip (nd_chain n)))
    \<and> sr_block_hash report = block_id E (chain_tip (nd_chain n))
    \<and> (map_option (consensus_decode (ledger_dec E)) (unbase64 (sr_consensus_base64 report))
          = Some (Inr (ch_state (nd_chain n)))
       \<or> collide (state_key_hash E) keys keys)"
proof -
  let ?c = "nd_chain n"
  have "chain_ok E pow ?c" using node_run_ok [OF run] by (simp add: node_ok_def)
  then have vh: "valid_history E pow (ch_blocks ?c) (ch_state ?c)" by (simp add: chain_ok_def)
  have "consensus_decode (ledger_dec E) (ledger_enc (ch_state ?c)) = Inr (ch_state ?c)"
    if nc: "\<not> collide (state_key_hash E) keys keys"
  proof -
    have m: "mirrored E keys (ch_state ?c)" using history_mirrored [OF vh] nc by (simp add: keys_def)
    have "inj_on (state_key_hash E) keys" using nc by (auto simp: collide_def inj_on_def)
    then have "ledger_wf E (ch_state ?c)"
      using m size(1,2) by (intro ledger_wfI [where K = keys]) (simp_all add: mirrored_def)
    then show ?thesis using size(3) by (rule ledger_codec.round_trip)
  qed
  then show ?thesis
    using last_state_root [OF vh] by (auto simp: report_def state_snapshot_def Let_def base64 chain_tip_def)
qed

theorem snapshot_restores_witness:
  "\<exists>(n :: node). ch_blocks (nd_chain n) = [genesis sample_env]
    \<and> consensus_decode (ledger_dec sample_env) (sr_consensus_base64 (state_snapshot (\<lambda>bytes. bytes) sample_env n))
      = Inr (ledger_default sample_env)"
proof -
  obtain db w where r: "node_run sample_env sample_pow
      (node_open sample_config sample_env (sample_genesis_chain w) db)" (is "node_run _ _ ?n") by (rule sample_run)
  have g: "ch_blocks (nd_chain ?n) = [genesis sample_env]" "ch_state (nd_chain ?n) = ledger_default sample_env"
    by (simp_all add: node_open_def sample_genesis_chain_def)
  have "history_keys [genesis sample_env] = {}"
    by (simp add: history_keys_def history_accounts_def block_accounts_def genesis_def witness_empty_def)
  then have "\<not> collide (state_key_hash sample_env) (history_keys (ch_blocks (nd_chain ?n))) (history_keys (ch_blocks (nd_chain ?n)))"
    by (simp add: collide_def g)
  moreover have "length (led_accounts (ledger_default sample_env)) \<le> 2000000"
    "length (led_pending (ledger_default sample_env)) \<le> 4000000"
    "length (ledger_enc (ledger_default sample_env)) \<le> MAX_CONSENSUS_ALLOCATION"
    by (simp_all add: ledger_default_def ledger_enc_def put_list_def limit_defs)
  ultimately show ?thesis
    using snapshot_restores [OF r, of Some "\<lambda>bytes. bytes"] by (intro exI [of _ ?n]) (simp add: g)
qed

end
