(* ===== verification/Answers.thy ===== *)
theory Answers
  imports Json Status
begin

text \<open>
The answers of the interface as JSON, \<open>src/rpc.rs\<close> and the reports of \<open>src/node.rs\<close>, and the tail of the log.
  The members of an object stand in the order of the code (\<open>serde_json\<close> sorts those of its \<open>json!\<close> values by
  name when it prints them); numbers in floating point are the exact rationals they approximate.
\<close>

section \<open>Values\<close>

definition json_text :: "string \<Rightarrow> json" where
  "json_text s = JText (ascii s)"

definition json_texts :: "bytes list \<Rightarrow> json" where
  "json_texts texts = json_list JText texts"

definition json_mode :: "mining_mode \<Rightarrow> json" where
  "json_mode mode = json_text (case mode of LightMode \<Rightarrow> ''light'' | FastMode \<Rightarrow> ''fast'')"

definition event_debug :: "prims \<Rightarrow> chain_event \<Rightarrow> bytes" where
  "event_debug E event =
     (case event of
        Extended k height \<Rightarrow>
          ascii ''Extended { block: '' @ hash_to_string E k @ ascii '', height: '' @ decimal (unat height) @ ascii '' }''
      | Reorganized old new fork \<Rightarrow>
          ascii ''Reorganized { old_tip: '' @ hash_to_string E old @ ascii '', new_tip: '' @ hash_to_string E new
          @ ascii '', fork_height: '' @ decimal fork @ ascii '' }''
      | Known \<Rightarrow> ascii ''Known''
      | SideChain \<Rightarrow> ascii ''SideChain'')"

section \<open>Answers without state\<close>

definition health_answer :: json where
  "health_answer = json_object
     [(''status'', json_text ''ok''), (''chain_id'', JText CHAIN_ID), (''protocol'', json_word PROTOCOL_VERSION),
      (''protocol_version'', json_word PROTOCOL_VERSION), (''node_version'', JText NODE_VERSION)]"

definition chain_params_answer :: json where
  "chain_params_answer = json_object
     [(''chain_id'', JText CHAIN_ID), (''protocol_version'', json_word PROTOCOL_VERSION),
      (''header_version'', json_word HEADER_VERSION), (''target_block_time'', json_nat TARGET_BLOCK_TIME),
      (''daa'', json_text ''ASERT integer fixed-point''), (''asert_half_life'', JInt ASERT_HALF_LIFE),
      (''initial_subsidy'', json_word INITIAL_SUBSIDY), (''minimum_subsidy'', json_word MIN_SUBSIDY),
      (''halving_interval'', json_word HALVING_INTERVAL), (''finder_share_percent'', json_word FINDER_SHARE_PERCENT),
      (''reward_window'', json_nat REWARD_WINDOW), (''reward_maturity'', json_word REWARD_MATURITY),
      (''workshare_multiplier'', json_nat WORKSHARE_TARGET_MULTIPLIER),
      (''workshare_target_seconds'', json_nat (TARGET_BLOCK_TIME div WORKSHARE_TARGET_MULTIPLIER)),
      (''randomx_version'', json_text ''1.2.3''), (''randomx_epoch_blocks'', json_word RANDOMX_EPOCH_BLOCKS),
      (''randomx_seed_lag'', json_word RANDOMX_SEED_LAG), (''consensus_minimum_fee'', JInt 0),
      (''relay_minimum_fee'', json_word DEFAULT_MIN_RELAY_FEE), (''relay_dust_limit'', json_word DEFAULT_DUST_LIMIT),
      (''maximum_reorg_depth'', JNull)]"

definition fee_estimate_answer :: json where
  "fee_estimate_answer = json_object
     [(''min_fee'', json_word DEFAULT_MIN_RELAY_FEE), (''recommended_fee'', json_word DEFAULT_MIN_RELAY_FEE),
      (''dust_limit'', json_word DEFAULT_DUST_LIMIT), (''mempool_pressure'', JFloat 0)]"

definition whoami_answer :: json where
  "whoami_answer = json_object [(''chain_id'', JText CHAIN_ID)]"

section \<open>Answers about the node\<close>

definition status_answer :: "prims \<Rightarrow> node_status \<Rightarrow> json" where
  "status_answer E r = json_object
     [(''status'', JText (ns_status r)), (''node_version'', JText (ns_node_version r)),
      (''protocol_version'', json_word (ns_protocol_version r)), (''chain_id'', JText (ns_chain_id r)),
      (''genesis_hash'', json_hash E (ns_genesis_hash r)), (''height'', json_word (ns_height r)),
      (''best_block_hash'', json_hash E (ns_best_block_hash r)), (''state_root'', json_hash E (ns_state_root r)),
      (''cumulative_work'', JText (ns_cumulative_work r)), (''chain_work'', JText (ns_chain_work r)),
      (''difficulty_bits'', JText (ns_difficulty_bits r)), (''bits'', JText (ns_bits r)),
      (''tip_bits'', JText (ns_tip_bits r)), (''next_bits'', JText (ns_next_bits r)),
      (''target_block_time'', json_nat (ns_target_block_time r)),
      (''workshare_target_seconds'', json_nat (ns_workshare_target_seconds r)),
      (''reward_window'', json_nat (ns_reward_window r)),
      (''finder_share_percent'', json_word (ns_finder_share_percent r)),
      (''reward_maturity'', json_word (ns_reward_maturity r)), (''shares_in_window'', json_nat (ns_shares_in_window r)),
      (''mempool_transactions'', json_nat (ns_mempool_transactions r)), (''mempool_size'', json_nat (ns_mempool_size r)),
      (''mempool_bytes'', json_nat (ns_mempool_bytes r)), (''live_workshares'', json_nat (ns_live_workshares r)),
      (''connected_peers'', json_nat (ns_connected_peers r)), (''peer_count'', json_nat (ns_peer_count r)),
      (''network_nodes'', json_nat (ns_network_nodes r)), (''active_miners'', json_nat (ns_active_miners r)),
      (''active_miners_scope'', JText (ns_active_miners_scope r)), (''node_enabled'', JBool (ns_node_enabled r)),
      (''mining_enabled'', JBool (ns_mining_enabled r)), (''mining_active'', JBool (ns_mining_active r)),
      (''miner_address'', json_option (json_address E) (ns_miner_address r)),
      (''mining_processes'', json_nat (ns_mining_processes r)),
      (''mining_processes_config'', json_nat (ns_mining_processes_config r)),
      (''mining_intensity'', json_word (ns_mining_intensity r)), (''cpu_total'', json_nat (ns_cpu_total r)),
      (''randomx_mode'', json_mode (ns_randomx_mode r)),
      (''randomx_fast_available'', JBool (ns_randomx_fast_available r)), (''hashrate'', JFloat (ns_hashrate r)),
      (''network_hashrate'', JFloat (ns_network_hashrate r)), (''estimated_hashrate'', JFloat (ns_estimated_hashrate r)),
      (''node_shares_submitted'', json_word (ns_node_shares_submitted r)), (''blocks_found'', json_nat (ns_blocks_found r)),
      (''blocks_found_local'', json_word (ns_blocks_found_local r)), (''difficulty'', JFloat (ns_difficulty r)),
      (''tip_difficulty'', JFloat (ns_tip_difficulty r)), (''avg_block_time'', JFloat (ns_avg_block_time r)),
      (''last_block_time'', json_word (ns_last_block_time r)), (''circulating_supply'', json_word (ns_circulating_supply r)),
      (''next_block_reward'', json_word (ns_next_block_reward r)), (''min_subsidy'', json_word (ns_min_subsidy r)),
      (''halving_interval'', json_word (ns_halving_interval r)),
      (''blocks_until_halving'', json_word (ns_blocks_until_halving r)),
      (''annual_inflation'', JFloat (ns_annual_inflation r)), (''tail_emission'', JBool (ns_tail_emission r)),
      (''coin'', json_word (ns_coin r)), (''share_multiplier'', json_nat (ns_share_multiplier r)),
      (''platform'', JText (ns_platform r)), (''device_id'', JText (ns_device_id r)),
      (''device_name'', JText (ns_device_name r)), (''management_url'', JText (ns_management_url r)),
      (''uptime_seconds'', json_word (ns_uptime_seconds r)), (''emitted_supply'', json_word (ns_emitted_supply r))]"

definition json_supply :: "supply_answer \<Rightarrow> json" where
  "json_supply r = json_object
     [(''circulating'', json_word (sa_circulating r)), (''circulating_supply'', json_word (sa_circulating r)),
      (''liquid_supply'', json_word (sa_circulating r)), (''emitted_supply'', json_word (sa_emitted r)),
      (''scheduled_supply'', json_word (sa_emitted r)), (''materialized_supply'', json_word (sa_circulating r)),
      (''allocated_supply'', json_word (sa_allocated r)), (''unissued_subsidy'', json_word (sa_unissued r)),
      (''reward_credits_outstanding'', json_word (sa_outstanding r)),
      (''reward_credit_accounts'', json_nat (sa_reward_accounts r)), (''accounts'', json_nat (sa_accounts r)),
      (''max_supply'', JNull), (''coin'', json_word COIN)]"

definition json_p2p_info :: "prims \<Rightarrow> p2p_report \<Rightarrow> json" where
  "json_p2p_info E r = json_object
     [(''chain_id'', JText (pi_chain_id r)), (''protocol'', json_word (pi_protocol r)),
      (''protocol_version'', json_word (pi_protocol r)), (''node_version'', JText (pi_node_version r)),
      (''node_id'', json_hash E (pi_node_id r)), (''height'', json_word (pi_height r)),
      (''best_hash'', json_hash E (pi_best_hash r)), (''chain_work'', JText (pi_chain_work r)),
      (''hashrate'', JFloat (pi_hashrate r)), (''peer_count'', json_nat (pi_peer_count r)),
      (''p2p_wire_path'', JText (pi_wire_path r)), (''node_url'', json_option JText (pi_node_url r))]"

text \<open>\<open>own as f64 * 100.0 / total as f64\<close> as an exact number.\<close>

definition json_distribution :: "u64 \<times> nat \<times> nat \<times> nat \<times> u64 \<times> u64 \<Rightarrow> json" where
  "json_distribution r =
     (case r of (height, all_shares, own, miners, pending, entitlement) \<Rightarrow> json_object
        [(''height'', json_word height), (''window'', json_nat REWARD_WINDOW),
         (''finder_share_percent'', json_word FINDER_SHARE_PERCENT),
         (''share_multiplier'', json_nat WORKSHARE_TARGET_MULTIPLIER), (''total_shares'', json_nat all_shares),
         (''active_miners'', json_nat miners),
         (''active_miners_scope'', json_text ''connected_node_identities_including_self''),
         (''address_shares'', json_nat own),
         (''address_share_percent'', JFloat (if all_shares = 0 then 0 else of_nat own * 100 / of_nat all_shares)),
         (''address_next_entitlement'', json_word entitlement), (''address_reward_credit'', JInt 0),
         (''address_immature_rewards'', json_word pending), (''address_estimated_payout'', json_word entitlement),
         (''coin'', json_word COIN)])"

definition json_rewards :: "prims \<Rightarrow> address \<Rightarrow> u64 \<times> u64 \<times> u64 \<Rightarrow> json" where
  "json_rewards E a r =
     (case r of (all_mined, matured, pending) \<Rightarrow> json_object
        [(''address'', json_address E a), (''total_mined'', json_word all_mined),
         (''reward_maturity_blocks'', json_word REWARD_MATURITY), (''matured_rewards'', json_word matured),
         (''immature'', json_word pending), (''pending'', json_word pending), (''coin'', json_word COIN)])"

definition json_block_response :: "prims \<Rightarrow> hash32 \<times> block \<Rightarrow> json" where
  "json_block_response E r = json_object [(''id'', json_hash E (fst r)), (''block'', json_block E (snd r))]"

definition json_account :: "prims \<Rightarrow> address \<Rightarrow> address_response \<Rightarrow> json" where
  "json_account E a r = json_object
     [(''address'', json_address E a), (''balance'', json_word (ar_balance r)), (''nonce'', json_word (ar_nonce r)),
      (''pending_rewards'', json_word (ar_pending_rewards r)), (''confirmed'', json_word (ar_balance r)),
      (''pending_in'', json_word (ar_pending_in r)), (''pending_out'', json_word (ar_pending_out r)),
      (''spendable'', json_word (ar_spendable r)), (''next_nonce'', json_word (ar_next_nonce r)),
      (''immature'', json_word (ar_pending_rewards r)), (''reward_credit'', JInt 0),
      (''height'', json_word (ar_height r)), (''coin'', json_word COIN)]"

definition json_history_entry :: "prims \<Rightarrow> history_entry \<Rightarrow> json" where
  "json_history_entry E entry =
     (case entry of
        TransferEntry t \<Rightarrow> json_object
          [(''txid'', json_hash E (te_txid t)),
           (''direction'', json_text (case te_direction t of TransferOut \<Rightarrow> ''out'' | TransferIn \<Rightarrow> ''in'')),
           (''counterparty'', json_address E (te_counterparty t)), (''amount'', json_word (te_amount t)),
           (''fee'', json_word (te_fee t)), (''timestamp'', json_word (te_timestamp t)),
           (''height'', json_option json_word (te_height t)), (''confirmations'', json_word (te_confirmations t)),
           (''status'', json_text (te_status t)), (''matured'', JBool (te_matured t))]
      | RewardEntry r \<Rightarrow> json_object
          [(''txid'', json_hash E (re_txid r)), (''direction'', json_text ''reward''), (''amount'', json_word (re_amount r)),
           (''finder_amount'', json_word (re_finder_amount r)), (''workshare_amount'', json_word (re_workshare_amount r)),
           (''fee'', json_word (re_fee r)), (''timestamp'', json_word (re_timestamp r)),
           (''height'', json_word (re_height r)), (''confirmations'', json_word (re_confirmations r)),
           (''status'', json_text (re_status r)), (''matured'', JBool (re_matured r)),
           (''maturity_height'', json_word (re_maturity_height r))])"

definition json_history :: "prims \<Rightarrow> history_entry list \<times> nat \<times> nat \<Rightarrow> json" where
  "json_history E r =
     (case r of (entries, page, start) \<Rightarrow> json_object
        [(''transactions'', json_list (json_history_entry E) entries), (''limit'', json_nat page), (''offset'', json_nat start)])"

definition json_found_transaction :: "prims \<Rightarrow> hash32 \<times> transaction \<Rightarrow> json" where
  "json_found_transaction E r = json_object [(''id'', json_hash E (fst r)), (''transaction'', json_transaction E (snd r))]"

definition json_mining_template :: "(bytes \<Rightarrow> bytes) \<Rightarrow> prims \<Rightarrow> template_response \<Rightarrow> json" where
  "json_mining_template base64 E r = json_object
     [(''block'', json_block E (tr_block r)), (''block_binary_base64'', JText (base64 (tr_block_binary r))),
      (''template_id'', json_hash E (tr_template_id r)), (''randomx_seed_hex'', JText (tr_seed_hex r)),
      (''block_target_hex'', JText (tr_block_target_hex r)), (''workshare_target_hex'', JText (tr_workshare_target_hex r)),
      (''generation'', json_word (tr_generation r))]"

section \<open>Answers of the administration\<close>

definition admin_auth_answer :: "prims \<Rightarrow> admin \<Rightarrow> json" where
  "admin_auth_answer E st =
     (let config = ad_live st in json_object
        [(''authenticated'', JBool True), (''node_version'', JText NODE_VERSION),
         (''miner_address'', json_option (json_address E) (cf_miner_address config)),
         (''mining_enabled'', JBool (cf_mining_enabled config)), (''node_enabled'', JBool (ad_enabled st)),
         (''public_url'', json_option JText (cf_public_url config))])"

definition admin_config_answer :: "prims \<Rightarrow> admin \<Rightarrow> json" where
  "admin_config_answer E st =
     (let config = ad_live st; startup = ad_startup st in json_object
        [(''network'', JText (cf_network startup)), (''public_bind'', JText (cf_public_bind startup)),
         (''admin_bind'', JText (cf_admin_bind startup)), (''management_bind'', JText (cf_management_bind startup)),
         (''randomx_mode'', json_mode (cf_randomx_mode config)), (''node_enabled'', JBool (ad_enabled st)),
         (''mining_enabled'', JBool (cf_mining_enabled config)), (''mining_threads'', json_nat (cf_mining_threads config)),
         (''mining_intensity'', json_word (cf_mining_intensity config)),
         (''miner_address'', json_option (json_address E) (cf_miner_address config)),
         (''public_url'', json_option JText (cf_public_url config)),
         (''portal_url'', json_option JText (cf_portal_url config)),
         (''portal_paired'', JBool (cf_portal_agent_id config \<noteq> None)), (''device_id'', JText (cf_device_id startup)),
         (''device_name'', JText (cf_device_name startup)),
         (''restart_policy'', json_text ''performance, public URL and pairing apply live; RandomX mode and device name require restart'')])"

text \<open>The answers to changes; the handlers have the configuration they saved, which is the live one then.\<close>

definition config_update_answer :: "admin \<Rightarrow> json" where
  "config_update_answer st =
     (let config = ad_live st in json_object
        [(''status'', json_text ''success''), (''device_name'', JText (cf_device_name config)),
         (''public_url'', json_option JText (cf_public_url config)),
         (''restart_scheduled'', JBool (cf_device_name config \<noteq> cf_device_name (ad_startup st)))])"

definition mining_update_answer :: "prims \<Rightarrow> host \<Rightarrow> admin \<Rightarrow> json" where
  "mining_update_answer E H st =
     (let config = ad_live st in json_object
        [(''status'', json_text ''success''),
         (''miner_address'', json_option (json_address E) (cf_miner_address config)),
         (''mining_enabled'', JBool (cf_mining_enabled config)), (''mining_processes'', json_nat (cf_mining_threads config)),
         (''mining_processes_config'', json_nat (cf_mining_threads config)),
         (''mining_intensity'', json_word (cf_mining_intensity config)), (''randomx_mode'', json_mode (cf_randomx_mode config)),
         (''randomx_fast_available'', JBool (ho_fast_available H)), (''cpu_total'', json_nat (ho_threads H)),
         (''restart_scheduled'', JBool (cf_randomx_mode config \<noteq> cf_randomx_mode (ad_startup st)))])"

definition pair_answer :: "bytes \<Rightarrow> json" where
  "pair_answer agent = json_object
     [(''status'', json_text ''success''), (''agent_id'', JText agent), (''restart_scheduled'', JBool False)]"

definition unpair_answer :: json where
  "unpair_answer = json_object [(''status'', json_text ''success''), (''restart_scheduled'', JBool False)]"

definition peers_answer :: "bytes list \<Rightarrow> json" where
  "peers_answer peers = json_object
     [(''status'', json_text ''success''), (''peers'', json_texts peers), (''restart_scheduled'', JBool True)]"

definition unban_answer :: "bytes \<Rightarrow> json" where
  "unban_answer ident = json_object [(''status'', json_text ''success''), (''unbanned'', JText ident)]"

definition switch_answer :: "bool \<Rightarrow> json" where
  "switch_answer enabled = json_object
     [(''status'', json_text ''success''), (''node_enabled'', JBool enabled), (''restart_scheduled'', JBool False)]"

definition restart_answer :: json where
  "restart_answer = json_object [(''status'', json_text ''success''), (''restart_scheduled'', JBool True)]"

definition sync_answer :: "admin \<Rightarrow> json" where
  "sync_answer st = json_object
     [(''requested'', JBool True), (''replaced'', JBool False), (''height'', json_word (chain_height (nd_chain (ad_node st))))]"

definition json_peers :: "prims \<Rightarrow> peers_report \<Rightarrow> json" where
  "json_peers E r = json_object
     [(''peers'', json_list (\<lambda>url. json_object
         [(''url'', JText url), (''failures'', JInt 0), (''last_seen'', JInt 0), (''height'', JNull), (''hashrate'', JInt 0)])
         (pe_urls r)),
      (''connected_peer_ids'', json_list (json_hash E) (pe_connected_peer_ids r)),
      (''active'', json_texts (pe_active r)), (''seeds'', json_texts (pe_seeds r)), (''node_id'', json_hash E (pe_node_id r)),
      (''inbound_count'', json_nat (pe_inbound_count r)), (''connected_nodes'', json_nat (pe_connected_nodes r))]"

definition json_mempool :: "prims \<Rightarrow> transaction list \<Rightarrow> json" where
  "json_mempool E ts = json_object [(''count'', json_nat (length ts)), (''transactions'', json_list (json_transaction E) ts)]"

definition admin_blocks_answer :: "prims \<Rightarrow> bytes option \<Rightarrow> node \<Rightarrow> json" where
  "admin_blocks_answer E query n = json_object
     [(''height'', json_word (chain_height (nd_chain n))),
      (''blocks'', json_list (\<lambda>(height, k, timestamp, txs, reward, b). json_object
         [(''height'', json_word height), (''hash'', json_hash E k), (''timestamp'', json_word timestamp),
          (''tx_count'', json_nat txs), (''difficulty'', JFloat (displayed_difficulty (bh_bits (blk_header b)))),
          (''reward'', json_word reward), (''block'', json_block E b)]) (admin_blocks E query n))]"

definition json_snapshot :: "prims \<Rightarrow> snapshot_report \<Rightarrow> json" where
  "json_snapshot E r = json_object
     [(''format'', JText (sr_format r)), (''snapshot_version'', json_word (sr_snapshot_version r)),
      (''height'', json_word (sr_height r)), (''block_hash'', json_hash E (sr_block_hash r)),
      (''state_root'', json_hash E (sr_state_root r)), (''consensus_base64'', JText (sr_consensus_base64 r))]"
section \<open>The log\<close>

text \<open>\<open>String::from_utf8_lossy\<close>: the length of the next character, or of the longest beginning of one that
  breaks off, and whether it is whole; each that is not becomes U+FFFD.\<close>

definition utf8_head :: "u8 \<Rightarrow> bytes \<Rightarrow> nat \<times> bool" where
  "utf8_head b0 r =
     (let cont = \<lambda>i. i < length r \<and> utf8_cont (r ! i); second = (r \<noteq> [] \<and> utf8_second b0 (r ! 0)) in
      if b0 < 0x80 then (1, True)
      else if 0xC2 \<le> b0 \<and> b0 \<le> 0xDF then (if cont 0 then (2, True) else (1, False))
      else if 0xE0 \<le> b0 \<and> b0 \<le> 0xEF then
        (if \<not> second then (1, False) else if cont 1 then (3, True) else (2, False))
      else if 0xF0 \<le> b0 \<and> b0 \<le> 0xF4 then
        (if \<not> second then (1, False) else if \<not> cont 1 then (2, False) else if cont 2 then (4, True) else (3, False))
      else (1, False))"

lemma utf8_head_pos: "0 < fst (utf8_head b r)"
  by (simp add: utf8_head_def Let_def)

function from_utf8_lossy :: "bytes \<Rightarrow> bytes" where
  "from_utf8_lossy [] = []"
| "from_utf8_lossy (b # r) =
     (case utf8_head b r of (k, whole) \<Rightarrow>
        (if whole then take k (b # r) else [0xEF, 0xBF, 0xBD]) @ from_utf8_lossy (drop k (b # r)))"
  by pat_completeness auto
termination
  by (relation "measure length") (use utf8_head_pos in \<open>auto simp: prod_eq_iff neq0_conv\<close>)

definition LOG_TAIL_BYTES :: nat where "LOG_TAIL_BYTES = 512 * 1024"

text \<open>\<open>content\<close> is what the file holds, if it can be opened.\<close>

definition tail_log :: "bytes option \<Rightarrow> bytes option" where
  "tail_log content = map_option (\<lambda>bs. from_utf8_lossy (drop (length bs - LOG_TAIL_BYTES) bs)) content"

definition log_lines :: "bytes option \<Rightarrow> bytes option \<Rightarrow> bytes list" where
  "log_lines query content =
     (let text = (case tail_log content of None \<Rightarrow> [] | Some text \<Rightarrow> text)
      in rev (take (page_limit 200 1000 query) (rev (str_lines text))))"

definition admin_logs_answer :: "bytes option \<Rightarrow> bytes option \<Rightarrow> json" where
  "admin_logs_answer query content = json_object [(''lines'', json_texts (log_lines query content))]"

lemma utf8_steps:
  "b0 < 0x80 \<Longrightarrow> utf8_valid (b0 # rest) = utf8_valid rest"
  "\<not> b0 < 0x80 \<Longrightarrow> 0xC2 \<le> b0 \<Longrightarrow> b0 \<le> 0xDF \<Longrightarrow> utf8_valid (b0 # b1 # rest) = (utf8_cont b1 \<and> utf8_valid rest)"
  "\<not> b0 < 0x80 \<Longrightarrow> \<not> (0xC2 \<le> b0 \<and> b0 \<le> 0xDF) \<Longrightarrow> 0xE0 \<le> b0 \<Longrightarrow> b0 \<le> 0xEF \<Longrightarrow>
     utf8_valid (b0 # b1 # b2 # rest) = (utf8_second b0 b1 \<and> utf8_cont b2 \<and> utf8_valid rest)"
  "\<not> b0 < 0x80 \<Longrightarrow> \<not> (0xC2 \<le> b0 \<and> b0 \<le> 0xDF) \<Longrightarrow> \<not> (0xE0 \<le> b0 \<and> b0 \<le> 0xEF) \<Longrightarrow>
     0xF0 \<le> b0 \<Longrightarrow> b0 \<le> 0xF4 \<Longrightarrow> utf8_valid (b0 # b1 # b2 # b3 # rest)
       = (utf8_second b0 b1 \<and> utf8_cont b2 \<and> utf8_cont b3 \<and> utf8_valid rest)"
  by auto

lemma whole_head:
  assumes "utf8_head b r = (k, True)" and "utf8_valid rest"
  shows "utf8_valid (take k (b # r) @ rest)"
proof -
  consider (one) "b < 0x80" "k = 1"
    | (two) b1 q where "\<not> b < 0x80" "0xC2 \<le> b" "b \<le> 0xDF" "r = b1 # q" "utf8_cont b1" "k = 2"
    | (three) b1 b2 q where "\<not> b < 0x80" "\<not> (0xC2 \<le> b \<and> b \<le> 0xDF)" "0xE0 \<le> b" "b \<le> 0xEF" "r = b1 # b2 # q"
        "utf8_second b b1" "utf8_cont b2" "k = 3"
    | (four) b1 b2 b3 q where "\<not> b < 0x80" "\<not> (0xC2 \<le> b \<and> b \<le> 0xDF)" "\<not> (0xE0 \<le> b \<and> b \<le> 0xEF)"
        "0xF0 \<le> b" "b \<le> 0xF4" "r = b1 # b2 # b3 # q" "utf8_second b b1" "utf8_cont b2" "utf8_cont b3" "k = 4"
  proof (cases "b < 0x80")
    case True
    then show thesis using assms(1) by (intro one) (simp_all add: utf8_head_def)
  next
    case high: False
    show thesis
    proof (cases "0xC2 \<le> b \<and> b \<le> 0xDF")
      case True
      then show thesis using assms(1) high
        by (cases r) (auto simp: utf8_head_def Let_def split: if_splits intro: two)
    next
      case n2: False
      show thesis
      proof (cases "0xE0 \<le> b \<and> b \<le> 0xEF")
        case True
        then have e: "r \<noteq> []" "utf8_second b (r ! 0)" "1 < length r" "utf8_cont (r ! 1)" "k = 3"
          using assms(1) high n2 by (auto simp: utf8_head_def Let_def split: if_splits)
        then obtain b1 b2 q where "r = b1 # b2 # q" by (cases r; cases "tl r") auto
        then show thesis using e by (intro three [OF high n2 conjunct1 [OF True] conjunct2 [OF True], of b1 b2 q]) simp_all
      next
        case n3: False
        then have e: "0xF0 \<le> b" "b \<le> 0xF4" "r \<noteq> []" "utf8_second b (r ! 0)" "2 < length r" "utf8_cont (r ! 1)"
            "utf8_cont (r ! 2)" "k = 4"
          using assms(1) high n2 unfolding utf8_head_def Let_def by (auto split: if_splits)
        then obtain b1 b2 b3 q where "r = b1 # b2 # b3 # q" by (cases r; cases "tl r"; cases "tl (tl r)") auto
        then show thesis using e by (intro four [OF high n2 n3 e(1,2), of b1 b2 b3 q]) (simp_all add: numeral_2_eq_2)
      qed
    qed
  qed
  then show ?thesis
  proof cases
    case one
    then show ?thesis using assms(2) by (simp only: one take_Suc_Cons One_nat_def take_0 append.simps utf8_steps(1))
  next
    case two
    then have "take k (b # r) @ rest = b # b1 # rest" by (simp add: numeral_2_eq_2)
    then show ?thesis using assms(2) two utf8_steps(2) by simp
  next
    case three
    then have "take k (b # r) @ rest = b # b1 # b2 # rest" by (simp add: numeral_3_eq_3)
    then show ?thesis using assms(2) three utf8_steps(3) by simp
  next
    case four
    then have "take k (b # r) @ rest = b # b1 # b2 # b3 # rest" by (simp add: eval_nat_numeral)
    then show ?thesis using assms(2) four utf8_steps(4) by simp
  qed
qed

text \<open>The answer is text whatever the log holds, wherever its tail begins.\<close>

lemma lossy_valid: "utf8_valid (from_utf8_lossy bs)"
proof (induction bs rule: from_utf8_lossy.induct)
  case (2 b r)
  obtain k whole where h: "utf8_head b r = (k, whole)" by force
  have IH: "utf8_valid (from_utf8_lossy (drop k (b # r)))" by (rule 2) (simp add: h)
  have "utf8_valid ([0xEF, 0xBF, 0xBD] @ from_utf8_lossy (drop k (b # r)))"
    using IH by (simp add: utf8_second_def utf8_cont_def)
  then show ?case using IH whole_head [of b r k] h by (cases whole) simp_all
qed simp

end
