(* ===== verification/Native_Library.thy ===== *)
theory Native_Library
  imports RandomX Config Answers
begin

text \<open>
The RandomX library behind \<open>src/pow.rs\<close>: where \<open>Api::load\<close> looks for it and which symbols it must have, and
  the native memory of a context, from \<open>Context::new\<close> over the machines of \<open>Context::hash\<close> to \<open>Drop\<close>.  What
  opens at a path and which pointers the allocations return are inputs.  The lemmas: the first library that
  opens is used or refused, and at every moment of the life of a shared context the calls keep the contract
  of \<open>randomx.h\<close>: nothing is used before it is filled or after its release, nothing is released twice or under
  a machine that works on it, and all of it is released with the last clone.
\<close>

section \<open>The search\<close>

datatype platform = Windows | Macos | Other_platform

definition platform_filenames :: "platform \<Rightarrow> bytes list" where
  "platform_filenames os =
     (case os of
        Windows \<Rightarrow> [ascii ''randomx.dll'', ascii ''librandomx.dll'']
      | Macos \<Rightarrow> [ascii ''librandomx.dylib'']
      | Other_platform \<Rightarrow> [ascii ''librandomx.so''])"

text \<open>\<open>Path::join\<close> with the name of a file, which is relative; Windows separates with a backslash.\<close>

definition join_name :: "platform \<Rightarrow> bytes \<Rightarrow> bytes \<Rightarrow> bytes" where
  "join_name os directory name =
     (if os = Windows
      then if directory = [] \<or> last directory \<in> {47, 92} then directory @ name else directory @ [92] @ name
      else path_join directory name)"

text \<open>What the process knows of its surroundings: the platform, the variable and the directory of its
  executable.\<close>

record surroundings =
  su_platform :: platform
  su_library :: "bytes option"
  su_directory :: "bytes option"

definition library_candidates :: "surroundings \<Rightarrow> bytes option \<Rightarrow> bytes list" where
  "library_candidates V explicit =
     (let filenames = platform_filenames (su_platform V); join = join_name (su_platform V) in
      (case explicit of None \<Rightarrow> [] | Some path \<Rightarrow> [path])
      @ (case su_library V of None \<Rightarrow> [] | Some path \<Rightarrow> [path])
      @ (case su_directory V of None \<Rightarrow> []
         | Some directory \<Rightarrow> concat (map (\<lambda>filename.
             [join directory filename, join (join directory (ascii ''lib'')) filename]) filenames))
      @ filenames
      @ [ascii ''randomx''])"

text \<open>A library that is open: the addresses of its symbols.\<close>

type_synonym native_library = "bytes \<Rightarrow> u64 option"

definition library_symbol :: "native_library \<Rightarrow> string \<Rightarrow> randomx_error + u64" where
  "library_symbol library label =
     (case library (ascii label) of None \<Rightarrow> Inl (MissingSymbol (ascii label)) | Some address \<Rightarrow> Inr address)"

record api =
  api_get_flags :: u64
  api_alloc_cache :: u64
  api_init_cache :: u64
  api_release_cache :: u64
  api_alloc_dataset :: u64
  api_dataset_item_count :: u64
  api_init_dataset :: u64
  api_release_dataset :: u64
  api_create_vm :: u64
  api_destroy_vm :: u64
  api_calculate_hash :: u64

definition from_library :: "native_library \<Rightarrow> randomx_error + api" where
  "from_library library =
     rbind (library_symbol library ''randomx_get_flags'') (\<lambda>get_flags.
     rbind (library_symbol library ''randomx_alloc_cache'') (\<lambda>alloc_cache.
     rbind (library_symbol library ''randomx_init_cache'') (\<lambda>init_cache.
     rbind (library_symbol library ''randomx_release_cache'') (\<lambda>release_cache.
     rbind (library_symbol library ''randomx_alloc_dataset'') (\<lambda>alloc_dataset.
     rbind (library_symbol library ''randomx_dataset_item_count'') (\<lambda>dataset_item_count.
     rbind (library_symbol library ''randomx_init_dataset'') (\<lambda>init_dataset.
     rbind (library_symbol library ''randomx_release_dataset'') (\<lambda>release_dataset.
     rbind (library_symbol library ''randomx_create_vm'') (\<lambda>create_vm.
     rbind (library_symbol library ''randomx_destroy_vm'') (\<lambda>destroy_vm.
     rbind (library_symbol library ''randomx_calculate_hash'') (\<lambda>calculate_hash.
     Inr \<lparr>api_get_flags = get_flags, api_alloc_cache = alloc_cache, api_init_cache = init_cache,
       api_release_cache = release_cache, api_alloc_dataset = alloc_dataset,
       api_dataset_item_count = dataset_item_count, api_init_dataset = init_dataset,
       api_release_dataset = release_dataset, api_create_vm = create_vm, api_destroy_vm = destroy_vm,
       api_calculate_hash = calculate_hash\<rparr>)))))))))))"

text \<open>\<open>Library::new\<close> is \<open>opened\<close>: the library at a path, or the text of its error.  The first that opens
  is used, whatever symbols it has.\<close>

definition failure_text :: "bytes \<Rightarrow> bytes \<Rightarrow> bytes" where
  "failure_text candidate error = from_utf8_lossy candidate @ ascii '' ('' @ error @ ascii '')''"

definition join_failures :: "bytes list \<Rightarrow> bytes" where
  "join_failures failures =
     (case failures of [] \<Rightarrow> [] | f # fs \<Rightarrow> f @ concat (map (\<lambda>g. ascii '', '' @ g) fs))"

primrec try_candidates ::
    "(bytes \<Rightarrow> bytes + native_library) \<Rightarrow> bytes list \<Rightarrow> bytes list \<Rightarrow> randomx_error + api" where
  "try_candidates opened [] failures = Inl (LibraryNotFound (join_failures failures))"
| "try_candidates opened (candidate # candidates) failures =
     (case opened candidate of
        Inl error \<Rightarrow> try_candidates opened candidates (failures @ [failure_text candidate error])
      | Inr library \<Rightarrow> from_library library)"

definition api_load ::
    "surroundings \<Rightarrow> (bytes \<Rightarrow> bytes + native_library) \<Rightarrow> bytes option \<Rightarrow> randomx_error + api" where
  "api_load V opened explicit = try_candidates opened (library_candidates V explicit) []"

text \<open>\<open>RandomX::load\<close>: the search, then the self-test; \<open>linked\<close> is the code behind the addresses.\<close>

definition randomx_open ::
    "surroundings \<Rightarrow> (bytes \<Rightarrow> bytes + native_library) \<Rightarrow> (api \<Rightarrow> randomx_library) \<Rightarrow> bool \<times> bool \<Rightarrow> bool \<times> bool
      \<Rightarrow> hash32 \<Rightarrow> bytes option \<Rightarrow> randomx_error + api \<times> randomx_context" where
  "randomx_open V opened linked allocated created expected explicit =
     rbind (api_load V opened explicit) (\<lambda>a.
     rbind (randomx_load (linked a) allocated created expected) (\<lambda>c. Inr (a, c)))"

section \<open>Which library is used\<close>

definition api_symbols :: "bytes list" where
  "api_symbols = map ascii [''randomx_get_flags'', ''randomx_alloc_cache'', ''randomx_init_cache'',
     ''randomx_release_cache'', ''randomx_alloc_dataset'', ''randomx_dataset_item_count'',
     ''randomx_init_dataset'', ''randomx_release_dataset'', ''randomx_create_vm'', ''randomx_destroy_vm'',
     ''randomx_calculate_hash'']"

lemma try_candidates_first:
  "try_candidates opened candidates failures =
     (case find (\<lambda>c. \<not> isl (opened c)) candidates of
        None \<Rightarrow> Inl (LibraryNotFound (join_failures (failures @ map (\<lambda>c. failure_text c (projl (opened c))) candidates)))
      | Some c \<Rightarrow> from_library (projr (opened c)))"
  by (induction candidates arbitrary: failures) (auto split: sum.splits option.splits)

text \<open>A library is taken when it has every symbol; else the error names the first that is missing.\<close>

definition first_missing :: "native_library \<Rightarrow> bytes list \<Rightarrow> randomx_error + 'a \<Rightarrow> bool" where
  "first_missing l names r =
     (case find (\<lambda>n. l n = None) names of Some n \<Rightarrow> r = Inl (MissingSymbol n) | None \<Rightarrow> \<not> isl r)"

lemma first_missing_step:
  "(\<And>a. first_missing l ns (f a)) \<Longrightarrow> first_missing l (ascii n # ns) (rbind (library_symbol l n) f)"
  by (cases "l (ascii n)") (simp_all add: first_missing_def library_symbol_def)

lemma first_missing_end: "first_missing l [] (Inr a)"
  by (simp add: first_missing_def)

lemma from_library_missing: "first_missing l api_symbols (from_library l)"
  unfolding from_library_def api_symbols_def list.map by (intro first_missing_step first_missing_end)

lemma from_library_find:
  "from_library l = (case find (\<lambda>n. l n = None) api_symbols of
     Some n \<Rightarrow> Inl (MissingSymbol n) | None \<Rightarrow> from_library l)"
  using from_library_missing [of l] by (simp add: first_missing_def split: option.splits)

lemma from_library_complete: "\<not> isl (from_library l) \<longleftrightarrow> (\<forall>n \<in> set api_symbols. l n \<noteq> None)"
proof (cases "find (\<lambda>n. l n = None) api_symbols")
  case None
  then have "\<forall>n \<in> set api_symbols. l n \<noteq> None" by (auto simp: find_None_iff)
  then show ?thesis using from_library_missing [of l] None by (simp add: first_missing_def)
next
  case (Some n)
  then have "n \<in> set api_symbols" "l n = None" by (auto simp: find_Some_iff)
  then show ?thesis using from_library_missing [of l] Some by (auto simp: first_missing_def)
qed

text \<open>The configured path comes first, and only when it does not open, another library is looked for.  One that
  opens without a symbol ends the search.\<close>

theorem configured_library_first:
  assumes "opened path = Inr library"
  shows "api_load V opened (Some path) = from_library library"
  using assms by (simp add: api_load_def library_candidates_def Let_def)

theorem library_search:
  "api_load V opened explicit =
     (case find (\<lambda>c. \<not> isl (opened c)) (library_candidates V explicit) of
        None \<Rightarrow> Inl (LibraryNotFound (join_failures
          (map (\<lambda>c. failure_text c (projl (opened c))) (library_candidates V explicit))))
      | Some c \<Rightarrow> (case find (\<lambda>n. projr (opened c) n = None) api_symbols of
          Some n \<Rightarrow> Inl (MissingSymbol n)
        | None \<Rightarrow> from_library (projr (opened c))))"
  using from_library_find by (simp add: api_load_def try_candidates_first split: option.split)

section \<open>Native memory\<close>

text \<open>What the process asks of the library, with the pointer an allocation returns, \<open>None\<close> for null.\<close>

datatype native_call =
    Alloc_Cache u32 "nat option"
  | Init_Cache nat bytes
  | Release_Cache nat
  | Alloc_Dataset u32 "nat option"
  | Init_Dataset nat nat u64 u64
  | Release_Dataset nat
  | Create_Vm u32 "nat option" "nat option" "nat option"
  | Calculate_Hash nat bytes
  | Destroy_Vm nat

text \<open>The memory behind the pointers: the caches with their seeds, the datasets, and the machines with what
  they work on.\<close>

record native_memory =
  nm_caches :: "nat \<Rightarrow> bytes option option"
  nm_datasets :: "nat set"
  nm_vms :: "nat \<Rightarrow> (nat option \<times> nat option) option"

definition memory_empty :: native_memory where
  "memory_empty = \<lparr>nm_caches = Map.empty, nm_datasets = {}, nm_vms = Map.empty\<rparr>"

text \<open>The contract of \<open>randomx.h\<close>; \<open>None\<close> is a use of memory that is not there, or a release of what a
  machine still works on.\<close>

definition native_call_ok :: "native_call \<Rightarrow> native_memory \<Rightarrow> bool" where
  "native_call_ok call m =
     (case call of
        Init_Cache p seed \<Rightarrow> nm_caches m p \<noteq> None
      | Release_Cache p \<Rightarrow> nm_caches m p \<noteq> None \<and> (\<forall>(c, d) \<in> ran (nm_vms m). c \<noteq> Some p)
      | Init_Dataset d p start items \<Rightarrow> d \<in> nm_datasets m \<and> (\<exists>seed. nm_caches m p = Some (Some seed))
      | Release_Dataset d \<Rightarrow> d \<in> nm_datasets m \<and> (\<forall>(c, d') \<in> ran (nm_vms m). d' \<noteq> Some d)
      | Create_Vm flags c d result \<Rightarrow>
          (if flags AND FLAG_FULL_MEM \<noteq> 0 then \<exists>p. d = Some p \<and> p \<in> nm_datasets m
           else \<exists>p seed. c = Some p \<and> nm_caches m p = Some (Some seed))
      | Calculate_Hash v input \<Rightarrow> nm_vms m v \<noteq> None
      | Destroy_Vm v \<Rightarrow> nm_vms m v \<noteq> None
      | _ \<Rightarrow> True)"

definition native_effect :: "native_call \<Rightarrow> native_memory \<Rightarrow> native_memory" where
  "native_effect call m =
     (case call of
        Alloc_Cache flags (Some p) \<Rightarrow> m\<lparr>nm_caches := (nm_caches m)(p \<mapsto> None)\<rparr>
      | Init_Cache p seed \<Rightarrow> m\<lparr>nm_caches := (nm_caches m)(p \<mapsto> Some seed)\<rparr>
      | Release_Cache p \<Rightarrow> m\<lparr>nm_caches := (nm_caches m)(p := None)\<rparr>
      | Alloc_Dataset flags (Some d) \<Rightarrow> m\<lparr>nm_datasets := insert d (nm_datasets m)\<rparr>
      | Release_Dataset d \<Rightarrow> m\<lparr>nm_datasets := nm_datasets m - {d}\<rparr>
      | Create_Vm flags c d (Some v) \<Rightarrow> m\<lparr>nm_vms := (nm_vms m)(v \<mapsto> (c, d))\<rparr>
      | Destroy_Vm v \<Rightarrow> m\<lparr>nm_vms := (nm_vms m)(v := None)\<rparr>
      | _ \<Rightarrow> m)"

primrec native_run :: "native_call list \<Rightarrow> native_memory \<Rightarrow> native_memory option" where
  "native_run [] m = Some m"
| "native_run (call # calls) m =
     (if native_call_ok call m then native_run calls (native_effect call m) else None)"

text \<open>\<open>Context\<close> with the pointers it owns; its idle machines are a stack, the top first.\<close>

record native_context =
  nx_seed :: bytes
  nx_flags :: u32
  nx_cache :: nat
  nx_dataset :: "nat option"
  nx_idle_vms :: "nat list"

text \<open>\<open>Context::new\<close> and its calls; \<open>cache\<close> and \<open>dataset\<close> are what the allocations return, \<open>order\<close> is the order
  in which the threads of the scope run.\<close>

definition native_context_new ::
    "randomx_library \<Rightarrow> nat option \<Rightarrow> nat option \<Rightarrow> nat list \<Rightarrow> bytes \<Rightarrow> randomx_mode
      \<Rightarrow> (randomx_error + native_context) \<times> native_call list" where
  "native_context_new L cache dataset order seed mode =
     (let flags = rl_flags L AND NOT FLAG_FULL_MEM AND NOT FLAG_LARGE_PAGES;
          allocate = Alloc_Cache flags cache in
      case cache of
        None \<Rightarrow> (Inl CacheAllocation, [allocate])
      | Some c \<Rightarrow>
          (case mode of
             RandomXLight \<Rightarrow>
               (Inr \<lparr>nx_seed = seed, nx_flags = flags, nx_cache = c, nx_dataset = None, nx_idle_vms = []\<rparr>,
                [allocate, Init_Cache c seed])
           | RandomXFast initialization_threads \<Rightarrow>
               (case dataset of
                  None \<Rightarrow> (Inl DatasetAllocation,
                    [allocate, Init_Cache c seed, Alloc_Dataset (flags OR FLAG_FULL_MEM) None, Release_Cache c])
                | Some d \<Rightarrow>
                    (Inr \<lparr>nx_seed = seed, nx_flags = flags OR FLAG_FULL_MEM, nx_cache = c, nx_dataset = Some d,
                       nx_idle_vms = []\<rparr>,
                     [allocate, Init_Cache c seed, Alloc_Dataset (flags OR FLAG_FULL_MEM) (Some d)]
                     @ map (\<lambda>thread. let threads = max initialization_threads 1 in
                         Init_Dataset d c (slice_start (rl_items L) threads thread)
                           (slice_start (rl_items L) threads (thread + 1) - slice_start (rl_items L) threads thread))
                       order))))"

text \<open>The machine of \<open>Context::hash\<close>, under the lock of the idle ones: the top one, or a new one, without JIT
  where the first attempt returns null.  A machine gets no cache when there is a dataset.\<close>

definition vm_cache_of :: "native_context \<Rightarrow> nat option" where
  "vm_cache_of c = (if nx_dataset c \<noteq> None then None else Some (nx_cache c))"

definition native_vm ::
    "nat option \<Rightarrow> nat option \<Rightarrow> native_context \<Rightarrow> (randomx_error + nat) \<times> native_call list \<times> native_context" where
  "native_vm first second c =
     (case nx_idle_vms c of
        v # idle \<Rightarrow> (Inr v, [], c\<lparr>nx_idle_vms := idle\<rparr>)
      | [] \<Rightarrow>
          (let attempt = Create_Vm (nx_flags c) (vm_cache_of c) (nx_dataset c) first;
               retry = Create_Vm (nx_flags c AND NOT FLAG_JIT) (vm_cache_of c) (nx_dataset c) second;
               (created, calls) = (if first = None \<and> nx_flags c AND FLAG_JIT \<noteq> 0
                 then (second, [attempt, retry]) else (first, [attempt])) in
           case created of
             Some v \<Rightarrow> (Inr v, calls, c)
           | None \<Rightarrow> (Inl VmAllocation, calls, c)))"

text \<open>\<open>Drop\<close>: \<open>drain\<close> empties the stack from the bottom.\<close>

definition context_drop :: "native_context \<Rightarrow> native_call list" where
  "context_drop c =
     map Destroy_Vm (rev (nx_idle_vms c))
     @ (case nx_dataset c of None \<Rightarrow> [] | Some d \<Rightarrow> [Release_Dataset d])
     @ [Release_Cache (nx_cache c)]"

section \<open>The life of a context\<close>

text \<open>Whoever has a clone of the \<open>Arc\<close>: it holds no machine, one it has just taken, or one that has computed.
  The context is dropped with the last clone.\<close>

datatype sharer = Outside | Sharing | Taken nat | Computed nat

record context_life =
  cl_context :: "native_context option"
  cl_sharers :: "nat \<Rightarrow> sharer"
  cl_calls :: "native_call list"

text \<open>The library returns pointers to memory that was not in use.\<close>

definition unused_vm :: "nat \<Rightarrow> native_call list \<Rightarrow> bool" where
  "unused_vm v calls \<longleftrightarrow> (case native_run calls memory_empty of Some m \<Rightarrow> nm_vms m v = None | None \<Rightarrow> True)"

inductive context_step :: "context_life \<Rightarrow> context_life \<Rightarrow> bool" where
  clone: "cl_sharers s t \<noteq> Outside \<Longrightarrow> cl_sharers s u = Outside \<Longrightarrow>
    context_step s (s\<lparr>cl_sharers := (cl_sharers s)(u := Sharing)\<rparr>)"
| take_vm: "cl_context s = Some c \<Longrightarrow> cl_sharers s t = Sharing \<Longrightarrow> native_vm first second c = (Inr v, calls, c') \<Longrightarrow>
    (\<forall>p \<in> set_option first \<union> set_option second. unused_vm p (cl_calls s)) \<Longrightarrow>
    context_step s \<lparr>cl_context = Some c', cl_sharers = (cl_sharers s)(t := Taken v), cl_calls = cl_calls s @ calls\<rparr>"
| no_vm: "cl_context s = Some c \<Longrightarrow> cl_sharers s t = Sharing \<Longrightarrow> native_vm first second c = (Inl e, calls, c') \<Longrightarrow>
    context_step s \<lparr>cl_context = Some c', cl_sharers = cl_sharers s, cl_calls = cl_calls s @ calls\<rparr>"
| compute: "cl_sharers s t = Taken v \<Longrightarrow>
    context_step s (s\<lparr>cl_sharers := (cl_sharers s)(t := Computed v), cl_calls := cl_calls s @ [Calculate_Hash v input]\<rparr>)"
| put_vm: "cl_context s = Some c \<Longrightarrow> cl_sharers s t = Computed v \<Longrightarrow>
    context_step s \<lparr>cl_context = Some (c\<lparr>nx_idle_vms := v # nx_idle_vms c\<rparr>),
      cl_sharers = (cl_sharers s)(t := Sharing), cl_calls = cl_calls s\<rparr>"
| release: "cl_sharers s t = Sharing \<Longrightarrow> cl_sharers s u \<noteq> Outside \<Longrightarrow> u \<noteq> t \<Longrightarrow>
    context_step s (s\<lparr>cl_sharers := (cl_sharers s)(t := Outside)\<rparr>)"
| last_release: "cl_context s = Some c \<Longrightarrow> cl_sharers s t = Sharing \<Longrightarrow> (\<forall>u. u \<noteq> t \<longrightarrow> cl_sharers s u = Outside) \<Longrightarrow>
    context_step s \<lparr>cl_context = None, cl_sharers = (\<lambda>_. Outside), cl_calls = cl_calls s @ context_drop c\<rparr>"

inductive context_lives :: "randomx_library \<Rightarrow> context_life \<Rightarrow> bool" for L where
  failed: "native_context_new L cache dataset order seed mode = (Inl e, calls) \<Longrightarrow>
    context_lives L \<lparr>cl_context = None, cl_sharers = (\<lambda>_. Outside), cl_calls = calls\<rparr>"
| created: "native_context_new L cache dataset order seed mode = (Inr c, calls) \<Longrightarrow>
    context_lives L \<lparr>cl_context = Some c, cl_sharers = (\<lambda>_. Outside)(t := Sharing), cl_calls = calls\<rparr>"
| lived: "context_lives L s \<Longrightarrow> context_step s s' \<Longrightarrow> context_lives L s'"

section \<open>Nothing is used after its release, nothing stays\<close>

lemma native_run_append:
  "native_run (xs @ ys) m = (case native_run xs m of None \<Rightarrow> None | Some m' \<Rightarrow> native_run ys m')"
  by (induction xs arbitrary: m) auto

definition vm_memory :: "native_context \<Rightarrow> nat option \<times> nat option" where
  "vm_memory c = (vm_cache_of c, nx_dataset c)"

definition holds_vm :: "context_life \<Rightarrow> nat \<Rightarrow> nat \<Rightarrow> bool" where
  "holds_vm s t v \<longleftrightarrow> cl_sharers s t = Taken v \<or> cl_sharers s t = Computed v"

definition owned_vms :: "context_life \<Rightarrow> native_context \<Rightarrow> nat set" where
  "owned_vms s c = set (nx_idle_vms c) \<union> {v. \<exists>t. holds_vm s t v}"

definition memory_of :: "native_context \<Rightarrow> nat set \<Rightarrow> native_memory" where
  "memory_of c vms = \<lparr>nm_caches = [nx_cache c \<mapsto> Some (nx_seed c)], nm_datasets = set_option (nx_dataset c),
     nm_vms = (\<lambda>v. if v \<in> vms then Some (vm_memory c) else None)\<rparr>"

definition full_mem :: "native_context \<Rightarrow> bool" where
  "full_mem c \<longleftrightarrow> (nx_flags c AND FLAG_FULL_MEM \<noteq> 0) = (nx_dataset c \<noteq> None)"

definition life_ok :: "context_life \<Rightarrow> bool" where
  "life_ok s \<longleftrightarrow>
     (case cl_context s of
        None \<Rightarrow> native_run (cl_calls s) memory_empty = Some memory_empty \<and> (\<forall>t. cl_sharers s t = Outside)
      | Some c \<Rightarrow> native_run (cl_calls s) memory_empty = Some (memory_of c (owned_vms s c)) \<and> full_mem c
          \<and> distinct (nx_idle_vms c)
          \<and> (\<forall>t v. holds_vm s t v \<longrightarrow> v \<notin> set (nx_idle_vms c))
          \<and> (\<forall>t u v. holds_vm s t v \<and> holds_vm s u v \<longrightarrow> t = u))"

lemma full_mem_flags:
  "(f AND NOT FLAG_FULL_MEM AND NOT FLAG_LARGE_PAGES) AND FLAG_FULL_MEM = 0"
  "(f OR FLAG_FULL_MEM) AND FLAG_FULL_MEM \<noteq> 0"
  "(f AND NOT FLAG_JIT) AND FLAG_FULL_MEM = f AND FLAG_FULL_MEM"
proof -
  have "(f AND NOT FLAG_FULL_MEM AND NOT FLAG_LARGE_PAGES) AND FLAG_FULL_MEM
      = f AND NOT FLAG_LARGE_PAGES AND (NOT FLAG_FULL_MEM AND FLAG_FULL_MEM)"
    by (simp only: ac_simps)
  then show "(f AND NOT FLAG_FULL_MEM AND NOT FLAG_LARGE_PAGES) AND FLAG_FULL_MEM = 0" by simp
  show "(f OR FLAG_FULL_MEM) AND FLAG_FULL_MEM \<noteq> 0"
    by (simp add: bit.conj_disj_distrib2 FLAG_FULL_MEM_def)
  show "(f AND NOT FLAG_JIT) AND FLAG_FULL_MEM = f AND FLAG_FULL_MEM"
    by (simp add: and.assoc FLAG_JIT_def FLAG_FULL_MEM_def)
qed

lemma run_init_dataset:
  "d \<in> nm_datasets m \<Longrightarrow> nm_caches m p = Some (Some seed) \<Longrightarrow>
    native_run (map (\<lambda>t. Init_Dataset d p (f t) (g t)) ts) m = Some m"
  by (induction ts) (auto simp: native_call_ok_def native_effect_def)

lemma native_context_new_ok:
  assumes "native_context_new L cache dataset order seed mode = (r, calls)"
  shows "case r of
     Inl e \<Rightarrow> native_run calls memory_empty = Some memory_empty
   | Inr c \<Rightarrow> native_run calls memory_empty = Some (memory_of c {}) \<and> full_mem c \<and> nx_idle_vms c = []"
proof -
  note defs = native_context_new_def native_call_ok_def native_effect_def memory_empty_def memory_of_def
    vm_memory_def vm_cache_of_def full_mem_def
  show ?thesis
  proof (cases cache)
    case None then show ?thesis using assms by (auto simp: defs Let_def)
  next
    case (Some p)
    show ?thesis
    proof (cases mode)
      case RandomXLight
      then show ?thesis using assms Some by (auto simp: defs Let_def full_mem_flags(1))
    next
      case (RandomXFast n)
      show ?thesis
      proof (cases dataset)
        case None then show ?thesis using assms Some RandomXFast by (auto simp: defs Let_def)
      next
        case (Some d)
        then show ?thesis using assms \<open>cache = Some p\<close> RandomXFast
          by (auto simp: defs Let_def full_mem_flags(2) run_init_dataset FLAG_FULL_MEM_def)
      qed
    qed
  qed
qed

lemma run_destroy:
  "distinct vs \<Longrightarrow> set vs \<subseteq> vms \<Longrightarrow> native_run (map Destroy_Vm vs) (memory_of c vms) = Some (memory_of c (vms - set vs))"
proof (induction vs arbitrary: vms)
  case (Cons v vs)
  have ok: "native_call_ok (Destroy_Vm v) (memory_of c vms)"
    using Cons.prems(2) by (simp add: native_call_ok_def memory_of_def)
  have effect: "native_effect (Destroy_Vm v) (memory_of c vms) = memory_of c (vms - {v})"
    by (auto simp: native_effect_def memory_of_def fun_eq_iff)
  have "native_run (map Destroy_Vm vs) (memory_of c (vms - {v})) = Some (memory_of c (vms - {v} - set vs))"
    using Cons.prems by (intro Cons.IH) auto
  moreover have "vms - {v} - set vs = vms - set (v # vs)" by auto
  ultimately show ?case by (simp add: ok effect)
qed simp

lemma context_drop_empties:
  assumes "distinct (nx_idle_vms c)"
  shows "native_run (context_drop c) (memory_of c (set (nx_idle_vms c))) = Some memory_empty"
  using assms run_destroy [of "rev (nx_idle_vms c)" "set (nx_idle_vms c)" c]
  by (auto simp: context_drop_def native_run_append native_call_ok_def native_effect_def memory_of_def memory_empty_def
      split: option.split)

lemma native_vm_ok:
  assumes "native_vm first second c = (r, calls, c')" and "full_mem c"
    and "\<And>p. p \<in> set_option first \<union> set_option second \<Longrightarrow> p \<notin> vms" and "set (nx_idle_vms c) \<subseteq> vms"
  shows "case r of
     Inl e \<Rightarrow> native_run calls (memory_of c vms) = Some (memory_of c vms) \<and> c' = c
   | Inr v \<Rightarrow> native_run calls (memory_of c vms) = Some (memory_of c (insert v vms)) \<and>
       (nx_idle_vms c = v # nx_idle_vms c' \<and> c' = c\<lparr>nx_idle_vms := nx_idle_vms c'\<rparr> \<or> c' = c \<and> nx_idle_vms c = [] \<and> v \<notin> vms)"
proof -
  have ok: "native_call_ok (Create_Vm flags (vm_cache_of c) (nx_dataset c) p) (memory_of c vms)"
    if "flags AND FLAG_FULL_MEM = nx_flags c AND FLAG_FULL_MEM" for flags p
    using assms(2) that by (auto simp: native_call_ok_def memory_of_def full_mem_def vm_cache_of_def)
  have made: "native_effect (Create_Vm flags (vm_cache_of c) (nx_dataset c) (Some v)) (memory_of c vms)
      = memory_of c (insert v vms)" for flags v
    by (auto simp: native_effect_def memory_of_def vm_memory_def fun_eq_iff)
  have null: "native_effect (Create_Vm flags x y None) m = m" for flags x y m by (simp add: native_effect_def)
  note step = ok [OF refl] ok [OF full_mem_flags(3)] made null
  show ?thesis
  proof (cases "nx_idle_vms c")
    case (Cons v idle)
    then have "insert v vms = vms" using assms(4) by auto
    then show ?thesis using assms(1) Cons by (auto simp: native_vm_def)
  next
    case Nil
    define created where "created = (if first = None \<and> nx_flags c AND FLAG_JIT \<noteq> 0 then second else first)"
    define attempt where "attempt = Create_Vm (nx_flags c) (vm_cache_of c) (nx_dataset c)"
    define retry where "retry = Create_Vm (nx_flags c AND NOT FLAG_JIT) (vm_cache_of c) (nx_dataset c)"
    have c: "calls = (if first = None \<and> nx_flags c AND FLAG_JIT \<noteq> 0 then [attempt first, retry second] else [attempt first])"
      "c' = c" "r = (case created of None \<Rightarrow> Inl VmAllocation | Some v \<Rightarrow> Inr v)"
      using assms(1) Nil by (auto simp: native_vm_def Let_def created_def attempt_def retry_def
          split: option.splits if_split_asm)
    have "native_run calls (memory_of c vms) = Some (memory_of c (set_option created \<union> vms))"
      unfolding c(1) created_def using step
      by (cases first; cases second) (simp_all add: attempt_def retry_def)
    then show ?thesis using c(2,3) Nil assms(3) unfolding created_def
      by (cases first; cases second) (auto split: if_splits)
  qed
qed

lemma idle_irrelevant [simp]:
  "memory_of (c\<lparr>nx_idle_vms := idle\<rparr>) = memory_of c"
  "full_mem (c\<lparr>nx_idle_vms := idle\<rparr>) = full_mem c"
  by (auto simp: memory_of_def vm_memory_def vm_cache_of_def full_mem_def fun_eq_iff)

lemma life_ok_Some:
  "cl_context s = Some c \<Longrightarrow> life_ok s \<longleftrightarrow>
     native_run (cl_calls s) memory_empty = Some (memory_of c (owned_vms s c)) \<and> full_mem c
     \<and> distinct (nx_idle_vms c)
     \<and> (\<forall>t v. holds_vm s t v \<longrightarrow> v \<notin> set (nx_idle_vms c))
     \<and> (\<forall>t u v. holds_vm s t v \<and> holds_vm s u v \<longrightarrow> t = u)"
  by (simp add: life_ok_def)

lemma life_ok_alive: "life_ok s \<Longrightarrow> cl_sharers s t \<noteq> Outside \<Longrightarrow> \<exists>c. cl_context s = Some c"
  by (auto simp: life_ok_def split: option.splits)

text \<open>A step that leaves who holds which machine and the idle ones leaves the invariant.\<close>

lemma life_ok_same:
  assumes "life_ok s" and "cl_context s = Some c" and "cl_context s' = Some c"
    and "\<And>t v. holds_vm s' t v = holds_vm s t v"
    and "native_run (cl_calls s') memory_empty = native_run (cl_calls s) memory_empty"
  shows "life_ok s'"
  using assms(1) unfolding life_ok_Some [OF assms(2)] life_ok_Some [OF assms(3)] owned_vms_def assms(4,5) .

lemma take_ok:
  assumes "life_ok s" and c: "cl_context s = Some c" and t: "cl_sharers s t = Sharing"
    and vm: "native_vm first second c = (Inr v, calls, c')"
    and unused: "\<forall>p \<in> set_option first \<union> set_option second. unused_vm p (cl_calls s)"
    and s': "s' = \<lparr>cl_context = Some c', cl_sharers = (cl_sharers s)(t := Taken v), cl_calls = cl_calls s @ calls\<rparr>"
  shows "life_ok s'"
proof -
  have ok: "native_run (cl_calls s) memory_empty = Some (memory_of c (owned_vms s c))" "full_mem c"
    "distinct (nx_idle_vms c)" "\<And>t v. holds_vm s t v \<Longrightarrow> v \<notin> set (nx_idle_vms c)"
    "\<And>t u v. holds_vm s t v \<Longrightarrow> holds_vm s u v \<Longrightarrow> t = u"
    using assms(1) unfolding life_ok_Some [OF c] by blast+
  have fresh: "p \<notin> owned_vms s c" if "p \<in> set_option first \<union> set_option second" for p
    using unused that ok(1) by (force simp: unused_vm_def memory_of_def)
  have sub: "set (nx_idle_vms c) \<subseteq> owned_vms s c" by (simp add: owned_vms_def)
  have "native_run calls (memory_of c (owned_vms s c)) = Some (memory_of c (insert v (owned_vms s c)))"
    and c': "nx_idle_vms c = v # nx_idle_vms c' \<and> c' = c\<lparr>nx_idle_vms := nx_idle_vms c'\<rparr>
      \<or> c' = c \<and> nx_idle_vms c = [] \<and> v \<notin> owned_vms s c"
    using native_vm_ok [OF vm ok(2) fresh sub] by simp_all
  moreover have held: "holds_vm s' u w \<longleftrightarrow> (if u = t then w = v else holds_vm s u w)" for u w
    using t by (auto simp: s' holds_vm_def)
  have away: "holds_vm s u w \<Longrightarrow> u \<noteq> t \<and> holds_vm s u w" for u w using t by (auto simp: holds_vm_def)
  have "memory_of c' = memory_of c" "full_mem c' = full_mem c"
    using c' idle_irrelevant by (metis, metis)
  moreover have "v \<notin> set (nx_idle_vms c')" "\<not> holds_vm s u v" "distinct (nx_idle_vms c')" for u
    using c' ok(3) ok(4) [of u v] by (auto simp: owned_vms_def)
  moreover have "owned_vms s' c' = insert v (owned_vms s c)"
  proof -
    have "{w. \<exists>u. holds_vm s' u w} = insert v {w. \<exists>u. holds_vm s u w}"
      unfolding held using away by auto
    then show ?thesis using c' unfolding owned_vms_def by auto
  qed
  ultimately show ?thesis using ok held
    by (subst life_ok_Some [of _ c']) (auto simp: s' native_run_append)
qed

lemma no_vm_ok:
  assumes "life_ok s" and c: "cl_context s = Some c" and vm: "native_vm first second c = (Inl e, calls, c')"
    and s': "s' = \<lparr>cl_context = Some c', cl_sharers = cl_sharers s, cl_calls = cl_calls s @ calls\<rparr>"
  shows "life_ok s'"
proof -
  have none: "first = None \<and> (nx_flags c AND FLAG_JIT \<noteq> 0 \<longrightarrow> second = None)"
    using vm by (auto simp: native_vm_def Let_def split: list.splits option.splits if_split_asm)
  have "native_vm None None c = (Inl e, calls, c')"
    using vm none by (cases "nx_flags c AND FLAG_JIT = 0") (auto simp: native_vm_def Let_def split: list.splits)
  moreover have run: "native_run (cl_calls s) memory_empty = Some (memory_of c (owned_vms s c))" "full_mem c"
    using assms(1) unfolding life_ok_Some [OF c] by blast+
  moreover have "set (nx_idle_vms c) \<subseteq> owned_vms s c" by (simp add: owned_vms_def)
  ultimately have "native_run calls (memory_of c (owned_vms s c)) = Some (memory_of c (owned_vms s c))" "c' = c"
    using native_vm_ok [of None None c "Inl e" calls c' "owned_vms s c"] by simp_all
  then show ?thesis
    using run by (intro life_ok_same [OF assms(1) c]) (simp_all add: s' native_run_append holds_vm_def)
qed

lemma put_ok:
  assumes "life_ok s" and c: "cl_context s = Some c" and t: "cl_sharers s t = Computed v"
    and s': "s' = \<lparr>cl_context = Some (c\<lparr>nx_idle_vms := v # nx_idle_vms c\<rparr>),
      cl_sharers = (cl_sharers s)(t := Sharing), cl_calls = cl_calls s\<rparr>"
  shows "life_ok s'"
proof -
  have ok: "native_run (cl_calls s) memory_empty = Some (memory_of c (owned_vms s c))" "full_mem c"
    "distinct (nx_idle_vms c)" "\<And>t v. holds_vm s t v \<Longrightarrow> v \<notin> set (nx_idle_vms c)"
    "\<And>t u v. holds_vm s t v \<Longrightarrow> holds_vm s u v \<Longrightarrow> t = u"
    using assms(1) unfolding life_ok_Some [OF c] by blast+
  have tv: "holds_vm s t w \<longleftrightarrow> w = v" for w using t by (auto simp: holds_vm_def)
  have held: "holds_vm s' u w \<longleftrightarrow> u \<noteq> t \<and> holds_vm s u w" for u w by (auto simp: s' holds_vm_def)
  have other: "u \<noteq> t \<Longrightarrow> \<not> holds_vm s u v" for u using ok(5) tv by blast
  have away: "holds_vm s u w \<Longrightarrow> w \<noteq> v \<Longrightarrow> u \<noteq> t \<and> holds_vm s u w" for u w using tv by blast
  have "owned_vms s' (c\<lparr>nx_idle_vms := v # nx_idle_vms c\<rparr>) = owned_vms s c"
    unfolding owned_vms_def held using tv away by auto
  moreover have "v \<notin> set (nx_idle_vms c)" using ok(4) [of t v] tv by simp
  ultimately show ?thesis using ok other tv held
    by (subst life_ok_Some [of _ "c\<lparr>nx_idle_vms := v # nx_idle_vms c\<rparr>"]) (auto simp: s')
qed

lemma compute_ok:
  assumes "life_ok s" and t: "cl_sharers s t = Taken v"
    and s': "s' = s\<lparr>cl_sharers := (cl_sharers s)(t := Computed v), cl_calls := cl_calls s @ [Calculate_Hash v input]\<rparr>"
  shows "life_ok s'"
proof -
  obtain c where c: "cl_context s = Some c" using life_ok_alive [OF assms(1), of t] t by auto
  have run: "native_run (cl_calls s) memory_empty = Some (memory_of c (owned_vms s c))"
    using assms(1) unfolding life_ok_Some [OF c] by blast
  have "v \<in> owned_vms s c" using t by (auto simp: owned_vms_def holds_vm_def)
  then have "native_call_ok (Calculate_Hash v input) (memory_of c (owned_vms s c))"
    by (simp add: native_call_ok_def memory_of_def)
  then show ?thesis using run t c
    by (intro life_ok_same [OF assms(1) c]) (auto simp: s' native_run_append native_effect_def holds_vm_def)
qed

lemma last_release_ok:
  assumes "life_ok s" and c: "cl_context s = Some c" and t: "cl_sharers s t = Sharing"
    and others: "\<forall>u. u \<noteq> t \<longrightarrow> cl_sharers s u = Outside"
  shows "native_run (cl_calls s @ context_drop c) memory_empty = Some memory_empty"
proof -
  have "\<not> holds_vm s u v" for u v using t others by (cases "u = t") (auto simp: holds_vm_def)
  then have "owned_vms s c = set (nx_idle_vms c)" by (simp add: owned_vms_def)
  then show ?thesis using assms(1) unfolding life_ok_Some [OF c]
    by (simp add: native_run_append context_drop_empties)
qed

lemma context_step_ok: "context_step s s' \<Longrightarrow> life_ok s \<Longrightarrow> life_ok s'"
proof (induction rule: context_step.induct)
  case (clone s t u)
  then obtain c where c: "cl_context s = Some c" using life_ok_alive by blast
  show ?case using clone c by (intro life_ok_same [OF clone.prems c]) (auto simp: holds_vm_def)
next
  case (take_vm s c t first second v calls c')
  then show ?case by (intro take_ok [OF _ take_vm(1-4) refl]) auto
next
  case (no_vm s c t first second e calls c')
  then show ?case by (intro no_vm_ok [OF _ no_vm(1,3) refl]) auto
next
  case (compute s t v input)
  then show ?case by (intro compute_ok [OF _ compute(1) refl]) auto
next
  case (put_vm s c t v)
  then show ?case by (intro put_ok [OF _ put_vm(1,2) refl]) auto
next
  case (release s t u)
  then obtain c where c: "cl_context s = Some c" using life_ok_alive by blast
  show ?case using release c by (intro life_ok_same [OF release.prems c]) (auto simp: holds_vm_def)
next
  case (last_release s c t)
  then show ?case using last_release_ok [OF last_release.prems last_release(1-3)] by (simp add: life_ok_def)
qed

lemma context_lives_ok: "context_lives L s \<Longrightarrow> life_ok s"
proof (induction rule: context_lives.induct)
  case (failed cache dataset order seed mode e calls)
  then show ?case using native_context_new_ok [OF failed] by (simp add: life_ok_def)
next
  case (created cache dataset order seed mode c calls t)
  have "owned_vms \<lparr>cl_context = Some c, cl_sharers = (\<lambda>_. Outside)(t := Sharing), cl_calls = calls\<rparr> c = {}"
    using native_context_new_ok [OF created] by (simp add: owned_vms_def holds_vm_def)
  then show ?case using native_context_new_ok [OF created] by (simp add: life_ok_def holds_vm_def)
next
  case (lived s s')
  then show ?case by (blast intro: context_step_ok)
qed

lemma shared_while_alive: "context_lives L s \<Longrightarrow> cl_context s = None \<longleftrightarrow> (\<forall>t. cl_sharers s t = Outside)"
proof (induction rule: context_lives.induct)
  case (lived s s')
  from lived.hyps(2) lived.IH show ?case by (cases rule: context_step.cases) (auto split: if_splits)
qed auto

text \<open>C39: From the construction of a context to the drop of its last clone, under any interleaving of the
  threads that share it and any failed allocation, the native calls keep the contract of the library, and
  the memory is all released exactly when nobody shares the context any more.\<close>

theorem native_memory_released:
  assumes "context_lives L s"
  shows "\<exists>m. native_run (cl_calls s) memory_empty = Some m
    \<and> (m = memory_empty \<longleftrightarrow> (\<forall>t. cl_sharers s t = Outside))"
proof (cases "cl_context s")
  case None
  then show ?thesis using context_lives_ok [OF assms] by (simp add: life_ok_def)
next
  case (Some c)
  have "memory_of c vms \<noteq> memory_empty" for vms by (simp add: memory_of_def memory_empty_def)
  then show ?thesis using context_lives_ok [OF assms] shared_while_alive [OF assms] Some
    by (simp add: life_ok_def)
qed

text \<open>The pointers and what they stand for: the context fails to be built for the same reasons, and has the same
  flags.\<close>

lemma native_context_new_agrees:
  "(case fst (native_context_new L cache dataset order seed mode) of
      Inl e \<Rightarrow> Inl e | Inr c \<Rightarrow> Inr (nx_seed c, nx_flags c, nx_dataset c \<noteq> None, nx_idle_vms c = []))
   = (case context_new L (cache \<noteq> None, dataset \<noteq> None) order seed mode of
      Inl e \<Rightarrow> Inl e | Inr c \<Rightarrow> Inr (cx_seed c, cx_flags c, cx_dataset c \<noteq> None, cx_idle_vms c = []))"
  by (cases cache; cases mode; cases dataset) (simp_all add: native_context_new_def context_new_def Let_def)

lemma native_vm_agrees:
  assumes "nx_flags n = cx_flags c" and "length (nx_idle_vms n) = length (cx_idle_vms c)"
  shows "isl (fst (native_vm first second n)) = isl (fst (context_hash L (first \<noteq> None, second \<noteq> None) input c))"
  using assms by (auto simp: native_vm_def context_hash_def create_vm_def Let_def split: list.splits option.splits)

theorem native_memory_released_witness:
  "\<exists>s. context_lives sample_library s \<and> (\<forall>t. cl_sharers s t = Outside)
    \<and> Calculate_Hash 5 [7] \<in> set (cl_calls s) \<and> native_run (cl_calls s) memory_empty = Some memory_empty"
proof -
  obtain c calls where new: "native_context_new sample_library (Some 3) (Some 4) [0] [1] (RandomXFast 1) = (Inr c, calls)"
    and c: "nx_idle_vms c = []" "nx_dataset c = Some 4"
    by (simp add: native_context_new_def Let_def)
  define s0 where "s0 = \<lparr>cl_context = Some c, cl_sharers = (\<lambda>_. Outside)(0 := Sharing), cl_calls = calls\<rparr>"
  define create where "create = [Create_Vm (nx_flags c) (vm_cache_of c) (nx_dataset c) (Some 5)]"
  define s1 where "s1 = \<lparr>cl_context = Some c, cl_sharers = (\<lambda>_. Outside)(0 := Taken 5), cl_calls = calls @ create\<rparr>"
  define s2 where "s2 = s1\<lparr>cl_sharers := (cl_sharers s1)(0 := Computed 5), cl_calls := cl_calls s1 @ [Calculate_Hash 5 [7]]\<rparr>"
  define s3 where "s3 = \<lparr>cl_context = Some (c\<lparr>nx_idle_vms := 5 # nx_idle_vms c\<rparr>),
    cl_sharers = (cl_sharers s2)(0 := Sharing), cl_calls = cl_calls s2\<rparr>"
  define s4 where "s4 = \<lparr>cl_context = None, cl_sharers = (\<lambda>_. Outside),
    cl_calls = cl_calls s3 @ context_drop (c\<lparr>nx_idle_vms := 5 # nx_idle_vms c\<rparr>)\<rparr>"
  have 0: "context_lives sample_library s0" unfolding s0_def by (rule context_lives.created [OF new])
  have vm: "native_vm (Some 5) None c = (Inr 5, create, c)"
    by (simp add: native_vm_def c create_def)
  have "unused_vm 5 calls"
    using native_context_new_ok [OF new] by (simp add: unused_vm_def memory_of_def)
  then have "context_step s0 s1"
    using context_step.take_vm [of s0 c 0 "Some 5" None 5 create c] vm by (simp add: s0_def s1_def)
  with 0 have 1: "context_lives sample_library s1" by (rule context_lives.lived)
  have "context_step s1 s2" unfolding s2_def by (rule context_step.compute) (simp add: s1_def)
  with 1 have 2: "context_lives sample_library s2" by (rule context_lives.lived)
  have "context_step s2 s3" unfolding s3_def by (rule context_step.put_vm) (simp_all add: s2_def s1_def)
  with 2 have 3: "context_lives sample_library s3" by (rule context_lives.lived)
  have "context_step s3 s4" unfolding s4_def by (rule context_step.last_release [of _ _ 0]) (simp_all add: s3_def s2_def s1_def)
  with 3 have 4: "context_lives sample_library s4" by (rule context_lives.lived)
  have "cl_sharers s4 t = Outside" for t by (simp add: s4_def)
  moreover have "Calculate_Hash 5 [7] \<in> set (cl_calls s4)" by (simp add: s4_def s3_def s2_def)
  ultimately show ?thesis using native_memory_released [OF 4] 4 by auto
qed

end
