(* ===== verification/Submission.thy ===== *)
theory Submission
  imports Json
begin

text \<open>
Objects that reach the node past the codec, as JSON: what validation makes up for and what it does not.  Every
  object read from JSON that a node takes is one the codec would have read, the numbers of templates and shares
  of a block excepted; a block over these numbers is accepted, and the node that has it cannot start again.
\<close>

section \<open>Blocks from outside the codec\<close>

text \<open>The limits on the counts in a witness, which the codec enforces when it reads a block.\<close>

definition witness_counts :: "workshare_witness \<Rightarrow> bool" where
  "witness_counts w \<longleftrightarrow> length (ww_templates w) \<le> MAX_TEMPLATES_PER_BLOCK
     \<and> length (ww_workshares w) \<le> MAX_WORKSHARES_PER_BLOCK
     \<and> (\<forall>t \<in> set (ww_templates w). length (bt_transactions t) \<le> MAX_BLOCK_TRANSACTIONS)"

lemma applied_structure:
  assumes "try_fold (apply_transaction E) x ts = Inr x'"
  shows "\<forall>t \<in> set ts. validate_transaction_structure t = Inr ()"
  using assms
proof (induction ts arbitrary: x)
  case (Cons t ts)
  obtain x1 where "apply_transaction E x t = Inr x1" "try_fold (apply_transaction E) x1 ts = Inr x'"
    using Cons.prems by (auto simp: rbind_Inr)
  then show ?case using Cons.IH by (auto elim: apply_transaction_InrE)
qed simp

lemma structure_wf:
  "validate_transaction_structure t = Inr () \<Longrightarrow> transaction_ok E t \<Longrightarrow> transaction_wf E t"
  by (auto simp: validate_transaction_structure_def transaction_wf_def transaction_ok_def split: if_splits)

lemma applied_wf:
  assumes "apply_transactions E s ts = Inr r" "list_all (transaction_ok E) ts"
  shows "\<forall>t \<in> set ts. transaction_wf E t"
  using assms applied_structure structure_wf
  by (fastforce simp: apply_transactions_def rbind_Inr list_all_iff)

lemma checked_templates:
  assumes "try_fold (check_share E pow hist s c) acc shares = Inr acc'" and "share \<in> set shares"
  shows "\<exists>t r s1. map_of (sc_templates c) (ws_template_id share) = Some t
    \<and> apply_transactions E s1 (bt_transactions t) = Inr r"
  using assms
proof (induction shares arbitrary: acc)
  case (Cons a shares)
  obtain acc1 where st: "check_share E pow hist s c acc a = Inr acc1"
    and rest: "try_fold (check_share E pow hist s c) acc1 shares = Inr acc'"
    using Cons.prems(1) by (auto simp: rbind_Inr)
  show ?case
  proof (cases "share = a")
    case True
    then show ?thesis using st
      by (cases acc) (auto simp: check_share_def Let_def result_simps elim!: transition_InrE)
  next
    case False
    then show ?thesis using Cons.IH [OF rest] Cons.prems(2) by auto
  qed
qed simp

lemma templates_found:
  assumes "distinct (map (template_id E) ts)" and "t \<in> set ts"
  shows "map_of (fold (\<lambda>t m. smap_insert (template_id E t) t m) ts m0) (template_id E t) = Some t"
  using assms
proof (induction ts arbitrary: m0 rule: rev_induct)
  case (snoc a ts)
  then show ?case by (cases "t = a") (auto simp: image_iff)
qed simp

lemma shape_Inr:
  "validate_witness_shape E w = Inr () \<Longrightarrow> length (witness_enc w) \<le> MAX_WORKSHARE_WITNESS_BYTES \<and> witness_is_canonical E w
     \<and> (\<forall>t \<in> set (ww_templates w). length (template_enc t) \<le> MAX_TEMPLATE_BYTES)"
  by (auto simp: validate_witness_shape_def list_ex_iff not_less split: if_splits)

lemma validated_templates:
  assumes v: "validate_workshares E pow w hist s settling = Inr ()" and can: "witness_is_canonical E w"
    and t: "t \<in> set (ww_templates w)"
  shows "\<exists>r s1. apply_transactions E s1 (bt_transactions t) = Inr r"
proof -
  have "template_id E t \<in> ws_template_id ` set (ww_workshares w)"
    using can t by (simp add: witness_is_canonical_iff)
  then obtain share where share: "share \<in> set (ww_workshares w)" "ws_template_id share = template_id E t" by auto
  then have "ww_workshares w \<noteq> []" by auto
  then obtain c acc where c: "share_context_of E w hist settling = Inr c"
    and l: "try_fold (check_share E pow hist s c) (hash_zero, witness_empty) (ww_workshares w) = Inr acc"
    using v by (auto simp: validate_workshares_def rbind_Inr)
  have m: "sc_templates c = fold (\<lambda>t m. smap_insert (template_id E t) t m) (ww_templates w) []"
    using c by (auto simp: share_context_of_def Let_def result_simps)
  have "map_of (sc_templates c) (template_id E t) = Some t"
    unfolding m by (rule templates_found [OF canonical_templates_distinct [OF can] t])
  then show ?thesis using checked_templates [OF l share(1)] share(2) by auto
qed

text \<open>Validation makes up for all the other limits of the codec.\<close>

lemma validated_wf:
  assumes v: "validate_block E pow now b hist s = Inr s'" and a: "block_addressed E b"
    and c: "witness_counts (blk_witness b)"
  shows "block_wf E b"
proof (cases "bh_height (blk_header b) = 0")
  case True
  then have "b = genesis E"
    using v by (auto simp: validate_block_def Let_def rbind_Inr validate_genesis_def split: if_splits)
  then show ?thesis using genesis_wf by (simp add: storable_def)
next
  case False
  obtain claim alloc fees where l: "length (blk_transactions b) \<le> MAX_BLOCK_TRANSACTIONS"
    and shape: "validate_witness_shape E (blk_witness b) = Inr ()"
    and tr: "transition_for_candidate E (bh_height (blk_header b)) claim (blk_transactions b) hist s = Inr (s', alloc, fees)"
    and ws: "validate_workshares E pow (blk_witness b) hist s (bh_timestamp (blk_header b)) = Inr ()"
    by (rule validate_block_InrE [OF v False]) blast
  note sh = shape_Inr [OF shape]
  have "\<forall>t \<in> set (blk_transactions b). transaction_wf E t"
    by (rule transition_InrE [OF tr]) (use applied_wf a in \<open>simp add: block_addressed_def\<close>)
  moreover have "template_wf E t" if t: "t \<in> set (ww_templates (blk_witness b))" for t
  proof -
    obtain r s1 where "apply_transactions E s1 (bt_transactions t) = Inr r"
      using validated_templates [OF ws _ t] sh by blast
    then show ?thesis using applied_wf t a c
      by (auto simp: template_wf_def witness_counts_def block_addressed_def witness_addressed_def template_addressed_def
          list_all_iff)
  qed
  ultimately show ?thesis using l sh a c
    by (auto simp: block_wf_def witness_wf_def witness_counts_def block_addressed_def witness_addressed_def list_all_iff)
qed

lemma block_candidate_wf:
  assumes ok: "node_ok E pow n" and new: "block_by_hash E (nd_chain n) (block_id E b) = None"
    and a: "block_addressed E b" and c: "witness_counts (blk_witness b)"
  shows "(\<exists>e. block_candidate E pow now b n = Some (Inl e)) \<or> block_wf E b"
proof (cases "bh_previous_block (blk_header b) = block_id E (chain_tip (nd_chain n))")
  case True
  then show ?thesis using new validated_wf [OF _ a c]
    by (cases "chain_append E pow now b (nd_chain n)") (auto simp: block_candidate_def chain_append_def result_simps)
next
  case False
  show ?thesis
  proof (cases rule: assemble_candidate_Inr [OF ok new])
    case (1 e)
    then show ?thesis using False by (auto simp: block_candidate_def rbind_def)
  next
    case (2 k pre)
    let ?bs = "take (Suc k) (ch_blocks (nd_chain n)) @ pre"
    have ne: "ch_blocks (nd_chain n) \<noteq> []" using ok chain_ok_inv [of E pow "nd_chain n"] by (simp add: node_ok_def history_inv_def)
    have bc: "block_candidate E pow now b n = Some (consider_chain E pow now (?bs @ [b]) (nd_chain n))"
      using False 2 by (simp add: block_candidate_def rbind_def)
    show ?thesis
    proof (cases "chain_from_blocks E pow now (?bs @ [b])")
      case (Inl e)
      then show ?thesis using bc by (auto simp: consider_chain_cases [OF ne])
    next
      case (Inr v)
      have "?bs \<noteq> []" using ne by (cases "ch_blocks (nd_chain n)") simp_all
      then obtain c0 :: chain where "validate_block E pow now b ?bs (ch_state c0) = Inr (ch_state v)"
        using chain_from_blocks_snoc [THEN iffD1, OF _ Inr [unfolded append_assoc [symmetric]]] by blast
      then show ?thesis using validated_wf [OF _ a c] by blast
    qed
  qed
qed

text \<open>A block of any origin is refused, known, or one the codec would have read.\<close>

lemma submitted_wf:
  assumes ok: "node_ok E pow n" and a: "block_addressed E b" and c: "witness_counts (blk_witness b)"
  shows "(\<exists>r. submit_block E pow now b n = Some (r, n)) \<or> block_wf E b"
proof (cases "block_by_hash E (nd_chain n) (block_id E b)")
  case None
  then show ?thesis using block_candidate_wf [OF ok None a c, of now] by (auto simp: submit_block_unfold)
qed (simp add: submit_block_unfold)

text \<open>Likewise a template and a transaction.\<close>

lemma registered_wf:
  assumes a: "template_addressed E t"
  shows "(\<exists>r. register_template E t n = (r, n)) \<or> template_wf E t"
proof (cases "validate_template_transactions E (bt_transactions t) (ch_state (nd_chain n)) (bt_height t)")
  case (Inl e)
  show ?thesis unfolding register_template_def Let_def Inl by simp
next
  case (Inr u)
  then obtain s r where "length (bt_transactions t) \<le> MAX_BLOCK_TRANSACTIONS"
    "apply_transactions E s (bt_transactions t) = Inr r"
    by (auto simp: validate_template_transactions_def rbind_Inr split: if_splits)
  then show ?thesis using applied_wf a by (auto simp: template_wf_def template_addressed_def)
qed

text \<open>A transaction the pool takes is one the codec would have read.\<close>

lemma for_relay_wf:
  assumes "validate_for_relay E t policy s = Inr u" "transaction_ok E t"
  shows "transaction_wf E t"
  using assms by (auto simp: validate_for_relay_def transaction_wf_def transaction_ok_def split: if_splits)

lemma accepted_wf:
  assumes "transaction_ok E t"
  shows "(\<exists>r. submit_transaction E now t n = Some (r, n)) \<or> transaction_wf E t"
  using for_relay_wf [OF _ assms]
  by (cases "validate_for_relay E t (mp_policy (nd_mempool n)) (ch_state (nd_chain n))")
    (auto simp: submit_transaction_def accept_def)

section \<open>A witness over the limits\<close>

lemma put_u32_prefix:
  assumes "put_u32 (word_of_nat m) @ r = put_u32 (word_of_nat n) @ s" "m < 2 ^ 32" "n < 2 ^ 32"
  shows "m = n \<and> r = s"
proof -
  have e: "put_u32 (word_of_nat m) = put_u32 (word_of_nat n)" and rs: "r = s"
    using assms(1) by (simp_all add: put_u32_def)
  have u32: "from_le_bytes (put_u32 w) = w" for w :: u32 by (simp add: put_u32_def from_to_le_bytes)
  have "(word_of_nat m :: u32) = word_of_nat n" 
    using arg_cong [OF e, of "from_le_bytes :: bytes \<Rightarrow> u32"] unfolding u32 .
  then have "unat (word_of_nat m :: u32) = unat (word_of_nat n :: u32)" by simp
  then show ?thesis using rs assms(2,3) by (simp add: unat_of_nat_lt)
qed

lemma put_bytes_prefix:
  assumes "put_bytes x @ r = put_bytes y @ s" "length x < 2 ^ 32" "length y < 2 ^ 32"
  shows "x = y \<and> r = s"
  using put_u32_prefix [of "length x" "x @ r" "length y" "y @ s"] assms
  by (simp add: put_bytes_def put_fixed_def)

lemma put_items_prefix:
  assumes "concat (map (\<lambda>x. put_bytes (f x)) xs) @ r = concat (map (\<lambda>x. put_bytes (f x)) ys) @ s"
    and "length xs = length ys" and "\<forall>x \<in> set xs \<union> set ys. length (f x) < 2 ^ 32"
  shows "map f xs = map f ys \<and> r = s"
  using assms(2,1,3)
proof (induction xs ys rule: list_induct2)
  case (Cons x xs y ys)
  let ?rest = "\<lambda>zs. concat (map (\<lambda>x. put_bytes (f x)) zs)"
  have "f x = f y \<and> ?rest xs @ r = ?rest ys @ s"
    by (rule put_bytes_prefix) (use Cons.prems in simp_all)
  then show ?case using Cons.IH Cons.prems(2) by simp
qed simp

lemma put_vec_bounds:
  "length xs \<le> length (put_vec f xs)" "x \<in> set xs \<Longrightarrow> length (f x) \<le> length (put_vec f xs)"
proof -
  have "length xs \<le> length (concat (map (\<lambda>x. put_bytes (f x)) xs))"
    by (induction xs) (simp_all add: put_bytes_def)
  then show "length xs \<le> length (put_vec f xs)" by (simp add: put_vec_def put_list_def)
  have "x \<in> set xs \<Longrightarrow> length (f x) \<le> length (concat (map (\<lambda>x. put_bytes (f x)) xs))"
    by (induction xs) (auto simp: put_bytes_def put_fixed_def)
  then show "x \<in> set xs \<Longrightarrow> length (f x) \<le> length (put_vec f xs)" by (simp add: put_vec_def put_list_def)
qed

lemma put_vec_prefix:
  assumes "put_vec f xs @ r = put_vec f ys @ s" and "length (put_vec f xs @ r) < 2 ^ 32"
  shows "length xs = length ys \<and> map f xs = map f ys \<and> r = s"
proof -
  have s: "length (put_vec f xs) < 2 ^ 32" "length (put_vec f ys) < 2 ^ 32"
    using assms(2) arg_cong [OF assms(1), of length] by simp_all
  then have l: "length xs < 2 ^ 32" "length ys < 2 ^ 32" "\<forall>x \<in> set xs \<union> set ys. length (f x) < 2 ^ 32"
    using put_vec_bounds [where f = f] by (auto intro: le_less_trans)
  from assms(1) have "length xs = length ys \<and> concat (map (\<lambda>x. put_bytes (f x)) xs) @ r
      = concat (map (\<lambda>x. put_bytes (f x)) ys) @ s"
    unfolding put_vec_def put_list_def append_assoc by (rule put_u32_prefix) (use l in simp_all)
  then show ?thesis using put_items_prefix [of f xs r ys s] l by blast
qed

lemma witness_enc_parts:
  assumes "witness_enc w = witness_enc v" and "length (witness_enc w) < 2 ^ 32"
  shows "length (ww_templates w) = length (ww_templates v)" "map template_enc (ww_templates w) = map template_enc (ww_templates v)"
    "length (ww_workshares w) = length (ww_workshares v)"
proof -
  have e: "put_vec template_enc (ww_templates w) @ put_vec workshare_enc (ww_workshares w) @ []
      = put_vec template_enc (ww_templates v) @ put_vec workshare_enc (ww_workshares v) @ []"
    using assms(1) by (simp add: witness_enc_def put_u16_def)
  have s: "length (put_vec template_enc (ww_templates w) @ put_vec workshare_enc (ww_workshares w)) < 2 ^ 32"
    using assms(2) by (simp add: witness_enc_def)
  note t = put_vec_prefix [OF e, simplified, OF s [simplified]]
  show "length (ww_templates w) = length (ww_templates v)" "map template_enc (ww_templates w) = map template_enc (ww_templates v)"
    using t by simp_all
  have "put_vec workshare_enc (ww_workshares w) @ [] = put_vec workshare_enc (ww_workshares v) @ []" using t by simp
  from put_vec_prefix [OF this] show "length (ww_workshares w) = length (ww_workshares v)" using s by simp
qed

lemma template_enc_parts:
  assumes "template_enc t = template_enc u" and "length (template_enc t) < 2 ^ 32"
  shows "length (bt_transactions t) = length (bt_transactions u)"
proof -
  have "put_vec transaction_enc (bt_transactions t) @ [] = put_vec transaction_enc (bt_transactions u) @ []"
    using assms(1) by (simp add: template_enc_def put_u16_def put_u64_def)
  from put_vec_prefix [OF this] show ?thesis using assms(2) by (simp add: template_enc_def)
qed

lemma block_enc_witness:
  assumes "block_enc b = block_enc b'" and "length (block_enc b) < 2 ^ 32"
  shows "witness_enc (blk_witness b) = witness_enc (blk_witness b')" "length (witness_enc (blk_witness b)) < 2 ^ 32"
proof -
  let ?tail = "\<lambda>b. put_vec transaction_enc (blk_transactions b) @ put_bytes (witness_enc (blk_witness b)) @ []"
  let ?claim = "\<lambda>b. claim_option_enc (blk_reward_claim b)"
  have e: "block_enc b = header_enc (blk_header b) @ ?claim b @ ?tail b" for b
    by (simp add: block_enc_def claim_option_enc_def)
  have c: "?claim b @ ?tail b = ?claim b' @ ?tail b'" using assms(1) unfolding e by simp
  then have "(blk_reward_claim b = None) = (blk_reward_claim b' = None)"
    by (auto simp: claim_option_enc_def put_u8_def split: option.splits)
  then have "length (?claim b) = length (?claim b')"
    by (auto simp: claim_option_enc_def put_u8_def split: option.splits)
  then have t: "?tail b = ?tail b'" using c by simp
  have s: "length (?tail b) < 2 ^ 32" using assms(2) unfolding e by simp
  have w: "put_bytes (witness_enc (blk_witness b)) @ [] = put_bytes (witness_enc (blk_witness b')) @ []"
    using put_vec_prefix [OF t s] by blast
  have "length (put_bytes (witness_enc (blk_witness b))) = length (put_bytes (witness_enc (blk_witness b')))"
    using w by simp
  then have l: "length (witness_enc (blk_witness b)) < 2 ^ 32" "length (witness_enc (blk_witness b')) < 2 ^ 32"
    using s by (simp_all add: put_bytes_def put_fixed_def)
  show "witness_enc (blk_witness b) = witness_enc (blk_witness b')" using put_bytes_prefix [OF w l] by blast
  show "length (witness_enc (blk_witness b)) < 2 ^ 32" by (rule l(1))
qed

text \<open>No block that the codec reads has the encoding of a block over the limits.\<close>

lemma counts_encoded:
  assumes "block_enc b = block_enc b'" and "length (block_enc b) < 2 ^ 32" and "block_wf E b'"
  shows "witness_counts (blk_witness b)"
proof -
  note w = witness_enc_parts [OF block_enc_witness [OF assms(1,2)]]
  have wf: "witness_wf E (blk_witness b')" using assms(3) by (simp add: block_wf_def)
  have "length (bt_transactions t) \<le> MAX_BLOCK_TRANSACTIONS" if t: "t \<in> set (ww_templates (blk_witness b))" for t
  proof -
    have "template_enc t \<in> set (map template_enc (ww_templates (blk_witness b')))" using t w(2) by (metis image_eqI set_map)
    then obtain u where u: "u \<in> set (ww_templates (blk_witness b'))" "template_enc t = template_enc u" by auto
    have "length (template_enc t) < 2 ^ 32" using wf u by (auto simp: witness_wf_def limit_defs)
    then have "length (bt_transactions t) = length (bt_transactions u)" using template_enc_parts u(2) by blast
    then show ?thesis using wf u(1) by (auto simp: witness_wf_def template_wf_def)
  qed
  then show ?thesis using w wf by (simp add: witness_counts_def witness_wf_def)
qed

lemma active_rows_stay:
  assumes "try_fold (insert_active E blocks) m bs = Inr m'"
  shows "(\<forall>h k. map_of m h = Some k \<longrightarrow> map_of m' h = Some k)
    \<and> (\<forall>b \<in> set bs. map_of m' (bh_height (blk_header b)) = Some (block_id E b))"
  using assms
proof (induction bs arbitrary: m)
  case (Cons b bs)
  obtain m1 where m1: "insert_active E blocks m b = Inr m1" and rest: "try_fold (insert_active E blocks) m1 bs = Inr m'"
    using Cons.prems by (auto simp: rbind_Inr)
  have "map_of m1 (bh_height (blk_header b)) = Some (block_id E b)"
    "map_of m h = Some k \<Longrightarrow> map_of m1 h = Some k" for h k
    using m1 by (auto simp: insert_active_Inr smap_contains_def)
  then show ?case using Cons.IH [OF rest] by auto
qed simp

lemma load_stops:
  assumes "decode_stored E (sb_data row) = Inl e" and "row \<in> set rows"
  shows "\<exists>e. try_fold (\<lambda>blocks row. rbind (decode_stored E (sb_data row)) (\<lambda>b. Inr (blocks @ [b]))) acc rows
    = Inl (InvalidStoredBlock e)"
  using assms(2)
proof (induction rows arbitrary: acc)
  case (Cons r rows)
  show ?case
  proof (cases "consensus_decode (block_dec E) (sb_data r)")
    case (Inl x)
    then show ?thesis by (simp add: decode_stored_def map_err_def rbind_def)
  next
    case (Inr b)
    then have "r \<noteq> row" using assms(1) by (auto simp: decode_stored_def map_err_def)
    then show ?thesis using Cons Inr by (simp add: decode_stored_def map_err_def rbind_def)
  qed
qed simp

lemma over_limits_unreadable:
  assumes "length (block_enc b) \<le> MAX_BLOCK_BYTES" and "\<not> witness_counts (blk_witness b)"
  shows "\<exists>e. decode_stored E (block_enc b) = Inl e"
proof (cases "consensus_decode (block_dec E) (block_enc b)")
  case (Inr b')
  then have "block_wf E b'" "block_enc b = block_enc b'" by (simp_all add: block_codec.decode_iff)
  moreover have "length (block_enc b) < 2 ^ 32" using assms(1) by (simp add: limit_defs)
  ultimately show ?thesis using counts_encoded assms(2) by blast
qed (simp add: decode_stored_def map_err_def)

lemma identity_blocks:
  assumes "initialize_identity E db = Inr db"
  shows "initialize_identity E (db\<lparr>db_blocks := rows\<rparr>) = Inr (db\<lparr>db_blocks := rows\<rparr>)"
proof (cases "smap_get (db_metadata db) (ascii ''network'')")
  case None
  then have "db_metadata db = smap_insert (ascii ''genesis'') (array_bytes (block_id E (genesis E)))
      (smap_insert (ascii ''protocol'') (to_le_bytes PROTOCOL_VERSION)
        (smap_insert (ascii ''network'') CHAIN_ID (db_metadata db)))"
    using assms by (cases db) (simp add: initialize_identity_def)
  then have "smap_get (db_metadata db) (ascii ''network'') = Some CHAIN_ID"
    using metadata_keys by (metis fun_upd_other fun_upd_same map_of_smap_insert)
  then show ?thesis using None by simp
qed (use assms in \<open>auto simp: initialize_identity_def split: if_splits\<close>)

text \<open>After such a block was saved the database does not load.\<close>

lemma over_limits_saved:
  assumes st: "store_side_block E now b db = Inr db1" and sv: "save_chain E now' c db1 = Inr db2"
    and new: "\<not> smap_contains (db_blocks db) (block_id E b)" and b: "b \<in> set (ch_blocks c)"
    and bad: "decode_stored E (block_enc b) = Inl e" and id: "initialize_identity E db = Inr db"
  shows "\<exists>e. open_chain E pow later db2 = Some (Inl (OpenStorage (InvalidStoredBlock e)))"
proof -
  obtain row where row: "smap_get (db_blocks db1) (block_id E b) = Some row" "sb_data row = block_enc b"
    and id1: "initialize_identity E db1 = Inr db1"
    using st new identity_blocks [OF id] by (auto simp: store_side_block_def rbind_Inr insert_block_Inr)
  obtain blocks active where bl: "try_fold (insert_block E now') (db_blocks db1) (ch_blocks c) = Inr blocks"
    and ac: "try_fold (insert_active E blocks) [] (ch_blocks c) = Inr active"
    and db2: "db_blocks db2 = blocks" "db_active db2 = active"
    using sv by (auto simp: save_chain_Inr)
  have "smap_get blocks (block_id E b) = Some row" using insert_blocks_rows [OF bl] row(1) by blast
  moreover have "(bh_height (blk_header b), block_id E b) \<in> set active"
    using active_rows_stay [OF ac] b by (blast dest: map_of_SomeD)
  ultimately have "row \<in> set (concat (map (\<lambda>(height, hash). case smap_get (db_blocks db2) hash of
      Some row \<Rightarrow> [row] | None \<Rightarrow> []) (db_active db2)))"
    by (force simp: db2)
  then obtain x where "load_active_blocks E db2 = Inl (InvalidStoredBlock x)"
    using load_stops [of E row e] bad row(2) unfolding load_active_blocks_def by metis
  then show ?thesis using save_chain_identity [OF sv id1] by (simp add: open_chain_def rbind_def)
qed

lemma over_limits_frame:
  assumes "length (block_enc b) \<le> MAX_BLOCK_BYTES" and "\<not> witness_counts (blk_witness b)"
  shows "decode_frame E (encode_frame (MsgBlock b)) \<noteq> Inr m"
proof
  assume d: "decode_frame E (encode_frame (MsgBlock b)) = Inr m"
  have m: "wire_wf E m" "wire_enc m = wire_enc (MsgBlock b)"
    using d unfolding decode_frame_iff by (simp_all add: encode_frame_def)
  obtain b' where b': "m = MsgBlock b'" using m(2) by (cases m) (simp_all add: put_u8_def)
  have small: "length (block_enc b) < 2 ^ 32" using assms(1) by (simp add: limit_defs)
  have "length (wire_enc m) = length (wire_enc (MsgBlock b))" using m(2) by simp
  then have "length (block_enc b') < 2 ^ 32" using small by (simp add: b' put_bytes_def put_fixed_def)
  then have "block_enc b = block_enc b'"
    using put_bytes_prefix [of "block_enc b" "[]" "block_enc b'" "[]"] m(2) small by (simp add: b' put_u8_def)
  moreover have "block_wf E b'" using m(1) by (simp add: b')
  ultimately show False using counts_encoded [OF _ small] assms(2) by blast
qed

lemma extended_block:
  assumes "submit_block E pow now b n = Some (Inr (Extended k h), n')"
  obtains s c db where "validate_block E pow now b (ch_blocks (nd_chain n)) (ch_state (nd_chain n)) = Inr s"
    "ch_blocks c = ch_blocks (nd_chain n) @ [b]" "store_side_block E now b (nd_storage n) = Inr db"
    "save_chain E now c db = Inr (nd_storage n')" "nd_chain n' = c"
proof -
  obtain c db where c: "block_candidate E pow now b n = Some (Inr (Extended k h, c))"
    and db: "store_side_block E now b (nd_storage n) = Inr db"
    and act: "activate_chain E now (Extended k h) b c (n\<lparr>nd_storage := db\<rparr>) = Some (Inr (Extended k h), n')"
    using assms unfolding submit_block_unfold
    by (auto simp: activate_chain_def Let_def split: if_splits option.splits sum.splits prod.splits chain_event.splits)
  have ap: "chain_append E pow now b (nd_chain n) = Inr (Extended k h, c)"
    using c by (auto simp: block_candidate_def consider_chain_def Let_def rbind_Inr split: if_splits option.splits sum.splits)
  then obtain s where "validate_block E pow now b (ch_blocks (nd_chain n)) (ch_state (nd_chain n)) = Inr s"
    "ch_blocks c = ch_blocks (nd_chain n) @ [b]"
    by (auto simp: chain_append_def result_simps split: if_splits)
  moreover have "save_chain E now c db = Inr (nd_storage n')" "nd_chain n' = c"
    using act by (auto simp: activate_chain_def Let_def send_event_def bump_generation_def split: option.splits sum.splits prod.splits)
  ultimately show thesis using that db by blast
qed

text \<open>C29: Of the four limits on a witness validation enforces only the size in bytes; the numbers of its templates
  and workshares are checked by the codec alone, and \<open>POST /block\<close> takes a block past the codec.  A node that
  extends its chain by such a block serves and gossips what no peer can read, and once it is stopped it cannot
  start again: its own database is an error to \<open>open_chain\<close>.\<close>

theorem unread_block_stops_node:
  assumes run: "node_run E pow (ad_node st)"
    and post: "rpc_submit_block E pow now b st = Some (Inr (k, Extended tip h), st')"
    and counts: "\<not> witness_counts (blk_witness b)"
    and new: "\<not> smap_contains (db_blocks (nd_storage (ad_node st))) (block_id E b)"
  shows "chain_tip (nd_chain (ad_node st')) = b
    \<and> (\<exists>e. open_chain E pow later (nd_storage (ad_node st')) = Some (Inl (OpenStorage (InvalidStoredBlock e))))
    \<and> (\<forall>m. decode_frame E (encode_frame (MsgBlock b)) \<noteq> Inr m)"
proof -
  have on: "ensure_node_running st = Inr ()" using post by (auto simp: rpc_submit_block_def split: sum.splits)
  then obtain r n1 where sb: "submit_block E pow now b (ad_node st) = Some (r, n1)"
    and r: "rbind (map_err (BadRequest \<circ> CauseConsensus) r) (\<lambda>event. Inr (block_id E b, event)) = Inr (k, Extended tip h)"
      "st' = st\<lparr>ad_node := n1\<rparr>"
    using post by (auto simp: rpc_submit_block_def)
  have "r = Inr (Extended tip h)" using r(1) by (cases r) (simp_all add: map_err_def rbind_def)
  then have "submit_block E pow now b (ad_node st) = Some (Inr (Extended tip h), ad_node st')" using sb r(2) by simp
  then obtain s c db where v: "validate_block E pow now b (ch_blocks (nd_chain (ad_node st))) (ch_state (nd_chain (ad_node st))) = Inr s"
    and c: "ch_blocks c = ch_blocks (nd_chain (ad_node st)) @ [b]" "nd_chain (ad_node st') = c"
    and db: "store_side_block E now b (nd_storage (ad_node st)) = Inr db" "save_chain E now c db = Inr (nd_storage (ad_node st'))"
    by (rule extended_block) blast
  have "bh_height (blk_header b) \<noteq> 0"
  proof
    assume "bh_height (blk_header b) = 0"
    then have "b = genesis E"
      using v by (auto simp: validate_block_def Let_def rbind_Inr validate_genesis_def split: if_splits)
    then show False using counts by (simp add: genesis_def witness_empty_def witness_counts_def)
  qed
  then have l: "length (block_enc b) \<le> MAX_BLOCK_BYTES" by (rule validate_block_InrE [OF v])
  obtain e where e: "decode_stored E (block_enc b) = Inl e" using over_limits_unreadable [OF l counts] by blast
  have "initialize_identity E (nd_storage (ad_node st)) = Inr (nd_storage (ad_node st))"
    using node_run_ok [OF run] by (simp add: node_ok_def storage_part_def)
  then have "\<exists>e. open_chain E pow later (nd_storage (ad_node st')) = Some (Inl (OpenStorage (InvalidStoredBlock e)))"
    using over_limits_saved [OF db new _ e] c(1) by simp
  then show ?thesis using over_limits_frame [OF l counts] c by (simp add: chain_tip_def)
qed

section \<open>Such a block\<close>

definition next_share :: workshare where
  "next_share = sample_share\<lparr>ws_previous := workshare_id sample_env sample_share\<rparr>"

definition long_witness :: "nat \<Rightarrow> workshare_witness" where
  "long_witness k = \<lparr>ww_version = WITNESS_VERSION, ww_templates = [sample_template],
     ww_workshares = sample_share # replicate k next_share\<rparr>"

definition long_block :: "nat \<Rightarrow> block" where
  "long_block k = \<lparr>blk_header = sample_header sample_alice (long_witness k) 7,
     blk_reward_claim = Some (sample_claim sample_alice), blk_transactions = [], blk_witness = long_witness k\<rparr>"

lemma put_vec_last:
  assumes "f x \<noteq> []"
  shows "last (put_vec f (xs @ [x])) = last (f x)" "put_vec f (xs @ [x]) \<noteq> []"
  using assms by (simp_all add: put_vec_def put_list_def put_bytes_def put_fixed_def)

lemma sample_nonce: "put_u64 (2 ^ 50) = [0, 0, 0, 0, 0, 0, 4, 0]"
proof -
  have "(8 :: nat) = Suc (Suc (Suc (Suc (Suc (Suc (Suc (Suc 0)))))))" by simp
  then have "le_bytes_nat 8 1125899906842624 = [0, 0, 0, 0, 0, 0, 4, 0]" by (simp only: le_bytes_nat.simps) simp
  moreover have "put_u64 (2 ^ 50) = le_bytes_nat 8 1125899906842624" by (simp add: put_u64_def to_le_bytes_def)
  ultimately show ?thesis by simp
qed

lemma sample_share_last:
  assumes "s = sample_share \<or> s = next_share"
  shows "last (workshare_enc s) = 0" "workshare_enc s \<noteq> []"
proof -
  have h: "ws_candidate_header s = sample_header sample_bob witness_empty (2 ^ 50)"
    using assms by (auto simp: sample_share_def next_share_def)
  have "last (header_enc (ws_candidate_header s)) = 0 \<and> header_enc (ws_candidate_header s) \<noteq> []"
    unfolding h header_enc_def sample_header_simps sample_nonce by simp
  then show "last (workshare_enc s) = 0" "workshare_enc s \<noteq> []" by (simp_all add: workshare_enc_def)
qed

lemma sample_root:
  assumes "ww_workshares w = xs @ [s]" and "s = sample_share \<or> s = next_share"
  shows "witness_root sample_env w = witness_root sample_env witness_empty"
proof -
  note l = sample_share_last [OF assms(2)]
  have w: "witness_enc w \<noteq> []" "last (witness_enc w) = 0"
    using put_vec_last [of workshare_enc s xs] l by (simp_all add: witness_enc_def assms(1))
  have z: "put_u32 0 = [0, 0, 0, 0]"
  proof -
    have "(4 :: nat) = Suc (Suc (Suc (Suc 0)))" by simp
    then have "le_bytes_nat 4 0 = [0, 0, 0, 0]" by (simp only: le_bytes_nat.simps) simp
    then show ?thesis by (simp add: put_u32_def to_le_bytes_def)
  qed
  have e: "witness_enc witness_empty \<noteq> []" "last (witness_enc witness_empty) = 0"
    by (simp_all add: witness_enc_def witness_empty_def put_vec_def put_list_def z)
  show ?thesis unfolding witness_root_def
    by (subst (1 2) sample_domain_hash) (simp_all add: w e ascii_def)
qed

lemma sample_ids: "workshare_id sample_env next_share = workshare_id sample_env sample_share"
  unfolding workshare_id_def
  by (subst (1 2) sample_domain_hash) (simp_all add: sample_share_last ascii_def)

definition sample_context :: share_context where
  "sample_context = \<lparr>sc_parent = genesis sample_env,
     sc_templates = [(template_id sample_env sample_template, sample_template)],
     sc_seed = RANDOMX_BOOTSTRAP_SEED, sc_expected_bits = 0x1f03ffff,
     sc_block_target = sample_target, sc_share_target = sample_share_target,
     sc_mtp = median_time_past [genesis sample_env], sc_settling_timestamp = GENESIS_TIMESTAMP + 64\<rparr>"

lemma long_context:
  "share_context_of sample_env (long_witness k) [genesis sample_env] (GENESIS_TIMESTAMP + 64) = Inr sample_context"
  using sample_seed
  by (simp add: share_context_of_def long_witness_def genesis_bits sample_targets ok_or_def rbind_def
      ensure_def Let_def sample_context_def)

lemma sample_share_checks:
  assumes s: "s = sample_share \<or> s = next_share"
    and root: "witness_root sample_env prefix = witness_root sample_env witness_empty"
  shows "\<exists>ts. check_share sample_env sample_pow [genesis sample_env] (ledger_default sample_env) sample_context
      (ws_previous s, prefix) s = Inr (workshare_id sample_env sample_share,
        prefix\<lparr>ww_workshares := ww_workshares prefix @ [s], ww_templates := ts\<rparr>)"
proof -
  let ?h = "sample_header sample_bob witness_empty (2 ^ 50)"
  have f: "ws_version s = SHARE_VERSION" "ws_template_id s = template_id sample_env sample_template"
    "ws_miner s = sample_bob" "ws_extranonce s = 0" "ws_candidate_header s = ?h"
    using s by (auto simp: next_share_def sample_share_def)
  have good: "\<not> share_header_bad sample_env sample_context (ws_previous s) s"
    by (simp add: share_header_bad_def sample_context_def f sample_mtp Let_def GENESIS_TIMESTAMP_def)
  have claim: "\<lparr>rc_version = CLAIM_VERSION, rc_height = 1, rc_finder = sample_bob,
      rc_amount = 1000000000, rc_extranonce = 0\<rparr> = sample_claim sample_bob"
    by (simp add: sample_claim_def)
  obtain hash where hash: "sample_pow RANDOMX_BOOTSTRAP_SEED (header_enc ?h) = Inr hash"
    "from_le_bytes (array_bytes hash) = (word_of_nat (2 ^ 192 * unat (bh_nonce ?h)) :: u256)"
    by (rule sample_pow_header)
  then have meets: "hash_meets_target hash sample_share_target" "\<not> hash_meets_target hash sample_target"
    by (simp_all add: hash_meets_target_def sample_share_target_def sample_target_def)
  have i: "workshare_id sample_env s = workshare_id sample_env sample_share" using s sample_ids by auto
  have "\<exists>ts. check_share sample_env sample_pow [genesis sample_env] (ledger_default sample_env) sample_context
      (ws_previous s, prefix) s = Inr (workshare_id sample_env s,
        prefix\<lparr>ww_workshares := ww_workshares prefix @ [s], ww_templates := ts\<rparr>)"
    using good hash(1) meets sample_transition root
    by (simp add: check_share_def Let_def f sample_template_def sample_allocation claim sample_context_def
        ok_or_def rbind_def ensure_def map_err_def) (rule exI, rule refl)
  then show ?thesis unfolding i .
qed

lemma sample_shares_check:
  assumes "witness_root sample_env prefix = witness_root sample_env witness_empty"
  shows "\<exists>r. try_fold (check_share sample_env sample_pow [genesis sample_env] (ledger_default sample_env) sample_context)
    (workshare_id sample_env sample_share, prefix) (replicate k next_share) = Inr r"
  using assms
proof (induction k arbitrary: prefix)
  case (Suc k)
  have p: "ws_previous next_share = workshare_id sample_env sample_share" by (simp add: next_share_def)
  obtain ts where c: "check_share sample_env sample_pow [genesis sample_env] (ledger_default sample_env) sample_context
      (workshare_id sample_env sample_share, prefix) next_share = Inr (workshare_id sample_env sample_share,
        prefix\<lparr>ww_workshares := ww_workshares prefix @ [next_share], ww_templates := ts\<rparr>)"
    using sample_share_checks [of next_share prefix] Suc.prems unfolding p by auto
  have "witness_root sample_env (prefix\<lparr>ww_workshares := ww_workshares prefix @ [next_share], ww_templates := ts\<rparr>)
      = witness_root sample_env witness_empty"
    by (rule sample_root [of _ "ww_workshares prefix" next_share]) simp_all
  from Suc.IH [OF this] show ?case using c by (simp add: rbind_def)
qed simp

lemma long_workshares_valid:
  "validate_workshares sample_env sample_pow (long_witness k) [genesis sample_env] (ledger_default sample_env)
     (GENESIS_TIMESTAMP + 64) = Inr ()"
proof -
  let ?check = "check_share sample_env sample_pow [genesis sample_env] (ledger_default sample_env) sample_context"
  have p: "ws_previous sample_share = hash_zero" by (simp add: sample_share_def)
  obtain ts where c: "?check (hash_zero, witness_empty) sample_share = Inr (workshare_id sample_env sample_share,
        witness_empty\<lparr>ww_workshares := ww_workshares witness_empty @ [sample_share], ww_templates := ts\<rparr>)"
    using sample_share_checks [of sample_share witness_empty] unfolding p by auto
  have "witness_root sample_env (witness_empty\<lparr>ww_workshares := ww_workshares witness_empty @ [sample_share], ww_templates := ts\<rparr>)
      = witness_root sample_env witness_empty"
    by (rule sample_root [of _ "ww_workshares witness_empty" sample_share]) simp_all
  from sample_shares_check [OF this, of k] obtain r where
    "try_fold ?check (hash_zero, witness_empty) (sample_share # replicate k next_share) = Inr r"
    using c by (auto simp: rbind_def)
  moreover have "ww_workshares (long_witness k) = sample_share # replicate k next_share" by (simp add: long_witness_def)
  ultimately show ?thesis by (simp add: validate_workshares_def long_context rbind_def)
qed

lemma long_witness_size: "length (witness_enc (long_witness k)) = 323 + 263 * k"
proof -
  have "length (concat (replicate k (put_bytes (workshare_enc next_share)))) = 263 * k"
    by (induction k) (simp_all add: put_bytes_def put_fixed_def workshare_enc_def)
  then show ?thesis
    by (simp add: witness_enc_def long_witness_def put_vec_def put_list_def workshare_enc_def
        template_enc_def sample_template_def map_replicate_const) 
qed

lemma long_block_valid:
  assumes "k \<le> 1000"
  shows "validate_block sample_env sample_pow sample_now (long_block k) [genesis sample_env]
     (ledger_default sample_env) = Inr (sample_state sample_alice)"
proof -
  let ?h = "sample_header sample_alice (long_witness k) 7"
  have "sample_target \<le> pow_limit" by (simp add: sample_target_def pow_limit_def)
  then have hc: "validate_header_context sample_env ?h (genesis sample_env) [genesis sample_env]
      sample_now = Inr ()"
    using sample_targets(1) by (simp add: header_context_Inr genesis_bits sample_mtp sample_now_def GENESIS_TIMESTAMP_def)
  have bl: "length (block_enc (long_block k)) \<le> MAX_BLOCK_BYTES"
    using assms by (simp add: block_enc_def long_block_def long_witness_size put_vec_def put_list_def limit_defs)
  have can: "witness_is_canonical sample_env (long_witness k)"
    by (auto simp: witness_is_canonical_iff long_witness_def next_share_def sample_share_def)
  have shape: "validate_witness_shape sample_env (long_witness k) = Inr ()"
    using assms can by (simp add: validate_witness_shape_def long_witness_size limit_defs)
      (simp add: long_witness_def template_enc_def sample_template_def put_vec_def put_list_def)
  have pow: "verify_pow sample_env sample_pow seed ?h sample_target = Inr ()" for seed
    by (rule sample_pow_header [of seed ?h])
      (simp add: verify_pow_def hash_meets_target_def rbind_def map_err_def sample_target_def)
  have root: "block_transaction_root sample_env (long_block k) = bh_transactions_root ?h"
    by (simp add: block_transaction_root_def long_block_def)
  have parts: "blk_header (long_block k) = ?h" "blk_reward_claim (long_block k) = Some (sample_claim sample_alice)"
    "blk_transactions (long_block k) = []" "blk_witness (long_block k) = long_witness k"
    by (simp_all add: long_block_def)
  show ?thesis
    using hc bl shape pow sample_targets(1) sample_transition long_workshares_valid root sample_seed
    unfolding validate_block_def Let_def parts by (simp add: result_simps)
qed

lemma long_block_new: "block_id sample_env (long_block k) \<noteq> block_id sample_env (genesis sample_env)"
proof
  assume "block_id sample_env (long_block k) = block_id sample_env (genesis sample_env)"
  then have "array_bytes (header_id sample_env (blk_header (long_block k))) ! 0
      = array_bytes (header_id sample_env (blk_header (genesis sample_env))) ! 0" by (simp add: block_id_def)
  then show False by (simp add: sample_header_id header_height_byte long_block_def)
qed

lemma long_block_typed: "block_typed sample_env (long_block k)"
  by (auto simp: block_typed_def long_block_def long_witness_def sample_share_def next_share_def claim_ok_def workshare_ok_def)

text \<open>The first start, and a database that holds nothing but genesis.\<close>

lemma fresh_node:
  obtains db w where "node_run sample_env sample_pow (node_open sample_config sample_env (sample_genesis_chain w) db)"
    "cumulative_work [genesis sample_env] = Inr w" "unat w < 2 ^ 255"
    "\<And>k. smap_contains (db_blocks db) k \<Longrightarrow> k = block_id sample_env (genesis sample_env)"
proof -
  obtain c db where o: "open_chain sample_env sample_pow 5 storage_empty = Some (Inr (c, db))"
    using open_fresh_Some [of 5 sample_env sample_pow] by auto
  note f = open_fresh_ok [OF o]
  have vh: "valid_history sample_env sample_pow [genesis sample_env] (ch_state c)"
    and w: "cumulative_work [genesis sample_env] = Inr (ch_work c)"
    using f(1) by (simp_all add: chain_ok_def f(5))
  have "ch_state c = ledger_default sample_env" using vh by (cases rule: valid_history.cases) auto
  then have c: "c = sample_genesis_chain (ch_work c)" by (cases c) (use f(5) in \<open>simp add: sample_genesis_chain_def\<close>)
  have rows: "k = block_id sample_env (genesis sample_env)" if sm: "smap_contains (db_blocks db) k" for k
  proof -
    obtain row where row: "smap_get (db_blocks db) k = Some row" using sm by (auto simp: smap_contains_def)
    obtain b where b: "block_wf sample_env b" "sb_data row = block_enc b" "block_id sample_env b = k"
      using f(2) row by (auto simp: storage_ok_def)
    have "b = genesis sample_env" by (rule fresh_twins [OF o row b(2,1)])
    then show ?thesis using b(3) by simp
  qed
  have "unat (ch_work c) < 2 ^ 255"
    using w genesis_bits' sample_targets(1) sample_target_work
    by (simp add: cumulative_work_def checked_add_def ok_or_def rbind_def)
  then show thesis
    using node_run.fresh [OF o, of sample_config] w rows
    by (intro that [of "ch_work c" db]) (simp_all add: c [symmetric])
qed

lemma long_block_accepted:
  assumes run: "node_run sample_env sample_pow n" and c: "nd_chain n = sample_genesis_chain w"
    and w: "cumulative_work [genesis sample_env] = Inr w" "unat w < 2 ^ 255" and k: "k \<le> 1000"
  shows "\<exists>n'. submit_block sample_env sample_pow sample_now (long_block k) n
    = Some (Inr (Extended (block_id sample_env (long_block k)) 1), n')"
proof -
  let ?b = "long_block k" and ?ev = "Extended (block_id sample_env (long_block k)) 1"
  have b: "bh_height (blk_header ?b) = 1" "bh_previous_block (blk_header ?b) = block_id sample_env (genesis sample_env)"
    "bh_bits (blk_header ?b) = 0x1f03ffff" by (simp_all add: long_block_def)
  have now: "unat sample_now < 2 ^ 63" by (simp add: sample_now_def GENESIS_TIMESTAMP_def)
  obtain w' where w': "checked_add w (target_work sample_target) = Some w'"
    using w(2) sample_target_work by (auto simp: checked_add_def)
  have new: "block_by_hash sample_env (nd_chain n) (block_id sample_env ?b) = None"
    using long_block_new by (simp add: c block_by_hash_None sample_genesis_chain_def)
  let ?c = "\<lparr>ch_blocks = [genesis sample_env, ?b], ch_state = sample_state sample_alice, ch_work = w'\<rparr>"
  have app: "chain_append sample_env sample_pow sample_now ?b (nd_chain n) = Inr (?ev, ?c)"
    using new long_block_valid [OF k] w'
    by (simp add: chain_append_def b c sample_genesis_chain_def chain_tip_def sample_targets(1) rbind_def ok_or_def)
  obtain db where db: "store_side_block sample_env sample_now ?b (nd_storage n) = Inr db"
    using now by (simp add: store_side_block_def insert_block_Inr rbind_Inr b)
  have vh: "valid_history sample_env sample_pow [genesis sample_env, ?b] (sample_state sample_alice)"
    using valid_history.extend [OF valid_history.genesis long_block_valid [OF k] _ long_block_typed] b(1) by simp
  have cw: "cumulative_work [genesis sample_env, ?b] = Inr w'"
    using cumulative_work_snoc [of "[genesis sample_env]" ?b] w(1) w' b(3) sample_targets(1)
    by (simp add: rbind_def ok_or_def)
  obtain db' where sv: "save_chain sample_env sample_now ?c db = Inr db'"
    using save_chain_total [of sample_env sample_pow ?c sample_now db] vh cw now long_block_new [of k]
    by (auto simp: chain_ok_def dest: not_sym)
  have prev: "bh_previous_block (blk_header ?b) = block_id sample_env (chain_tip (nd_chain n))"
    by (simp add: b c sample_genesis_chain_def chain_tip_def)
  then have "block_candidate sample_env sample_pow sample_now ?b n = Some (Inr (?ev, ?c))"
    using app by (simp add: block_candidate_def)
  then show ?thesis using submit_block_unfold [of sample_env sample_pow sample_now ?b n] new db sv
    by (simp add: activate_chain_def confirmed_detached_def Let_def)
qed

theorem unread_block_stops_node_witness:
  "\<exists>(st :: admin) st' tip. length (ww_workshares (blk_witness (long_block 512))) = 513
    \<and> rpc_submit_block sample_env sample_pow sample_now (long_block 512) st
        = Some (Inr (block_id sample_env (long_block 512), Extended tip 1), st')
    \<and> (\<exists>e. open_chain sample_env sample_pow sample_now (nd_storage (ad_node st')) = Some (Inl (OpenStorage (InvalidStoredBlock e))))"
proof -
  obtain db w where run: "node_run sample_env sample_pow (node_open sample_config sample_env (sample_genesis_chain w) db)"
    (is "node_run _ _ ?n")
    and w: "cumulative_work [genesis sample_env] = Inr w" "unat w < 2 ^ 255"
    and rows: "\<And>k. smap_contains (db_blocks db) k \<Longrightarrow> k = block_id sample_env (genesis sample_env)"
    by (rule fresh_node) blast
  let ?st = "\<lparr>ad_disk = NoFile, ad_startup = sample_settings, ad_live = sample_settings, ad_enabled = True,
    ad_restart = False, ad_node = ?n\<rparr>"
  let ?b = "long_block 512"
  obtain n' where sb: "submit_block sample_env sample_pow sample_now ?b ?n = Some (Inr (Extended (block_id sample_env ?b) 1), n')"
    using long_block_accepted [OF run _ w, of 512] by (auto simp: node_open_def)
  have post: "rpc_submit_block sample_env sample_pow sample_now ?b ?st
      = Some (Inr (block_id sample_env ?b, Extended (block_id sample_env ?b) 1), ?st\<lparr>ad_node := n'\<rparr>)"
    using sb by (simp add: rpc_submit_block_def ensure_node_running_def ensure_def map_err_def rbind_def)
  have counts: "\<not> witness_counts (blk_witness ?b)"
    by (simp add: witness_counts_def long_block_def long_witness_def limit_defs)
  have "nd_storage ?n = db" by (simp add: node_open_def)
  then have new: "\<not> smap_contains (db_blocks (nd_storage (ad_node ?st))) (block_id sample_env ?b)"
    using rows long_block_new by force
  have run': "node_run sample_env sample_pow (ad_node ?st)" using run by simp
  have "length (ww_workshares (blk_witness ?b)) = 513" by (simp add: long_block_def long_witness_def)
  then show ?thesis using unread_block_stops_node [OF run' post counts new, of sample_now] post by blast
qed

section \<open>Objects read from JSON\<close>

lemma block_wf_addressed: "block_wf E b \<Longrightarrow> block_addressed E b"
  by (auto simp: block_wf_def block_addressed_def witness_wf_def witness_addressed_def template_wf_def
      template_addressed_def transaction_wf_def transaction_ok_def list_all_iff)

lemma read_transaction_step:
  assumes "transaction_of_json E j = Some t" and "submit_transaction E now t n = Some (r, n')"
  shows "n' = n \<or> node_step E pow n n'"
  using accepted_wf [OF transaction_reader.read_typed [OF assms(1)], of now n] assms(2)
  by (auto intro: node_step.transaction)

lemma read_block_step:
  assumes "node_ok E pow n" and "block_of_json E j = Some b" "witness_counts (blk_witness b)"
    and "submit_block E pow now b n = Some (r, n')"
  shows "n' = n \<or> node_step E pow n n'"
  using submitted_wf [OF assms(1) block_reader.read_typed [OF assms(2)] assms(3), of now] assms(4)
  by (auto intro: node_step.block)

lemma read_template_step:
  assumes "template_of_json E j = Some t" and "register_template E t n = (r, n')"
  shows "n' = n \<or> node_step E pow n n'"
  using registered_wf [OF template_reader.read_typed [OF assms(1)], of n] assms(2)
  by (auto intro: node_step.template)

lemma read_share_step:
  assumes "workshare_of_json E j = Some s" and "node_submit_workshare E pow now s n = (r, n')"
  shows "node_step E pow n n'"
  using workshare_reader.read_typed [OF assms(1)] assms(2) by (rule node_step.share)


text \<open>What the interface serves can be posted.  The JSON of every block \<open>GET /block\<close> answers with is read
  by \<open>POST /block\<close> as that very block, no other block has the same JSON, and the node it came from knows it.\<close>

theorem served_block_reads_back:
  assumes "node_run E pow n" and "text_crates E" and "block_response E selector n = Inr (k, b)"
  shows "block_of_json E (json_block E b) = Some b \<and> block_id E b = k
    \<and> (block_addressed E b' \<longrightarrow> json_block E b' = json_block E b \<longrightarrow> b' = b)"
proof -
  have ok: "node_ok E pow n" by (rule node_run_ok [OF assms(1)])
  have k: "resolve_block E selector n = Inr b" "k = block_id E b"
    using assms(3) by (auto simp: block_response_def rbind_Inr)
  have "block_wf E b"
  proof (cases "parse_unsigned 64 selector")
    case None
    then obtain h where "node_block_by_hash E h n = Some b"
      using k(1) by (auto simp: resolve_block_def rbind_Inr ok_or_def split: option.splits)
    then show ?thesis using known_block_wf [OF ok] by blast
  next
    case (Some h)
    then have "b \<in> set (ch_blocks (nd_chain n))"
      using k(1) by (auto simp: resolve_block_def ok_or_def block_at_def split: option.splits if_splits)
    then show ?thesis using ok block_limits by (auto simp: node_ok_def storage_part_def chain_stored_def storable_def)
  qed
  then have a: "text_crates E \<and> block_addressed E b" using assms(2) block_wf_addressed by blast
  then show ?thesis using k(2) block_serde.reads_back [OF a] block_serde.unique [of E b' b] by auto
qed

lemma hex_env_crates: "text_crates hex_env"
  using sample_hex_crate by (simp add: text_crates_def bs58_crate_def hex_env_def sample_env_def)

lemma hex_env_run:
  obtains c db where "node_run hex_env sample_pow (node_open sample_config hex_env c db)" "ch_blocks c = [genesis hex_env]"
proof -
  obtain c db where o: "open_chain hex_env sample_pow 5 storage_empty = Some (Inr (c, db))"
    using open_fresh_Some [of 5 hex_env sample_pow] by auto
  show thesis by (rule that [OF node_run.fresh [OF o] open_fresh_ok(5) [OF o]])
qed

theorem served_block_reads_back_witness:
  "\<exists>n. block_response hex_env (decimal 0) n = Inr (block_id hex_env (genesis hex_env), genesis hex_env)
    \<and> block_of_json hex_env (json_block hex_env (genesis hex_env)) = Some (genesis hex_env)"
proof -
  obtain c db where run: "node_run hex_env sample_pow (node_open sample_config hex_env c db)"
    and c: "ch_blocks c = [genesis hex_env]" by (rule hex_env_run)
  have r: "block_response hex_env (decimal 0) (node_open sample_config hex_env c db)
      = Inr (block_id hex_env (genesis hex_env), genesis hex_env)"
    using parse_decimal [of 0 64] c
    by (simp add: block_response_def resolve_block_def block_at_def node_open_def ok_or_def rbind_def)
  from served_block_reads_back [OF run hex_env_crates r] r show ?thesis by blast
qed


end
