(* ===== verification/Router.thy ===== *)
theory Router
  imports Submission Answers
begin

text \<open>
The interface as a whole, the routers of \<open>src/rpc.rs\<close>: requests, routes, bodies, the limits on their length,
  the check of the token and the replies of every handler, on the three listeners.  The framework (\<open>axum\<close>,
  \<open>tower-http\<close>) hands a request over as the record \<open>http_request\<close> and words its own refusals.  Every request
  is answered, and leaves a process that requests and operations of the node could have led to.
\<close>

section \<open>Requests and replies\<close>

text \<open>A request as the framework hands it over: method, path segments as sent, the query, the header that
  carries the token, the declared length of the body, and what the extractors of \<open>axum\<close> make of the body,
  nothing if they refuse it.\<close>

record http_request =
  hq_method :: bytes
  hq_path :: "bytes list"
  hq_query :: "(bytes \<times> bytes) list"
  hq_authorization :: "bytes option"
  hq_length :: "nat option"
  hq_json :: "json option"
  hq_bytes :: "bytes option"

text \<open>\<open>FrameworkReply\<close> is an answer the framework gives by itself: no such path or method, a body it refuses.\<close>

datatype reply =
    JsonReply nat json
  | RawReply bytes
  | AssetReply string
  | StatusReply nat
  | TextReply nat string
  | SocketReply
  | FrameworkReply

text \<open>What a request finds around the node: the machine, the report of the process, the identity of the node,
  randomness, the answers of portal and download server, the log file; and the crates for base64 and percent
  encoding and the texts of errors.\<close>

record world =
  wo_host :: host
  wo_around :: surroundings
  wo_identity :: hash32
  wo_random :: u64
  wo_portal :: "string + bytes \<times> bytes"
  wo_stable :: "string + bytes"
  wo_log :: "bytes option"
  wo_windows :: bool
  wo_base64 :: "bytes \<Rightarrow> bytes"
  wo_percent :: "bytes \<Rightarrow> bytes option"
  wo_display :: "api_cause \<Rightarrow> bytes"

definition error_reply :: "world \<Rightarrow> api_error \<Rightarrow> reply" where
  "error_reply X e =
     (case e of
        BadRequest cause \<Rightarrow> JsonReply 400 (json_object [(''error'', JText (wo_display X cause))])
      | NotFound message \<Rightarrow> JsonReply 404 (json_object [(''error'', json_text message)])
      | Unavailable message \<Rightarrow> JsonReply 503 (json_object [(''error'', json_text message)])
      | Unauthorized \<Rightarrow> StatusReply 401)"

definition json_reply :: "world \<Rightarrow> nat \<Rightarrow> ('a \<Rightarrow> json) \<Rightarrow> api_error + 'a \<Rightarrow> reply" where
  "json_reply X status to_json r = (case r of Inl e \<Rightarrow> error_reply X e | Inr v \<Rightarrow> JsonReply status (to_json v))"

definition query_of :: "http_request \<Rightarrow> string \<Rightarrow> bytes option" where
  "query_of rq name = map_of (rev (hq_query rq)) (ascii name)"

definition is_get :: "http_request \<Rightarrow> bool" where
  "is_get rq \<longleftrightarrow> hq_method rq = ascii ''GET'' \<or> hq_method rq = ascii ''HEAD''"

definition is_post :: "http_request \<Rightarrow> bool" where
  "is_post rq \<longleftrightarrow> hq_method rq = ascii ''POST''"

text \<open>\<open>RequestBodyLimitLayer\<close> on the declared length.\<close>

definition too_long :: "nat \<Rightarrow> http_request \<Rightarrow> bool" where
  "too_long most rq = (case hq_length rq of None \<Rightarrow> False | Some n \<Rightarrow> most < n)"

section \<open>The routes\<close>

datatype reading =
    RStatus | RHealth | RParams | RSupply | RFee | RInfo | RWhoami | RDistribution | RRewards bytes | RBlock bytes
  | RRawBlock bytes | RAddress bytes | RHistory bytes | RTransaction bytes | RTemplate | RSocket

datatype posting = PTransaction | PBlock | PRawBlock | PShare | PTemplate

datatype administering =
    AAuth | AStatus | AConfig | AConfigUpdate | AMining | APair | AUnpair | APeers | APeerAdd | APeerRemove | APeerUnban
  | AMempool | ABlocks | ALogs | AUpdate | ASnapshot | ASync | AStart | AStop | ARestart

definition segments :: "string list \<Rightarrow> bytes list" where
  "segments path = map ascii path"

definition public_get :: "bytes list \<Rightarrow> reading option" where
  "public_get path =
     (case map_of
         [(segments [], RStatus), (segments [''health''], RHealth), (segments [''status''], RStatus),
          (segments [''info''], RStatus), (segments [''chain'', ''params''], RParams), (segments [''supply''], RSupply),
          (segments [''fee'', ''estimate''], RFee), (segments [''p2p'', ''info''], RInfo),
          (segments [''p2p'', ''whoami''], RWhoami), (segments [''mining'', ''info''], RStatus),
          (segments [''mining'', ''distribution''], RDistribution), (segments [''mining'', ''template''], RTemplate),
          (segments [''p2p'', ''v9''], RSocket)] path of
        Some r \<Rightarrow> Some r
      | None \<Rightarrow>
          (case path of
             [a, x] \<Rightarrow>
               if x = [] then None
               else if a = ascii ''block'' \<and> x \<noteq> ascii ''raw'' then Some (RBlock x)
               else if a = ascii ''address'' then Some (RAddress x)
               else if a = ascii ''transaction'' then Some (RTransaction x) else None
           | [a, x, y] \<Rightarrow>
               if a = ascii ''mining'' \<and> x = ascii ''rewards'' \<and> y \<noteq> [] then Some (RRewards y)
               else if x = [] then None
               else if a = ascii ''block'' \<and> y = ascii ''raw'' then Some (RRawBlock x)
               else if a = ascii ''address'' \<and> y = ascii ''transactions'' then Some (RHistory x) else None
           | _ \<Rightarrow> None))"

definition public_post :: "bytes list \<Rightarrow> posting option" where
  "public_post path = map_of
     [(segments [''transaction''], PTransaction), (segments [''block''], PBlock), (segments [''block'', ''raw''], PRawBlock),
      (segments [''workshare''], PShare), (segments [''workshare'', ''template''], PTemplate)] path"

definition admin_get :: "bytes list \<Rightarrow> administering option" where
  "admin_get path = map_of
     [(segments [''admin'', ''auth''], AAuth), (segments [''admin'', ''status''], AStatus),
      (segments [''admin'', ''config''], AConfig), (segments [''admin'', ''peers''], APeers),
      (segments [''admin'', ''mempool''], AMempool), (segments [''admin'', ''blocks''], ABlocks),
      (segments [''admin'', ''logs''], ALogs), (segments [''admin'', ''update''], AUpdate),
      (segments [''state'', ''snapshot''], ASnapshot)] path"

definition admin_post :: "bytes list \<Rightarrow> administering option" where
  "admin_post path = map_of
     [(segments [''admin'', ''auth''], AAuth), (segments [''admin'', ''config''], AConfigUpdate),
      (segments [''admin'', ''mining''], AMining), (segments [''admin'', ''pair''], APair),
      (segments [''admin'', ''unpair''], AUnpair), (segments [''admin'', ''peers'', ''add''], APeerAdd),
      (segments [''admin'', ''peers'', ''remove''], APeerRemove), (segments [''admin'', ''peers'', ''unban''], APeerUnban),
      (segments [''admin'', ''sync''], ASync), (segments [''admin'', ''start''], AStart),
      (segments [''admin'', ''stop''], AStop), (segments [''admin'', ''restart''], ARestart)] path"

section \<open>Bodies\<close>

definition mode_of_json :: "json \<Rightarrow> mining_mode option" where
  "mode_of_json j =
     (let of_name = \<lambda>s. if s = ascii ''light'' then Some LightMode else if s = ascii ''fast'' then Some FastMode else None in
      case j of JText s \<Rightarrow> of_name s | JObject [(s, JNull)] \<Rightarrow> of_name s | _ \<Rightarrow> None)"

definition mining_update_of_json :: "json \<Rightarrow> mining_update option" where
  "mining_update_of_json j =
     Option.bind (struct_of [''miner_address'', ''mining_enabled'', ''mining_processes'', ''mining_intensity'',
         ''randomx_mode''] j) (\<lambda>s.
     Option.bind (optional_member s ''miner_address'' text_of_json) (\<lambda>miner.
     Option.bind (optional_member s ''mining_enabled'' bool_of_json) (\<lambda>enabled.
     Option.bind (optional_member s ''mining_processes'' usize_of_json) (\<lambda>processes.
     Option.bind (optional_member s ''mining_intensity'' word_of_json) (\<lambda>intensity.
     Option.bind (optional_member s ''randomx_mode'' mode_of_json) (\<lambda>mode.
       Some \<lparr>mu_miner_address = miner, mu_mining_enabled = enabled, mu_mining_processes = processes,
         mu_mining_intensity = intensity, mu_randomx_mode = mode\<rparr>))))))"

definition device_update_of_json :: "json \<Rightarrow> (bytes option \<times> bytes option) option" where
  "device_update_of_json j =
     Option.bind (struct_of [''device_name'', ''public_url''] j) (\<lambda>s.
     Option.bind (optional_member s ''device_name'' text_of_json) (\<lambda>name.
     Option.bind (optional_member s ''public_url'' text_of_json) (\<lambda>url. Some (name, url))))"

definition pair_request_of_json :: "json \<Rightarrow> (bytes \<times> bytes) option" where
  "pair_request_of_json j =
     Option.bind (struct_of [''portal_url'', ''code''] j) (\<lambda>s.
     Option.bind (member s ''portal_url'' text_of_json) (\<lambda>url.
     Option.bind (member s ''code'' text_of_json) (\<lambda>code. Some (url, code))))"

text \<open>A member with \<open>serde(default)\<close>: the empty text if it is missing.\<close>

definition default_text :: "(string \<Rightarrow> json option) \<Rightarrow> string \<Rightarrow> bytes option" where
  "default_text s name = (case s name of None \<Rightarrow> Some [] | Some v \<Rightarrow> text_of_json v)"

definition peer_update_of_json :: "json \<Rightarrow> (bytes \<times> bytes) option" where
  "peer_update_of_json j =
     Option.bind (struct_of [''url'', ''ident''] j) (\<lambda>s.
     Option.bind (default_text s ''url'') (\<lambda>url.
     Option.bind (default_text s ''ident'') (\<lambda>ident. Some (url, ident))))"

text \<open>A handler with a body runs only when its extractor accepts the body.\<close>

definition with_json :: "http_request \<Rightarrow> (json \<Rightarrow> 'a option) \<Rightarrow> admin \<Rightarrow> ('a \<Rightarrow> (reply \<times> admin) option) \<Rightarrow> (reply \<times> admin) option" where
  "with_json rq of_json st run =
     (case Option.bind (hq_json rq) of_json of None \<Rightarrow> Some (FrameworkReply, st) | Some v \<Rightarrow> run v)"

section \<open>The public handlers\<close>

text \<open>\<open>SocketReply\<close> hands the connection to \<open>serve_socket\<close>.\<close>

definition p2p_socket :: "admin \<Rightarrow> reply" where
  "p2p_socket st = (if ad_enabled st then SocketReply else TextReply 503 ''node operation is stopped'')"

text \<open>\<open>None\<close> is a panic.  A path parameter is percent-decoded by the framework.\<close>

definition read_public :: "prims \<Rightarrow> world \<Rightarrow> http_request \<Rightarrow> reading \<Rightarrow> admin \<Rightarrow> (reply \<times> admin) option" where
  "read_public E X rq r st =
     (let n = ad_node st;
          ok = \<lambda>j. Some (JsonReply 200 j, st);
          answer = map_option (\<lambda>j. (JsonReply 200 j, st));
          param = \<lambda>x run. (case wo_percent X x of None \<Rightarrow> Some (FrameworkReply, st) | Some s \<Rightarrow> run s);
          addressed = \<lambda>x run. param x (\<lambda>s. case parse_address E s of
             Inl e \<Rightarrow> Some (error_reply X e, st) | Inr a \<Rightarrow> run s a)
      in case r of
        RStatus \<Rightarrow> answer (map_option (status_answer E) (node_status E (wo_host X) (wo_around X) st))
      | RHealth \<Rightarrow> ok health_answer
      | RParams \<Rightarrow> ok chain_params_answer
      | RSupply \<Rightarrow> answer (map_option (\<lambda>_. json_supply (supply_report (nd_chain n)))
          (node_status E (wo_host X) (wo_around X) st))
      | RFee \<Rightarrow> ok fee_estimate_answer
      | RInfo \<Rightarrow> answer (map_option (json_p2p_info E) (p2p_info E (wo_host X) (wo_around X) (wo_identity X) st))
      | RWhoami \<Rightarrow> ok whoami_answer
      | RDistribution \<Rightarrow> map_option (\<lambda>r. (json_reply X 200 json_distribution r, st))
          (distribution_answer E (query_of rq ''address'') (ad_enabled st) n)
      | RRewards x \<Rightarrow> addressed x (\<lambda>s a. Some (json_reply X 200 (json_rewards E a) (rewards_answer E s n), st))
      | RBlock x \<Rightarrow> param x (\<lambda>s. Some (json_reply X 200 (json_block_response E) (block_response E s n), st))
      | RRawBlock x \<Rightarrow> param x (\<lambda>s. Some (case raw_block E s n of
          Inl e \<Rightarrow> error_reply X e | Inr bs \<Rightarrow> RawReply bs, st))
      | RAddress x \<Rightarrow> addressed x (\<lambda>s a. map_option (\<lambda>r. (json_reply X 200 (json_account E a) r, st)) (address_answer E s n))
      | RHistory x \<Rightarrow> param x (\<lambda>s. map_option (\<lambda>r. (json_reply X 200 (json_history E) r, st))
          (address_transactions E (su_unix_time (wo_around X)) s (query_of rq ''limit'') (query_of rq ''offset'') n))
      | RTransaction x \<Rightarrow> param x (\<lambda>s. Some (json_reply X 200 (json_found_transaction E) (transaction_answer E s n), st))
      | RTemplate \<Rightarrow> map_option (apfst (json_reply X 200 (json_mining_template (wo_base64 X) E)))
          (rpc_mining_template E (su_unix_time (wo_around X)) (wo_random X) st)
      | RSocket \<Rightarrow> Some (p2p_socket st, st))"

definition block_accepted :: "prims \<Rightarrow> hash32 \<times> chain_event \<Rightarrow> json" where
  "block_accepted E r = json_object [(''block_id'', json_hash E (fst r)), (''result'', JText (event_debug E (snd r)))]"

definition post_public :: "prims \<Rightarrow> pow_verifier \<Rightarrow> world \<Rightarrow> http_request \<Rightarrow> posting \<Rightarrow> admin \<Rightarrow> (reply \<times> admin) option" where
  "post_public E pow X rq p st =
     (let now = su_unix_time (wo_around X) in
      case p of
        PTransaction \<Rightarrow> with_json rq (transaction_of_json E) st (\<lambda>t.
          map_option (apfst (json_reply X 202 (\<lambda>k. json_object [(''txid'', json_hash E k)]))) (rpc_submit_transaction E now t st))
      | PBlock \<Rightarrow> with_json rq (block_of_json E) st (\<lambda>b.
          map_option (apfst (json_reply X 202 (block_accepted E))) (rpc_submit_block E pow now b st))
      | PRawBlock \<Rightarrow> (case hq_bytes rq of None \<Rightarrow> Some (FrameworkReply, st) | Some bs \<Rightarrow>
          map_option (apfst (json_reply X 202 (block_accepted E))) (rpc_submit_raw_block E pow now bs st))
      | PShare \<Rightarrow> with_json rq (workshare_of_json E) st (\<lambda>s.
          Some (apfst (json_reply X 202 (\<lambda>(k, preferred).
            json_object [(''workshare_id'', json_hash E k), (''preferred_tip'', JBool preferred)]))
            (rpc_submit_workshare E pow now s st)))
      | PTemplate \<Rightarrow> with_json rq (template_of_json E) st (\<lambda>t.
          Some (apfst (json_reply X 202 (\<lambda>k. json_object [(''template_id'', json_hash E k)])) (rpc_submit_template E t st))))"

section \<open>The handlers of the administration\<close>

text \<open>The check of the download server: a short version text, compared with the running one.\<close>

definition version_text :: "bytes \<Rightarrow> bool" where
  "version_text s \<longleftrightarrow> s \<noteq> [] \<and> length s \<le> 64
     \<and> list_all (\<lambda>c. (48 \<le> c \<and> c \<le> 57) \<or> (65 \<le> c \<and> c \<le> 90) \<or> (97 \<le> c \<and> c \<le> 122) \<or> c = 46 \<or> c = 45) s"

definition admin_update_answer :: "bool \<Rightarrow> string + bytes \<Rightarrow> api_error + json" where
  "admin_update_answer windows fetched =
     rbind (map_err (BadRequest \<circ> CauseText) fetched) (\<lambda>text.
     let latest = str_trim text in
     rbind (ensure (version_text latest) (BadRequest (CauseText ''download server returned an invalid stable version''))) (\<lambda>_.
     Inr (json_object
       [(''current'', JText NODE_VERSION), (''latest'', JText latest), (''update_available'', JBool (latest \<noteq> NODE_VERSION)),
        (''install_command'', JText (if windows then ascii ''.'' @ [92] @ ascii ''manage.ps1 update''
          else ascii ''./manage.sh update'')),
        (''source'', json_text ''https://paritr.highactive.de/downloads'')])))"

text \<open>The answer to a change is made from the state it leaves.\<close>

definition after :: "world \<Rightarrow> (admin \<Rightarrow> json) \<Rightarrow> (api_error + unit) \<times> admin \<Rightarrow> (reply \<times> admin) option" where
  "after X to_json r = (case r of (Inl e, st) \<Rightarrow> Some (error_reply X e, st) | (Inr _, st) \<Rightarrow> Some (JsonReply 200 (to_json st), st))"

definition run_admin :: "prims \<Rightarrow> world \<Rightarrow> http_request \<Rightarrow> administering \<Rightarrow> admin \<Rightarrow> (reply \<times> admin) option" where
  "run_admin E X rq a st =
     (let H = wo_host X; n = ad_node st;
          ok = \<lambda>j. Some (JsonReply 200 j, st);
          answer = map_option (\<lambda>j. (JsonReply 200 j, st))
      in case a of
        AAuth \<Rightarrow> ok (admin_auth_answer E st)
      | AStatus \<Rightarrow> answer (map_option (status_answer E) (node_status E H (wo_around X) st))
      | AConfig \<Rightarrow> ok (admin_config_answer E st)
      | AConfigUpdate \<Rightarrow> with_json rq device_update_of_json st (\<lambda>(name, url).
          after X config_update_answer (admin_config_update E H name url st))
      | AMining \<Rightarrow> with_json rq mining_update_of_json st (\<lambda>u. after X (mining_update_answer E H) (admin_mining E H u st))
      | APair \<Rightarrow> with_json rq pair_request_of_json st (\<lambda>(url, code).
          after X (\<lambda>_. pair_answer (case wo_portal X of Inl _ \<Rightarrow> [] | Inr (agent, _) \<Rightarrow> agent))
            (admin_pair E H url (wo_portal X) st))
      | AUnpair \<Rightarrow> after X (\<lambda>_. unpair_answer) (admin_unpair E H st)
      | APeers \<Rightarrow> answer (map_option (json_peers E) (admin_peers E H (wo_around X) (wo_identity X) st))
      | APeerAdd \<Rightarrow> with_json rq peer_update_of_json st (\<lambda>(url, _).
          after X (\<lambda>st. peers_answer (cf_peers (stored st))) (admin_peer_add E H url st))
      | APeerRemove \<Rightarrow> with_json rq peer_update_of_json st (\<lambda>(url, _).
          after X (\<lambda>st. peers_answer (cf_peers (stored st))) (admin_peer_remove E H url st))
      | APeerUnban \<Rightarrow> with_json rq peer_update_of_json st (\<lambda>(_, ident). ok (unban_answer ident))
      | AMempool \<Rightarrow> answer (map_option (json_mempool E) (mempool_transactions E n))
      | ABlocks \<Rightarrow> ok (admin_blocks_answer E (query_of rq ''limit'') n)
      | ALogs \<Rightarrow> ok (admin_logs_answer (query_of rq ''limit'') (wo_log X))
      | AUpdate \<Rightarrow> Some (json_reply X 200 id (admin_update_answer (wo_windows X) (wo_stable X)), st)
      | ASnapshot \<Rightarrow> ok (json_snapshot E (state_snapshot (wo_base64 X) E n))
      | ASync \<Rightarrow> Option.bind (admin_sync E st) (after X sync_answer)
      | AStart \<Rightarrow> after X (\<lambda>_. switch_answer True) (set_node_enabled E H True st)
      | AStop \<Rightarrow> after X (\<lambda>_. switch_answer False) (set_node_enabled E H False st)
      | ARestart \<Rightarrow> Some (JsonReply 200 restart_answer, schedule_restart st))"

section \<open>The listeners\<close>

text \<open>\<open>admin_router\<close>: the check of the token comes before the method and the body, the limit on the declared
  length before the check.\<close>

definition is_admin_path :: "bytes list \<Rightarrow> bool" where
  "is_admin_path path \<longleftrightarrow> admin_get path \<noteq> None \<or> admin_post path \<noteq> None"

definition admin_router :: "prims \<Rightarrow> world \<Rightarrow> http_request \<Rightarrow> admin \<Rightarrow> (reply \<times> admin) option" where
  "admin_router E X rq st =
     (if \<not> is_admin_path (hq_path rq) \<or> too_long (64 * 1024) rq then Some (FrameworkReply, st)
      else if \<not> require_admin E (ad_startup st) (hq_authorization rq) then Some (StatusReply 401, st)
      else case (if is_get rq then admin_get (hq_path rq) else if is_post rq then admin_post (hq_path rq) else None) of
          None \<Rightarrow> Some (FrameworkReply, st)
        | Some a \<Rightarrow> run_admin E X rq a st)"

definition public_router :: "prims \<Rightarrow> pow_verifier \<Rightarrow> world \<Rightarrow> http_request \<Rightarrow> admin \<Rightarrow> (reply \<times> admin) option" where
  "public_router E pow X rq st =
     (if is_admin_path (hq_path rq) then admin_router E X rq st
      else if too_long MAX_BLOCK_BYTES rq then Some (FrameworkReply, st)
      else if is_get rq then
        (case public_get (hq_path rq) of None \<Rightarrow> Some (FrameworkReply, st) | Some r \<Rightarrow> read_public E X rq r st)
      else if is_post rq then
        (case public_post (hq_path rq) of None \<Rightarrow> Some (FrameworkReply, st) | Some p \<Rightarrow> post_public E pow X rq p st)
      else Some (FrameworkReply, st))"

definition management_asset :: "bytes list \<Rightarrow> string option" where
  "management_asset path = map_of
     [(segments [], ''admin/index.html''), (segments [''app.js''], ''admin/app.js''),
      (segments [''logo.svg''], ''admin/logo.svg''), (segments [''style.css''], ''admin/style.css'')] path"

definition management_router :: "prims \<Rightarrow> world \<Rightarrow> http_request \<Rightarrow> admin \<Rightarrow> (reply \<times> admin) option" where
  "management_router E X rq st =
     (case management_asset (hq_path rq) of
        Some asset \<Rightarrow> Some (if is_get rq then AssetReply asset else FrameworkReply, st)
      | None \<Rightarrow> admin_router E X rq st)"

datatype listener = PublicListener | AdminListener | ManagementListener

definition serve_request ::
    "prims \<Rightarrow> pow_verifier \<Rightarrow> world \<Rightarrow> listener \<Rightarrow> http_request \<Rightarrow> admin \<Rightarrow> (reply \<times> admin) option" where
  "serve_request E pow X l rq st =
     (case l of
        PublicListener \<Rightarrow> public_router E pow X rq st
      | AdminListener \<Rightarrow> admin_router E X rq st
      | ManagementListener \<Rightarrow> management_router E X rq st)"

section \<open>Every request is answered\<close>

definition answered :: "(admin \<Rightarrow> bool) \<Rightarrow> (reply \<times> admin) option \<Rightarrow> bool" where
  "answered P r \<longleftrightarrow> (\<exists>reply st. r = Some (reply, st) \<and> P st)"

lemma answered_simps [simp]:
  "answered P (Some (reply, st)) = P st" "\<not> answered P None"
  by (simp_all add: answered_def)

lemma answered_map [simp]: "P st \<Longrightarrow> answered P (map_option (\<lambda>v. (f v, st)) x) \<longleftrightarrow> x \<noteq> None"
  by (cases x) simp_all

lemma answered_json:
  assumes "P st" "\<And>j v. hq_json rq = Some j \<Longrightarrow> of_json j = Some v \<Longrightarrow> answered P (run v)"
  shows "answered P (with_json rq of_json st run)"
  using assms by (auto simp: with_json_def bind_eq_Some_conv split: option.split)

lemma views_answer:
  assumes "node_ok E pow n" "young (nd_chain n)"
  shows "mempool_transactions E n \<noteq> None" "address_answer E s n \<noteq> None" "address_transactions E now s page offset n \<noteq> None"
    "distribution_answer E query enabled n \<noteq> None"
proof -
  obtain txs where t: "select E (nd_mempool n) (ch_state (nd_chain n)) MAX_BLOCK_TRANSACTIONS = Some txs"
    by (rule node_select [OF assms])
  have live: "live_pool E pow (ch_blocks (nd_chain n)) (ch_state (nd_chain n)) (nd_workshares n)"
    using assms by (simp add: node_ok_def shares_part_def)
  obtain p where p: "pool_witness (nd_workshares n) = Some p" by (rule pool_witness_Some [OF live_pool_ok [OF live]])
  show "mempool_transactions E n \<noteq> None" by (simp add: mempool_transactions_def t)
  have "account_view E a n \<noteq> None" for a unfolding account_view_def Let_def t by (simp add: case_prod_unfold)
  then show "address_answer E s n \<noteq> None" by (simp add: address_answer_def split: sum.split)
  have "address_history E now a k offset n \<noteq> None" for a k offset unfolding address_history_def Let_def t by simp
  then show "address_transactions E now s page offset n \<noteq> None" by (simp add: address_transactions_def Let_def split: sum.split)
  have "mining_distribution a enabled n \<noteq> None" for a unfolding mining_distribution_def p by simp
  then show "distribution_answer E query enabled n \<noteq> None" by (simp add: distribution_answer_def split: sum.split)
qed

lemma reports_answer:
  assumes "node_ok E pow (ad_node st)"
  shows "node_status E H W st \<noteq> None" "p2p_info E H W k st \<noteq> None" "admin_peers E H W k st \<noteq> None"
proof -
  obtain p where "node_status E H W st = Some (status_of E H W st p)" by (rule status_answers [OF assms])
  then show "node_status E H W st \<noteq> None" "p2p_info E H W k st \<noteq> None" "admin_peers E H W k st \<noteq> None"
    by (simp_all add: p2p_info_def admin_peers_def split: prod.split)
qed

lemma stepped:
  assumes "admin_run E pow W d st" and "n = ad_node st \<or> node_step E pow (ad_node st) n"
  shows "admin_run E pow W d (st\<lparr>ad_node := n\<rparr>)"
  using assms admin_run.operation by auto

lemma answered_apfst [simp]: "answered P (map_option (apfst f) x) \<longleftrightarrow> (\<exists>r st. x = Some (r, st) \<and> P st)"
  by (cases x) (auto simp: answered_def)

text \<open>What a handler needs: a reachable process, and a chain that is not longer than the counters of its
  reports.\<close>

definition serving :: "prims \<Rightarrow> pow_verifier \<Rightarrow> web \<Rightarrow> bytes \<Rightarrow> world \<Rightarrow> admin \<Rightarrow> bool" where
  "serving E pow W d X st \<longleftrightarrow> admin_run E pow W d st \<and> url_crate W \<and> \<not> path_relative d \<and> ho_web (wo_host X) = W
     \<and> young (nd_chain (ad_node st))"

lemma servingD:
  assumes "serving E pow W d X st"
  shows "admin_run E pow W d st" "admin_ok E pow (ho_web (wo_host X)) st" "url_crate (ho_web (wo_host X))"
    "node_ok E pow (ad_node st)" "young (nd_chain (ad_node st))" "ho_web (wo_host X) = W"
  using assms admin_run_ok by (auto simp: serving_def admin_ok_def)

lemma template_answered:
  assumes "serving E pow W d X st"
  shows "\<exists>r st'. rpc_mining_template E now x st = Some (r, st') \<and> admin_run E pow W d st'"
proof (cases "ensure_node_running st")
  case (Inr u)
  obtain r n' where "make_candidate E now x (ad_node st) = Some (r, n')"
    by (rule make_candidate_ok [OF servingD(4,5) [OF assms]])
  then show ?thesis using Inr stepped [OF servingD(1) [OF assms]] node_step.candidate [OF servingD(5) [OF assms]]
    by (fastforce simp: rpc_mining_template_def)
qed (use assms in \<open>simp add: rpc_mining_template_def servingD(1)\<close>)

lemma read_answered:
  assumes "serving E pow W d X st"
  shows "answered (admin_run E pow W d) (read_public E X rq r st)"
  using servingD(1) [OF assms] views_answer [OF servingD(4,5) [OF assms]] reports_answer [OF servingD(4) [OF assms]]
    template_answered [OF assms]
  by (cases r) (simp_all add: read_public_def Let_def split: option.split sum.split)

text \<open>A block posted as JSON is within the numbers of the codec.\<close>

definition within_counts :: "prims \<Rightarrow> http_request \<Rightarrow> bool" where
  "within_counts E rq \<longleftrightarrow>
     (\<forall>b. Option.bind (hq_json rq) (block_of_json E) = Some b \<longrightarrow> witness_counts (blk_witness b))"

lemma submitted_transaction:
  assumes ok: "node_ok E pow n" and t: "transaction_of_json E j = Some t"
  obtains r n' where "submit_transaction E now t n = Some (r, n')" "n' = n \<or> node_step E pow n n'"
proof -
  have "\<exists>r n'. submit_transaction E now t n = Some (r, n')"
    using accepted_wf [OF transaction_reader.read_typed [OF t], of now n] submit_transaction_ok [OF ok, of t now] by metis
  then show thesis using that read_transaction_step [OF t] by blast
qed

lemma submitted_block:
  assumes ok: "node_ok E pow n" and b: "block_addressed E b" "witness_counts (blk_witness b)"
  obtains r n' where "submit_block E pow now b n = Some (r, n')" "n' = n \<or> node_step E pow n n'"
proof -
  consider r where "submit_block E pow now b n = Some (r, n)" | "block_wf E b" using submitted_wf [OF ok b, of now] by blast
  then show thesis
  proof cases
    case 2
    then have "\<exists>r n'. submit_block E pow now b n = Some (r, n')"
      using submit_block_ok [OF ok 2, of now] by metis
    then show thesis using that node_step.block [OF 2] by blast
  qed (use that in blast)
qed

lemma post_block_answered:
  assumes "serving E pow W d X st" and b: "block_addressed E b" "witness_counts (blk_witness b)"
  shows "\<exists>r st'. rpc_submit_block E pow now b st = Some (r, st') \<and> admin_run E pow W d st'"
proof (cases "ensure_node_running st")
  case (Inr u)
  obtain r n' where "submit_block E pow now b (ad_node st) = Some (r, n')" "n' = ad_node st \<or> node_step E pow (ad_node st) n'"
    by (rule submitted_block [OF servingD(4) [OF assms(1)] b])
  then show ?thesis using Inr stepped [OF servingD(1) [OF assms(1)], of n'] by (auto simp: rpc_submit_block_def)
qed (use assms in \<open>simp add: rpc_submit_block_def servingD(1)\<close>)

lemma block_wf_counts: "block_wf E b \<Longrightarrow> witness_counts (blk_witness b)"
  by (auto simp: block_wf_def witness_wf_def witness_counts_def template_wf_def)

lemma posted_answered:
  assumes s: "serving E pow W d X st"
  shows "transaction_of_json E j = Some t \<Longrightarrow>
      \<exists>r st'. rpc_submit_transaction E now t st = Some (r, st') \<and> admin_run E pow W d st'"
    "\<exists>r st'. rpc_submit_raw_block E pow now bs st = Some (r, st') \<and> admin_run E pow W d st'"
    "workshare_of_json E j = Some share \<Longrightarrow> admin_run E pow W d (snd (rpc_submit_workshare E pow now share st))"
    "template_of_json E j = Some bt \<Longrightarrow> admin_run E pow W d (snd (rpc_submit_template E bt st))"
proof -
  note run = servingD(1) [OF s] and ok = servingD(4) [OF s]
  show "\<exists>r st'. rpc_submit_transaction E now t st = Some (r, st') \<and> admin_run E pow W d st'"
    if t: "transaction_of_json E j = Some t"
  proof (cases "ensure_node_running st")
    case (Inr u)
    obtain r n' where "submit_transaction E now t (ad_node st) = Some (r, n')" "n' = ad_node st \<or> node_step E pow (ad_node st) n'"
      by (rule submitted_transaction [OF ok t])
    then show ?thesis using Inr stepped [OF run, of n'] by (auto simp: rpc_submit_transaction_def)
  qed (use run in \<open>simp add: rpc_submit_transaction_def\<close>)
  show "\<exists>r st'. rpc_submit_raw_block E pow now bs st = Some (r, st') \<and> admin_run E pow W d st'"
  proof (cases "consensus_decode (block_dec E) bs")
    case (Inr b)
    then have "block_wf E b" by (simp add: block_codec.decode_iff)
    then show ?thesis using Inr post_block_answered [OF s block_wf_addressed block_wf_counts]
      by (simp add: rpc_submit_raw_block_def)
  qed (use run in \<open>simp add: rpc_submit_raw_block_def\<close>)
  show "admin_run E pow W d (snd (rpc_submit_workshare E pow now share st))" if share: "workshare_of_json E j = Some share"
  proof (cases "ensure_node_running st")
    case (Inr u)
    obtain r n' where n': "node_submit_workshare E pow now share (ad_node st) = (r, n')" by force
    show ?thesis using Inr n' stepped [OF run disjI2 [OF read_share_step [OF share n']]]
      by (simp add: rpc_submit_workshare_def)
  qed (use run in \<open>simp add: rpc_submit_workshare_def\<close>)
  show "admin_run E pow W d (snd (rpc_submit_template E bt st))" if bt: "template_of_json E j = Some bt"
  proof (cases "ensure_node_running st")
    case (Inr u)
    obtain r n' where n': "register_template E bt (ad_node st) = (r, n')" by force
    show ?thesis using Inr n' stepped [OF run read_template_step [OF bt n']] by (simp add: rpc_submit_template_def)
  qed (use run in \<open>simp add: rpc_submit_template_def\<close>)
qed

lemma answered_snd [simp]: "answered P (Some (apfst f x)) \<longleftrightarrow> P (snd x)"
  by (cases x) simp

lemma post_answered:
  assumes s: "serving E pow W d X st" and c: "within_counts E rq"
  shows "answered (admin_run E pow W d) (post_public E pow X rq p st)"
proof -
  note run = servingD(1) [OF s]
  have b: "\<exists>r st'. rpc_submit_block E pow now b st = Some (r, st') \<and> admin_run E pow W d st'"
    if "hq_json rq = Some j" "block_of_json E j = Some b" for j b now
    using post_block_answered [OF s block_reader.read_typed [OF that(2)]] c that by (simp add: within_counts_def)
  show ?thesis
    by (cases p; simp add: post_public_def Let_def posted_answered [OF s] run split: option.split)
      (rule answered_json [where P = "admin_run E pow W d", OF run]; use b posted_answered [OF s] in \<open>simp add: run\<close>)+
qed

lemma answered_after:
  assumes "P (snd r)"
  shows "answered P (after X to_json r)"
  using assms by (cases r) (auto simp: after_def split: sum.split)

lemma changed:
  assumes s: "serving E pow W d X st" and auth: "require_admin E (ad_startup st) (hq_authorization rq)"
    and r: "admin_route E (wo_host X) req st = Some r"
  shows "admin_run E pow W d (snd r)"
  using admin_run.request [OF servingD(1,6) [OF s], of "hq_authorization rq" req "fst r" "snd r"] auth r
  by (simp add: handle_admin_def)

lemma admin_answered:
  assumes s: "serving E pow W d X st" and auth: "require_admin E (ad_startup st) (hq_authorization rq)"
  shows "answered (admin_run E pow W d) (run_admin E X rq a st)"
proof -
  note run = servingD(1) [OF s]
  note c = changed [OF s auth]
  have route: "admin_run E pow W d (snd (admin_config_update E (wo_host X) name url st))"
    "admin_run E pow W d (snd (admin_mining E (wo_host X) u st))"
    "admin_run E pow W d (snd (admin_pair E (wo_host X) portal reply st))"
    "admin_run E pow W d (snd (admin_unpair E (wo_host X) st))"
    "admin_run E pow W d (snd (admin_peer_add E (wo_host X) url' st))"
    "admin_run E pow W d (snd (admin_peer_remove E (wo_host X) url' st))"
    "admin_run E pow W d (snd (set_node_enabled E (wo_host X) b st))"
    "admin_run E pow W d (schedule_restart st)" for name url u portal reply url' b
    using c [of "ConfigRequest name url"] c [of "MiningRequest u"] c [of "PairRequest portal reply"] c [of UnpairRequest]
      c [of "PeerAddRequest url'"] c [of "PeerRemoveRequest url'"] c [of StartRequest] c [of StopRequest] c [of RestartRequest]
    by (cases b; simp add: admin_route_def)+
  obtain r st' where sync: "admin_sync E st = Some (r, st')" by (rule sync_contract [OF servingD(2) [OF s]])
  have "admin_run E pow W d st'" using c [of SyncRequest "(r, st')"] sync by (simp add: admin_route_def)
  then have sync_ok: "answered (admin_run E pow W d) (Option.bind (admin_sync E st) (after X sync_answer))"
    using sync answered_after [of "admin_run E pow W d" "(r, st')"] by simp
  show ?thesis
    by (cases a; simp add: run_admin_def Let_def run route sync_ok views_answer [OF servingD(4,5) [OF s]]
          reports_answer [OF servingD(4) [OF s]] answered_after)
      ((rule answered_json [where P = "admin_run E pow W d", OF run]; clarsimp simp: route answered_after run)+)?
qed

lemma admin_router_answered:
  assumes "serving E pow W d X st"
  shows "answered (admin_run E pow W d) (admin_router E X rq st)"
  using admin_answered [OF assms, of rq] servingD(1) [OF assms] by (auto simp: admin_router_def split: option.split)

lemma public_router_answered:
  assumes "serving E pow W d X st" and "within_counts E rq"
  shows "answered (admin_run E pow W d) (public_router E pow X rq st)"
  using admin_router_answered [OF assms(1), of rq] read_answered [OF assms(1)] post_answered [OF assms] servingD(1) [OF assms(1)]
  by (auto simp: public_router_def split: option.split)


section \<open>A sample process\<close>

definition keyed_settings :: "u8 \<Rightarrow> config" where
  "keyed_settings k = sample_settings\<lparr>cf_node_private_key := replicate 32 k\<rparr>"

definition keyed_process :: "node \<Rightarrow> u8 \<Rightarrow> admin" where
  "keyed_process n k = \<lparr>ad_disk = Stored (keyed_settings k), ad_startup = keyed_settings k, ad_live = keyed_settings k,
     ad_enabled = cf_node_enabled (keyed_settings k), ad_restart = False, ad_node = n\<rparr>"

lemma keyed_processes:
  obtains n where "\<And>k. admin_run sample_env sample_pow sample_web (ascii ''/etc'') (keyed_process n k)" "young (nd_chain n)"
proof -
  obtain db w where r: "node_run sample_env sample_pow
      (node_open sample_config sample_env (sample_genesis_chain w) db)" (is "node_run _ _ ?n") by (rule sample_run)
  have ok: "config_ok sample_env sample_web (keyed_settings k)" for k
    using sample_settings_ok(1) unfolding config_ok_iff keyed_settings_def by (simp, simp add: sample_env_def sample_web_def)
  have settled: "settled (keyed_settings k)" for k using sample_settings_ok(2) by (simp add: settled_def keyed_settings_def)
  have l: "load_or_create sample_env sample_web (Some (ascii ''/etc'')) sample_settings None (Stored (keyed_settings k))
      = (Inr (keyed_settings k), Stored (keyed_settings k))" for k by (rule load_settled [OF ok settled])
  have a: "nc_miner_address (nd_config ?n) = cf_miner_address (keyed_settings k)" for k
    by (simp add: node_open_def sample_config_def sample_settings_def keyed_settings_def)
  have "admin_run sample_env sample_pow sample_web (ascii ''/etc'') (keyed_process ?n k)" for k
    unfolding keyed_process_def by (rule admin_run.started [OF l r a])
  then show thesis by (rule that) (simp add: node_open_def sample_genesis_chain_def young_def)
qed

definition sample_world :: world where
  "sample_world = \<lparr>wo_host = sample_host, wo_around = sample_surroundings, wo_identity = hash_zero, wo_random = 0,
     wo_portal = Inl ''offline'', wo_stable = Inr (ascii ''4.0.1''), wo_log = None, wo_windows = False, wo_base64 = id,
     wo_percent = Some, wo_display = (\<lambda>_. [])\<rparr>"

definition config_request :: http_request where
  "config_request = \<lparr>hq_method = ascii ''GET'', hq_path = segments [''admin'', ''config''], hq_query = [],
     hq_authorization = Some (ascii ''Bearer '' @ replicate 24 98), hq_length = None, hq_json = None, hq_bytes = None\<rparr>"

lemma sample_config_answer:
  "serve_request sample_env sample_pow sample_world PublicListener config_request (keyed_process n k)
    = Some (JsonReply 200 (admin_config_answer sample_env (keyed_process n k)), keyed_process n k)"
proof -
  have g: "admin_get (segments [''admin'', ''config'']) = Some AConfig" by (simp add: admin_get_def segments_def)
  have a: "require_admin sample_env (ad_startup (keyed_process n k)) (Some (ascii ''Bearer '' @ replicate 24 98))"
    by (simp add: require_admin_def keyed_process_def keyed_settings_def sample_settings_def config_default_def header_text_def
        strip_prefix_def str_starts_def ascii_def Let_def list_all_iff)
  show ?thesis
    by (simp add: serve_request_def public_router_def admin_router_def is_admin_path_def config_request_def g a is_get_def
        too_long_def run_admin_def Let_def)
qed


end
