(* ===== verification/Confidentiality.thy ===== *)
theory Confidentiality
  imports Router
begin

text \<open>
What the interface keeps to itself: a noninterference proof for the secrets of the configuration, handler by
  handler, and what a request without the token can reach.
\<close>

section \<open>Secrets\<close>

text \<open>What may be known of a configuration, of its file and of a process: all but the secret of the
  administration, the key of the node and the token of the portal.\<close>

definition redact :: "config \<Rightarrow> config" where
  "redact c = c\<lparr>cf_admin_secret := [], cf_node_private_key := [], cf_portal_agent_token := None\<rparr>"

definition public_part :: "admin \<Rightarrow> admin" where
  "public_part st = st\<lparr>ad_disk := (case ad_disk st of Stored c \<Rightarrow> Stored (redact c) | f \<Rightarrow> f),
     ad_startup := redact (ad_startup st), ad_live := redact (ad_live st)\<rparr>"

lemma redact_fields [simp]:
  "cf_network (redact c) = cf_network c" "cf_public_bind (redact c) = cf_public_bind c"
  "cf_admin_bind (redact c) = cf_admin_bind c" "cf_management_bind (redact c) = cf_management_bind c"
  "cf_data_dir (redact c) = cf_data_dir c" "cf_randomx_mode (redact c) = cf_randomx_mode c"
  "cf_node_enabled (redact c) = cf_node_enabled c"
  "cf_mining_enabled (redact c) = cf_mining_enabled c" "cf_mining_threads (redact c) = cf_mining_threads c"
  "cf_mining_intensity (redact c) = cf_mining_intensity c" "cf_miner_address (redact c) = cf_miner_address c"
  "cf_seed_nodes (redact c) = cf_seed_nodes c" "cf_peers (redact c) = cf_peers c"
  "cf_max_inbound_peers (redact c) = cf_max_inbound_peers c" "cf_max_outbound_peers (redact c) = cf_max_outbound_peers c"
  "cf_public_url (redact c) = cf_public_url c" "cf_device_id (redact c) = cf_device_id c"
  "cf_device_name (redact c) = cf_device_name c" "cf_portal_url (redact c) = cf_portal_url c"
  "cf_portal_agent_id (redact c) = cf_portal_agent_id c"
  by (simp_all add: redact_def)

lemma public_fields [simp]:
  "ad_node (public_part st) = ad_node st" "ad_enabled (public_part st) = ad_enabled st"
  "ad_restart (public_part st) = ad_restart st" "ad_startup (public_part st) = redact (ad_startup st)"
  "ad_live (public_part st) = redact (ad_live st)"
  by (simp_all add: public_part_def)

lemma public_node [simp]: "(public_part st)\<lparr>ad_node := n\<rparr> = public_part (st\<lparr>ad_node := n\<rparr>)"
  by (simp add: public_part_def)

text \<open>The reports and the public handlers see the public part alone.\<close>

lemma socket_public [simp]: "p2p_socket (public_part st) = p2p_socket st"
  by (simp add: p2p_socket_def)

lemma reports_public [simp]:
  "node_status E H W (public_part st) = node_status E H W st"
  "p2p_info E H W k (public_part st) = p2p_info E H W k st"
  "admin_peers E H W k (public_part st) = admin_peers E H W k st"
  "ensure_node_running (public_part st) = ensure_node_running st"
proof -
  have "status_of E H W (public_part st) = status_of E H W st"
    by (rule ext, unfold status_of_def Let_def) (simp add: management_url_def)
  then show n: "node_status E H W (public_part st) = node_status E H W st" by (simp add: node_status_def)
  show "p2p_info E H W k (public_part st) = p2p_info E H W k st" by (simp add: p2p_info_def n)
  show "admin_peers E H W k (public_part st) = admin_peers E H W k st" by (simp add: admin_peers_def n peer_list_def)
  show "ensure_node_running (public_part st) = ensure_node_running st" by (simp add: ensure_node_running_def)
qed

definition published :: "(reply \<times> admin) option \<Rightarrow> (reply \<times> admin) option" where
  "published r = map_option (apsnd public_part) r"

lemma published_simps [simp]:
  "published None = None" "published (Some (reply, st)) = Some (reply, public_part st)"
  by (simp_all add: published_def)

lemma submissions_public [simp]:
  "rpc_mining_template E now x (public_part st) = map_option (apsnd public_part) (rpc_mining_template E now x st)"
  "rpc_submit_transaction E now t (public_part st) = map_option (apsnd public_part) (rpc_submit_transaction E now t st)"
  "rpc_submit_block E pow now b (public_part st) = map_option (apsnd public_part) (rpc_submit_block E pow now b st)"
  "rpc_submit_raw_block E pow now bs (public_part st) = map_option (apsnd public_part) (rpc_submit_raw_block E pow now bs st)"
  "rpc_submit_workshare E pow now s (public_part st) = apsnd public_part (rpc_submit_workshare E pow now s st)"
  "rpc_submit_template E bt (public_part st) = apsnd public_part (rpc_submit_template E bt st)"
proof -
  show "rpc_mining_template E now x (public_part st) = map_option (apsnd public_part) (rpc_mining_template E now x st)"
    by (cases "make_candidate E now x (ad_node st)") (auto simp: rpc_mining_template_def split: sum.split)
  show "rpc_submit_transaction E now t (public_part st) = map_option (apsnd public_part) (rpc_submit_transaction E now t st)"
    by (cases "submit_transaction E now t (ad_node st)") (auto simp: rpc_submit_transaction_def split: sum.split)
  show b: "rpc_submit_block E pow now b (public_part st) = map_option (apsnd public_part) (rpc_submit_block E pow now b st)" for b
    by (cases "submit_block E pow now b (ad_node st)") (auto simp: rpc_submit_block_def split: sum.split)
  show "rpc_submit_raw_block E pow now bs (public_part st) = map_option (apsnd public_part) (rpc_submit_raw_block E pow now bs st)"
    by (simp add: rpc_submit_raw_block_def b split: sum.split)
  show "rpc_submit_workshare E pow now s (public_part st) = apsnd public_part (rpc_submit_workshare E pow now s st)"
    by (simp add: rpc_submit_workshare_def split: sum.split prod.split)
  show "rpc_submit_template E bt (public_part st) = apsnd public_part (rpc_submit_template E bt st)"
    by (simp add: rpc_submit_template_def split: sum.split prod.split)
qed

lemma published_map [simp]:
  "published (map_option (\<lambda>v. (f v, st)) x) = map_option (\<lambda>v. (f v, public_part st)) x"
  "published (map_option (apfst g) y) = map_option (apfst g) (map_option (apsnd public_part) y)"
  "published (Some (apfst g z)) = Some (apfst g (apsnd public_part z))"
  by (simp_all add: published_def option.map_comp comp_def split_beta)

lemma read_published: "read_public E X rq r (public_part st) = published (read_public E X rq r st)"
  by (cases r) (simp_all add: read_public_def Let_def split: option.split sum.split)

lemma published_json [simp]:
  "published (with_json rq of_json st run) = with_json rq of_json (public_part st) (\<lambda>v. published (run v))"
  by (simp add: with_json_def split: option.split)

lemma post_published: "post_public E pow X rq p (public_part st) = published (post_public E pow X rq p st)"
  by (cases p) (simp_all add: post_public_def Let_def split: option.split)

text \<open>A change of the configuration: the secrets of a valid one pass every check, so that its outcome depends on
  the rest.\<close>

definition secrets_ok :: "prims \<Rightarrow> web \<Rightarrow> config \<Rightarrow> bool" where
  "secrets_ok E W c \<longleftrightarrow> (\<exists>bs. hex_decode E (cf_admin_secret c) = Some bs \<and> 24 \<le> length bs)
     \<and> (\<exists>key. hex_decode E (cf_node_private_key c) = Some key \<and> secret_key_valid W key)"

lemma validate_redacted:
  assumes "secrets_ok E W c" "secrets_ok E W c'" "redact c = redact c'"
  shows "config_validate E W c = config_validate E W c'"
proof -
  have f: "f (redact c) = f (redact c')" for f :: "config \<Rightarrow> 'a" by (simp add: assms(3))
  note fields = f [of cf_network, simplified] f [of cf_public_bind, simplified] f [of cf_admin_bind, simplified]
    f [of cf_management_bind, simplified] f [of cf_mining_intensity, simplified] f [of cf_mining_threads, simplified]
    f [of cf_max_inbound_peers, simplified] f [of cf_max_outbound_peers, simplified] f [of cf_seed_nodes, simplified]
    f [of cf_peers, simplified] f [of cf_mining_enabled, simplified] f [of cf_miner_address, simplified]
    f [of cf_public_url, simplified] f [of cf_portal_url, simplified] f [of cf_device_id, simplified]
    f [of cf_device_name, simplified]
  obtain bs key bs' key' where "hex_decode E (cf_admin_secret c) = Some bs" "24 \<le> length bs"
    "hex_decode E (cf_node_private_key c) = Some key" "secret_key_valid W key"
    "hex_decode E (cf_admin_secret c') = Some bs'" "24 \<le> length bs'"
    "hex_decode E (cf_node_private_key c') = Some key'" "secret_key_valid W key'"
    using assms(1,2) by (auto simp: secrets_ok_def)
  then show ?thesis unfolding config_validate_def fields by (simp add: ensure_def ok_or_def rbind_def)
qed

lemma config_ok_secrets: "config_ok E W c \<Longrightarrow> secrets_ok E W c"
  by (auto simp: config_ok_def config_validate_def secrets_ok_def rbind_Inr ensure_def ok_or_def split: if_splits option.splits)

lemma same_base_secrets: "same_base c c' \<Longrightarrow> secrets_ok E W c' \<Longrightarrow> secrets_ok E W c"
  by (simp add: same_base_def secrets_ok_def)

text \<open>Two outcomes of a change that look the same from outside.\<close>

definition alike :: "'a \<times> admin \<Rightarrow> 'a \<times> admin \<Rightarrow> bool" where
  "alike r r' \<longleftrightarrow> fst r = fst r' \<and> public_part (snd r) = public_part (snd r')"

lemma public_partD:
  assumes "public_part st = public_part st'"
  shows "ad_node st = ad_node st'" "ad_enabled st = ad_enabled st'" "ad_restart st = ad_restart st'"
    "redact (ad_startup st) = redact (ad_startup st')" "redact (ad_live st) = redact (ad_live st')"
  using arg_cong [OF assms, of ad_node] arg_cong [OF assms, of ad_enabled] arg_cong [OF assms, of ad_restart]
    arg_cong [OF assms, of ad_startup] arg_cong [OF assms, of ad_live] by simp_all

lemma stored_public:
  assumes "admin_ok E pow W st" "admin_ok E pow W st'" "public_part st = public_part st'"
  shows "redact (stored st) = redact (stored st')"
  using arg_cong [OF assms(3), of ad_disk] stored_ok(1) [OF assms(1)] stored_ok(1) [OF assms(2)]
  by (simp add: public_part_def)

lemma public_saved:
  "public_part st = public_part st' \<Longrightarrow> redact c = redact c' \<Longrightarrow>
     public_part (st\<lparr>ad_disk := Stored c\<rparr>) = public_part (st'\<lparr>ad_disk := Stored c'\<rparr>)"
  by (cases st; cases st') (simp add: public_part_def)

lemma redacted_results:
  assumes "\<And>c. f (redact c) = rbind (f c) (\<lambda>c. Inr (redact c))" and "redact c = redact c'"
  shows "(\<exists>e. f c = Inl e \<and> f c' = Inl e) \<or> (\<exists>d d'. f c = Inr d \<and> f c' = Inr d' \<and> redact d = redact d')"
proof -
  have "rbind (f c) (\<lambda>c. Inr (redact c)) = rbind (f c') (\<lambda>c. Inr (redact c))"
    using assms(1) [of c] assms(1) [of c'] assms(2) by simp
  then show ?thesis by (cases "f c"; cases "f c'") (auto simp: rbind_def)
qed

lemma redact_updates [simp]:
  "(redact c)\<lparr>cf_device_name := a\<rparr> = redact (c\<lparr>cf_device_name := a\<rparr>)"
  "(redact c)\<lparr>cf_public_url := b\<rparr> = redact (c\<lparr>cf_public_url := b\<rparr>)"
  "(redact c)\<lparr>cf_miner_address := d\<rparr> = redact (c\<lparr>cf_miner_address := d\<rparr>)"
  "(redact c)\<lparr>cf_mining_enabled := e\<rparr> = redact (c\<lparr>cf_mining_enabled := e\<rparr>)"
  "(redact c)\<lparr>cf_mining_threads := k\<rparr> = redact (c\<lparr>cf_mining_threads := k\<rparr>)"
  "(redact c)\<lparr>cf_mining_intensity := i\<rparr> = redact (c\<lparr>cf_mining_intensity := i\<rparr>)"
  "(redact c)\<lparr>cf_randomx_mode := m\<rparr> = redact (c\<lparr>cf_randomx_mode := m\<rparr>)"
  "(redact c)\<lparr>cf_peers := ps\<rparr> = redact (c\<lparr>cf_peers := ps\<rparr>)"
  "(redact c)\<lparr>cf_seed_nodes := ps\<rparr> = redact (c\<lparr>cf_seed_nodes := ps\<rparr>)"
  "(redact c)\<lparr>cf_node_enabled := b'\<rparr> = redact (c\<lparr>cf_node_enabled := b'\<rparr>)"
  "(redact c)\<lparr>cf_portal_url := u\<rparr> = redact (c\<lparr>cf_portal_url := u\<rparr>)"
  "(redact c)\<lparr>cf_portal_agent_id := u\<rparr> = redact (c\<lparr>cf_portal_agent_id := u\<rparr>)"
  "redact (c\<lparr>cf_portal_agent_token := u\<rparr>) = redact c"
  by (simp_all add: redact_def)

lemma update_device_redacted: "update_device H name url (redact c) = rbind (update_device H name url c) (\<lambda>c. Inr (redact c))"
  by (auto simp: update_device_def Let_def rbind_def split: option.split sum.split)

lemma update_mining_redacted: "update_mining E H u (redact c) = rbind (update_mining E H u c) (\<lambda>c. Inr (redact c))"
proof -
  have m: "update_miner E a (redact c) = rbind (update_miner E a c) (\<lambda>c. Inr (redact c))"
    "update_threads H k (redact c) = rbind (update_threads H k c) (\<lambda>c. Inr (redact c))"
    "update_mode H m (redact c) = rbind (update_mode H m c) (\<lambda>c. Inr (redact c))" for a k m c
    by (auto simp: update_miner_def update_threads_def update_mode_def rbind_def split: option.split sum.split)
  have o: "(case b of None \<Rightarrow> redact c | Some b \<Rightarrow> (redact c)\<lparr>cf_mining_enabled := b\<rparr>)
      = redact (case b of None \<Rightarrow> c | Some b \<Rightarrow> c\<lparr>cf_mining_enabled := b\<rparr>)"
    "(case v of None \<Rightarrow> redact c | Some v \<Rightarrow> (redact c)\<lparr>cf_mining_intensity := v\<rparr>)
      = redact (case v of None \<Rightarrow> c | Some v \<Rightarrow> c\<lparr>cf_mining_intensity := v\<rparr>)" for b v c
    by (simp_all split: option.split)
  show ?thesis unfolding update_mining_def Let_def m(1)
    by (cases "update_miner E (mu_miner_address u) c") (simp_all add: rbind_def m o split: sum.split)
qed

lemma save_alike:
  "public_part st = public_part st' \<Longrightarrow> redact c = redact c' \<Longrightarrow> alike (save_config H c st) (save_config H c' st')"
  using public_saved [of st st' c c']
  by (cases "ho_save_failure H") (simp_all add: save_config_def config_save_def alike_def map_err_def)

lemma store_alike:
  assumes "public_part st = public_part st'" "redact c = redact c'" "secrets_ok E (ho_web H) c" "secrets_ok E (ho_web H) c'"
  shows "alike (store_config E H c st) (store_config E H c' st')"
  using validate_redacted [OF assms(3,4,2)] save_alike [OF assms(1,2)] assms(1)
  by (simp add: store_config_def alike_def split: sum.split)

lemma apply_public:
  assumes "public_part st = public_part st'" "redact c = redact c'"
  shows "public_part (apply_mining_config c st) = public_part (apply_mining_config c' st')"
proof -
  have "cf_miner_address c = cf_miner_address c'" using arg_cong [OF assms(2), of cf_miner_address] by simp
  then show ?thesis using assms(1) by (cases st; cases st') (simp add: public_part_def apply_mining_config_def assms(2))
qed

lemma restart_public: "public_part st = public_part st' \<Longrightarrow> public_part (schedule_restart st) = public_part (schedule_restart st')"
  by (cases st; cases st') (simp add: public_part_def schedule_restart_def)

lemma enabled_public: "public_part st = public_part st' \<Longrightarrow> public_part (set_enabled b st) = public_part (set_enabled b st')"
  by (cases st; cases st') (simp add: public_part_def set_enabled_def)

lemma finish_alike:
  assumes "public_part st = public_part st'" "redact c = redact c'" "secrets_ok E (ho_web H) c" "secrets_ok E (ho_web H) c'"
  shows "alike (finish_update E H b c st) (finish_update E H b c' st')"
proof -
  obtain r s r' s' where e: "store_config E H c st = (r, s)" "store_config E H c' st' = (r', s')" by (metis prod.collapse)
  then have "r = r'" "public_part s = public_part s'" using store_alike [OF assms] by (simp_all add: alike_def)
  moreover note a = apply_public [OF this(2) assms(2)]
  moreover note restart_public [OF a]
  ultimately show ?thesis by (cases r') (simp_all add: finish_update_def e alike_def Let_def)
qed

text \<open>Two valid processes with the same public part.\<close>

definition same_outside :: "prims \<Rightarrow> pow_verifier \<Rightarrow> host \<Rightarrow> admin \<Rightarrow> admin \<Rightarrow> bool" where
  "same_outside E pow H st st' \<longleftrightarrow> admin_ok E pow (ho_web H) st \<and> admin_ok E pow (ho_web H) st'
     \<and> public_part st = public_part st'"

lemma same_outsideD:
  assumes "same_outside E pow H st st'"
  shows "public_part st = public_part st'" "redact (stored st) = redact (stored st')"
    "load_config E H st = (Inr (stored st), st)" "load_config E H st' = (Inr (stored st'), st')"
    "secrets_ok E (ho_web H) (stored st)" "secrets_ok E (ho_web H) (stored st')"
    "redact (ad_startup st) = redact (ad_startup st')"
proof -
  have ok: "admin_ok E pow (ho_web H) st" "admin_ok E pow (ho_web H) st'" and pub: "public_part st = public_part st'"
    using assms by (simp_all add: same_outside_def)
  show "public_part st = public_part st'" by (rule pub)
  show "redact (stored st) = redact (stored st')" by (rule stored_public [OF ok pub])
  show "load_config E H st = (Inr (stored st), st)" by (rule load_config_ok [OF ok(1) refl])
  show "load_config E H st' = (Inr (stored st'), st')" by (rule load_config_ok [OF ok(2) refl])
  show "secrets_ok E (ho_web H) (stored st)" by (rule config_ok_secrets [OF stored_ok(2) [OF ok(1)]])
  show "secrets_ok E (ho_web H) (stored st')" by (rule config_ok_secrets [OF stored_ok(2) [OF ok(2)]])
  show "redact (ad_startup st) = redact (ad_startup st')" by (rule public_partD(4) [OF pub])
qed

lemma update_alike:
  assumes same: "same_outside E pow H st st'"
    and f: "\<And>c. f (redact c) = rbind (f c) (\<lambda>c. Inr (redact c))" "\<And>c d. f c = Inr d \<Longrightarrow> same_base d c"
    and b: "\<And>c s. b (redact c) (redact s) = b c s"
  shows "alike (case f (stored st) of Inl e \<Rightarrow> (Inl e, st) | Inr c \<Rightarrow> finish_update E H (b c (ad_startup st)) c st)
    (case f (stored st') of Inl e \<Rightarrow> (Inl e, st') | Inr c \<Rightarrow> finish_update E H (b c (ad_startup st')) c st')"
  using redacted_results [where f = f, OF f(1) same_outsideD(2) [OF same]]
proof (elim disjE exE conjE)
  fix d d' assume d: "f (stored st) = Inr d" "f (stored st') = Inr d'" "redact d = redact d'"
  have s: "secrets_ok E (ho_web H) d" "secrets_ok E (ho_web H) d'"
    using same_outsideD(5,6) [OF same] f(2) d(1,2) same_base_secrets by blast+
  have "b d (ad_startup st) = b d' (ad_startup st')"
    using b [of d "ad_startup st"] b [of d' "ad_startup st'"] d(3) same_outsideD(7) [OF same] by metis
  then show ?thesis using finish_alike [OF same_outsideD(1) [OF same] d(3) s] d(1,2) by simp
qed (use same_outsideD(1) [OF same] in \<open>simp add: alike_def\<close>)

lemma settings_alike:
  assumes same: "same_outside E pow H st st'"
  shows "alike (admin_config_update E H name url st) (admin_config_update E H name url st')"
    "alike (admin_mining E H u st) (admin_mining E H u st')"
  using update_alike [where f = "update_device H name url", OF same update_device_redacted update_device_base, where b = "\<lambda>c s. cf_device_name c \<noteq> cf_device_name s"]
    update_alike [where f = "update_mining E H u", OF same update_mining_redacted update_mining_base, where b = "\<lambda>c s. cf_randomx_mode c \<noteq> cf_randomx_mode s"]
  by (simp_all add: admin_config_update_def admin_mining_def same_outsideD(3,4) [OF same])

text \<open>A change that stores a configuration and then only touches the process.\<close>

lemma stored_alike:
  assumes "alike r r'" and "\<And>s s'. public_part s = public_part s' \<Longrightarrow> public_part (g s) = public_part (g s')"
  shows "alike (case r of (Inl e, st) \<Rightarrow> (Inl e, st) | (Inr _, st) \<Rightarrow> (Inr (), g st))
    (case r' of (Inl e, st) \<Rightarrow> (Inl e, st) | (Inr _, st) \<Rightarrow> (Inr (), g st))"
proof -
  obtain v s s' where e: "r = (v, s)" "r' = (v, s')" and p: "public_part s = public_part s'"
    using assms(1) by (cases r; cases r') (auto simp: alike_def)
  show ?thesis using p assms(2) [OF p] by (cases v) (simp_all add: e alike_def)
qed

lemma switch_alike:
  assumes same: "same_outside E pow H st st'"
  shows "alike (set_node_enabled E H b st) (set_node_enabled E H b st')"
proof -
  let ?c = "\<lambda>st. (stored st)\<lparr>cf_node_enabled := b\<rparr>"
  have "redact (?c st) = redact (?c st')" using same_outsideD(2) [OF same] by (metis redact_updates(10))
  moreover have "secrets_ok E (ho_web H) (?c st)" "secrets_ok E (ho_web H) (?c st')"
    using same_outsideD(5,6) [OF same] by (simp_all add: secrets_ok_def)
  ultimately have "alike (store_config E H (?c st) st) (store_config E H (?c st') st')"
    by (rule store_alike [OF same_outsideD(1) [OF same]])
  from stored_alike [OF this, where g = "set_enabled b", OF enabled_public] show ?thesis
    by (simp add: set_node_enabled_def same_outsideD(3,4) [OF same])
qed

lemma peers_alike:
  assumes same: "same_outside E pow H st st'"
  shows "alike (admin_peer_add E H url st) (admin_peer_add E H url st')"
    "alike (admin_peer_remove E H url st) (admin_peer_remove E H url st')"
proof -
  note pub = same_outsideD(1) [OF same] and red = same_outsideD(2) [OF same]
  let ?a = "\<lambda>st. if url \<in> set (cf_peers (stored st)) then stored st else (stored st)\<lparr>cf_peers := cf_peers (stored st) @ [url]\<rparr>"
  let ?r = "\<lambda>st. (stored st)\<lparr>cf_peers := filter (\<lambda>value. value \<noteq> str_trim url) (cf_peers (stored st)),
    cf_seed_nodes := filter (\<lambda>value. value \<noteq> str_trim url) (cf_seed_nodes (stored st))\<rparr>"
  have f: "cf_peers (stored st) = cf_peers (stored st')" "cf_seed_nodes (stored st) = cf_seed_nodes (stored st')"
    using arg_cong [OF red, of cf_peers] arg_cong [OF red, of cf_seed_nodes] by simp_all
  have up: "redact (c\<lparr>cf_peers := ps\<rparr>) = redact (c'\<lparr>cf_peers := ps\<rparr>)"
    "redact (c\<lparr>cf_peers := ps, cf_seed_nodes := ss\<rparr>) = redact (c'\<lparr>cf_peers := ps, cf_seed_nodes := ss\<rparr>)"
    if "redact c = redact c'" for c c' ps ss
    using that by (metis redact_updates(8,9))+
  have a: "redact (?a st) = redact (?a st')" "secrets_ok E (ho_web H) (?a st)" "secrets_ok E (ho_web H) (?a st')"
    using red f up(1) [OF red] same_outsideD(5,6) [OF same] by (simp_all add: secrets_ok_def)
  have r: "redact (?r st) = redact (?r st')" unfolding f by (rule up(2) [OF red])
  show "alike (admin_peer_add E H url st) (admin_peer_add E H url st')"
    using stored_alike [OF store_alike [OF pub a], where g = schedule_restart, OF restart_public] pub
    by (simp add: admin_peer_add_def Let_def same_outsideD(3,4) [OF same] alike_def split: sum.split)
  show "alike (admin_peer_remove E H url st) (admin_peer_remove E H url st')"
    using stored_alike [OF save_alike [OF pub r], where g = schedule_restart, OF restart_public]
    by (simp add: admin_peer_remove_def Let_def same_outsideD(3,4) [OF same])
qed

lemma reload_alike:
  assumes same: "same_outside E pow H st st'" and red: "redact c = redact c'"
    and c: "config_ok E (ho_web H) c" "same_base c (ad_startup st)"
    and c': "config_ok E (ho_web H) c'" "same_base c' (ad_startup st')"
  shows "alike (reload E H (save_config H c st)) (reload E H (save_config H c' st'))"
proof (cases "ho_save_failure H")
  case None
  have l: "load_config E H (s\<lparr>ad_disk := Stored d\<rparr>) = (Inr d, s\<lparr>ad_disk := Stored d\<rparr>)"
    if "admin_ok E pow (ho_web H) s" "config_ok E (ho_web H) d" "same_base d (ad_startup s)" for s d
    using load_config_ok [OF admin_ok_disk [OF that] refl] by (simp add: stored_def)
  have "public_part (apply_mining_config c (st\<lparr>ad_disk := Stored c\<rparr>)) = public_part (apply_mining_config c' (st'\<lparr>ad_disk := Stored c'\<rparr>))"
    by (rule apply_public [OF public_saved [OF same_outsideD(1) [OF same] red] red])
  then show ?thesis using None same l [OF _ c] l [OF _ c']
    by (simp add: same_outside_def save_config_def config_save_def map_err_def reload_def alike_def)
next
  case (Some e)
  then show ?thesis using same_outsideD(1) [OF same]
    by (simp add: save_config_def config_save_def map_err_def reload_def alike_def)
qed

lemma pairing_alike:
  assumes same: "same_outside E pow H st st'" and W: "url_crate (ho_web H)"
  shows "alike (admin_pair E H portal reply st) (admin_pair E H portal reply st')"
    "alike (admin_unpair E H st) (admin_unpair E H st')"
proof -
  have ok: "admin_ok E pow (ho_web H) st" "admin_ok E pow (ho_web H) st'" using same by (simp_all add: same_outside_def)
  note red = same_outsideD(2) [OF same]
  show "alike (admin_unpair E H st) (admin_unpair E H st')"
  proof -
    let ?c = "\<lambda>st. (stored st)\<lparr>cf_portal_agent_id := None, cf_portal_agent_token := None\<rparr>"
    have "redact (?c st) = redact (?c st')" using red by (metis redact_updates(12,13))
    moreover have "config_ok E (ho_web H) (?c s) \<and> same_base (?c s) (ad_startup s)" if "admin_ok E pow (ho_web H) s" for s
      using pair_config_ok(2) [OF stored_ok(2) [OF that]] stored_ok(3) [OF that] by (simp add: same_base_def)
    ultimately have "alike (reload E H (save_config H (?c st) st)) (reload E H (save_config H (?c st') st'))"
      using ok by (intro reload_alike [OF same]) simp_all
    then show ?thesis by (simp add: admin_unpair_def portal_unpair_def same_outsideD(3,4) [OF same])
  qed
  show "alike (admin_pair E H portal reply st) (admin_pair E H portal reply st')"
  proof (cases "\<exists>base agent token. validate_portal (ho_web H) portal = Inr base \<and> reply = Inr (agent, token) \<and> agent \<noteq> [] \<and> 24 \<le> length token")
    case True
    then obtain base agent token where v: "validate_portal (ho_web H) portal = Inr base" "reply = Inr (agent, token)"
      "agent \<noteq> []" "\<not> length token < 24" by force
    let ?c = "\<lambda>st. (stored st)\<lparr>cf_portal_url := Some (trim_end_of [[47]] (url_text (ho_web H) base)),
      cf_portal_agent_id := Some agent, cf_portal_agent_token := Some token\<rparr>"
    have "redact (?c st) = redact (?c st')" using red by (metis redact_updates(11,12,13))
    moreover have "config_ok E (ho_web H) (?c s) \<and> same_base (?c s) (ad_startup s)" if "admin_ok E pow (ho_web H) s" for s
      using pair_config_ok(1) [OF stored_ok(2) [OF that] portal_url_ok [OF W v(1)]] stored_ok(3) [OF that]
      by (simp add: same_base_def)
    ultimately have "alike (reload E H (save_config H (?c st) st)) (reload E H (save_config H (?c st') st'))"
      using ok by (intro reload_alike [OF same]) simp_all
    then show ?thesis using v by (simp add: admin_pair_def portal_pair_def same_outsideD(3,4) [OF same])
  next
    case False
    then show ?thesis using same_outsideD(1) [OF same]
      by (auto simp: admin_pair_def portal_pair_def reload_def alike_def same_outsideD(3,4) [OF same] split: sum.split prod.split)
  qed
qed

lemma after_published:
  assumes "alike r r'" and "\<And>s s'. r = (Inr (), s) \<Longrightarrow> r' = (Inr (), s') \<Longrightarrow> public_part s = public_part s' \<Longrightarrow> j s = j' s'"
  shows "published (after X j r) = published (after X j' r')"
proof -
  obtain v s s' where e: "r = (v, s)" "r' = (v, s')" and p: "public_part s = public_part s'"
    using assms(1) by (cases r; cases r') (auto simp: alike_def)
  show ?thesis using p assms(2) [of s s'] by (cases v) (simp_all add: e after_def)
qed

lemma answers_public [simp]:
  "admin_auth_answer E (public_part st) = admin_auth_answer E st"
  "admin_config_answer E (public_part st) = admin_config_answer E st"
  "config_update_answer (public_part st) = config_update_answer st"
  "mining_update_answer E H (public_part st) = mining_update_answer E H st"
  "sync_answer (public_part st) = sync_answer st"
  "cf_peers (stored (public_part st)) = cf_peers (stored st)"
  by (simp_all add: admin_auth_answer_def admin_config_answer_def config_update_answer_def mining_update_answer_def
      sync_answer_def stored_def Let_def) (simp add: public_part_def split: config_file.split)

lemma sync_public: "admin_sync E (public_part st) = map_option (apsnd public_part) (admin_sync E st)"
  by (simp add: admin_sync_def option.map_comp comp_def split: sum.split)

lemma run_published:
  assumes same: "same_outside E pow (wo_host X) st st'" and W: "url_crate (ho_web (wo_host X))"
  shows "published (run_admin E X rq a st) = published (run_admin E X rq a st')"
proof -
  note pub = same_outsideD(1) [OF same] and node = public_partD(1) [OF same_outsideD(1) [OF same]]
  have via: "f st = f st'" if "\<And>s. f (public_part s) = f s" for f :: "admin \<Rightarrow> 'a" using that pub by metis
  have eq: "f s = f s'" if "\<And>s. f (public_part s) = f s" "public_part s = public_part s'" for f :: "admin \<Rightarrow> 'a" and s s'
    using that by metis
  note same_reports = via [of "node_status E (wo_host X) (wo_around X)", OF reports_public(1)]
    via [of "admin_peers E (wo_host X) (wo_around X) (wo_identity X)", OF reports_public(3)]
    via [of "admin_auth_answer E", OF answers_public(1)] via [of "admin_config_answer E", OF answers_public(2)]
  have changes: "published (after X config_update_answer (admin_config_update E (wo_host X) name url st))
      = published (after X config_update_answer (admin_config_update E (wo_host X) name url st'))"
    "published (after X (mining_update_answer E (wo_host X)) (admin_mining E (wo_host X) u st))
      = published (after X (mining_update_answer E (wo_host X)) (admin_mining E (wo_host X) u st'))"
    "published (after X (\<lambda>_. j) (admin_pair E (wo_host X) portal reply st))
      = published (after X (\<lambda>_. j) (admin_pair E (wo_host X) portal reply st'))"
    "published (after X (\<lambda>_. j) (admin_unpair E (wo_host X) st)) = published (after X (\<lambda>_. j) (admin_unpair E (wo_host X) st'))"
    "published (after X (\<lambda>st. peers_answer (cf_peers (stored st))) (admin_peer_add E (wo_host X) url' st))
      = published (after X (\<lambda>st. peers_answer (cf_peers (stored st))) (admin_peer_add E (wo_host X) url' st'))"
    "published (after X (\<lambda>st. peers_answer (cf_peers (stored st))) (admin_peer_remove E (wo_host X) url' st))
      = published (after X (\<lambda>st. peers_answer (cf_peers (stored st))) (admin_peer_remove E (wo_host X) url' st'))"
    "published (after X (\<lambda>_. j) (set_node_enabled E (wo_host X) b st))
      = published (after X (\<lambda>_. j) (set_node_enabled E (wo_host X) b st'))"
    for name url u j portal reply url' b
    using after_published [OF settings_alike(1) [OF same] eq [of config_update_answer, OF answers_public(3)]]
      after_published [OF settings_alike(2) [OF same] eq [of "mining_update_answer E (wo_host X)", OF answers_public(4)]]
      after_published [OF pairing_alike(1) [OF same W]] after_published [OF pairing_alike(2) [OF same W]]
      after_published [OF peers_alike(1) [OF same] eq [of "\<lambda>st. peers_answer (cf_peers (stored st))"]]
      after_published [OF peers_alike(2) [OF same] eq [of "\<lambda>st. peers_answer (cf_peers (stored st))"]]
      after_published [OF switch_alike [OF same]]
    by (simp_all add: answers_public)
  have sync: "published (Option.bind (admin_sync E st) (after X sync_answer))
      = published (Option.bind (admin_sync E st') (after X sync_answer))"
  proof -
    have "map_option (apsnd public_part) (admin_sync E st) = map_option (apsnd public_part) (admin_sync E st')"
      using sync_public [of E st] sync_public [of E st'] pub by simp
    then consider "admin_sync E st = None" "admin_sync E st' = None"
      | r r' where "admin_sync E st = Some r" "admin_sync E st' = Some r'" "alike r r'"
      by (cases "admin_sync E st"; cases "admin_sync E st'") (auto simp: alike_def prod_eq_iff)
    then show ?thesis
      by cases (simp_all add: after_published [OF _ eq [of sync_answer, OF answers_public(5)]])
  qed
  show ?thesis
    by (cases a)
      (simp_all add: run_admin_def Let_def same_reports node pub changes sync with_json_def restart_public [OF pub]
        split: option.split prod.split)
qed

lemma serve_published:
  assumes same: "same_outside E pow (wo_host X) st st'" and W: "url_crate (ho_web (wo_host X))"
    and auth: "require_admin E (ad_startup st) (hq_authorization rq) = require_admin E (ad_startup st') (hq_authorization rq)"
  shows "published (serve_request E pow X l rq st) = published (serve_request E pow X l rq st')"
proof -
  note pub = same_outsideD(1) [OF same]
  have admin: "published (admin_router E X rq st) = published (admin_router E X rq st')"
    using run_published [OF same W] by (simp add: admin_router_def auth pub split: option.split)
  have "published (read_public E X rq r st) = published (read_public E X rq r st')"
    "published (post_public E pow X rq p st) = published (post_public E pow X rq p st')" for r p
    using read_published [of E X rq r st] read_published [of E X rq r st'] pub
      post_published [of E pow X rq p st] post_published [of E pow X rq p st'] by simp_all
  then have "published (public_router E pow X rq st) = published (public_router E pow X rq st')"
    using admin by (simp add: public_router_def pub split: option.split)
  then show ?thesis using admin pub
    by (cases l) (simp_all add: serve_request_def management_router_def split: option.split)
qed

section \<open>Properties of the interface\<close>



text \<open>C19: Without the secret nothing but the ledger can be reached.  A request that does not carry it leaves
  file, configuration, switch and restart as they were and changes the node only by one of the five submissions
  or by asking for work, on the public listener; every path of the administration answers it with 401, on all
  listeners and for every method, before anything of its body is read.\<close>

theorem outsiders_only_submit:
  assumes "serve_request E pow X l rq st = Some (reply, st')" and "\<not> require_admin E (ad_startup st) (hq_authorization rq)"
  shows "st' = st\<lparr>ad_node := ad_node st'\<rparr>
    \<and> (st' \<noteq> st \<longrightarrow> l = PublicListener \<and> (is_post rq \<and> public_post (hq_path rq) \<noteq> None
        \<or> is_get rq \<and> public_get (hq_path rq) = Some RTemplate))
    \<and> (is_admin_path (hq_path rq) \<and> \<not> too_long (64 * 1024) rq \<longrightarrow> reply = StatusReply 401)"
proof -
  have admin: "admin_router E X rq st = Some (if \<not> is_admin_path (hq_path rq) \<or> too_long (64 * 1024) rq then FrameworkReply
      else StatusReply 401, st)"
    using assms(2) by (simp add: admin_router_def)
  have asset: "\<not> is_admin_path path" if "management_asset path = Some a" for path a
    using that by (auto simp: management_asset_def is_admin_path_def admin_get_def admin_post_def segments_def split: if_splits)
  have read: "s = st\<lparr>ad_node := ad_node s\<rparr> \<and> (r \<noteq> RTemplate \<longrightarrow> s = st)" if "read_public E X rq r st = Some (v, s)" for r v s
    using that by (cases r) (auto simp: read_public_def Let_def rpc_mining_template_def split: option.splits sum.splits)
  have post: "s = st\<lparr>ad_node := ad_node s\<rparr>" if "post_public E pow X rq p st = Some (v, s)" for p v s
    using that
    by (cases p) (auto simp: post_public_def with_json_def Let_def rpc_submit_transaction_def rpc_submit_block_def
        rpc_submit_raw_block_def rpc_submit_workshare_def rpc_submit_template_def split: option.splits sum.splits prod.splits)
  show ?thesis
  proof (cases l)
    case PublicListener
    then show ?thesis using assms(1) admin read post
      by (auto simp: serve_request_def public_router_def split: if_splits option.splits)
  next
    case AdminListener
    then show ?thesis using assms(1) admin by (auto simp: serve_request_def split: if_splits)
  next
    case ManagementListener
    then show ?thesis using assms(1) admin asset
      by (auto simp: serve_request_def management_router_def split: if_splits option.splits)
  qed
qed

definition restart_request :: http_request where
  "restart_request = \<lparr>hq_method = ascii ''POST'', hq_path = segments [''admin'', ''restart''], hq_query = [],
     hq_authorization = None, hq_length = None, hq_json = None, hq_bytes = None\<rparr>"

theorem outsiders_only_submit_witness:
  "\<exists>(st :: admin). serve_request sample_env sample_pow sample_world ManagementListener restart_request st = Some (StatusReply 401, st)
    \<and> \<not> require_admin sample_env (ad_startup st) (hq_authorization restart_request)"
proof -
  obtain st :: admin where "ad_startup st = sample_settings" by (rule sample_admin)
  have p: "admin_post (segments [''admin'', ''restart'']) = Some ARestart" by (simp add: admin_post_def segments_def)
  have m: "management_asset (segments [''admin'', ''restart'']) = None" by (simp add: management_asset_def segments_def)
  have n: "\<not> require_admin sample_env (ad_startup st) (hq_authorization restart_request)"
    by (simp add: require_admin_def restart_request_def Let_def)
  have path: "hq_path restart_request = segments [''admin'', ''restart'']" "\<not> too_long (64 * 1024) restart_request"
    by (simp_all add: restart_request_def too_long_def)
  then have r: "serve_request sample_env sample_pow sample_world ManagementListener restart_request st = Some (StatusReply 401, st)"
    using n m p by (simp add: serve_request_def management_router_def admin_router_def is_admin_path_def)
  show ?thesis using outsiders_only_submit [OF r n] r n by blast
qed

end
