(* ===== verification/Command_Line.thy ===== *)
theory Command_Line
  imports Confidentiality
begin

text \<open>
The program from outside, \<open>src/main.rs\<close> and \<open>src/mdns.rs\<close>: the configuration file as JSON, with the defaults
  of its missing members, the commands on file and databases, the start of a node in \<open>Node::open\<close>, and the
  announcement of its management page.  The commands \<open>pair\<close> and \<open>unpair\<close> are \<open>portal_pair\<close> and
  \<open>portal_unpair\<close> of \<open>Admin\<close>.  What a process did is there after a restart; \<open>show-config\<close> shows all but secrets.
\<close>

section \<open>The configuration as JSON\<close>

definition json_config :: "prims \<Rightarrow> config \<Rightarrow> json" where
  "json_config E c = json_object
     [(''network'', JText (cf_network c)), (''public_bind'', JText (cf_public_bind c)),
      (''admin_bind'', JText (cf_admin_bind c)), (''management_bind'', JText (cf_management_bind c)),
      (''data_dir'', JText (cf_data_dir c)), (''randomx_library'', json_option JText (cf_randomx_library c)),
      (''randomx_mode'', json_mode (cf_randomx_mode c)), (''node_enabled'', JBool (cf_node_enabled c)),
      (''mining_enabled'', JBool (cf_mining_enabled c)), (''mining_threads'', json_nat (cf_mining_threads c)),
      (''mining_intensity'', json_word (cf_mining_intensity c)),
      (''miner_address'', json_option (json_address E) (cf_miner_address c)),
      (''seed_nodes'', json_texts (cf_seed_nodes c)), (''peers'', json_texts (cf_peers c)),
      (''max_inbound_peers'', json_nat (cf_max_inbound_peers c)), (''max_outbound_peers'', json_nat (cf_max_outbound_peers c)),
      (''public_url'', json_option JText (cf_public_url c)), (''admin_secret'', JText (cf_admin_secret c)),
      (''device_id'', JText (cf_device_id c)), (''device_name'', JText (cf_device_name c)),
      (''node_private_key'', JText (cf_node_private_key c)), (''portal_url'', json_option JText (cf_portal_url c)),
      (''portal_agent_id'', json_option JText (cf_portal_agent_id c)),
      (''portal_agent_token'', json_option JText (cf_portal_agent_token c)), (''log_level'', JText (cf_log_level c))]"

definition config_names :: "string list" where
  "config_names = [''network'', ''public_bind'', ''admin_bind'', ''management_bind'', ''data_dir'', ''randomx_library'',
     ''randomx_mode'', ''node_enabled'', ''mining_enabled'', ''mining_threads'', ''mining_intensity'', ''miner_address'',
     ''seed_nodes'', ''peers'', ''max_inbound_peers'', ''max_outbound_peers'', ''public_url'', ''admin_secret'',
     ''device_id'', ''device_name'', ''node_private_key'', ''portal_url'', ''portal_agent_id'', ''portal_agent_token'',
     ''log_level'']"

text \<open>\<open>serde(default)\<close> on the struct: a missing member is that of \<open>Config::default()\<close>, here \<open>fresh\<close>, which
  draws new secrets whenever it is called; an array may be shorter than the struct.\<close>

definition default_struct_of :: "string list \<Rightarrow> json \<Rightarrow> (string \<Rightarrow> json option) option" where
  "default_struct_of names j =
     (case j of
        JArray vs \<Rightarrow>
          if length vs \<le> length names
          then Some (\<lambda>name. Option.bind (position name names) (\<lambda>i. if i < length vs then Some (vs ! i) else None)) else None
      | _ \<Rightarrow> struct_of names j)"

definition default_member :: "(string \<Rightarrow> json option) \<Rightarrow> string \<Rightarrow> (json \<Rightarrow> 'a option) \<Rightarrow> 'a \<Rightarrow> 'a option" where
  "default_member s name of_json d = (case s name of None \<Rightarrow> Some d | Some v \<Rightarrow> of_json v)"

definition null_or :: "(json \<Rightarrow> 'a option) \<Rightarrow> json \<Rightarrow> 'a option option" where
  "null_or of_json v = (case v of JNull \<Rightarrow> Some None | _ \<Rightarrow> map_option Some (of_json v))"

definition config_of_json :: "prims \<Rightarrow> config \<Rightarrow> json \<Rightarrow> config option" where
  "config_of_json E fresh j =
     Option.bind (default_struct_of config_names j) (\<lambda>s.
     Option.bind (default_member s ''network'' text_of_json (cf_network fresh)) (\<lambda>network.
     Option.bind (default_member s ''public_bind'' text_of_json (cf_public_bind fresh)) (\<lambda>public_bind.
     Option.bind (default_member s ''admin_bind'' text_of_json (cf_admin_bind fresh)) (\<lambda>admin_bind.
     Option.bind (default_member s ''management_bind'' text_of_json (cf_management_bind fresh)) (\<lambda>management_bind.
     Option.bind (default_member s ''data_dir'' text_of_json (cf_data_dir fresh)) (\<lambda>data_dir.
     Option.bind (default_member s ''randomx_library'' (null_or text_of_json) (cf_randomx_library fresh)) (\<lambda>library.
     Option.bind (default_member s ''randomx_mode'' mode_of_json (cf_randomx_mode fresh)) (\<lambda>mode.
     Option.bind (default_member s ''node_enabled'' bool_of_json (cf_node_enabled fresh)) (\<lambda>node_enabled.
     Option.bind (default_member s ''mining_enabled'' bool_of_json (cf_mining_enabled fresh)) (\<lambda>mining_enabled.
     Option.bind (default_member s ''mining_threads'' usize_of_json (cf_mining_threads fresh)) (\<lambda>threads.
     Option.bind (default_member s ''mining_intensity'' word_of_json (cf_mining_intensity fresh)) (\<lambda>intensity.
     Option.bind (default_member s ''miner_address'' (null_or (address_of_json E)) (cf_miner_address fresh)) (\<lambda>miner.
     Option.bind (default_member s ''seed_nodes'' (list_of_json text_of_json) (cf_seed_nodes fresh)) (\<lambda>seeds.
     Option.bind (default_member s ''peers'' (list_of_json text_of_json) (cf_peers fresh)) (\<lambda>peers.
     Option.bind (default_member s ''max_inbound_peers'' usize_of_json (cf_max_inbound_peers fresh)) (\<lambda>inbound.
     Option.bind (default_member s ''max_outbound_peers'' usize_of_json (cf_max_outbound_peers fresh)) (\<lambda>outbound.
     Option.bind (default_member s ''public_url'' (null_or text_of_json) (cf_public_url fresh)) (\<lambda>public_url.
     Option.bind (default_member s ''admin_secret'' text_of_json (cf_admin_secret fresh)) (\<lambda>secret.
     Option.bind (default_member s ''device_id'' text_of_json (cf_device_id fresh)) (\<lambda>device_id.
     Option.bind (default_member s ''device_name'' text_of_json (cf_device_name fresh)) (\<lambda>device_name.
     Option.bind (default_member s ''node_private_key'' text_of_json (cf_node_private_key fresh)) (\<lambda>key.
     Option.bind (default_member s ''portal_url'' (null_or text_of_json) (cf_portal_url fresh)) (\<lambda>portal_url.
     Option.bind (default_member s ''portal_agent_id'' (null_or text_of_json) (cf_portal_agent_id fresh)) (\<lambda>agent.
     Option.bind (default_member s ''portal_agent_token'' (null_or text_of_json) (cf_portal_agent_token fresh)) (\<lambda>token.
     Option.bind (default_member s ''log_level'' text_of_json (cf_log_level fresh)) (\<lambda>log_level.
       Some \<lparr>cf_network = network, cf_public_bind = public_bind, cf_admin_bind = admin_bind,
         cf_management_bind = management_bind, cf_data_dir = data_dir, cf_randomx_library = library,
         cf_randomx_mode = mode, cf_node_enabled = node_enabled, cf_mining_enabled = mining_enabled,
         cf_mining_threads = threads, cf_mining_intensity = intensity, cf_miner_address = miner,
         cf_seed_nodes = seeds, cf_peers = peers, cf_max_inbound_peers = inbound, cf_max_outbound_peers = outbound,
         cf_public_url = public_url, cf_admin_secret = secret, cf_device_id = device_id, cf_device_name = device_name,
         cf_node_private_key = key, cf_portal_url = portal_url, cf_portal_agent_id = agent,
         cf_portal_agent_token = token, cf_log_level = log_level\<rparr>))))))))))))))))))))))))))"

text \<open>The file as text: what \<open>load_or_create\<close> finds when it holds the JSON \<open>j\<close>.\<close>

definition file_of_json :: "prims \<Rightarrow> config \<Rightarrow> json \<Rightarrow> config_file" where
  "file_of_json E fresh j =
     (case config_of_json E fresh j of None \<Rightarrow> Unreadable (ConfigJson ''invalid config'') | Some c \<Rightarrow> Stored c)"

definition config_typed :: "prims \<Rightarrow> config \<Rightarrow> bool" where
  "config_typed E c \<longleftrightarrow> text_crates E \<and> pred_option (address_ok E) (cf_miner_address c)
     \<and> cf_mining_threads c < 2 ^ 64 \<and> cf_max_inbound_peers c < 2 ^ 64 \<and> cf_max_outbound_peers c < 2 ^ 64"

lemma usize_reads_back: "k < 2 ^ 64 \<Longrightarrow> usize_of_json (json_nat k) = Some k"
  by (simp add: usize_of_json_def json_nat_def)

lemma texts_read_back: "list_of_json text_of_json (json_texts ts) = Some ts"
proof -
  have "map_all text_of_json (map JText ts) = Some ts" by (induction ts) (simp_all add: text_of_json_def)
  then show ?thesis by (simp add: json_texts_def json_list_def list_of_json_def)
qed

lemma option_text_reads_back: "null_or text_of_json (json_option JText x) = Some x"
  by (cases x) (simp_all add: null_or_def json_option_def text_of_json_def)

lemma option_address_reads_back:
  "text_crates E \<Longrightarrow> pred_option (address_ok E) x \<Longrightarrow> null_or (address_of_json E) (json_option (json_address E) x) = Some x"
proof (cases x)
  case (Some a)
  assume "text_crates E" "pred_option (address_ok E) x"
  then have "address_of_json E (json_address E a) = Some a" using Some by (simp add: crate_simps)
  then show ?thesis using Some by (simp add: null_or_def json_option_def json_address_def)
qed (simp add: null_or_def json_option_def)

lemma mode_reads_back: "mode_of_json (json_mode m) = Some m"
  by (cases m) (simp_all add: mode_of_json_def json_mode_def json_text_def)

interpretation config_serde: serde "json_config E" "config_of_json E fresh" "config_typed E"
proof
  fix c assume c: "config_typed E c"
  then show "config_of_json E fresh (json_config E c) = Some c"
    by (simp add: config_typed_def json_config_def config_of_json_def default_struct_of_def struct_of_def json_object_def
        config_names_def default_member_def usize_reads_back texts_read_back option_text_reads_back
        option_address_reads_back mode_reads_back text_of_json_def bool_of_json_def)
qed (simp add: json_config_def json_object_def)

text \<open>A file without a secret has a new one at every load, and the load does not save it: whoever reads the secret
  off one process (\<open>admin-access\<close>) knows nothing about the next one (\<open>run\<close>).\<close>

lemma absent_member: "map_of members (ascii name) = None \<Longrightarrow> struct_of names (JObject members) = Some s \<Longrightarrow> s name = None"
  by (auto simp: struct_of_def split: if_splits)

lemma partial_config_drifts:
  assumes "map_of members (ascii ''admin_secret'') = None"
    and "file_of_json E fresh (JObject members) = Stored c" and "config_ok E W c" and "settled c"
  shows "cf_admin_secret c = cf_admin_secret fresh
    \<and> load_or_create E W dir fresh failure (file_of_json E fresh (JObject members)) = (Inr c, Stored c)
    \<and> (file_of_json E fresh' (JObject members) = Stored c' \<longrightarrow> cf_admin_secret c' = cf_admin_secret fresh')"
proof -
  have e: "cf_admin_secret d = cf_admin_secret f" if "file_of_json E f (JObject members) = Stored d" for f d
  proof -
    have c: "config_of_json E f (JObject members) = Some d"
      using that by (simp add: file_of_json_def split: option.splits)
    then obtain s where s: "struct_of config_names (JObject members) = Some s"
      by (cases "struct_of config_names (JObject members)") (simp_all add: config_of_json_def default_struct_of_def)
    have "s ''admin_secret'' = None" by (rule absent_member [OF assms(1) s])
    then show ?thesis using c s
      unfolding config_of_json_def default_struct_of_def by (auto simp: bind_eq_Some_conv default_member_def)
  qed
  then show ?thesis using assms(2-4) load_settled by simp
qed

section \<open>The command line\<close>

text \<open>\<open>show-config\<close>: a member that is there and not null is replaced by a fixed text.\<close>

definition redact_member :: "string \<Rightarrow> (bytes \<times> json) list \<Rightarrow> (bytes \<times> json) list" where
  "redact_member field members = map (\<lambda>(name, v).
     (name, if name = ascii field \<and> v \<noteq> JNull then json_text ''<redacted>'' else v)) members"

definition show_config :: "prims \<Rightarrow> config \<Rightarrow> json" where
  "show_config E c =
     (case json_config E c of
        JObject members \<Rightarrow> JObject (fold redact_member [''admin_secret'', ''node_private_key'', ''portal_agent_token''] members)
      | v \<Rightarrow> v)"

text \<open>\<open>init\<close>.\<close>

record init_args =
  ia_miner_address :: "bytes option"
  ia_enable_mining :: bool
  ia_mining_threads :: nat
  ia_mining_intensity :: u8
  ia_randomx_mode :: mining_mode
  ia_public_bind :: "bytes option"
  ia_admin_bind :: "bytes option"
  ia_management_bind :: "bytes option"
  ia_public_url :: "bytes option"

text \<open>What \<open>clap\<close> puts for options that are not given.\<close>

definition init_defaults :: init_args where
  "init_defaults = \<lparr>ia_miner_address = None, ia_enable_mining = False, ia_mining_threads = 0, ia_mining_intensity = 100,
     ia_randomx_mode = LightMode, ia_public_bind = None, ia_admin_bind = None, ia_management_bind = None,
     ia_public_url = None\<rparr>"

datatype cli_error = CliConfig config_error | CliAddress crypto_error | CliRandomX string | CliOpen open_error | CliKey

definition init_config :: "prims \<Rightarrow> init_args \<Rightarrow> config \<Rightarrow> cli_error + config" where
  "init_config E args c =
     rbind (case ia_miner_address args of None \<Rightarrow> Inr c
            | Some s \<Rightarrow> rbind (map_err CliAddress (address_from_str E s)) (\<lambda>a. Inr (c\<lparr>cf_miner_address := Some a\<rparr>))) (\<lambda>c.
     let set = \<lambda>x update c. (case x of None \<Rightarrow> c | Some v \<Rightarrow> update v c);
         c = c\<lparr>cf_mining_enabled := ia_enable_mining args, cf_mining_threads := ia_mining_threads args,
               cf_mining_intensity := ia_mining_intensity args, cf_randomx_mode := ia_randomx_mode args\<rparr>;
         c = set (ia_public_bind args) (\<lambda>v c. c\<lparr>cf_public_bind := v\<rparr>) c;
         c = set (ia_admin_bind args) (\<lambda>v c. c\<lparr>cf_admin_bind := v\<rparr>) c;
         c = set (ia_management_bind args) (\<lambda>v c. c\<lparr>cf_management_bind := v\<rparr>) c
     in Inr (set (ia_public_url args) (\<lambda>v c. c\<lparr>cf_public_url := if v = [] then None else Some v\<rparr>) c))"

definition cli_load :: "prims \<Rightarrow> host \<Rightarrow> config_file \<Rightarrow> (cli_error + config) \<times> config_file" where
  "cli_load E H file = apfst (map_err CliConfig) (load_or_create E (ho_web H) (ho_dir H) (ho_fresh H) (ho_load_failure H) file)"

definition cli_init :: "prims \<Rightarrow> host \<Rightarrow> init_args \<Rightarrow> config_file \<Rightarrow> (cli_error + unit) \<times> config_file" where
  "cli_init E H args file =
     (case cli_load E H file of
        (Inl e, file) \<Rightarrow> (Inl e, file)
      | (Inr c, file) \<Rightarrow>
          (case rbind (init_config E args c) (\<lambda>c. rbind (map_err CliConfig (config_validate E (ho_web H) c)) (\<lambda>_. Inr c)) of
             Inl e \<Rightarrow> (Inl e, file)
           | Inr c \<Rightarrow> apfst (map_err CliConfig) (config_save (ho_save_failure H) c file)))"

definition cli_show_config :: "prims \<Rightarrow> host \<Rightarrow> config_file \<Rightarrow> (cli_error + json) \<times> config_file" where
  "cli_show_config E H file = apfst (\<lambda>r. rbind r (\<lambda>c. Inr (show_config E c))) (cli_load E H file)"

text \<open>\<open>admin-access\<close>: the lines it prints; \<open>lan\<close> is the socket address of the LAN in text, if one is found.\<close>

definition cli_admin_access :: "prims \<Rightarrow> host \<Rightarrow> (nat \<Rightarrow> bytes option) \<Rightarrow> config_file \<Rightarrow> (cli_error + bytes list) \<times> config_file" where
  "cli_admin_access E H lan file = apfst (\<lambda>r. rbind r (\<lambda>c.
     rbind (ok_or (socket_addr (cf_management_bind c)) (CliConfig BadManagementBind)) (\<lambda>(_, port).
     Inr ([ascii ''Management URL: http://'' @ cf_device_name c @ ascii ''.local:'' @ decimal port,
           ascii ''Local fallback: http://127.0.0.1:'' @ decimal port]
       @ (case lan port of None \<Rightarrow> []
          | Some address \<Rightarrow> [ascii ''LAN management: http://'' @ address @ ascii ''/'',
              ascii ''Direct login: http://'' @ address @ ascii ''/#secret='' @ cf_admin_secret c])
       @ [ascii ''Admin secret: '' @ cf_admin_secret c,
          ascii ''Keep this secret private; no wallet key or seed phrase is needed.''])))) (cli_load E H file)"

definition cli_print_genesis :: "(bytes \<Rightarrow> bytes) \<Rightarrow> prims \<Rightarrow> json" where
  "cli_print_genesis base64 E = json_object
     [(''id'', json_hash E (block_id E (genesis E))), (''block'', json_block E (genesis E)),
      (''consensus_base64'', JText (base64 (block_enc (genesis E))))]"

section \<open>Opening a node\<close>

text \<open>\<open>Node::open\<close>: the database is a file of the data directory, named after the genesis block.\<close>

definition database_path :: "prims \<Rightarrow> config \<Rightarrow> bytes" where
  "database_path E c = path_join (cf_data_dir c)
     (ascii ''chain-'' @ hash_to_string E (block_id E (genesis E)) @ ascii ''.sqlite'')"

definition node_config_of :: "config \<Rightarrow> node_config" where
  "node_config_of c = \<lparr>nc_miner_address = cf_miner_address c, nc_max_inbound_peers = cf_max_inbound_peers c,
     nc_max_outbound_peers = cf_max_outbound_peers c\<rparr>"

definition process_open ::
    "prims \<Rightarrow> web \<Rightarrow> pow_verifier \<Rightarrow> u64 \<Rightarrow> config \<Rightarrow> config_file \<Rightarrow> (bytes \<rightharpoonup> storage)
     \<Rightarrow> (cli_error + admin \<times> (bytes \<rightharpoonup> storage)) option" where
  "process_open E W pow now c file databases =
     (let path = database_path E c;
          db = (case databases path of None \<Rightarrow> storage_empty | Some db \<Rightarrow> db)
      in map_option (\<lambda>r.
        rbind (map_err CliOpen r) (\<lambda>(chain, db).
        rbind (ok_or (hex_decode E (cf_node_private_key c)) CliKey) (\<lambda>secret.
        rbind (ensure (secret_key_valid W secret) CliKey) (\<lambda>_.
        Inr (\<lparr>ad_disk = file, ad_startup = c, ad_live = c, ad_enabled = cf_node_enabled c, ad_restart = False,
              ad_node = node_open (node_config_of c) E chain db\<rparr>, databases(path \<mapsto> db))))))
        (open_chain E pow now db))"

text \<open>\<open>check\<close> and the start of \<open>run\<close>: configuration, RandomX, node.  \<open>randomx\<close> is the outcome of loading the library
  with the configured path and mode.\<close>

definition cli_start ::
    "prims \<Rightarrow> host \<Rightarrow> (bytes option \<Rightarrow> mining_mode \<Rightarrow> string + pow_verifier) \<Rightarrow> u64 \<Rightarrow> config_file \<Rightarrow> (bytes \<rightharpoonup> storage)
     \<Rightarrow> ((cli_error + admin \<times> (bytes \<rightharpoonup> storage)) \<times> config_file) option" where
  "cli_start E H randomx now file databases =
     (case cli_load E H file of
        (Inl e, file) \<Rightarrow> Some (Inl e, file)
      | (Inr c, file) \<Rightarrow>
          (case randomx (cf_randomx_library c) (cf_randomx_mode c) of
             Inl e \<Rightarrow> Some (Inl (CliRandomX e), file)
           | Inr pow \<Rightarrow> map_option (\<lambda>r. (r, file)) (process_open E (ho_web H) pow now c file databases)))"

definition check_report :: "prims \<Rightarrow> admin \<Rightarrow> bytes" where
  "check_report E st =
     ascii ''OK: Protocol '' @ decimal (unat PROTOCOL_VERSION) @ ascii '', height '' @ decimal (unat (chain_height (nd_chain (ad_node st))))
     @ ascii '', tip '' @ hash_to_string E (block_id E (chain_tip (nd_chain (ad_node st))))"

definition cli_check ::
    "prims \<Rightarrow> host \<Rightarrow> (bytes option \<Rightarrow> mining_mode \<Rightarrow> string + pow_verifier) \<Rightarrow> u64 \<Rightarrow> config_file \<Rightarrow> (bytes \<rightharpoonup> storage)
     \<Rightarrow> ((cli_error + bytes) \<times> config_file) option" where
  "cli_check E H randomx now file databases =
     map_option (apfst (\<lambda>r. rbind r (\<lambda>(st, _). Inr (check_report E st)))) (cli_start E H randomx now file databases)"

section \<open>Service discovery\<close>

text \<open>\<open>mdns::register\<close>: what is announced.\<close>

record service =
  sv_type :: bytes
  sv_name :: bytes
  sv_hostname :: bytes
  sv_port :: nat
  sv_properties :: "(bytes \<times> bytes) list"

definition SERVICE_TYPE :: bytes where "SERVICE_TYPE = ascii ''_paritr-node._tcp.local.''"

definition local_hostname :: "bytes \<Rightarrow> bytes" where
  "local_hostname name = name @ ascii ''.local.''"

definition mdns_register :: "config \<Rightarrow> service option" where
  "mdns_register c = map_option (\<lambda>(_, port).
     \<lparr>sv_type = SERVICE_TYPE, sv_name = cf_device_name c, sv_hostname = local_hostname (cf_device_name c), sv_port = port,
      sv_properties = [(ascii ''id'', cf_device_id c), (ascii ''chain'', CHAIN_ID), (ascii ''version'', NODE_VERSION),
        (ascii ''path'', ascii ''/'')]\<rparr>) (socket_addr (cf_management_bind c))"

text \<open>\<open>mdns::name_available\<close>: the events of 900 milliseconds of browsing; the list ends with the time.\<close>

datatype mdns_event = ServiceResolved bytes "bytes option" | OtherEvent | BrowseClosed

fun name_available :: "bytes \<Rightarrow> bytes \<Rightarrow> mdns_event list \<Rightarrow> bool" where
  "name_available name own [] = True"
| "name_available name own (ServiceResolved hostname device # events) =
     (if to_ascii_lowercase hostname = to_ascii_lowercase (local_hostname name) \<and> device \<noteq> Some own then False
      else name_available name own events)"
| "name_available name own (OtherEvent # events) = name_available name own events"
| "name_available name own (BrowseClosed # events) = True"

section \<open>What the commands promise\<close>

text \<open>A name is free unless another device announces it before the browsing ends.\<close>

lemma name_available_iff:
  "name_available name own events \<longleftrightarrow>
     (\<forall>hostname device. ServiceResolved hostname device \<in> set (takeWhile (\<lambda>e. e \<noteq> BrowseClosed) events)
       \<longrightarrow> to_ascii_lowercase hostname = to_ascii_lowercase (local_hostname name) \<longrightarrow> device = Some own)"
  by (induction name own events rule: name_available.induct) auto

text \<open>\<open>init\<close> refuses and changes nothing, or leaves a valid file that is read back; without options it switches
  mining off and resets threads, intensity and mode of a file that is there already.\<close>

lemma init_writes_valid:
  assumes "cli_init E H args file = (r, file')"
  shows "(r = Inr () \<and> (\<exists>c. file' = Stored c \<and> config_ok E (ho_web H) c)) \<or> (\<exists>e. r = Inl e \<and> file' = snd (cli_load E H file))"
proof (cases "cli_load E H file")
  case (Pair x f)
  show ?thesis
  proof (cases x)
    case (Inl e)
    then show ?thesis using assms Pair by (auto simp: cli_init_def)
  next
    case (Inr c)
    show ?thesis
    proof (cases "rbind (init_config E args c) (\<lambda>c. rbind (map_err CliConfig (config_validate E (ho_web H) c)) (\<lambda>_. Inr c))")
      case (Inl e)
      then show ?thesis using assms Pair Inr by (auto simp: cli_init_def)
    next
      case ok: (Inr c')
      then have "config_validate E (ho_web H) c' = Inr ()"
        by (auto simp: rbind_Inr map_err_def split: sum.splits)
      then show ?thesis using assms Pair Inr ok
        by (cases "ho_save_failure H") (auto simp: cli_init_def config_save_def map_err_def config_ok_def)
    qed
  qed
qed

lemma init_resets_mining:
  "init_config E init_defaults c = Inr (c\<lparr>cf_mining_enabled := False, cf_mining_threads := 0, cf_mining_intensity := 100,
     cf_randomx_mode := LightMode\<rparr>)"
  by (simp add: init_config_def init_defaults_def rbind_def)

text \<open>\<open>show-config\<close> tells everything but the secrets, and whether there is a token.\<close>

definition mask :: "config \<Rightarrow> config" where
  "mask c = c\<lparr>cf_admin_secret := ascii ''<redacted>'', cf_node_private_key := ascii ''<redacted>'',
     cf_portal_agent_token := map_option (\<lambda>_. ascii ''<redacted>'') (cf_portal_agent_token c)\<rparr>"

lemma show_config_masks: "show_config E c = json_config E (mask c)"
proof -
  have t: "(if json_option JText x \<noteq> JNull then json_text ''<redacted>'' else json_option JText x)
      = json_option JText (map_option (\<lambda>_. ascii ''<redacted>'') x)" for x
    by (cases x) (simp_all add: json_option_def json_text_def)
  show ?thesis
    by (simp add: show_config_def json_config_def json_object_def redact_member_def mask_def t json_text_def)
qed

theorem show_config_hides:
  assumes "config_typed E c" "config_typed E c'"
  shows "show_config E c = show_config E c' \<longleftrightarrow>
    redact c = redact c' \<and> (cf_portal_agent_token c = None \<longleftrightarrow> cf_portal_agent_token c' = None)"
proof
  assume "show_config E c = show_config E c'"
  moreover have "config_typed E (mask c)" "config_typed E (mask c')" using assms by (simp_all add: config_typed_def mask_def)
  ultimately have m: "mask c = mask c'" using config_serde.unique by (simp add: show_config_masks)
  then have "redact (mask c) = redact (mask c')" by simp
  moreover have "redact (mask d) = redact d" for d by (simp add: mask_def redact_def)
  moreover have "(cf_portal_agent_token (mask d) = None) = (cf_portal_agent_token d = None)" for d by (simp add: mask_def)
  ultimately show "redact c = redact c' \<and> (cf_portal_agent_token c = None \<longleftrightarrow> cf_portal_agent_token c' = None)"
    using m by metis
next
  assume r: "redact c = redact c' \<and> (cf_portal_agent_token c = None \<longleftrightarrow> cf_portal_agent_token c' = None)"
  have "mask d = mask (redact d\<lparr>cf_portal_agent_token := map_option (\<lambda>_. []) (cf_portal_agent_token d)\<rparr>)" for d
    by (simp add: mask_def redact_def option.map_comp comp_def)
  moreover have "map_option (\<lambda>_. [] :: bytes) (cf_portal_agent_token c) = map_option (\<lambda>_. []) (cf_portal_agent_token c')"
    using r by (cases "cf_portal_agent_token c"; cases "cf_portal_agent_token c'") simp_all
  ultimately have "mask c = mask c'" using r by metis
  then show "show_config E c = show_config E c'" by (simp add: show_config_masks)
qed



end
