(* ===== verification/Spec2Isabelle.thy ===== *)
theory Spec2Isabelle
  imports Consensus_Properties Miner_Loop Dialing Portal Native_Library Command_Line
begin

text \<open>
  A model of the Paritr node, a proof-of-work full node for a cryptocurrency written in Rust, and the
  theorems that make it correct.  Paths are relative to \<open>src\<close> of the repository.

  The program and its parts.  Blocks carry transfers between accounts, a claim on the block reward and a
  witness of workshares, the cheaper proofs of work that divide the reward.  The consensus core decides
  which chains of blocks are valid and which is the best; the node keeps the best chain, a pool of
  transactions, a pool of live workshares and a database, serves peers, miners and an HTTP API from one
  shared state, and is administered over HTTP, by its owner or by a portal it polls.

  Conventions.  A struct is a record, an enum a datatype, a machine integer a word of its width with
  checked, wrapping or saturating operations as in the code, a \<open>usize\<close> a natural number.  A \<open>Result\<close> is
  a sum with the error on the left; a panic is \<open>None\<close> of an option around it.  A \<open>BTreeMap\<close> is an association
  list sorted by key.  A lock that an operation holds to its end makes the operation one step; where the
  code releases it in between, the model has several steps (connections, the threads of RandomX, a change
  of settings).  The clock, random numbers, the outcome of allocations, sockets, the network and the file
  system are arguments.  Crates are parameters: the record \<open>prims\<close> (hashes, signatures, base58, hex), the
  argument \<open>pow\<close> (the proof of work), the record \<open>web\<close> (URLs), the record \<open>randomx_library\<close>.  What a
  theorem needs of them is a named hypothesis: \<open>identity_ok\<close>, \<open>hex_crate\<close>, \<open>bs58_crate\<close>, \<open>url_crate\<close>
  and \<open>randomx_documented\<close>.

  The theories, from the bottom.
  \<^item> \<open>Prelude\<close>, \<open>Byte_Array\<close>, \<open>Std_Map\<close>, \<open>Std_Text\<close>: integers, results, byte arrays, maps, strings, numbers and
    socket addresses of Rust's standard library.
  \<^item> \<open>Codec\<close> (\<open>codec.rs\<close>), \<open>Crypto\<close> (\<open>crypto.rs\<close>), \<open>Params\<close>, \<open>Difficulty\<close>, \<open>Objects\<close> (\<open>consensus/types.rs\<close>):
    the codec and its interface, the locale \<open>codec\<close>, of which every encodable object is an interpretation;
    hashes, addresses and signatures; constants and schedules; compact targets, the retarget rule and
    work; transactions, blocks, shares and their ids.
  \<^item> \<open>Sparse_Merkle\<close>, \<open>Ledger\<close> (\<open>consensus/state.rs\<close>): the cached tree against its recursive specification,
    and the ledger over the interface \<open>authenticated_map\<close>, with its snapshots.
  \<^item> \<open>Rewards\<close>, \<open>Validation\<close>, \<open>Chain_State\<close> (\<open>consensus/rewards.rs\<close>, \<open>validation.rs\<close>, \<open>chain.rs\<close>): the division
    of the reward, the rules for blocks, and the active chain with import, extension and fork choice.
    \<open>Sample_Env\<close> and \<open>Sample_Chain\<close> are the concrete input of the witnesses, \<open>Consensus_Properties\<close> the
    properties of this core: supply, nonces, the exact effect of a block.
  \<^item> \<open>Mempool\<close> (\<open>policy.rs\<close>, \<open>mempool.rs\<close>), \<open>Workshare_Pool\<close> and \<open>Live_Pool\<close> (the pool of \<open>node.rs\<close>): the
    pools, their invariants, and that what they hand to the miner passes consensus.
  \<^item> \<open>Storage\<close> (\<open>storage.rs\<close>): the tables, the transaction that saves a chain and the way back.
  \<^item> \<open>Wire\<close> and \<open>Session\<close> (\<open>p2p.rs\<close>): messages, frames, the message budget, greetings; the handshake and the
    loop of a connection as an inductive relation over its turns, interleaved with everything else the
    node does.  \<open>Dialing\<close>: which peers are dialed, and the check of their addresses.
  \<^item> \<open>Node_State\<close> (\<open>node.rs\<close>): every operation on the node, the handler of messages among them;
    \<open>Node_Invariant\<close>: the invariant \<open>node_ok\<close>, kept by every operation, the step relation \<open>node_step\<close> and
    the reachable states \<open>node_run\<close>, restarts included; \<open>Node_Properties\<close>: what follows along every run.
  \<^item> \<open>Binding\<close>, \<open>State_Root\<close>: what the identifier of a block and the state root in its header commit to, and
    that nodes which hear of the same chains agree.
  \<^item> \<open>Views\<close>, \<open>History\<close>: what the node reports about supply, rewards and accounts, against the ledger and the
    blocks; \<open>Status\<close>: the status report, the state snapshot and the memory probe.
  \<^item> \<open>Mining\<close>, \<open>Mined_Shares\<close>, \<open>Miner_Loop\<close> (\<open>miner.rs\<close>): candidates, the objects mined on them and why they
    are accepted, and the search of a nonce.
  \<^item> \<open>RandomX\<close> and \<open>Native_Library\<close> (\<open>pow.rs\<close>): contexts, datasets, machines and the threads that share them;
    the search for the library, and the native memory of a context from its construction to its drop.
  \<^item> \<open>Config\<close> (\<open>config.rs\<close>), \<open>Admin\<close> and \<open>Rpc\<close> (\<open>rpc.rs\<close>), \<open>Portal\<close> (\<open>portal.rs\<close>): the configuration and
    its file; the requests of the administration, each an interpretation of the contract
    \<open>settings_request\<close>; the public interface; the agent that relays commands of the portal.
  \<^item> \<open>Json\<close> (\<open>types.rs\<close>, \<open>crypto.rs\<close>), \<open>Answers\<close>, \<open>Submission\<close>, \<open>Router\<close>, \<open>Confidentiality\<close> (\<open>rpc.rs\<close>): the JSON
    of the consensus objects over the interfaces \<open>serde\<close> and \<open>typed_reader\<close>; the answers; what becomes of
    objects that did not pass the codec; the routes of the three listeners; and what the interface keeps to itself.
  \<^item> \<open>Command_Line\<close> (\<open>main.rs\<close>, \<open>mdns.rs\<close>, \<open>Node::open\<close>): the configuration file as JSON, the commands, the start
    of a process on its file and database, and the service it announces.

  What the theorems show.  A node that runs from an empty database under any messages, submissions,
  connections and restarts has a valid chain in its memory and in its database, and only ever gives it up
  for a better one; no peer can make a handler panic or hang; the money in the ledger is the sum of the
  subsidies; a block identifier fixes the chain and the ledger behind it, up to a collision of the hash
  among inputs that are written out, so nodes agree; pools hand out what consensus accepts, and what the node mines is accepted by it; every
  encoding has one reading; reports agree with the chain; the proof of work is a function whatever its
  threads do, and its native memory is neither leaked nor used after its release; the configuration stays valid; every request to the interface is answered, without the secret it reaches
  nothing but the ledger, and its answers do not depend on any secret.  Some theorems state
  defects that the model showed; they are listed with the findings of the manifest.

  Bounds.  A chain is \<open>young\<close> while it has at most 2^32 blocks, so that heights, sums and work do
  not overflow; a locator fits its frame up to 2^54 blocks; the slices of a RandomX dataset are right
  while items times threads stays below 2^64.  Recursions without a bound in the code are functions with a
  termination proof (the codec loops, trimming, the parser of addresses) or, for the orphan shares, a
  \<open>partial_function\<close> in \<open>option\<close> that is proved to return.

  Not modelled.  HTTP and the refusals of its framework, the text of JSON, TLS and WebSocket framing, SQLite, the RandomX library and the operating
  system behind it are external.  The floating-point numbers of the reports are the rationals they round.
  The texts of errors are a parameter.  The parsing of the command line, the log and the mDNS daemon are external.
  \<open>Storage::load_peers\<close> has no caller.  Throttling only sleeps and is left out.
\<close>

end
